(* ===== verification/Prelude.thy ===== *)
theory Prelude
  imports Complex_Main "HOL-Library.AList" "HOL-Library.Char_ord" "HOL-Library.List_Lexorder"
begin

text \<open>
  The shared prelude of the development: the collections of simplification rules the component
  theories fill, the Python values that cross several components (opaque JSON values, exceptions
  as values, dictionaries), and the generic lemmas on lists, separators and association lists the
  component proofs rest on.

  Conventions used throughout:
  \<^item> a Python \<open>float\<close> is the rational it denotes (\<open>rat\<close>): comparison is exact, and the rounding
    of a sum is not modelled;
  \<^item> an aware \<open>datetime\<close> is its instant in microseconds since the epoch (\<open>instant\<close>, an \<open>int\<close>), and
    a \<open>timedelta\<close> a number of microseconds: Python's own resolution of both;
  \<^item> an ISO-8601 field that the code writes with \<open>isoformat()\<close> and reads back with
    \<open>fromisoformat()\<close> is the instant it denotes;
  \<^item> a \<open>dict\<close> is an association list with distinct keys, updated with \<open>AList.update\<close> (in place for
    a present key, at the end for a new one) and \<open>AList.delete\<close>: Python's insertion order;
  \<^item> a value typed \<open>Any\<close> in the source is a \<open>json\<close> value;
  \<^item> a raised exception is a value \<open>Inl e\<close> of a sum type; a message that no code reads back is
    shortened to the words that identify the check;
  \<^item> strings are compared and sorted by code point, the order of \<^verbatim>\<open>Char_ord\<close> and \<^verbatim>\<open>List_Lexorder\<close>.
\<close>

section \<open>Collections of rules\<close>

named_theorems store_simps \<open>equations of store operations\<close>
named_theorems pdp_simps \<open>unfolding of the policy rule table\<close>
named_theorems schema_simps \<open>unfolding of derived schema attributes\<close>

section \<open>Python values\<close>

type_synonym instant = int
type_synonym timedelta = int

datatype json =
    JNull
  | JBool bool
  | JNum rat
  | JStr string
  | JList "json list"
  | JObj "(string \<times> json) list"

text \<open>An exception that reaches the caller: its class and its \<open>str()\<close>.\<close>

datatype exn = Exn (exn_class: string) (exn_str: string)

abbreviation ValueError :: "string \<Rightarrow> exn" where
  "ValueError m \<equiv> Exn ''ValueError'' m"

abbreviation KeyError :: "string \<Rightarrow> exn" where
  "KeyError m \<equiv> Exn ''KeyError'' m"

type_synonym ('k, 'v) dict = "('k \<times> 'v) list"

text \<open>Sequencing of fallible steps: the first \<open>Inl\<close> ends the computation, as a \<open>raise\<close> does.\<close>

definition bind_r :: "'e + 'a \<Rightarrow> ('a \<Rightarrow> 'e + 'b) \<Rightarrow> 'e + 'b" where
  "bind_r m f = (case m of Inl e \<Rightarrow> Inl e | Inr x \<Rightarrow> f x)"

text \<open>\<open>if not cond: raise e\<close>\<close>

definition guard_r :: "bool \<Rightarrow> 'e \<Rightarrow> 'e + unit" where
  "guard_r b e = (if b then Inr () else Inl e)"

section \<open>Strings\<close>

text \<open>\<open>repr\<close> of a string over Latin-1 characters: single quotes unless the text holds a single quote
  and no double quote; the quote and the backslash escaped; tab, newline and return by name; other
  non-printable characters as \<open>\x\<close> and two hexadecimal digits.\<close>

definition hex_digit :: "nat \<Rightarrow> char" where
  "hex_digit n = ''0123456789abcdef'' ! (n mod 16)"

definition char_printable :: "char \<Rightarrow> bool" where
  "char_printable c =
     (let n = (of_char c :: nat) in
      (32 \<le> n \<and> n < 127) \<or> (161 \<le> n \<and> n \<noteq> 173))"

definition repr_char :: "char \<Rightarrow> char \<Rightarrow> string" where
  "repr_char q c =
     (if c = q \<or> c = CHR 0x5C then [CHR 0x5C, c]
      else if c = CHR 0x09 then [CHR 0x5C, CHR ''t'']
      else if c = CHR 0x0A then [CHR 0x5C, CHR ''n'']
      else if c = CHR 0x0D then [CHR 0x5C, CHR ''r'']
      else if char_printable c then [c]
      else [CHR 0x5C, CHR ''x'', hex_digit ((of_char c :: nat) div 16), hex_digit (of_char c)])"

definition py_repr :: "string \<Rightarrow> string" where
  "py_repr s =
     (let q = (if CHR 0x27 \<in> set s \<and> CHR 0x22 \<notin> set s then CHR 0x22 else CHR 0x27)
      in [q] @ concat (map (repr_char q) s) @ [q])"

definition bool_str :: "bool \<Rightarrow> string" where
  "bool_str b = (if b then ''True'' else ''False'')"

definition opt_bool_str :: "bool option \<Rightarrow> string" where
  "opt_bool_str b = (case b of None \<Rightarrow> ''None'' | Some x \<Rightarrow> bool_str x)"

definition startswith :: "string \<Rightarrow> string \<Rightarrow> bool" where
  "startswith s p = (take (length p) s = p)"

text \<open>\<open>str.isdigit\<close> over Latin-1: the decimal digits and the three superscript digits.\<close>

definition char_isdigit :: "char \<Rightarrow> bool" where
  "char_isdigit c =
     (let n = (of_char c :: nat) in (48 \<le> n \<and> n \<le> 57) \<or> n = 178 \<or> n = 179 \<or> n = 185)"

definition py_isdigit :: "string \<Rightarrow> bool" where
  "py_isdigit s = (s \<noteq> [] \<and> list_all char_isdigit s)"

section \<open>Generic lemmas\<close>

lemma bind_r_simps [simp]:
  "bind_r (Inl e) f = Inl e"
  "bind_r (Inr x) f = f x"
  by (simp_all add: bind_r_def)

lemma bind_r_Inr_iff:
  "bind_r m f = Inr y \<longleftrightarrow> (\<exists>x. m = Inr x \<and> f x = Inr y)"
  by (cases m) auto

lemma bind_r_assoc: "bind_r (bind_r m f) g = bind_r m (\<lambda>x. bind_r (f x) g)"
  by (cases m) auto

lemma guard_r_simps [simp]:
  "guard_r True e = Inr ()"
  "guard_r False e = Inl e"
  by (simp_all add: guard_r_def)

lemma guard_r_Inr_iff [simp]: "guard_r b e = Inr u \<longleftrightarrow> b"
  by (simp add: guard_r_def)

lemma guard_r_Inl_iff [simp]: "guard_r b e = Inl e' \<longleftrightarrow> \<not> b \<and> e' = e"
  by (auto simp: guard_r_def)

text \<open>A field followed by a separator that does not occur in it can be read back.\<close>

lemma append_sep_inject:
  assumes "c \<notin> set a" and "c \<notin> set b"
  shows "a @ c # x = b @ c # y \<longleftrightarrow> a = b \<and> x = y"
  using assms
proof (induction a arbitrary: b)
  case Nil
  then show ?case by (cases b) auto
next
  case (Cons h t)
  then show ?case by (cases b) auto
qed

lemma count_list_append_eq [simp]: "count_list (xs @ ys) c = count_list xs c + count_list ys c"
  by (induction xs) auto

lemma startswith_append [simp]: "startswith (p @ s) p"
  by (simp add: startswith_def)

lemma startswithE: "startswith s p \<Longrightarrow> \<exists>t. s = p @ t"
  unfolding startswith_def by (metis append_take_drop_id)

lemmas dict_conv [store_simps] = update_conv' delete_conv'

lemma map_of_update_same [simp]: "map_of (AList.update k v al) k = Some v"
  by (simp add: update_conv')

lemma map_of_update_other [simp]:
  "k' \<noteq> k \<Longrightarrow> map_of (AList.update k v al) k' = map_of al k'"
  by (simp add: update_conv')

lemma map_of_delete_same [simp]: "map_of (AList.delete k al) k = None"
  by (simp add: delete_conv')

end
