(* ===== verification/Schemas.thy ===== *)
theory Schemas
  imports Prelude
begin

text \<open>
  The broker's base schemas (\<open>safe_agents/broker/schemas\<close>): principals, autonomy levels, static tool
  manifest entries, taint, the brokered call, constructed confidence, and the five decision verbs.
  Autonomy levels form a linear order by \<open>AUTONOMY_RANK\<close>, which is registered as an instance of
  \<^verbatim>\<open>linorder\<close>, so comparisons of levels in other components use the library's order.
\<close>

section \<open>Autonomy levels\<close>

datatype AutonomyLevel = in_loop | on_loop | out_of_loop

definition AUTONOMY_RANK :: "AutonomyLevel \<Rightarrow> int" where
  "AUTONOMY_RANK l = (case l of in_loop \<Rightarrow> 0 | on_loop \<Rightarrow> 1 | out_of_loop \<Rightarrow> 2)"

instantiation AutonomyLevel :: linorder
begin

definition less_eq_AutonomyLevel :: "AutonomyLevel \<Rightarrow> AutonomyLevel \<Rightarrow> bool" where
  "less_eq_AutonomyLevel a b \<longleftrightarrow> AUTONOMY_RANK a \<le> AUTONOMY_RANK b"

definition less_AutonomyLevel :: "AutonomyLevel \<Rightarrow> AutonomyLevel \<Rightarrow> bool" where
  "less_AutonomyLevel a b \<longleftrightarrow> AUTONOMY_RANK a < AUTONOMY_RANK b"

instance
  by standard
    (auto simp: less_eq_AutonomyLevel_def less_AutonomyLevel_def AUTONOMY_RANK_def
      split: AutonomyLevel.splits)

end

definition level_str :: "AutonomyLevel \<Rightarrow> string" where
  "level_str l = (case l of in_loop \<Rightarrow> ''in-loop'' | on_loop \<Rightarrow> ''on-loop'' | out_of_loop \<Rightarrow> ''out-of-loop'')"

datatype DemotionTrigger =
  stale_confidence | corroboration_failure | budget_breach | false_action

section \<open>Principals\<close>

datatype tier = TierA | TierB | TierC | TierD

definition tier_str :: "tier \<Rightarrow> string" where
  "tier_str t = (case t of TierA \<Rightarrow> ''A'' | TierB \<Rightarrow> ''B'' | TierC \<Rightarrow> ''C'' | TierD \<Rightarrow> ''D'')"

record Principal =
  agentId :: string
  skill :: string
  user :: string
  tier :: tier

text \<open>The rendering \<open>agentId#skill#user#tier\<close> every principal-scoped key of the broker shares.\<close>

definition principal_key :: "Principal \<Rightarrow> string" where
  "principal_key p = agentId p @ ''#'' @ skill p @ ''#'' @ user p @ ''#'' @ tier_str (tier p)"

section \<open>Static tool manifest entries\<close>

datatype effect_kind = read_effect | write_effect

datatype causes_target = SelfTarget | ChildTarget Principal

record CausesContext =
  target :: causes_target
  horizon_seconds :: int

record ToolOp =
  op_tool :: string
  op_op :: string
  effect :: effect_kind
  external :: bool
  reversible :: "bool option"
  egress_arg :: "string option"
  destination_arg :: "string option"
  causes_context :: "CausesContext option"

section \<open>Constructed confidence\<close>

datatype ConfidenceEvidence =
    SelfConsistencyEvidence (samples: int) (sc_agreement: rat)
  | EnsembleEvidence (members: int) (en_agreement: rat)
  | ConformalEvidence (coverage: rat) (threshold: rat) (calibration_size: int)

datatype ConfidenceMethod = self_consistency | ensemble | conformal

definition evidence_method :: "ConfidenceEvidence \<Rightarrow> ConfidenceMethod" where
  "evidence_method e =
     (case e of SelfConsistencyEvidence _ _ \<Rightarrow> self_consistency
      | EnsembleEvidence _ _ \<Rightarrow> ensemble
      | ConformalEvidence _ _ _ \<Rightarrow> conformal)"

record ConfidenceArtifact =
  confidence_value :: rat
  error_prob :: rat
  evidence :: ConfidenceEvidence
  stale :: bool
  computed_at :: instant
  annotations :: "string list"

section \<open>Brokered calls\<close>

record Taint =
  tainted :: bool
  sources :: "string list"

record Session =
  turnId :: string
  ingestedSources :: "string list"

record BrokeredCall =
  bc_principal :: Principal
  bc_tool :: string
  bc_op :: string
  bc_args :: json
  bc_manifest :: ToolOp
  bc_taint :: Taint
  bc_session :: Session
  bc_ts :: string
  bc_confidence :: "ConfidenceArtifact option"

section \<open>Decisions\<close>

record RenderedIntent =
  intent_id :: string
  renderedForHuman :: string

datatype Decision =
    Allow
  | Deny (deny_reason: string)
  | Transform (transform_to: string) (transform_args: json)
  | RequireApproval (renderedIntent: RenderedIntent) (approval_reason: "string option")
  | Abstain (escalate: bool) (abstain_reason: string)

datatype decision_kind = k_allow | k_deny | k_transform | k_require_approval | k_abstain

definition kind :: "Decision \<Rightarrow> decision_kind" where
  "kind d =
     (case d of Allow \<Rightarrow> k_allow
      | Deny _ \<Rightarrow> k_deny
      | Transform _ _ \<Rightarrow> k_transform
      | RequireApproval _ _ \<Rightarrow> k_require_approval
      | Abstain _ _ \<Rightarrow> k_abstain)"

text \<open>\<open>decision.kind in ("allow", "transform")\<close>: the two verbs that execute.\<close>

definition executes :: "Decision \<Rightarrow> bool" where
  "executes d \<longleftrightarrow> kind d = k_allow \<or> kind d = k_transform"

lemma kind_simps [simp]:
  "kind Allow = k_allow"
  "kind (Deny r) = k_deny"
  "kind (Transform p a) = k_transform"
  "kind (RequireApproval i r') = k_require_approval"
  "kind (Abstain e r) = k_abstain"
  by (simp_all add: kind_def)

lemma executes_simps [simp]:
  "executes Allow"
  "\<not> executes (Deny r)"
  "executes (Transform p a)"
  "\<not> executes (RequireApproval i r')"
  "\<not> executes (Abstain e r)"
  by (simp_all add: executes_def)

lemma executes_cases: "executes d \<longleftrightarrow> d = Allow \<or> (\<exists>p a. d = Transform p a)"
  by (cases d) auto

lemma level_le_simps [simp]:
  "in_loop \<le> l"
  "l \<le> out_of_loop"
  "\<not> on_loop \<le> in_loop"
  "\<not> out_of_loop \<le> in_loop"
  "\<not> out_of_loop \<le> on_loop"
  by (cases l; simp add: less_eq_AutonomyLevel_def AUTONOMY_RANK_def)+

lemma tier_str_inject [simp]: "tier_str a = tier_str b \<longleftrightarrow> a = b"
  by (cases a; cases b) (simp_all add: tier_str_def)

lemma hash_notin_tier_str [simp]: "CHR ''#'' \<notin> set (tier_str t)" "CHR '':'' \<notin> set (tier_str t)"
  by (cases t; simp add: tier_str_def)+

section \<open>The confidence predicates\<close>

datatype BlastClass = low_blast | medium_blast | high_blast

definition derive_blast_class :: "ToolOp \<Rightarrow> BlastClass" where
  "derive_blast_class mop =
     (if effect mop = read_effect then low_blast
      else if external mop \<and> reversible mop \<noteq> Some True then high_blast
      else medium_blast)"

definition effective_blast_class :: "ToolOp \<Rightarrow> string list \<Rightarrow> BlastClass" where
  "effective_blast_class mop overrides =
     (if op_tool mop @ ''.'' @ op_op mop \<in> set overrides then high_blast
      else derive_blast_class mop)"

record ConfidenceKnob =
  min_confidence :: "rat option"
  methods :: "ConfidenceMethod list option"
  blast_weights :: "(BlastClass \<times> rat) list"

definition meets_bar :: "ConfidenceArtifact option \<Rightarrow> ConfidenceKnob option \<Rightarrow> bool" where
  "meets_bar artifact knob =
     (case knob of None \<Rightarrow> True
      | Some k \<Rightarrow>
        (case min_confidence k of None \<Rightarrow> True
         | Some bar \<Rightarrow>
           (case artifact of None \<Rightarrow> False
            | Some a \<Rightarrow>
              if stale a then False
              else if (case methods k of None \<Rightarrow> False
                       | Some ms \<Rightarrow> evidence_method (evidence a) \<notin> set ms) then False
              else bar \<le> confidence_value a)))"

definition error_budget_draw ::
  "ConfidenceArtifact \<Rightarrow> BlastClass \<Rightarrow> (BlastClass \<times> rat) list \<Rightarrow> exn + rat" where
  "error_budget_draw artifact cls weights =
     (case map_of weights cls of
        None \<Rightarrow> Inl (ValueError ''no blast_radius weight declared'')
      | Some radius \<Rightarrow> Inr (error_prob artifact * radius))"

section \<open>Sample values\<close>

text \<open>A small deployment used by the concrete instances of the development: one mail agent and two of
  its operations.\<close>

definition sample_principal :: Principal where
  "sample_principal = \<lparr>agentId = ''mailer'', skill = ''triage'', user = ''ann'', tier = TierB\<rparr>"

definition sample_send :: ToolOp where
  "sample_send =
     \<lparr>op_tool = ''email'', op_op = ''send'', effect = write_effect, external = True,
      reversible = Some False, egress_arg = None, destination_arg = Some ''to'',
      causes_context = None\<rparr>"

definition sample_note :: ToolOp where
  "sample_note =
     \<lparr>op_tool = ''notes'', op_op = ''append'', effect = write_effect, external = False,
      reversible = Some True, egress_arg = None, destination_arg = None, causes_context = None\<rparr>"

definition sample_call :: "ToolOp \<Rightarrow> bool \<Rightarrow> BrokeredCall" where
  "sample_call mop t =
     \<lparr>bc_principal = sample_principal, bc_tool = op_tool mop, bc_op = op_op mop,
      bc_args = JObj [(''body'', JStr ''hello'')], bc_manifest = mop,
      bc_taint = \<lparr>tainted = t, sources = (if t then [''email:inbox''] else [])\<rparr>,
      bc_session = \<lparr>turnId = ''turn-1'', ingestedSources = []\<rparr>, bc_ts = ''2026-01-01T00:00:00Z'',
      bc_confidence = None\<rparr>"

lemmas sample_defs = sample_principal_def sample_send_def sample_note_def sample_call_def

end
