(* ===== verification/Enforcement_Store.thy ===== *)
theory Enforcement_Store
  imports Schemas
begin

text \<open>
  The persistence interface of the enforcement layer (\<open>broker/enforcement/types.py\<close>,
  \<open>broker/enforcement/store.py\<close>). \<open>EnforcementStore\<close> is the protocol as a record of operations, so
  that \<open>enforce\<close> can be written once over any backend; \<open>InMemoryStore\<close> is the in-process backend.
  The locale \<open>enforcement_store\<close> states what the protocol's documentation promises of every backend
  (compare-and-set claims, capped counters, a ledger that never loses an entry), and its
  interpretation on the in-memory operations discharges those promises.

  Every operation runs under a lock in the source, so it is one atomic transition here.
\<close>

section \<open>Records\<close>

datatype LedgerStatus = uncommitted | committed | compensated | escalated

datatype IdempotencyStatus = in_flight | executed | failed

definition DEFAULT_IDEMPOTENCY_STATUS :: IdempotencyStatus where
  "DEFAULT_IDEMPOTENCY_STATUS = executed"

definition IN_FLIGHT_DECISION_JSON :: string where
  "IN_FLIGHT_DECISION_JSON = ''''"

record CounterDraw =
  draw_key :: string
  draw_delta :: rat
  draw_cap :: rat

record IdempotencyRecord =
  ir_key :: string
  decision_json :: string
  ir_ts :: string
  result_json :: "string option"
  ir_status :: IdempotencyStatus
  ir_error :: "string option"

record LedgerEntry =
  entry_id :: string
  le_idempotency_key :: "string option"
  call_json :: string
  le_decision_kind :: decision_kind
  le_status :: LedgerStatus
  ts_created :: string
  ts_committed :: "string option"
  le_error :: "string option"

section \<open>The protocol\<close>

record 's EnforcementStore =
  get_idempotency :: "'s \<Rightarrow> string \<Rightarrow> IdempotencyRecord option"
  put_idempotency_if_absent :: "IdempotencyRecord \<Rightarrow> 's \<Rightarrow> bool \<times> 's"
  complete_idempotency :: "string \<Rightarrow> string \<Rightarrow> string option \<Rightarrow> 's \<Rightarrow> bool \<times> 's"
  fail_idempotency :: "string \<Rightarrow> string \<Rightarrow> 's \<Rightarrow> bool \<times> 's"
  delete_idempotency :: "string \<Rightarrow> 's \<Rightarrow> 's"
  try_increment_counter :: "string \<Rightarrow> rat \<Rightarrow> rat \<Rightarrow> 's \<Rightarrow> bool \<times> 's"
  read_counter :: "'s \<Rightarrow> string \<Rightarrow> rat"
  write_ledger :: "LedgerEntry \<Rightarrow> 's \<Rightarrow> 's"
  commit_ledger :: "string \<Rightarrow> string \<Rightarrow> 's \<Rightarrow> exn + 's"
  compensate_ledger :: "string \<Rightarrow> string \<Rightarrow> 's \<Rightarrow> exn + 's"
  escalate_ledger :: "string \<Rightarrow> string \<Rightarrow> 's \<Rightarrow> exn + 's"
  get_uncommitted_entries :: "'s \<Rightarrow> LedgerEntry list"

section \<open>The in-memory backend\<close>

record InMemoryStore =
  idempotency :: "(string, IdempotencyRecord) dict"
  counters :: "(string, rat) dict"
  ledger :: "(string, LedgerEntry) dict"

definition mem_init :: InMemoryStore where
  "mem_init = \<lparr>idempotency = [], counters = [], ledger = []\<rparr>"

definition mem_get_idempotency :: "InMemoryStore \<Rightarrow> string \<Rightarrow> IdempotencyRecord option" where
  "mem_get_idempotency s k = map_of (idempotency s) k"

definition mem_put_idempotency_if_absent ::
  "IdempotencyRecord \<Rightarrow> InMemoryStore \<Rightarrow> bool \<times> InMemoryStore" where
  "mem_put_idempotency_if_absent r s =
     (if map_of (idempotency s) (ir_key r) \<noteq> None then (False, s)
      else (True, s\<lparr>idempotency := AList.update (ir_key r) r (idempotency s)\<rparr>))"

definition mem_complete_idempotency ::
  "string \<Rightarrow> string \<Rightarrow> string option \<Rightarrow> InMemoryStore \<Rightarrow> bool \<times> InMemoryStore" where
  "mem_complete_idempotency k dj rj s =
     (case map_of (idempotency s) k of
        None \<Rightarrow> (False, s)
      | Some r \<Rightarrow>
          if ir_status r \<noteq> in_flight then (False, s)
          else (True, s\<lparr>idempotency :=
            AList.update k (r\<lparr>decision_json := dj, result_json := rj, ir_status := executed\<rparr>)
              (idempotency s)\<rparr>))"

definition mem_fail_idempotency ::
  "string \<Rightarrow> string \<Rightarrow> InMemoryStore \<Rightarrow> bool \<times> InMemoryStore" where
  "mem_fail_idempotency k err s =
     (case map_of (idempotency s) k of
        None \<Rightarrow> (False, s)
      | Some r \<Rightarrow>
          if ir_status r \<noteq> in_flight then (False, s)
          else (True, s\<lparr>idempotency :=
            AList.update k (r\<lparr>ir_status := failed, ir_error := Some err\<rparr>) (idempotency s)\<rparr>))"

definition mem_delete_idempotency :: "string \<Rightarrow> InMemoryStore \<Rightarrow> InMemoryStore" where
  "mem_delete_idempotency k s = s\<lparr>idempotency := AList.delete k (idempotency s)\<rparr>"

definition mem_read_counter :: "InMemoryStore \<Rightarrow> string \<Rightarrow> rat" where
  "mem_read_counter s k = (case map_of (counters s) k of None \<Rightarrow> 0 | Some v \<Rightarrow> v)"

definition mem_try_increment_counter ::
  "string \<Rightarrow> rat \<Rightarrow> rat \<Rightarrow> InMemoryStore \<Rightarrow> bool \<times> InMemoryStore" where
  "mem_try_increment_counter k delta cap s =
     (let current = mem_read_counter s k in
      if current + delta > cap then (False, s)
      else (True, s\<lparr>counters := AList.update k (current + delta) (counters s)\<rparr>))"

definition mem_write_ledger :: "LedgerEntry \<Rightarrow> InMemoryStore \<Rightarrow> InMemoryStore" where
  "mem_write_ledger e s = s\<lparr>ledger := AList.update (entry_id e) e (ledger s)\<rparr>"

text \<open>The three ledger transitions share their shape: \<open>self._ledger[entry_id]\<close> raises \<open>KeyError\<close> for
  an unknown entry, and otherwise the entry is mutated in place.\<close>

definition mem_update_ledger ::
  "(LedgerEntry \<Rightarrow> LedgerEntry) \<Rightarrow> string \<Rightarrow> InMemoryStore \<Rightarrow> exn + InMemoryStore" where
  "mem_update_ledger f i s =
     (case map_of (ledger s) i of
        None \<Rightarrow> Inl (KeyError (py_repr i))
      | Some e \<Rightarrow> Inr (s\<lparr>ledger := AList.update i (f e) (ledger s)\<rparr>))"

definition mem_commit_ledger :: "string \<Rightarrow> string \<Rightarrow> InMemoryStore \<Rightarrow> exn + InMemoryStore" where
  "mem_commit_ledger i ts =
     mem_update_ledger (\<lambda>e. e\<lparr>le_status := committed, ts_committed := Some ts\<rparr>) i"

definition mem_compensate_ledger :: "string \<Rightarrow> string \<Rightarrow> InMemoryStore \<Rightarrow> exn + InMemoryStore" where
  "mem_compensate_ledger i err =
     mem_update_ledger (\<lambda>e. e\<lparr>le_status := compensated, le_error := Some err\<rparr>) i"

definition mem_escalate_ledger :: "string \<Rightarrow> string \<Rightarrow> InMemoryStore \<Rightarrow> exn + InMemoryStore" where
  "mem_escalate_ledger i err =
     mem_update_ledger (\<lambda>e. e\<lparr>le_status := escalated, le_error := Some err\<rparr>) i"

definition mem_get_uncommitted_entries :: "InMemoryStore \<Rightarrow> LedgerEntry list" where
  "mem_get_uncommitted_entries s = filter (\<lambda>e. le_status e = uncommitted) (map snd (ledger s))"

definition mem_ops :: "InMemoryStore EnforcementStore" where
  "mem_ops =
     \<lparr>get_idempotency = mem_get_idempotency,
      put_idempotency_if_absent = mem_put_idempotency_if_absent,
      complete_idempotency = mem_complete_idempotency,
      fail_idempotency = mem_fail_idempotency,
      delete_idempotency = mem_delete_idempotency,
      try_increment_counter = mem_try_increment_counter,
      read_counter = mem_read_counter,
      write_ledger = mem_write_ledger,
      commit_ledger = mem_commit_ledger,
      compensate_ledger = mem_compensate_ledger,
      escalate_ledger = mem_escalate_ledger,
      get_uncommitted_entries = mem_get_uncommitted_entries\<rparr>"

text \<open>What an observer sees of the ledger, and the shape the dictionaries keep.\<close>

definition mem_ledger :: "InMemoryStore \<Rightarrow> string \<rightharpoonup> LedgerEntry" where
  "mem_ledger s = map_of (ledger s)"

definition mem_wf :: "InMemoryStore \<Rightarrow> bool" where
  "mem_wf s \<longleftrightarrow> distinct (map fst (ledger s)) \<and> distinct (map fst (idempotency s))
     \<and> distinct (map fst (counters s))
     \<and> (\<forall>i e. map_of (ledger s) i = Some e \<longrightarrow> entry_id e = i)
     \<and> (\<forall>k r. map_of (idempotency s) k = Some r \<longrightarrow> ir_key r = k)"

section \<open>The contract of a store\<close>

text \<open>
  \<open>wf\<close> is the backend's well-formedness, \<open>idem\<close>, \<open>ctr\<close> and \<open>led\<close> the three views the contract is
  about. Each operation's law says what it returns and what it does to each view.
\<close>

locale enforcement_store =
  fixes S :: "'s EnforcementStore"
    and wf :: "'s \<Rightarrow> bool"
    and led :: "'s \<Rightarrow> string \<rightharpoonup> LedgerEntry"
  assumes put_claims:
    "put_idempotency_if_absent S r s = (b, s') \<Longrightarrow>
       b = (get_idempotency S s (ir_key r) = None)
       \<and> get_idempotency S s' =
           (if b then (get_idempotency S s)(ir_key r \<mapsto> r) else get_idempotency S s)
       \<and> read_counter S s' = read_counter S s \<and> led s' = led s \<and> (wf s \<longrightarrow> wf s')"
    and complete_cas:
    "complete_idempotency S k dj rj s = (b, s') \<Longrightarrow>
       b = (\<exists>r. get_idempotency S s k = Some r \<and> ir_status r = in_flight)
       \<and> get_idempotency S s' =
           (case get_idempotency S s k of
              Some r \<Rightarrow> if ir_status r = in_flight
                then (get_idempotency S s)
                  (k \<mapsto> r\<lparr>decision_json := dj, result_json := rj, ir_status := executed\<rparr>)
                else get_idempotency S s
            | None \<Rightarrow> get_idempotency S s)
       \<and> read_counter S s' = read_counter S s \<and> led s' = led s \<and> (wf s \<longrightarrow> wf s')"
    and fail_cas:
    "fail_idempotency S k err s = (b, s') \<Longrightarrow>
       b = (\<exists>r. get_idempotency S s k = Some r \<and> ir_status r = in_flight)
       \<and> get_idempotency S s' =
           (case get_idempotency S s k of
              Some r \<Rightarrow> if ir_status r = in_flight
                then (get_idempotency S s)(k \<mapsto> r\<lparr>ir_status := failed, ir_error := Some err\<rparr>)
                else get_idempotency S s
            | None \<Rightarrow> get_idempotency S s)
       \<and> read_counter S s' = read_counter S s \<and> led s' = led s \<and> (wf s \<longrightarrow> wf s')"
    and delete_removes:
    "get_idempotency S (delete_idempotency S k s) = (get_idempotency S s)(k := None)
       \<and> read_counter S (delete_idempotency S k s) = read_counter S s
       \<and> led (delete_idempotency S k s) = led s \<and> (wf s \<longrightarrow> wf (delete_idempotency S k s))"
    and increment_capped:
    "try_increment_counter S q d cap s = (b, s') \<Longrightarrow>
       b = (read_counter S s q + d \<le> cap)
       \<and> read_counter S s' =
           (if b then (read_counter S s)(q := read_counter S s q + d) else read_counter S s)
       \<and> get_idempotency S s' = get_idempotency S s \<and> led s' = led s \<and> (wf s \<longrightarrow> wf s')"
    and ledger_written:
    "led (write_ledger S e s) = (led s)(entry_id e \<mapsto> e)
       \<and> get_idempotency S (write_ledger S e s) = get_idempotency S s
       \<and> read_counter S (write_ledger S e s) = read_counter S s
       \<and> (wf s \<longrightarrow> wf (write_ledger S e s))"
    and ledger_committed:
    "led s i = Some e \<Longrightarrow>
       \<exists>s'. commit_ledger S i ts s = Inr s'
         \<and> led s' = (led s)(i \<mapsto> e\<lparr>le_status := committed, ts_committed := Some ts\<rparr>)
         \<and> get_idempotency S s' = get_idempotency S s \<and> read_counter S s' = read_counter S s
         \<and> (wf s \<longrightarrow> wf s')"
    and ledger_compensated:
    "led s i = Some e \<Longrightarrow>
       \<exists>s'. compensate_ledger S i err s = Inr s'
         \<and> led s' = (led s)(i \<mapsto> e\<lparr>le_status := compensated, le_error := Some err\<rparr>)
         \<and> get_idempotency S s' = get_idempotency S s \<and> read_counter S s' = read_counter S s
         \<and> (wf s \<longrightarrow> wf s')"
    and ledger_escalated:
    "led s i = Some e \<Longrightarrow>
       \<exists>s'. escalate_ledger S i err s = Inr s'
         \<and> led s' = (led s)(i \<mapsto> e\<lparr>le_status := escalated, le_error := Some err\<rparr>)
         \<and> get_idempotency S s' = get_idempotency S s \<and> read_counter S s' = read_counter S s
         \<and> (wf s \<longrightarrow> wf s')"
    and ledger_frames:
    "commit_ledger S i x s = Inr s' \<or> compensate_ledger S i x s = Inr s' \<or> escalate_ledger S i x s = Inr s' \<Longrightarrow>
       get_idempotency S s' = get_idempotency S s \<and> read_counter S s' = read_counter S s"
    and uncommitted_listed:
    "wf s \<Longrightarrow> set (get_uncommitted_entries S s) = {e. \<exists>i. led s i = Some e \<and> le_status e = uncommitted}"
begin

lemma delete_views [simp]:
  "get_idempotency S (delete_idempotency S k s) = (get_idempotency S s)(k := None)"
  "read_counter S (delete_idempotency S k s) = read_counter S s"
  "led (delete_idempotency S k s) = led s"
  using delete_removes by auto

lemma write_ledger_views [simp]:
  "led (write_ledger S e s) = (led s)(entry_id e \<mapsto> e)"
  "get_idempotency S (write_ledger S e s) = get_idempotency S s"
  "read_counter S (write_ledger S e s) = read_counter S s"
  using ledger_written by auto

text \<open>Two claims of one key: the second loses, whatever it wanted to record.\<close>

lemma second_claim_loses:
  assumes "put_idempotency_if_absent S r s = (True, s1)"
    and "put_idempotency_if_absent S r' s1 = (b, s2)" and "ir_key r' = ir_key r"
  shows "\<not> b \<and> get_idempotency S s2 (ir_key r) = Some r"
proof -
  have "get_idempotency S s1 (ir_key r) = Some r"
    using put_claims [OF assms(1)] by simp
  with put_claims [OF assms(2)] assms(3) show ?thesis by simp
qed

text \<open>A settled claim cannot be settled again.\<close>

lemma settled_once:
  assumes "complete_idempotency S k dj rj s = (True, s1)"
  shows "fst (fail_idempotency S k err s1) = False"
proof -
  obtain b s2 where f: "fail_idempotency S k err s1 = (b, s2)" by fastforce
  from complete_cas [OF assms] obtain r where r: "get_idempotency S s k = Some r"
    and fl: "ir_status r = in_flight" by auto
  with complete_cas [OF assms] have "get_idempotency S s1 k
      = Some (r\<lparr>decision_json := dj, result_json := rj, ir_status := executed\<rparr>)"
    by simp
  with fail_cas [OF f] f show ?thesis by simp
qed

end

lemmas mem_op_defs [store_simps] =
  mem_ops_def mem_get_idempotency_def mem_put_idempotency_if_absent_def
  mem_complete_idempotency_def mem_fail_idempotency_def mem_delete_idempotency_def
  mem_read_counter_def mem_try_increment_counter_def mem_write_ledger_def mem_commit_ledger_def
  mem_compensate_ledger_def mem_escalate_ledger_def mem_update_ledger_def
  mem_get_uncommitted_entries_def mem_ledger_def

lemma mem_wf_update_idem:
  "mem_wf s \<Longrightarrow> ir_key r = k \<Longrightarrow> mem_wf (s\<lparr>idempotency := AList.update k r (idempotency s)\<rparr>)"
  by (auto simp: mem_wf_def distinct_update update_conv' split: if_splits)

lemma mem_wf_update_ledger:
  "mem_wf s \<Longrightarrow> entry_id e = i \<Longrightarrow> mem_wf (s\<lparr>ledger := AList.update i e (ledger s)\<rparr>)"
  by (auto simp: mem_wf_def distinct_update update_conv' split: if_splits)

lemma mem_wf_key:
  "mem_wf s \<Longrightarrow> map_of (idempotency s) k = Some r \<Longrightarrow> ir_key r = k"
  "mem_wf s \<Longrightarrow> map_of (ledger s) k = Some e \<Longrightarrow> entry_id e = k"
  by (auto simp: mem_wf_def)

interpretation mem: enforcement_store mem_ops mem_wf mem_ledger
proof (unfold_locales, goal_cases)
  case (1 r s b s')
  then show ?case
    by (auto simp: store_simps fun_eq_iff mem_wf_update_idem split: if_splits)
next
  case (2 k dj rj s b s')
  then show ?case
    by (auto simp: store_simps fun_eq_iff mem_wf_update_idem mem_wf_key split: if_splits option.splits)
next
  case (3 k err s b s')
  then show ?case
    by (auto simp: store_simps fun_eq_iff mem_wf_update_idem mem_wf_key split: if_splits option.splits)
next
  case (4 k s)
  then show ?case
    by (auto simp: store_simps fun_eq_iff mem_wf_def distinct_delete)
next
  case (5 q d cap s b s')
  then show ?case
    by (auto simp: store_simps Let_def fun_eq_iff mem_wf_def distinct_update split: if_splits)
next
  case (6 e s)
  then show ?case
    by (simp add: store_simps mem_wf_update_ledger fun_eq_iff)
next
  case (7 s i e ts)
  then show ?case
    by (simp add: store_simps mem_wf_update_ledger mem_wf_key fun_eq_iff)
next
  case (8 s i e err)
  then show ?case
    by (simp add: store_simps mem_wf_update_ledger mem_wf_key fun_eq_iff)
next
  case (9 s i e err)
  then show ?case
    by (simp add: store_simps mem_wf_update_ledger mem_wf_key fun_eq_iff)
next
  case (10 i x s s')
  then show ?case
    by (auto simp: store_simps split: option.splits)
next
  case (11 s)
  then show ?case
    by (force simp: store_simps mem_wf_def)
qed

lemma mem_wf_init: "mem_wf mem_init"
  by (simp add: mem_wf_def mem_init_def)

end
