(* ===== verification/Pdp.thy ===== *)
theory Pdp
  imports Schemas
begin

text \<open>
  The policy decision point (\<open>broker/pdp/engine.py\<close>, \<open>broker/pdp/facts.py\<close>): the facts the policy
  information point supplies, the sixteen rules of the declared table in their priority order, and
  \<open>decide\<close>, which returns the action of the first rule whose predicate holds. The SHA-256 of the
  intent identifier is a parameter (\<open>sha\<close>, the hexadecimal digest of a text).

  \<open>decide_spec\<close> states the policy without a rule table, as two decision trees, one for reads and one
  for writes; the two are proved equal, and the safety properties of the gate are stated over
  \<open>decide\<close>.
\<close>

section \<open>Facts\<close>

record Facts =
  grant_present :: bool
  grant_level :: AutonomyLevel
  error_budget_breached :: bool
  cap_budget_breached :: bool
  escalation_budget_available :: bool
  human_reachable :: bool
  transform_op :: "string option"
  quarantined :: bool
  quarantine_reason :: "string option"
  standing_fall_reason :: "string option"
  read_source_trusted :: bool
  query_bytes_exceeded :: bool
  query_egress_breached :: bool
  confidence_below_bar :: bool
  destination_composed :: bool
  harness_class_held :: bool

section \<open>Helpers\<close>

definition intent_raw :: "BrokeredCall \<Rightarrow> string" where
  "intent_raw c =
     agentId (bc_principal c) @ ''#'' @ skill (bc_principal c) @ ''#'' @ user (bc_principal c)
       @ ''#'' @ tier_str (tier (bc_principal c))
       @ '':'' @ turnId (bc_session c) @ '':'' @ bc_tool c @ '':'' @ bc_op c @ '':'' @ bc_ts c"

definition intent_id_of :: "(string \<Rightarrow> string) \<Rightarrow> BrokeredCall \<Rightarrow> string" where
  "intent_id_of sha c = ''intent-'' @ take 16 (sha (intent_raw c))"

definition approval_for :: "(string \<Rightarrow> string) \<Rightarrow> BrokeredCall \<Rightarrow> string \<Rightarrow> Decision" where
  "approval_for sha c reason =
     RequireApproval
       \<lparr>intent_id = intent_id_of sha c,
        renderedForHuman =
          reason @ '': '' @ agentId (bc_principal c) @ '' requests '' @ bc_tool c @ ''.'' @ bc_op c
            @ '' (external='' @ bool_str (external (bc_manifest c))
            @ '', reversible='' @ opt_bool_str (reversible (bc_manifest c)) @ '')''\<rparr>
       (Some reason)"

definition approval_or_deny ::
  "(string \<Rightarrow> string) \<Rightarrow> BrokeredCall \<Rightarrow> Facts \<Rightarrow> string \<Rightarrow> Decision" where
  "approval_or_deny sha c f reason =
     (if human_reachable f then approval_for sha c reason
      else Deny (reason @ ''; no human reachable for approval''))"

section \<open>The rule table\<close>

record rule =
  rule_name :: string
  predicate :: "BrokeredCall \<Rightarrow> Facts \<Rightarrow> bool"
  action :: "BrokeredCall \<Rightarrow> Facts \<Rightarrow> Decision"

abbreviation is_read :: "BrokeredCall \<Rightarrow> bool" where
  "is_read c \<equiv> effect (bc_manifest c) = read_effect"

abbreviation is_write :: "BrokeredCall \<Rightarrow> bool" where
  "is_write c \<equiv> effect (bc_manifest c) = write_effect"

abbreviation is_tainted :: "BrokeredCall \<Rightarrow> bool" where
  "is_tainted c \<equiv> tainted (bc_taint c)"

abbreviation is_external :: "BrokeredCall \<Rightarrow> bool" where
  "is_external c \<equiv> external (bc_manifest c)"

definition no_grant :: rule where
  "no_grant =
     \<lparr>rule_name = ''no_grant'',
      predicate = (\<lambda>c f. \<not> grant_present f),
      action = (\<lambda>c f. Deny ''tool not granted to this principal'')\<rparr>"

definition error_budget_escalate :: rule where
  "error_budget_escalate =
     \<lparr>rule_name = ''error_budget_escalate'',
      predicate = (\<lambda>c f. is_write c \<and> error_budget_breached f \<and> escalation_budget_available f),
      action = (\<lambda>c f. Abstain True ''error budget breached; escalating for human review'')\<rparr>"

definition error_budget_deny :: rule where
  "error_budget_deny =
     \<lparr>rule_name = ''error_budget_deny'',
      predicate = (\<lambda>c f. is_write c \<and> error_budget_breached f \<and> \<not> escalation_budget_available f),
      action = (\<lambda>c f. Deny ''error budget breached; escalation budget exhausted'')\<rparr>"

definition confidence_below_bar_escalate :: rule where
  "confidence_below_bar_escalate =
     \<lparr>rule_name = ''confidence_below_bar_escalate'',
      predicate = (\<lambda>c f. is_write c \<and> confidence_below_bar f \<and> escalation_budget_available f),
      action = (\<lambda>c f. Abstain True
        ''constructed confidence below bar; escalating for human review'')\<rparr>"

definition confidence_below_bar_deny :: rule where
  "confidence_below_bar_deny =
     \<lparr>rule_name = ''confidence_below_bar_deny'',
      predicate = (\<lambda>c f. is_write c \<and> confidence_below_bar f \<and> \<not> escalation_budget_available f),
      action = (\<lambda>c f. Deny ''constructed confidence below bar; escalation budget exhausted'')\<rparr>"

definition read_query_exfil_deny :: rule where
  "read_query_exfil_deny =
     \<lparr>rule_name = ''read_query_exfil_deny'',
      predicate = (\<lambda>c f. is_read c \<and> (query_bytes_exceeded f \<or> query_egress_breached f)),
      action = (\<lambda>c f. Deny ''query egress bound exceeded'')\<rparr>"

definition tainted_harness_hold :: "(string \<Rightarrow> string) \<Rightarrow> rule" where
  "tainted_harness_hold sha =
     \<lparr>rule_name = ''tainted_harness_hold'',
      predicate = (\<lambda>c f. is_tainted c \<and> harness_class_held f \<and> \<not> cap_budget_breached f),
      action = (\<lambda>c f. approval_or_deny sha c f
        ''tainted harness hold: the envelope holds this tool class on a tainted turn'')\<rparr>"

definition tainted_composed_destination :: "(string \<Rightarrow> string) \<Rightarrow> rule" where
  "tainted_composed_destination sha =
     \<lparr>rule_name = ''tainted_composed_destination'',
      predicate = (\<lambda>c f. is_tainted c \<and> destination_composed f \<and> \<not> cap_budget_breached f
        \<and> \<not> (is_external c \<and> is_write c)),
      action = (\<lambda>c f. approval_or_deny sha c f
        ''tainted composed destination: decided as an external write'')\<rparr>"

definition read_rung_gate :: "(string \<Rightarrow> string) \<Rightarrow> rule" where
  "read_rung_gate sha =
     \<lparr>rule_name = ''read_rung_gate'',
      predicate = (\<lambda>c f. is_read c \<and> is_external c \<and> grant_level f = in_loop
        \<and> \<not> read_source_trusted f),
      action = (\<lambda>c f. approval_or_deny sha c f ''in-loop external read requires approval'')\<rparr>"

definition cap_budget_breached_rule :: rule where
  "cap_budget_breached_rule =
     \<lparr>rule_name = ''cap_budget_breached'',
      predicate = (\<lambda>c f. cap_budget_breached f),
      action = (\<lambda>c f. Deny ''capacity budget breached'')\<rparr>"

definition read_allow :: rule where
  "read_allow =
     \<lparr>rule_name = ''read_allow'',
      predicate = (\<lambda>c f. is_read c),
      action = (\<lambda>c f. Allow)\<rparr>"

definition transform_to_safer_op :: rule where
  "transform_to_safer_op =
     \<lparr>rule_name = ''transform_to_safer_op'',
      predicate = (\<lambda>c f. transform_op f \<noteq> None \<and> is_write c \<and> is_external c
        \<and> reversible (bc_manifest c) \<noteq> Some False \<and> \<not> is_tainted c),
      action = (\<lambda>c f. Transform (the (transform_op f)) (bc_args c))\<rparr>"

definition tainted_external_write :: "(string \<Rightarrow> string) \<Rightarrow> rule" where
  "tainted_external_write sha =
     \<lparr>rule_name = ''tainted_external_write'',
      predicate = (\<lambda>c f. is_tainted c \<and> is_external c \<and> is_write c),
      action = (\<lambda>c f. approval_or_deny sha c f ''tainted external write'')\<rparr>"

definition external_irreversible :: "(string \<Rightarrow> string) \<Rightarrow> rule" where
  "external_irreversible sha =
     \<lparr>rule_name = ''external_irreversible'',
      predicate = (\<lambda>c f. is_external c \<and> reversible (bc_manifest c) = Some False \<and> is_write c),
      action = (\<lambda>c f. approval_or_deny sha c f ''irreversible external write'')\<rparr>"

definition in_loop_write :: "(string \<Rightarrow> string) \<Rightarrow> rule" where
  "in_loop_write sha =
     \<lparr>rule_name = ''in_loop_write'',
      predicate = (\<lambda>c f. is_write c \<and> grant_level f = in_loop),
      action = (\<lambda>c f. approval_or_deny sha c f ''in-loop write requires approval'')\<rparr>"

definition supervised_write_allow :: rule where
  "supervised_write_allow =
     \<lparr>rule_name = ''supervised_write_allow'',
      predicate = (\<lambda>c f. is_write c \<and> (grant_level f = on_loop \<or> grant_level f = out_of_loop)),
      action = (\<lambda>c f. Allow)\<rparr>"

definition RULES :: "(string \<Rightarrow> string) \<Rightarrow> rule list" where
  "RULES sha =
     [no_grant, error_budget_escalate, error_budget_deny, confidence_below_bar_escalate,
      confidence_below_bar_deny, read_query_exfil_deny, tainted_harness_hold sha,
      tainted_composed_destination sha, read_rung_gate sha, cap_budget_breached_rule, read_allow,
      transform_to_safer_op, tainted_external_write sha, external_irreversible sha,
      in_loop_write sha, supervised_write_allow]"

definition DEFAULT_DENY :: Decision where
  "DEFAULT_DENY = Deny ''write: default-deny; no permitting rule matched''"

text \<open>The loop of \<open>decide\<close>: the first rule whose predicate holds acts.\<close>

fun first_match :: "rule list \<Rightarrow> BrokeredCall \<Rightarrow> Facts \<Rightarrow> Decision" where
  "first_match [] c f = DEFAULT_DENY"
| "first_match (r # rs) c f = (if predicate r c f then action r c f else first_match rs c f)"

definition decide :: "(string \<Rightarrow> string) \<Rightarrow> BrokeredCall \<Rightarrow> Facts \<Rightarrow> Decision" where
  "decide sha c f = first_match (RULES sha) c f"

section \<open>The policy without a rule table\<close>

definition read_policy :: "(string \<Rightarrow> string) \<Rightarrow> BrokeredCall \<Rightarrow> Facts \<Rightarrow> Decision" where
  "read_policy sha c f =
     (if query_bytes_exceeded f \<or> query_egress_breached f then Deny ''query egress bound exceeded''
      else if is_tainted c \<and> harness_class_held f \<and> \<not> cap_budget_breached f
        then approval_or_deny sha c f
          ''tainted harness hold: the envelope holds this tool class on a tainted turn''
      else if is_tainted c \<and> destination_composed f \<and> \<not> cap_budget_breached f
        then approval_or_deny sha c f ''tainted composed destination: decided as an external write''
      else if is_external c \<and> grant_level f = in_loop \<and> \<not> read_source_trusted f
        then approval_or_deny sha c f ''in-loop external read requires approval''
      else if cap_budget_breached f then Deny ''capacity budget breached''
      else Allow)"

definition write_policy :: "(string \<Rightarrow> string) \<Rightarrow> BrokeredCall \<Rightarrow> Facts \<Rightarrow> Decision" where
  "write_policy sha c f =
     (if error_budget_breached f then
        (if escalation_budget_available f
         then Abstain True ''error budget breached; escalating for human review''
         else Deny ''error budget breached; escalation budget exhausted'')
      else if confidence_below_bar f then
        (if escalation_budget_available f
         then Abstain True ''constructed confidence below bar; escalating for human review''
         else Deny ''constructed confidence below bar; escalation budget exhausted'')
      else if cap_budget_breached f then Deny ''capacity budget breached''
      else if is_tainted c \<and> harness_class_held f
        then approval_or_deny sha c f
          ''tainted harness hold: the envelope holds this tool class on a tainted turn''
      else if is_tainted c \<and> is_external c
        then approval_or_deny sha c f ''tainted external write''
      else if is_tainted c \<and> destination_composed f
        then approval_or_deny sha c f ''tainted composed destination: decided as an external write''
      else if is_external c \<and> reversible (bc_manifest c) = Some False
        then approval_or_deny sha c f ''irreversible external write''
      else if is_external c \<and> transform_op f \<noteq> None
        then Transform (the (transform_op f)) (bc_args c)
      else if grant_level f = in_loop
        then approval_or_deny sha c f ''in-loop write requires approval''
      else Allow)"

definition decide_spec :: "(string \<Rightarrow> string) \<Rightarrow> BrokeredCall \<Rightarrow> Facts \<Rightarrow> Decision" where
  "decide_spec sha c f =
     (if \<not> grant_present f then Deny ''tool not granted to this principal''
      else case effect (bc_manifest c) of
             read_effect \<Rightarrow> read_policy sha c f
           | write_effect \<Rightarrow> write_policy sha c f)"

section \<open>Lemmas\<close>

lemmas rule_defs [pdp_simps] =
  no_grant_def error_budget_escalate_def error_budget_deny_def confidence_below_bar_escalate_def
  confidence_below_bar_deny_def read_query_exfil_deny_def tainted_harness_hold_def
  tainted_composed_destination_def read_rung_gate_def cap_budget_breached_rule_def read_allow_def
  transform_to_safer_op_def tainted_external_write_def external_irreversible_def in_loop_write_def
  supervised_write_allow_def

lemmas policy_defs = decide_spec_def read_policy_def write_policy_def

lemma approval_or_deny_not_executes [simp]: "\<not> executes (approval_or_deny sha c f r)"
  by (simp add: approval_or_deny_def approval_for_def)

lemma approval_or_deny_neq [simp]:
  "approval_or_deny sha c f r \<noteq> Allow"
  "Allow \<noteq> approval_or_deny sha c f r"
  "approval_or_deny sha c f r \<noteq> Transform p a"
  by (simp_all add: approval_or_deny_def approval_for_def)

lemma effect_cases: "effect m = read_effect \<or> effect m = write_effect"
  by (cases "effect m") auto

lemma level_cases: "l = in_loop \<or> l = on_loop \<or> l = out_of_loop"
  by (cases l) auto

lemma decide_eq_spec: "decide sha c f = decide_spec sha c f"
proof (cases "effect (bc_manifest c)")
  case read_effect
  then show ?thesis
    by (simp add: decide_def RULES_def pdp_simps policy_defs)
next
  case write_effect
  show ?thesis
  proof (cases "is_tainted c")
    case True
    with write_effect show ?thesis
      using level_cases [of "grant_level f"]
      by (auto simp: decide_def RULES_def pdp_simps policy_defs)
  next
    case False
    with write_effect show ?thesis
      using level_cases [of "grant_level f"]
      by (auto simp: decide_def RULES_def pdp_simps policy_defs)
  qed
qed

text \<open>Which facts make a call execute, read off the two decision trees.\<close>

lemma executes_read_policy:
  "executes (read_policy sha c f) \<longleftrightarrow>
     \<not> query_bytes_exceeded f \<and> \<not> query_egress_breached f \<and> \<not> cap_budget_breached f
     \<and> \<not> (is_tainted c \<and> (harness_class_held f \<or> destination_composed f))
     \<and> \<not> (is_external c \<and> grant_level f = in_loop \<and> \<not> read_source_trusted f)"
  by (auto simp: read_policy_def)

lemma executes_write_policy:
  "executes (write_policy sha c f) \<longleftrightarrow>
     \<not> error_budget_breached f \<and> \<not> confidence_below_bar f \<and> \<not> cap_budget_breached f
     \<and> \<not> (is_tainted c \<and> (harness_class_held f \<or> destination_composed f \<or> is_external c))
     \<and> \<not> (is_external c \<and> reversible (bc_manifest c) = Some False)
     \<and> (grant_level f \<noteq> in_loop \<or> is_external c \<and> transform_op f \<noteq> None)"
  by (auto simp: write_policy_def)

lemma executes_decide:
  "executes (decide sha c f) \<longleftrightarrow>
     grant_present f \<and>
     (case effect (bc_manifest c) of
        read_effect \<Rightarrow> executes (read_policy sha c f)
      | write_effect \<Rightarrow> executes (write_policy sha c f))"
  by (simp add: decide_eq_spec decide_spec_def split: effect_kind.split)

definition sample_facts :: "AutonomyLevel \<Rightarrow> Facts" where
  "sample_facts l =
     \<lparr>grant_present = True, grant_level = l, error_budget_breached = False,
      cap_budget_breached = False, escalation_budget_available = True, human_reachable = True,
      transform_op = None, quarantined = False, quarantine_reason = None,
      standing_fall_reason = None, read_source_trusted = False, query_bytes_exceeded = False,
      query_egress_breached = False, confidence_below_bar = False, destination_composed = False,
      harness_class_held = False\<rparr>"

section \<open>Properties\<close>

text \<open>C1: the rule table implements the policy. For every call and every set of facts, evaluating the
  sixteen rules in priority order gives the decision of the two decision trees of \<open>decide_spec\<close>;
  in particular the default deny at the end of the table is never reached.\<close>

theorem decide_implements_policy: "decide sha c f = decide_spec sha c f"
  by (rule decide_eq_spec)

text \<open>C2: the structural prompt-injection cut. On a tainted turn an external write is never executed
  autonomously, whatever the grant level, the envelope knobs and the budgets say: the decision is
  neither an allow nor a transform.\<close>

theorem tainted_external_write_cut:
  assumes "is_tainted c" and "is_external c" and "is_write c"
  shows "\<not> executes (decide sha c f)"
  using assms by (simp add: executes_decide executes_write_policy)

theorem tainted_external_write_cut_witness:
  "is_tainted (sample_call sample_send True) \<and>
   \<not> executes (decide id (sample_call sample_send True) (sample_facts out_of_loop))"
  using tainted_external_write_cut [of "sample_call sample_send True" id "sample_facts out_of_loop"]
  by (simp add: sample_defs)

text \<open>The exact condition for autonomous execution. A call is executed (allow or transform) if
  and only if the principal holds a grant and, for a read, no egress, capacity, taint or in-loop
  guard applies, and for a write, no error-budget, confidence, capacity, taint or irreversibility
  guard applies and the grant is above in-loop or a safer operation is substituted.\<close>

lemma executes_iff:
  "executes (decide sha c f) \<longleftrightarrow>
     grant_present f \<and> \<not> cap_budget_breached f
     \<and> \<not> (is_tainted c \<and> (harness_class_held f \<or> destination_composed f))
     \<and> (if is_read c then
           \<not> query_bytes_exceeded f \<and> \<not> query_egress_breached f
           \<and> \<not> (is_external c \<and> grant_level f = in_loop \<and> \<not> read_source_trusted f)
         else
           \<not> error_budget_breached f \<and> \<not> confidence_below_bar f
           \<and> \<not> (is_tainted c \<and> is_external c)
           \<and> \<not> (is_external c \<and> reversible (bc_manifest c) = Some False)
           \<and> (grant_level f \<noteq> in_loop \<or> is_external c \<and> transform_op f \<noteq> None))"
  by (cases "effect (bc_manifest c)")
     (auto simp: executes_decide executes_read_policy executes_write_policy)

lemma executes_iff_witness:
  "executes (decide id (sample_call sample_note False) (sample_facts on_loop))"
  using executes_iff [of id "sample_call sample_note False" "sample_facts on_loop"]
  by (simp add: sample_defs sample_facts_def)

text \<open>With no human reachable nothing is held. The decision is then never a require-approval: every
  rule that would hold a call denies it instead.\<close>

lemma no_human_no_hold:
  assumes "\<not> human_reachable f"
  shows "kind (decide sha c f) \<noteq> k_require_approval"
  using assms
  by (auto simp: decide_eq_spec policy_defs approval_or_deny_def split: effect_kind.split)

lemma no_human_no_hold_witness:
  "kind (decide id (sample_call sample_send True) ((sample_facts in_loop)\<lparr>human_reachable := False\<rparr>))
     \<noteq> k_require_approval"
  using no_human_no_hold [of "(sample_facts in_loop)\<lparr>human_reachable := False\<rparr>" id
      "sample_call sample_send True"]
  by simp

text \<open>The intent identifier names who acts and in which turn. When the fields of two calls are free of
  the separators of the rendering and the digest does not collide on the two renderings, equal
  intent identifiers come from calls with the same principal, turn, tool, operation and timestamp.\<close>

lemma intent_id_binds_call:
  assumes eq: "intent_id_of sha c = intent_id_of sha d"
    and digest: "take 16 (sha (intent_raw c)) = take 16 (sha (intent_raw d)) \<Longrightarrow>
       intent_raw c = intent_raw d"
    and c: "CHR ''#'' \<notin> set (agentId (bc_principal c) @ skill (bc_principal c) @ user (bc_principal c))"
      "CHR '':'' \<notin> set (turnId (bc_session c) @ bc_tool c @ bc_op c)"
    and d: "CHR ''#'' \<notin> set (agentId (bc_principal d) @ skill (bc_principal d) @ user (bc_principal d))"
      "CHR '':'' \<notin> set (turnId (bc_session d) @ bc_tool d @ bc_op d)"
  shows "bc_principal c = bc_principal d \<and> turnId (bc_session c) = turnId (bc_session d)
    \<and> bc_tool c = bc_tool d \<and> bc_op c = bc_op d \<and> bc_ts c = bc_ts d"
proof -
  have "intent_raw c = intent_raw d"
    using eq by (intro digest) (simp add: intent_id_of_def)
  then show ?thesis
    using c d by (simp add: intent_raw_def append_sep_inject)
qed

lemma intent_id_binds_call_witness:
  "turnId (bc_session (sample_call sample_send True)) = ''turn-1'' \<and>
   bc_principal (sample_call sample_send True)
     = bc_principal ((sample_call sample_send True)\<lparr>bc_args := JNull\<rparr>)"
  using intent_id_binds_call [of id "sample_call sample_send True"
      "(sample_call sample_send True)\<lparr>bc_args := JNull\<rparr>"]
  by (simp add: sample_defs intent_raw_def intent_id_of_def)

end
