(* ===== verification/Enforcement.thy ===== *)
theory Enforcement
  imports Enforcement_Store Pdp
begin

text \<open>
  The enforcement pipeline (\<open>broker/enforcement/engine.py\<close>): \<open>enforce\<close> sits between a decision and the
  connector. It is written here over any \<open>EnforcementStore\<close>, one definition per numbered step of the
  source, and returns the outcome (a result or the exception that reaches the caller), the store
  afterwards and the list of events in the order they happened.

  What the pipeline calls but does not contain is a parameter: the JSON codecs of pydantic and of the
  connector result, the fresh ledger identifier, the three clock readings (record \<open>enf_env\<close>), and the
  decider, the fact source and the executor (record \<open>callbacks\<close>). The fact source and the executor
  may raise.
\<close>

section \<open>Parameters and results\<close>

record enf_env =
  decision_to_json :: "Decision \<Rightarrow> string"
  json_to_decision :: "string \<Rightarrow> Decision"
  dump_call :: "BrokeredCall \<Rightarrow> string"
  dump_result :: "json \<Rightarrow> exn + string"
  load_result :: "string \<Rightarrow> json"
  new_entry_id :: string
  now_claim :: string
  now_created :: string
  now_committed :: string

record callbacks =
  decider :: "BrokeredCall \<Rightarrow> Facts \<Rightarrow> Decision"
  fresh_facts :: "BrokeredCall \<Rightarrow> exn + Facts"
  executor :: "(BrokeredCall \<Rightarrow> Decision \<Rightarrow> exn + json option) option"

record enf_request =
  rq_call :: BrokeredCall
  initial_decision :: Decision
  idempotency_key :: "string option"
  counter_key :: string
  counter_delta :: rat
  counter_cap :: rat
  ancestor_draws :: "CounterDraw list"

record EnforcementResult =
  er_decision :: Decision
  idempotent :: bool
  ledger_entry_id :: "string option"
  er_result :: "json option"

text \<open>The events an observer of the broker can order: a budget draw that succeeded, a journaled intent,
  and a call of the connector.\<close>

datatype event =
    EvDraw string rat
  | EvJournal LedgerEntry
  | EvExec BrokeredCall Decision

section \<open>Strictness\<close>

definition STRICTNESS :: "decision_kind \<Rightarrow> nat" where
  "STRICTNESS k =
     (case k of k_allow \<Rightarrow> 0 | k_transform \<Rightarrow> 1 | k_require_approval \<Rightarrow> 2 | k_abstain \<Rightarrow> 3
      | k_deny \<Rightarrow> 4)"

definition pick_stricter :: "Decision \<Rightarrow> Decision \<Rightarrow> Decision" where
  "pick_stricter a b = (if STRICTNESS (kind b) > STRICTNESS (kind a) then b else a)"

section \<open>Settled outcomes\<close>

definition refusal :: "string \<Rightarrow> EnforcementResult" where
  "refusal reason =
     \<lparr>er_decision = Deny reason, idempotent = False, ledger_entry_id = None, er_result = None\<rparr>"

text \<open>\<open>IdempotencyRecord.decision\<close> and \<open>IdempotencyRecord.result\<close>.\<close>

definition record_decision :: "enf_env \<Rightarrow> IdempotencyRecord \<Rightarrow> Decision" where
  "record_decision env r =
     (if decision_json r = [] then
        Deny (''idempotency key '' @ py_repr (ir_key r) @ '' is claimed but has no recorded outcome'')
      else json_to_decision env (decision_json r))"

definition record_result :: "enf_env \<Rightarrow> IdempotencyRecord \<Rightarrow> json option" where
  "record_result env r = map_option (load_result env) (result_json r)"

definition settled_outcome ::
  "enf_env \<Rightarrow> IdempotencyRecord \<Rightarrow> string \<Rightarrow> EnforcementResult option" where
  "settled_outcome env r k =
     (if ir_status r = in_flight then
        Some (refusal (''idempotency key '' @ py_repr k @ '' is in flight (claimed at '' @ ir_ts r
          @ ''); retry later. A stale claim left by a crashed broker is cleared with ''
          @ ''delete_idempotency.''))
      else if ir_status r = failed then
        Some (refusal (''idempotency key '' @ py_repr k @ '' was already attempted and its executor ''
          @ ''failed with an uncertain outcome (''
          @ (case ir_error r of None \<Rightarrow> ''None'' | Some e \<Rightarrow> e)
          @ ''); the side effect may or may not have landed. Reconcile with the connector, then ''
          @ ''retry under a NEW key.''))
      else if executes (record_decision env r) then
        Some \<lparr>er_decision = record_decision env r, idempotent = True, ledger_entry_id = None,
              er_result = record_result env r\<rparr>
      else None)"

section \<open>Step 1: the idempotency claim\<close>

definition claim_record :: "enf_env \<Rightarrow> string \<Rightarrow> IdempotencyRecord" where
  "claim_record env k =
     \<lparr>ir_key = k, decision_json = IN_FLIGHT_DECISION_JSON, ir_ts = now_claim env,
      result_json = None, ir_status = in_flight, ir_error = None\<rparr>"

definition contended :: "string \<Rightarrow> EnforcementResult" where
  "contended k =
     refusal (''idempotency key '' @ py_repr k
       @ '' is contended; another call claimed it concurrently. Retry later.'')"

text \<open>What a lost conditional put re-reads.\<close>

definition lost_claim ::
  "enf_env \<Rightarrow> string \<Rightarrow> IdempotencyRecord option \<Rightarrow> EnforcementResult" where
  "lost_claim env k stored =
     (case stored of
        None \<Rightarrow> contended k
      | Some r \<Rightarrow> (case settled_outcome env r k of Some res \<Rightarrow> res | None \<Rightarrow> contended k))"

text \<open>The conditional put: either this call holds the key afterwards or it is refused.\<close>

definition take_claim ::
  "'s EnforcementStore \<Rightarrow> enf_env \<Rightarrow> string \<Rightarrow> 's \<Rightarrow> (EnforcementResult + string option) \<times> 's" where
  "take_claim S env k s =
     (let (won, s') = put_idempotency_if_absent S (claim_record env k) s in
      if won then (Inr (Some k), s')
      else (Inl (lost_claim env k (get_idempotency S s' k)), s'))"

definition claim_step ::
  "'s EnforcementStore \<Rightarrow> enf_env \<Rightarrow> enf_request \<Rightarrow> 's \<Rightarrow>
     (EnforcementResult + string option) \<times> 's" where
  "claim_step S env rq s =
     (case idempotency_key rq of
        None \<Rightarrow> (Inr None, s)
      | Some k \<Rightarrow>
        (case get_idempotency S s k of
           None \<Rightarrow> take_claim S env k s
         | Some r \<Rightarrow>
           (case settled_outcome env r k of
              Some res \<Rightarrow> (Inl res, s)
            | None \<Rightarrow> take_claim S env k (delete_idempotency S k s))))"

section \<open>Steps 2 to 4: revalidation, budget draws, journal\<close>

definition revalidate :: "callbacks \<Rightarrow> enf_request \<Rightarrow> exn + Decision" where
  "revalidate cb rq =
     (case fresh_facts cb (rq_call rq) of
        Inl e \<Rightarrow> Inl e
      | Inr facts \<Rightarrow> Inr (pick_stricter (initial_decision rq) (decider cb (rq_call rq) facts)))"

fun draw_ancestors ::
  "'s EnforcementStore \<Rightarrow> CounterDraw list \<Rightarrow> Decision \<Rightarrow> 's \<Rightarrow> Decision \<times> 's \<times> event list" where
  "draw_ancestors S [] effective s = (effective, s, [])"
| "draw_ancestors S (d # ds) effective s =
     (let (ok, s') = try_increment_counter S (draw_key d) (draw_delta d) (draw_cap d) s in
      if ok then
        (let (eff, s'', evs) = draw_ancestors S ds effective s' in
         (eff, s'', EvDraw (draw_key d) (draw_delta d) # evs))
      else (Deny (''delegation-tree budget exceeded (pool '' @ draw_key d @ '')''), s', []))"

definition draw_step ::
  "'s EnforcementStore \<Rightarrow> enf_request \<Rightarrow> Decision \<Rightarrow> 's \<Rightarrow> Decision \<times> 's \<times> event list" where
  "draw_step S rq effective s =
     (if executes effective then
        (let (ok, s') = try_increment_counter S (counter_key rq) (counter_delta rq) (counter_cap rq) s in
         if \<not> ok then (Deny ''capacity budget exceeded'', s', [])
         else
           (let (eff, s'', evs) = draw_ancestors S (ancestor_draws rq) effective s' in
            (eff, s'', EvDraw (counter_key rq) (counter_delta rq) # evs)))
      else (effective, s, []))"

definition ledger_entry_for :: "enf_env \<Rightarrow> enf_request \<Rightarrow> Decision \<Rightarrow> LedgerEntry" where
  "ledger_entry_for env rq effective =
     \<lparr>entry_id = new_entry_id env, le_idempotency_key = idempotency_key rq,
      call_json = dump_call env (rq_call rq), le_decision_kind = kind effective,
      le_status = uncommitted, ts_created = now_created env, ts_committed = None, le_error = None\<rparr>"

section \<open>Step 5: execution, the human gate, the saga\<close>

definition saga ::
  "'s EnforcementStore \<Rightarrow> enf_env \<Rightarrow> enf_request \<Rightarrow> exn \<Rightarrow> 's \<Rightarrow> exn + 's" where
  "saga S env rq e s =
     (if reversible (bc_manifest (rq_call rq)) = Some True
      then compensate_ledger S (new_entry_id env) (exn_str e) s
      else escalate_ledger S (new_entry_id env) (exn_str e) s)"

definition fail_claim :: "'s EnforcementStore \<Rightarrow> string option \<Rightarrow> exn \<Rightarrow> 's \<Rightarrow> 's" where
  "fail_claim S claimed e s =
     (case claimed of None \<Rightarrow> s | Some k \<Rightarrow> snd (fail_idempotency S k (exn_str e) s))"

definition release_claim :: "'s EnforcementStore \<Rightarrow> string option \<Rightarrow> 's \<Rightarrow> 's" where
  "release_claim S claimed s = (case claimed of None \<Rightarrow> s | Some k \<Rightarrow> delete_idempotency S k s)"

text \<open>The outcome of the executor: what it returned, or the exception to re-raise, and the store.\<close>

definition execute_step ::
  "'s EnforcementStore \<Rightarrow> enf_env \<Rightarrow> callbacks \<Rightarrow> enf_request \<Rightarrow> string option \<Rightarrow> Decision \<Rightarrow> 's \<Rightarrow>
     (exn + json option) \<times> 's \<times> event list" where
  "execute_step S env cb rq claimed effective s =
     (case executor cb of
        None \<Rightarrow> (Inr None, s, [])
      | Some run \<Rightarrow>
        (case run (rq_call rq) effective of
           Inr res \<Rightarrow> (Inr res, s, [EvExec (rq_call rq) effective])
         | Inl e \<Rightarrow>
           (case saga S env rq e s of
              Inl e' \<Rightarrow> (Inl e', s, [EvExec (rq_call rq) effective])
            | Inr s' \<Rightarrow> (Inl e, fail_claim S claimed e s', [EvExec (rq_call rq) effective]))))"

section \<open>Step 6: settling the claim\<close>

definition settle_step ::
  "'s EnforcementStore \<Rightarrow> enf_env \<Rightarrow> string option \<Rightarrow> Decision \<Rightarrow> json option \<Rightarrow> 's \<Rightarrow> exn + 's" where
  "settle_step S env claimed effective res s =
     (case claimed of
        None \<Rightarrow> Inr s
      | Some k \<Rightarrow>
        if executes effective then
          (case res of
             None \<Rightarrow> Inr (snd (complete_idempotency S k (decision_to_json env effective) None s))
           | Some v \<Rightarrow>
             (case dump_result env v of
                Inl e \<Rightarrow> Inl e
              | Inr txt \<Rightarrow>
                  Inr (snd (complete_idempotency S k (decision_to_json env effective) (Some txt) s))))
        else Inr (delete_idempotency S k s))"

definition finish ::
  "'s EnforcementStore \<Rightarrow> enf_env \<Rightarrow> string option \<Rightarrow> Decision \<Rightarrow> json option \<Rightarrow> 's \<Rightarrow>
     (exn + EnforcementResult) \<times> 's" where
  "finish S env claimed effective res s =
     (case settle_step S env claimed effective res s of
        Inl e \<Rightarrow> (Inl e, s)
      | Inr s' \<Rightarrow>
          (Inr \<lparr>er_decision = effective, idempotent = False,
                ledger_entry_id = Some (new_entry_id env), er_result = res\<rparr>, s'))"

text \<open>Commit the ledger entry (an executed call, or the record of a refusal), then settle.\<close>

definition commit_and_finish ::
  "'s EnforcementStore \<Rightarrow> enf_env \<Rightarrow> string option \<Rightarrow> Decision \<Rightarrow> json option \<Rightarrow> 's \<Rightarrow>
     (exn + EnforcementResult) \<times> 's" where
  "commit_and_finish S env claimed effective res s =
     (case commit_ledger S (new_entry_id env) (now_committed env) s of
        Inl e \<Rightarrow> (Inl e, s)
      | Inr s' \<Rightarrow> finish S env claimed effective res s')"

definition act_step ::
  "'s EnforcementStore \<Rightarrow> enf_env \<Rightarrow> callbacks \<Rightarrow> enf_request \<Rightarrow> string option \<Rightarrow> Decision \<Rightarrow> 's \<Rightarrow>
     (exn + EnforcementResult) \<times> 's \<times> event list" where
  "act_step S env cb rq claimed effective s =
     (if executes effective then
        (case execute_step S env cb rq claimed effective s of
           (Inl e, s', evs) \<Rightarrow> (Inl e, s', evs)
         | (Inr res, s', evs) \<Rightarrow>
             (let (out, s'') = commit_and_finish S env claimed effective res s' in (out, s'', evs)))
      else if kind effective = k_require_approval then
        (let (out, s') = finish S env claimed effective None s in (out, s', []))
      else
        (let (out, s') = commit_and_finish S env claimed effective None s in (out, s', [])))"

section \<open>The pipeline\<close>

definition enforce ::
  "'s EnforcementStore \<Rightarrow> enf_env \<Rightarrow> callbacks \<Rightarrow> enf_request \<Rightarrow> 's \<Rightarrow>
     (exn + EnforcementResult) \<times> 's \<times> event list" where
  "enforce S env cb rq s =
     (case claim_step S env rq s of
        (Inl res, s1) \<Rightarrow> (Inr res, s1, [])
      | (Inr claimed, s1) \<Rightarrow>
        (case revalidate cb rq of
           Inl e \<Rightarrow> (Inl e, release_claim S claimed s1, [])
         | Inr effective0 \<Rightarrow>
           (let (effective, s2, draws) = draw_step S rq effective0 s1;
                entry = ledger_entry_for env rq effective;
                s3 = write_ledger S entry s2;
                (out, s4, acts) = act_step S env cb rq claimed effective s3
            in (out, s4, draws @ [EvJournal entry] @ acts))))"

section \<open>Lemmas on the pure parts\<close>

lemma STRICTNESS_simps [simp]:
  "STRICTNESS k_allow = 0" "STRICTNESS k_transform = 1" "STRICTNESS k_require_approval = 2"
  "STRICTNESS k_abstain = 3" "STRICTNESS k_deny = 4"
  by (simp_all add: STRICTNESS_def)

lemma executes_STRICTNESS: "executes d \<longleftrightarrow> STRICTNESS (kind d) \<le> 1"
  by (cases d) auto

lemma pick_stricter_STRICTNESS:
  "STRICTNESS (kind (pick_stricter a b)) = max (STRICTNESS (kind a)) (STRICTNESS (kind b))"
  by (simp add: pick_stricter_def)

lemma executes_pick_stricter [simp]:
  "executes (pick_stricter a b) \<longleftrightarrow> executes a \<and> executes b"
  by (simp add: executes_STRICTNESS pick_stricter_STRICTNESS)

lemma draw_ancestors_decision:
  "draw_ancestors S ds eff s = (eff', s', evs) \<Longrightarrow> eff' = eff \<or> (\<exists>r. eff' = Deny r)"
  by (induction ds arbitrary: s s' evs) (auto split: prod.splits if_splits)

lemma draw_ancestors_events:
  "draw_ancestors S ds eff s = (eff', s', evs) \<Longrightarrow>
     (\<forall>ev \<in> set evs. \<exists>q d. ev = EvDraw q d)
     \<and> (executes eff' \<longrightarrow> evs = map (\<lambda>d. EvDraw (draw_key d) (draw_delta d)) ds)"
proof (induction ds arbitrary: s eff' s' evs)
  case Nil
  then show ?case by simp
next
  case (Cons d ds)
  then show ?case by (fastforce split: prod.splits if_splits)
qed

lemma draw_step_decision:
  "draw_step S rq eff s = (eff', s', evs) \<Longrightarrow> eff' = eff \<or> (\<exists>r. eff' = Deny r)"
  by (auto simp: draw_step_def dest: draw_ancestors_decision split: prod.splits if_splits)

lemma draw_step_events:
  "draw_step S rq eff s = (eff', s', evs) \<Longrightarrow>
     (\<forall>ev \<in> set evs. \<exists>q d. ev = EvDraw q d)
     \<and> (executes eff' \<longrightarrow>
          evs = EvDraw (counter_key rq) (counter_delta rq)
            # map (\<lambda>d. EvDraw (draw_key d) (draw_delta d)) (ancestor_draws rq))"
  by (fastforce simp: draw_step_def dest: draw_ancestors_events split: prod.splits if_splits)

lemma execute_step_events:
  "execute_step S env cb rq cl eff s = (out, s', evs) \<Longrightarrow> set evs \<subseteq> {EvExec (rq_call rq) eff}"
  by (auto simp: execute_step_def split: option.splits sum.splits)

lemma act_step_events:
  assumes "act_step S env cb rq cl eff s = (out, s', evs)" and "ev \<in> set evs"
  shows "ev = EvExec (rq_call rq) eff \<and> executes eff"
  using assms by (auto simp: act_step_def dest: execute_step_events split: if_splits prod.splits sum.splits)

lemma settled_outcome_unjournaled:
  "settled_outcome env r k = Some res \<Longrightarrow> ledger_entry_id res = None"
  by (auto simp: settled_outcome_def refusal_def split: if_splits)

lemma lost_claim_unjournaled: "ledger_entry_id (lost_claim env k st) = None"
  by (auto simp: lost_claim_def contended_def refusal_def dest: settled_outcome_unjournaled
      split: option.splits)

lemma claim_step_unjournaled:
  "claim_step S env rq s = (Inl res, s1) \<Longrightarrow> ledger_entry_id res = None"
  by (auto simp: claim_step_def take_claim_def Let_def lost_claim_unjournaled
      dest: settled_outcome_unjournaled split: option.splits prod.splits if_splits)

text \<open>The shape of a run that gets past the claim: draws, then the journal, then the acts.\<close>

lemma enforce_eventsE:
  assumes "enforce S env cb rq s = (out, s', evs)" and "evs \<noteq> []"
  obtains cl s1 eff0 eff s2 draws acts where
    "claim_step S env rq s = (Inr cl, s1)" "revalidate cb rq = Inr eff0"
    "draw_step S rq eff0 s1 = (eff, s2, draws)"
    "act_step S env cb rq cl eff (write_ledger S (ledger_entry_for env rq eff) s2) = (out, s', acts)"
    "evs = draws @ [EvJournal (ledger_entry_for env rq eff)] @ acts"
  using assms by (auto simp: enforce_def Let_def split: prod.splits sum.splits)

section \<open>Enforcement over any store that keeps the contract\<close>

context enforcement_store
begin

lemma take_claim_free:
  assumes "get_idempotency S s k = None"
  obtains s' where "take_claim S env k s = (Inr (Some k), s')"
    "get_idempotency S s' = (get_idempotency S s)(k \<mapsto> claim_record env k)"
    "read_counter S s' = read_counter S s" "led s' = led s"
proof -
  obtain b s' where p: "put_idempotency_if_absent S (claim_record env k) s = (b, s')" by fastforce
  have k: "ir_key (claim_record env k) = k" by (simp add: claim_record_def)
  from put_claims [OF p] assms k have "b" by simp
  with p k put_claims [OF p] that show thesis by (simp add: take_claim_def)
qed

text \<open>Without a concurrent caller the claim is always won unless a settled outcome is found.\<close>

lemma claim_step_settled:
  assumes "idempotency_key rq = Some k" and "get_idempotency S s k = Some r"
    and "settled_outcome env r k = Some res"
  shows "claim_step S env rq s = (Inl res, s)"
  using assms by (simp add: claim_step_def)

lemma claim_step_won:
  assumes "claim_step S env rq s = (Inr cl, s1)"
  shows "cl = idempotency_key rq
     \<and> get_idempotency S s1 =
         (case cl of None \<Rightarrow> get_idempotency S s
          | Some k \<Rightarrow> (get_idempotency S s)(k \<mapsto> claim_record env k))
     \<and> read_counter S s1 = read_counter S s \<and> led s1 = led s"
proof (cases "idempotency_key rq")
  case None
  with assms show ?thesis by (auto simp: claim_step_def)
next
  case (Some k)
  show ?thesis
  proof (cases "get_idempotency S s k")
    case None
    from take_claim_free [OF this, of env] obtain s' where "take_claim S env k s = (Inr (Some k), s')"
      "get_idempotency S s' = (get_idempotency S s)(k \<mapsto> claim_record env k)"
      "read_counter S s' = read_counter S s" "led s' = led s" by metis
    moreover from this None Some assms have "cl = Some k \<and> s1 = s'" by (simp add: claim_step_def)
    ultimately show ?thesis using Some by simp
  next
    case (Some r)
    have "get_idempotency S (delete_idempotency S k s) k = None" by simp
    from take_claim_free [OF this, of env] obtain s' where
      "take_claim S env k (delete_idempotency S k s) = (Inr (Some k), s')"
      "get_idempotency S s' = (get_idempotency S s)(k \<mapsto> claim_record env k)"
      "read_counter S s' = read_counter S s" "led s' = led s" by auto
    moreover from this Some \<open>idempotency_key rq = Some k\<close> assms have "cl = Some k \<and> s1 = s'"
      by (simp add: claim_step_def split: option.splits)
    ultimately show ?thesis using \<open>idempotency_key rq = Some k\<close> by simp
  qed
qed

lemma draw_ancestors_views:
  "draw_ancestors S ds eff s = (eff', s', evs) \<Longrightarrow>
     get_idempotency S s' = get_idempotency S s \<and> led s' = led s"
  by (induction ds arbitrary: s s' evs)
     (auto split: prod.splits if_splits dest!: increment_capped)

lemma draw_step_views:
  "draw_step S rq eff s = (eff', s', evs) \<Longrightarrow>
     get_idempotency S s' = get_idempotency S s \<and> led s' = led s"
  by (auto simp: draw_step_def split: prod.splits if_splits
      dest!: increment_capped draw_ancestors_views)

lemma settle_step_views:
  assumes "settle_step S env cl eff res s = Inr s'"
  shows "led s' = led s"
  using assms
  by (auto simp: settle_step_def split: option.splits if_splits sum.splits)
     (metis complete_cas prod.collapse)+

text \<open>A refused call: its journal entry is committed unless it waits for a human, its claim is gone.\<close>

lemma act_step_refused:
  assumes "\<not> executes eff" and "led s (new_entry_id env) = Some e"
  obtains s' where
    "act_step S env cb rq cl eff s =
       (Inr \<lparr>er_decision = eff, idempotent = False, ledger_entry_id = Some (new_entry_id env),
             er_result = None\<rparr>, s', [])"
    "get_idempotency S s' =
       (case cl of None \<Rightarrow> get_idempotency S s | Some k \<Rightarrow> (get_idempotency S s)(k := None))"
    "led s' = (if kind eff = k_require_approval then led s
       else (led s)(new_entry_id env \<mapsto> e\<lparr>le_status := committed, ts_committed := Some (now_committed env)\<rparr>))"
proof -
  from ledger_committed [OF assms(2), of "now_committed env"] obtain sc where sc:
    "commit_ledger S (new_entry_id env) (now_committed env) s = Inr sc"
    "led sc = (led s)(new_entry_id env \<mapsto> e\<lparr>le_status := committed, ts_committed := Some (now_committed env)\<rparr>)"
    "get_idempotency S sc = get_idempotency S s" by auto
  let ?rel = "\<lambda>s. case cl of None \<Rightarrow> s | Some k \<Rightarrow> delete_idempotency S k s"
  show thesis
  proof (cases "kind eff = k_require_approval")
    case True
    with assms show thesis
      by (intro that [of "?rel s"])
         (auto simp: act_step_def finish_def settle_step_def split: option.splits)
  next
    case False
    with assms sc show thesis
      by (intro that [of "?rel sc"])
         (auto simp: act_step_def commit_and_finish_def finish_def settle_step_def split: option.splits)
  qed
qed

text \<open>A call whose executor raised: the journal records the saga, the claim is burnt.\<close>

lemma act_step_raised:
  assumes "executes eff" and "led s (new_entry_id env) = Some e"
    and "executor cb = Some run" and "run (rq_call rq) eff = Inl x"
  obtains s' where
    "act_step S env cb rq cl eff s = (Inl x, s', [EvExec (rq_call rq) eff])"
    "led s' = (led s)(new_entry_id env \<mapsto>
       e\<lparr>le_status := (if reversible (bc_manifest (rq_call rq)) = Some True then compensated else escalated),
         le_error := Some (exn_str x)\<rparr>)"
    "\<And>k r. cl = Some k \<Longrightarrow> get_idempotency S s k = Some r \<Longrightarrow> ir_status r = in_flight \<Longrightarrow>
       get_idempotency S s' k = Some (r\<lparr>ir_status := failed, ir_error := Some (exn_str x)\<rparr>)"
proof -
  obtain sc where sc: "saga S env rq x s = Inr sc"
    "led sc = (led s)(new_entry_id env \<mapsto>
       e\<lparr>le_status := (if reversible (bc_manifest (rq_call rq)) = Some True then compensated else escalated),
         le_error := Some (exn_str x)\<rparr>)"
    "get_idempotency S sc = get_idempotency S s"
    using ledger_compensated [OF assms(2), of "exn_str x"] ledger_escalated [OF assms(2), of "exn_str x"]
    by (cases "reversible (bc_manifest (rq_call rq)) = Some True") (auto simp: saga_def)
  have fc: "led (fail_claim S cl x sc) = led sc"
    by (auto simp: fail_claim_def split: option.splits) (metis fail_cas prod.collapse)
  have cl: "get_idempotency S (fail_claim S cl x sc) k
      = Some (r\<lparr>ir_status := failed, ir_error := Some (exn_str x)\<rparr>)"
    if "cl = Some k" "get_idempotency S s k = Some r" "ir_status r = in_flight" for k r
  proof -
    obtain b sf where "fail_idempotency S k (exn_str x) sc = (b, sf)" by fastforce
    with fail_cas [OF this] that sc(3) show ?thesis by (simp add: fail_claim_def)
  qed
  show thesis
    by (rule that [of "fail_claim S cl x sc"])
       (use assms sc fc cl in \<open>simp_all add: act_step_def execute_step_def\<close>)
qed

lemma execute_step_ok:
  "execute_step S env cb rq cl eff s = (Inr res, s', evs) \<Longrightarrow> s' = s"
  by (auto simp: execute_step_def split: option.splits sum.splits)

text \<open>A call that executed: the journal entry is committed; a held claim is completed with the decision
  and the result, unless the result cannot be serialized, in which case the claim stays in flight.\<close>

lemma act_step_executed:
  assumes eff: "executes eff" and e: "led s (new_entry_id env) = Some e"
    and run: "execute_step S env cb rq cl eff s = (Inr res, s, evs)"
    and cl: "\<And>k. cl = Some k \<Longrightarrow> \<exists>r. get_idempotency S s k = Some r \<and> ir_status r = in_flight"
  obtains out s' where
    "act_step S env cb rq cl eff s = (out, s', evs)"
    "led s' = (led s)(new_entry_id env \<mapsto> e\<lparr>le_status := committed, ts_committed := Some (now_committed env)\<rparr>)"
    "\<And>er. out = Inr er \<Longrightarrow> er = \<lparr>er_decision = eff, idempotent = False,
        ledger_entry_id = Some (new_entry_id env), er_result = res\<rparr>"
    "\<And>er k. out = Inr er \<Longrightarrow> cl = Some k \<Longrightarrow> \<exists>r. get_idempotency S s' k = Some r
        \<and> ir_status r = executed \<and> decision_json r = decision_to_json env eff
        \<and> (case res of None \<Rightarrow> result_json r = None
           | Some v \<Rightarrow> \<exists>t. dump_result env v = Inr t \<and> result_json r = Some t)"
    "\<And>x k. out = Inl x \<Longrightarrow> cl = Some k \<Longrightarrow> get_idempotency S s' k = get_idempotency S s k"
proof -
  from ledger_committed [OF e, of "now_committed env"] obtain sc where sc:
    "commit_ledger S (new_entry_id env) (now_committed env) s = Inr sc"
    "led sc = (led s)(new_entry_id env \<mapsto> e\<lparr>le_status := committed, ts_committed := Some (now_committed env)\<rparr>)"
    "get_idempotency S sc = get_idempotency S s" by auto
  obtain out s' where fin: "finish S env cl eff res sc = (out, s')" by fastforce
  have act: "act_step S env cb rq cl eff s = (out, s', evs)"
    using eff run sc(1) fin by (simp add: act_step_def commit_and_finish_def)
  have led': "led s' = led sc"
    using fin settle_step_views [of env cl eff res sc] by (auto simp: finish_def split: sum.splits)
  have res': "er = \<lparr>er_decision = eff, idempotent = False,
        ledger_entry_id = Some (new_entry_id env), er_result = res\<rparr>" if "out = Inr er" for er
    using fin that by (auto simp: finish_def split: sum.splits)
  have completed: "\<exists>r. get_idempotency S s' k = Some r
        \<and> ir_status r = executed \<and> decision_json r = decision_to_json env eff
        \<and> (case res of None \<Rightarrow> result_json r = None
           | Some v \<Rightarrow> \<exists>t. dump_result env v = Inr t \<and> result_json r = Some t)"
    if o: "out = Inr er" and k: "cl = Some k" for er k
  proof -
    from cl [OF k] sc(3) obtain r where r: "get_idempotency S sc k = Some r" "ir_status r = in_flight"
      by auto
    have upd: "get_idempotency S (snd (complete_idempotency S k dj rj sc)) k
        = Some (r\<lparr>decision_json := dj, result_json := rj, ir_status := executed\<rparr>)" for dj rj
      using complete_cas [of k dj rj sc] r by (cases "complete_idempotency S k dj rj sc") simp
    show ?thesis
      using fin o k eff upd
      by (auto simp: finish_def settle_step_def split: sum.splits option.splits)
  qed
  have stuck: "get_idempotency S s' k = get_idempotency S s k" if "out = Inl x" "cl = Some k" for x k
    using fin that sc(3) by (auto simp: finish_def split: sum.splits)
  show thesis
    by (rule that [OF act]) (use led' sc(2) res' completed stuck in auto)
qed

text \<open>What one completed run leaves under its key: an executed record exactly when it executed.\<close>

lemma enforce_settles_key:
  assumes "enforce S env cb rq s = (Inr er, s', evs)" and k: "idempotency_key rq = Some k"
    and fresh: "ledger_entry_id er \<noteq> None"
  shows "if executes (er_decision er) then
      \<exists>r. get_idempotency S s' k = Some r
        \<and> ir_status r = executed \<and> decision_json r = decision_to_json env (er_decision er)
        \<and> (case er_result er of None \<Rightarrow> result_json r = None
           | Some v \<Rightarrow> \<exists>t. dump_result env v = Inr t \<and> result_json r = Some t)
    else get_idempotency S s' k = None"
proof -
  have evs: "evs \<noteq> []"
    using assms(1) fresh
    by (auto simp: enforce_def Let_def dest: claim_step_unjournaled split: prod.splits sum.splits)
  from enforce_eventsE [OF assms(1) evs] obtain cl s1 eff0 eff s2 draws acts where
    c: "claim_step S env rq s = (Inr cl, s1)" "draw_step S rq eff0 s1 = (eff, s2, draws)"
    and act: "act_step S env cb rq cl eff (write_ledger S (ledger_entry_for env rq eff) s2)
        = (Inr er, s', acts)" by metis
  let ?e = "ledger_entry_for env rq eff"
  let ?s3 = "write_ledger S ?e s2"
  from claim_step_won [OF c(1)] k draw_step_views [OF c(2)]
  have cl: "cl = Some k" and g: "get_idempotency S ?s3 k = Some (claim_record env k)"
    by simp_all
  have fl: "ir_status (claim_record env k) = in_flight" by (simp add: claim_record_def)
  have e: "led ?s3 (new_entry_id env) = Some ?e" by (simp add: ledger_entry_for_def)
  show ?thesis
  proof (cases "executes eff")
    case False
    from act_step_refused [OF this e, of cb rq cl] act cl False show ?thesis by fastforce
  next
    case True
    then obtain res evs2 where run: "execute_step S env cb rq cl eff ?s3 = (Inr res, ?s3, evs2)"
      using act execute_step_ok [of env cb rq cl eff ?s3]
      by (fastforce simp: act_step_def split: prod.splits sum.splits)
    show ?thesis
    proof (rule act_step_executed [OF True e run])
      show "\<exists>r. get_idempotency S ?s3 k' = Some r \<and> ir_status r = in_flight" if "cl = Some k'" for k'
        using that cl g fl by simp
    qed (use act cl True in \<open>simp split: option.splits\<close>)
  qed
qed

text \<open>What a run that raised leaves under its key: if the connector was called the key stays taken, in
  flight or failed; if it was not, the key is free again.\<close>

lemma enforce_raise_key:
  assumes "enforce S env cb rq s = (Inl x, s', evs)" and k: "idempotency_key rq = Some k"
  shows "if \<exists>c d. EvExec c d \<in> set evs then
      \<exists>r. get_idempotency S s' k = Some r \<and> (ir_status r = in_flight \<or> ir_status r = failed)
    else get_idempotency S s' k = None"
proof (cases "evs = []")
  case True
  with assms(1) obtain cl s1 where c: "claim_step S env rq s = (Inr cl, s1)"
    and s': "s' = release_claim S cl s1"
    by (auto simp: enforce_def Let_def split: prod.splits sum.splits)
  from claim_step_won [OF c] k s' True show ?thesis by (simp add: release_claim_def)
next
  case False
  from enforce_eventsE [OF assms(1) False] obtain cl s1 eff0 eff s2 draws acts where
    c: "claim_step S env rq s = (Inr cl, s1)" "draw_step S rq eff0 s1 = (eff, s2, draws)"
    and act: "act_step S env cb rq cl eff (write_ledger S (ledger_entry_for env rq eff) s2)
        = (Inl x, s', acts)"
    and evs: "evs = draws @ [EvJournal (ledger_entry_for env rq eff)] @ acts" by metis
  let ?e = "ledger_entry_for env rq eff"
  let ?s3 = "write_ledger S ?e s2"
  from claim_step_won [OF c(1)] k draw_step_views [OF c(2)]
  have cl: "cl = Some k" and g: "get_idempotency S ?s3 k = Some (claim_record env k)"
    by simp_all
  have fl: "ir_status (claim_record env k) = in_flight" by (simp add: claim_record_def)
  have e: "led ?s3 (new_entry_id env) = Some ?e" by (simp add: ledger_entry_for_def)
  have eff: "executes eff"
    using act act_step_refused [OF _ e, of eff cb rq cl] by fastforce
  have taken: "\<exists>r. get_idempotency S s' k = Some r \<and> (ir_status r = in_flight \<or> ir_status r = failed)
      \<and> EvExec (rq_call rq) eff \<in> set acts"
  proof (cases "\<exists>run y. executor cb = Some run \<and> run (rq_call rq) eff = Inl y")
    case True
    then obtain run y where "executor cb = Some run" "run (rq_call rq) eff = Inl y" by blast
    from act_step_raised [OF eff e this, of cl] act cl g fl show ?thesis by fastforce
  next
    case False
    then obtain res evs2 where run: "execute_step S env cb rq cl eff ?s3 = (Inr res, ?s3, evs2)"
      and ex: "res \<noteq> None \<longrightarrow> evs2 = [EvExec (rq_call rq) eff]"
      by (cases "executor cb"; cases "(the (executor cb)) (rq_call rq) eff")
         (auto simp: execute_step_def)
    have "res \<noteq> None"
      using act run eff ledger_committed [OF e, of "now_committed env"]
      by (cases res) (auto simp: act_step_def commit_and_finish_def finish_def settle_step_def cl)
    with ex have "evs2 = [EvExec (rq_call rq) eff]" by blast
    show ?thesis
    proof (rule act_step_executed [OF eff e run])
      show "\<exists>r. get_idempotency S ?s3 k' = Some r \<and> ir_status r = in_flight" if "cl = Some k'" for k'
        using that cl g fl by simp
    qed (use act cl g fl \<open>evs2 = _\<close> in auto)
  qed
  then show ?thesis using evs by auto
qed

lemma enforce_settled:
  assumes "idempotency_key rq = Some k" and "get_idempotency S s k = Some r"
    and "settled_outcome env r k = Some res"
  shows "enforce S env cb rq s = (Inr res, s, [])"
  using claim_step_settled [OF assms] by (simp add: enforce_def)

end

section \<open>A sample run\<close>

definition sample_env :: "string \<Rightarrow> enf_env" where
  "sample_env i =
     \<lparr>decision_to_json = (\<lambda>d. ''allow''), json_to_decision = (\<lambda>t. Allow),
      dump_call = (\<lambda>c. bc_tool c), dump_result = (\<lambda>v. Inr ''ok''), load_result = (\<lambda>t. JStr t),
      new_entry_id = i, now_claim = ''t0'', now_created = ''t1'', now_committed = ''t2''\<rparr>"

definition sample_cb :: "AutonomyLevel \<Rightarrow> exn + json option \<Rightarrow> callbacks" where
  "sample_cb l out =
     \<lparr>decider = decide id, fresh_facts = (\<lambda>c. Inr (sample_facts l)),
      executor = Some (\<lambda>c d. out)\<rparr>"

definition sample_rq :: enf_request where
  "sample_rq =
     \<lparr>rq_call = sample_call sample_note False, initial_decision = Allow,
      idempotency_key = Some ''k1'', counter_key = ''own'', counter_delta = 1, counter_cap = 5,
      ancestor_draws = [\<lparr>draw_key = ''tree'', draw_delta = 1, draw_cap = 9\<rparr>]\<rparr>"

text \<open>The store and the events after one run of the sample request on an empty store.\<close>

definition sample_after :: "AutonomyLevel \<Rightarrow> exn + json option \<Rightarrow> InMemoryStore" where
  "sample_after l out =
     fst (snd (enforce mem_ops (sample_env ''e1'') (sample_cb l out) sample_rq mem_init))"

definition sample_events :: "AutonomyLevel \<Rightarrow> exn + json option \<Rightarrow> event list" where
  "sample_events l out =
     snd (snd (enforce mem_ops (sample_env ''e1'') (sample_cb l out) sample_rq mem_init))"

definition sample_result :: "Decision \<Rightarrow> json option \<Rightarrow> EnforcementResult" where
  "sample_result d v =
     \<lparr>er_decision = d, idempotent = False, ledger_entry_id = Some ''e1'', er_result = v\<rparr>"

lemmas enforce_defs =
  enforce_def claim_step_def take_claim_def revalidate_def draw_step_def act_step_def
  execute_step_def commit_and_finish_def finish_def settle_step_def saga_def fail_claim_def
  release_claim_def ledger_entry_for_def claim_record_def pick_stricter_def

lemmas sample_run_defs =
  enforce_defs sample_defs sample_env_def sample_cb_def sample_rq_def sample_facts_def
  sample_after_def sample_events_def sample_result_def store_simps mem_init_def Let_def
  decide_eq_spec policy_defs

lemma sample_run_ok:
  "enforce mem_ops (sample_env ''e1'') (sample_cb on_loop (Inr (Some (JStr ''ok'')))) sample_rq mem_init
     = (Inr (sample_result Allow (Some (JStr ''ok''))), sample_after on_loop (Inr (Some (JStr ''ok''))),
        sample_events on_loop (Inr (Some (JStr ''ok''))))"
  by (simp add: sample_run_defs)

lemma sample_run_raises:
  "enforce mem_ops (sample_env ''e1'') (sample_cb on_loop (Inl (Exn ''Timeout'' ''timeout''))) sample_rq mem_init
     = (Inl (Exn ''Timeout'' ''timeout''), sample_after on_loop (Inl (Exn ''Timeout'' ''timeout'')),
        sample_events on_loop (Inl (Exn ''Timeout'' ''timeout'')))"
  by (simp add: sample_run_defs)

lemma sample_run_held:
  "\<exists>i r. enforce mem_ops (sample_env ''e1'') (sample_cb in_loop (Inr None)) sample_rq mem_init
     = (Inr (sample_result (RequireApproval i r) None), sample_after in_loop (Inr None),
        sample_events in_loop (Inr None))"
  by (simp add: sample_run_defs approval_or_deny_def approval_for_def)

lemma sample_events_exec:
  "EvExec (sample_call sample_note False) Allow \<in> set (sample_events on_loop (Inr (Some (JStr ''ok''))))"
  "EvExec (sample_call sample_note False) Allow
     \<in> set (sample_events on_loop (Inl (Exn ''Timeout'' ''timeout'')))"
  by (simp_all add: sample_run_defs)

section \<open>Properties\<close>

text \<open>C3: nothing executes on a stale decision. If the connector is called at all, it is called with the
  request's own call; both the decision made before enforcement and the decision re-made on fresh
  facts execute; and the effective decision is at least as strict as each of them.\<close>

theorem execution_needs_both_decisions:
  assumes "enforce S env cb rq s = (out, s', evs)" and "EvExec c d \<in> set evs"
  shows "c = rq_call rq \<and> executes d \<and> executes (initial_decision rq)
    \<and> (\<exists>facts. fresh_facts cb (rq_call rq) = Inr facts
          \<and> executes (decider cb (rq_call rq) facts)
          \<and> d = pick_stricter (initial_decision rq) (decider cb (rq_call rq) facts))"
proof -
  from assms(2) have "evs \<noteq> []" by auto
  with assms(1) obtain cl s1 eff0 eff s2 draws acts where
    r: "revalidate cb rq = Inr eff0" and dr: "draw_step S rq eff0 s1 = (eff, s2, draws)"
    and act: "act_step S env cb rq cl eff (write_ledger S (ledger_entry_for env rq eff) s2)
        = (out, s', acts)"
    and evs: "evs = draws @ [EvJournal (ledger_entry_for env rq eff)] @ acts"
    by (rule enforce_eventsE)
  from draw_step_events [OF dr] assms(2) evs have "EvExec c d \<in> set acts" by fastforce
  from act_step_events [OF act this] have cd: "c = rq_call rq" "d = eff" "executes eff" by simp_all
  with draw_step_decision [OF dr] have "eff0 = d" by auto
  with r cd show ?thesis by (auto simp: revalidate_def split: sum.splits)
qed

theorem execution_needs_both_decisions_witness:
  "executes (initial_decision sample_rq)
   \<and> (\<exists>facts. fresh_facts (sample_cb on_loop (Inr (Some (JStr ''ok'')))) (rq_call sample_rq) = Inr facts
        \<and> executes (decide id (rq_call sample_rq) facts))"
  using execution_needs_both_decisions [OF sample_run_ok sample_events_exec(1)]
  by (auto simp: sample_cb_def)

text \<open>C4: charge, then journal, then act. When the connector is called, the events of the run are exactly
  the draw on the call's own budget, one draw on every ancestor pool in the order given, the
  journaled intent with status uncommitted, and the one call of the connector, in this order.\<close>

theorem charged_and_journaled_before_execution:
  assumes "enforce S env cb rq s = (out, s', evs)" and "EvExec c d \<in> set evs"
  shows "evs = EvDraw (counter_key rq) (counter_delta rq)
      # map (\<lambda>a. EvDraw (draw_key a) (draw_delta a)) (ancestor_draws rq)
      @ [EvJournal (ledger_entry_for env rq d), EvExec c d]
    \<and> le_status (ledger_entry_for env rq d) = uncommitted"
proof -
  from assms(2) have "evs \<noteq> []" by auto
  with assms(1) obtain cl s1 eff0 eff s2 draws acts where
    dr: "draw_step S rq eff0 s1 = (eff, s2, draws)"
    and act: "act_step S env cb rq cl eff (write_ledger S (ledger_entry_for env rq eff) s2)
        = (out, s', acts)"
    and evs: "evs = draws @ [EvJournal (ledger_entry_for env rq eff)] @ acts"
    by (rule enforce_eventsE)
  from draw_step_events [OF dr] assms(2) evs have "EvExec c d \<in> set acts" by fastforce
  from act_step_events [OF act this] have cd: "c = rq_call rq" "d = eff" "executes eff" by simp_all
  have "acts = [EvExec c d]"
    using act \<open>EvExec c d \<in> set acts\<close> cd
    by (auto simp: act_step_def execute_step_def split: option.splits sum.splits prod.splits)
  with draw_step_events [OF dr] cd evs show ?thesis by (simp add: ledger_entry_for_def)
qed

theorem charged_and_journaled_before_execution_witness:
  "sample_events on_loop (Inr (Some (JStr ''ok''))) =
     [EvDraw ''own'' 1, EvDraw ''tree'' 1,
      EvJournal (ledger_entry_for (sample_env ''e1'') sample_rq Allow),
      EvExec (sample_call sample_note False) Allow]"
  using charged_and_journaled_before_execution [OF sample_run_ok sample_events_exec(1)]
  by (simp add: sample_rq_def)

text \<open>An executed outcome replays. After a run under a key returned an executed outcome, every later
  run under the same key, whatever call, budgets and callbacks it carries, returns the same decision
  and the same connector result, marked idempotent, with no draw, no journal entry, no execution and
  no change of the store. The JSON codecs are assumed to read back what they wrote.\<close>

lemma executed_outcome_replays:
  assumes run: "enforce mem_ops env cb rq s = (Inr er, s', evs)"
    and key: "idempotency_key rq = Some k" "idempotency_key rq2 = Some k"
    and done1: "executes (er_decision er)" "ledger_entry_id er \<noteq> None"
    and codec: "decision_to_json env (er_decision er) \<noteq> []"
      "json_to_decision env2 (decision_to_json env (er_decision er)) = er_decision er"
      "\<And>v t. er_result er = Some v \<Longrightarrow> dump_result env v = Inr t \<Longrightarrow> load_result env2 t = v"
  shows "enforce mem_ops env2 cb2 rq2 s'
    = (Inr \<lparr>er_decision = er_decision er, idempotent = True, ledger_entry_id = None,
           er_result = er_result er\<rparr>, s', [])"
proof -
  from mem.enforce_settles_key [OF run key(1) done1(2)] done1(1) obtain r where
    r: "get_idempotency mem_ops s' k = Some r" "ir_status r = executed"
      "decision_json r = decision_to_json env (er_decision er)"
      "case er_result er of None \<Rightarrow> result_json r = None
       | Some v \<Rightarrow> \<exists>t. dump_result env v = Inr t \<and> result_json r = Some t" by auto
  then have "record_decision env2 r = er_decision er" "record_result env2 r = er_result er"
    using codec by (auto simp: record_decision_def record_result_def split: option.splits)
  with r done1 have "settled_outcome env2 r k =
      Some \<lparr>er_decision = er_decision er, idempotent = True, ledger_entry_id = None,
           er_result = er_result er\<rparr>"
    by (simp add: settled_outcome_def)
  from mem.enforce_settled [OF key(2) r(1) this] show ?thesis .
qed

lemma executed_outcome_replays_witness:
  "enforce mem_ops (sample_env ''e2'') (sample_cb in_loop (Inr None)) sample_rq
      (sample_after on_loop (Inr (Some (JStr ''ok''))))
    = (Inr \<lparr>er_decision = Allow, idempotent = True, ledger_entry_id = None,
           er_result = Some (JStr ''ok'')\<rparr>,
       sample_after on_loop (Inr (Some (JStr ''ok''))), [])"
  using executed_outcome_replays [OF sample_run_ok, of "''k1''" sample_rq "sample_env ''e2''"
      "sample_cb in_loop (Inr None)"]
  by (simp add: sample_result_def sample_env_def sample_rq_def)

text \<open>C5: an uncertain outcome burns the key. If a run called the connector and then raised, a later run
  under the same key is refused: it returns a deny, calls nothing, draws nothing, journals nothing
  and leaves the store as it is.\<close>

theorem raised_execution_burns_key:
  assumes run: "enforce mem_ops env cb rq s = (Inl x, s', evs)" and ex: "EvExec c d \<in> set evs"
    and key: "idempotency_key rq = Some k" "idempotency_key rq2 = Some k"
  shows "\<exists>reason. enforce mem_ops env2 cb2 rq2 s' = (Inr (refusal reason), s', [])"
proof -
  from ex have "\<exists>c d. EvExec c d \<in> set evs" by blast
  with mem.enforce_raise_key [OF run key(1)] obtain r where
    r: "get_idempotency mem_ops s' k = Some r" "ir_status r = in_flight \<or> ir_status r = failed"
    by (meson)
  then obtain reason where "settled_outcome env2 r k = Some (refusal reason)"
    by (auto simp: settled_outcome_def)
  from mem.enforce_settled [OF key(2) r(1) this] show ?thesis by blast
qed

theorem raised_execution_burns_key_witness:
  "\<exists>reason. enforce mem_ops (sample_env ''e2'') (sample_cb on_loop (Inr None)) sample_rq
      (sample_after on_loop (Inl (Exn ''Timeout'' ''timeout'')))
    = (Inr (refusal reason), sample_after on_loop (Inl (Exn ''Timeout'' ''timeout'')), [])"
  by (rule raised_execution_burns_key [OF sample_run_raises sample_events_exec(2), of "''k1''"])
     (simp_all add: sample_rq_def)

text \<open>A refusal is not remembered. A run that completed without executing (denied, abstained or held
  for approval) leaves no record under its key, so a retry is decided afresh.\<close>

lemma refusal_releases_key:
  assumes "enforce mem_ops env cb rq s = (Inr er, s', evs)" and "idempotency_key rq = Some k"
    and "\<not> executes (er_decision er)" and "ledger_entry_id er \<noteq> None"
  shows "get_idempotency mem_ops s' k = None"
  using mem.enforce_settles_key [OF assms(1,2,4)] assms(3) by simp

lemma refusal_releases_key_witness:
  "get_idempotency mem_ops (sample_after in_loop (Inr None)) ''k1'' = None"
proof -
  obtain i r where run: "enforce mem_ops (sample_env ''e1'') (sample_cb in_loop (Inr None)) sample_rq mem_init
     = (Inr (sample_result (RequireApproval i r) None), sample_after in_loop (Inr None),
        sample_events in_loop (Inr None))"
    using sample_run_held by blast
  show ?thesis
    by (rule refusal_releases_key [OF run]) (simp_all add: sample_rq_def sample_result_def)
qed

end
