(* ===== verification/Enforcement_Concurrency.thy ===== *)
theory Enforcement_Concurrency
  imports Enforcement
begin

text \<open>
  Concurrent callers of the enforcement pipeline. Each call of \<open>enforce\<close> is a thread whose program
  counter \<open>pc\<close> stands before one atomic store operation (or callback) of \<open>engine.py\<close>; \<open>thread_step\<close>
  performs it. Any number of threads share one store and are interleaved arbitrarily by \<open>gstep\<close>;
  \<open>log\<close> records who did what in which order.

  \<open>thread_run\<close> runs one thread without interruption and is proved to be \<open>enforce\<close>, so the machine
  adds nothing to the sequential definition but the points where others may run. The theorems are
  that at most one call of the connector is ever made under one idempotency key, that capped
  counters hold under every interleaving, and that the first of them fails when the store starts
  with a record of a non-executed outcome under the key.
\<close>

section \<open>Threads\<close>

record thread =
  th_env :: enf_env
  th_cb :: callbacks
  th_rq :: enf_request

text \<open>The claimed key travels with the program counter, as \<open>claimed_key\<close> does in the source.\<close>

datatype pc =
    PGet                                              \<comment> \<open>before \<open>store.get_idempotency\<close>\<close>
  | PDelete                                           \<comment> \<open>before deleting a record that is not settled\<close>
  | PPut                                              \<comment> \<open>before the conditional put\<close>
  | PReget                                            \<comment> \<open>the put was lost, before the second read\<close>
  | PReval "string option"                            \<comment> \<open>before step 2\<close>
  | PDraw "string option" Decision                    \<comment> \<open>before the draw on the call's own budget\<close>
  | PAncestors "string option" "CounterDraw list" Decision  \<comment> \<open>before the next ancestor draw\<close>
  | PJournal "string option" Decision                 \<comment> \<open>before \<open>store.write_ledger\<close>\<close>
  | PExec "string option" Decision                    \<comment> \<open>before the executor\<close>
  | PSaga "string option" exn                         \<comment> \<open>the executor raised, before the saga\<close>
  | PFail "string option" exn                         \<comment> \<open>before burning the claim\<close>
  | PCommit "string option" Decision "json option"    \<comment> \<open>before \<open>store.commit_ledger\<close>\<close>
  | PSettle "string option" Decision "json option"    \<comment> \<open>before settling the claim\<close>
  | PRelease "string option" exn                      \<comment> \<open>step 2 raised, before releasing the claim\<close>
  | PDone "exn + EnforcementResult"

definition thread_start :: "thread \<Rightarrow> pc" where
  "thread_start t = (case idempotency_key (th_rq t) of None \<Rightarrow> PReval None | Some k \<Rightarrow> PGet)"

definition after_draws :: "string option \<Rightarrow> CounterDraw list \<Rightarrow> Decision \<Rightarrow> pc" where
  "after_draws cl ds eff = (if ds = [] then PJournal cl eff else PAncestors cl ds eff)"

definition result_for :: "enf_env \<Rightarrow> Decision \<Rightarrow> json option \<Rightarrow> EnforcementResult" where
  "result_for env eff res =
     \<lparr>er_decision = eff, idempotent = False, ledger_entry_id = Some (new_entry_id env),
      er_result = res\<rparr>"

definition thread_key :: "thread \<Rightarrow> string" where
  "thread_key t = the (idempotency_key (th_rq t))"

fun thread_step ::
  "'s EnforcementStore \<Rightarrow> thread \<Rightarrow> pc \<Rightarrow> 's \<Rightarrow> pc \<times> 's \<times> event list" where
  "thread_step S t PGet s =
     (case get_idempotency S s (thread_key t) of
        None \<Rightarrow> (PPut, s, [])
      | Some r \<Rightarrow>
        (case settled_outcome (th_env t) r (thread_key t) of
           Some res \<Rightarrow> (PDone (Inr res), s, [])
         | None \<Rightarrow> (PDelete, s, [])))"
| "thread_step S t PDelete s = (PPut, delete_idempotency S (thread_key t) s, [])"
| "thread_step S t PPut s =
     (let (won, s') = put_idempotency_if_absent S (claim_record (th_env t) (thread_key t)) s in
      (if won then PReval (Some (thread_key t)) else PReget, s', []))"
| "thread_step S t PReget s =
     (PDone (Inr (lost_claim (th_env t) (thread_key t) (get_idempotency S s (thread_key t)))), s, [])"
| "thread_step S t (PReval cl) s =
     (case revalidate (th_cb t) (th_rq t) of
        Inl e \<Rightarrow> (PRelease cl e, s, [])
      | Inr eff \<Rightarrow> (if executes eff then PDraw cl eff else PJournal cl eff, s, []))"
| "thread_step S t (PDraw cl eff) s =
     (let rq = th_rq t;
          (ok, s') = try_increment_counter S (counter_key rq) (counter_delta rq) (counter_cap rq) s in
      if ok then (after_draws cl (ancestor_draws rq) eff, s', [EvDraw (counter_key rq) (counter_delta rq)])
      else (PJournal cl (Deny ''capacity budget exceeded''), s', []))"
| "thread_step S t (PAncestors cl [] eff) s = (PJournal cl eff, s, [])"
| "thread_step S t (PAncestors cl (d # ds) eff) s =
     (let (ok, s') = try_increment_counter S (draw_key d) (draw_delta d) (draw_cap d) s in
      if ok then (after_draws cl ds eff, s', [EvDraw (draw_key d) (draw_delta d)])
      else (PJournal cl (Deny (''delegation-tree budget exceeded (pool '' @ draw_key d @ '')'')), s', []))"
| "thread_step S t (PJournal cl eff) s =
     (let entry = ledger_entry_for (th_env t) (th_rq t) eff in
      (if executes eff then PExec cl eff
       else if kind eff = k_require_approval then PSettle cl eff None
       else PCommit cl eff None,
       write_ledger S entry s, [EvJournal entry]))"
| "thread_step S t (PExec cl eff) s =
     (case executor (th_cb t) of
        None \<Rightarrow> (PCommit cl eff None, s, [])
      | Some run \<Rightarrow>
        (case run (rq_call (th_rq t)) eff of
           Inr res \<Rightarrow> (PCommit cl eff res, s, [EvExec (rq_call (th_rq t)) eff])
         | Inl e \<Rightarrow> (PSaga cl e, s, [EvExec (rq_call (th_rq t)) eff])))"
| "thread_step S t (PSaga cl e) s =
     (case saga S (th_env t) (th_rq t) e s of
        Inl e' \<Rightarrow> (PDone (Inl e'), s, [])
      | Inr s' \<Rightarrow> (PFail cl e, s', []))"
| "thread_step S t (PFail cl e) s = (PDone (Inl e), fail_claim S cl e s, [])"
| "thread_step S t (PCommit cl eff res) s =
     (case commit_ledger S (new_entry_id (th_env t)) (now_committed (th_env t)) s of
        Inl e \<Rightarrow> (PDone (Inl e), s, [])
      | Inr s' \<Rightarrow> (PSettle cl eff res, s', []))"
| "thread_step S t (PSettle cl eff res) s =
     (case settle_step S (th_env t) cl eff res s of
        Inl e \<Rightarrow> (PDone (Inl e), s, [])
      | Inr s' \<Rightarrow> (PDone (Inr (result_for (th_env t) eff res)), s', []))"
| "thread_step S t (PRelease cl e) s = (PDone (Inl e), release_claim S cl s, [])"
| "thread_step S t (PDone out) s = (PDone out, s, [])"

section \<open>One thread alone\<close>

text \<open>How far a thread is from its end: each step gets closer, so an uninterrupted run returns.\<close>

fun pc_left :: "thread \<Rightarrow> pc \<Rightarrow> nat" where
  "pc_left t PGet = 14 + length (ancestor_draws (th_rq t))"
| "pc_left t PDelete = 13 + length (ancestor_draws (th_rq t))"
| "pc_left t PPut = 12 + length (ancestor_draws (th_rq t))"
| "pc_left t PReget = 1"
| "pc_left t (PReval cl) = 11 + length (ancestor_draws (th_rq t))"
| "pc_left t (PDraw cl eff) = 10 + length (ancestor_draws (th_rq t))"
| "pc_left t (PAncestors cl ds eff) = 9 + length ds"
| "pc_left t (PJournal cl eff) = 8"
| "pc_left t (PExec cl eff) = 7"
| "pc_left t (PSaga cl e) = 5"
| "pc_left t (PFail cl e) = 4"
| "pc_left t (PCommit cl eff res) = 3"
| "pc_left t (PSettle cl eff res) = 2"
| "pc_left t (PRelease cl e) = 1"
| "pc_left t (PDone out) = 0"

lemma after_draws_left: "pc_left t (after_draws cl ds eff) \<le> 9 + length ds"
  by (simp add: after_draws_def)

lemma thread_step_decreases:
  assumes "\<And>out. p \<noteq> PDone out"
  shows "pc_left t (fst (thread_step S t p s)) < pc_left t p"
proof (cases p)
  case (PAncestors cl ds eff)
  then show ?thesis
    using after_draws_left [of t cl "tl ds" eff]
    by (cases ds) (auto split: prod.splits)
next
  case (PDraw cl eff)
  then show ?thesis
    using after_draws_left [of t cl "ancestor_draws (th_rq t)" eff]
    by (auto simp: Let_def split: prod.splits)
qed (use assms in \<open>auto simp: Let_def split: option.splits sum.splits prod.splits\<close>)

function thread_run ::
  "'s EnforcementStore \<Rightarrow> thread \<Rightarrow> pc \<Rightarrow> 's \<Rightarrow> (exn + EnforcementResult) \<times> 's \<times> event list" where
  "thread_run S t (PDone out) s = (out, s, [])"
| "(\<And>out. p \<noteq> PDone out) \<Longrightarrow>
     thread_run S t p s =
       (let (p', s', evs) = thread_step S t p s; (out, s'', evs') = thread_run S t p' s'
        in (out, s'', evs @ evs'))"
  by atomize_elim auto
termination
proof (relation "measure (\<lambda>(S, t, p, s). pc_left t p)")
  fix S :: "'s EnforcementStore" and t p s x y p' s' z
  assume "\<And>out. p \<noteq> PDone out" "x = thread_step S t p s" "(p', y) = x" "(s', z) = y"
  then show "((S, t, p', s'), S, t, p, s) \<in> measure (\<lambda>(S, t, p, s). pc_left t p)"
    using thread_step_decreases [of p t S s] by (metis fst_conv in_measure case_prod_conv)
qed auto

declare thread_run.simps(2) [simp del]

text \<open>One unfolding at each program point; what follows is composed from the definitions of \<open>enforce\<close>.\<close>

lemma thread_run_settle:
  "thread_run S t (PSettle cl eff res) s =
     (let (out, s') = finish S (th_env t) cl eff res s in (out, s', []))"
  by (subst thread_run.simps(2))
     (auto simp: finish_def result_for_def Let_def split: sum.splits)

lemma thread_run_commit:
  "thread_run S t (PCommit cl eff res) s =
     (let (out, s') = commit_and_finish S (th_env t) cl eff res s in (out, s', []))"
  by (subst thread_run.simps(2))
     (auto simp: commit_and_finish_def thread_run_settle Let_def split: sum.splits prod.splits)

lemma thread_run_fail: "thread_run S t (PFail cl e) s = (Inl e, fail_claim S cl e s, [])"
  by (subst thread_run.simps(2)) auto

lemma thread_run_saga:
  "thread_run S t (PSaga cl e) s =
     (case saga S (th_env t) (th_rq t) e s of
        Inl e' \<Rightarrow> (Inl e', s, []) | Inr s' \<Rightarrow> (Inl e, fail_claim S cl e s', []))"
  by (subst thread_run.simps(2)) (auto simp: thread_run_fail split: sum.splits)

lemma thread_run_exec:
  "executes eff \<Longrightarrow> thread_run S t (PExec cl eff) s =
     act_step S (th_env t) (th_cb t) (th_rq t) cl eff s"
  by (subst thread_run.simps(2))
     (auto simp: act_step_def execute_step_def thread_run_commit thread_run_saga Let_def
       split: option.splits sum.splits prod.splits)

lemma thread_run_journal:
  "thread_run S t (PJournal cl eff) s =
     (let entry = ledger_entry_for (th_env t) (th_rq t) eff;
          (out, s', acts) = act_step S (th_env t) (th_cb t) (th_rq t) cl eff (write_ledger S entry s)
      in (out, s', EvJournal entry # acts))"
  by (subst thread_run.simps(2))
     (auto simp: thread_run_exec thread_run_commit thread_run_settle act_step_def Let_def
       split: prod.splits)

lemma thread_run_ancestors:
  "thread_run S t (after_draws cl ds eff) s =
     (let (eff', s', evs) = draw_ancestors S ds eff s;
          (out, s'', acts) = thread_run S t (PJournal cl eff') s' in (out, s'', evs @ acts))"
proof (induction ds arbitrary: s)
  case Nil
  then show ?case by (simp add: after_draws_def split: prod.splits)
next
  case (Cons d ds)
  have "after_draws cl (d # ds) eff = PAncestors cl (d # ds) eff" by (simp add: after_draws_def)
  then show ?case
    by (subst thread_run.simps(2)) (auto simp: Cons.IH Let_def split: prod.splits)
qed

lemma thread_run_draw:
  "executes eff \<Longrightarrow> thread_run S t (PDraw cl eff) s =
     (let (eff', s', evs) = draw_step S (th_rq t) eff s;
          (out, s'', acts) = thread_run S t (PJournal cl eff') s' in (out, s'', evs @ acts))"
  by (subst thread_run.simps(2))
     (auto simp: draw_step_def thread_run_ancestors Let_def split: prod.splits)

lemma thread_run_reval:
  "thread_run S t (PReval cl) s =
     (case revalidate (th_cb t) (th_rq t) of
        Inl e \<Rightarrow> (Inl e, release_claim S cl s, [])
      | Inr eff \<Rightarrow>
        (let (eff', s', evs) = draw_step S (th_rq t) eff s;
             (out, s'', acts) = thread_run S t (PJournal cl eff') s' in (out, s'', evs @ acts)))"
proof (cases "revalidate (th_cb t) (th_rq t)")
  case (Inl e)
  have "thread_run S t (PRelease cl e) s = (Inl e, release_claim S cl s, [])"
    by (subst thread_run.simps(2)) auto
  with Inl show ?thesis by (subst thread_run.simps(2)) auto
next
  case (Inr eff)
  then show ?thesis
    by (subst thread_run.simps(2))
       (auto simp: thread_run_draw draw_step_def Let_def split: prod.splits)
qed

lemma thread_run_put:
  "idempotency_key (th_rq t) = Some k \<Longrightarrow> thread_run S t PPut s =
     (case take_claim S (th_env t) k s of
        (Inl res, s') \<Rightarrow> (Inr res, s', [])
      | (Inr cl, s') \<Rightarrow> thread_run S t (PReval cl) s')"
  by (subst thread_run.simps(2))
     (auto simp: take_claim_def thread_key_def Let_def thread_run.simps(2) [of PReget] split: prod.splits)

lemma thread_run_start:
  "thread_run S t (thread_start t) s =
     (case claim_step S (th_env t) (th_rq t) s of
        (Inl res, s') \<Rightarrow> (Inr res, s', [])
      | (Inr cl, s') \<Rightarrow> thread_run S t (PReval cl) s')"
proof (cases "idempotency_key (th_rq t)")
  case None
  then show ?thesis by (simp add: thread_start_def claim_step_def)
next
  case (Some k)
  have "thread_run S t PDelete s =
      thread_run S t PPut (delete_idempotency S k s)"
    using Some by (subst thread_run.simps(2)) (auto simp: thread_key_def split: prod.splits)
  with Some show ?thesis
    by (simp add: thread_start_def, subst thread_run.simps(2))
       (auto simp: claim_step_def thread_key_def thread_run_put split: option.splits prod.splits sum.splits)
qed

lemma thread_run_enforce:
  "thread_run S t (thread_start t) s = enforce S (th_env t) (th_cb t) (th_rq t) s"
  by (auto simp: thread_run_start enforce_def thread_run_reval thread_run_journal Let_def
      split: prod.splits sum.splits)

section \<open>Interleaved threads\<close>

record ('t, 's) system =
  pcs :: "'t \<Rightarrow> pc"
  shared :: 's
  log :: "('t \<times> event) list"

definition system_start :: "('t \<Rightarrow> thread) \<Rightarrow> 's \<Rightarrow> ('t, 's) system" where
  "system_start T s0 = \<lparr>pcs = (\<lambda>i. thread_start (T i)), shared = s0, log = []\<rparr>"

inductive gstep ::
  "'s EnforcementStore \<Rightarrow> ('t \<Rightarrow> thread) \<Rightarrow> ('t, 's) system \<Rightarrow> ('t, 's) system \<Rightarrow> bool"
  for S T where
  step_of: "thread_step S (T i) (pcs g i) (shared g) = (p', s', evs) \<Longrightarrow>
     gstep S T g \<lparr>pcs = (pcs g)(i := p'), shared = s', log = log g @ map (Pair i) evs\<rparr>"

inductive reachable ::
  "'s EnforcementStore \<Rightarrow> ('t \<Rightarrow> thread) \<Rightarrow> 's \<Rightarrow> ('t, 's) system \<Rightarrow> bool"
  for S T s0 where
  start: "reachable S T s0 (system_start T s0)"
| more: "reachable S T s0 g \<Longrightarrow> gstep S T g g' \<Longrightarrow> reachable S T s0 g'"

inductive_cases gstepE: "gstep S T g g'"

abbreviation key_of :: "thread \<Rightarrow> string option" where
  "key_of t \<equiv> idempotency_key (th_rq t)"

fun is_exec :: "event \<Rightarrow> bool" where
  "is_exec (EvExec c d) = True"
| "is_exec ev = False"

text \<open>The calls of the connector made by the threads that carry key \<open>k\<close>.\<close>

definition execs_under ::
  "('t \<Rightarrow> thread) \<Rightarrow> string \<Rightarrow> ('t \<times> event) list \<Rightarrow> ('t \<times> event) list" where
  "execs_under T k l = filter (\<lambda>(i, ev). key_of (T i) = Some k \<and> is_exec ev) l"

section \<open>Who holds a claim\<close>

text \<open>\<open>before k p\<close>: the thread holds the claim on \<open>k\<close> and may still call the connector or release the
  key. \<open>after k p\<close>: it holds the claim and can only settle it.\<close>

fun before :: "string \<Rightarrow> pc \<Rightarrow> bool" where
  "before k (PReval cl) = (cl = Some k)"
| "before k (PDraw cl eff) = (cl = Some k)"
| "before k (PAncestors cl ds eff) = (cl = Some k)"
| "before k (PJournal cl eff) = (cl = Some k)"
| "before k (PExec cl eff) = (cl = Some k)"
| "before k (PRelease cl e) = (cl = Some k)"
| "before k (PCommit cl eff res) = (cl = Some k \<and> \<not> executes eff)"
| "before k (PSettle cl eff res) = (cl = Some k \<and> \<not> executes eff)"
| "before k p = False"

fun after :: "string \<Rightarrow> pc \<Rightarrow> bool" where
  "after k (PSaga cl e) = (cl = Some k)"
| "after k (PFail cl e) = (cl = Some k)"
| "after k (PCommit cl eff res) = (cl = Some k \<and> executes eff)"
| "after k (PSettle cl eff res) = (cl = Some k \<and> executes eff)"
| "after k p = False"

text \<open>A thread only ever carries the claim on its own key, and only a keyed thread is at a claim step.\<close>

fun pc_ok :: "thread \<Rightarrow> pc \<Rightarrow> bool" where
  "pc_ok t PGet = (key_of t \<noteq> None)"
| "pc_ok t PDelete = (key_of t \<noteq> None)"
| "pc_ok t PPut = (key_of t \<noteq> None)"
| "pc_ok t PReget = (key_of t \<noteq> None)"
| "pc_ok t (PReval cl) = (cl = key_of t)"
| "pc_ok t (PDraw cl eff) = (cl = key_of t \<and> executes eff)"
| "pc_ok t (PAncestors cl ds eff) = (cl = key_of t \<and> executes eff)"
| "pc_ok t (PJournal cl eff) = (cl = key_of t)"
| "pc_ok t (PExec cl eff) = (cl = key_of t \<and> executes eff)"
| "pc_ok t (PSaga cl e) = (cl = key_of t)"
| "pc_ok t (PFail cl e) = (cl = key_of t)"
| "pc_ok t (PCommit cl eff res) = (cl = key_of t)"
| "pc_ok t (PSettle cl eff res) = (cl = key_of t)"
| "pc_ok t (PRelease cl e) = (cl = key_of t)"
| "pc_ok t (PDone out) = True"

lemma pc_ok_start: "pc_ok t (thread_start t)"
  by (simp add: thread_start_def split: option.split)

lemma after_draws_simps [simp]:
  "before k (after_draws cl ds eff) = (cl = Some k)"
  "after k (after_draws cl ds eff) = False"
  "pc_ok t (after_draws cl ds eff) = (cl = key_of t \<and> (ds \<noteq> [] \<longrightarrow> executes eff))"
  by (auto simp: after_draws_def)

lemma thread_step_pc_ok:
  assumes "thread_step S t p s = (p', s', evs)" and "pc_ok t p"
  shows "pc_ok t p'"
proof (cases p)
  case (PAncestors cl ds eff)
  with assms show ?thesis by (cases ds) (auto split: prod.splits if_splits)
qed (use assms in \<open>auto simp: Let_def thread_key_def split: prod.splits if_splits option.splits sum.splits\<close>)

lemma thread_step_execs:
  assumes "thread_step S t p s = (p', s', evs)" and "pc_ok t p"
  shows "filter is_exec evs = [] \<or>
     (length (filter is_exec evs) = 1 \<and> (\<exists>eff. p = PExec (key_of t) eff) \<and> (\<forall>k. \<not> before k p')
        \<and> s' = s)"
proof (cases p)
  case (PAncestors cl ds eff)
  with assms show ?thesis by (cases ds) (auto split: prod.splits if_splits)
qed (use assms in \<open>auto simp: Let_def split: prod.splits if_splits option.splits sum.splits\<close>)

section \<open>The claim invariant\<close>

text \<open>The JSON codecs of the threads keep the executing verbs executing.\<close>

definition codecs_agree :: "('t \<Rightarrow> thread) \<Rightarrow> bool" where
  "codecs_agree T \<longleftrightarrow>
     (\<forall>i j d. executes d \<longrightarrow>
        decision_to_json (th_env (T i)) d \<noteq> []
        \<and> executes (json_to_decision (th_env (T j)) (decision_to_json (th_env (T i)) d)))"

text \<open>No record that \<open>enforce\<close> would delete: whatever is stored as executed reads back as executing.\<close>

definition no_legacy :: "('t \<Rightarrow> thread) \<Rightarrow> IdempotencyRecord option \<Rightarrow> bool" where
  "no_legacy T st \<longleftrightarrow>
     (\<forall>r i. st = Some r \<longrightarrow> ir_status r = executed \<longrightarrow> executes (record_decision (th_env (T i)) r))"

definition claim_inv ::
  "'s EnforcementStore \<Rightarrow> ('t \<Rightarrow> thread) \<Rightarrow> string \<Rightarrow> ('t, 's) system \<Rightarrow> bool" where
  "claim_inv S T k g \<longleftrightarrow>
     (\<forall>i. pc_ok (T i) (pcs g i))
     \<and> (\<forall>i. key_of (T i) = Some k \<longrightarrow> pcs g i \<noteq> PDelete)
     \<and> (\<forall>i j. before k (pcs g i) \<or> after k (pcs g i) \<longrightarrow>
           before k (pcs g j) \<or> after k (pcs g j) \<longrightarrow> i = j)
     \<and> (\<forall>i. before k (pcs g i) \<or> after k (pcs g i) \<longrightarrow> get_idempotency S (shared g) k \<noteq> None)
     \<and> no_legacy T (get_idempotency S (shared g) k)
     \<and> (execs_under T k (log g) \<noteq> [] \<longrightarrow>
           get_idempotency S (shared g) k \<noteq> None \<and> (\<forall>i. \<not> before k (pcs g i)))
     \<and> length (execs_under T k (log g)) \<le> 1"

lemma execs_under_append [simp]:
  "execs_under T k (l @ map (Pair i) evs) =
     execs_under T k l @ (if key_of (T i) = Some k then map (Pair i) (filter is_exec evs) else [])"
  by (induction evs) (auto simp: execs_under_def)

lemma start_not_holding [simp]:
  "before k (thread_start t) = False" "after k (thread_start t) = False"
  "thread_start t \<noteq> PDelete"
  by (simp_all add: thread_start_def split: option.split)

lemma claim_inv_start:
  "no_legacy T (get_idempotency S s0 k) \<Longrightarrow> claim_inv S T k (system_start T s0)"
  by (simp add: claim_inv_def system_start_def pc_ok_start execs_under_def)

context enforcement_store
begin

lemma saga_frame: "saga S env rq e s = Inr s' \<Longrightarrow> get_idempotency S s' = get_idempotency S s"
  using ledger_frames by (metis saga_def)

lemma commit_frame: "commit_ledger S i x s = Inr s' \<Longrightarrow> get_idempotency S s' = get_idempotency S s"
  using ledger_frames by blast

lemma put_view:
  assumes "put_idempotency_if_absent S (claim_record env k) s = (b, s')"
  shows "b = (get_idempotency S s k = None)"
    and "get_idempotency S s' =
       (if b then (get_idempotency S s)(k \<mapsto> claim_record env k) else get_idempotency S s)"
  using put_claims [OF assms] by (simp_all add: claim_record_def)

lemma complete_view:
  "get_idempotency S (snd (complete_idempotency S k dj rj s)) k' =
     (if k' = k then
        (case get_idempotency S s k of
           Some r \<Rightarrow> if ir_status r = in_flight
             then Some (r\<lparr>decision_json := dj, result_json := rj, ir_status := executed\<rparr>) else Some r
         | None \<Rightarrow> None)
      else get_idempotency S s k')"
  using complete_cas [of k dj rj s] by (cases "complete_idempotency S k dj rj s") (auto split: option.splits)

lemma fail_view:
  "get_idempotency S (snd (fail_idempotency S k err s)) k' =
     (if k' = k then
        (case get_idempotency S s k of
           Some r \<Rightarrow> if ir_status r = in_flight
             then Some (r\<lparr>ir_status := failed, ir_error := Some err\<rparr>) else Some r
         | None \<Rightarrow> None)
      else get_idempotency S s k')"
  using fail_cas [of k err s] by (cases "fail_idempotency S k err s") (auto split: option.splits)

lemma settle_view:
  assumes "settle_step S env cl eff res s = Inr s'"
  shows "get_idempotency S s' k =
     (if cl = Some k then
        if executes eff then
          (case get_idempotency S s k of
             Some r \<Rightarrow> if ir_status r = in_flight
               then Some (r\<lparr>decision_json := decision_to_json env eff,
                 result_json := (case res of None \<Rightarrow> None | Some v \<Rightarrow> Some (projr (dump_result env v))),
                 ir_status := executed\<rparr>) else Some r
           | None \<Rightarrow> None)
        else None
      else get_idempotency S s k)"
  using assms
  by (auto simp: settle_step_def complete_view split: option.splits if_splits sum.splits)

text \<open>What one step does to the record of a key: nothing, claim it, release it, or settle it.\<close>

lemma thread_step_effect:
  assumes step: "thread_step S t p s = (p', s', evs)" and ok: "pc_ok t p"
    and nd: "key_of t = Some k \<Longrightarrow> p \<noteq> PDelete"
  shows "(get_idempotency S s' k = get_idempotency S s k
        \<and> (before k p' \<longrightarrow> before k p) \<and> (after k p' \<longrightarrow> before k p \<or> after k p))
    \<or> (get_idempotency S s k = None \<and> key_of t = Some k \<and> p' = PReval (Some k) \<and> p = PPut
        \<and> (\<exists>r. get_idempotency S s' k = Some r \<and> ir_status r = in_flight))
    \<or> (before k p \<and> \<not> before k p' \<and> \<not> after k p' \<and> get_idempotency S s' k = None)
    \<or> (after k p \<and> \<not> before k p' \<and> \<not> after k p'
        \<and> (\<exists>r. get_idempotency S s' k = Some r
             \<and> (ir_status r = failed
                \<or> (\<exists>eff. executes eff \<and> decision_json r = decision_to_json (th_env t) eff))))"
proof (cases p)
  case PPut
  then show ?thesis using step ok put_view [of "th_env t" "thread_key t" s]
    by (auto simp: thread_key_def claim_record_def split: prod.splits if_splits)
next
  case (PDraw cl eff)
  then show ?thesis using step ok
    by (auto simp: Let_def split: prod.splits if_splits dest!: increment_capped)
next
  case (PAncestors cl ds eff)
  then show ?thesis using step ok
    by (cases ds) (auto simp: Let_def split: prod.splits if_splits dest!: increment_capped)
next
  case (PSaga cl e)
  then show ?thesis using step ok by (auto split: sum.splits dest: saga_frame)
next
  case (PFail cl e)
  then show ?thesis using step ok
    by (auto simp: fail_claim_def fail_view split: option.splits if_splits)
next
  case (PCommit cl eff res)
  then show ?thesis using step ok by (auto split: sum.splits dest: commit_frame)
next
  case (PSettle cl eff res)
  then show ?thesis using step ok settle_view [of "th_env t" cl eff res s _ k]
    by (auto split: sum.splits option.splits if_splits)
qed (use step ok nd in \<open>auto simp: Let_def thread_key_def release_claim_def
      split: prod.splits if_splits option.splits sum.splits\<close>)

lemma thread_step_not_delete:
  assumes "thread_step S (T i) p s = (PDelete, s', evs)" and "pc_ok (T i) p"
    and "no_legacy T (get_idempotency S s k)"
  shows "key_of (T i) \<noteq> Some k"
proof (cases p)
  case PGet
  with assms show ?thesis
    by (auto simp: thread_key_def settled_outcome_def no_legacy_def split: option.splits if_splits)
       (metis IdempotencyStatus.exhaust)+
next
  case (PAncestors cl ds eff)
  with assms show ?thesis
    by (cases ds) (auto simp: after_draws_def split: prod.splits if_splits)
qed (use assms in \<open>auto simp: Let_def after_draws_def
      split: prod.splits if_splits option.splits sum.splits\<close>)

lemma claim_inv_step:
  assumes inv: "claim_inv S T k g" and codecs: "codecs_agree T"
    and step: "thread_step S (T i) (pcs g i) (shared g) = (p', s', evs)"
  shows "claim_inv S T k \<lparr>pcs = (pcs g)(i := p'), shared = s', log = log g @ map (Pair i) evs\<rparr>"
proof -
  let ?p = "pcs g i"
  let ?G = "get_idempotency S (shared g) k"
  let ?G' = "get_idempotency S s' k"
  let ?X = "execs_under T k (log g)"
  let ?Y = "if key_of (T i) = Some k then map (Pair i) (filter is_exec evs) else []"
  from inv have ok: "\<And>j. pc_ok (T j) (pcs g j)"
    and nd: "\<And>j. key_of (T j) = Some k \<Longrightarrow> pcs g j \<noteq> PDelete"
    and uniq: "\<And>j j'. before k (pcs g j) \<or> after k (pcs g j) \<Longrightarrow>
        before k (pcs g j') \<or> after k (pcs g j') \<Longrightarrow> j = j'"
    and held: "\<And>j. before k (pcs g j) \<or> after k (pcs g j) \<Longrightarrow> ?G \<noteq> None"
    and nl: "no_legacy T ?G"
    and lg: "?X \<noteq> [] \<Longrightarrow> ?G \<noteq> None" "\<And>j. ?X \<noteq> [] \<Longrightarrow> \<not> before k (pcs g j)"
    and one: "length ?X \<le> 1"
    by (auto simp: claim_inv_def)
  have ok': "pc_ok (T i) p'" by (rule thread_step_pc_ok [OF step ok])
  have nd': "key_of (T i) = Some k \<Longrightarrow> p' \<noteq> PDelete"
    using thread_step_not_delete [OF _ ok nl, of i] step by blast
  have ex: "?Y = [] \<or> length ?Y = 1 \<and> before k ?p \<and> \<not> before k p' \<and> s' = shared g"
    using thread_step_execs [OF step ok] by auto
  note eff = thread_step_effect [OF step ok nd [of i], of k, simplified]
  have nl': "no_legacy T ?G'"
    using eff
  proof (elim disjE conjE exE)
    fix r eff' assume "?G' = Some r" "executes eff'" "decision_json r = decision_to_json (th_env (T i)) eff'"
    with codecs show ?thesis by (auto simp: no_legacy_def record_decision_def codecs_agree_def)
  qed (use nl in \<open>auto simp: no_legacy_def\<close>)
  have G': "before k p' \<or> after k p' \<Longrightarrow> ?G' \<noteq> None"
    using eff held [of i] by auto
  have other: "before k (pcs g j) \<or> after k (pcs g j) \<Longrightarrow> j \<noteq> i \<Longrightarrow>
      ?G' \<noteq> None \<and> \<not> (before k p' \<or> after k p')" for j
    using eff held [of j] uniq [of i j] by auto
  have xs: "?X \<noteq> [] \<Longrightarrow> ?G' \<noteq> None \<and> \<not> before k p'"
    using eff lg(1) lg(2) [of i] by auto
  have ys: "?X = [] \<and> ?G' \<noteq> None \<and> \<not> before k p' \<and> (\<forall>j. j \<noteq> i \<longrightarrow> \<not> before k (pcs g j))"
    if "?Y \<noteq> []"
  proof -
    from ex that have b: "before k ?p" "\<not> before k p'" "s' = shared g" by simp_all
    with lg(2) [of i] held [of i] uniq [of i] show ?thesis by auto
  qed
  have len: "length (?X @ ?Y) \<le> 1"
    using one ex ys by (cases "?Y = []") simp_all
  have hold: "before k (((pcs g)(i := p')) j) \<or> after k (((pcs g)(i := p')) j) \<Longrightarrow> ?G' \<noteq> None" for j
    using G' other [of j] by (cases "j = i") simp_all
  have un: "j = j'" if "before k (((pcs g)(i := p')) j) \<or> after k (((pcs g)(i := p')) j)"
    "before k (((pcs g)(i := p')) j') \<or> after k (((pcs g)(i := p')) j')" for j j'
  proof (cases "j = i \<or> j' = i")
    case True
    with that other [of j] other [of j'] show ?thesis by (metis fun_upd_other fun_upd_same)
  next
    case False
    with that show ?thesis by (intro uniq [of j j']) simp_all
  qed
  have ent: "?G' \<noteq> None \<and> (\<forall>j. \<not> before k (((pcs g)(i := p')) j))" if "?X @ ?Y \<noteq> []"
  proof (cases "?Y = []")
    case True
    with that have "?X \<noteq> []" by simp
    with xs lg(2) show ?thesis by simp
  next
    case False
    with ys show ?thesis by simp
  qed
  show ?thesis
    unfolding claim_inv_def system.simps execs_under_append
  proof (intro conjI allI impI)
    show "pc_ok (T j) (((pcs g)(i := p')) j)" for j
      using ok [of j] ok' by simp
    show "((pcs g)(i := p')) j \<noteq> PDelete" if "key_of (T j) = Some k" for j
      using that nd [of j] nd' by (cases "j = i") simp_all
  qed (use un hold nl' ent len in blast)+
qed

lemma reachable_claim_inv:
  assumes "reachable S T s0 g" and "codecs_agree T" and "no_legacy T (get_idempotency S s0 k)"
  shows "claim_inv S T k g"
  using assms(1)
proof (induction rule: reachable.induct)
  case start
  show ?case by (rule claim_inv_start [OF assms(3)])
next
  case (more g g')
  from more.hyps(2) show ?case
    by (rule gstepE) (use claim_inv_step [OF more.IH assms(2)] in blast)
qed

end

section \<open>Budgets under interleaving\<close>

text \<open>The amount drawn from counter \<open>q\<close> according to the log.\<close>

fun drawn :: "string \<Rightarrow> ('t \<times> event) list \<Rightarrow> rat" where
  "drawn q [] = 0"
| "drawn q ((i, EvDraw q' d) # l) = (if q' = q then d else 0) + drawn q l"
| "drawn q (_ # l) = drawn q l"

text \<open>Every draw any thread may make on \<open>q\<close> is capped at \<open>cap\<close>.\<close>

definition capped_at :: "('t \<Rightarrow> thread) \<Rightarrow> string \<Rightarrow> rat \<Rightarrow> bool" where
  "capped_at T q cap \<longleftrightarrow>
     (\<forall>i. (counter_key (th_rq (T i)) = q \<longrightarrow> counter_cap (th_rq (T i)) \<le> cap)
        \<and> (\<forall>d \<in> set (ancestor_draws (th_rq (T i))). draw_key d = q \<longrightarrow> draw_cap d \<le> cap))"

fun pending_draws :: "pc \<Rightarrow> CounterDraw list" where
  "pending_draws (PAncestors cl ds eff) = ds"
| "pending_draws p = []"

text \<open>A thread at this point has already charged its own budget.\<close>

fun charged :: "pc \<Rightarrow> bool" where
  "charged (PAncestors cl ds eff) = True"
| "charged (PJournal cl eff) = executes eff"
| "charged (PExec cl eff) = True"
| "charged p = False"

definition own_draw :: "thread \<Rightarrow> event" where
  "own_draw t = EvDraw (counter_key (th_rq t)) (counter_delta (th_rq t))"

definition budget_inv ::
  "'s EnforcementStore \<Rightarrow> ('t \<Rightarrow> thread) \<Rightarrow> string \<Rightarrow> rat \<Rightarrow> 's \<Rightarrow> ('t, 's) system \<Rightarrow> bool" where
  "budget_inv S T q cap s0 g \<longleftrightarrow>
     (\<forall>i. pc_ok (T i) (pcs g i))
     \<and> (\<forall>i. set (pending_draws (pcs g i)) \<subseteq> set (ancestor_draws (th_rq (T i))))
     \<and> read_counter S (shared g) q = read_counter S s0 q + drawn q (log g)
     \<and> read_counter S (shared g) q \<le> max (read_counter S s0 q) cap"

definition charge_inv :: "('t \<Rightarrow> thread) \<Rightarrow> ('t, 's) system \<Rightarrow> bool" where
  "charge_inv T g \<longleftrightarrow>
     (\<forall>i. pc_ok (T i) (pcs g i))
     \<and> (\<forall>i. charged (pcs g i) \<or> (\<exists>ev. (i, ev) \<in> set (log g) \<and> is_exec ev) \<longrightarrow>
           (i, own_draw (T i)) \<in> set (log g))"

lemma drawn_append [simp]: "drawn q (l @ l') = drawn q l + drawn q l'"
  by (induction q l rule: drawn.induct) auto

lemma after_draws_budget [simp]:
  "pending_draws (after_draws cl ds eff) = ds"
  "charged (after_draws cl ds eff) \<longleftrightarrow> ds \<noteq> [] \<or> executes eff"
  by (auto simp: after_draws_def)

lemma start_budget [simp]: "pending_draws (thread_start t) = []" "charged (thread_start t) = False"
  by (simp_all add: thread_start_def split: option.split)

lemma thread_step_charge:
  assumes "thread_step S t p s = (p', s', evs)" and "pc_ok t p"
  shows "(charged p' \<longrightarrow> charged p \<or> own_draw t \<in> set evs)
    \<and> (\<forall>ev \<in> set evs. is_exec ev \<longrightarrow> charged p)"
proof (cases p)
  case (PAncestors cl ds eff)
  with assms show ?thesis by (cases ds) (auto split: prod.splits if_splits)
qed (use assms in \<open>auto simp: Let_def own_draw_def
      split: prod.splits if_splits option.splits sum.splits\<close>)

lemma reachable_charge_inv: "reachable S T s0 g \<Longrightarrow> charge_inv T g"
proof (induction rule: reachable.induct)
  case start
  show ?case by (simp add: charge_inv_def system_start_def pc_ok_start)
next
  case (more g g')
  from more.hyps(2) show ?case
  proof (rule gstepE)
    fix i p' s' evs
    assume g': "g' = \<lparr>pcs = (pcs g)(i := p'), shared = s', log = log g @ map (Pair i) evs\<rparr>"
      and step: "thread_step S (T i) (pcs g i) (shared g) = (p', s', evs)"
    from more.IH have ok: "\<And>j. pc_ok (T j) (pcs g j)" by (simp add: charge_inv_def)
    show ?thesis
      using more.IH thread_step_pc_ok [OF step ok] thread_step_charge [OF step ok]
      by (auto simp: charge_inv_def g')
  qed
qed

context enforcement_store
begin

lemma saga_counter: "saga S env rq e s = Inr s' \<Longrightarrow> read_counter S s' = read_counter S s"
  using ledger_frames by (metis saga_def)

lemma commit_counter: "commit_ledger S i x s = Inr s' \<Longrightarrow> read_counter S s' = read_counter S s"
  using ledger_frames by blast

lemma claim_ops_counter:
  "read_counter S (snd (put_idempotency_if_absent S r s)) = read_counter S s"
  "read_counter S (snd (complete_idempotency S k dj rj s)) = read_counter S s"
  "read_counter S (snd (fail_idempotency S k err s)) = read_counter S s"
  using put_claims [of r s] complete_cas [of k dj rj s] fail_cas [of k err s]
  by (metis prod.collapse)+

lemma settle_counter: "settle_step S env cl eff res s = Inr s' \<Longrightarrow> read_counter S s' = read_counter S s"
  by (auto simp: settle_step_def claim_ops_counter split: option.splits if_splits sum.splits)

lemma draw_effect:
  assumes "try_increment_counter S q' d c s = (b, s')" and "q' = q \<Longrightarrow> c \<le> cap"
  shows "read_counter S s' q = read_counter S s q + (if b \<and> q' = q then d else 0)"
    and "read_counter S s q \<le> m \<Longrightarrow> cap \<le> m \<Longrightarrow> read_counter S s' q \<le> m"
  using increment_capped [OF assms(1)] assms(2) by auto

text \<open>One step changes a counter exactly by the draw it logs, and never past the cap.\<close>

lemma thread_step_budget:
  assumes step: "thread_step S t p s = (p', s', evs)" and ok: "pc_ok t p"
    and pend: "set (pending_draws p) \<subseteq> set (ancestor_draws (th_rq t))"
    and own: "counter_key (th_rq t) = q \<Longrightarrow> counter_cap (th_rq t) \<le> cap"
    and anc: "\<And>d. d \<in> set (ancestor_draws (th_rq t)) \<Longrightarrow> draw_key d = q \<Longrightarrow> draw_cap d \<le> cap"
  shows "set (pending_draws p') \<subseteq> set (ancestor_draws (th_rq t))
    \<and> read_counter S s' q = read_counter S s q + drawn q (map (Pair i) evs)
    \<and> (read_counter S s q \<le> m \<longrightarrow> cap \<le> m \<longrightarrow> read_counter S s' q \<le> m)"
proof (cases p)
  case (PAncestors cl ds eff)
  show ?thesis
  proof (cases ds)
    case Nil
    with PAncestors step show ?thesis by auto
  next
    case (Cons d ds')
    obtain b s2 where inc: "try_increment_counter S (draw_key d) (draw_delta d) (draw_cap d) s = (b, s2)"
      by fastforce
    have "draw_key d = q \<Longrightarrow> draw_cap d \<le> cap" using anc pend PAncestors Cons by auto
    from draw_effect [OF inc this] inc PAncestors Cons step pend ok show ?thesis
      by (auto split: if_splits)
  qed
next
  case (PDraw cl eff)
  obtain b s2 where inc: "try_increment_counter S (counter_key (th_rq t)) (counter_delta (th_rq t))
      (counter_cap (th_rq t)) s = (b, s2)" by fastforce
  from draw_effect [OF inc own, of q] inc PDraw step ok show ?thesis
    by (auto simp: own_draw_def Let_def split: if_splits)
next
  case PPut
  with step show ?thesis using claim_ops_counter(1) [of "claim_record (th_env t) (thread_key t)" s]
    by (auto split: prod.splits if_splits)
next
  case (PSettle cl eff res)
  with step show ?thesis by (auto dest: settle_counter split: sum.splits)
qed (use step ok in \<open>auto simp: Let_def fail_claim_def release_claim_def claim_ops_counter
      dest: saga_counter commit_counter split: prod.splits if_splits option.splits sum.splits\<close>)

lemma budget_inv_step:
  assumes inv: "budget_inv S T q cap s0 g" and capped: "capped_at T q cap"
    and step: "thread_step S (T i) (pcs g i) (shared g) = (p', s', evs)"
  shows "budget_inv S T q cap s0 \<lparr>pcs = (pcs g)(i := p'), shared = s', log = log g @ map (Pair i) evs\<rparr>"
proof -
  from inv have ok: "\<And>j. pc_ok (T j) (pcs g j)"
    and pend: "\<And>j. set (pending_draws (pcs g j)) \<subseteq> set (ancestor_draws (th_rq (T j)))"
    and val: "read_counter S (shared g) q = read_counter S s0 q + drawn q (log g)"
    and le: "read_counter S (shared g) q \<le> max (read_counter S s0 q) cap"
    by (auto simp: budget_inv_def)
  have e: "set (pending_draws p') \<subseteq> set (ancestor_draws (th_rq (T i)))
    \<and> read_counter S s' q = read_counter S (shared g) q + drawn q (map (Pair i) evs)
    \<and> (read_counter S (shared g) q \<le> max (read_counter S s0 q) cap \<longrightarrow> cap \<le> max (read_counter S s0 q) cap \<longrightarrow>
        read_counter S s' q \<le> max (read_counter S s0 q) cap)"
    by (rule thread_step_budget [OF step ok pend]) (use capped in \<open>auto simp: capped_at_def\<close>)
  have ok': "pc_ok (T i) p'" by (rule thread_step_pc_ok [OF step ok])
  show ?thesis
    unfolding budget_inv_def system.simps drawn_append
  proof (intro conjI allI impI)
    show "pc_ok (T j) (((pcs g)(i := p')) j)" for j using ok [of j] ok' by simp
    show "set (pending_draws (((pcs g)(i := p')) j)) \<subseteq> set (ancestor_draws (th_rq (T j)))" for j
      using pend [of j] e by simp
    show "read_counter S s' q = read_counter S s0 q + (drawn q (log g) + drawn q (map (Pair i) evs))"
      using val e by simp
    show "read_counter S s' q \<le> max (read_counter S s0 q) cap" using le e by simp
  qed
qed

lemma reachable_budget_inv:
  assumes "reachable S T s0 g" and "capped_at T q cap"
  shows "budget_inv S T q cap s0 g"
  using assms(1)
proof (induction rule: reachable.induct)
  case start
  show ?case by (simp add: budget_inv_def system_start_def pc_ok_start)
next
  case (more g g')
  from more.hyps(2) show ?case
    by (rule gstepE) (use budget_inv_step [OF more.IH assms(2)] in blast)
qed

end

section \<open>Schedules\<close>

text \<open>A schedule names which thread moves next; running one stays within the reachable states.\<close>

definition sched_step ::
  "'s EnforcementStore \<Rightarrow> ('t \<Rightarrow> thread) \<Rightarrow> 't \<Rightarrow> ('t, 's) system \<Rightarrow> ('t, 's) system" where
  "sched_step S T i g =
     (case thread_step S (T i) (pcs g i) (shared g) of
        (p', s', evs) \<Rightarrow> \<lparr>pcs = (pcs g)(i := p'), shared = s', log = log g @ map (Pair i) evs\<rparr>)"

fun run_schedule ::
  "'s EnforcementStore \<Rightarrow> ('t \<Rightarrow> thread) \<Rightarrow> 't list \<Rightarrow> ('t, 's) system \<Rightarrow> ('t, 's) system" where
  "run_schedule S T [] g = g"
| "run_schedule S T (i # is) g = run_schedule S T is (sched_step S T i g)"

lemma reachable_schedule:
  "reachable S T s0 g \<Longrightarrow> reachable S T s0 (run_schedule S T is g)"
proof (induction "is" arbitrary: g)
  case (Cons i "is")
  have "gstep S T g (sched_step S T i g)"
    by (auto simp: sched_step_def intro: step_of split: prod.splits)
  with Cons show ?case by (simp add: reachable.more)
qed simp

lemma reachable_from_start: "reachable S T s0 (run_schedule S T is (system_start T s0))"
  by (intro reachable_schedule reachable.start)

text \<open>Two threads carrying the sample request, with distinct ledger identifiers and a decoder that
  tells a stored allow from a stored deny.\<close>

definition pair_threads :: "bool \<Rightarrow> thread" where
  "pair_threads b =
     \<lparr>th_env = (sample_env (if b then ''e2'' else ''e1''))
        \<lparr>json_to_decision := (\<lambda>t. if t = ''allow'' then Allow else Deny ''capacity budget breached'')\<rparr>,
      th_cb = sample_cb on_loop (Inr (Some (JStr ''ok''))), th_rq = sample_rq\<rparr>"

definition legacy_store :: InMemoryStore where
  "legacy_store = mem_init\<lparr>idempotency :=
     [(''k1'', \<lparr>ir_key = ''k1'', decision_json = ''deny'', ir_ts = ''t'', result_json = None,
               ir_status = executed, ir_error = None\<rparr>)]\<rparr>"

lemmas schedule_defs =
  sched_step_def system_start_def thread_start_def pair_threads_def thread_key_def after_draws_def
  result_for_def settled_outcome_def record_decision_def execs_under_def sample_run_defs

lemma pair_codecs: "codecs_agree pair_threads"
  by (simp add: codecs_agree_def pair_threads_def sample_env_def)

section \<open>Properties\<close>

text \<open>C6: running one call alone through the machine of atomic steps, from its start to its end, is the
  same as \<open>enforce\<close>: same outcome, same store, same events in the same order.\<close>

theorem machine_refines_enforce:
  "thread_run S t (thread_start t) s = enforce S (th_env t) (th_cb t) (th_rq t) s"
  by (rule thread_run_enforce)

text \<open>C7: at most one execution per idempotency key. However many calls carry one key, and however their
  atomic steps interleave on a shared store, the connector is called at most once for that key,
  provided the store does not start with a record under it that reads back as a non-executed
  outcome.\<close>

theorem at_most_one_execution_per_key:
  assumes "reachable mem_ops T s0 g" and "codecs_agree T"
    and "no_legacy T (get_idempotency mem_ops s0 k)"
  shows "length (execs_under T k (log g)) \<le> 1"
  using mem.reachable_claim_inv [OF assms] by (simp add: claim_inv_def)

theorem at_most_one_execution_per_key_witness:
  "length (execs_under pair_threads ''k1''
     (log (run_schedule mem_ops pair_threads [False, True, False, True, True, False, False, False]
        (system_start pair_threads mem_init)))) \<le> 1"
  by (rule at_most_one_execution_per_key [OF reachable_from_start pair_codecs])
     (simp add: no_legacy_def store_simps mem_init_def)

text \<open>C8: the hypothesis of the previous theorem is needed. From a store that holds a record of a
  non-executed outcome under the key, two concurrent calls can both call the connector: both read the
  record and decide to delete it, one deletes it and claims the key, and the unconditional delete of
  the other removes that claim.\<close>

theorem legacy_record_race:
  "\<exists>g. reachable mem_ops pair_threads legacy_store g
     \<and> length (execs_under pair_threads ''k1'' (log g)) = 2"
proof (intro exI conjI)
  let ?g = "run_schedule mem_ops pair_threads
    [False, True, False, False, True, True, False, False, False, False, False,
     True, True, True, True, True] (system_start pair_threads legacy_store)"
  show "reachable mem_ops pair_threads legacy_store ?g"
    by (rule reachable_from_start)
  show "length (execs_under pair_threads ''k1'' (log ?g)) = 2"
    by (simp add: schedule_defs legacy_store_def)
qed

text \<open>Capped budgets hold under every interleaving. If every draw on a counter is capped at
  \<open>cap\<close>, then in every reachable state the counter equals its start value plus the draws that
  were logged, and it is at most \<open>cap\<close> (or the start value, where that was larger).\<close>

lemma capped_counter_concurrent:
  assumes "reachable mem_ops T s0 g" and "capped_at T q cap"
  shows "read_counter mem_ops (shared g) q = read_counter mem_ops s0 q + drawn q (log g)
    \<and> read_counter mem_ops (shared g) q \<le> max (read_counter mem_ops s0 q) cap"
  using mem.reachable_budget_inv [OF assms] by (simp add: budget_inv_def)

lemma capped_counter_concurrent_witness:
  "let g = run_schedule mem_ops pair_threads (replicate 9 False) (system_start pair_threads mem_init)
   in read_counter mem_ops (shared g) ''tree'' = 0 + drawn ''tree'' (log g)
      \<and> read_counter mem_ops (shared g) ''tree'' \<le> 9"
  using capped_counter_concurrent [OF reachable_from_start [of mem_ops pair_threads mem_init
      "replicate 9 False"], of "''tree''" 9]
  by (simp add: capped_at_def pair_threads_def sample_rq_def Let_def mem_init_def store_simps)

text \<open>No uncharged execution under concurrency. In every reachable state, a thread that has called
  the connector has drawn its own budget.\<close>

lemma execution_is_charged_concurrent:
  assumes "reachable mem_ops T s0 g" and "(i, ev) \<in> set (log g)" and "is_exec ev"
  shows "(i, EvDraw (counter_key (th_rq (T i))) (counter_delta (th_rq (T i)))) \<in> set (log g)"
  using reachable_charge_inv [OF assms(1)] assms(2,3)
  by (auto simp: charge_inv_def own_draw_def)

lemma execution_is_charged_concurrent_witness:
  "(False, EvDraw ''own'' 1) \<in> set (log (run_schedule mem_ops pair_threads (replicate 7 False)
      (system_start pair_threads mem_init)))"
proof -
  have "(False, EvExec (sample_call sample_note False) Allow) \<in> set (log (run_schedule mem_ops pair_threads
      (replicate 7 False) (system_start pair_threads mem_init)))"
    by (simp add: numeral_eq_Suc schedule_defs)
  from execution_is_charged_concurrent [OF reachable_from_start this] show ?thesis
    by (simp add: pair_threads_def sample_rq_def)
qed

end
