(* ===== verification/Calendar.thy ===== *)
theory Calendar
  imports Prelude
begin

text \<open>
  The part of Python's \<open>datetime\<close> module the broker relies on: the representable range, arithmetic
  that overflows out of it, the proleptic Gregorian calendar (\<open>_ymd2ord\<close>, \<open>_ord2ymd\<close> of the standard
  library) and the two formats \<open>%Y%m%d\<close> and \<open>%Y%m%dT%H\<close> in both directions. The lemmas show that
  rendering is injective on days (hours) and that parsing inverts it.

  Years are rendered with four digits, as the library documents \<open>%Y\<close> (\<open>0001\<close> to \<open>9999\<close>). The last section
  shows that the fixed-width UTC rendering sorts chronologically.
\<close>

section \<open>The representable range\<close>

definition SECOND :: timedelta where "SECOND = 1000000"
definition HOUR :: timedelta where "HOUR = 3600 * 1000000"
definition DAY :: timedelta where "DAY = 86400 * 1000000"

text \<open>Midnight of 1 January of the year 1 and the last microsecond of the year 9999, in UTC.\<close>

definition DATETIME_MIN :: instant where "DATETIME_MIN = - 62135596800 * 1000000"
definition DATETIME_MAX :: instant where "DATETIME_MAX = 253402300800 * 1000000 - 1"

abbreviation OverflowError :: "string \<Rightarrow> exn" where
  "OverflowError m \<equiv> Exn ''OverflowError'' m"

text \<open>\<open>datetime + timedelta\<close>\<close>

definition dt_add :: "instant \<Rightarrow> timedelta \<Rightarrow> exn + instant" where
  "dt_add t d =
     (if DATETIME_MIN \<le> t + d \<and> t + d \<le> DATETIME_MAX then Inr (t + d)
      else Inl (OverflowError ''date value out of range''))"

section \<open>The Gregorian calendar\<close>

definition is_leap :: "int \<Rightarrow> bool" where
  "is_leap y \<longleftrightarrow> y mod 4 = 0 \<and> (y mod 100 \<noteq> 0 \<or> y mod 400 = 0)"

text \<open>Days before 1 January of year \<open>y\<close>.\<close>

definition days_before_year :: "int \<Rightarrow> int" where
  "days_before_year y = (let p = y - 1 in p * 365 + p div 4 - p div 100 + p div 400)"

definition month_lengths :: "bool \<Rightarrow> int list" where
  "month_lengths leap = [31, if leap then 29 else 28, 31, 30, 31, 30, 31, 31, 30, 31, 30, 31]"

definition days_in_month :: "int \<Rightarrow> int \<Rightarrow> int" where
  "days_in_month y m = month_lengths (is_leap y) ! nat (m - 1)"

definition ymd2ord :: "int \<times> int \<times> int \<Rightarrow> int" where
  "ymd2ord = (\<lambda>(y, m, d).
     days_before_year y + sum_list (take (nat (m - 1)) (month_lengths (is_leap y))) + d)"

text \<open>The month and day a zero-based day of the year falls in.\<close>

fun split_month :: "int list \<Rightarrow> int \<Rightarrow> int \<times> int" where
  "split_month [] n = (0, n + 1)"
| "split_month (l # ls) n =
     (if n < l then (0, n + 1) else (case split_month ls (n - l) of (m, d) \<Rightarrow> (m + 1, d)))"

text \<open>The zero-based year and day of the year of a zero-based day, by cycles of 400, 100 and 4 years.\<close>

definition split_year :: "int \<Rightarrow> int \<times> int" where
  "split_year n0 =
     (let n400 = n0 div 146097; n1' = n0 mod 146097;
          n100 = n1' div 36524; n2 = n1' mod 36524;
          n4 = n2 div 1461; n3 = n2 mod 1461;
          n1 = n3 div 365; n = n3 mod 365;
          year = n400 * 400 + n100 * 100 + n4 * 4 + n1
      in if n1 = 4 \<or> n100 = 4 then (year - 1, 365) else (year, n))"

definition ord2ymd :: "int \<Rightarrow> int \<times> int \<times> int" where
  "ord2ymd n0 =
     (case split_year (n0 - 1) of (y0, n) \<Rightarrow>
        (case split_month (month_lengths (is_leap (y0 + 1))) n of (m, d) \<Rightarrow> (y0 + 1, m + 1, d)))"

definition EPOCH_ORDINAL :: int where "EPOCH_ORDINAL = 719163"

definition date_of :: "instant \<Rightarrow> int \<times> int \<times> int" where
  "date_of t = ord2ymd (t div DAY + EPOCH_ORDINAL)"

definition hour_of :: "instant \<Rightarrow> int" where
  "hour_of t = (t mod DAY) div HOUR"

section \<open>Rendering and parsing\<close>

definition digit_char :: "int \<Rightarrow> char" where
  "digit_char n = (char_of (48 + nat (n mod 10)) :: char)"

definition char_digit :: "char \<Rightarrow> int" where
  "char_digit c = int (of_char c) - 48"

text \<open>Rounding half to even, as \<open>round\<close>, \<open>fromtimestamp\<close> and float formatting do.\<close>

definition round_half_even :: "rat \<Rightarrow> int" where
  "round_half_even x =
     (let f = \<lfloor>x\<rfloor>; r = x - of_int f in
      if r < 1 / 2 then f else if r > 1 / 2 then f + 1 else if even f then f else f + 1)"

fun pad_digits :: "nat \<Rightarrow> int \<Rightarrow> string" where
  "pad_digits 0 n = []"
| "pad_digits (Suc k) n = pad_digits k (n div 10) @ [digit_char n]"

definition undigits :: "string \<Rightarrow> int" where
  "undigits s = foldl (\<lambda>a c. a * 10 + char_digit c) 0 s"

definition ascii_digits :: "string \<Rightarrow> bool" where
  "ascii_digits s \<longleftrightarrow> list_all (\<lambda>c. CHR ''0'' \<le> c \<and> c \<le> CHR ''9'') s"

definition strftime_day :: "instant \<Rightarrow> string" where
  "strftime_day t = (case date_of t of (y, m, d) \<Rightarrow> pad_digits 4 y @ pad_digits 2 m @ pad_digits 2 d)"

definition strftime_hour :: "instant \<Rightarrow> string" where
  "strftime_hour t = strftime_day t @ ''T'' @ pad_digits 2 (hour_of t)"

text \<open>The time of day, and the two fixed layouts built from it: \<open>isoformat()\<close> of a UTC datetime, which drops
  a zero fraction, and the sortable \<open>%Y-%m-%dT%H:%M:%S.%fZ\<close>.\<close>

definition MINUTE :: timedelta where "MINUTE = 60 * 1000000"

definition hms_str :: "instant \<Rightarrow> string" where
  "hms_str t =
     pad_digits 2 (hour_of t) @ '':'' @ pad_digits 2 (t mod HOUR div MINUTE) @ '':''
     @ pad_digits 2 (t mod MINUTE div SECOND)"

definition ymd_str :: "instant \<Rightarrow> string" where
  "ymd_str t = (case date_of t of (y, m, d) \<Rightarrow>
     pad_digits 4 y @ ''-'' @ pad_digits 2 m @ ''-'' @ pad_digits 2 d)"

definition isoformat_utc :: "instant \<Rightarrow> string" where
  "isoformat_utc t =
     ymd_str t @ ''T'' @ hms_str t
     @ (if t mod SECOND = 0 then [] else ''.'' @ pad_digits 6 (t mod SECOND)) @ ''+00:00''"

definition strftime_micros :: "instant \<Rightarrow> string" where
  "strftime_micros t = ymd_str t @ ''T'' @ hms_str t @ ''.'' @ pad_digits 6 (t mod SECOND) @ ''Z''"

text \<open>\<open>datetime(y, m, d, h)\<close>: every field is range-checked.\<close>

definition mk_datetime :: "int \<Rightarrow> int \<Rightarrow> int \<Rightarrow> int \<Rightarrow> exn + instant" where
  "mk_datetime y m d h =
     (if 1 \<le> y \<and> y \<le> 9999 \<and> 1 \<le> m \<and> m \<le> 12 \<and> 1 \<le> d \<and> d \<le> days_in_month y m \<and> 0 \<le> h \<and> h \<le> 23
      then Inr ((ymd2ord (y, m, d) - EPOCH_ORDINAL) * DAY + h * HOUR)
      else Inl (ValueError ''day is out of range for month''))"

text \<open>\<open>strptime\<close> on the two bucket lengths: the format's fields then take exactly their two (four)
  digits, since a shorter match leaves unconverted data, which is an error too.\<close>

definition strptime_day :: "string \<Rightarrow> exn + instant" where
  "strptime_day s =
     (if length s = 8 \<and> ascii_digits s
      then mk_datetime (undigits (take 4 s)) (undigits (take 2 (drop 4 s))) (undigits (drop 6 s)) 0
      else Inl (ValueError ''time data does not match format''))"

definition strptime_hour :: "string \<Rightarrow> exn + instant" where
  "strptime_hour s =
     (if length s = 11 \<and> s ! 8 = CHR ''T'' \<and> ascii_digits (take 8 s @ drop 9 s)
      then mk_datetime (undigits (take 4 s)) (undigits (take 2 (drop 4 s)))
             (undigits (take 2 (drop 6 s))) (undigits (drop 9 s))
      else Inl (ValueError ''time data does not match format''))"

section \<open>The calendar is a bijection\<close>

lemma days_before_cycles:
  assumes "0 \<le> b" "b \<le> 3" "0 \<le> c" "c \<le> 24" "0 \<le> e" "e \<le> 3"
  shows "days_before_year (a * 400 + b * 100 + c * 4 + e + 1)
       = a * 146097 + b * 36524 + c * 1461 + e * 365"
proof -
  define p where "p = a * 400 + b * 100 + c * 4 + e"
  have "p div 4 = a * 100 + b * 25 + c" "p div 100 = a * 4 + b" "p div 400 = a"
    using assms by (simp_all add: p_def)
  then show ?thesis by (simp add: days_before_year_def Let_def p_def)
qed

lemma leap_cycles:
  assumes "0 \<le> b" "b \<le> 3" "0 \<le> c" "c \<le> 24" "0 \<le> e" "e \<le> 3"
  shows "is_leap (a * 400 + b * 100 + c * 4 + e + 1) \<longleftrightarrow> e = 3 \<and> (c \<noteq> 24 \<or> b = 3)"
proof -
  define y where "y = a * 400 + b * 100 + c * 4 + e + 1"
  have y4: "y = (e + 1) + 4 * (a * 100 + b * 25 + c)"
    and y100: "y = (c * 4 + e + 1) + 100 * (a * 4 + b)"
    and y400: "y = (b * 100 + c * 4 + e + 1) + 400 * a"
    by (simp_all add: y_def)
  have small: "x mod z = (if x = z then 0 else x)" if "0 < x" "x \<le> z" for x z :: int
    using that by auto
  have "y mod 4 = 0 \<longleftrightarrow> e = 3"
    unfolding y4 mod_mult_self2 using small [of "e + 1" 4] assms by simp
  moreover have "y mod 100 = 0 \<longleftrightarrow> c * 4 + e + 1 = 100"
    unfolding y100 mod_mult_self2 using small [of "c * 4 + e + 1" 100] assms by simp
  moreover have "y mod 400 = 0 \<longleftrightarrow> b * 100 + c * 4 + e + 1 = 400"
    unfolding y400 mod_mult_self2 using small [of "b * 100 + c * 4 + e + 1" 400] assms by simp
  moreover have "c * 4 + e + 1 = 100 \<longleftrightarrow> e = 3 \<and> c = 24" 
    "b * 100 + c * 4 + e + 1 = 400 \<longleftrightarrow> e = 3 \<and> c = 24 \<and> b = 3"
    using assms by presburger+
  ultimately have "y mod 4 = 0 \<longleftrightarrow> e = 3" "y mod 100 = 0 \<longleftrightarrow> e = 3 \<and> c = 24"
    "y mod 400 = 0 \<longleftrightarrow> e = 3 \<and> c = 24 \<and> b = 3"
    by auto
  then show ?thesis unfolding y_def [symmetric] is_leap_def by auto
qed

text \<open>\<open>split_year\<close> inverts \<open>days_before_year\<close>, and leaves a day of that year.\<close>

lemma split_year_correct:
  assumes "split_year n = (y0, k)"
  shows "days_before_year (y0 + 1) + k = n \<and> 0 \<le> k \<and> k < (if is_leap (y0 + 1) then 366 else 365)"
proof -
  define a where "a = n div 146097"
  define r1 where "r1 = n mod 146097"
  define b where "b = r1 div 36524"
  define r2 where "r2 = r1 mod 36524"
  define c where "c = r2 div 1461"
  define r3 where "r3 = r2 mod 1461"
  define e where "e = r3 div 365"
  define r4 where "r4 = r3 mod 365"
  have r1: "0 \<le> r1" "r1 < 146097" and r2: "0 \<le> r2" "r2 < 36524" and r3: "0 \<le> r3" "r3 < 1461"
    and r4: "0 \<le> r4" "r4 < 365"
    unfolding r1_def r2_def r3_def r4_def by simp_all
  have b: "0 \<le> b" "b \<le> 4" and c: "0 \<le> c" "c \<le> 24" and e: "0 \<le> e" "e \<le> 4"
    unfolding b_def c_def e_def using r1 r2 r3 by linarith+
  have eq0: "n = a * 146097 + r1" and eq1: "r1 = b * 36524 + r2" and eq2: "r2 = c * 1461 + r3"
    and eq3: "r3 = e * 365 + r4"
    unfolding a_def b_def c_def e_def r1_def r2_def r3_def r4_def by (simp_all only: div_mult_mod_eq)
  then have n: "n = a * 146097 + b * 36524 + c * 1461 + e * 365 + r4" by simp
  have split: "split_year n = (if e = 4 \<or> b = 4 then (a * 400 + b * 100 + c * 4 + e - 1, 365)
      else (a * 400 + b * 100 + c * 4 + e, r4))"
    unfolding split_year_def Let_def a_def b_def c_def e_def r1_def r2_def r3_def r4_def by simp
  consider (cent) "b = 4" | (last) "b \<noteq> 4" "e = 4" | (plain) "b \<noteq> 4" "e \<noteq> 4" by blast
  then show ?thesis
  proof cases
    case cent
    with eq1 eq2 eq3 r1 r2 r3 r4 c e have z: "c = 0" "e = 0" "r4 = 0" by linarith+
    with cent split assms have "y0 + 1 = a * 400 + 3 * 100 + 24 * 4 + 3 + 1" "k = 365" by simp_all
    with days_before_cycles [of 3 24 3 a] leap_cycles [of 3 24 3 a] n z cent show ?thesis by simp
  next
    case last
    with eq2 eq3 r3 r4 have z: "r4 = 0" by linarith
    from last eq1 eq2 eq3 r2 r4 have nc: "c \<noteq> 24" by auto
    from last split assms have "y0 + 1 = a * 400 + b * 100 + c * 4 + 3 + 1" "k = 365" by simp_all
    with days_before_cycles [of b c 3 a] leap_cycles [of b c 3 a] n z last b c nc show ?thesis
      by simp
  next
    case plain
    with split assms have "y0 + 1 = a * 400 + b * 100 + c * 4 + e + 1" "k = r4" by simp_all
    with days_before_cycles [of b c e a] n plain b c e r4 show ?thesis by simp
  qed
qed

lemma split_month_correct:
  assumes "split_month ls n = (m, d)" and "0 \<le> n" and "n < sum_list ls" and "\<forall>l \<in> set ls. 0 < l"
  shows "sum_list (take (nat m) ls) + d = n + 1 \<and> 0 \<le> m \<and> m < int (length ls)
    \<and> 1 \<le> d \<and> d \<le> ls ! nat m"
  using assms
proof (induction ls n arbitrary: m d rule: split_month.induct)
  case (1 n)
  then show ?case by simp
next
  case (2 l ls n)
  show ?case
  proof (cases "n < l")
    case True
    with 2 show ?thesis by auto
  next
    case False
    obtain m' d' where s: "split_month ls (n - l) = (m', d')" by fastforce
    with False 2(2) have md: "m = m' + 1" "d = d'" by auto
    from 2(1) [OF False s] False 2(3,4,5)
    have ih: "sum_list (take (nat m') ls) + d' = n - l + 1" "0 \<le> m'" "m' < int (length ls)"
      "1 \<le> d'" "d' \<le> ls ! nat m'" by auto
    then have "nat m = Suc (nat m')" using md by simp
    with ih md show ?thesis by simp
  qed
qed

lemma month_lengths_facts:
  "length (month_lengths l) = 12" "\<forall>x \<in> set (month_lengths l). 0 < x"
  "sum_list (month_lengths l) = (if l then 366 else 365)"
  by (simp_all add: month_lengths_def)

text \<open>Decoding an ordinal gives a valid date that encodes back to it.\<close>

lemma ord2ymd_correct:
  assumes "ord2ymd n = (y, m, d)"
  shows "ymd2ord (y, m, d) = n \<and> 1 \<le> m \<and> m \<le> 12 \<and> 1 \<le> d \<and> d \<le> days_in_month y m"
proof -
  obtain y0 k where yk: "split_year (n - 1) = (y0, k)" by fastforce
  obtain m0 d0 where md: "split_month (month_lengths (is_leap (y0 + 1))) k = (m0, d0)" by fastforce
  from assms yk md have eq: "y = y0 + 1" "m = m0 + 1" "d = d0" by (auto simp: ord2ymd_def)
  have "0 \<le> k" "k < sum_list (month_lengths (is_leap (y0 + 1)))"
    using split_year_correct [OF yk] by (simp_all add: month_lengths_facts)
  from split_month_correct [OF md this month_lengths_facts(2)] split_year_correct [OF yk] eq
  show ?thesis by (simp add: ymd2ord_def days_in_month_def month_lengths_facts algebra_simps)
qed

lemma ord2ymd_inject: "ord2ymd a = ord2ymd b \<longleftrightarrow> a = b"
  by (metis ord2ymd_correct prod_cases3)

lemma date_of_eq_iff: "date_of t = date_of u \<longleftrightarrow> t div DAY = u div DAY"
  by (simp add: date_of_def ord2ymd_inject)

section \<open>Rendering is injective\<close>

lemma char_digit_digit_char [simp]: "char_digit (digit_char n) = n mod 10"
proof -
  have "nat (n mod 10) < 10" by simp
  then show ?thesis by (simp add: char_digit_def digit_char_def)
qed

lemma length_pad_digits [simp]: "length (pad_digits k n) = k"
  by (induction k arbitrary: n) auto

lemma undigits_snoc [simp]: "undigits (s @ [c]) = undigits s * 10 + char_digit c"
  by (simp add: undigits_def)

lemma undigits_pad_digits: "0 \<le> n \<Longrightarrow> undigits (pad_digits k n) = n mod 10 ^ k"
proof (induction k arbitrary: n)
  case 0
  then show ?case by (simp add: undigits_def)
next
  case (Suc k)
  then have "undigits (pad_digits (Suc k) n) = n div 10 mod 10 ^ k * 10 + n mod 10"
    by simp
  also have "\<dots> = n mod (10 * 10 ^ k)"
    using zmod_zmult2_eq [of "10 ^ k" n 10] by simp
  finally show ?case by simp
qed

lemma undigits_pad_small [simp]: "0 \<le> n \<Longrightarrow> n < 10 ^ k \<Longrightarrow> undigits (pad_digits k n) = n"
  by (simp add: undigits_pad_digits)

lemma char_of_digit_bounds [simp]: "CHR ''0'' \<le> digit_char n" "digit_char n \<le> CHR ''9''"
proof -
  have "nat (n mod 10) < 10" by simp
  then have "(of_char (digit_char n) :: nat) = 48 + nat (n mod 10)" by (simp add: digit_char_def)
  then show "CHR ''0'' \<le> digit_char n" "digit_char n \<le> CHR ''9''"
    using \<open>nat (n mod 10) < 10\<close> by (simp_all add: less_eq_char_def)
qed

lemma ascii_digits_append [simp]: "ascii_digits (a @ b) \<longleftrightarrow> ascii_digits a \<and> ascii_digits b"
  by (simp add: ascii_digits_def)

lemma ascii_digits_pad [simp]: "ascii_digits (pad_digits k n)"
  by (induction k arbitrary: n) (simp_all add: ascii_digits_def)

lemma ascii_digits_isdigit: "ascii_digits s \<Longrightarrow> s \<noteq> [] \<Longrightarrow> py_isdigit s"
  by (auto simp: ascii_digits_def py_isdigit_def list_all_iff char_isdigit_def less_eq_char_def)

lemma days_before_year_step: "days_before_year y + 364 \<le> days_before_year (y + 1)"
proof -
  have "(y - 1) div 4 \<le> (y - 1 + 1) div 4" "(y - 1) div 400 \<le> (y - 1 + 1) div 400"
    by (simp_all add: zdiv_mono1)
  moreover have "(y - 1 + 1) div 100 \<le> (y - 1) div 100 + 1"
    by linarith
  ultimately show ?thesis by (simp add: days_before_year_def Let_def)
qed

lemma days_before_year_mono: "y \<le> z \<Longrightarrow> days_before_year y \<le> days_before_year z"
proof (induction z rule: int_ge_induct)
  case base
  then show ?case by simp
next
  case (step z)
  then show ?case using days_before_year_step [of z] by linarith
qed

text \<open>A representable instant falls in the years 1 to 9999; its fields are in range.\<close>

lemma date_of_range:
  assumes "date_of t = (y, m, d)" and "DATETIME_MIN \<le> t" and "t \<le> DATETIME_MAX"
  shows "1 \<le> y \<and> y \<le> 9999 \<and> 1 \<le> m \<and> m \<le> 12 \<and> 1 \<le> d \<and> d \<le> 31 \<and> d \<le> days_in_month y m"
proof -
  define n where "n = t div DAY + EPOCH_ORDINAL"
  have n: "1 \<le> n" "n \<le> 3652059"
    using assms(2,3) by (simp_all add: n_def DATETIME_MIN_def DATETIME_MAX_def DAY_def EPOCH_ORDINAL_def)
  obtain y0 k where yk: "split_year (n - 1) = (y0, k)" by fastforce
  have o: "ord2ymd n = (y, m, d)" using assms(1) by (simp add: date_of_def n_def)
  with yk have y: "y = y0 + 1" by (auto simp: ord2ymd_def split: prod.splits)
  from split_year_correct [OF yk] y
  have k: "days_before_year y + k = n - 1" "0 \<le> k" "k < 366" by (auto split: if_splits)
  have "1 \<le> y"
  proof (rule ccontr)
    assume "\<not> 1 \<le> y"
    then have "days_before_year y \<le> days_before_year 0" by (intro days_before_year_mono) simp
    with k n show False by (simp add: days_before_year_def)
  qed
  moreover have "y \<le> 9999"
  proof (rule ccontr)
    assume "\<not> y \<le> 9999"
    then have "days_before_year 10000 \<le> days_before_year y" by (intro days_before_year_mono) simp
    with k n show False by (simp add: days_before_year_def)
  qed
  moreover have md: "1 \<le> m" "m \<le> 12" "1 \<le> d" "d \<le> days_in_month y m"
    using ord2ymd_correct [OF o] by auto
  moreover have "days_in_month y m \<le> 31"
  proof -
    have "nat (m - 1) < length (month_lengths (is_leap y))" using md by (simp add: month_lengths_facts)
    then have "days_in_month y m \<in> set (month_lengths (is_leap y))"
      unfolding days_in_month_def by (rule nth_mem)
    then show ?thesis by (auto simp: month_lengths_def split: if_splits)
  qed
  ultimately show ?thesis by simp
qed

lemma DAY_hours: "DAY = HOUR * 24" and HOUR_pos: "0 < HOUR" and DAY_pos: "0 < DAY"
  by (simp_all add: DAY_def HOUR_def)

lemma day_div_hours: "t div DAY = t div HOUR div 24"
  unfolding DAY_hours by (rule zdiv_zmult2_eq) simp

lemma hour_of_eq: "hour_of t = t div HOUR mod 24"
proof -
  have "t mod DAY = HOUR * (t div HOUR mod 24) + t mod HOUR"
    unfolding DAY_hours by (rule zmod_zmult2_eq) simp
  then show ?thesis using HOUR_pos by (simp add: hour_of_def)
qed

lemma hour_of_range: "0 \<le> hour_of t \<and> hour_of t \<le> 23"
proof -
  have "0 \<le> t div HOUR mod 24" "t div HOUR mod 24 < 24" by simp_all
  then show ?thesis unfolding hour_of_eq by linarith
qed

abbreviation representable :: "instant \<Rightarrow> bool" where
  "representable t \<equiv> DATETIME_MIN \<le> t \<and> t \<le> DATETIME_MAX"

lemma strftime_day_eq:
  assumes "date_of t = (y, m, d)"
  shows "strftime_day t = pad_digits 4 y @ pad_digits 2 m @ pad_digits 2 d"
  by (simp add: strftime_day_def assms)

lemma length_strftime [simp]: "length (strftime_day t) = 8" "length (strftime_hour t) = 11"
  by (cases "date_of t"; simp add: strftime_day_eq strftime_hour_def)+

lemma strftime_hour_T [simp]: "strftime_hour t ! 8 = CHR ''T''"
  by (simp add: strftime_hour_def nth_append)

lemma strftime_digits [simp]:
  "ascii_digits (strftime_day t)" "take 8 (strftime_hour t) = strftime_day t"
  "drop 9 (strftime_hour t) = pad_digits 2 (hour_of t)"
  by (cases "date_of t"; simp add: strftime_day_eq strftime_hour_def)+

text \<open>Parsing a rendered instant gives the start of its day (hour).\<close>

lemma strptime_strftime_day:
  assumes "representable t"
  shows "strptime_day (strftime_day t) = Inr (t div DAY * DAY)"
proof -
  obtain y m d where dt: "date_of t = (y, m, d)" by (cases "date_of t") blast
  with date_of_range [OF dt] assms have r: "1 \<le> y" "y \<le> 9999" "1 \<le> m" "m \<le> 12" "1 \<le> d" "d \<le> 31"
    "d \<le> days_in_month y m" by auto
  have "ymd2ord (y, m, d) = t div DAY + EPOCH_ORDINAL"
    using ord2ymd_correct dt by (simp add: date_of_def)
  moreover have "strptime_day (strftime_day t) = mk_datetime y m d 0"
    using r by (simp add: strptime_day_def strftime_day_eq [OF dt])
  ultimately show ?thesis using r by (simp add: mk_datetime_def)
qed

lemma strptime_strftime_hour:
  assumes "representable t"
  shows "strptime_hour (strftime_hour t) = Inr (t div HOUR * HOUR)"
proof -
  obtain y m d where dt: "date_of t = (y, m, d)" by (cases "date_of t") blast
  with date_of_range [OF dt] assms have r: "1 \<le> y" "y \<le> 9999" "1 \<le> m" "m \<le> 12" "1 \<le> d" "d \<le> 31"
    "d \<le> days_in_month y m" by auto
  have o: "ymd2ord (y, m, d) = t div DAY + EPOCH_ORDINAL"
    using ord2ymd_correct dt by (simp add: date_of_def)
  have "strptime_hour (strftime_hour t) = mk_datetime y m d (hour_of t)"
    using r hour_of_range [of t]
    by (simp add: strptime_hour_def strftime_hour_def strftime_day_eq [OF dt] nth_append)
  also have "\<dots> = Inr (t div DAY * DAY + hour_of t * HOUR)"
    using r hour_of_range [of t] o by (simp add: mk_datetime_def)
  also have "t div DAY * DAY + hour_of t * HOUR = t div HOUR * HOUR"
  proof -
    define q where "q = t div HOUR"
    have "q div 24 * (HOUR * 24) + q mod 24 * HOUR = (q div 24 * 24 + q mod 24) * HOUR"
      by (simp only: distrib_right mult.assoc mult.commute [of HOUR 24])
    then show ?thesis
      unfolding hour_of_eq day_div_hours q_def [symmetric] by (simp only: DAY_hours div_mult_mod_eq)
  qed
  finally show ?thesis .
qed

lemma strftime_day_inject:
  assumes "representable t" "representable u"
  shows "strftime_day t = strftime_day u \<longleftrightarrow> t div DAY = u div DAY"
proof
  assume "strftime_day t = strftime_day u"
  then show "t div DAY = u div DAY"
    using strptime_strftime_day [OF assms(1)] strptime_strftime_day [OF assms(2)] DAY_pos by simp
next
  assume "t div DAY = u div DAY"
  then show "strftime_day t = strftime_day u" by (simp add: strftime_day_def date_of_def)
qed

lemma strftime_hour_inject:
  assumes "representable t" "representable u"
  shows "strftime_hour t = strftime_hour u \<longleftrightarrow> t div HOUR = u div HOUR"
proof
  assume "strftime_hour t = strftime_hour u"
  then show "t div HOUR = u div HOUR"
    using strptime_strftime_hour [OF assms(1)] strptime_strftime_hour [OF assms(2)]
    by (auto simp: HOUR_def)
next
  assume "t div HOUR = u div HOUR"
  then show "strftime_hour t = strftime_hour u"
    by (simp add: strftime_hour_def strftime_day_def date_of_def day_div_hours hour_of_eq)
qed

section \<open>Fixed-width renderings sort chronologically\<close>

lemma append_less_left: "a @ x < a @ y \<longleftrightarrow> x < (y :: 'a :: linorder list)"
  by (induction a) auto

lemma append_less_right:
  "length a = length b \<Longrightarrow> a < b \<Longrightarrow> a @ x < b @ (y :: 'a :: linorder list)"
  by (induction a b rule: list_induct2) auto

lemma digit_char_less: "0 \<le> n \<Longrightarrow> n < m \<Longrightarrow> m < 10 \<Longrightarrow> digit_char n < digit_char m"
  by (simp add: digit_char_def less_char_def)

lemma split_less:
  assumes "a < (b :: int)" and "0 < c"
  shows "a div c < b div c \<or> a div c = b div c \<and> a mod c < b mod c"
proof -
  have le: "a div c \<le> b div c" using assms by (simp add: zdiv_mono1)
  show ?thesis
  proof (cases "a div c = b div c")
    case True
    then have "b div c * c + a mod c < b div c * c + b mod c"
      using assms(1) div_mult_mod_eq [of a c] div_mult_mod_eq [of b c] by simp
    then show ?thesis using True by (simp only: add_less_cancel_left simp_thms)
  next
    case False
    with le show ?thesis by simp
  qed
qed

lemma pad_digits_less:
  "0 \<le> n \<Longrightarrow> n < m \<Longrightarrow> m < 10 ^ k \<Longrightarrow> pad_digits k n < pad_digits k m"
proof (induction k arbitrary: n m)
  case (Suc k)
  have m10: "m div 10 < 10 ^ k" using Suc.prems by (simp add: div_less_iff_less_mult)
  consider "n div 10 < m div 10" | "n div 10 = m div 10" "n mod 10 < m mod 10"
    using split_less [of n m 10] Suc.prems by auto
  then show ?case
  proof cases
    case 1
    then have "pad_digits k (n div 10) < pad_digits k (m div 10)"
      using Suc.IH [of "n div 10" "m div 10"] m10 Suc.prems by simp
    then show ?thesis by (simp add: append_less_right)
  next
    case 2
    then have "digit_char (n mod 10) < digit_char (m mod 10)" by (intro digit_char_less) simp_all
    with 2 show ?thesis by (simp add: append_less_left digit_char_def)
  qed
qed simp

lemma div_succ:
  assumes "0 < (c :: int)"
  shows "(p + 1) div c = p div c + (if (p + 1) mod c = 0 then 1 else 0)"
proof -
  define q r where "q = p div c" and "r = p mod c"
  have r: "0 \<le> r" "r < c" and p: "p = r + q * c" using assms by (simp_all add: q_def r_def)
  have "(p + 1) div c = (r + 1) div c + q" "(p + 1) mod c = (r + 1) mod c"
    using assms by (simp_all add: p add.assoc [symmetric] add.commute [of _ 1])
  moreover have "(r + 1) div c = (if (r + 1) mod c = 0 then 1 else 0)"
  proof (cases "r + 1 = c")
    case True
    with assms show ?thesis by simp
  next
    case False
    with r have "r + 1 < c" by simp
    with r show ?thesis by (simp add: div_pos_pos_trivial mod_pos_pos_trivial)
  qed
  ultimately show ?thesis by (simp add: q_def)
qed

lemma leap_indicator:
  "(C \<longrightarrow> B) \<Longrightarrow> (B \<longrightarrow> A) \<Longrightarrow>
     (if A then 1 else 0) - (if B then 1 else 0) + (if C then 1 else 0)
     = (if A \<and> (\<not> B \<or> C) then 1 else (0 :: int))"
  by (cases A; cases B; cases C) simp_all

lemma days_before_year_Suc:
  "days_before_year (y + 1) = days_before_year y + (if is_leap y then 366 else 365)"
proof -
  define e :: "int \<Rightarrow> int" where "e c = (if y mod c = 0 then 1 else 0)" for c
  have d: "y div c = (y - 1) div c + e c" if "0 < c" for c
    using div_succ [OF that, of "y - 1"] by (simp add: e_def)
  have "y mod 400 mod 100 = y mod 100" "y mod 100 mod 4 = y mod 4"
    by (rule mod_mod_cancel, simp)+
  then have m: "y mod 400 = 0 \<longrightarrow> y mod 100 = 0" "y mod 100 = 0 \<longrightarrow> y mod 4 = 0"
    by (metis mod_0)+
  have "days_before_year (y + 1) = days_before_year y + 365 + e 4 - e 100 + e 400"
    unfolding days_before_year_def Let_def add_diff_cancel_right' d [of 4, simplified]
      d [of 100, simplified] d [of 400, simplified]
    by (simp add: left_diff_distrib)
  moreover have "e 4 - e 100 + e 400 = (if is_leap y then 1 else 0)"
    unfolding is_leap_def e_def by (rule leap_indicator [OF m])
  ultimately show ?thesis by (simp split: if_splits)
qed

lemma take_sum_step:
  "\<forall>x \<in> set ls. 0 < x \<Longrightarrow> i < j \<Longrightarrow> j \<le> length ls \<Longrightarrow>
     sum_list (take i ls) + ls ! i \<le> sum_list (take j (ls :: int list))"
proof (induction ls arbitrary: i j)
  case (Cons l ls)
  then obtain j' where j: "j = Suc j'" by (cases j) auto
  show ?case
  proof (cases i)
    case 0
    have "0 \<le> sum_list (take j' ls)"
      by (rule sum_list_nonneg) (use Cons.prems(1) in \<open>auto dest!: in_set_takeD intro: less_imp_le\<close>)
    with 0 j show ?thesis by simp
  next
    case (Suc i')
    with Cons j show ?thesis by simp
  qed
qed simp

definition valid_date :: "int \<times> int \<times> int \<Rightarrow> bool" where
  "valid_date = (\<lambda>(y, m, d). 1 \<le> m \<and> m \<le> 12 \<and> 1 \<le> d \<and> d \<le> days_in_month y m)"

text \<open>An earlier date, field by field, has a smaller ordinal.\<close>

lemma ymd2ord_mono:
  assumes v: "valid_date (y, m, d)" "valid_date (y', m', d')"
    and less: "y < y' \<or> y = y' \<and> (m < m' \<or> m = m' \<and> d < d')"
  shows "ymd2ord (y, m, d) < ymd2ord (y', m', d')"
proof -
  let ?L = "\<lambda>y. month_lengths (is_leap y)"
  have upto: "sum_list (take (nat (a - 1)) (?L x)) + e \<le> sum_list (take n (?L x))"
    if "valid_date (x, a, e)" "nat a \<le> n" "n \<le> 12" for x a e n
  proof -
    have "nat (a - 1) < n" using that by (auto simp: valid_date_def)
    from take_sum_step [OF month_lengths_facts(2) this, of "is_leap x"] that show ?thesis
      by (simp add: valid_date_def days_in_month_def month_lengths_facts)
  qed
  consider "y < y'" | "y = y'" "m < m'" | "y = y'" "m = m'" "d < d'" using less by blast
  then show ?thesis
  proof cases
    case 1
    have "sum_list (take (nat (m - 1)) (?L y)) + d \<le> (if is_leap y then 366 else 365)"
    proof -
      have "nat m \<le> 12" using v(1) by (simp add: valid_date_def nat_le_iff)
      from upto [OF v(1) this] show ?thesis by (simp add: month_lengths_facts)
    qed
    then have "ymd2ord (y, m, d) \<le> days_before_year (y + 1)"
      by (simp add: ymd2ord_def days_before_year_Suc)
    also have "\<dots> \<le> days_before_year y'" using 1 by (intro days_before_year_mono) simp
    also have "\<dots> < ymd2ord (y', m', d')"
    proof -
      have "0 \<le> sum_list (take (nat (m' - 1)) (?L y'))"
        by (rule sum_list_nonneg) (auto dest!: in_set_takeD simp: month_lengths_def split: if_splits)
      with v(2) show ?thesis by (simp add: ymd2ord_def valid_date_def)
    qed
    finally show ?thesis .
  next
    case 2
    then have "nat m \<le> nat (m' - 1)" "nat (m' - 1) \<le> 12" using v by (auto simp: valid_date_def)
    from upto [OF v(1) this] v(2) 2(1) show ?thesis by (simp add: ymd2ord_def valid_date_def)
  next
    case 3
    then show ?thesis by (simp add: ymd2ord_def)
  qed
qed

lemma date_of_valid: "valid_date (date_of t)"
  using ord2ymd_correct [of "t div DAY + EPOCH_ORDINAL"]
  by (cases "date_of t") (simp add: date_of_def valid_date_def)

lemma date_of_less:
  assumes "t div DAY < u div DAY" and dt: "date_of t = (y, m, d)" and du: "date_of u = (y', m', d')"
  shows "y < y' \<or> y = y' \<and> (m < m' \<or> m = m' \<and> d < d')"
proof (rule ccontr)
  assume no: "\<not> ?thesis"
  have o: "ymd2ord (y, m, d) = t div DAY + EPOCH_ORDINAL" "ymd2ord (y', m', d') = u div DAY + EPOCH_ORDINAL"
    using ord2ymd_correct dt du by (simp_all add: date_of_def)
  have v: "valid_date (y, m, d)" "valid_date (y', m', d')"
    using date_of_valid [of t] date_of_valid [of u] dt du by simp_all
  from no have "(y', m', d') = (y, m, d) \<or> y' < y \<or> y' = y \<and> (m' < m \<or> m' = m \<and> d' < d)" by auto
  with ymd2ord_mono [OF v(2,1)] o assms(1) show False by auto
qed

lemma ymd_str_less:
  assumes "representable t" "representable u" and "t div DAY < u div DAY"
  shows "ymd_str t @ x < ymd_str u @ y"
proof -
  obtain a b c where t: "date_of t = (a, b, c)" by (cases "date_of t") blast
  obtain a' b' c' where u: "date_of u = (a', b', c')" by (cases "date_of u") blast
  have rt: "1 \<le> a" "a < 10 ^ 4" "1 \<le> b" "b < 10 ^ 2" "1 \<le> c" "c < 10 ^ 2"
    using date_of_range [OF t] assms(1) by auto
  have ru: "1 \<le> a'" "a' < 10 ^ 4" "1 \<le> b'" "b' < 10 ^ 2" "1 \<le> c'" "c' < 10 ^ 2"
    using date_of_range [OF u] assms(2) by auto
  have "pad_digits 4 a @ ''-'' @ pad_digits 2 b @ ''-'' @ pad_digits 2 c
      < pad_digits 4 a' @ ''-'' @ pad_digits 2 b' @ ''-'' @ pad_digits 2 c'"
  proof -
    consider "a < a'" | "a = a'" "b < b'" | "a = a'" "b = b'" "c < c'"
      using date_of_less [OF assms(3) t u] by blast
    then show ?thesis
    proof cases
      case 1
      with rt ru show ?thesis by (intro append_less_right pad_digits_less) simp_all
    next
      case 2
      with rt ru have "pad_digits 2 b @ ''-'' @ pad_digits 2 c < pad_digits 2 b' @ ''-'' @ pad_digits 2 c'"
        by (intro append_less_right pad_digits_less) simp_all
      with 2 show ?thesis by (simp add: append_less_left)
    next
      case 3
      with rt ru have "pad_digits 2 c < pad_digits 2 c'" by (intro pad_digits_less) simp_all
      with 3 show ?thesis by (simp add: append_less_left)
    qed
  qed
  then have "ymd_str t < ymd_str u" by (simp add: ymd_str_def t u)
  moreover have "length (ymd_str t) = length (ymd_str u)" by (simp add: ymd_str_def t u)
  ultimately show ?thesis by (simp add: append_less_right)
qed

text \<open>The time of day, as a chain of quotients and remainders.\<close>

lemma mod_split_less:
  assumes "t mod (c * k) < u mod (c * k)" and "0 < c" "0 < k"
  shows "t mod (c * k) div c < u mod (c * k) div c
    \<or> t mod (c * k) div c = u mod (c * k) div c \<and> t mod c < u mod (c :: int)"
  using split_less [OF assms(1,2)] by (simp add: mod_mod_cancel)

lemma time_units: "DAY = HOUR * 24" "HOUR = MINUTE * 60" "MINUTE = SECOND * 60"
  "0 < HOUR" "0 < MINUTE" "0 < SECOND"
  by (simp_all add: DAY_def HOUR_def MINUTE_def SECOND_def)

lemma time_field_bounds:
  "0 \<le> hour_of t" "hour_of t < 10 ^ 2"
  "0 \<le> t mod HOUR div MINUTE" "t mod HOUR div MINUTE < 10 ^ 2"
  "0 \<le> t mod MINUTE div SECOND" "t mod MINUTE div SECOND < 10 ^ 2"
  "0 \<le> t mod SECOND" "t mod SECOND < 10 ^ 6"
  using hour_of_range [of t]
  by (simp_all add: HOUR_def MINUTE_def SECOND_def div_less_iff_less_mult pos_imp_zdiv_nonneg_iff
      less_trans [OF pos_mod_bound])

lemma time_less:
  assumes "t mod DAY < u mod DAY"
  shows "hms_str t @ ''.'' @ pad_digits 6 (t mod SECOND) @ ''Z''
       < hms_str u @ ''.'' @ pad_digits 6 (u mod SECOND) @ ''Z''"
proof -
  note b = time_field_bounds
  consider "hour_of t < hour_of u"
    | "hour_of t = hour_of u" "t mod HOUR div MINUTE < u mod HOUR div MINUTE"
    | "hour_of t = hour_of u" "t mod HOUR div MINUTE = u mod HOUR div MINUTE"
      "t mod MINUTE div SECOND < u mod MINUTE div SECOND"
    | "hour_of t = hour_of u" "t mod HOUR div MINUTE = u mod HOUR div MINUTE"
      "t mod MINUTE div SECOND = u mod MINUTE div SECOND" "t mod SECOND < u mod SECOND"
    using mod_split_less [of t HOUR 24 u] mod_split_less [of t MINUTE 60 u]
      mod_split_less [of t SECOND 60 u] assms
    by (auto simp: hour_of_def time_units(1)) (auto simp: time_units)
  then show ?thesis
  proof cases
    case 1
    then show ?thesis unfolding hms_str_def append_assoc
      by (intro append_less_right pad_digits_less b) simp_all
  next
    case 2
    have "pad_digits 2 (t mod HOUR div MINUTE) < pad_digits 2 (u mod HOUR div MINUTE)"
      by (intro pad_digits_less b 2)
    then show ?thesis using 2 by (simp add: hms_str_def append_less_left append_less_right)
  next
    case 3
    have "pad_digits 2 (t mod MINUTE div SECOND) < pad_digits 2 (u mod MINUTE div SECOND)"
      by (intro pad_digits_less b 3)
    then show ?thesis using 3 by (simp add: hms_str_def append_less_left append_less_right)
  next
    case 4
    have "pad_digits 6 (t mod SECOND) < pad_digits 6 (u mod SECOND)"
      by (intro pad_digits_less b 4)
    then show ?thesis using 4 by (simp add: hms_str_def append_less_left append_less_right)
  qed
qed

lemma length_strftime_micros [simp]: "length (strftime_micros t) = 27"
  by (cases "date_of t") (simp add: strftime_micros_def ymd_str_def hms_str_def)

lemma strftime_micros_less:
  assumes "representable t" "representable u" and "t < u"
  shows "strftime_micros t < strftime_micros u"
proof -
  consider "t div DAY < u div DAY" | "t div DAY = u div DAY" "t mod DAY < u mod DAY"
    using split_less [OF assms(3) DAY_pos] by blast
  then show ?thesis
  proof cases
    case 1
    then show ?thesis unfolding strftime_micros_def by (rule ymd_str_less [OF assms(1,2)])
  next
    case 2
    then have "ymd_str t = ymd_str u" by (simp add: ymd_str_def date_of_def)
    with time_less [OF 2(2)] show ?thesis by (simp add: strftime_micros_def append_less_left)
  qed
qed

text \<open>The rendering is an order embedding of the representable instants.\<close>

lemma strftime_micros_less_iff:
  assumes "representable t" "representable u"
  shows "strftime_micros t < strftime_micros u \<longleftrightarrow> t < u"
    and "strftime_micros t = strftime_micros u \<longleftrightarrow> t = u"
  using strftime_micros_less [OF assms] strftime_micros_less [OF assms(2,1)]
  by (metis less_irrefl less_not_sym linorder_neqE)+

end
