(* ===== verification/Counter_Keys.thy ===== *)
theory Counter_Keys
  imports Calendar Enforcement_Store
begin

text \<open>
  Budget-counter coordinates (\<open>broker/enforcement/store.py\<close>, module level): the counter periods, the
  period buckets, the principal-scoped key, the delegation-tree pool key, and the multi-period window
  read the grant ceremony takes its evidence from. The clock (\<open>datetime.now(UTC)\<close>) is the argument
  \<open>now\<close> of the definitions that read it.
\<close>

section \<open>Periods and buckets\<close>

definition UTC_DAY :: string where "UTC_DAY = ''utc-day''"
definition UTC_HOUR :: string where "UTC_HOUR = ''utc-hour''"

definition require_known_period :: "string \<Rightarrow> exn + unit" where
  "require_known_period p =
     guard_r (p \<in> set [UTC_DAY, UTC_HOUR]) (ValueError ''unknown counter period'')"

definition PERIOD_STEP :: "string \<Rightarrow> timedelta" where
  "PERIOD_STEP p = (if p = UTC_DAY then DAY else HOUR)"

definition period_format :: "string \<Rightarrow> instant \<Rightarrow> string" where
  "period_format p t = (if p = UTC_DAY then strftime_day t else strftime_hour t)"

definition period_parse :: "string \<Rightarrow> string \<Rightarrow> exn + instant" where
  "period_parse p s = (if p = UTC_DAY then strptime_day s else strptime_hour s)"

definition MAX_WINDOW_PERIODS :: "string \<Rightarrow> int" where
  "MAX_WINDOW_PERIODS p = (if p = UTC_DAY then 366 else 8784)"

definition period_step :: "string \<Rightarrow> exn + timedelta" where
  "period_step p = bind_r (require_known_period p) (\<lambda>_. Inr (PERIOD_STEP p))"

definition validate_bucket :: "string \<Rightarrow> string \<Rightarrow> exn + unit" where
  "validate_bucket b p =
     (if p = UTC_DAY then
        guard_r (length b = 8 \<and> py_isdigit b)
          (ValueError ''utc-day bucket must be a YYYYMMDD string'')
      else
        guard_r (length b = 11 \<and> b ! 8 = CHR ''T'' \<and> py_isdigit (take 8 b @ drop 9 b))
          (ValueError ''utc-hour bucket must be a YYYYMMDDTHH string''))"

definition period_bucket_of :: "instant \<Rightarrow> string \<Rightarrow> exn + string" where
  "period_bucket_of moment p = bind_r (require_known_period p) (\<lambda>_. Inr (period_format p moment))"

definition current_period_bucket :: "instant \<Rightarrow> string \<Rightarrow> exn + string" where
  "current_period_bucket now p = period_bucket_of now p"

section \<open>Keys\<close>

definition bucket_or_current :: "instant \<Rightarrow> string \<Rightarrow> string option \<Rightarrow> exn + string" where
  "bucket_or_current now p bucket =
     (case bucket of
        None \<Rightarrow> current_period_bucket now p
      | Some b \<Rightarrow> bind_r (validate_bucket b p) (\<lambda>_. Inr b))"

definition scoped_key_str :: "Principal \<Rightarrow> string \<Rightarrow> string \<Rightarrow> string \<Rightarrow> string \<Rightarrow> string" where
  "scoped_key_str prin tool op suffix b =
     principal_key prin @ '':'' @ tool @ ''.'' @ op @ '':'' @ b @ '':'' @ suffix"

definition scoped_counter_key ::
  "instant \<Rightarrow> Principal \<Rightarrow> string \<Rightarrow> string \<Rightarrow> string \<Rightarrow> string \<Rightarrow> string option \<Rightarrow> string option
     \<Rightarrow> exn + string" where
  "scoped_counter_key now prin tool op suffix period bucket day =
     bind_r (require_known_period period) (\<lambda>_.
     bind_r
       (case day of
          None \<Rightarrow> Inr bucket
        | Some d \<Rightarrow>
            if bucket \<noteq> None then Inl (ValueError ''pass bucket= or day=, not both'')
            else if period \<noteq> UTC_DAY then Inl (ValueError ''day= asserts a utc-day bucket'')
            else Inr (Some d)) (\<lambda>bucket'.
     bind_r (bucket_or_current now period bucket') (\<lambda>b.
       Inr (scoped_key_str prin tool op suffix b))))"

definition TREE_KEY_NAMESPACE :: string where "TREE_KEY_NAMESPACE = ''tree''"

definition tree_counter_key ::
  "instant \<Rightarrow> string \<Rightarrow> string \<Rightarrow> string \<Rightarrow> string \<Rightarrow> string \<Rightarrow> string option \<Rightarrow> exn + string" where
  "tree_counter_key now root_grant_id tool op suffix period bucket =
     bind_r (require_known_period period) (\<lambda>_.
     bind_r (guard_r (CHR '':'' \<notin> set root_grant_id)
       (ValueError ''root_grant_id must not contain ':' (it would shift the key's segments)'')) (\<lambda>_.
     bind_r (guard_r (root_grant_id \<noteq> []) (ValueError ''root_grant_id must be non-empty'')) (\<lambda>_.
     bind_r (bucket_or_current now period bucket) (\<lambda>b.
       Inr (TREE_KEY_NAMESPACE @ '':'' @ root_grant_id @ '':'' @ tool @ ''.'' @ op @ '':'' @ b @ '':'' @ suffix)))))"

section \<open>The window read\<close>

text \<open>The loop body, from offset \<open>i\<close> up to the window's width: \<open>anchor - offset * step\<close> is a datetime, so
  it overflows below the year 1.\<close>

fun window_loop ::
  "(string \<Rightarrow> exn + rat) \<Rightarrow> string \<Rightarrow> instant \<Rightarrow> timedelta \<Rightarrow> nat \<Rightarrow> nat \<Rightarrow> rat \<Rightarrow> exn + rat" where
  "window_loop read p anchor step i 0 acc = Inr acc"
| "window_loop read p anchor step i (Suc n) acc =
     bind_r (dt_add anchor (- (int i * step))) (\<lambda>t.
     bind_r (read (period_format p t)) (\<lambda>v.
       window_loop read p anchor step (Suc i) n (acc + v)))"

definition read_counter_window ::
  "'s EnforcementStore \<Rightarrow> 's \<Rightarrow> instant \<Rightarrow> Principal \<Rightarrow> string \<Rightarrow> string \<Rightarrow> string \<Rightarrow> int \<Rightarrow> string
     \<Rightarrow> string option \<Rightarrow> exn + rat" where
  "read_counter_window S s now prin tool op suffix window_periods period anchor_bucket =
     bind_r (require_known_period period) (\<lambda>_.
     bind_r (guard_r (1 \<le> window_periods \<and> window_periods \<le> MAX_WINDOW_PERIODS period)
       (ValueError ''window_periods out of range'')) (\<lambda>_.
     bind_r
       (case anchor_bucket of
          None \<Rightarrow> Inr now
        | Some b \<Rightarrow> bind_r (validate_bucket b period) (\<lambda>_. period_parse period b)) (\<lambda>anchor.
     window_loop
       (\<lambda>b. bind_r (scoped_counter_key now prin tool op suffix period (Some b) None)
              (\<lambda>k. Inr (read_counter S s k)))
       period anchor (PERIOD_STEP period) 0 (nat window_periods) 0)))"

section \<open>Buckets\<close>

lemmas period_defs = UTC_DAY_def UTC_HOUR_def

lemma require_known_period_Inr [simp]:
  "require_known_period p = Inr u \<longleftrightarrow> p = UTC_DAY \<or> p = UTC_HOUR"
  by (simp add: require_known_period_def)

lemma UTC_DAY_neq [simp]: "UTC_HOUR \<noteq> UTC_DAY" "UTC_DAY \<noteq> UTC_HOUR"
  by (simp_all add: period_defs)

lemma PERIOD_STEP_pos [simp]: "0 < PERIOD_STEP p"
  by (simp add: PERIOD_STEP_def DAY_pos HOUR_pos)

text \<open>A bucket names exactly one period: it depends on the period number alone, and on the
  representable range it determines it.\<close>

lemma period_format_cong:
  "t div PERIOD_STEP p = u div PERIOD_STEP p \<Longrightarrow> period_format p t = period_format p u"
  by (auto simp: period_format_def PERIOD_STEP_def strftime_hour_def strftime_day_def date_of_def
      day_div_hours hour_of_eq split: if_splits)

lemma period_format_inject:
  "representable t \<Longrightarrow> representable u \<Longrightarrow>
     period_format p t = period_format p u \<longleftrightarrow> t div PERIOD_STEP p = u div PERIOD_STEP p"
  by (simp add: period_format_def PERIOD_STEP_def strftime_day_inject strftime_hour_inject)

lemma validate_period_format [simp]: "validate_bucket (period_format p t) p = Inr ()"
proof -
  have "py_isdigit (strftime_day t)"
    by (rule ascii_digits_isdigit) (simp_all flip: length_greater_0_conv)
  moreover have "py_isdigit (strftime_day t @ pad_digits 2 (hour_of t))"
    by (rule ascii_digits_isdigit) (simp_all flip: length_greater_0_conv)
  ultimately show ?thesis by (simp add: validate_bucket_def period_format_def)
qed

lemma period_parse_format:
  "representable t \<Longrightarrow>
     period_parse p (period_format p t) = Inr (t div PERIOD_STEP p * PERIOD_STEP p)"
  by (simp add: period_parse_def period_format_def PERIOD_STEP_def strptime_strftime_day
      strptime_strftime_hour)

lemma isdigit_no_colon: "py_isdigit s \<Longrightarrow> CHR '':'' \<notin> set s"
  by (auto simp: py_isdigit_def list_all_iff char_isdigit_def)

lemma validate_bucket_no_colon:
  assumes "validate_bucket b p = Inr u"
  shows "CHR '':'' \<notin> set b"
proof (cases "p = UTC_DAY")
  case True
  with assms show ?thesis by (simp add: validate_bucket_def isdigit_no_colon)
next
  case False
  with assms have b: "length b = 11" "b ! 8 = CHR ''T''" "py_isdigit (take 8 b @ drop 9 b)"
    by (auto simp: validate_bucket_def)
  from b(1) have "b = take 8 b @ b ! 8 # drop 9 b" by (subst id_take_nth_drop [of 8]) simp_all
  then have "set b = insert (CHR ''T'') (set (take 8 b @ drop 9 b))"
    by (metis b(2) Un_insert_right list.simps(15) set_append)
  with isdigit_no_colon [OF b(3)] show ?thesis by simp
qed

lemma bucket_or_current_valid:
  assumes "bucket_or_current now p bucket = Inr b"
  shows "validate_bucket b p = Inr ()"
  using assms
  by (auto simp: bucket_or_current_def current_period_bucket_def period_bucket_of_def bind_r_Inr_iff
      split: option.splits)

text \<open>The two bucket formats are disjoint: no string is a bucket of both periods.\<close>

lemma bucket_formats_disjoint:
  "validate_bucket b p = Inr () \<Longrightarrow> validate_bucket b p' = Inr () \<Longrightarrow>
     p \<in> {UTC_DAY, UTC_HOUR} \<Longrightarrow> p' \<in> {UTC_DAY, UTC_HOUR} \<Longrightarrow> p = p'"
  by (auto simp: validate_bucket_def split: if_splits)

section \<open>Keys\<close>

lemma scoped_counter_key_InrD:
  assumes "scoped_counter_key now prin tool op suffix period bucket None = Inr k"
  obtains b where "bucket_or_current now period bucket = Inr b"
    and "k = scoped_key_str prin tool op suffix b" and "period \<in> {UTC_DAY, UTC_HOUR}"
  using assms by (auto simp: scoped_counter_key_def bind_r_Inr_iff)

lemma tree_counter_key_InrD:
  assumes "tree_counter_key now rid tool op suffix period bucket = Inr k"
  obtains b where "bucket_or_current now period bucket = Inr b"
    and "k = ''tree:'' @ rid @ '':'' @ tool @ ''.'' @ op @ '':'' @ b @ '':'' @ suffix"
    and "CHR '':'' \<notin> set rid" and "rid \<noteq> []"
  using assms by (auto simp: tree_counter_key_def bind_r_Inr_iff TREE_KEY_NAMESPACE_def)

definition plain_principal :: "Principal \<Rightarrow> bool" where
  "plain_principal p \<longleftrightarrow>
     {CHR ''#'', CHR '':''} \<inter> (set (agentId p) \<union> set (skill p) \<union> set (user p)) = {}"

lemma principal_key_no_colon: "plain_principal p \<Longrightarrow> CHR '':'' \<notin> set (principal_key p)"
  by (auto simp: plain_principal_def principal_key_def)

lemma principal_key_inject:
  assumes "plain_principal p" "plain_principal p'"
  shows "principal_key p = principal_key p' \<longleftrightarrow> p = p'"
proof -
  have "principal_key p = principal_key p' \<longleftrightarrow>
      agentId p = agentId p' \<and> skill p = skill p' \<and> user p = user p' \<and> tier p = tier p'"
    using assms by (auto simp: plain_principal_def principal_key_def append_sep_inject)
  then show ?thesis by (auto intro: Principal.equality)
qed

text \<open>The budget-counter key separates every coordinate it is scoped by. Two derivations that
  return the same key agree on the principal, the tool, the op, the suffix, the period and the period
  bucket, when the principal fields are free of \<open>#\<close> and \<open>:\<close>, tools of \<open>.\<close> and \<open>:\<close> and ops of \<open>:\<close>. In
  particular an hour-period key never meets a day-period key.\<close>

lemma scoped_counter_key_separates:
  assumes "scoped_counter_key now prin tool op suffix period bucket None = Inr k"
    and "scoped_counter_key now' prin' tool' op' suffix' period' bucket' None = Inr k"
    and "plain_principal prin" and "plain_principal prin'"
    and "{CHR ''.'', CHR '':''} \<inter> (set tool \<union> set tool') = {}"
    and "CHR '':'' \<notin> set op \<union> set op'"
  shows "prin = prin' \<and> tool = tool' \<and> op = op' \<and> suffix = suffix' \<and> period = period'
    \<and> bucket_or_current now period bucket = bucket_or_current now' period' bucket'"
proof -
  obtain b where b: "bucket_or_current now period bucket = Inr b"
    "k = scoped_key_str prin tool op suffix b" "period \<in> {UTC_DAY, UTC_HOUR}"
    by (rule scoped_counter_key_InrD [OF assms(1)])
  obtain b' where b': "bucket_or_current now' period' bucket' = Inr b'"
    "k = scoped_key_str prin' tool' op' suffix' b'" "period' \<in> {UTC_DAY, UTC_HOUR}"
    by (rule scoped_counter_key_InrD [OF assms(2)])
  note v = bucket_or_current_valid [OF b(1)] and v' = bucket_or_current_valid [OF b'(1)]
  have "scoped_key_str prin tool op suffix b = scoped_key_str prin' tool' op' suffix' b'"
    using b(2) b'(2) by simp
  then have "principal_key prin = principal_key prin' \<and> tool = tool' \<and> op = op' \<and> b = b'
      \<and> suffix = suffix'"
    using assms(5,6) principal_key_no_colon [OF assms(3)] principal_key_no_colon [OF assms(4)]
      validate_bucket_no_colon [OF v] validate_bucket_no_colon [OF v']
    by (auto simp: scoped_key_str_def append_sep_inject)
  with bucket_formats_disjoint [OF v _ b(3) b'(3)] v' principal_key_inject [OF assms(3,4)] b(1) b'(1)
  show ?thesis by simp
qed

lemma scoped_counter_key_separates_witness:
  "\<exists>k. scoped_counter_key 0 sample_principal ''email'' ''send'' ''counter'' UTC_DAY None None = Inr k
    \<and> bucket_or_current 0 UTC_DAY None = bucket_or_current 0 UTC_DAY (Some ''19700101'')"
proof -
  have k: "scoped_counter_key 0 sample_principal ''email'' ''send'' ''counter'' UTC_DAY None None
      = Inr (scoped_key_str sample_principal ''email'' ''send'' ''counter'' ''19700101'')"
    "scoped_counter_key 0 sample_principal ''email'' ''send'' ''counter'' UTC_DAY (Some ''19700101'') None
      = Inr (scoped_key_str sample_principal ''email'' ''send'' ''counter'' ''19700101'')"
    by code_simp+
  have "plain_principal sample_principal"
    by (simp add: plain_principal_def sample_defs)
  then show ?thesis
    using scoped_counter_key_separates [OF k] k by simp
qed

text \<open>A delegation-tree pool and a principal's own budget never share a counter, when the principal's
  fields are free of \<open>#\<close> and \<open>:\<close>.\<close>

lemma tree_key_apart_from_principal_keys:
  assumes "tree_counter_key now rid tool op suffix period bucket = Inr k"
    and "scoped_counter_key now' prin' tool' op' suffix' period' bucket' None = Inr k'"
    and "plain_principal prin'"
  shows "k \<noteq> k'"
proof
  assume eq: "k = k'"
  obtain b where k: "k = ''tree:'' @ rid @ '':'' @ tool @ ''.'' @ op @ '':'' @ b @ '':'' @ suffix"
    by (rule tree_counter_key_InrD [OF assms(1)])
  obtain b' where "k' = scoped_key_str prin' tool' op' suffix' b'"
    by (rule scoped_counter_key_InrD [OF assms(2)])
  with k eq have "''tree'' @ CHR '':'' # rid @ '':'' @ tool @ ''.'' @ op @ '':'' @ b @ '':'' @ suffix
      = principal_key prin' @ CHR '':'' # tool' @ ''.'' @ op' @ '':'' @ b' @ '':'' @ suffix'"
    by (simp add: scoped_key_str_def)
  then have "principal_key prin' = ''tree''"
    by (subst (asm) append_sep_inject) (auto simp: principal_key_no_colon [OF assms(3)])
  moreover have "CHR ''#'' \<in> set (principal_key prin')" by (simp add: principal_key_def)
  ultimately show False by simp
qed

lemma tree_key_apart_from_principal_keys_witness:
  "\<exists>k k'. tree_counter_key 0 ''GRANT#a#s#u#A#mail'' ''email'' ''send'' ''counter'' UTC_DAY None = Inr k
    \<and> scoped_counter_key 0 sample_principal ''email'' ''send'' ''counter'' UTC_DAY None None = Inr k'
    \<and> k \<noteq> k'"
proof -
  have "tree_counter_key 0 ''GRANT#a#s#u#A#mail'' ''email'' ''send'' ''counter'' UTC_DAY None
      = Inr ''tree:GRANT#a#s#u#A#mail:email.send:19700101:counter''"
    and "scoped_counter_key 0 sample_principal ''email'' ''send'' ''counter'' UTC_DAY None None
      = Inr ''mailer#triage#ann#B:email.send:19700101:counter''"
    by code_simp+
  moreover have "plain_principal sample_principal"
    by (simp add: plain_principal_def sample_defs)
  ultimately show ?thesis using tree_key_apart_from_principal_keys by blast
qed

text \<open>The separation needs that hypothesis: nothing in the code refuses a \<open>:\<close> in a principal's
  fields, and the pool of the grant a principal \<open>(a, s, u, A)\<close> holds for the action class \<open>B\<close> is then also
  the personal budget of another principal.\<close>

lemma tree_key_collision:
  "tree_counter_key now ''GRANT#a#s#u#A#B'' tool op suffix UTC_DAY (Some ''20260101'')
   = scoped_counter_key now \<lparr>agentId = ''tree:GRANT#a'', skill = ''s'', user = ''u#A'', tier = TierB\<rparr>
       tool op suffix UTC_DAY (Some ''20260101'') None"
  by (simp add: tree_counter_key_def scoped_counter_key_def bucket_or_current_def scoped_key_str_def
      principal_key_def tier_str_def TREE_KEY_NAMESPACE_def require_known_period_def
      validate_bucket_def py_isdigit_def char_isdigit_def)

section \<open>The window\<close>

lemma window_loop_sum:
  assumes "\<And>u. read (period_format p u) = Inr (f (period_format p u))"
    and "\<And>j. j \<in> {i..<i + n} \<Longrightarrow> representable (anchor - int j * step)"
  shows "window_loop read p anchor step i n acc
    = Inr (acc + (\<Sum>j = i..<i + n. f (period_format p (anchor - int j * step))))"
  using assms
proof (induction n arbitrary: i acc)
  case 0
  then show ?case by simp
next
  case (Suc n)
  let ?g = "\<lambda>j. f (period_format p (anchor - int j * step))"
  have "dt_add anchor (- (int i * step)) = Inr (anchor - int i * step)"
    using Suc.prems(2) [of i] by (simp add: dt_add_def)
  moreover have "read (period_format p (anchor - int i * step)) = Inr (?g i)"
    by (rule Suc.prems(1))
  moreover have "window_loop read p anchor step (Suc i) n (acc + ?g i)
      = Inr (acc + ?g i + (\<Sum>j = Suc i..<Suc i + n. ?g j))"
    by (rule Suc.IH) (use Suc.prems in auto)
  moreover have "(\<Sum>j = i..<i + Suc n. ?g j) = ?g i + (\<Sum>j = Suc i..<Suc i + n. ?g j)"
    by (subst sum.atLeast_Suc_lessThan) (simp_all only: add_Suc_right add_Suc less_add_Suc1)
  ultimately show ?case
    by (simp only: window_loop.simps bind_r_simps add.assoc)
qed

lemma window_buckets:
  assumes "0 < step" and "step = PERIOD_STEP p" and "anchor div step = t div step"
  shows "period_format p ` {u. t div step - int n < u div step \<and> u div step \<le> t div step}
       = (\<lambda>j. period_format p (anchor - int j * step)) ` {0..<n}"
proof (rule set_eqI, rule iffI)
  have off: "(anchor - int j * step) div step = t div step - int j" for j
    using assms(1,3) div_mult_self1 [of step anchor "- int j"] by simp
  fix b
  { assume "b \<in> period_format p ` {u. t div step - int n < u div step \<and> u div step \<le> t div step}"
    then obtain u where u: "b = period_format p u" "t div step - int n < u div step"
      "u div step \<le> t div step" by auto
    define j where "j = nat (t div step - u div step)"
    with u have "int j = t div step - u div step" "j < n" by auto
    then have j: "j < n" "u div step = (anchor - int j * step) div step" unfolding off by simp_all
    have "b = period_format p (anchor - int j * step)"
      unfolding u(1) by (rule period_format_cong) (simp only: assms(2) [symmetric] j(2))
    with j(1) show "b \<in> (\<lambda>j. period_format p (anchor - int j * step)) ` {0..<n}"
      by (intro image_eqI [of _ _ j]) simp_all
  next
    assume "b \<in> (\<lambda>j. period_format p (anchor - int j * step)) ` {0..<n}"
    then obtain j where "j < n" "b = period_format p (anchor - int j * step)" by auto
    then show "b \<in> period_format p ` {u. t div step - int n < u div step \<and> u div step \<le> t div step}"
      by (auto simp: off) }
qed

lemma scoped_counter_key_of_format:
  "p \<in> {UTC_DAY, UTC_HOUR} \<Longrightarrow>
     scoped_counter_key now prin tool op suffix p (Some (period_format p t)) None
     = Inr (scoped_key_str prin tool op suffix (period_format p t))"
  by (auto simp: scoped_counter_key_def bucket_or_current_def require_known_period_def)

lemma representable_floor:
  assumes "representable t" and "representable (t - k * PERIOD_STEP p)"
  shows "representable (t div PERIOD_STEP p * PERIOD_STEP p - k * PERIOD_STEP p)"
proof -
  define st where "st = PERIOD_STEP p"
  have st: "0 < st" by (simp add: st_def)
  obtain q where q: "DATETIME_MIN = q * st"
    by (cases "p = UTC_DAY")
       (auto simp: st_def PERIOD_STEP_def DATETIME_MIN_def DAY_def HOUR_def
         intro: that [of "- 719162"] that [of "- 17259888"])
  have "q * st div st \<le> (t - k * st) div st"
    using assms(2) q st by (intro zdiv_mono1) (simp_all add: st_def [symmetric])
  then have "q \<le> (t - k * st) div st" using st by simp
  also have "(t - k * st) div st = t div st - k"
    using st div_mult_self1 [of st t "- k"] by simp
  finally have "q * st \<le> (t div st - k) * st" using st by simp
  moreover have "t div st * st \<le> t" using div_mult_mod_eq [of t st] pos_mod_sign [OF st, of t] by linarith
  ultimately show ?thesis using assms q by (auto simp: st_def [symmetric] left_diff_distrib)
qed

text \<open>The sum over a window anchored in the period of \<open>t\<close>, as one sum over the buckets of its periods.\<close>

lemma window_sum:
  fixes f :: "string \<Rightarrow> rat"
  assumes p: "p \<in> {UTC_DAY, UTC_HOUR}" and step: "step = PERIOD_STEP p"
    and anchor: "anchor div step = t div step" and n: "0 < n"
    and rep: "representable anchor" "representable (anchor - (int n - 1) * step)"
    and read: "\<And>u. read (period_format p u) = Inr (f (period_format p u))"
  shows "window_loop read p anchor step 0 n 0
    = Inr (\<Sum>b \<in> period_format p ` {u. t div step - int n < u div step \<and> u div step \<le> t div step}. f b)"
proof -
  have st: "0 < step" by (simp add: step)
  have r: "representable (anchor - int j * step)" if "j < n" for j
  proof -
    have "int j * step \<le> (int n - 1) * step" using that st by simp
    moreover have "0 \<le> int j * step" using st by simp
    ultimately show ?thesis using rep by linarith
  qed
  have off: "(anchor - int j * step) div step = anchor div step - int j" for j
    using st div_mult_self1 [of step anchor "- int j"] by simp
  have inj: "inj_on (\<lambda>j. period_format p (anchor - int j * step)) {0..<n}"
  proof (rule inj_onI)
    fix i j assume "i \<in> {0..<n}" "j \<in> {0..<n}"
      and eq: "period_format p (anchor - int i * step) = period_format p (anchor - int j * step)"
    then have "i < n" "j < n" by auto
    from period_format_inject [OF r [OF this(1)] r [OF this(2)], of p] eq
    show "i = j" by (simp add: step [symmetric] off)
  qed
  have "window_loop read p anchor step 0 n 0
      = Inr (0 + (\<Sum>j = 0..<0 + n. f (period_format p (anchor - int j * step))))"
    by (rule window_loop_sum) (use read r in auto)
  then show ?thesis
    by (simp add: window_buckets [OF st step anchor] sum.reindex [OF inj] o_def)
qed

text \<open>A window read counts every period of its window exactly once. For a known period and a width in
  range, the result is the sum, over the set of buckets of the last \<open>n\<close> periods up to the anchor's, of
  the counter keyed by that bucket; this holds for the current period (no anchor) and for an anchor
  given as the bucket of \<open>t\<close>. No bucket is read twice, none is skipped, and no other row is read.\<close>

lemma window_counts_each_period_once:
  assumes "p \<in> {UTC_DAY, UTC_HOUR}" and "1 \<le> n" and "n \<le> MAX_WINDOW_PERIODS p"
    and "representable t" and "representable (t - (n - 1) * PERIOD_STEP p)"
    and "anchor = None \<and> now = t \<or> anchor = Some (period_format p t)"
  shows "read_counter_window S s now prin tool op suffix n p anchor =
    Inr (\<Sum>b \<in> period_format p ` {u. t div PERIOD_STEP p - n < u div PERIOD_STEP p
                                    \<and> u div PERIOD_STEP p \<le> t div PERIOD_STEP p}.
           read_counter S s (scoped_key_str prin tool op suffix b))"
proof -
  define a where "a = (if anchor = None then t else t div PERIOD_STEP p * PERIOD_STEP p)"
  have a: "(case anchor of None \<Rightarrow> Inr now
      | Some b \<Rightarrow> bind_r (validate_bucket b p) (\<lambda>_. period_parse p b)) = Inr a"
    using assms(4,6) by (auto simp: a_def period_parse_format)
  have rep: "representable a" "representable (a - (n - 1) * PERIOD_STEP p)"
    using assms(4,5) representable_floor [OF assms(4,5)] representable_floor [of t 0 p]
    by (auto simp: a_def)
  have div: "a div PERIOD_STEP p = t div PERIOD_STEP p" by (simp add: a_def)
  have n: "int (nat n) = n" "0 < nat n" using assms(2) by auto
  have rd: "bind_r (scoped_counter_key now prin tool op suffix p (Some (period_format p u)) None)
      (\<lambda>k. Inr (read_counter S s k))
    = Inr (read_counter S s (scoped_key_str prin tool op suffix (period_format p u)))" for u
    using scoped_counter_key_of_format [OF assms(1)] by simp
  have k: "require_known_period p = Inr ()"
    using assms(1) by (auto simp: require_known_period_def)
  have "window_loop
      (\<lambda>b. bind_r (scoped_counter_key now prin tool op suffix p (Some b) None)
              (\<lambda>k. Inr (read_counter S s k))) p a (PERIOD_STEP p) 0 (nat n) 0
    = Inr (\<Sum>b \<in> period_format p ` {u. t div PERIOD_STEP p - int (nat n) < u div PERIOD_STEP p
                                    \<and> u div PERIOD_STEP p \<le> t div PERIOD_STEP p}.
           read_counter S s (scoped_key_str prin tool op suffix b))"
    by (rule window_sum [OF assms(1) refl div n(2) rep(1)]) (use rep(2) n(1) rd in auto)
  then show ?thesis
    using n(1) assms(2,3) by (simp add: read_counter_window_def a k)
qed

lemma window_counts_each_period_once_witness:
  "read_counter_window mem_ops mem_init 0 sample_principal ''email'' ''send'' ''counter'' 7 UTC_DAY
     (Some (period_format UTC_DAY 0)) =
    Inr (\<Sum>b \<in> period_format UTC_DAY ` {u. 0 div PERIOD_STEP UTC_DAY - 7 < u div PERIOD_STEP UTC_DAY
                                    \<and> u div PERIOD_STEP UTC_DAY \<le> 0 div PERIOD_STEP UTC_DAY}.
           read_counter mem_ops mem_init (scoped_key_str sample_principal ''email'' ''send'' ''counter'' b))"
  by (rule window_counts_each_period_once)
    (simp_all add: MAX_WINDOW_PERIODS_def PERIOD_STEP_def DAY_def DATETIME_MIN_def DATETIME_MAX_def)

end
