(* ===== verification/Clock_Skew.thy ===== *)
theory Clock_Skew
  imports Calendar
begin

text \<open>
  The declared clock-skew bound (\<open>broker/schemas/clock_skew.py\<close>): loading it from an integer or from a
  command-line argument, and the two instants an end and a start asserted under another party's
  clock are compared against. The results show that a loaded bound lies between zero and one day,
  moves both comparisons toward less authority, never overflows inside the representable range less
  a day at each end, and that a wider bound is never the more permissive one.
\<close>

section \<open>Loading a bound\<close>

text \<open>A Python value passed where an \<open>int\<close> is declared; \<open>bool\<close> is a subclass of \<open>int\<close> and is refused
  by name.\<close>

datatype py_arg = PyInt int | PyBool bool | PyOther string

abbreviation TypeError :: "string \<Rightarrow> exn" where
  "TypeError m \<equiv> Exn ''TypeError'' m"

abbreviation ArgumentTypeError :: "string \<Rightarrow> exn" where
  "ArgumentTypeError m \<equiv> Exn ''ArgumentTypeError'' m"

definition ZERO_SKEW :: timedelta where "ZERO_SKEW = 0"

definition MAX_CLOCK_SKEW_SECONDS :: int where "MAX_CLOCK_SKEW_SECONDS = 86400"

definition MAX_SKEW :: timedelta where "MAX_SKEW = MAX_CLOCK_SKEW_SECONDS * SECOND"

definition TOO_WIDE :: string where
  "TOO_WIDE = ''a clock-skew bound must be at most 86400 seconds (one day); a wider bound is a typo, not a clock''"

definition NEGATIVE :: string where
  "NEGATIVE = ''a clock-skew bound must not be negative: a negative bound would apply the skew toward MORE authority''"

definition skew_bound :: "py_arg \<Rightarrow> exn + timedelta" where
  "skew_bound a =
     (case a of
        PyBool _ \<Rightarrow> Inl (TypeError ''clock_skew_seconds must be an int'')
      | PyOther _ \<Rightarrow> Inl (TypeError ''clock_skew_seconds must be an int'')
      | PyInt seconds \<Rightarrow>
          if seconds < 0 then Inl (ValueError NEGATIVE)
          else if seconds > MAX_CLOCK_SKEW_SECONDS then Inl (ValueError TOO_WIDE)
          else Inr (seconds * SECOND))"

text \<open>\<open>int(text)\<close>: surrounding white space is dropped, one sign is allowed, and single underscores may
  stand between decimal digits.\<close>

definition char_isspace :: "char \<Rightarrow> bool" where
  "char_isspace c =
     (let n = (of_char c :: nat) in
      (9 \<le> n \<and> n \<le> 13) \<or> (28 \<le> n \<and> n \<le> 32) \<or> n = 133 \<or> n = 160)"

definition py_strip :: "string \<Rightarrow> string" where
  "py_strip s = rev (dropWhile char_isspace (rev (dropWhile char_isspace s)))"

fun digit_groups :: "string \<Rightarrow> string option" where
  "digit_groups [] = None"
| "digit_groups [c] = (if CHR ''0'' \<le> c \<and> c \<le> CHR ''9'' then Some [c] else None)"
| "digit_groups (c # d # s) =
     (if CHR ''0'' \<le> c \<and> c \<le> CHR ''9''
      then map_option (Cons c) (digit_groups (if d = CHR ''_'' then s else d # s))
      else None)"

definition py_int_of :: "string \<Rightarrow> int option" where
  "py_int_of text =
     (case py_strip text of
        [] \<Rightarrow> None
      | c # s \<Rightarrow>
          if c = CHR ''-'' then map_option (\<lambda>ds. - undigits ds) (digit_groups s)
          else if c = CHR ''+'' then map_option undigits (digit_groups s)
          else map_option undigits (digit_groups (c # s)))"

definition skew_seconds_arg :: "string \<Rightarrow> exn + int" where
  "skew_seconds_arg text =
     (case py_int_of text of
        None \<Rightarrow> Inl (ArgumentTypeError ''--clock-skew-seconds must be a whole number of seconds'')
      | Some seconds \<Rightarrow>
          if seconds < 0 then Inl (ArgumentTypeError NEGATIVE)
          else if seconds > MAX_CLOCK_SKEW_SECONDS then Inl (ArgumentTypeError TOO_WIDE)
          else Inr seconds)"

section \<open>Judging under a bound\<close>

definition require_bound :: "timedelta \<Rightarrow> exn + timedelta" where
  "require_bound bound =
     (if bound < ZERO_SKEW then Inl (ValueError NEGATIVE)
      else if bound > MAX_SKEW then Inl (ValueError TOO_WIDE)
      else Inr bound)"

definition end_judged_at :: "instant \<Rightarrow> timedelta \<Rightarrow> exn + instant" where
  "end_judged_at now bound = bind_r (require_bound bound) (\<lambda>b. dt_add now b)"

definition start_judged_at :: "instant \<Rightarrow> timedelta \<Rightarrow> exn + instant" where
  "start_judged_at now bound = bind_r (require_bound bound) (\<lambda>b. dt_add now (- b))"

section \<open>Results\<close>

lemma require_bound_Inr_iff: "require_bound b = Inr b' \<longleftrightarrow> b' = b \<and> 0 \<le> b \<and> b \<le> DAY"
  by (auto simp: require_bound_def ZERO_SKEW_def MAX_SKEW_def MAX_CLOCK_SKEW_SECONDS_def SECOND_def
      DAY_def)

lemma end_judged_at_Inr_iff:
  "end_judged_at now b = Inr e \<longleftrightarrow>
     e = now + b \<and> 0 \<le> b \<and> b \<le> DAY \<and> DATETIME_MIN \<le> e \<and> e \<le> DATETIME_MAX"
  by (auto simp: end_judged_at_def bind_r_Inr_iff require_bound_Inr_iff dt_add_def split: if_splits)

lemma start_judged_at_Inr_iff:
  "start_judged_at now b = Inr s \<longleftrightarrow>
     s = now - b \<and> 0 \<le> b \<and> b \<le> DAY \<and> DATETIME_MIN \<le> s \<and> s \<le> DATETIME_MAX"
  by (auto simp: start_judged_at_def bind_r_Inr_iff require_bound_Inr_iff dt_add_def split: if_splits)

lemma end_judged_at_zero: "representable now \<Longrightarrow> end_judged_at now ZERO_SKEW = Inr now"
  by (simp add: end_judged_at_Inr_iff ZERO_SKEW_def DAY_def)

lemma skew_bound_Inr_iff:
  "skew_bound a = Inr b \<longleftrightarrow>
     (\<exists>n. a = PyInt n \<and> 0 \<le> n \<and> n \<le> MAX_CLOCK_SKEW_SECONDS \<and> b = n * SECOND)"
  by (auto simp: skew_bound_def split: py_arg.splits if_splits)

lemma skew_bound_range: "skew_bound a = Inr b \<Longrightarrow> 0 \<le> b \<and> b \<le> DAY"
  by (auto simp: skew_bound_Inr_iff MAX_CLOCK_SKEW_SECONDS_def SECOND_def DAY_def)

lemma skew_seconds_arg_loads:
  "skew_seconds_arg text = Inr n \<Longrightarrow> skew_bound (PyInt n) = Inr (n * SECOND)"
  by (auto simp: skew_seconds_arg_def skew_bound_def split: option.splits if_splits)

text \<open>A declared bound only ever takes authority away. For every bound that loads, and every instant
  at least a day inside the representable range, both judged instants exist (no comparison
  overflows); the end is judged no earlier than now and the start no later than now, each by at most a
  day. Under a wider bound an end that had passed has still passed, and a start that had not yet come
  has still not come.\<close>

lemma declared_skew_narrows_authority:
  assumes "skew_bound a = Inr b" and "skew_bound a' = Inr b'" and "b \<le> b'"
    and "DATETIME_MIN + DAY \<le> now" and "now \<le> DATETIME_MAX - DAY"
  shows "\<exists>e s e' s'. end_judged_at now b = Inr e \<and> start_judged_at now b = Inr s
    \<and> end_judged_at now b' = Inr e' \<and> start_judged_at now b' = Inr s'
    \<and> now \<le> e \<and> e \<le> now + DAY \<and> s \<le> now \<and> now - DAY \<le> s
    \<and> (\<forall>expiry. expiry \<le> e \<longrightarrow> expiry \<le> e') \<and> (\<forall>start. s < start \<longrightarrow> s' < start)"
proof -
  have b: "0 \<le> b" "b \<le> DAY" "0 \<le> b'" "b' \<le> DAY"
    using skew_bound_range [OF assms(1)] skew_bound_range [OF assms(2)] by auto
  with assms(3-5) show ?thesis
    by (intro exI [of _ "now + b"] exI [of _ "now - b"] exI [of _ "now + b'"] exI [of _ "now - b'"])
      (auto simp: end_judged_at_Inr_iff start_judged_at_Inr_iff)
qed

lemma declared_skew_narrows_authority_witness:
  "\<exists>e s e' s'. end_judged_at 0 (5 * SECOND) = Inr e \<and> start_judged_at 0 (5 * SECOND) = Inr s
    \<and> end_judged_at 0 (60 * SECOND) = Inr e' \<and> start_judged_at 0 (60 * SECOND) = Inr s'
    \<and> 0 \<le> e \<and> e \<le> 0 + DAY \<and> s \<le> 0 \<and> 0 - DAY \<le> s
    \<and> (\<forall>expiry. expiry \<le> e \<longrightarrow> expiry \<le> e') \<and> (\<forall>start. s < start \<longrightarrow> s' < start)"
  by (rule declared_skew_narrows_authority [of "PyInt 5" _ "PyInt 60"])
    (simp_all add: skew_bound_def MAX_CLOCK_SKEW_SECONDS_def SECOND_def DAY_def DATETIME_MIN_def
      DATETIME_MAX_def)

end
