(* ===== verification/Delegation.thy ===== *)
theory Delegation
  imports Counter_Keys Clock_Skew
begin

text \<open>
  Sub-grant delegation (\<open>broker/delegation\<close>): the request and the issued record (\<open>types.py\<close>), the
  attenuating computation and its checks (\<open>compute.py\<close>), the derived root identifier (\<open>keys.py\<close>), the
  in-memory sub-grant store (\<open>store.py\<close>) and the resolution of the delegation tree's shared budget pool
  (\<open>pool.py\<close>). What the code takes from outside is an argument: the clock, the fresh identifier
  (\<open>uuid4\<close>) and the digest of the core fields. The parent's expiry and the clock are UTC datetimes.
\<close>

section \<open>Types\<close>

abbreviation AttenuationError :: "string \<Rightarrow> exn" where
  "AttenuationError m \<equiv> Exn ''AttenuationError'' m"

abbreviation ExpiredSubGrantError :: "string \<Rightarrow> exn" where
  "ExpiredSubGrantError m \<equiv> Exn ''ExpiredSubGrantError'' m"

abbreviation FurtherDelegationForbiddenError :: "string \<Rightarrow> exn" where
  "FurtherDelegationForbiddenError m \<equiv> Exn ''FurtherDelegationForbiddenError'' m"

abbreviation UndeclaredDelegationTargetError :: "string \<Rightarrow> exn" where
  "UndeclaredDelegationTargetError m \<equiv> Exn ''UndeclaredDelegationTargetError'' m"

abbreviation AmbiguousSubGrantError :: "string \<Rightarrow> exn" where
  "AmbiguousSubGrantError m \<equiv> Exn ''AmbiguousSubGrantError'' m"

definition LEVEL_ORDER :: "AutonomyLevel \<Rightarrow> int" where
  "LEVEL_ORDER = AUTONOMY_RANK"

record DelegationScope =
  subAgentPrincipal :: Principal
  ds_actionClasses :: "string list"
  requestedLevel :: AutonomyLevel
  requestedSpendCap :: rat
  ttlSeconds :: rat
  ds_allowFurtherDelegation :: bool

record SubGrant =
  sg_id :: string
  parentGrantId :: string
  delegationChain :: "string list"
  sg_principal :: Principal
  actionClasses :: "string list"
  sg_level :: AutonomyLevel
  spendCap :: rat
  sg_expiry :: instant
  allowFurtherDelegation :: bool
  treePoolCap :: rat
  sg_issuedAt :: instant
  sg_issuedBy :: string
  sg_hash :: string

record ParentAuthority =
  pa_id :: string
  pa_action_classes :: "string list"
  pa_level :: AutonomyLevel
  remaining_spend :: rat
  pa_expiry :: instant
  allow_further_delegation :: bool
  tree_pool_cap :: rat
  delegation_chain :: "string list"

record 'a AttributedAuditRecord =
  audit_record :: 'a
  ar_delegation_chain :: "string list"
  ar_sub_grant_id :: string

section \<open>Issuing a sub-grant\<close>

definition require_declared_target :: "DelegationScope \<Rightarrow> ToolOp \<Rightarrow> exn + unit" where
  "require_declared_target scope causing_op =
     (case causes_context causing_op of
        None \<Rightarrow> Inl (UndeclaredDelegationTargetError ''declares no causes_context'')
      | Some decl \<Rightarrow>
          (case target decl of
             SelfTarget \<Rightarrow> Inl (UndeclaredDelegationTargetError ''declares causes_context.target self, a deferred run of the parent'')
           | ChildTarget p \<Rightarrow>
               guard_r (p = subAgentPrincipal scope)
                 (UndeclaredDelegationTargetError ''the requested child is not the declared target'')))"

text \<open>\<open>datetime.fromtimestamp(x, tz=utc)\<close> with \<open>x\<close> given in microseconds: rounded half to even to a whole
  microsecond, and range-checked.\<close>

definition fromtimestamp :: "rat \<Rightarrow> exn + instant" where
  "fromtimestamp us =
     (let t = round_half_even us in
      if DATETIME_MIN \<le> t \<and> t \<le> DATETIME_MAX then Inr t
      else Inl (ValueError ''year is out of range''))"

definition principal_json :: "Principal \<Rightarrow> json" where
  "principal_json p =
     JObj [(''agentId'', JStr (agentId p)), (''skill'', JStr (skill p)), (''user'', JStr (user p)),
           (''tier'', JStr (tier_str (tier p)))]"

text \<open>The fields the record's hash covers.\<close>

definition core_fields :: "SubGrant \<Rightarrow> json" where
  "core_fields g =
     JObj [(''id'', JStr (sg_id g)),
           (''parentGrantId'', JStr (parentGrantId g)),
           (''delegationChain'', JList (map JStr (delegationChain g))),
           (''principal'', principal_json (sg_principal g)),
           (''actionClasses'', JList (map JStr (actionClasses g))),
           (''level'', JStr (level_str (sg_level g))),
           (''spendCap'', JNum (spendCap g)),
           (''expiry'', JStr (isoformat_utc (sg_expiry g))),
           (''allowFurtherDelegation'', JBool (allowFurtherDelegation g)),
           (''treePoolCap'', JNum (treePoolCap g)),
           (''issuedAt'', JStr (isoformat_utc (sg_issuedAt g))),
           (''issuedBy'', JStr (sg_issuedBy g))]"

text \<open>Steps 1 to 3 and 5 of \<open>compute_sub_grant\<close>, in the code's order, and step 4 between them.\<close>

definition validate_classes :: "ParentAuthority \<Rightarrow> DelegationScope \<Rightarrow> exn + unit" where
  "validate_classes parent scope =
     (if set (ds_actionClasses scope) = {}
      then Inl (AttenuationError ''DelegationScope.actionClasses must not be empty'')
      else guard_r (set (ds_actionClasses scope) - set (pa_action_classes parent) = {})
        (AttenuationError ''Sub-grant actionClasses are not in the parent's''))"

definition validate_expiry ::
  "ParentAuthority \<Rightarrow> DelegationScope \<Rightarrow> instant \<Rightarrow> timedelta \<Rightarrow> exn + instant" where
  "validate_expiry parent scope now skew =
     bind_r (fromtimestamp (of_int now + ttlSeconds scope * 1000000)) (\<lambda>requested.
     bind_r (end_judged_at requested skew) (\<lambda>judged.
     bind_r (guard_r (\<not> judged > pa_expiry parent)
       (AttenuationError ''Requested TTL would set expiry past the parent's expiry'')) (\<lambda>_.
       Inr requested)))"

definition build_sub_grant ::
  "(json \<Rightarrow> string) \<Rightarrow> string \<Rightarrow> ParentAuthority \<Rightarrow> DelegationScope \<Rightarrow> instant \<Rightarrow> string \<Rightarrow> instant \<Rightarrow> SubGrant" where
  "build_sub_grant hash_fields uuid parent scope now issued_by expiry =
     (let g = \<lparr>sg_id = uuid, parentGrantId = pa_id parent,
               delegationChain = delegation_chain parent @ [pa_id parent],
               sg_principal = subAgentPrincipal scope,
               actionClasses = sort (ds_actionClasses scope),
               sg_level = requestedLevel scope, spendCap = requestedSpendCap scope,
               sg_expiry = expiry, allowFurtherDelegation = ds_allowFurtherDelegation scope,
               treePoolCap = tree_pool_cap parent, sg_issuedAt = now, sg_issuedBy = issued_by,
               sg_hash = ''''\<rparr>
      in g\<lparr>sg_hash := hash_fields (core_fields g)\<rparr>)"

definition compute_sub_grant ::
  "(json \<Rightarrow> string) \<Rightarrow> string \<Rightarrow> ParentAuthority \<Rightarrow> DelegationScope \<Rightarrow> ToolOp \<Rightarrow> instant \<Rightarrow> string \<Rightarrow> timedelta
     \<Rightarrow> exn + SubGrant" where
  "compute_sub_grant hash_fields uuid parent scope causing_op now issued_by skew =
     bind_r (require_declared_target scope causing_op) (\<lambda>_.
     bind_r (validate_classes parent scope) (\<lambda>_.
     bind_r (guard_r (\<not> LEVEL_ORDER (requestedLevel scope) > LEVEL_ORDER (pa_level parent))
       (AttenuationError ''Requested level is more autonomous than the parent's level'')) (\<lambda>_.
     bind_r (guard_r (\<not> requestedSpendCap scope > remaining_spend parent)
       (AttenuationError ''Requested spendCap exceeds the parent's remaining spend cap'')) (\<lambda>_.
     bind_r (validate_expiry parent scope now skew) (\<lambda>expiry.
     bind_r (guard_r (\<not> (ds_allowFurtherDelegation scope \<and> \<not> allow_further_delegation parent))
       (FurtherDelegationForbiddenError ''the parent does not permit the sub-agent to further delegate'')) (\<lambda>_.
       Inr (build_sub_grant hash_fields uuid parent scope now issued_by expiry)))))))"

section \<open>Checks on an issued sub-grant\<close>

definition assert_attenuates :: "ParentAuthority \<Rightarrow> SubGrant \<Rightarrow> exn + unit" where
  "assert_attenuates parent child =
     (if LEVEL_ORDER (sg_level child) > LEVEL_ORDER (pa_level parent)
      then Inl (AttenuationError ''Child level is more autonomous than parent level'')
      else if set (actionClasses child) - set (pa_action_classes parent) \<noteq> {}
      then Inl (AttenuationError ''Child actionClasses are not in parent's authorized action classes'')
      else if spendCap child > remaining_spend parent
      then Inl (AttenuationError ''Child spendCap exceeds parent's remaining spend'')
      else if sg_expiry child > pa_expiry parent
      then Inl (AttenuationError ''Child expiry is after parent's expiry'')
      else if allowFurtherDelegation child \<and> \<not> allow_further_delegation parent
      then Inl (AttenuationError ''Child has allowFurtherDelegation=True but parent does not permit it'')
      else Inr ())"

definition check_action_authorized :: "SubGrant \<Rightarrow> string \<Rightarrow> bool" where
  "check_action_authorized g action_class \<longleftrightarrow> action_class \<in> set (actionClasses g)"

definition verify_not_expired :: "SubGrant \<Rightarrow> instant \<Rightarrow> timedelta \<Rightarrow> exn + unit" where
  "verify_not_expired g now skew =
     bind_r (end_judged_at now skew) (\<lambda>judged.
       guard_r (\<not> judged \<ge> sg_expiry g) (ExpiredSubGrantError ''Sub-grant expired''))"

definition build_attributed_record :: "SubGrant \<Rightarrow> 'a \<Rightarrow> 'a AttributedAuditRecord" where
  "build_attributed_record g rec =
     \<lparr>audit_record = rec, ar_delegation_chain = delegationChain g @ [sg_id g], ar_sub_grant_id = sg_id g\<rparr>"

section \<open>Parents\<close>

definition parent_from_grant ::
  "string \<Rightarrow> string list \<Rightarrow> AutonomyLevel \<Rightarrow> rat \<Rightarrow> instant \<Rightarrow> rat \<Rightarrow> bool \<Rightarrow> exn + ParentAuthority" where
  "parent_from_grant grant_id action_classes level remaining expiry pool_cap allow_further =
     (if pool_cap \<le> 0 then Inl (ValueError ''tree_pool_cap must be positive'')
      else Inr \<lparr>pa_id = grant_id, pa_action_classes = action_classes, pa_level = level,
                remaining_spend = remaining, pa_expiry = expiry,
                allow_further_delegation = allow_further, tree_pool_cap = pool_cap,
                delegation_chain = []\<rparr>)"

definition parent_from_sub_grant :: "SubGrant \<Rightarrow> rat \<Rightarrow> exn + ParentAuthority" where
  "parent_from_sub_grant g remaining =
     (if \<not> allowFurtherDelegation g
      then Inl (FurtherDelegationForbiddenError ''Sub-grant does not permit further delegation'')
      else Inr \<lparr>pa_id = sg_id g, pa_action_classes = actionClasses g, pa_level = sg_level g,
                remaining_spend = remaining, pa_expiry = sg_expiry g,
                allow_further_delegation = allowFurtherDelegation g, tree_pool_cap = treePoolCap g,
                delegation_chain = delegationChain g\<rparr>)"

definition GRANT_KEY_PREFIX :: string where "GRANT_KEY_PREFIX = ''GRANT''"

definition root_grant_id :: "Principal \<Rightarrow> string \<Rightarrow> exn + string" where
  "root_grant_id prin action_class =
     (if action_class = [] then Inl (ValueError ''action_class must be non-empty'')
      else if CHR ''#'' \<in> set action_class
      then Inl (ValueError ''action_class must not contain '#' '')
      else Inr (GRANT_KEY_PREFIX @ ''#'' @ principal_key prin @ ''#'' @ action_class))"

section \<open>The sub-grant store\<close>

record 's SubGrantStore =
  sub_save :: "SubGrant \<Rightarrow> 's \<Rightarrow> 's"
  sub_get :: "'s \<Rightarrow> string \<Rightarrow> SubGrant option"
  get_by_parent :: "'s \<Rightarrow> string \<Rightarrow> SubGrant list"
  get_by_principal :: "'s \<Rightarrow> Principal \<Rightarrow> exn + SubGrant option"

type_synonym InMemorySubGrantStore = "(string, SubGrant) dict"

definition submem_save :: "SubGrant \<Rightarrow> InMemorySubGrantStore \<Rightarrow> InMemorySubGrantStore" where
  "submem_save g s = AList.update (sg_id g) g s"

definition submem_get :: "InMemorySubGrantStore \<Rightarrow> string \<Rightarrow> SubGrant option" where
  "submem_get s i = map_of s i"

definition submem_get_by_parent :: "InMemorySubGrantStore \<Rightarrow> string \<Rightarrow> SubGrant list" where
  "submem_get_by_parent s pid = filter (\<lambda>g. parentGrantId g = pid) (map snd s)"

definition submem_get_by_principal ::
  "InMemorySubGrantStore \<Rightarrow> Principal \<Rightarrow> exn + SubGrant option" where
  "submem_get_by_principal s prin =
     (let matches = filter (\<lambda>g. sg_principal g = prin) (map snd s) in
      if matches = [] then Inr None
      else if length matches > 1
      then Inl (AmbiguousSubGrantError ''principal holds more than one sub-grant'')
      else Inr (Some (matches ! 0)))"

definition submem_all :: "InMemorySubGrantStore \<Rightarrow> SubGrant list" where
  "submem_all s = map snd s"

definition submem_ops :: "InMemorySubGrantStore SubGrantStore" where
  "submem_ops =
     \<lparr>sub_save = submem_save, sub_get = submem_get, get_by_parent = submem_get_by_parent,
      get_by_principal = submem_get_by_principal\<rparr>"

section \<open>The tree pool\<close>

definition ACTION_CAP_SUFFIX :: string where "ACTION_CAP_SUFFIX = ''counter''"

text \<open>\<open>sub_grant_store\<close> is the pair of a store's operations and its state, or \<open>None\<close> when the deployment
  does not delegate.\<close>

definition pool_anchor ::
  "'s SubGrantStore \<Rightarrow> 's \<Rightarrow> Principal \<Rightarrow> string \<Rightarrow> string \<Rightarrow> rat \<Rightarrow> exn + string \<times> rat" where
  "pool_anchor G st prin tool op own_cap =
     bind_r (get_by_principal G st prin) (\<lambda>found.
       (case found of
          None \<Rightarrow> bind_r (root_grant_id prin (tool @ ''.'' @ op)) (\<lambda>anchor. Inr (anchor, own_cap))
        | Some g \<Rightarrow>
            if delegationChain g = [] then Inl (ValueError ''sub-grant has an empty delegationChain'')
            else Inr (delegationChain g ! 0, treePoolCap g)))"

definition resolve_tree_pool ::
  "('s SubGrantStore \<times> 's) option \<Rightarrow> instant \<Rightarrow> Principal \<Rightarrow> string \<Rightarrow> string \<Rightarrow> rat \<Rightarrow> string \<Rightarrow> rat
     \<Rightarrow> exn + CounterDraw option" where
  "resolve_tree_pool sub_grant_store now prin tool op own_cap period delta =
     (case sub_grant_store of
        None \<Rightarrow> Inr None
      | Some (G, st) \<Rightarrow>
          bind_r (pool_anchor G st prin tool op own_cap) (\<lambda>(anchor, cap).
          bind_r (tree_counter_key now anchor tool op ACTION_CAP_SUFFIX period None) (\<lambda>k.
            Inr (Some \<lparr>draw_key = k, draw_delta = delta, draw_cap = cap\<rparr>))))"

section \<open>Attenuation\<close>

lemma LEVEL_ORDER_le [simp]: "LEVEL_ORDER a \<le> LEVEL_ORDER b \<longleftrightarrow> a \<le> b"
  by (simp add: LEVEL_ORDER_def less_eq_AutonomyLevel_def)

lemma LEVEL_ORDER_less [simp]: "LEVEL_ORDER a < LEVEL_ORDER b \<longleftrightarrow> a < b"
  by (simp add: LEVEL_ORDER_def less_AutonomyLevel_def)

lemma assert_attenuates_Inr_iff:
  "assert_attenuates parent child = Inr u \<longleftrightarrow>
     sg_level child \<le> pa_level parent
     \<and> set (actionClasses child) \<subseteq> set (pa_action_classes parent)
     \<and> spendCap child \<le> remaining_spend parent
     \<and> sg_expiry child \<le> pa_expiry parent
     \<and> (allowFurtherDelegation child \<longrightarrow> allow_further_delegation parent)"
  by (auto simp: assert_attenuates_def not_less)

lemma require_declared_target_Inr_iff:
  "require_declared_target scope op = Inr u \<longleftrightarrow>
     (\<exists>decl. causes_context op = Some decl \<and> target decl = ChildTarget (subAgentPrincipal scope))"
  by (auto simp: require_declared_target_def split: option.splits causes_target.splits)

text \<open>What an issued sub-grant is, and everything that was checked before it was built.\<close>

lemma compute_sub_grant_Inr_iff:
  "compute_sub_grant H uuid parent scope op now by_whom skew = Inr g \<longleftrightarrow>
     (\<exists>decl e. causes_context op = Some decl \<and> target decl = ChildTarget (subAgentPrincipal scope)
       \<and> ds_actionClasses scope \<noteq> [] \<and> set (ds_actionClasses scope) \<subseteq> set (pa_action_classes parent)
       \<and> requestedLevel scope \<le> pa_level parent
       \<and> requestedSpendCap scope \<le> remaining_spend parent
       \<and> fromtimestamp (of_int now + ttlSeconds scope * 1000000) = Inr e
       \<and> (\<exists>j. end_judged_at e skew = Inr j \<and> j \<le> pa_expiry parent)
       \<and> (ds_allowFurtherDelegation scope \<longrightarrow> allow_further_delegation parent)
       \<and> g = build_sub_grant H uuid parent scope now by_whom e)"
  by (auto simp: compute_sub_grant_def bind_r_Inr_iff require_declared_target_Inr_iff
      validate_classes_def validate_expiry_def not_less split: if_splits)

lemma build_sub_grant_fields [simp]:
  "sg_id (build_sub_grant H uuid pa sc now w e) = uuid"
  "parentGrantId (build_sub_grant H uuid pa sc now w e) = pa_id pa"
  "delegationChain (build_sub_grant H uuid pa sc now w e) = delegation_chain pa @ [pa_id pa]"
  "sg_principal (build_sub_grant H uuid pa sc now w e) = subAgentPrincipal sc"
  "actionClasses (build_sub_grant H uuid pa sc now w e) = sort (ds_actionClasses sc)"
  "sg_level (build_sub_grant H uuid pa sc now w e) = requestedLevel sc"
  "spendCap (build_sub_grant H uuid pa sc now w e) = requestedSpendCap sc"
  "sg_expiry (build_sub_grant H uuid pa sc now w e) = e"
  "allowFurtherDelegation (build_sub_grant H uuid pa sc now w e) = ds_allowFurtherDelegation sc"
  "treePoolCap (build_sub_grant H uuid pa sc now w e) = tree_pool_cap pa"
  by (simp_all add: build_sub_grant_def Let_def)

lemma build_sub_grant_hash:
  "sg_hash (build_sub_grant H uuid pa sc now w e) = H (core_fields (build_sub_grant H uuid pa sc now w e))"
  by (simp add: build_sub_grant_def Let_def core_fields_def)

text \<open>The issuing path and the checking path agree: an issued sub-grant always passes the check.\<close>

lemma compute_attenuates:
  assumes "compute_sub_grant H uuid parent scope op now w skew = Inr g"
  shows "assert_attenuates parent g = Inr ()" and "treePoolCap g = tree_pool_cap parent"
    and "delegationChain g = delegation_chain parent @ [pa_id parent]"
    and "sg_expiry g + skew \<le> pa_expiry parent"
    and "\<exists>decl. causes_context op = Some decl \<and> target decl = ChildTarget (sg_principal g)"
    and "sg_hash g = H (core_fields g)"
  using assms
  by (auto simp: compute_sub_grant_Inr_iff assert_attenuates_Inr_iff end_judged_at_Inr_iff
      build_sub_grant_hash)

lemma parent_from_sub_grant_Inr_iff:
  "parent_from_sub_grant g rem = Inr pa \<longleftrightarrow>
     allowFurtherDelegation g
     \<and> pa = \<lparr>pa_id = sg_id g, pa_action_classes = actionClasses g, pa_level = sg_level g,
             remaining_spend = rem, pa_expiry = sg_expiry g, allow_further_delegation = True,
             tree_pool_cap = treePoolCap g, delegation_chain = delegationChain g\<rparr>"
  by (auto simp: parent_from_sub_grant_def)

text \<open>A sub-grant reached from a root authority through any number of delegations. The broker derives
  the remaining spend of a sub-grant from its cap, so it is at most the cap.\<close>

inductive descends :: "(json \<Rightarrow> string) \<Rightarrow> ParentAuthority \<Rightarrow> SubGrant \<Rightarrow> bool" for H origin where
  first: "compute_sub_grant H uuid origin scope op now w skew = Inr g \<Longrightarrow> descends H origin g"
| further: "descends H origin g \<Longrightarrow> parent_from_sub_grant g rem = Inr pa \<Longrightarrow> rem \<le> spendCap g \<Longrightarrow>
    compute_sub_grant H uuid pa scope op now w skew = Inr g' \<Longrightarrow> descends H origin g'"

inductive_cases descendsE: "descends H origin g"

lemma descends_attenuates:
  "descends H origin g \<Longrightarrow>
     assert_attenuates origin g = Inr () \<and> treePoolCap g = tree_pool_cap origin
     \<and> (\<exists>rest. delegationChain g = delegation_chain origin @ pa_id origin # rest)"
proof (induction rule: descends.induct)
  case (first uuid scope op now w skew g)
  then show ?case using compute_attenuates [OF first] by simp
next
  case (further g rem pa uuid scope op now w skew g')
  from further.hyps(2) have pa: "pa_level pa = sg_level g" "pa_action_classes pa = actionClasses g"
    "remaining_spend pa = rem" "pa_expiry pa = sg_expiry g" "allowFurtherDelegation g"
    "tree_pool_cap pa = treePoolCap g" "delegation_chain pa = delegationChain g"
    by (auto simp: parent_from_sub_grant_Inr_iff)
  note c = compute_attenuates [OF further.hyps(4)]
  show ?case
    using c(1-3) further.IH further.hyps(3) pa
    by (auto simp: assert_attenuates_Inr_iff)
qed

section \<open>Results on issuance\<close>

definition sample_child :: Principal where
  "sample_child = \<lparr>agentId = ''helper'', skill = ''triage'', user = ''ann'', tier = TierC\<rparr>"

definition sample_spawn :: ToolOp where
  "sample_spawn =
     \<lparr>op_tool = ''agents'', op_op = ''spawn'', effect = write_effect, external = False,
      reversible = Some True, egress_arg = None, destination_arg = None,
      causes_context = Some \<lparr>target = ChildTarget sample_child, horizon_seconds = 3600\<rparr>\<rparr>"

definition sample_parent :: ParentAuthority where
  "sample_parent =
     \<lparr>pa_id = ''GRANT#mailer#triage#ann#B#email.send'', pa_action_classes = [''email.send''],
      pa_level = on_loop, remaining_spend = 5, pa_expiry = 7200 * 1000000,
      allow_further_delegation = True, tree_pool_cap = 5, delegation_chain = []\<rparr>"

definition sample_scope :: DelegationScope where
  "sample_scope =
     \<lparr>subAgentPrincipal = sample_child, ds_actionClasses = [''email.send''], requestedLevel = in_loop,
      requestedSpendCap = 3, ttlSeconds = 3600, ds_allowFurtherDelegation = False\<rparr>"

definition sample_sub_grant :: SubGrant where
  "sample_sub_grant = build_sub_grant (\<lambda>_. ''h'') ''sg-1'' sample_parent sample_scope 0 ''broker'' (3600 * 1000000)"

definition sample_mid :: ParentAuthority where
  "sample_mid =
     \<lparr>pa_id = sg_id sample_sub_grant, pa_action_classes = actionClasses sample_sub_grant,
      pa_level = sg_level sample_sub_grant, remaining_spend = 3, pa_expiry = sg_expiry sample_sub_grant,
      allow_further_delegation = True, tree_pool_cap = treePoolCap sample_sub_grant,
      delegation_chain = delegationChain sample_sub_grant\<rparr>"

definition sample_grandchild :: SubGrant where
  "sample_grandchild = build_sub_grant (\<lambda>_. ''h'') ''sg-2'' sample_mid (sample_scope\<lparr>ttlSeconds := 60\<rparr>) 0
     ''broker'' (60 * 1000000)"

lemmas delegation_samples =
  sample_child_def sample_spawn_def sample_parent_def sample_scope_def sample_sub_grant_def

lemma sample_issue:
  "compute_sub_grant (\<lambda>_. ''h'') ''sg-1'' sample_parent sample_scope sample_spawn 0 ''broker'' (5 * SECOND)
   = Inr sample_sub_grant"
  unfolding compute_sub_grant_Inr_iff
  by (simp add: delegation_samples fromtimestamp_def round_half_even_def end_judged_at_Inr_iff
      DATETIME_MIN_def DATETIME_MAX_def SECOND_def DAY_def)

text \<open>C30: authority only narrows along a delegation tree. Whatever chain of delegations leads from a root
  authority to a sub-grant, the sub-grant passes the attenuation check against the root: it is no more
  autonomous, covers no further action class, spends no more, outlives it by nothing, and may delegate
  only if the root may. Its tree pool cap is the root's, and its delegation chain starts with the root's
  identifier.\<close>

theorem delegation_tree_attenuates:
  assumes "descends H origin g" and "delegation_chain origin = []"
  shows "assert_attenuates origin g = Inr () \<and> treePoolCap g = tree_pool_cap origin
    \<and> delegationChain g \<noteq> [] \<and> delegationChain g ! 0 = pa_id origin"
  using descends_attenuates [OF assms(1)] assms(2) by auto

theorem delegation_tree_attenuates_witness:
  "assert_attenuates sample_parent sample_sub_grant = Inr ()
   \<and> treePoolCap sample_sub_grant = tree_pool_cap sample_parent
   \<and> delegationChain sample_sub_grant \<noteq> []
   \<and> delegationChain sample_sub_grant ! 0 = pa_id sample_parent"
  by (rule delegation_tree_attenuates [OF descends.first [OF sample_issue]])
     (simp add: sample_parent_def)

text \<open>Issuing either refuses or returns a record that passes the attenuation check, ends at least the
  skew bound before its parent, is held by exactly the principal the causing op declares, and carries the
  digest of its own core fields; and it refuses every request that would widen the parent in some
  dimension.\<close>

lemma issuance_attenuates_or_refuses:
  "(\<forall>g. compute_sub_grant H uuid parent scope op now w skew = Inr g \<longrightarrow>
      assert_attenuates parent g = Inr () \<and> sg_expiry g + skew \<le> pa_expiry parent
      \<and> (\<exists>decl. causes_context op = Some decl \<and> target decl = ChildTarget (sg_principal g))
      \<and> sg_hash g = H (core_fields g))
   \<and> (\<not> set (ds_actionClasses scope) \<subseteq> set (pa_action_classes parent)
      \<or> pa_level parent < requestedLevel scope
      \<or> remaining_spend parent < requestedSpendCap scope
      \<or> ds_allowFurtherDelegation scope \<and> \<not> allow_further_delegation parent
      \<longrightarrow> (\<exists>e. compute_sub_grant H uuid parent scope op now w skew = Inl e))"
proof -
  have "\<exists>e. compute_sub_grant H uuid parent scope op now w skew = Inl e"
    if "\<not> set (ds_actionClasses scope) \<subseteq> set (pa_action_classes parent)
      \<or> pa_level parent < requestedLevel scope
      \<or> remaining_spend parent < requestedSpendCap scope
      \<or> ds_allowFurtherDelegation scope \<and> \<not> allow_further_delegation parent"
  proof (cases "compute_sub_grant H uuid parent scope op now w skew")
    case (Inr g)
    with that show ?thesis by (auto simp: compute_sub_grant_Inr_iff)
  qed blast
  moreover have "assert_attenuates parent g = Inr () \<and> sg_expiry g + skew \<le> pa_expiry parent
      \<and> (\<exists>decl. causes_context op = Some decl \<and> target decl = ChildTarget (sg_principal g))
      \<and> sg_hash g = H (core_fields g)"
    if "compute_sub_grant H uuid parent scope op now w skew = Inr g" for g
    using compute_attenuates [OF that] by simp
  ultimately show ?thesis by blast
qed

lemma issuance_attenuates_or_refuses_witness:
  "assert_attenuates sample_parent sample_sub_grant = Inr ()
   \<and> sg_expiry sample_sub_grant + 5 * SECOND \<le> pa_expiry sample_parent
   \<and> (\<exists>e. compute_sub_grant (\<lambda>_. ''h'') ''sg-1'' sample_parent
         (sample_scope\<lparr>requestedLevel := out_of_loop\<rparr>) sample_spawn 0 ''broker'' (5 * SECOND) = Inl e)"
proof -
  have "pa_level sample_parent < requestedLevel (sample_scope\<lparr>requestedLevel := out_of_loop\<rparr>)"
    by (simp add: sample_parent_def less_AutonomyLevel_def AUTONOMY_RANK_def)
  then show ?thesis
    using issuance_attenuates_or_refuses [of "\<lambda>_. ''h''" "''sg-1''" sample_parent
        "sample_scope\<lparr>requestedLevel := out_of_loop\<rparr>" sample_spawn 0 "''broker''" "5 * SECOND"]
      issuance_attenuates_or_refuses [of "\<lambda>_. ''h''" "''sg-1''" sample_parent
        sample_scope sample_spawn 0 "''broker''" "5 * SECOND"] sample_issue
    by blast
qed

text \<open>Expiry reaches down the tree. Once a sub-grant is refused as expired at some instant, everything
  delegated from it is refused as expired at that instant too, under the same skew bound.\<close>

lemma expired_parent_expires_children:
  assumes "verify_not_expired g now skew = Inl (ExpiredSubGrantError m)"
    and "parent_from_sub_grant g rem = Inr pa" and "descends H pa g'"
  shows "verify_not_expired g' now skew = Inl (ExpiredSubGrantError m)"
proof -
  have "sg_expiry g' \<le> sg_expiry g"
    using descends_attenuates [OF assms(3)] assms(2)
    by (auto simp: assert_attenuates_Inr_iff parent_from_sub_grant_Inr_iff)
  moreover obtain j where "end_judged_at now skew = Inr j" "sg_expiry g \<le> j" "m = ''Sub-grant expired''"
    using assms(1)
    by (cases "end_judged_at now skew")
       (auto simp: verify_not_expired_def end_judged_at_def require_bound_def dt_add_def split: if_splits)
  ultimately show ?thesis by (simp add: verify_not_expired_def)
qed

lemma expired_parent_expires_children_witness:
  "verify_not_expired sample_grandchild (3600 * 1000000) ZERO_SKEW
   = Inl (ExpiredSubGrantError ''Sub-grant expired'')"
proof -
  let ?g = "sample_sub_grant\<lparr>allowFurtherDelegation := True\<rparr>"
  have g: "verify_not_expired ?g (3600 * 1000000) ZERO_SKEW
      = Inl (ExpiredSubGrantError ''Sub-grant expired'')"
    by (simp add: verify_not_expired_def end_judged_at_zero delegation_samples DATETIME_MIN_def
        DATETIME_MAX_def)
  have pa: "parent_from_sub_grant ?g 3 = Inr sample_mid"
    by (simp add: parent_from_sub_grant_def sample_mid_def)
  have "compute_sub_grant (\<lambda>_. ''h'') ''sg-2'' sample_mid (sample_scope\<lparr>ttlSeconds := 60\<rparr>) sample_spawn 0
      ''broker'' ZERO_SKEW = Inr sample_grandchild"
    unfolding compute_sub_grant_Inr_iff
    by (simp add: sample_mid_def sample_grandchild_def delegation_samples fromtimestamp_def
        round_half_even_def end_judged_at_Inr_iff DATETIME_MIN_def DATETIME_MAX_def ZERO_SKEW_def
        DAY_def)
  from expired_parent_expires_children [OF g pa descends.first [OF this]] show ?thesis .
qed

end
