(* ===== verification/Delegation_Pool.thy ===== *)
theory Delegation_Pool
  imports Delegation Enforcement_Concurrency
begin

text \<open>
  The delegation tree's shared budget: the contract of a sub-grant store (locale \<open>sub_grant_store\<close>,
  interpreted on the in-memory store), the resolution of a call's pool draw over any store that meets
  it, and the bound this puts on a whole tree when its members run concurrently through the
  enforcement machine.
\<close>

section \<open>The contract of a sub-grant store\<close>

text \<open>\<open>rows\<close> is what the store holds, by identifier. A lookup by principal answers only when the answer is
  unique, and refuses an ambiguous pair.\<close>

locale sub_grant_store =
  fixes G :: "'s SubGrantStore"
    and wf :: "'s \<Rightarrow> bool"
    and rows :: "'s \<Rightarrow> string \<rightharpoonup> SubGrant"
  assumes save_row: "wf s \<Longrightarrow> rows (sub_save G g s) = (rows s)(sg_id g \<mapsto> g) \<and> wf (sub_save G g s)"
    and row_id: "wf s \<Longrightarrow> rows s i = Some g \<Longrightarrow> sg_id g = i"
    and get_row: "wf s \<Longrightarrow> sub_get G s i = rows s i"
    and by_parent: "wf s \<Longrightarrow> set (get_by_parent G s pid) = {g \<in> ran (rows s). parentGrantId g = pid}"
    and by_principal_none:
      "wf s \<Longrightarrow> get_by_principal G s p = Inr None \<longleftrightarrow> (\<forall>g \<in> ran (rows s). sg_principal g \<noteq> p)"
    and by_principal_some:
      "wf s \<Longrightarrow> get_by_principal G s p = Inr (Some g) \<longleftrightarrow> {h \<in> ran (rows s). sg_principal h = p} = {g}"
    and by_principal_error:
      "wf s \<Longrightarrow> get_by_principal G s p = Inl e \<Longrightarrow> exn_class e = ''AmbiguousSubGrantError''"
begin

lemma row_in_ran: "wf s \<Longrightarrow> rows s i = Some g \<Longrightarrow> g \<in> ran (rows s)"
  by (auto simp: ran_def)

text \<open>Two stored sub-grants of one principal make every lookup of it an error.\<close>

lemma ambiguous_lookup:
  assumes "wf s" and "rows s i = Some g" and "rows s j = Some h" and "i \<noteq> j"
    and "sg_principal g = p" and "sg_principal h = p"
  shows "\<exists>m. get_by_principal G s p = Inl (AmbiguousSubGrantError m)"
proof -
  have ne: "g \<noteq> h" using row_id [OF assms(1,2)] row_id [OF assms(1,3)] assms(4) by auto
  have mem: "g \<in> {h \<in> ran (rows s). sg_principal h = p}" "h \<in> {h \<in> ran (rows s). sg_principal h = p}"
    using row_in_ran [OF assms(1,2)] row_in_ran [OF assms(1,3)] assms(5,6) by auto
  then have "get_by_principal G s p \<noteq> Inr None" using by_principal_none [OF assms(1)] by auto
  moreover have "get_by_principal G s p \<noteq> Inr (Some k)" for k
    using by_principal_some [OF assms(1), of p k] mem ne by auto
  ultimately obtain e where e: "get_by_principal G s p = Inl e"
    by (metis option.exhaust sum.exhaust)
  with by_principal_error [OF assms(1) e] show ?thesis by (cases e) auto
qed

lemma ambiguous_pool:
  assumes "wf s" and "sg_id g \<noteq> sg_id h" and "sg_principal g = p" and "sg_principal h = p"
  shows "\<exists>m. resolve_tree_pool (Some (G, sub_save G h (sub_save G g s))) now p tool op cap period delta
    = Inl (AmbiguousSubGrantError m)"
proof -
  let ?s1 = "sub_save G g s"
  let ?s2 = "sub_save G h ?s1"
  have s1: "wf ?s1" "rows ?s1 (sg_id g) = Some g" using save_row [OF assms(1), of g] by simp_all
  have s2: "wf ?s2" "rows ?s2 (sg_id g) = Some g" "rows ?s2 (sg_id h) = Some h"
    using save_row [OF s1(1), of h] s1(2) assms(2) by auto
  from ambiguous_lookup [OF s2(1,2,3) assms(2,3,4)] show ?thesis
    by (auto simp: resolve_tree_pool_def pool_anchor_def)
qed

end

definition submem_wf :: "InMemorySubGrantStore \<Rightarrow> bool" where
  "submem_wf s \<longleftrightarrow> distinct (map fst s) \<and> (\<forall>i g. map_of s i = Some g \<longrightarrow> sg_id g = i)"

lemma submem_wf_distinct: "submem_wf s \<Longrightarrow> distinct (map snd s)"
proof -
  assume wf: "submem_wf s"
  then have "map fst s = map sg_id (map snd s)"
    by (auto simp: submem_wf_def)
  with wf show "distinct (map snd s)" by (metis distinct_map submem_wf_def)
qed

lemma submem_ran: "submem_wf s \<Longrightarrow> ran (map_of s) = set (map snd s)"
  by (auto simp: submem_wf_def ran_distinct)

lemma submem_matches:
  assumes "submem_wf s"
  shows "{h \<in> ran (map_of s). sg_principal h = p} = set (filter (\<lambda>g. sg_principal g = p) (map snd s))"
    and "distinct (filter (\<lambda>g. sg_principal g = p) (map snd s))"
  using submem_wf_distinct [OF assms] by (auto simp: submem_ran [OF assms])

lemma unique_match:
  "distinct xs \<Longrightarrow> set xs = {x} \<longleftrightarrow> xs = [x]"
proof
  assume "distinct xs" "set xs = {x}"
  then have "length xs = 1" using distinct_card [of xs] by simp
  with \<open>set xs = {x}\<close> show "xs = [x]" by (cases xs) auto
qed simp

interpretation submem: sub_grant_store submem_ops submem_wf map_of
proof (unfold_locales, goal_cases)
  case (1 s g)
  then show ?case
    by (auto simp: submem_ops_def submem_save_def submem_wf_def update_conv' distinct_update
        split: if_splits)
next
  case (2 s i g)
  then show ?case by (simp add: submem_wf_def)
next
  case (3 s i)
  then show ?case by (simp add: submem_ops_def submem_get_def)
next
  case (4 s p)
  then show ?case by (auto simp: submem_ops_def submem_get_by_parent_def submem_ran)
next
  case (5 s p)
  then show ?case
    by (auto simp: submem_ops_def submem_get_by_principal_def submem_ran filter_empty_conv Let_def)
next
  case (6 s p g)
  show ?case
    unfolding submem_matches(1) [OF 6] unique_match [OF submem_matches(2) [OF 6]]
    by (cases "filter (\<lambda>g. sg_principal g = p) (map snd s)")
       (auto simp: submem_ops_def submem_get_by_principal_def Let_def)
next
  case (7 s p e)
  then show ?case
    by (auto simp: submem_ops_def submem_get_by_principal_def Let_def split: if_splits)
qed

section \<open>One pool for the whole tree\<close>

text \<open>A principal that draws on the tree rooted at \<open>origin\<close>: one that holds a sub-grant delegated from it, or
  the root principal itself, whose own cap for the operation is the tree's.\<close>

definition in_tree ::
  "(json \<Rightarrow> string) \<Rightarrow> InMemorySubGrantStore \<Rightarrow> Principal \<Rightarrow> ParentAuthority \<Rightarrow> Principal \<Rightarrow> rat \<Rightarrow> bool" where
  "in_tree H st chief origin prin own_cap \<longleftrightarrow>
     (\<exists>g. submem_get_by_principal st prin = Inr (Some g) \<and> descends H origin g)
     \<or> submem_get_by_principal st prin = Inr None \<and> prin = chief \<and> own_cap = tree_pool_cap origin"

definition pool_key :: "ParentAuthority \<Rightarrow> string \<Rightarrow> string \<Rightarrow> string \<Rightarrow> string" where
  "pool_key origin tool op b =
     ''tree:'' @ pa_id origin @ '':'' @ tool @ ''.'' @ op @ '':'' @ b @ '':counter''"

lemma root_grant_id_nonempty: "root_grant_id p c = Inr i \<Longrightarrow> i \<noteq> []"
  by (auto simp: root_grant_id_def GRANT_KEY_PREFIX_def split: if_splits)

lemma tree_key_of_anchor:
  assumes "period \<in> {UTC_DAY, UTC_HOUR}" and "CHR '':'' \<notin> set (pa_id origin)" and "pa_id origin \<noteq> []"
  shows "tree_counter_key now (pa_id origin) tool op ACTION_CAP_SUFFIX period None
    = Inr (pool_key origin tool op (period_format period now))"
  using assms
  by (auto simp: tree_counter_key_def bucket_or_current_def current_period_bucket_def
      period_bucket_of_def pool_key_def TREE_KEY_NAMESPACE_def ACTION_CAP_SUFFIX_def
      require_known_period_def)

lemma tree_member_pool:
  assumes "in_tree H st chief origin prin own_cap"
    and "root_grant_id chief (tool @ ''.'' @ op) = Inr (pa_id origin)"
    and "delegation_chain origin = []" and "CHR '':'' \<notin> set (pa_id origin)"
    and "period \<in> {UTC_DAY, UTC_HOUR}"
  shows "resolve_tree_pool (Some (submem_ops, st)) now prin tool op own_cap period delta
    = Inr (Some \<lparr>draw_key = pool_key origin tool op (period_format period now), draw_delta = delta,
                 draw_cap = tree_pool_cap origin\<rparr>)"
proof -
  note key = tree_key_of_anchor [OF assms(5,4) root_grant_id_nonempty [OF assms(2)]]
  have "pool_anchor submem_ops st prin tool op own_cap = Inr (pa_id origin, tree_pool_cap origin)"
    using assms(1-3)
    by (auto simp: in_tree_def pool_anchor_def submem_ops_def dest!: descends_attenuates)
  with key show ?thesis by (simp add: resolve_tree_pool_def)
qed

text \<open>Every member of a delegation tree charges one and the same counter, under one and the same cap.
  The root principal and every principal holding a sub-grant delegated from the root's grant, at any
  depth, resolve the same pool key and the root's pool cap; what a member passes as its own cap makes no
  difference to a descendant.\<close>

lemma tree_members_share_one_pool:
  assumes "in_tree H st chief origin prin cap" and "in_tree H st chief origin prin' cap'"
    and "root_grant_id chief (tool @ ''.'' @ op) = Inr (pa_id origin)"
    and "delegation_chain origin = []" and "CHR '':'' \<notin> set (pa_id origin)"
    and "period \<in> {UTC_DAY, UTC_HOUR}"
  shows "\<exists>k. resolve_tree_pool (Some (submem_ops, st)) now prin tool op cap period delta
        = Inr (Some \<lparr>draw_key = k, draw_delta = delta, draw_cap = tree_pool_cap origin\<rparr>)
    \<and> resolve_tree_pool (Some (submem_ops, st)) now prin' tool op cap' period delta'
        = Inr (Some \<lparr>draw_key = k, draw_delta = delta', draw_cap = tree_pool_cap origin\<rparr>)"
  using tree_member_pool [OF assms(1,3-6)] tree_member_pool [OF assms(2,3-6)] by blast

definition sample_tree :: InMemorySubGrantStore where
  "sample_tree = submem_save sample_sub_grant []"

lemma sample_in_tree:
  "in_tree (\<lambda>_. ''h'') sample_tree sample_principal sample_parent sample_child c"
  "in_tree (\<lambda>_. ''h'') sample_tree sample_principal sample_parent sample_principal 5"
proof -
  have "descends (\<lambda>_. ''h'') sample_parent sample_sub_grant" by (rule descends.first [OF sample_issue])
  then show "in_tree (\<lambda>_. ''h'') sample_tree sample_principal sample_parent sample_child c"
    by (simp add: in_tree_def submem_get_by_principal_def sample_tree_def submem_save_def
        delegation_samples)
  show "in_tree (\<lambda>_. ''h'') sample_tree sample_principal sample_parent sample_principal 5"
    by (simp add: in_tree_def submem_get_by_principal_def sample_tree_def submem_save_def
        delegation_samples sample_principal_def)
qed

lemma sample_anchor:
  "root_grant_id sample_principal (''email'' @ ''.'' @ ''send'') = Inr (pa_id sample_parent)"
  "delegation_chain sample_parent = []" "CHR '':'' \<notin> set (pa_id sample_parent)"
  by (simp_all add: root_grant_id_def sample_parent_def sample_principal_def principal_key_def
      tier_str_def GRANT_KEY_PREFIX_def)

lemma tree_members_share_one_pool_witness:
  "\<exists>k. resolve_tree_pool (Some (submem_ops, sample_tree)) 0 sample_child ''email'' ''send'' 3 UTC_DAY 1
        = Inr (Some \<lparr>draw_key = k, draw_delta = 1, draw_cap = tree_pool_cap sample_parent\<rparr>)
    \<and> resolve_tree_pool (Some (submem_ops, sample_tree)) 0 sample_principal ''email'' ''send'' 5 UTC_DAY 1
        = Inr (Some \<lparr>draw_key = k, draw_delta = 1, draw_cap = tree_pool_cap sample_parent\<rparr>)"
  by (rule tree_members_share_one_pool [OF sample_in_tree sample_anchor]) simp

text \<open>One principal, one derived authority. When the store holds two sub-grants for a principal, no pool
  is chosen for it: the resolution refuses.\<close>

lemma two_sub_grants_refused:
  assumes "submem_wf st" and "sg_id g \<noteq> sg_id h" and "sg_principal g = p" and "sg_principal h = p"
  shows "\<exists>m. resolve_tree_pool (Some (submem_ops, submem_save h (submem_save g st))) now p tool op cap
    period delta = Inl (AmbiguousSubGrantError m)"
  using submem.ambiguous_pool [OF assms] by (simp add: submem_ops_def)

lemma two_sub_grants_refused_witness:
  "\<exists>m. resolve_tree_pool (Some (submem_ops, submem_save (sample_sub_grant\<lparr>sg_id := ''sg-9''\<rparr>)
      (submem_save sample_sub_grant []))) 0 sample_child ''email'' ''send'' 3 UTC_DAY 1
    = Inl (AmbiguousSubGrantError m)"
  by (rule two_sub_grants_refused) (simp_all add: submem_wf_def delegation_samples)

text \<open>C31: a delegation tree never outspends its root's pool. Let any number of calls of the tree's members
  run concurrently through the enforcement machine, each drawing on what \<open>resolve_tree_pool\<close> gives its
  principal, in one period. In every reachable state the pool counter is its start value plus exactly the
  draws the members made on it, and it is at most the root's pool cap (or the start value, where that was
  larger). The bound spans all members together; it does not grow with their number.\<close>

theorem tree_spend_bounded:
  assumes "reachable mem_ops T s0 g"
    and "\<And>i. in_tree H st chief origin (bc_principal (rq_call (th_rq (T i)))) (own i)"
    and "\<And>i. resolve_tree_pool (Some (submem_ops, st)) now (bc_principal (rq_call (th_rq (T i))))
           tool op (own i) period (delta i) = Inr (Some (d i)) \<and> ancestor_draws (th_rq (T i)) = [d i]"
    and "root_grant_id chief (tool @ ''.'' @ op) = Inr (pa_id origin)"
    and "delegation_chain origin = []" and "CHR '':'' \<notin> set (pa_id origin)"
    and "period \<in> {UTC_DAY, UTC_HOUR}"
    and "\<And>i. counter_key (th_rq (T i)) \<noteq> pool_key origin tool op (period_format period now)"
  shows "read_counter mem_ops (shared g) (pool_key origin tool op (period_format period now))
       = read_counter mem_ops s0 (pool_key origin tool op (period_format period now))
         + drawn (pool_key origin tool op (period_format period now)) (log g)
    \<and> read_counter mem_ops (shared g) (pool_key origin tool op (period_format period now))
      \<le> max (read_counter mem_ops s0 (pool_key origin tool op (period_format period now)))
          (tree_pool_cap origin)"
proof -
  let ?q = "pool_key origin tool op (period_format period now)"
  have "ancestor_draws (th_rq (T i))
      = [\<lparr>draw_key = ?q, draw_delta = delta i, draw_cap = tree_pool_cap origin\<rparr>]" for i
    using tree_member_pool [OF assms(2) assms(4-7), of now i "delta i"] assms(3) [of i] by simp
  then have "capped_at T ?q (tree_pool_cap origin)"
    using assms(8) by (simp add: capped_at_def)
  from mem.reachable_budget_inv [OF assms(1) this] show ?thesis by (simp add: budget_inv_def)
qed

definition tree_threads :: "bool \<Rightarrow> thread" where
  "tree_threads b =
     (let t = pair_threads b;
          rq = th_rq t;
          c = (rq_call rq)\<lparr>bc_principal := (if b then sample_child else sample_principal)\<rparr>
      in t\<lparr>th_rq := rq\<lparr>rq_call := c, idempotency_key := None, ancestor_draws :=
             [\<lparr>draw_key = pool_key sample_parent ''email'' ''send'' (period_format UTC_DAY 0), draw_delta = 1,
               draw_cap = 5\<rparr>]\<rparr>\<rparr>)"

theorem tree_spend_bounded_witness:
  "let g = run_schedule mem_ops tree_threads [False, True, False, True, False, True, True]
              (system_start tree_threads mem_init);
       q = pool_key sample_parent ''email'' ''send'' (period_format UTC_DAY 0)
   in read_counter mem_ops (shared g) q = read_counter mem_ops mem_init q + drawn q (log g)
      \<and> read_counter mem_ops (shared g) q \<le> max (read_counter mem_ops mem_init q)
          (tree_pool_cap sample_parent)"
  unfolding Let_def
proof (rule tree_spend_bounded [where own = "\<lambda>_. 5" and delta = "\<lambda>_. 1" and H = "\<lambda>_. ''h''"
      and st = sample_tree and chief = sample_principal,
      OF reachable_from_start _ _ sample_anchor])
  fix i :: bool
  show tree: "in_tree (\<lambda>_. ''h'') sample_tree sample_principal sample_parent
      (bc_principal (rq_call (th_rq (tree_threads i)))) 5"
    by (simp add: tree_threads_def Let_def sample_in_tree)
  show "resolve_tree_pool (Some (submem_ops, sample_tree)) 0
      (bc_principal (rq_call (th_rq (tree_threads i)))) ''email'' ''send'' 5 UTC_DAY 1
    = Inr (Some \<lparr>draw_key = pool_key sample_parent ''email'' ''send'' (period_format UTC_DAY 0), draw_delta = 1,
               draw_cap = 5\<rparr>)
    \<and> ancestor_draws (th_rq (tree_threads i)) = [\<lparr>draw_key = pool_key sample_parent ''email'' ''send''
         (period_format UTC_DAY 0), draw_delta = 1, draw_cap = 5\<rparr>]"
    using tree_member_pool [OF tree sample_anchor, of UTC_DAY 0 1]
    by (simp add: tree_threads_def Let_def sample_parent_def)
  show "counter_key (th_rq (tree_threads i)) \<noteq> pool_key sample_parent ''email'' ''send'' (period_format UTC_DAY 0)"
    by (simp add: tree_threads_def Let_def pair_threads_def sample_rq_def pool_key_def)
qed simp

end
