(* ===== verification/Approval_Store.thy ===== *)
theory Approval_Store
  imports Clock_Skew Schemas
begin

text \<open>
  Held intents and their store (\<open>broker/schemas/intent.py\<close>, \<open>broker/approval/store.py\<close>,
  \<open>broker/approval/queue_guard.py\<close>). An intent's frozen half (identifier, call, rendering, expiry,
  creation instant) is serialized once, stored verbatim and authenticated by an HMAC; its lifecycle
  attributes (status, approver, execution instant, pending index) are item-level. A read verifies the
  stored bytes before it parses them.

  The stored bytes are a value of the type \<open>'p\<close>, which the store never looks into.
  What the source takes from libraries is the record \<open>codec\<close>: the canonical JSON of a frozen half, the two
  ways the payload is read back, and the HMAC under the store's key. The locale \<open>intent_codec\<close> states
  that reading inverts writing. The locale \<open>intent_store\<close> is the protocol's contract; every codec gives
  an in-memory store that satisfies it.
\<close>

section \<open>Intents\<close>

definition INTENT_STATUSES :: "string list" where
  "INTENT_STATUSES =
     [''pending'', ''approved'', ''rejected'', ''expired'', ''executed'', ''refused'', ''permitted'']"

record intent_frozen =
  fr_id :: string
  fr_call :: BrokeredCall
  fr_rendered :: string
  fr_expiry :: instant
  fr_ts :: instant

record Intent =
  in_id :: string
  materializedRequest :: BrokeredCall
  in_rendered :: string
  in_status :: string
  in_expiry :: instant
  approvedBy :: "string option"
  in_ts :: instant
  executedAt :: "instant option"

definition frozen_half :: "Intent \<Rightarrow> intent_frozen" where
  "frozen_half i =
     \<lparr>fr_id = in_id i, fr_call = materializedRequest i, fr_rendered = in_rendered i,
      fr_expiry = in_expiry i, fr_ts = in_ts i\<rparr>"

section \<open>Index keys and expiry epochs\<close>

definition PENDING_STATUS :: string where "PENDING_STATUS = ''pending''"

definition principal_index_key :: "Principal \<Rightarrow> string" where
  "principal_index_key p = agentId p @ ''#'' @ skill p @ ''#'' @ user p @ ''#'' @ tier_str (tier p)"

definition expiry_epoch :: "instant \<Rightarrow> int" where
  "expiry_epoch expiry = expiry div SECOND"

definition now_epoch :: "instant \<Rightarrow> int" where
  "now_epoch now = now div SECOND"

section \<open>Stored items\<close>

text \<open>\<open>data\<close> and \<open>intentHash\<close> are \<open>None\<close> when the attribute is missing or not a string; \<open>pendingExpiry\<close> is
  \<open>None\<close> when it is missing or not an integer.\<close>

record 'p intent_item =
  it_data :: "'p option"
  it_intentHash :: "string option"
  it_status :: string
  it_pendingPrincipal :: "string option"
  it_pendingExpiry :: "int option"
  it_approvedBy :: "string option"
  it_executedAt :: "instant option"

record 'p codec =
  dump_frozen :: "intent_frozen \<Rightarrow> 'p"
  payload_id :: "'p \<Rightarrow> exn + string option"
  payload_frozen :: "'p \<Rightarrow> exn + intent_frozen"
  hmac_payload :: "'p \<Rightarrow> string"

abbreviation QuarantinedIntentError :: "string \<Rightarrow> exn" where
  "QuarantinedIntentError m \<equiv> Exn ''QuarantinedIntentError'' m"

abbreviation IntentAlreadyPendingError :: "string \<Rightarrow> exn" where
  "IntentAlreadyPendingError m \<equiv> Exn ''IntentAlreadyPendingError'' m"

definition is_expiry_candidate :: "'p intent_item \<Rightarrow> string \<Rightarrow> int \<Rightarrow> bool" where
  "is_expiry_candidate it pk epoch =
     (if it_status it \<noteq> PENDING_STATUS then False
      else if it_pendingPrincipal it \<noteq> Some pk then False
      else (case it_pendingExpiry it of None \<Rightarrow> False | Some e \<Rightarrow> e \<le> epoch))"

definition canonical_intent_payload :: "'p codec \<Rightarrow> Intent \<Rightarrow> 'p" where
  "canonical_intent_payload C i = dump_frozen C (frozen_half i)"

definition intent_item_attrs :: "'p codec \<Rightarrow> Intent \<Rightarrow> 'p intent_item" where
  "intent_item_attrs C i =
     (let payload = canonical_intent_payload C i; pend = (in_status i = PENDING_STATUS) in
      \<lparr>it_data = Some payload, it_intentHash = Some (hmac_payload C payload),
       it_status = in_status i,
       it_pendingPrincipal =
         (if pend then Some (principal_index_key (bc_principal (materializedRequest i))) else None),
       it_pendingExpiry = (if pend then Some (expiry_epoch (in_expiry i)) else None),
       it_approvedBy = approvedBy i, it_executedAt = executedAt i\<rparr>)"

text \<open>Constructing an \<open>Intent\<close> validates its status.\<close>

definition mk_intent :: "intent_frozen \<Rightarrow> string \<Rightarrow> string option \<Rightarrow> instant option \<Rightarrow> exn + Intent" where
  "mk_intent f st by_whom exec_at =
     (if st \<in> set INTENT_STATUSES
      then Inr \<lparr>in_id = fr_id f, materializedRequest = fr_call f, in_rendered = fr_rendered f,
                in_status = st, in_expiry = fr_expiry f, approvedBy = by_whom, in_ts = fr_ts f,
                executedAt = exec_at\<rparr>
      else Inl (Exn ''ValidationError'' ''status''))"

definition intent_from_item :: "'p codec \<Rightarrow> string \<Rightarrow> 'p intent_item \<Rightarrow> exn + Intent" where
  "intent_from_item C iid it =
     (case (it_data it, it_intentHash it) of
        (Some dat, Some stored_hash) \<Rightarrow>
          if stored_hash \<noteq> hmac_payload C dat
          then Inl (QuarantinedIntentError ''HMAC mismatch over stored intent bytes'')
          else
            bind_r (payload_id C dat) (\<lambda>pid.
              if pid \<noteq> Some iid
              then Inl (QuarantinedIntentError ''stored payload identity does not match the row key'')
              else
                bind_r (payload_frozen C dat) (\<lambda>f.
                  mk_intent (f\<lparr>fr_id := iid\<rparr>) (it_status it) (it_approvedBy it)
                    (it_executedAt it)))
      | _ \<Rightarrow> Inl (QuarantinedIntentError ''stored item is missing its data or intentHash attribute''))"

section \<open>The protocol and the in-memory store\<close>

record 's IntentStore =
  put_intent :: "Intent \<Rightarrow> 's \<Rightarrow> exn + 's"
  get_intent :: "'s \<Rightarrow> string \<Rightarrow> exn + Intent option"
  transition_status ::
    "string \<Rightarrow> string \<Rightarrow> string \<Rightarrow> string option \<Rightarrow> instant option \<Rightarrow> 's \<Rightarrow> bool \<times> 's"
  expired_pending_candidates :: "'s \<Rightarrow> string \<Rightarrow> instant \<Rightarrow> string list"

type_synonym 'p InMemoryIntentStore = "(string, 'p intent_item) dict"

definition intmem_put_intent :: "'p codec \<Rightarrow> Intent \<Rightarrow> 'p InMemoryIntentStore \<Rightarrow> exn + 'p InMemoryIntentStore" where
  "intmem_put_intent C i s =
     (case map_of s (in_id i) of
        Some it \<Rightarrow>
          if it_status it = PENDING_STATUS then Inl (IntentAlreadyPendingError (in_id i))
          else Inr (AList.update (in_id i) (intent_item_attrs C i) s)
      | None \<Rightarrow> Inr (AList.update (in_id i) (intent_item_attrs C i) s))"

definition intmem_get_intent :: "'p codec \<Rightarrow> 'p InMemoryIntentStore \<Rightarrow> string \<Rightarrow> exn + Intent option" where
  "intmem_get_intent C s iid =
     (case map_of s iid of
        None \<Rightarrow> Inr None
      | Some it \<Rightarrow> bind_r (intent_from_item C iid it) (\<lambda>i. Inr (Some i)))"

definition apply_transition ::
  "string \<Rightarrow> string option \<Rightarrow> instant option \<Rightarrow> 'p intent_item \<Rightarrow> 'p intent_item" where
  "apply_transition new_status by_whom exec_at it =
     it\<lparr>it_status := new_status,
        it_approvedBy := (if by_whom \<noteq> None then by_whom else it_approvedBy it),
        it_executedAt := (if exec_at \<noteq> None then exec_at else it_executedAt it),
        it_pendingPrincipal := (if new_status \<noteq> PENDING_STATUS then None else it_pendingPrincipal it),
        it_pendingExpiry := (if new_status \<noteq> PENDING_STATUS then None else it_pendingExpiry it)\<rparr>"

definition intmem_transition_status ::
  "string \<Rightarrow> string \<Rightarrow> string \<Rightarrow> string option \<Rightarrow> instant option \<Rightarrow> 'p InMemoryIntentStore
     \<Rightarrow> bool \<times> 'p InMemoryIntentStore" where
  "intmem_transition_status iid expected_status new_status by_whom exec_at s =
     (case map_of s iid of
        None \<Rightarrow> (False, s)
      | Some it \<Rightarrow>
          if it_status it \<noteq> expected_status then (False, s)
          else (True, AList.update iid (apply_transition new_status by_whom exec_at it) s))"

definition intmem_expired_pending_candidates :: "'p InMemoryIntentStore \<Rightarrow> string \<Rightarrow> instant \<Rightarrow> string list" where
  "intmem_expired_pending_candidates s pk now =
     map fst (filter (\<lambda>(i, it). is_expiry_candidate it pk (now_epoch now)) s)"

definition intmem_ops :: "'p codec \<Rightarrow> 'p InMemoryIntentStore IntentStore" where
  "intmem_ops C =
     \<lparr>put_intent = intmem_put_intent C, get_intent = intmem_get_intent C,
      transition_status = intmem_transition_status,
      expired_pending_candidates = intmem_expired_pending_candidates\<rparr>"

section \<open>Queue de-amplification\<close>

definition DEDUP_PREFIX :: string where "DEDUP_PREFIX = ''intent-dedup-''"

definition HARNESS_TOOL :: string where "HARNESS_TOOL = ''harness-tool''"

definition HARNESS_HOLD_PREFIX :: string where "HARNESS_HOLD_PREFIX = ''intent-harness-''"

definition dedup_intent_id ::
  "(string \<Rightarrow> string) \<Rightarrow> Principal \<Rightarrow> string \<Rightarrow> string \<Rightarrow> string \<Rightarrow> string" where
  "dedup_intent_id sha256_hex prin tool op args_digest =
     DEDUP_PREFIX @ take 16 (sha256_hex (principal_key prin @ '':'' @ tool @ ''.'' @ op @ '':'' @ args_digest))"

definition harness_hold_intent_id ::
  "(string \<Rightarrow> string) \<Rightarrow> Principal \<Rightarrow> string \<Rightarrow> string \<Rightarrow> string" where
  "harness_hold_intent_id sha256_hex prin op input_digest =
     HARNESS_HOLD_PREFIX
     @ take 32 (sha256_hex (principal_key prin @ '':'' @ HARNESS_TOOL @ ''.'' @ op @ '':'' @ input_digest))"

definition is_flood :: "bool \<Rightarrow> bool" where
  "is_flood within_cap = (\<not> within_cap)"

section \<open>Contracts\<close>

text \<open>Reading a payload back inverts writing it.\<close>

locale intent_codec =
  fixes C :: "'p codec"
  assumes id_of_dump: "payload_id C (dump_frozen C f) = Inr (Some (fr_id f))"
    and load_of_dump: "payload_frozen C (dump_frozen C f) = Inr f"

definition moved :: "string \<Rightarrow> string option \<Rightarrow> instant option \<Rightarrow> Intent \<Rightarrow> Intent" where
  "moved new_status by_whom exec_at i =
     i\<lparr>in_status := new_status,
       approvedBy := (if by_whom \<noteq> None then by_whom else approvedBy i),
       executedAt := (if exec_at \<noteq> None then exec_at else executedAt i)\<rparr>"

lemma moved_simps [simp]:
  "in_status (moved st b x i) = st" "in_id (moved st b x i) = in_id i"
  "materializedRequest (moved st b x i) = materializedRequest i"
  "in_expiry (moved st b x i) = in_expiry i" "in_ts (moved st b x i) = in_ts i"
  "frozen_half (moved st b x i) = frozen_half i"
  by (simp_all add: moved_def frozen_half_def)

text \<open>\<open>view\<close> is what an honest reader sees under an identifier. A put never replaces a pending intent; a
  transition is a compare-and-set that changes lifecycle attributes only; the candidates of the sweep are
  the pending intents of a principal whose expiry second has come.\<close>

locale intent_store =
  fixes S :: "'s IntentStore"
    and wf :: "'s \<Rightarrow> bool"
    and view :: "'s \<Rightarrow> string \<rightharpoonup> Intent"
  assumes get_view: "wf s \<Longrightarrow> get_intent S s k = Inr (view s k)"
    and view_id: "wf s \<Longrightarrow> view s k = Some i \<Longrightarrow> in_id i = k"
    and put_refused:
      "wf s \<Longrightarrow> view s (in_id i) = Some j \<Longrightarrow> in_status j = PENDING_STATUS \<Longrightarrow>
         put_intent S i s = Inl (IntentAlreadyPendingError (in_id i))"
    and put_written:
      "wf s \<Longrightarrow> in_status i \<in> set INTENT_STATUSES \<Longrightarrow>
         (\<And>j. view s (in_id i) = Some j \<Longrightarrow> in_status j \<noteq> PENDING_STATUS) \<Longrightarrow>
         \<exists>s'. put_intent S i s = Inr s' \<and> view s' = (view s)(in_id i \<mapsto> i) \<and> wf s'"
    and transition_cas:
      "wf s \<Longrightarrow> new \<in> set INTENT_STATUSES \<Longrightarrow> new \<noteq> PENDING_STATUS \<Longrightarrow>
         transition_status S k expected new by_whom exec_at s = (b, s') \<Longrightarrow>
         wf s' \<and> b = (\<exists>i. view s k = Some i \<and> in_status i = expected)
         \<and> view s' = (if b then (view s)(k \<mapsto> moved new by_whom exec_at (the (view s k))) else view s)"
    and candidates_pending:
      "wf s \<Longrightarrow> k \<in> set (expired_pending_candidates S s pk now) \<longleftrightarrow>
         (\<exists>i. view s k = Some i \<and> in_status i = PENDING_STATUS
            \<and> principal_index_key (bc_principal (materializedRequest i)) = pk
            \<and> expiry_epoch (in_expiry i) \<le> now_epoch now)"
begin

text \<open>Two compare-and-sets out of one status: the second loses.\<close>

lemma second_transition_loses:
  assumes "wf s" and "new \<in> set INTENT_STATUSES" "new \<noteq> PENDING_STATUS"
    and "new' \<in> set INTENT_STATUSES" "new' \<noteq> PENDING_STATUS" and "new \<noteq> expected"
    and "transition_status S k expected new b x s = (True, s1)"
    and "transition_status S k expected new' b' x' s1 = (won, s2)"
  shows "\<not> won"
  using transition_cas [OF assms(1-3,7)] transition_cas [OF _ assms(4,5,8)] assms(6) by auto

text \<open>The index is a superset of what is due: rounding down never hides an expired hold.\<close>

lemma due_is_candidate:
  assumes "wf s" and "view s k = Some i" and "in_status i = PENDING_STATUS" and "in_expiry i \<le> now"
  shows "k \<in> set (expired_pending_candidates S s
    (principal_index_key (bc_principal (materializedRequest i))) now)"
  using assms by (auto simp: candidates_pending expiry_epoch_def now_epoch_def SECOND_def zdiv_mono1)

end

text \<open>A codec whose payload is the frozen half itself, authenticated by its identifier and rendering.\<close>

definition plain_codec :: "intent_frozen codec" where
  "plain_codec =
     \<lparr>dump_frozen = id, payload_id = (\<lambda>f. Inr (Some (fr_id f))), payload_frozen = Inr,
      hmac_payload = (\<lambda>f. fr_id f @ fr_rendered f)\<rparr>"

section \<open>The in-memory store keeps the contract\<close>

definition intmem_view :: "'p codec \<Rightarrow> 'p InMemoryIntentStore \<Rightarrow> string \<rightharpoonup> Intent" where
  "intmem_view C s k =
     (case map_of s k of
        None \<Rightarrow> None
      | Some it \<Rightarrow> (case intent_from_item C k it of Inl _ \<Rightarrow> None | Inr i \<Rightarrow> Some i))"

text \<open>Every row is what the broker wrote: the item of an intent, under its own identifier.\<close>

definition intmem_wf :: "'p codec \<Rightarrow> 'p InMemoryIntentStore \<Rightarrow> bool" where
  "intmem_wf C s \<longleftrightarrow> distinct (map fst s)
     \<and> (\<forall>k it. map_of s k = Some it \<longrightarrow>
          (\<exists>i. in_id i = k \<and> in_status i \<in> set INTENT_STATUSES \<and> it = intent_item_attrs C i))"

lemma pending_valid [simp]: "PENDING_STATUS \<in> set INTENT_STATUSES"
  by (simp add: PENDING_STATUS_def INTENT_STATUSES_def)

lemma item_attrs_status [simp]: "it_status (intent_item_attrs C i) = in_status i"
  by (simp add: intent_item_attrs_def Let_def)

lemma apply_transition_attrs:
  "new \<noteq> PENDING_STATUS \<Longrightarrow>
     apply_transition new b x (intent_item_attrs C i) = intent_item_attrs C (moved new b x i)"
  by (auto simp: apply_transition_def intent_item_attrs_def canonical_intent_payload_def Let_def
      moved_def frozen_half_def)

context intent_codec
begin

lemma from_item_attrs:
  "in_status i \<in> set INTENT_STATUSES \<Longrightarrow> intent_from_item C (in_id i) (intent_item_attrs C i) = Inr i"
  by (simp add: intent_from_item_def intent_item_attrs_def canonical_intent_payload_def Let_def
      id_of_dump load_of_dump mk_intent_def frozen_half_def)

lemma view_of_item:
  assumes "intmem_wf C s" and "map_of s k = Some it"
  obtains i where "intmem_view C s k = Some i" and "in_id i = k" and "it = intent_item_attrs C i"
    and "in_status i \<in> set INTENT_STATUSES" and "intent_from_item C k it = Inr i"
proof -
  obtain i where "in_id i = k" "in_status i \<in> set INTENT_STATUSES" "it = intent_item_attrs C i"
    using assms unfolding intmem_wf_def by blast
  with from_item_attrs [of i] assms(2) that show thesis by (simp add: intmem_view_def)
qed

lemma view_None: "map_of s k = None \<Longrightarrow> intmem_view C s k = None"
  by (simp add: intmem_view_def)

lemma view_update:
  assumes "in_status i \<in> set INTENT_STATUSES"
  shows "intmem_view C (AList.update (in_id i) (intent_item_attrs C i) s) = (intmem_view C s)(in_id i \<mapsto> i)"
  using from_item_attrs [OF assms] by (auto simp: intmem_view_def fun_eq_iff)

lemma wf_update:
  assumes "intmem_wf C s" and "in_status i \<in> set INTENT_STATUSES"
  shows "intmem_wf C (AList.update (in_id i) (intent_item_attrs C i) s)"
  using assms by (auto simp: intmem_wf_def distinct_update update_conv' split: if_splits)

end

sublocale intent_codec \<subseteq> intmem: intent_store "intmem_ops C" "intmem_wf C" "intmem_view C"
proof (unfold_locales, goal_cases)
  case (1 s k)
  show ?case
  proof (cases "map_of s k")
    case None
    then show ?thesis by (simp add: intmem_ops_def intmem_get_intent_def view_None)
  next
    case (Some it)
    from view_of_item [OF 1 Some] obtain i
      where "intmem_view C s k = Some i" "intent_from_item C k it = Inr i" by blast
    with Some show ?thesis by (simp add: intmem_ops_def intmem_get_intent_def)
  qed
next
  case (2 s k i)
  then obtain it where it: "map_of s k = Some it" by (cases "map_of s k") (auto simp: view_None)
  from view_of_item [OF 2(1) it] obtain j where "intmem_view C s k = Some j" "in_id j = k" by blast
  with 2(2) show ?case by simp
next
  case (3 s i j)
  then obtain it where it: "map_of s (in_id i) = Some it" by (cases "map_of s (in_id i)") (auto simp: view_None)
  from view_of_item [OF 3(1) it] obtain j' where "intmem_view C s (in_id i) = Some j'"
    "it = intent_item_attrs C j'" by blast
  with 3 it show ?case by (simp add: intmem_ops_def intmem_put_intent_def)
next
  case (4 s i)
  have "put_intent (intmem_ops C) i s = Inr (AList.update (in_id i) (intent_item_attrs C i) s)"
  proof (cases "map_of s (in_id i)")
    case None
    then show ?thesis by (simp add: intmem_ops_def intmem_put_intent_def)
  next
    case (Some it)
    from view_of_item [OF 4(1) Some] obtain j where "intmem_view C s (in_id i) = Some j"
      "it = intent_item_attrs C j" by blast
    with 4(3) Some show ?thesis by (simp add: intmem_ops_def intmem_put_intent_def)
  qed
  with view_update [OF 4(2)] wf_update [OF 4(1,2)] show ?case by simp
next
  case (5 s new k expected by_whom exec_at b s')
  show ?case
  proof (cases "map_of s k")
    case None
    with 5 show ?thesis by (auto simp: intmem_ops_def intmem_transition_status_def view_None)
  next
    case (Some it)
    from view_of_item [OF 5(1) Some] obtain i where i: "intmem_view C s k = Some i" "in_id i = k"
      "it = intent_item_attrs C i" "in_status i \<in> set INTENT_STATUSES" by blast
    let ?m = "moved new by_whom exec_at i"
    have "b = (in_status i = expected) \<and> s' = (if b then AList.update k (intent_item_attrs C ?m) s else s)"
      using 5(4) Some i(3) apply_transition_attrs [OF 5(3), of by_whom exec_at C i]
      by (auto simp: intmem_ops_def intmem_transition_status_def split: if_splits)
    with view_update [of ?m s] wf_update [OF 5(1), of ?m] 5(1,2) i(1,2) show ?thesis by auto
  qed
next
  case (6 s k pk now)
  have "k \<in> set (expired_pending_candidates (intmem_ops C) s pk now) \<longleftrightarrow>
      (\<exists>it. map_of s k = Some it \<and> is_expiry_candidate it pk (now_epoch now))"
  proof -
    have d: "distinct (map fst s)" using 6 by (simp add: intmem_wf_def)
    show ?thesis unfolding map_of_eq_Some_iff [OF d]
      by (force simp: intmem_ops_def intmem_expired_pending_candidates_def)
  qed
  also have "\<dots> \<longleftrightarrow> (\<exists>i. intmem_view C s k = Some i \<and> in_status i = PENDING_STATUS
      \<and> principal_index_key (bc_principal (materializedRequest i)) = pk
      \<and> expiry_epoch (in_expiry i) \<le> now_epoch now)"
  proof (cases "map_of s k")
    case None
    then show ?thesis by (simp add: view_None)
  next
    case (Some it)
    from view_of_item [OF 6 Some] obtain i where "intmem_view C s k = Some i" "it = intent_item_attrs C i"
      by blast
    with Some show ?thesis
      by (auto simp: is_expiry_candidate_def intent_item_attrs_def Let_def)
  qed
  finally show ?case .
qed

context intent_codec
begin

lemma intmem_contract: "intent_store (intmem_ops C) (intmem_wf C) (intmem_view C)" ..

end

lemma intmem_keeps_contract:
  assumes "intent_codec C"
  shows "intent_store (intmem_ops C) (intmem_wf C) (intmem_view C)"
  using assms by (rule intent_codec.intmem_contract)

interpretation plain: intent_codec plain_codec
  by unfold_locales (simp_all add: plain_codec_def)

end
