(* ===== verification/Approval.thy ===== *)
theory Approval
  imports Approval_Store
begin

text \<open>
  The approval engine (\<open>broker/approval/engine.py\<close>, \<open>broker/approval/types.py\<close>): holding a call as a
  pending intent, and the ways it leaves that state (a release that executes the frozen call, an approval
  for a harness to re-issue, a rejection, an expiry). Every operation is written once over any
  \<open>IntentStore\<close>; the lemmas are proved once inside \<open>intent_store\<close>, and the results reach the in-memory
  store through the codec locale. The clock, the notifier and the release executor are arguments; an
  operation returns its outcome (a result, or the exception it raises), the store, and what it did
  outside: the notifications it sent, or the calls it handed to the executor.
\<close>

section \<open>Types\<close>

record ApprovalResult =
  ar_status :: string
  ar_intent_id :: string

record NotifierEvent =
  ne_intent_id :: string
  ne_rendered_for_human :: string
  ne_expiry :: instant
  ne_ts :: instant

record ExecutionResult =
  ex_intent_id :: string
  ex_executed :: bool
  ex_result :: "json option"
  rejection_reason :: "string option"
  expired_by_this_call :: bool
  approved_for_reissue :: bool

definition REJECTED_BY_OWNER_REASON :: string where
  "REJECTED_BY_OWNER_REASON = ''rejected by owner''"

definition RELEASE_REFUSED_REASON_PREFIX :: string where
  "RELEASE_REFUSED_REASON_PREFIX = ''release refused''"

definition INTENT_EXPIRED_REASON :: string where
  "INTENT_EXPIRED_REASON = ''intent expired''"

definition APPROVED_FOR_REISSUE_REASON :: string where
  "APPROVED_FOR_REISSUE_REASON = ''approved; nothing was executed by the broker, and the harness's call will be permitted once when the harness asks again with the same input before the intent expires''"

abbreviation ReleaseRefusedError :: "string \<Rightarrow> exn" where
  "ReleaseRefusedError m \<equiv> Exn ''ReleaseRefusedError'' m"

section \<open>Helpers\<close>

definition is_expired :: "instant \<Rightarrow> instant \<Rightarrow> timedelta \<Rightarrow> exn + bool" where
  "is_expired expiry now skew = bind_r (end_judged_at now skew) (\<lambda>judged. Inr (judged \<ge> expiry))"

definition past_expiry :: "instant \<Rightarrow> instant \<Rightarrow> timedelta \<Rightarrow> exn + bool" where
  "past_expiry expiry now skew = is_expired expiry now skew"

definition exec_refusal :: "string \<Rightarrow> string \<Rightarrow> ExecutionResult" where
  "exec_refusal iid reason =
     \<lparr>ex_intent_id = iid, ex_executed = False, ex_result = None, rejection_reason = Some reason,
      expired_by_this_call = False, approved_for_reissue = False\<rparr>"

definition expired_result :: "'s IntentStore \<Rightarrow> string \<Rightarrow> 's \<Rightarrow> ExecutionResult \<times> 's" where
  "expired_result S iid s =
     (let (won, s') = transition_status S iid ''pending'' ''expired'' None None s in
      ((exec_refusal iid INTENT_EXPIRED_REASON)\<lparr>expired_by_this_call := won\<rparr>, s'))"

section \<open>Holding a call\<close>

definition pending_intent ::
  "string \<Rightarrow> BrokeredCall \<Rightarrow> RenderedIntent \<Rightarrow> instant \<Rightarrow> instant \<Rightarrow> Intent" where
  "pending_intent iid call rendered expiry now =
     \<lparr>in_id = iid, materializedRequest = call, in_rendered = renderedForHuman rendered,
      in_status = ''pending'', in_expiry = expiry, approvedBy = None, in_ts = now, executedAt = None\<rparr>"

definition notify ::
  "(NotifierEvent \<Rightarrow> exn + unit) option \<Rightarrow> Intent \<Rightarrow> 's \<Rightarrow> (exn + ApprovalResult) \<times> 's \<times> NotifierEvent list" where
  "notify notifier i s =
     (let res = \<lparr>ar_status = ''pending'', ar_intent_id = in_id i\<rparr>;
          ev = \<lparr>ne_intent_id = in_id i, ne_rendered_for_human = in_rendered i,
                ne_expiry = in_expiry i, ne_ts = in_ts i\<rparr>
      in case notifier of
           None \<Rightarrow> (Inr res, s, [])
         | Some send \<Rightarrow> (bind_r (send ev) (\<lambda>_. Inr res), s, [ev]))"

definition hold_intent ::
  "'s IntentStore \<Rightarrow> (NotifierEvent \<Rightarrow> exn + unit) option \<Rightarrow> string option \<Rightarrow> Intent \<Rightarrow> 's
     \<Rightarrow> (exn + ApprovalResult) \<times> 's \<times> NotifierEvent list" where
  "hold_intent S notifier dedup_id i s =
     (case put_intent S i s of
        Inl e \<Rightarrow>
          if exn_class e = ''IntentAlreadyPendingError'' \<and> dedup_id \<noteq> None
          then (Inr \<lparr>ar_status = ''coalesced'', ar_intent_id = in_id i\<rparr>, s, [])
          else (Inl e, s, [])
      | Inr s' \<Rightarrow> notify notifier i s')"

definition materialize ::
  "'s IntentStore \<Rightarrow> (NotifierEvent \<Rightarrow> exn + unit) option \<Rightarrow> BrokeredCall \<Rightarrow> RenderedIntent \<Rightarrow> int
     \<Rightarrow> string option \<Rightarrow> instant \<Rightarrow> 's \<Rightarrow> (exn + ApprovalResult) \<times> 's \<times> NotifierEvent list" where
  "materialize S notifier call rendered expiry_seconds dedup_id now s =
     (let iid = (case dedup_id of Some d \<Rightarrow> d | None \<Rightarrow> intent_id rendered);
          hold = (case dt_add now (expiry_seconds * SECOND) of
                    Inl e \<Rightarrow> (Inl e, s, [])
                  | Inr expiry \<Rightarrow>
                      hold_intent S notifier dedup_id (pending_intent iid call rendered expiry now) s)
      in case dedup_id of
           None \<Rightarrow> hold
         | Some d \<Rightarrow>
             (case get_intent S s d of
                Inl e \<Rightarrow> (Inl e, s, [])
              | Inr found \<Rightarrow>
                  (case found of
                     Some j \<Rightarrow>
                       if in_status j = ''pending''
                       then (Inr \<lparr>ar_status = ''coalesced'', ar_intent_id = d\<rparr>, s, []) else hold
                   | None \<Rightarrow> hold)))"

section \<open>Leaving the pending state\<close>

text \<open>The guard structure \<open>approve\<close>, \<open>approve_for_reissue\<close> and \<open>reject\<close> share: not found, past expiry, and
  the compare-and-set out of pending. \<open>Inr i\<close> hands back the intent as it was read.\<close>

definition not_pending :: "'s IntentStore \<Rightarrow> string \<Rightarrow> 's \<Rightarrow> exn + ExecutionResult" where
  "not_pending S iid s =
     bind_r (get_intent S s iid) (\<lambda>current.
       Inr (exec_refusal iid
         (''intent not pending (current status: ''
          @ (case current of Some j \<Rightarrow> in_status j | None \<Rightarrow> ''unknown'') @ '')'')))"

definition claim_pending ::
  "'s IntentStore \<Rightarrow> string \<Rightarrow> string \<Rightarrow> string \<Rightarrow> instant \<Rightarrow> timedelta \<Rightarrow> 's
     \<Rightarrow> (exn + (ExecutionResult + Intent)) \<times> 's" where
  "claim_pending S iid new_status by_whom now skew s =
     (case get_intent S s iid of
        Inl e \<Rightarrow> (Inl e, s)
      | Inr found \<Rightarrow>
        (case found of
           None \<Rightarrow> (Inr (Inl (exec_refusal iid ''intent not found'')), s)
         | Some i \<Rightarrow>
           (case is_expired (in_expiry i) now skew of
              Inl e \<Rightarrow> (Inl e, s)
            | Inr expired \<Rightarrow>
                if expired then (let (r, s') = expired_result S iid s in (Inr (Inl r), s'))
                else
                  (let (won, s') = transition_status S iid ''pending'' new_status (Some by_whom) None s in
                   if won then (Inr (Inr i), s')
                   else (map_sum id Inl (not_pending S iid s'), s')))))"

definition finish_release ::
  "'s IntentStore \<Rightarrow> string \<Rightarrow> instant \<Rightarrow> exn + json option \<Rightarrow> 's \<Rightarrow> (exn + ExecutionResult) \<times> 's" where
  "finish_release S iid exec_at outcome s =
     (case outcome of
        Inl e \<Rightarrow>
          if exn_class e = ''ReleaseRefusedError''
          then (Inr (exec_refusal iid (RELEASE_REFUSED_REASON_PREFIX @ '': '' @ exn_str e)),
                snd (transition_status S iid ''approved'' ''refused'' None None s))
          else (Inl e, s)
      | Inr res \<Rightarrow>
          (Inr \<lparr>ex_intent_id = iid, ex_executed = True, ex_result = res, rejection_reason = None,
                expired_by_this_call = False, approved_for_reissue = False\<rparr>,
           snd (transition_status S iid ''approved'' ''executed'' None (Some exec_at) s)))"

definition release ::
  "'s IntentStore \<Rightarrow> (BrokeredCall \<Rightarrow> exn + json) option \<Rightarrow> string \<Rightarrow> instant \<Rightarrow> Intent \<Rightarrow> 's
     \<Rightarrow> (exn + ExecutionResult) \<times> 's \<times> BrokeredCall list" where
  "release S run iid exec_at i s =
     (case run of
        None \<Rightarrow> (case finish_release S iid exec_at (Inr None) s of (r, s') \<Rightarrow> (r, s', []))
      | Some f \<Rightarrow>
          (case finish_release S iid exec_at (map_sum id Some (f (materializedRequest i))) s of
             (r, s') \<Rightarrow> (r, s', [materializedRequest i])))"

definition approve ::
  "'s IntentStore \<Rightarrow> (BrokeredCall \<Rightarrow> exn + json) option \<Rightarrow> string \<Rightarrow> string \<Rightarrow> instant \<Rightarrow> instant \<Rightarrow> timedelta
     \<Rightarrow> 's \<Rightarrow> (exn + ExecutionResult) \<times> 's \<times> BrokeredCall list" where
  "approve S run iid approved_by now exec_at skew s =
     (case claim_pending S iid ''approved'' approved_by now skew s of
        (Inl e, s') \<Rightarrow> (Inl e, s', [])
      | (Inr (Inl refusal), s') \<Rightarrow> (Inr refusal, s', [])
      | (Inr (Inr i), s') \<Rightarrow> release S run iid exec_at i s')"

definition approve_for_reissue ::
  "'s IntentStore \<Rightarrow> string \<Rightarrow> string \<Rightarrow> instant \<Rightarrow> timedelta \<Rightarrow> 's \<Rightarrow> (exn + ExecutionResult) \<times> 's" where
  "approve_for_reissue S iid approved_by now skew s =
     (case claim_pending S iid ''approved'' approved_by now skew s of
        (Inl e, s') \<Rightarrow> (Inl e, s')
      | (Inr (Inl refusal), s') \<Rightarrow> (Inr refusal, s')
      | (Inr (Inr i), s') \<Rightarrow>
          (Inr ((exec_refusal iid APPROVED_FOR_REISSUE_REASON)\<lparr>approved_for_reissue := True\<rparr>), s'))"

definition reject ::
  "'s IntentStore \<Rightarrow> string \<Rightarrow> string \<Rightarrow> instant \<Rightarrow> 's \<Rightarrow> (exn + ExecutionResult) \<times> 's" where
  "reject S iid rejected_by now s =
     (case claim_pending S iid ''rejected'' rejected_by now ZERO_SKEW s of
        (Inl e, s') \<Rightarrow> (Inl e, s')
      | (Inr (Inl refusal), s') \<Rightarrow> (Inr refusal, s')
      | (Inr (Inr i), s') \<Rightarrow> (Inr (exec_refusal iid REJECTED_BY_OWNER_REASON), s'))"

definition expire_if_due :: "'s IntentStore \<Rightarrow> Intent \<Rightarrow> instant \<Rightarrow> 's \<Rightarrow> (exn + bool) \<times> 's" where
  "expire_if_due S i now s =
     (if in_status i \<noteq> ''pending'' then (Inr False, s)
      else
        (case is_expired (in_expiry i) now ZERO_SKEW of
           Inl e \<Rightarrow> (Inl e, s)
         | Inr due \<Rightarrow>
             if \<not> due then (Inr False, s)
             else (let (won, s') = transition_status S (in_id i) ''pending'' ''expired'' None None s
                   in (Inr won, s'))))"

section \<open>The engine over any store that keeps the contract\<close>

text \<open>How a release ends, by what the executor did.\<close>

fun release_end :: "string \<Rightarrow> instant \<Rightarrow> exn + json \<Rightarrow> Intent \<Rightarrow> Intent" where
  "release_end b ea (Inr res) i = moved ''executed'' None (Some ea) (moved ''approved'' (Some b) None i)"
| "release_end b ea (Inl e) i =
     (if exn_class e = ''ReleaseRefusedError''
      then moved ''refused'' None None (moved ''approved'' (Some b) None i)
      else moved ''approved'' (Some b) None i)"

fun release_result :: "string \<Rightarrow> exn + json \<Rightarrow> exn + ExecutionResult" where
  "release_result k (Inr res) =
     Inr \<lparr>ex_intent_id = k, ex_executed = True, ex_result = Some res, rejection_reason = None,
          expired_by_this_call = False, approved_for_reissue = False\<rparr>"
| "release_result k (Inl e) =
     (if exn_class e = ''ReleaseRefusedError''
      then Inr (exec_refusal k (RELEASE_REFUSED_REASON_PREFIX @ '': '' @ exn_str e)) else Inl e)"

lemma lifecycle_statuses [simp]:
  "''approved'' \<in> set INTENT_STATUSES" "''rejected'' \<in> set INTENT_STATUSES"
  "''expired'' \<in> set INTENT_STATUSES" "''executed'' \<in> set INTENT_STATUSES"
  "''refused'' \<in> set INTENT_STATUSES"
  "''approved'' \<noteq> PENDING_STATUS" "''rejected'' \<noteq> PENDING_STATUS" "''expired'' \<noteq> PENDING_STATUS"
  "''executed'' \<noteq> PENDING_STATUS" "''refused'' \<noteq> PENDING_STATUS"
  by (simp_all add: INTENT_STATUSES_def PENDING_STATUS_def)

context intent_store
begin

lemma cas_view:
  assumes "wf s" and "new \<in> set INTENT_STATUSES" "new \<noteq> PENDING_STATUS"
    and "view s k = Some i" and "in_status i = expected"
  shows "\<exists>s'. transition_status S k expected new b x s = (True, s')
    \<and> wf s' \<and> view s' = (view s)(k \<mapsto> moved new b x i)"
proof -
  obtain won s' where t: "transition_status S k expected new b x s = (won, s')" by fastforce
  from transition_cas [OF assms(1-3) t] assms(4,5) t show ?thesis by auto
qed

lemma cas_lost:
  assumes "wf s" and "new \<in> set INTENT_STATUSES" "new \<noteq> PENDING_STATUS"
    and "\<And>i. view s k = Some i \<Longrightarrow> in_status i \<noteq> expected"
  shows "\<exists>s'. transition_status S k expected new b x s = (False, s') \<and> wf s' \<and> view s' = view s"
proof -
  obtain won s' where t: "transition_status S k expected new b x s = (won, s')" by fastforce
  have "\<not> won" using transition_cas [OF assms(1-3) t] assms(4) by blast
  with transition_cas [OF assms(1-3) t] t show ?thesis by simp
qed

text \<open>A release by an executor, from a pending and unexpired intent.\<close>

lemma release_from_approved:
  assumes "wf s" and "view s k = Some (moved ''approved'' (Some b) None i)"
  shows "\<exists>s'. release S (Some f) k ea i s
      = (release_result k (f (materializedRequest i)), s', [materializedRequest i])
    \<and> wf s' \<and> view s' = (view s)(k \<mapsto> release_end b ea (f (materializedRequest i)) i)"
proof (cases "f (materializedRequest i)")
  case (Inl e)
  show ?thesis
  proof (cases "exn_class e = ''ReleaseRefusedError''")
    case True
    obtain s' where t: "transition_status S k ''approved'' ''refused'' None None s = (True, s')"
      "wf s'" "view s' = (view s)(k \<mapsto> moved ''refused'' None None (moved ''approved'' (Some b) None i))"
      using cas_view [OF assms(1) lifecycle_statuses(5,10) assms(2), of "''approved''" None None] by auto
    with True Inl show ?thesis by (simp add: release_def finish_release_def)
  next
    case False
    with Inl assms show ?thesis by (auto simp: release_def finish_release_def)
  qed
next
  case (Inr res)
  obtain s' where t: "transition_status S k ''approved'' ''executed'' None (Some ea) s = (True, s')"
    "wf s'" "view s' = (view s)(k \<mapsto> moved ''executed'' None (Some ea) (moved ''approved'' (Some b) None i))"
    using cas_view [OF assms(1) lifecycle_statuses(4,9) assms(2), of "''approved''" None "Some ea"] by auto
  with Inr show ?thesis by (simp add: release_def finish_release_def)
qed

lemma approve_cases:
  assumes wf: "wf s" and judged: "end_judged_at now skew = Inr j"
  shows "\<exists>s'. wf s' \<and>
    (case view s k of
       None \<Rightarrow> approve S (Some f) k b now ea skew s = (Inr (exec_refusal k ''intent not found''), s', [])
         \<and> view s' = view s
     | Some i \<Rightarrow>
         if in_expiry i \<le> j then
           approve S (Some f) k b now ea skew s =
             (Inr ((exec_refusal k INTENT_EXPIRED_REASON)
                \<lparr>expired_by_this_call := (in_status i = ''pending'')\<rparr>), s', [])
           \<and> view s' = (if in_status i = ''pending'' then (view s)(k \<mapsto> moved ''expired'' None None i)
                        else view s)
         else if in_status i \<noteq> ''pending'' then
           approve S (Some f) k b now ea skew s =
             (Inr (exec_refusal k (''intent not pending (current status: '' @ in_status i @ '')'')), s', [])
           \<and> view s' = view s
         else
           approve S (Some f) k b now ea skew s =
             (release_result k (f (materializedRequest i)), s', [materializedRequest i])
           \<and> view s' = (view s)(k \<mapsto> release_end b ea (f (materializedRequest i)) i))"
proof (cases "view s k")
  case None
  with wf show ?thesis by (auto simp: approve_def claim_pending_def get_view)
next
  case (Some i)
  have get: "get_intent S s k = Inr (Some i)" using Some wf by (simp add: get_view)
  have exp: "is_expired (in_expiry i) now skew = Inr (in_expiry i \<le> j)"
    by (simp add: is_expired_def judged)
  consider (late) "in_expiry i \<le> j" "in_status i = ''pending''"
    | (late_resolved) "in_expiry i \<le> j" "in_status i \<noteq> ''pending''"
    | (resolved) "\<not> in_expiry i \<le> j" "in_status i \<noteq> ''pending''"
    | (open_hold) "\<not> in_expiry i \<le> j" "in_status i = ''pending''" by blast
  then show ?thesis
  proof cases
    case late
    obtain s' where "transition_status S k ''pending'' ''expired'' None None s = (True, s')" "wf s'"
      "view s' = (view s)(k \<mapsto> moved ''expired'' None None i)"
      using cas_view [OF wf lifecycle_statuses(3,8) Some late(2), of None None] by blast
    with late Some get exp show ?thesis
      by (auto simp: approve_def claim_pending_def expired_result_def)
  next
    case late_resolved
    obtain s' where "transition_status S k ''pending'' ''expired'' None None s = (False, s')" "wf s'"
      "view s' = view s"
      using cas_lost [OF wf lifecycle_statuses(3,8), of k "''pending''" None None] Some late_resolved by auto
    with late_resolved Some get exp show ?thesis
      by (auto simp: approve_def claim_pending_def expired_result_def)
  next
    case resolved
    obtain s' where t: "transition_status S k ''pending'' ''approved'' (Some b) None s = (False, s')" "wf s'"
      "view s' = view s"
      using cas_lost [OF wf lifecycle_statuses(1,6), of k "''pending''" "Some b" None] Some resolved by auto
    then have "get_intent S s' k = Inr (Some i)" using Some by (simp add: get_view)
    with t resolved Some get exp show ?thesis
      by (auto simp: approve_def claim_pending_def not_pending_def)
  next
    case open_hold
    obtain s1 where t: "transition_status S k ''pending'' ''approved'' (Some b) None s = (True, s1)" "wf s1"
      "view s1 = (view s)(k \<mapsto> moved ''approved'' (Some b) None i)"
      using cas_view [OF wf lifecycle_statuses(1,6) Some open_hold(2), of "Some b" None] by blast
    with release_from_approved [OF t(2), of k b i f ea] open_hold Some get exp show ?thesis
      by (auto simp: approve_def claim_pending_def)
  qed
qed

text \<open>Holding: a pending intent is never replaced.\<close>

lemma materialize_holds:
  assumes wf: "wf s" and expiry: "dt_add now (es * SECOND) = Inr expiry"
    and k: "k = (case dd of Some d \<Rightarrow> d | None \<Rightarrow> intent_id r)"
  shows "\<exists>s'. wf s' \<and>
    (if \<exists>i. view s k = Some i \<and> in_status i = ''pending'' then
       materialize S None c r es dd now s =
         ((if dd = None then Inl (IntentAlreadyPendingError k)
           else Inr \<lparr>ar_status = ''coalesced'', ar_intent_id = k\<rparr>), s', [])
       \<and> view s' = view s
     else
       materialize S None c r es dd now s = (Inr \<lparr>ar_status = ''pending'', ar_intent_id = k\<rparr>, s', [])
       \<and> view s' = (view s)(k \<mapsto> pending_intent k c r expiry now))"
proof (cases "\<exists>i. view s k = Some i \<and> in_status i = ''pending''")
  case True
  then obtain i where i: "view s k = Some i" "in_status i = ''pending''" by blast
  let ?p = "pending_intent k c r expiry now"
  have "put_intent S ?p s = Inl (IntentAlreadyPendingError k)"
    using put_refused [OF wf, of ?p i] i by (simp add: pending_intent_def PENDING_STATUS_def)
  with True i wf k expiry show ?thesis
    by (cases dd) (auto simp: materialize_def hold_intent_def get_view Let_def)
next
  case False
  let ?p = "pending_intent k c r expiry now"
  have p: "in_id ?p = k" "in_status ?p = ''pending''" by (simp_all add: pending_intent_def)
  have "in_status ?p \<in> set INTENT_STATUSES" by (simp add: p INTENT_STATUSES_def)
  from put_written [OF wf this] False p obtain s'
    where put: "put_intent S ?p s = Inr s'" "view s' = (view s)(k \<mapsto> ?p)" "wf s'"
    by (auto simp: PENDING_STATUS_def)
  show ?thesis
  proof (cases dd)
    case None
    with put False k expiry p show ?thesis
      by (auto simp: materialize_def hold_intent_def notify_def Let_def)
  next
    case (Some d)
    with put False k expiry p wf show ?thesis
      by (cases "view s d") (auto simp: materialize_def hold_intent_def notify_def get_view Let_def)
  qed
qed

end

section \<open>What an approval releases\<close>

definition sample_held :: "intent_frozen InMemoryIntentStore" where
  "sample_held =
     fst (snd (materialize (intmem_ops plain_codec) None (sample_call sample_send True)
       \<lparr>intent_id = ''intent-1'', renderedForHuman = ''send it''\<rparr> 3600 None 0 []))"

definition sample_pending :: Intent where
  "sample_pending =
     pending_intent ''intent-1'' (sample_call sample_send True)
       \<lparr>intent_id = ''intent-1'', renderedForHuman = ''send it''\<rparr> (3600 * SECOND) 0"

lemma sample_held_eq: "sample_held = [(''intent-1'', intent_item_attrs plain_codec sample_pending)]"
  by (simp add: sample_held_def materialize_def hold_intent_def notify_def pending_intent_def intmem_ops_def
      intmem_put_intent_def dt_add_def DATETIME_MIN_def DATETIME_MAX_def SECOND_def sample_pending_def
      Let_def)

lemma sample_held_wf: "intmem_wf plain_codec sample_held"
proof -
  have "in_id sample_pending = ''intent-1''" "in_status sample_pending \<in> set INTENT_STATUSES"
    by (simp_all add: sample_pending_def pending_intent_def INTENT_STATUSES_def)
  then show ?thesis unfolding intmem_wf_def sample_held_eq by (auto split: if_splits)
qed

lemma sample_held_view: "intmem_view plain_codec sample_held ''intent-1'' = Some sample_pending"
  using plain.from_item_attrs [of sample_pending]
  by (simp add: intmem_view_def sample_held_eq sample_pending_def pending_intent_def INTENT_STATUSES_def)

text \<open>What one approval does, on every branch. With the clock inside the datetime range, an unknown
  identifier and an intent that already left the pending state are refused with nothing changed; an
  intent at or past its expiry is moved to expired (and the answer says whether this call moved it); a
  pending, unexpired one is approved and exactly its frozen call is handed to the executor once: a normal
  return ends in executed, a refusal of the release in refused, and any other exception of the executor
  propagates and leaves the intent approved.\<close>

lemma approve_outcome:
  assumes "intent_codec C" and "intmem_wf C s" and "end_judged_at now skew = Inr j"
  shows "\<exists>s'. intmem_wf C s' \<and>
    (case intmem_view C s k of
       None \<Rightarrow>
         approve (intmem_ops C) (Some f) k b now ea skew s =
           (Inr (exec_refusal k ''intent not found''), s', [])
         \<and> intmem_view C s' = intmem_view C s
     | Some i \<Rightarrow>
         if in_expiry i \<le> j then
           approve (intmem_ops C) (Some f) k b now ea skew s =
             (Inr ((exec_refusal k INTENT_EXPIRED_REASON)
                \<lparr>expired_by_this_call := (in_status i = ''pending'')\<rparr>), s', [])
           \<and> intmem_view C s' =
               (if in_status i = ''pending'' then (intmem_view C s)(k \<mapsto> moved ''expired'' None None i)
                else intmem_view C s)
         else if in_status i \<noteq> ''pending'' then
           approve (intmem_ops C) (Some f) k b now ea skew s =
             (Inr (exec_refusal k (''intent not pending (current status: '' @ in_status i @ '')'')), s', [])
           \<and> intmem_view C s' = intmem_view C s
         else
           approve (intmem_ops C) (Some f) k b now ea skew s =
             (release_result k (f (materializedRequest i)), s', [materializedRequest i])
           \<and> intmem_view C s' = (intmem_view C s)(k \<mapsto> release_end b ea (f (materializedRequest i)) i))"
proof -
  from assms(1) have "intent_store (intmem_ops C) (intmem_wf C) (intmem_view C)"
    by (rule intmem_keeps_contract)
  from intent_store.approve_cases [OF this assms(2,3)] show ?thesis .
qed

lemma approve_outcome_witness:
  "\<exists>s'. approve (intmem_ops plain_codec) (Some (\<lambda>c. Inr (JStr (bc_op c)))) ''intent-1'' ''alice'' 60000000
         61000000 0 sample_held
       = (release_result ''intent-1'' (Inr (JStr ''send'')), s', [sample_call sample_send True])"
proof -
  have "end_judged_at 60000000 0 = Inr 60000000"
    by (simp add: end_judged_at_Inr_iff DATETIME_MIN_def DATETIME_MAX_def DAY_def)
  from approve_outcome [OF plain.intent_codec_axioms sample_held_wf this, where k = "''intent-1''"
      and f = "\<lambda>c. Inr (JStr (bc_op c))" and b = "''alice''" and ea = 61000000]
  show ?thesis
    by (auto simp: sample_held_view sample_pending_def pending_intent_def SECOND_def sample_call_def sample_send_def)
qed

text \<open>A hold is never overwritten. While a pending intent is stored under an identifier, a second hold
  under it writes nothing and notifies no one: with a caller-supplied identifier it coalesces into the
  first, without one it raises. Otherwise exactly the new pending intent is stored.\<close>

lemma hold_never_overwritten:
  assumes "intent_codec C" and "intmem_wf C s" and "dt_add now (es * SECOND) = Inr expiry"
    and "k = (case dd of Some d \<Rightarrow> d | None \<Rightarrow> intent_id r)"
  shows "\<exists>s'. intmem_wf C s' \<and>
    (if \<exists>i. intmem_view C s k = Some i \<and> in_status i = ''pending'' then
       materialize (intmem_ops C) None c r es dd now s =
         ((if dd = None then Inl (IntentAlreadyPendingError k)
           else Inr \<lparr>ar_status = ''coalesced'', ar_intent_id = k\<rparr>), s', [])
       \<and> intmem_view C s' = intmem_view C s
     else
       materialize (intmem_ops C) None c r es dd now s =
         (Inr \<lparr>ar_status = ''pending'', ar_intent_id = k\<rparr>, s', [])
       \<and> intmem_view C s' = (intmem_view C s)(k \<mapsto> pending_intent k c r expiry now))"
proof -
  from assms(1) have "intent_store (intmem_ops C) (intmem_wf C) (intmem_view C)"
    by (rule intmem_keeps_contract)
  from intent_store.materialize_holds [OF this assms(2-4)] show ?thesis .
qed

lemma hold_never_overwritten_witness:
  "\<exists>s'. materialize (intmem_ops plain_codec) None (sample_call sample_note False)
       \<lparr>intent_id = ''intent-2'', renderedForHuman = ''note''\<rparr> 60 (Some ''intent-1'') 1000000 sample_held
       = (Inr \<lparr>ar_status = ''coalesced'', ar_intent_id = ''intent-1''\<rparr>, s', [])
     \<and> intmem_view plain_codec s' = intmem_view plain_codec sample_held"
proof -
  have "dt_add 1000000 (60 * SECOND) = Inr 61000000"
    by (simp add: dt_add_def DATETIME_MIN_def DATETIME_MAX_def SECOND_def)
  from hold_never_overwritten [OF plain.intent_codec_axioms sample_held_wf this, where k = "''intent-1''"
      and dd = "Some ''intent-1''" and r = "\<lparr>intent_id = ''intent-2'', renderedForHuman = ''note''\<rparr>"
      and c = "sample_call sample_note False"]
  show ?thesis by (auto simp: sample_held_view sample_pending_def pending_intent_def)
qed

section \<open>Tampered rows\<close>


lemma map_sum_Inl_not_won [simp]: "map_sum id Inl x \<noteq> Inr (Inr y)"
  by (cases x) auto




end
