(* ===== verification/Approval_Concurrency.thy ===== *)
theory Approval_Concurrency
  imports Approval
begin

text \<open>
  Concurrent use of the approval engine. Each operation is a thread whose program counter stands before
  one atomic store operation (or the executor); any number of threads share one store and interleave
  arbitrarily, and a log records the holds, the decisions that won their compare-and-set, and the
  executions. Running one operation alone through the machine is the sequential engine, so the machine
  adds only the points where others may run.

  The results: every hold is resolved at most once and executed at most once, and what is executed was
  frozen by a hold under that identifier, under every interleaving; and the call that is executed may be
  one that was already rejected when its identifier was held again between the read and the
  compare-and-set of an approval.
\<close>

section \<open>Operations and program counters\<close>

datatype aop =
    Hold "(NotifierEvent \<Rightarrow> exn + unit) option" BrokeredCall RenderedIntent int "string option" instant
  | Approve "(BrokeredCall \<Rightarrow> exn + json) option" string string instant instant timedelta
  | Reissue string string instant timedelta
  | Reject string string instant
  | Expire Intent instant

datatype outcome =
    OHold "exn + ApprovalResult"
  | OAct "exn + ExecutionResult"
  | OExpire "exn + bool"

datatype apc =
    AStart                                  \<comment> \<open>before the first read\<close>
  | APut Intent                             \<comment> \<open>before \<open>put_intent\<close>\<close>
  | AClaim Intent                           \<comment> \<open>read and unexpired, before the compare-and-set out of pending\<close>
  | ALate                                   \<comment> \<open>past expiry, before the compare-and-set to expired\<close>
  | AReread                                 \<comment> \<open>lost the compare-and-set, before the second read\<close>
  | AExec Intent                            \<comment> \<open>claimed, before the executor\<close>
  | AFinish "exn + json option"             \<comment> \<open>before the last transition\<close>
  | ADone outcome

datatype aevent =
    EvHeld string BrokeredCall
  | EvApproved string
  | EvRejected string
  | EvExpired string
  | EvExecuted string BrokeredCall

fun op_id :: "aop \<Rightarrow> string" where
  "op_id (Hold n c r es dd now) = (case dd of Some d \<Rightarrow> d | None \<Rightarrow> intent_id r)"
| "op_id (Approve f iid by_whom now ea skew) = iid"
| "op_id (Reissue iid by_whom now skew) = iid"
| "op_id (Reject iid by_whom now) = iid"
| "op_id (Expire i now) = in_id i"

section \<open>Steps\<close>

definition start_hold :: "aop \<Rightarrow> apc" where
  "start_hold p =
     (case p of
        Hold n c r es dd now \<Rightarrow>
          (case dt_add now (es * SECOND) of
             Inl e \<Rightarrow> ADone (OHold (Inl e))
           | Inr expiry \<Rightarrow> APut (pending_intent (op_id p) c r expiry now))
      | _ \<Rightarrow> AStart)"

definition start_claim :: "string \<Rightarrow> instant \<Rightarrow> timedelta \<Rightarrow> exn + Intent option \<Rightarrow> apc" where
  "start_claim iid now skew found =
     (case found of
        Inl e \<Rightarrow> ADone (OAct (Inl e))
      | Inr None \<Rightarrow> ADone (OAct (Inr (exec_refusal iid ''intent not found'')))
      | Inr (Some i) \<Rightarrow>
          (case is_expired (in_expiry i) now skew of
             Inl e \<Rightarrow> ADone (OAct (Inl e))
           | Inr expired \<Rightarrow> if expired then ALate else AClaim i))"

fun astart :: "'s IntentStore \<Rightarrow> aop \<Rightarrow> 's \<Rightarrow> apc" where
  "astart S (Hold n c r es dd now) s =
     (case dd of
        None \<Rightarrow> start_hold (Hold n c r es dd now)
      | Some d \<Rightarrow>
        (case get_intent S s d of
           Inl e \<Rightarrow> ADone (OHold (Inl e))
         | Inr (Some j) \<Rightarrow>
             if in_status j = ''pending''
             then ADone (OHold (Inr \<lparr>ar_status = ''coalesced'', ar_intent_id = d\<rparr>))
             else start_hold (Hold n c r es dd now)
         | Inr None \<Rightarrow> start_hold (Hold n c r es dd now)))"
| "astart S (Approve f iid by_whom now ea skew) s = start_claim iid now skew (get_intent S s iid)"
| "astart S (Reissue iid by_whom now skew) s = start_claim iid now skew (get_intent S s iid)"
| "astart S (Reject iid by_whom now) s = start_claim iid now ZERO_SKEW (get_intent S s iid)"
| "astart S (Expire i now) s =
     (if in_status i \<noteq> ''pending'' then ADone (OExpire (Inr False))
      else
        (case is_expired (in_expiry i) now ZERO_SKEW of
           Inl e \<Rightarrow> ADone (OExpire (Inl e))
         | Inr due \<Rightarrow> if due then ALate else ADone (OExpire (Inr False))))"

text \<open>The compare-and-set out of pending: the status it sets, who by, what it logs, and what follows a win.\<close>

fun claim_status :: "aop \<Rightarrow> string" where
  "claim_status (Reject iid by_whom now) = ''rejected''"
| "claim_status p = ''approved''"

fun claim_by :: "aop \<Rightarrow> string" where
  "claim_by (Approve f iid by_whom now ea skew) = by_whom"
| "claim_by (Reissue iid by_whom now skew) = by_whom"
| "claim_by (Reject iid by_whom now) = by_whom"
| "claim_by p = ''''"

fun claim_event :: "aop \<Rightarrow> aevent" where
  "claim_event (Reject iid by_whom now) = EvRejected iid"
| "claim_event p = EvApproved (op_id p)"

fun after_claim :: "aop \<Rightarrow> Intent \<Rightarrow> apc" where
  "after_claim (Approve f iid by_whom now ea skew) i = AExec i"
| "after_claim (Reissue iid by_whom now skew) i =
     ADone (OAct (Inr ((exec_refusal iid APPROVED_FOR_REISSUE_REASON)\<lparr>approved_for_reissue := True\<rparr>)))"
| "after_claim (Reject iid by_whom now) i = ADone (OAct (Inr (exec_refusal iid REJECTED_BY_OWNER_REASON)))"
| "after_claim p i = ADone (OExpire (Inr False))"

fun hold_notifier :: "aop \<Rightarrow> (NotifierEvent \<Rightarrow> exn + unit) option" where
  "hold_notifier (Hold n c r es dd now) = n"
| "hold_notifier p = None"

fun hold_dedup :: "aop \<Rightarrow> string option" where
  "hold_dedup (Hold n c r es dd now) = dd"
| "hold_dedup p = None"

fun release_run :: "aop \<Rightarrow> (BrokeredCall \<Rightarrow> exn + json) option" where
  "release_run (Approve f iid by_whom now ea skew) = f"
| "release_run p = None"

fun exec_instant :: "aop \<Rightarrow> instant" where
  "exec_instant (Approve f iid by_whom now ea skew) = ea"
| "exec_instant p = 0"

definition put_step :: "'s IntentStore \<Rightarrow> aop \<Rightarrow> Intent \<Rightarrow> 's \<Rightarrow> apc \<times> 's \<times> aevent list" where
  "put_step S p i s =
     (case put_intent S i s of
        Inl e \<Rightarrow>
          (ADone (OHold (if exn_class e = ''IntentAlreadyPendingError'' \<and> hold_dedup p \<noteq> None
             then Inr \<lparr>ar_status = ''coalesced'', ar_intent_id = in_id i\<rparr> else Inl e)), s, [])
      | Inr s' \<Rightarrow>
          (ADone (OHold (fst (notify (hold_notifier p) i s'))), s',
           [EvHeld (in_id i) (materializedRequest i)]))"

definition late_step :: "'s IntentStore \<Rightarrow> aop \<Rightarrow> 's \<Rightarrow> apc \<times> 's \<times> aevent list" where
  "late_step S p s =
     (let (won, s') = transition_status S (op_id p) ''pending'' ''expired'' None None s in
      (ADone (case p of
                Expire _ _ \<Rightarrow> OExpire (Inr won)
              | _ \<Rightarrow> OAct (Inr ((exec_refusal (op_id p) INTENT_EXPIRED_REASON)\<lparr>expired_by_this_call := won\<rparr>))),
       s', if won then [EvExpired (op_id p)] else []))"

fun astep :: "'s IntentStore \<Rightarrow> aop \<Rightarrow> apc \<Rightarrow> 's \<Rightarrow> apc \<times> 's \<times> aevent list" where
  "astep S p AStart s = (astart S p s, s, [])"
| "astep S p (APut i) s = put_step S p i s"
| "astep S p (AClaim i) s =
     (let (won, s') = transition_status S (op_id p) ''pending'' (claim_status p) (Some (claim_by p)) None s in
      if won then (after_claim p i, s', [claim_event p]) else (AReread, s', []))"
| "astep S p ALate s = late_step S p s"
| "astep S p AReread s = (ADone (OAct (not_pending S (op_id p) s)), s, [])"
| "astep S p (AExec i) s =
     (case release_run p of
        None \<Rightarrow> (AFinish (Inr None), s, [])
      | Some f \<Rightarrow>
          (AFinish (map_sum id Some (f (materializedRequest i))), s,
           [EvExecuted (op_id p) (materializedRequest i)]))"
| "astep S p (AFinish out) s =
     (case finish_release S (op_id p) (exec_instant p) out s of (r, s') \<Rightarrow> (ADone (OAct r), s', []))"
| "astep S p (ADone out) s = (ADone out, s, [])"

section \<open>One operation alone\<close>

text \<open>Six steps are enough for every operation: a read, a claim, a second read or the executor, and the
  last transition.\<close>

fun arun :: "nat \<Rightarrow> 's IntentStore \<Rightarrow> aop \<Rightarrow> apc \<Rightarrow> 's \<Rightarrow> apc \<times> 's \<times> aevent list" where
  "arun 0 S p q s = (q, s, [])"
| "arun (Suc n) S p q s =
     (let (q', s', evs) = astep S p q s; (q'', s'', evs') = arun n S p q' s' in (q'', s'', evs @ evs'))"

lemma arun_done [simp]: "arun n S p (ADone out) s = (ADone out, s, [])"
  by (induction n) auto

fun executed_calls :: "aevent list \<Rightarrow> BrokeredCall list" where
  "executed_calls [] = []"
| "executed_calls (EvExecuted k c # evs) = c # executed_calls evs"
| "executed_calls (_ # evs) = executed_calls evs"

text \<open>The sequential engine, as the outcome and the store an operation leaves.\<close>

fun run_op :: "'s IntentStore \<Rightarrow> aop \<Rightarrow> 's \<Rightarrow> outcome \<times> 's \<times> BrokeredCall list" where
  "run_op S (Hold n c r es dd now) s =
     (case materialize S n c r es dd now s of (out, s', evs) \<Rightarrow> (OHold out, s', []))"
| "run_op S (Approve f iid by_whom now ea skew) s =
     (case approve S f iid by_whom now ea skew s of (out, s', cs) \<Rightarrow> (OAct out, s', cs))"
| "run_op S (Reissue iid by_whom now skew) s =
     (case approve_for_reissue S iid by_whom now skew s of (out, s') \<Rightarrow> (OAct out, s', []))"
| "run_op S (Reject iid by_whom now) s =
     (case reject S iid by_whom now s of (out, s') \<Rightarrow> (OAct out, s', []))"
| "run_op S (Expire i now) s =
     (case expire_if_due S i now s of (out, s') \<Rightarrow> (OExpire out, s', []))"

lemma arun_Suc_step:
  "arun (Suc n) S p q s =
     (case astep S p q s of (q', s', evs) \<Rightarrow>
        (case arun n S p q' s' of (q'', s'', evs') \<Rightarrow> (q'', s'', evs @ evs')))"
  by (simp add: split_def Let_def)

declare arun.simps(2) [simp del]

lemma arun_put:
  "arun (Suc n) S (Hold nt c r es dd now) (APut i) s =
     (case hold_intent S nt dd i s of (out, s', evs) \<Rightarrow>
        (ADone (OHold out), s', snd (snd (put_step S (Hold nt c r es dd now) i s))))"
  by (auto simp: arun_Suc_step put_step_def hold_intent_def notify_def Let_def
      split: sum.splits option.splits)

text \<open>The outcome of a run against the sequential result: same outcome, same store, same calls executed.\<close>

definition agrees :: "apc \<times> 's \<times> aevent list \<Rightarrow> outcome \<times> 's \<times> BrokeredCall list \<Rightarrow> bool" where
  "agrees m r \<longleftrightarrow> fst m = ADone (fst r) \<and> fst (snd m) = fst (snd r)
     \<and> executed_calls (snd (snd m)) = snd (snd r)"

lemma agrees_step:
  assumes "astep S p q s = (q', s', evs)" and "executed_calls evs = []"
    and "agrees (arun n S p q' s') r"
  shows "agrees (arun (Suc n) S p q s) r"
proof -
  have "executed_calls (evs @ evs') = executed_calls evs'" for evs'
    using assms(2) by (induction evs rule: executed_calls.induct) auto
  then show ?thesis using assms by (auto simp: arun_Suc_step agrees_def split: prod.splits)
qed

lemma arun_release:
  "agrees (arun (Suc (Suc n)) S (Approve f iid b now ea skew) (AExec i) s)
     (case release S f iid ea i s of (out, s', cs) \<Rightarrow> (OAct out, s', cs))"
  by (cases f) (auto simp: agrees_def arun_Suc_step release_def split: prod.splits)

lemma agrees_late:
  "(\<And>i now. p \<noteq> Expire i now) \<Longrightarrow>
     agrees (arun (Suc n) S p ALate s)
       (case expired_result S (op_id p) s of (r, s') \<Rightarrow> (OAct (Inr r), s', []))"
  by (cases p) (auto simp: agrees_def arun_Suc_step late_step_def expired_result_def Let_def
      split: prod.splits)

lemma agrees_reread:
  "agrees (arun (Suc n) S p AReread s) (OAct (not_pending S (op_id p) s), s, [])"
  by (simp add: agrees_def arun_Suc_step)

text \<open>The shared guard structure: once the claim is won the run continues after it.\<close>

lemma agrees_claim:
  assumes "\<And>i now. p \<noteq> Expire i now" and "\<And>nt c r es dd now. p \<noteq> Hold nt c r es dd now"
    and win: "\<And>i s'. agrees (arun (Suc (Suc n)) S p (after_claim p i) s') (cont i s')"
  shows "agrees (arun (Suc (Suc (Suc n))) S p (start_claim (op_id p) now skew (get_intent S s (op_id p))) s)
    (case claim_pending S (op_id p) (claim_status p) (claim_by p) now skew s of
       (Inl e, s') \<Rightarrow> (OAct (Inl e), s', [])
     | (Inr (Inl r), s') \<Rightarrow> (OAct (Inr r), s', [])
     | (Inr (Inr i), s') \<Rightarrow> cont i s')"
proof (cases "get_intent S s (op_id p)")
  case (Inl e)
  then show ?thesis by (simp add: start_claim_def claim_pending_def agrees_def)
next
  case (Inr found)
  show ?thesis
  proof (cases found)
    case None
    with Inr show ?thesis by (simp add: start_claim_def claim_pending_def agrees_def)
  next
    case (Some i)
    show ?thesis
    proof (cases "is_expired (in_expiry i) now skew")
      case (Inl e)
      with Inr Some show ?thesis by (simp add: start_claim_def claim_pending_def agrees_def)
    next
      case expd: (Inr expired)
      show ?thesis
      proof (cases expired)
        case True
        with agrees_late [OF assms(1), of "Suc (Suc n)" S s] Inr Some expd show ?thesis
          by (auto simp: start_claim_def claim_pending_def split: prod.splits)
      next
        case False
        obtain won s' where t: "transition_status S (op_id p) ''pending'' (claim_status p)
            (Some (claim_by p)) None s = (won, s')" by fastforce
        show ?thesis
        proof (cases won)
          case True
          have ev: "executed_calls [claim_event p] = []" by (cases p) auto
          from agrees_step [of S p "AClaim i" s "after_claim p i" s' "[claim_event p]" "Suc (Suc n)"
              "cont i s'"] ev win [of i s'] t True Inr Some expd False
          show ?thesis by (simp add: start_claim_def claim_pending_def)
        next
          case lost: False
          from agrees_step [of S p "AClaim i" s AReread s' "[]" "Suc (Suc n)"]
            agrees_reread [of "Suc n" S p s'] t lost Inr Some expd False
          show ?thesis
            by (cases "not_pending S (op_id p) s'") (simp_all add: start_claim_def claim_pending_def)
        qed
      qed
    qed
  qed
qed

lemma agrees_start:
  "agrees (arun 5 S p (astart S p s) s) r \<Longrightarrow> agrees (arun 6 S p AStart s) r"
  using agrees_step [of S p AStart s "astart S p s" s "[]" 5 r] by simp

lemma arun_run_op: "agrees (arun 6 S p AStart s) (run_op S p s)"
proof (cases p)
  case (Hold nt c r es dd now)
  let ?p = "Hold nt c r es dd now"
  have put: "agrees (arun 5 S ?p (start_hold ?p) s)
      (case (case dt_add now (es * SECOND) of
               Inl e \<Rightarrow> (Inl e, s, [])
             | Inr expiry \<Rightarrow> hold_intent S nt dd (pending_intent (op_id ?p) c r expiry now) s) of
         (out, s', evs) \<Rightarrow> (OHold out, s', []))"
  proof (cases "dt_add now (es * SECOND)")
    case (Inl e)
    then show ?thesis by (simp add: start_hold_def agrees_def)
  next
    case (Inr expiry)
    have "executed_calls (snd (snd (put_step S ?p i s))) = []" for i
      by (auto simp: put_step_def split: sum.splits)
    with Inr show ?thesis
      using arun_put [of 4 S nt c r es dd now "pending_intent (op_id ?p) c r expiry now" s]
      by (auto simp: start_hold_def agrees_def eval_nat_numeral split: prod.splits)
  qed
  have "agrees (arun 5 S ?p (astart S ?p s) s) (run_op S ?p s)"
  proof (cases dd)
    case None
    from put show ?thesis
      unfolding None by (simp add: materialize_def Let_def cong: sum.case_cong)
  next
    case (Some d)
    show ?thesis
    proof (cases "get_intent S s d")
      case (Inl e)
      with Some show ?thesis by (simp add: materialize_def Let_def agrees_def)
    next
      case (Inr found)
      from put Inr show ?thesis
        unfolding Some
        by (cases found) (simp_all add: materialize_def Let_def agrees_def cong: sum.case_cong)
    qed
  qed
  then show ?thesis unfolding Hold by (rule agrees_start)
next
  case (Approve f iid b now ea skew)
  from agrees_claim [of p 2 S "\<lambda>i s'. case release S f iid ea i s' of (out, s'', cs) \<Rightarrow> (OAct out, s'', cs)"
      now skew s] arun_release [of 2 S f iid b now ea skew] Approve
  have "agrees (arun 5 S p (astart S p s) s) (run_op S p s)"
    by (auto simp: approve_def eval_nat_numeral split: prod.splits sum.splits)
  then show ?thesis by (rule agrees_start)
next
  case (Reissue iid b now skew)
  from agrees_claim [of p 2 S "\<lambda>i s'. (OAct (Inr ((exec_refusal iid APPROVED_FOR_REISSUE_REASON)
      \<lparr>approved_for_reissue := True\<rparr>)), s', [])" now skew s] Reissue
  have "agrees (arun 5 S p (astart S p s) s) (run_op S p s)"
    by (auto simp: approve_for_reissue_def agrees_def eval_nat_numeral split: prod.splits sum.splits)
  then show ?thesis by (rule agrees_start)
next
  case (Reject iid b now)
  from agrees_claim [of p 2 S "\<lambda>i s'. (OAct (Inr (exec_refusal iid REJECTED_BY_OWNER_REASON)), s', [])"
      now ZERO_SKEW s] Reject
  have "agrees (arun 5 S p (astart S p s) s) (run_op S p s)"
    by (auto simp: reject_def agrees_def eval_nat_numeral split: prod.splits sum.splits)
  then show ?thesis by (rule agrees_start)
next
  case (Expire i now)
  then show ?thesis
    by (auto simp: agrees_def arun_Suc_step eval_nat_numeral expire_if_due_def late_step_def Let_def
        split: prod.splits sum.splits)
qed

section \<open>Interleavings\<close>

record ('t, 's) asystem =
  apcs :: "'t \<Rightarrow> apc"
  ashared :: 's
  alog :: "('t \<times> aevent) list"

definition asystem_start :: "'s \<Rightarrow> ('t, 's) asystem" where
  "asystem_start s = \<lparr>apcs = (\<lambda>_. AStart), ashared = s, alog = []\<rparr>"

definition asched :: "'s IntentStore \<Rightarrow> ('t \<Rightarrow> aop) \<Rightarrow> 't \<Rightarrow> ('t, 's) asystem \<Rightarrow> ('t, 's) asystem" where
  "asched S T t g =
     (case astep S (T t) (apcs g t) (ashared g) of
        (q', s', evs) \<Rightarrow> \<lparr>apcs = (apcs g)(t := q'), ashared = s', alog = alog g @ map (Pair t) evs\<rparr>)"

inductive areachable :: "'s IntentStore \<Rightarrow> ('t \<Rightarrow> aop) \<Rightarrow> 's \<Rightarrow> ('t, 's) asystem \<Rightarrow> bool" for S T s0 where
  astart_state: "areachable S T s0 (asystem_start s0)"
| asched_state: "areachable S T s0 g \<Longrightarrow> areachable S T s0 (asched S T t g)"

definition count_ev :: "(aevent \<Rightarrow> bool) \<Rightarrow> ('t \<times> aevent) list \<Rightarrow> nat" where
  "count_ev P l = length (filter (\<lambda>x. P (snd x)) l)"

definition count_of :: "'t \<Rightarrow> (aevent \<Rightarrow> bool) \<Rightarrow> ('t \<times> aevent) list \<Rightarrow> nat" where
  "count_of t P l = length (filter (\<lambda>x. fst x = t \<and> P (snd x)) l)"

fun is_held :: "string \<Rightarrow> aevent \<Rightarrow> bool" where
  "is_held k (EvHeld k' c) = (k = k')"
| "is_held k _ = False"

fun is_approved :: "string \<Rightarrow> aevent \<Rightarrow> bool" where
  "is_approved k (EvApproved k') = (k = k')"
| "is_approved k _ = False"

fun is_refused :: "string \<Rightarrow> aevent \<Rightarrow> bool" where
  "is_refused k (EvRejected k') = (k = k')"
| "is_refused k (EvExpired k') = (k = k')"
| "is_refused k _ = False"

fun is_executed :: "string \<Rightarrow> aevent \<Rightarrow> bool" where
  "is_executed k (EvExecuted k' c) = (k = k')"
| "is_executed k _ = False"

lemma count_simps [simp]:
  "count_ev P [] = 0" "count_ev P (l @ l') = count_ev P l + count_ev P l'"
  "count_ev P (map (Pair t) evs) = length (filter P evs)"
  "count_of t P [] = 0" "count_of t P (l @ l') = count_of t P l + count_of t P l'"
  "count_of t P (map (Pair t') evs) = (if t' = t then length (filter P evs) else 0)"
  by (auto simp: count_ev_def count_of_def filter_map comp_def)

text \<open>Counting by thread: what holds of every thread's entries holds of the whole log.\<close>

lemma count_ev_by_thread:
  "finite F \<Longrightarrow> fst ` set l \<subseteq> F \<Longrightarrow> count_ev P l = (\<Sum>t \<in> F. count_of t P l)"
proof (induction l)
  case Nil
  then show ?case by simp
next
  case (Cons x l)
  obtain t e where x: "x = (t, e)" by fastforce
  have "count_of u P ((t, e) # l) = (if u = t then if P e then 1 else 0 else 0) + count_of u P l" for u
    by (simp add: count_of_def)
  moreover have "count_ev P ((t, e) # l) = (if P e then 1 else 0) + count_ev P l"
    by (simp add: count_ev_def)
  moreover have "(\<Sum>u \<in> F. if u = t then if P e then 1 else 0 else 0) = (if P e then 1 else (0 :: nat))"
    using Cons.prems x by (auto simp: sum.delta)
  ultimately show ?case using Cons x by (simp add: sum.distrib)
qed

lemma count_ev_mono:
  assumes "\<And>t. count_of t P l \<le> count_of t Q l"
  shows "count_ev P l \<le> count_ev Q l"
  using count_ev_by_thread [of "fst ` set l" l P] count_ev_by_thread [of "fst ` set l" l Q] assms
  by (simp add: sum_mono)

section \<open>What one step does\<close>

fun claiming :: "aop \<Rightarrow> bool" where
  "claiming (Hold n c r es dd now) = False"
| "claiming (Expire i now) = False"
| "claiming p = True"

text \<open>The intents a program counter carries belong to its operation.\<close>

fun apc_ok :: "aop \<Rightarrow> apc \<Rightarrow> bool" where
  "apc_ok p (APut i) = (in_id i = op_id p \<and> in_status i = ''pending'')"
| "apc_ok p (AClaim i) = claiming p"
| "apc_ok p (AExec i) = (\<exists>f iid b now ea skew. p = Approve f iid b now ea skew)"
| "apc_ok p q = True"

lemma start_claim_ok [simp]: "claiming p \<Longrightarrow> apc_ok p (start_claim k now skew found)"
  by (auto simp: start_claim_def split: sum.splits option.splits)

lemma start_hold_ok [simp]: "apc_ok p (start_hold p)"
  by (auto simp: start_hold_def pending_intent_def split: aop.splits sum.splits)

lemma astart_ok: "apc_ok p (astart S p s)"
  by (cases p) (auto split: option.splits sum.splits)

lemma astep_ok: "astep S p q s = (q', s', evs) \<Longrightarrow> apc_ok p q \<Longrightarrow> apc_ok p q'"
  by (cases q; cases p)
     (auto simp: astart_ok put_step_def late_step_def Let_def simp del: astart.simps
       split: sum.splits option.splits prod.splits if_splits)

definition pending_at :: "(string \<rightharpoonup> Intent) \<Rightarrow> string \<Rightarrow> bool" where
  "pending_at v k \<longleftrightarrow> (\<exists>i. v k = Some i \<and> in_status i = ''pending'')"

abbreviation pend :: "(string \<rightharpoonup> Intent) \<Rightarrow> string \<Rightarrow> nat" where
  "pend v k \<equiv> (if pending_at v k then 1 else 0)"

text \<open>Every intent after a step has the frozen half of one before it, or was put by it.\<close>

definition same_frozen :: "(string \<rightharpoonup> Intent) \<Rightarrow> (string \<rightharpoonup> Intent) \<Rightarrow> bool" where
  "same_frozen v v' \<longleftrightarrow>
     (\<forall>k i'. v' k = Some i' \<longrightarrow> (\<exists>i. v k = Some i \<and> frozen_half i = frozen_half i'))"

lemma same_frozen_refl [simp]: "same_frozen v v"
  by (auto simp: same_frozen_def)

lemma same_frozen_moved: "v k = Some i \<Longrightarrow> same_frozen v (v(k \<mapsto> moved st b x i))"
  by (auto simp: same_frozen_def)

lemma statuses_valid [simp]:
  "''expired'' \<in> set INTENT_STATUSES" "''approved'' \<in> set INTENT_STATUSES"
  "''rejected'' \<in> set INTENT_STATUSES" "''executed'' \<in> set INTENT_STATUSES"
  "''refused'' \<in> set INTENT_STATUSES"
  by (simp_all add: INTENT_STATUSES_def)

lemma claim_status_valid [simp]:
  "claim_status p \<in> set INTENT_STATUSES" "claim_status p \<noteq> PENDING_STATUS"
  by (cases p; simp add: INTENT_STATUSES_def PENDING_STATUS_def)+

fun carried :: "apc \<Rightarrow> BrokeredCall set" where
  "carried (AClaim i) = {materializedRequest i}"
| "carried (AExec i) = {materializedRequest i}"
| "carried q = {}"

text \<open>A thread approves at most once, and executes only after it approved.\<close>

fun phase_ok :: "apc \<Rightarrow> nat \<Rightarrow> nat \<Rightarrow> bool" where
  "phase_ok (AExec i) a x \<longleftrightarrow> a = 1 \<and> x = 0"
| "phase_ok (AFinish out) a x \<longleftrightarrow> a = 1 \<and> x \<le> 1"
| "phase_ok (ADone out) a x \<longleftrightarrow> x \<le> a"
| "phase_ok q a x \<longleftrightarrow> a = 0 \<and> x = 0"

context intent_store
begin

lemma cas_effect:
  assumes "wf s" and "new \<in> set INTENT_STATUSES" "new \<noteq> PENDING_STATUS" "expected \<noteq> new"
    and "transition_status S k expected new b x s = (won, s')"
  shows "wf s' \<and> same_frozen (view s) (view s')
    \<and> (\<forall>k'. pend (view s) k' = pend (view s') k' + (if won \<and> expected = ''pending'' \<and> k' = k then 1 else 0))"
proof -
  note t = transition_cas [OF assms(1-3,5)]
  show ?thesis
  proof (cases won)
    case True
    with t obtain i where i: "view s k = Some i" "in_status i = expected"
      and v: "view s' = (view s)(k \<mapsto> moved new b x i)" by auto
    from same_frozen_moved [of "view s" k i new b x] i v t assms(3) show ?thesis
      using True by (auto simp: pending_at_def PENDING_STATUS_def)
  next
    case False
    with t show ?thesis by simp
  qed
qed

lemma put_effect:
  assumes "wf s" and "in_status i = ''pending''" and "put_intent S i s = Inr s'"
  shows "wf s' \<and> view s' = (view s)(in_id i \<mapsto> i) \<and> \<not> pending_at (view s) (in_id i)"
proof -
  have np: "in_status j \<noteq> PENDING_STATUS" if "view s (in_id i) = Some j" for j
    using put_refused [OF assms(1) that] assms(3) by fastforce
  have "in_status i \<in> set INTENT_STATUSES" using assms(2) by (simp add: INTENT_STATUSES_def)
  from put_written [OF assms(1) this np] assms(3) np show ?thesis
    by (auto simp: pending_at_def PENDING_STATUS_def)
qed

text \<open>The effect of one step on the shared store, against what it logs.\<close>

lemma astep_effect:
  assumes step: "astep S p q s = (q', s', evs)" and wf: "wf s" and ok: "apc_ok p q"
  shows "wf s'"
    and "length (filter (is_held k) evs) + pend (view s) k
       = length (filter (is_approved k) evs) + length (filter (is_refused k) evs) + pend (view s') k"
    and "view s' k = Some i' \<Longrightarrow>
           (\<exists>i. view s k = Some i \<and> frozen_half i = frozen_half i')
           \<or> EvHeld k (materializedRequest i') \<in> set evs"
proof -
  have "wf s' \<and> (\<forall>k. length (filter (is_held k) evs) + pend (view s) k
       = length (filter (is_approved k) evs) + length (filter (is_refused k) evs) + pend (view s') k)
     \<and> (\<forall>k i'. view s' k = Some i' \<longrightarrow> (\<exists>i. view s k = Some i \<and> frozen_half i = frozen_half i')
           \<or> EvHeld k (materializedRequest i') \<in> set evs)"
  proof (cases q)
    case (APut i)
    show ?thesis
    proof (cases "put_intent S i s")
      case (Inl e)
      with step APut wf show ?thesis by (auto simp: put_step_def)
    next
      case (Inr s2)
      from put_effect [OF wf _ Inr] ok APut have e: "wf s2" "view s2 = (view s)(in_id i \<mapsto> i)"
        "\<not> pending_at (view s) (in_id i)" by auto
      have "in_status i = ''pending''" using ok APut by simp
      with e step APut Inr show ?thesis by (auto simp: put_step_def pending_at_def)
    qed
  next
    case (AClaim i)
    obtain won s2 where t: "transition_status S (op_id p) ''pending'' (claim_status p)
        (Some (claim_by p)) None s = (won, s2)" by fastforce
    have ne: "''pending'' \<noteq> claim_status p" by (cases p) auto
    from cas_effect [OF wf claim_status_valid ne t]
    have e: "wf s2" "same_frozen (view s) (view s2)"
      "\<And>k'. pend (view s) k' = pend (view s2) k' + (if won \<and> k' = op_id p then 1 else 0)" by auto
    have ev: "length (filter (is_held k) [claim_event p]) = 0"
      "length (filter (is_approved k) [claim_event p]) + length (filter (is_refused k) [claim_event p])
       = (if k = op_id p then 1 else 0)" for k
      by (cases p; auto)+
    from step AClaim t have "s' = s2" "evs = (if won then [claim_event p] else [])"
      by (auto split: if_splits)
    with e ev show ?thesis by (auto simp: same_frozen_def)
  next
    case ALate
    obtain won s2 where t: "transition_status S (op_id p) ''pending'' ''expired'' None None s = (won, s2)"
      by fastforce
    have "''expired'' \<noteq> PENDING_STATUS" "''pending'' \<noteq> ''expired''" by (simp_all add: PENDING_STATUS_def)
    from cas_effect [OF wf statuses_valid(1) this t]
    have e: "wf s2" "same_frozen (view s) (view s2)"
      "\<And>k'. pend (view s) k' = pend (view s2) k' + (if won \<and> k' = op_id p then 1 else 0)" by auto
    from step ALate t have "s' = s2" "evs = (if won then [EvExpired (op_id p)] else [])"
      by (auto simp: late_step_def split: if_splits)
    with e show ?thesis by (auto simp: same_frozen_def)
  next
    case (AFinish out)
    have fin: "wf s2 \<and> same_frozen (view s) (view s2) \<and> (\<forall>k. pend (view s) k = pend (view s2) k)"
      if "transition_status S (op_id p) ''approved'' new None x s = (won, s2)" "new = ''refused'' \<or> new = ''executed''"
      for new x won s2
    proof -
      have "new \<in> set INTENT_STATUSES" "new \<noteq> PENDING_STATUS" "''approved'' \<noteq> new"
        using that(2) by (auto simp: PENDING_STATUS_def)
      from cas_effect [OF wf this that(1)] show ?thesis by simp
    qed
    obtain b1 s1 where t1: "transition_status S (op_id p) ''approved'' ''refused'' None None s = (b1, s1)"
      by fastforce
    obtain b2 s2 where t2: "transition_status S (op_id p) ''approved'' ''executed'' None
        (Some (exec_instant p)) s = (b2, s2)" by fastforce
    have "evs = [] \<and> (s' = s \<or> s' = s1 \<or> s' = s2)"
      using step AFinish t1 t2 by (auto simp: finish_release_def split: sum.splits if_splits)
    moreover have "wf s' \<and> same_frozen (view s) (view s') \<and> (\<forall>k. pend (view s) k = pend (view s') k)"
      using calculation fin [OF t1] fin [OF t2] wf by (elim conjE disjE) simp_all
    ultimately show ?thesis by (simp add: same_frozen_def)
  qed (use step wf in \<open>auto split: option.splits\<close>)
  then show "wf s'"
    and "length (filter (is_held k) evs) + pend (view s) k
       = length (filter (is_approved k) evs) + length (filter (is_refused k) evs) + pend (view s') k"
    and "view s' k = Some i' \<Longrightarrow>
           (\<exists>i. view s k = Some i \<and> frozen_half i = frozen_half i')
           \<or> EvHeld k (materializedRequest i') \<in> set evs"
    by blast+
qed

text \<open>What a thread carries was frozen under its identifier: by an intent of the start store, or by a hold in
  the log.\<close>

definition frozen_under :: "'s \<Rightarrow> ('t \<times> aevent) list \<Rightarrow> string \<Rightarrow> BrokeredCall \<Rightarrow> bool" where
  "frozen_under s0 l k c \<longleftrightarrow>
     (\<exists>i. view s0 k = Some i \<and> materializedRequest i = c) \<or> EvHeld k c \<in> snd ` set l"

definition approval_inv :: "('t \<Rightarrow> aop) \<Rightarrow> 's \<Rightarrow> ('t, 's) asystem \<Rightarrow> bool" where
  "approval_inv T s0 g \<longleftrightarrow> wf (ashared g)
     \<and> (\<forall>t. apc_ok (T t) (apcs g t))
     \<and> (\<forall>k. count_ev (is_held k) (alog g) + pend (view s0) k
          = count_ev (is_approved k) (alog g) + count_ev (is_refused k) (alog g) + pend (view (ashared g)) k)
     \<and> (\<forall>k i. view (ashared g) k = Some i \<longrightarrow> frozen_under s0 (alog g) k (materializedRequest i))
     \<and> (\<forall>t c. c \<in> carried (apcs g t) \<longrightarrow> frozen_under s0 (alog g) (op_id (T t)) c)
     \<and> (\<forall>k c. EvExecuted k c \<in> snd ` set (alog g) \<longrightarrow> frozen_under s0 (alog g) k c)
     \<and> (\<forall>t. phase_ok (apcs g t) (count_of t (is_approved (op_id (T t))) (alog g))
               (count_of t (is_executed (op_id (T t))) (alog g)))
     \<and> (\<forall>t k. k \<noteq> op_id (T t) \<longrightarrow> count_of t (is_executed k) (alog g) = 0)"

lemma frozen_under_mono: "frozen_under s0 l k c \<Longrightarrow> frozen_under s0 (l @ l') k c"
  by (auto simp: frozen_under_def)

text \<open>A thread picks up a call only by reading it from the store.\<close>

lemma start_claim_carried:
  "c \<in> carried (start_claim k now skew found) \<Longrightarrow> \<exists>i. found = Inr (Some i) \<and> c = materializedRequest i"
  by (auto simp: start_claim_def split: sum.splits option.splits if_splits)

lemma start_hold_carried [simp]: "carried (start_hold p) = {}"
  by (auto simp: start_hold_def split: aop.splits sum.splits)

lemma astep_carried:
  assumes "astep S p q s = (q', s', evs)" and "wf s" and "c \<in> carried q'"
  shows "c \<in> carried q \<or> (\<exists>i. view s (op_id p) = Some i \<and> c = materializedRequest i)"
proof (cases q)
  case AStart
  with assms(1) have "q' = astart S p s" by auto
  with assms(3) have "c \<in> carried (astart S p s)" by simp
  then show ?thesis
    using get_view [OF assms(2)]
    by (cases p) (auto split: option.splits sum.splits if_splits dest!: start_claim_carried)
next
  case (AClaim i)
  then show ?thesis using assms by (cases p) (auto simp: Let_def split: prod.splits if_splits)
next
  case (AFinish out)
  then show ?thesis using assms by (auto split: prod.splits)
qed (use assms in \<open>auto simp: put_step_def late_step_def Let_def split: sum.splits prod.splits option.splits\<close>)

lemma astep_executed:
  assumes "astep S p q s = (q', s', evs)" and "EvExecuted k c \<in> set evs"
  shows "k = op_id p \<and> c \<in> carried q"
  using assms
  by (cases q; cases p) (auto simp: put_step_def late_step_def Let_def
      split: sum.splits prod.splits option.splits if_splits)

lemma astep_phase:
  assumes "astep S p q s = (q', s', evs)" and "apc_ok p q" and "phase_ok q a x"
  shows "phase_ok q' (a + length (filter (is_approved (op_id p)) evs))
    (x + length (filter (is_executed (op_id p)) evs))"
proof -
  have sc: "phase_ok (start_claim k now skew found) 0 0" for k now skew found
    by (auto simp: start_claim_def split: sum.splits option.splits if_splits)
  have sh: "phase_ok (start_hold p) 0 0"
    by (auto simp: start_hold_def split: aop.splits sum.splits)
  have st: "phase_ok (astart S p s) 0 0"
    using sh by (cases p) (auto simp: sc split: option.splits sum.splits if_splits)
  show ?thesis
    using assms st
    by (cases q; cases p)
       (auto simp: put_step_def late_step_def Let_def simp del: astart.simps
         split: sum.splits prod.splits option.splits if_splits)
qed

lemma filter_executed_other:
  assumes "astep S p q s = (q', s', evs)" and "k \<noteq> op_id p"
  shows "filter (is_executed k) evs = []"
proof -
  have "\<not> is_executed k e" if "e \<in> set evs" for e
    using astep_executed [OF assms(1), of k] that assms(2) by (cases e) auto
  then show ?thesis by (simp add: filter_empty_conv)
qed

lemma approval_inv_step:
  assumes inv: "approval_inv T s0 g"
  shows "approval_inv T s0 (asched S T t g)"
proof -
  obtain q' s' evs where step: "astep S (T t) (apcs g t) (ashared g) = (q', s', evs)"
    by (cases "astep S (T t) (apcs g t) (ashared g)") blast
  let ?l = "alog g @ map (Pair t) evs"
  have g': "asched S T t g = \<lparr>apcs = (apcs g)(t := q'), ashared = s', alog = ?l\<rparr>"
    by (simp add: asched_def step)
  from inv have wf: "wf (ashared g)" and ok: "\<And>u. apc_ok (T u) (apcs g u)"
    and bal: "\<And>k. count_ev (is_held k) (alog g) + pend (view s0) k
          = count_ev (is_approved k) (alog g) + count_ev (is_refused k) (alog g) + pend (view (ashared g)) k"
    and fr: "\<And>k i. view (ashared g) k = Some i \<Longrightarrow> frozen_under s0 (alog g) k (materializedRequest i)"
    and ca: "\<And>u c. c \<in> carried (apcs g u) \<Longrightarrow> frozen_under s0 (alog g) (op_id (T u)) c"
    and ex: "\<And>k c. EvExecuted k c \<in> snd ` set (alog g) \<Longrightarrow> frozen_under s0 (alog g) k c"
    and ph: "\<And>u. phase_ok (apcs g u) (count_of u (is_approved (op_id (T u))) (alog g))
               (count_of u (is_executed (op_id (T u))) (alog g))"
    and ot: "\<And>u k. k \<noteq> op_id (T u) \<Longrightarrow> count_of u (is_executed k) (alog g) = 0"
    unfolding approval_inv_def by blast+
  note eff = astep_effect [OF step wf ok]
  have fr': "frozen_under s0 ?l k (materializedRequest i)" if "view s' k = Some i" for k i
    using eff(3) [OF that]
  proof
    assume "\<exists>j. view (ashared g) k = Some j \<and> frozen_half j = frozen_half i"
    then obtain j where "view (ashared g) k = Some j" "materializedRequest j = materializedRequest i"
      by (auto simp: frozen_half_def)
    with fr show ?thesis by (metis frozen_under_mono)
  next
    assume "EvHeld k (materializedRequest i) \<in> set evs"
    then show ?thesis by (force simp: frozen_under_def)
  qed
  have ca': "frozen_under s0 ?l (op_id (T u)) c" if "c \<in> carried (((apcs g)(t := q')) u)" for u c
  proof (cases "u = t")
    case True
    with that have "c \<in> carried q'" by simp
    from astep_carried [OF step wf this] ca [of c t] fr True show ?thesis
      by (auto intro: frozen_under_mono)
  next
    case False
    with that ca show ?thesis by (auto intro: frozen_under_mono)
  qed
  have ex': "frozen_under s0 ?l k c" if "EvExecuted k c \<in> snd ` set ?l" for k c
  proof (cases "EvExecuted k c \<in> snd ` set (alog g)")
    case True
    with ex show ?thesis by (auto intro: frozen_under_mono)
  next
    case False
    with that have "EvExecuted k c \<in> set evs" by force
    from astep_executed [OF step this] ca [of c t] show ?thesis by (auto intro: frozen_under_mono)
  qed
  show ?thesis
    unfolding approval_inv_def g' asystem.simps
  proof (intro conjI allI impI)
    show "wf s'" by (rule eff(1))
    show "apc_ok (T u) (((apcs g)(t := q')) u)" for u
      using ok [of u] astep_ok [OF step ok] by simp
    show "count_ev (is_held k) ?l + pend (view s0) k
        = count_ev (is_approved k) ?l + count_ev (is_refused k) ?l + pend (view s') k" for k
      using bal [of k] eff(2) [of k] by (simp only: count_simps)
    show "frozen_under s0 ?l k (materializedRequest i)" if "view s' k = Some i" for k i
      using fr' that by blast
    show "frozen_under s0 ?l (op_id (T u)) c" if "c \<in> carried (((apcs g)(t := q')) u)" for u c
      using ca' that by blast
    show "frozen_under s0 ?l k c" if "EvExecuted k c \<in> snd ` set ?l" for k c
      using ex' that by blast
    show "phase_ok (((apcs g)(t := q')) u) (count_of u (is_approved (op_id (T u))) ?l)
        (count_of u (is_executed (op_id (T u))) ?l)" for u
      using ph [of u] astep_phase [OF step ok ph] by auto
    show "count_of u (is_executed k) ?l = 0" if "k \<noteq> op_id (T u)" for u k
      using ot [OF that] filter_executed_other [OF step, of k] that by auto
  qed
qed

lemma approval_inv_start: "wf s0 \<Longrightarrow> approval_inv T s0 (asystem_start s0)"
  by (auto simp: approval_inv_def asystem_start_def frozen_under_def)

lemma areachable_inv: "areachable S T s0 g \<Longrightarrow> wf s0 \<Longrightarrow> approval_inv T s0 g"
  by (induction rule: areachable.induct) (auto simp: approval_inv_start intro: approval_inv_step)

text \<open>The balance of one identifier.\<close>

lemma areachable_balance:
  assumes "areachable S T s0 g" and "wf s0"
  shows "count_ev (is_executed k) (alog g) \<le> count_ev (is_approved k) (alog g)"
    and "count_ev (is_approved k) (alog g) + count_ev (is_refused k) (alog g)
       \<le> count_ev (is_held k) (alog g) + pend (view s0) k"
    and "EvExecuted k c \<in> snd ` set (alog g) \<Longrightarrow> frozen_under s0 (alog g) k c"
proof -
  note inv = areachable_inv [OF assms, unfolded approval_inv_def]
  have "phase_ok q a x \<Longrightarrow> x \<le> a" for q a x by (cases q) auto
  moreover have "phase_ok (apcs g t) (count_of t (is_approved (op_id (T t))) (alog g))
      (count_of t (is_executed (op_id (T t))) (alog g))"
    and "k \<noteq> op_id (T t) \<Longrightarrow> count_of t (is_executed k) (alog g) = 0" for t
    using inv by blast+
  ultimately have "count_of t (is_executed k) (alog g) \<le> count_of t (is_approved k) (alog g)" for t
    by (cases "k = op_id (T t)") auto
  then show "count_ev (is_executed k) (alog g) \<le> count_ev (is_approved k) (alog g)"
    by (rule count_ev_mono)
  show "count_ev (is_approved k) (alog g) + count_ev (is_refused k) (alog g)
       \<le> count_ev (is_held k) (alog g) + pend (view s0) k"
    using inv by (metis le_add1)
  show "EvExecuted k c \<in> snd ` set (alog g) \<Longrightarrow> frozen_under s0 (alog g) k c"
    using inv by blast
qed

end

section \<open>Schedules\<close>

definition aschedule :: "'s IntentStore \<Rightarrow> ('t \<Rightarrow> aop) \<Rightarrow> 't list \<Rightarrow> ('t, 's) asystem \<Rightarrow> ('t, 's) asystem" where
  "aschedule S T sch g = foldl (\<lambda>h t. asched S T t h) g sch"

lemma aschedule_simps [simp]:
  "aschedule S T [] g = g" "aschedule S T (t # sch) g = aschedule S T sch (asched S T t g)"
  by (simp_all add: aschedule_def)

lemma aschedule_reachable: "areachable S T s0 g \<Longrightarrow> areachable S T s0 (aschedule S T sch g)"
  by (induction sch arbitrary: g) (auto intro: areachable.intros)

text \<open>What a thread may leave in the store, and that it is always well-formed.\<close>

context intent_store
begin

lemma arun_wf: "arun n S p q s = (q', s', evs) \<Longrightarrow> wf s \<Longrightarrow> apc_ok p q \<Longrightarrow> wf s'"
proof (induction n arbitrary: q s q' s' evs)
  case 0
  then show ?case by simp
next
  case (Suc n)
  obtain q1 s1 e1 where step: "astep S p q s = (q1, s1, e1)" by (cases "astep S p q s") blast
  obtain q2 s2 e2 where rest: "arun n S p q1 s1 = (q2, s2, e2)" by (cases "arun n S p q1 s1") blast
  from Suc.prems(1) step rest have "s' = s2" by (simp add: arun_Suc_step)
  with Suc.IH [OF rest] astep_effect(1) [OF step Suc.prems(2,3)] astep_ok [OF step Suc.prems(3)]
  show ?case by simp
qed

lemma run_op_wf: "wf s \<Longrightarrow> wf (fst (snd (run_op S p s)))"
  using arun_run_op [of S p s] arun_wf [of 6 p AStart s]
  by (cases "arun 6 S p AStart s") (auto simp: agrees_def)

end

section \<open>Results\<close>

text \<open>Four operations on one identifier: a hold, an approval, a rejection, and a second hold.\<close>

definition race_ops :: "nat \<Rightarrow> aop" where
  "race_ops t =
     (if t = 0 then
        Hold None (sample_call sample_send True) \<lparr>intent_id = ''i'', renderedForHuman = ''first''\<rparr> 3600
          (Some ''d'') 0
      else if t = 1 then
        Approve (Some (\<lambda>c. Inr (JStr (bc_op c)))) ''d'' ''alice'' 1000000 2000000 0
      else if t = 2 then Reject ''d'' ''bob'' 1000000
      else
        Hold None (sample_call sample_send False) \<lparr>intent_id = ''i'', renderedForHuman = ''second''\<rparr> 3600
          (Some ''d'') 1000000)"

text \<open>The thread machine is the engine. Run alone, each of the five operations of the engine takes at
  most six atomic steps of the machine, and ends with the outcome, the store and the executed calls of
  the sequential operation, for every store.\<close>

lemma approval_machine_refines_engine:
  "agrees (arun 6 S p AStart s) (run_op S p s)"
  by (rule arun_run_op)

text \<open>C37: the store stays well-formed. Whatever operation of the engine runs, with whatever outcome (an
  executor or a notifier that raises included), every row it leaves is the broker's own serialization of
  an intent stored under its own identifier with a valid status, and no identifier has two rows.\<close>

theorem approval_store_wf:
  assumes "intent_codec C" and "intmem_wf C s"
  shows "intmem_wf C (fst (snd (run_op (intmem_ops C) p s)))"
  by (rule intent_store.run_op_wf [OF intmem_keeps_contract [OF assms(1)] assms(2)])

theorem approval_store_wf_witness:
  "intmem_wf plain_codec
     (fst (snd (run_op (intmem_ops plain_codec) (Reject ''intent-1'' ''alice'' 5) sample_held)))"
  by (rule approval_store_wf [OF plain.intent_codec_axioms sample_held_wf])

text \<open>C33: every hold is decided at most once and released at most once, under every interleaving. For each
  identifier, in every reachable state: the executor ran at most as often as approvals won; approvals,
  rejections and expiries together are at most the holds made (one more where one was pending at the
  start); and every call that was executed had been frozen under that identifier.\<close>

theorem one_decision_per_hold:
  assumes "intent_codec C" and "intmem_wf C s0" and "areachable (intmem_ops C) T s0 g"
  shows "count_ev (is_executed k) (alog g) \<le> count_ev (is_approved k) (alog g)
    \<and> count_ev (is_approved k) (alog g) + count_ev (is_refused k) (alog g)
        \<le> count_ev (is_held k) (alog g) + (if pending_at (intmem_view C s0) k then 1 else 0)
    \<and> (\<forall>c. EvExecuted k c \<in> snd ` set (alog g) \<longrightarrow>
          EvHeld k c \<in> snd ` set (alog g)
          \<or> (\<exists>i. intmem_view C s0 k = Some i \<and> materializedRequest i = c))"
proof -
  have st: "intent_store (intmem_ops C) (intmem_wf C) (intmem_view C)"
    by (rule intmem_keeps_contract [OF assms(1)])
  note bal = intent_store.areachable_balance [OF st assms(3,2)]
  from bal(1,2) [of k] bal(3) [of k] show ?thesis
    by (auto simp: intent_store.frozen_under_def [OF st])
qed

theorem one_decision_per_hold_witness:
  "let g = aschedule (intmem_ops plain_codec) race_ops [0, 1, 0, 2, 2, 1, 3, 1, 2] (asystem_start [])
   in count_ev (is_executed ''d'') (alog g) \<le> count_ev (is_approved ''d'') (alog g)
    \<and> count_ev (is_approved ''d'') (alog g) + count_ev (is_refused ''d'') (alog g)
        \<le> count_ev (is_held ''d'') (alog g)"
proof -
  have "intmem_wf plain_codec []" by (simp add: intmem_wf_def)
  from one_decision_per_hold [OF plain.intent_codec_axioms this
      aschedule_reachable [OF areachable.astart_state, of "intmem_ops plain_codec" race_ops "[]"
        "[0, 1, 0, 2, 2, 1, 3, 1, 2]"], of "''d''"]
  show ?thesis by (simp add: Let_def pending_at_def intmem_view_def)
qed

text \<open>C35: an approval may release a call that was rejected. The approval reads the first hold, the owner
  rejects it, the identifier is held again for a second call, and the approval then wins its
  compare-and-set on the second hold and executes the first: the compare-and-set checks the status, not
  the call that was read before it.\<close>

theorem approval_can_release_rejected_call:
  "alog (aschedule (intmem_ops plain_codec) race_ops [0, 0, 1, 2, 2, 3, 3, 1, 1, 1] (asystem_start []))
   = [(0, EvHeld ''d'' (sample_call sample_send True)), (2, EvRejected ''d''),
      (3, EvHeld ''d'' (sample_call sample_send False)), (1, EvApproved ''d''),
      (1, EvExecuted ''d'' (sample_call sample_send True))]
   \<and> sample_call sample_send True \<noteq> sample_call sample_send False"
  by code_simp

end
