(* ===== verification/Json_Text.thy ===== *)
theory Json_Text
  imports Calendar
begin

text \<open>
  Canonical JSON text: \<open>json.dumps(value, sort_keys=True, separators=(",", ":"))\<close> of the Python
  standard library, which the broker hashes and authenticates. Strings are escaped as
  \<open>ensure_ascii\<close> does; objects are written in key order. An integral number is written as a Python
  \<open>int\<close>; the text of any other number is an argument (\<open>fr\<close>), used for no value the broker hashes into a
  record.

  \<open>read_canonical\<close> reads such a text back. It is what shows that the text determines the value: two
  canonical values with one text are equal (\<open>dumps_inject\<close>).
\<close>

section \<open>Writing\<close>

fun nat_digits :: "nat \<Rightarrow> string" where
  "nat_digits n = (if n < 10 then [] else nat_digits (n div 10)) @ [digit_char (int n)]"

declare nat_digits.simps [simp del]

definition int_str :: "int \<Rightarrow> string" where
  "int_str n = (if n < 0 then ''-'' @ nat_digits (nat (- n)) else nat_digits (nat n))"

definition esc_char :: "char \<Rightarrow> string" where
  "esc_char c =
     (if c = CHR 0x22 \<or> c = CHR 0x5C then [CHR 0x5C, c]
      else if c = CHR 0x0A then [CHR 0x5C, CHR ''n'']
      else if c = CHR 0x0D then [CHR 0x5C, CHR ''r'']
      else if c = CHR 0x09 then [CHR 0x5C, CHR ''t'']
      else if c = CHR 0x0C then [CHR 0x5C, CHR ''f'']
      else if c = CHR 0x08 then [CHR 0x5C, CHR ''b'']
      else if CHR '' '' \<le> c \<and> c \<le> CHR ''~'' then [c]
      else [CHR 0x5C, CHR ''u'', CHR ''0'', CHR ''0'', hex_digit (of_char c div 16), hex_digit (of_char c)])"

definition quoted :: "string \<Rightarrow> string" where
  "quoted s = [CHR 0x22] @ concat (map esc_char s) @ [CHR 0x22]"

text \<open>A number printed with four decimals (the format \<open>.4f\<close>).\<close>

definition fixed4 :: "rat \<Rightarrow> string" where
  "fixed4 x =
     (let n = round_half_even (\<bar>x\<bar> * 10000)
      in (if x < 0 then ''-'' else []) @ int_str (n div 10000) @ ''.'' @ pad_digits 4 (n mod 10000))"

fun joined :: "string list \<Rightarrow> string" where
  "joined [] = []"
| "joined [x] = x"
| "joined (x # xs) = x @ '','' @ joined xs"

fun dumps :: "(rat \<Rightarrow> string) \<Rightarrow> json \<Rightarrow> string" where
  "dumps fr JNull = ''null''"
| "dumps fr (JBool b) = (if b then ''true'' else ''false'')"
| "dumps fr (JNum r) = (if r = of_int \<lfloor>r\<rfloor> then int_str \<lfloor>r\<rfloor> else fr r)"
| "dumps fr (JStr s) = quoted s"
| "dumps fr (JList vs) = ''['' @ joined (map (dumps fr) vs) @ '']''"
| "dumps fr (JObj kvs) =
     ''{'' @ joined (map (\<lambda>(k, t). quoted k @ '':'' @ t) (sort_key fst (map (\<lambda>(k, v). (k, dumps fr v)) kvs)))
     @ ''}''"

section \<open>Reading\<close>

definition hex_value :: "char \<Rightarrow> nat" where
  "hex_value c = (if c \<le> CHR ''9'' then of_char c - 48 else of_char c - 87)"

text \<open>One character of a string body.\<close>

fun unesc :: "string \<Rightarrow> (char \<times> string) option" where
  "unesc [] = None"
| "unesc (c # r) =
     (if c \<noteq> CHR 0x5C then Some (c, r)
      else (case r of
              [] \<Rightarrow> None
            | e # r1 \<Rightarrow>
                if e = CHR ''n'' then Some (CHR 0x0A, r1)
                else if e = CHR ''r'' then Some (CHR 0x0D, r1)
                else if e = CHR ''t'' then Some (CHR 0x09, r1)
                else if e = CHR ''f'' then Some (CHR 0x0C, r1)
                else if e = CHR ''b'' then Some (CHR 0x08, r1)
                else if e = CHR ''u'' then
                  (case r1 of
                     _ # _ # x # y # r2 \<Rightarrow> Some (char_of (16 * hex_value x + hex_value y), r2)
                   | _ \<Rightarrow> None)
                else Some (e, r1)))"

lemma unesc_shorter: "unesc s = Some (c, r) \<Longrightarrow> length r < length s"
  by (cases s) (auto split: list.splits if_splits)

function read_body :: "string \<Rightarrow> (string \<times> string) option" where
  "read_body s =
     (case s of
        [] \<Rightarrow> None
      | c # r \<Rightarrow>
          if c = CHR 0x22 then Some ([], r)
          else (case unesc s of
                  None \<Rightarrow> None
                | Some (x, r1) \<Rightarrow> (case read_body r1 of None \<Rightarrow> None | Some (xs, r2) \<Rightarrow> Some (x # xs, r2))))"
  by auto
termination
  by (relation "measure length") (auto simp del: unesc.simps dest: unesc_shorter)

declare read_body.simps [simp del]

definition read_string :: "string \<Rightarrow> (string \<times> string) option" where
  "read_string s = (case s of [] \<Rightarrow> None | c # r \<Rightarrow> if c = CHR 0x22 then read_body r else None)"

definition is_digit :: "char \<Rightarrow> bool" where
  "is_digit c \<longleftrightarrow> CHR ''0'' \<le> c \<and> c \<le> CHR ''9''"

definition read_nat :: "string \<Rightarrow> (int \<times> string) option" where
  "read_nat s =
     (let d = takeWhile is_digit s in if d = [] then None else Some (undigits d, dropWhile is_digit s))"

definition read_int :: "string \<Rightarrow> (int \<times> string) option" where
  "read_int s =
     (case s of
        c # r \<Rightarrow> if c = CHR ''-'' then map_option (map_prod uminus id) (read_nat r) else read_nat s
      | [] \<Rightarrow> None)"

definition read_word :: "string \<Rightarrow> 'a \<Rightarrow> string \<Rightarrow> ('a \<times> string) option" where
  "read_word w x s = (if startswith s w then Some (x, drop (length w) s) else None)"

text \<open>The first argument bounds the nesting; the length of the text is always enough.\<close>

fun read_value :: "nat \<Rightarrow> string \<Rightarrow> (json \<times> string) option"
and read_items :: "nat \<Rightarrow> string \<Rightarrow> (json list \<times> string) option"
and read_members :: "nat \<Rightarrow> string \<Rightarrow> ((string \<times> json) list \<times> string) option" where
  "read_value 0 s = None"
| "read_value (Suc n) s =
     (case s of
        [] \<Rightarrow> None
      | c # r \<Rightarrow>
          if c = CHR 0x22 then map_option (map_prod JStr id) (read_string s)
          else if c = CHR ''['' then
            (if startswith r '']'' then Some (JList [], tl r) else map_option (map_prod JList id) (read_items n r))
          else if c = CHR ''{'' then
            (if startswith r ''}'' then Some (JObj [], tl r) else map_option (map_prod JObj id) (read_members n r))
          else if c = CHR ''n'' then read_word ''null'' JNull s
          else if c = CHR ''t'' then read_word ''true'' (JBool True) s
          else if c = CHR ''f'' then read_word ''false'' (JBool False) s
          else map_option (map_prod (\<lambda>k. JNum (of_int k)) id) (read_int s))"
| "read_items 0 s = None"
| "read_items (Suc n) s =
     (case read_value n s of
        None \<Rightarrow> None
      | Some (v, r) \<Rightarrow>
          (case r of
             [] \<Rightarrow> None
           | c # r1 \<Rightarrow>
               if c = CHR '']'' then Some ([v], r1)
               else if c = CHR '','' then map_option (map_prod (Cons v) id) (read_items n r1)
               else None))"
| "read_members 0 s = None"
| "read_members (Suc n) s =
     (case read_string s of
        None \<Rightarrow> None
      | Some (k, r) \<Rightarrow>
          (case r of
             [] \<Rightarrow> None
           | c # r1 \<Rightarrow>
               if c \<noteq> CHR '':'' then None
               else (case read_value n r1 of
                       None \<Rightarrow> None
                     | Some (v, r2) \<Rightarrow>
                         (case r2 of
                            [] \<Rightarrow> None
                          | e # r3 \<Rightarrow>
                              if e = CHR ''}'' then Some ([(k, v)], r3)
                              else if e = CHR '','' then map_option (map_prod (Cons (k, v)) id) (read_members n r3)
                              else None))))"

definition read_canonical :: "string \<Rightarrow> json option" where
  "read_canonical s = (case read_value (Suc (length s)) s of Some (v, []) \<Rightarrow> Some v | _ \<Rightarrow> None)"

section \<open>Canonical values\<close>

text \<open>Every number is integral, every object has distinct keys in order.\<close>

fun canonical :: "json \<Rightarrow> bool" where
  "canonical (JNum r) = (r = of_int \<lfloor>r\<rfloor>)"
| "canonical (JList vs) = list_all canonical vs"
| "canonical (JObj kvs) =
     (sorted (map fst kvs) \<and> distinct (map fst kvs) \<and> list_all (\<lambda>(k, v). canonical v) kvs)"
| "canonical v = True"

section \<open>Reading inverts writing\<close>

lemma hex_value_digit: "hex_value (hex_digit n) = n mod 16"
proof -
  have "\<forall>k \<in> set [0..<16]. hex_value (''0123456789abcdef'' ! k) = k" by code_simp
  then show ?thesis by (auto simp: hex_digit_def)
qed

lemma unesc_esc: "unesc (esc_char c @ r) = Some (c, r)"
proof -
  have "(of_char c :: nat) < 256" by (rule nat_of_char_less_256)
  then have "(of_char c :: nat) div 16 < 16" by linarith
  then have "16 * hex_value (hex_digit (of_char c div 16)) + hex_value (hex_digit (of_char c)) = (of_char c :: nat)"
    by (simp add: hex_value_digit)
  then show ?thesis by (auto simp: esc_char_def)
qed

lemma esc_char_Cons: "\<exists>d ds. esc_char c = d # ds \<and> d \<noteq> CHR 0x22"
  by (auto simp: esc_char_def)

lemma read_body_quoted: "read_body (concat (map esc_char s) @ CHR 0x22 # r) = Some (s, r)"
proof (induction s)
  case Nil
  then show ?case by (simp add: read_body.simps)
next
  case (Cons c s)
  obtain d ds where d: "esc_char c = d # ds" "d \<noteq> CHR 0x22" using esc_char_Cons by blast
  have "unesc (d # ds @ concat (map esc_char s) @ CHR 0x22 # r) = Some (c, concat (map esc_char s) @ CHR 0x22 # r)"
    using unesc_esc [of c "concat (map esc_char s) @ CHR 0x22 # r"] d by simp
  with Cons d show ?case by (subst read_body.simps) (simp del: unesc.simps)
qed

lemma read_string_quoted: "read_string (quoted s @ r) = Some (s, r)"
  using read_body_quoted [of s r] by (simp add: read_string_def quoted_def)

lemma quoted_Cons: "quoted s = CHR 0x22 # tl (quoted s)"
  by (simp add: quoted_def)

lemma read_value_quoted: "read_value (Suc n) (quoted s @ r) = Some (JStr s, r)"
  using read_string_quoted [of s r] by (simp add: quoted_def)

lemma is_digit_char [simp]: "is_digit (digit_char n)"
  by (simp add: is_digit_def)

lemma nat_digits_all: "list_all is_digit (nat_digits n)"
proof (induction n rule: nat_digits.induct)
  case (1 n)
  then show ?case by (subst nat_digits.simps) simp
qed

lemma nat_digits_not_Nil [simp]: "nat_digits n \<noteq> []"
  by (subst nat_digits.simps) simp

lemma undigits_nat_digits: "undigits (nat_digits n) = int n"
proof (induction n rule: nat_digits.induct)
  case (1 n)
  show ?case
  proof (cases "n < 10")
    case True
    have "undigits [digit_char (int n)] = int n" using True by (simp add: undigits_def)
    then show ?thesis using True by (subst nat_digits.simps) simp
  next
    case False
    with 1 have "undigits (nat_digits n) = int (n div 10) * 10 + int n mod 10"
      by (subst nat_digits.simps) simp
    then show ?thesis by (simp add: zdiv_int)
  qed
qed

abbreviation no_digit :: "string \<Rightarrow> bool" where
  "no_digit r \<equiv> r = [] \<or> \<not> is_digit (hd r)"

lemma read_nat_digits: "no_digit r \<Longrightarrow> read_nat (nat_digits n @ r) = Some (int n, r)"
proof -
  assume r: "no_digit r"
  have a: "\<And>c. c \<in> set (nat_digits n) \<Longrightarrow> is_digit c" using nat_digits_all [of n] by (simp add: list_all_iff)
  have "takeWhile is_digit r = []" "dropWhile is_digit r = r" using r by (cases r; simp)+
  then have "takeWhile is_digit (nat_digits n @ r) = nat_digits n" "dropWhile is_digit (nat_digits n @ r) = r"
    using a by (simp_all add: takeWhile_append2 dropWhile_append2)
  then show ?thesis by (simp add: read_nat_def undigits_nat_digits)
qed

lemma nat_digits_hd: "\<exists>d ds. nat_digits n = d # ds \<and> is_digit d"
  using nat_digits_all [of n] nat_digits_not_Nil [of n] by (cases "nat_digits n") auto

lemma int_str_hd: "\<exists>d ds. int_str n = d # ds \<and> (d = CHR ''-'' \<or> is_digit d)"
  using nat_digits_hd [of "nat n"] by (auto simp: int_str_def)

lemma read_int_str: "no_digit r \<Longrightarrow> read_int (int_str n @ r) = Some (n, r)"
proof -
  assume r: "no_digit r"
  obtain d ds where d: "nat_digits (nat n) = d # ds" "is_digit d" using nat_digits_hd by blast
  have "d \<noteq> CHR ''-''" using d(2) by (auto simp: is_digit_def less_eq_char_def)
  with d read_nat_digits [OF r, of "nat n"] read_nat_digits [OF r, of "nat (- n)"]
  show ?thesis by (auto simp: int_str_def read_int_def)
qed

lemma digit_not_special:
  "is_digit d \<Longrightarrow> d \<noteq> CHR 0x22 \<and> d \<noteq> CHR ''['' \<and> d \<noteq> CHR ''{'' \<and> d \<noteq> CHR '']'' \<and> d \<noteq> CHR ''}''
     \<and> d \<noteq> CHR ''n'' \<and> d \<noteq> CHR ''t'' \<and> d \<noteq> CHR ''f''"
  by (auto simp: is_digit_def less_eq_char_def)

lemma dumps_hd:
  "canonical v \<Longrightarrow> \<exists>d ds. dumps fr v = d # ds \<and> d \<noteq> CHR '']'' \<and> d \<noteq> CHR ''}''"
proof (cases v)
  case (JNum r)
  assume "canonical v"
  with JNum int_str_hd [of "\<lfloor>r\<rfloor>"] show ?thesis by (auto dest: digit_not_special)
qed (auto simp: quoted_def)

lemma startswith_single: "startswith s [c] \<longleftrightarrow> (\<exists>r. s = c # r)"
  by (cases s) (auto simp: startswith_def)

lemma joined_Cons: "xs \<noteq> [] \<Longrightarrow> joined (x # xs) = x @ '','' @ joined xs"
  by (cases xs) auto

definition reads_back :: "(rat \<Rightarrow> string) \<Rightarrow> json \<Rightarrow> bool" where
  "reads_back fr v \<longleftrightarrow>
     (\<forall>n r. length (dumps fr v) \<le> n \<longrightarrow> no_digit r \<longrightarrow> read_value n (dumps fr v @ r) = Some (v, r))"

lemma reads_backI:
  assumes "dumps fr v \<noteq> []"
    and "\<And>n r. length (dumps fr v) \<le> Suc n \<Longrightarrow> no_digit r \<Longrightarrow> read_value (Suc n) (dumps fr v @ r) = Some (v, r)"
  shows "reads_back fr v"
  unfolding reads_back_def
proof (intro allI impI)
  fix n r
  assume n: "length (dumps fr v) \<le> n" and r: "no_digit r"
  from n assms(1) obtain m where "n = Suc m" by (cases n) auto
  with assms(2) n r show "read_value n (dumps fr v @ r) = Some (v, r)" by blast
qed

lemma reads_backD:
  "reads_back fr v \<Longrightarrow> length (dumps fr v) \<le> n \<Longrightarrow> no_digit r \<Longrightarrow> read_value n (dumps fr v @ r) = Some (v, r)"
  unfolding reads_back_def by blast

lemma read_items_joined:
  assumes "vs \<noteq> []" and "\<And>v. v \<in> set vs \<Longrightarrow> reads_back fr v"
    and "length (joined (map (dumps fr) vs)) < n"
  shows "read_items n (joined (map (dumps fr) vs) @ CHR '']'' # r) = Some (vs, r)"
  using assms
proof (induction vs arbitrary: n)
  case Nil
  then show ?case by simp
next
  case (Cons v vs)
  from Cons.prems(3) obtain m where n: "n = Suc m" by (cases n) auto
  have v: "reads_back fr v" using Cons.prems(2) by simp
  show ?case
  proof (cases "vs = []")
    case True
    have "read_value m (dumps fr v @ CHR '']'' # r) = Some (v, CHR '']'' # r)"
      using v Cons.prems(3) True n by (auto simp: reads_back_def is_digit_def less_eq_char_def)
    with True n show ?thesis by simp
  next
    case False
    then have j: "joined (map (dumps fr) (v # vs)) = dumps fr v @ CHR '','' # joined (map (dumps fr) vs)"
      by (simp add: joined_Cons)
    let ?r = "CHR '','' # joined (map (dumps fr) vs) @ CHR '']'' # r"
    have "read_value m (dumps fr v @ ?r) = Some (v, ?r)"
      using v Cons.prems(3) n j by (auto simp: reads_back_def is_digit_def less_eq_char_def)
    moreover have "read_items m (joined (map (dumps fr) vs) @ CHR '']'' # r) = Some (vs, r)"
      using Cons.IH [OF False, of m] Cons.prems(2,3) n j by simp
    ultimately show ?thesis using n j by simp
  qed
qed

definition member_text :: "(rat \<Rightarrow> string) \<Rightarrow> string \<times> json \<Rightarrow> string" where
  "member_text fr = (\<lambda>(k, v). quoted k @ '':'' @ dumps fr v)"

lemma read_members_joined:
  assumes "kvs \<noteq> []" and "\<And>k v. (k, v) \<in> set kvs \<Longrightarrow> reads_back fr v"
    and "length (joined (map (member_text fr) kvs)) < n"
  shows "read_members n (joined (map (member_text fr) kvs) @ CHR ''}'' # r) = Some (kvs, r)"
  using assms
proof (induction kvs arbitrary: n)
  case Nil
  then show ?case by simp
next
  case (Cons kv kvs)
  obtain k v where kv: "kv = (k, v)" by fastforce
  from Cons.prems(3) obtain m where n: "n = Suc m" by (cases n) auto
  have v: "reads_back fr v" using Cons.prems(2) kv by auto
  have m: "member_text fr kv = quoted k @ CHR '':'' # dumps fr v" by (simp add: member_text_def kv)
  have str: "read_string (quoted k @ CHR '':'' # x) = Some (k, CHR '':'' # x)" for x
    by (rule read_string_quoted)
  show ?case
  proof (cases "kvs = []")
    case True
    have "read_value m (dumps fr v @ CHR ''}'' # r) = Some (v, CHR ''}'' # r)"
      using v Cons.prems(3) True n m by (auto simp: reads_back_def is_digit_def less_eq_char_def)
    with True n m str kv show ?thesis by simp
  next
    case False
    then have j: "joined (map (member_text fr) (kv # kvs))
        = quoted k @ CHR '':'' # dumps fr v @ CHR '','' # joined (map (member_text fr) kvs)"
      by (simp add: joined_Cons m)
    let ?r = "CHR '','' # joined (map (member_text fr) kvs) @ CHR ''}'' # r"
    have "read_value m (dumps fr v @ ?r) = Some (v, ?r)"
      using v Cons.prems(3) n j by (auto simp: reads_back_def is_digit_def less_eq_char_def)
    moreover have "read_members m (joined (map (member_text fr) kvs) @ CHR ''}'' # r) = Some (kvs, r)"
      using Cons.IH [OF False, of m] Cons.prems(2,3) n j by fastforce
    ultimately show ?thesis using n j str kv by simp
  qed
qed

lemma dumps_obj:
  assumes "sorted (map fst kvs)"
  shows "dumps fr (JObj kvs) = ''{'' @ joined (map (member_text fr) kvs) @ ''}''"
proof -
  have "map fst (map (\<lambda>(k, v). (k, dumps fr v)) kvs) = map fst kvs" by (simp add: comp_def case_prod_beta)
  with assms have "sort_key fst (map (\<lambda>(k, v). (k, dumps fr v)) kvs) = map (\<lambda>(k, v). (k, dumps fr v)) kvs"
    by (metis sort_key_id_if_sorted)
  then show ?thesis by (simp add: member_text_def comp_def case_prod_unfold)
qed

lemma dumps_reads_back: "canonical v \<Longrightarrow> reads_back fr v"
proof (induction v)
  case JNull
  show ?case by (rule reads_backI) (simp_all add: read_word_def startswith_def)
next
  case (JBool b)
  show ?case by (rule reads_backI) (simp_all add: read_word_def startswith_def)
next
  case (JNum q)
  then have d: "dumps fr (JNum q) = int_str \<lfloor>q\<rfloor>" "JNum (of_int \<lfloor>q\<rfloor>) = JNum q" by simp_all
  show ?case
    unfolding reads_back_def
  proof (intro allI impI)
    fix n r
    assume n: "length (dumps fr (JNum q)) \<le> n" and r: "no_digit r"
    obtain c cs where c: "int_str \<lfloor>q\<rfloor> = c # cs" "c = CHR ''-'' \<or> is_digit c" using int_str_hd by blast
    from c(2) have "c \<noteq> CHR 0x22 \<and> c \<noteq> CHR ''['' \<and> c \<noteq> CHR ''{'' \<and> c \<noteq> CHR ''n'' \<and> c \<noteq> CHR ''t''
        \<and> c \<noteq> CHR ''f''" using digit_not_special [of c] by auto
    moreover from n c d obtain m where "n = Suc m" by (cases n) auto
    ultimately show "read_value n (dumps fr (JNum q) @ r) = Some (JNum q, r)"
      using read_int_str [OF r, of "\<lfloor>q\<rfloor>"] c(1) d by simp
  qed
next
  case (JStr s)
  show ?case by (rule reads_backI) (simp_all only: dumps.simps read_value_quoted, simp add: quoted_def)
next
  case (JList vs)
  show ?case
    unfolding reads_back_def
  proof (intro allI impI)
    fix n r
    assume n: "length (dumps fr (JList vs)) \<le> n"
    then obtain m where m: "n = Suc m" "length (joined (map (dumps fr) vs)) < m" by (cases n) auto
    show "read_value n (dumps fr (JList vs) @ r) = Some (JList vs, r)"
    proof (cases vs)
      case Nil
      with m show ?thesis by (simp add: startswith_single)
    next
      case (Cons v vs')
      have "\<not> startswith (joined (map (dumps fr) vs) @ CHR '']'' # r) '']''"
        using dumps_hd [of v fr] JList.prems Cons by (cases vs') (auto simp: startswith_single)
      moreover have "read_items m (joined (map (dumps fr) vs) @ CHR '']'' # r) = Some (vs, r)"
        using JList Cons m by (intro read_items_joined) (auto simp: list_all_iff)
      ultimately show ?thesis using m by simp
    qed
  qed
next
  case (JObj kvs)
  from JObj.prems have o: "dumps fr (JObj kvs) = ''{'' @ joined (map (member_text fr) kvs) @ ''}''"
    by (intro dumps_obj) simp
  show ?case
    unfolding reads_back_def
  proof (intro allI impI)
    fix n r
    assume n: "length (dumps fr (JObj kvs)) \<le> n"
    then obtain m where m: "n = Suc m" "length (joined (map (member_text fr) kvs)) < m"
      unfolding o by (cases n) auto
    have rb: "reads_back fr v" if "(k, v) \<in> set kvs" for k v
      using JObj.IH [of "(k, v)" v] that JObj.prems by (auto simp: list_all_iff)
    show "read_value n (dumps fr (JObj kvs) @ r) = Some (JObj kvs, r)"
    proof (cases kvs)
      case Nil
      with m show ?thesis by (simp add: startswith_single)
    next
      case (Cons kv kvs')
      have "\<not> startswith (joined (map (member_text fr) kvs) @ CHR ''}'' # r) ''}''"
        using Cons by (cases kvs'; cases kv) (auto simp: startswith_single member_text_def quoted_def)
      moreover have "read_members m (joined (map (member_text fr) kvs) @ CHR ''}'' # r) = Some (kvs, r)"
        using rb Cons m by (intro read_members_joined) auto
      ultimately show ?thesis using m unfolding o by simp
    qed
  qed
qed

lemma read_canonical_dumps: "canonical v \<Longrightarrow> read_canonical (dumps fr v) = Some v"
proof -
  assume "canonical v"
  then have "reads_back fr v" by (rule dumps_reads_back)
  then have "read_value (Suc (length (dumps fr v))) (dumps fr v @ []) = Some (v, [])"
    by (rule reads_backD) simp_all
  then have "read_value (Suc (length (dumps fr v))) (dumps fr v) = Some (v, [])"
    unfolding append_Nil2 .
  then show ?thesis unfolding read_canonical_def by (rule ssubst) simp
qed

lemma dumps_inject: "canonical v \<Longrightarrow> canonical w \<Longrightarrow> dumps fr v = dumps fr w \<longleftrightarrow> v = w"
  by (metis read_canonical_dumps option.inject)

section \<open>Values up to key order\<close>

text \<open>A Python dict has distinct keys in some order; its canonical form has them sorted.\<close>

fun sorted_json :: "json \<Rightarrow> json" where
  "sorted_json (JList vs) = JList (map sorted_json vs)"
| "sorted_json (JObj kvs) = JObj (sort_key fst (map (\<lambda>(k, v). (k, sorted_json v)) kvs))"
| "sorted_json v = v"

fun wf_json :: "json \<Rightarrow> bool" where
  "wf_json (JNum r) = (r = of_int \<lfloor>r\<rfloor>)"
| "wf_json (JList vs) = list_all wf_json vs"
| "wf_json (JObj kvs) = (distinct (map fst kvs) \<and> list_all (\<lambda>(k, v). wf_json v) kvs)"
| "wf_json v = True"

lemma insort_key_map:
  "(\<And>y. fst (g y) = fst y) \<Longrightarrow> insort_key fst (g x) (map g xs) = map g (insort_key fst x xs)"
  by (induction xs) auto

lemma sort_key_map:
  "(\<And>y. fst (g y) = fst y) \<Longrightarrow> sort_key fst (map g xs) = map g (sort_key fst xs)"
  by (induction xs) (simp_all add: insort_key_map)

lemma sorted_json_obj: "sorted_json (JObj kvs) = JObj (map (\<lambda>(k, v). (k, sorted_json v)) (sort_key fst kvs))"
  using sort_key_map [of "\<lambda>(k, v). (k, sorted_json v)" kvs] by (auto simp: case_prod_beta)

lemma dumps_sorted_json: "dumps fr (sorted_json v) = dumps fr v"
proof (induction v)
  case (JList vs)
  then have "map (dumps fr) (map sorted_json vs) = map (dumps fr) vs" by simp
  then show ?case by (simp only: sorted_json.simps dumps.simps)
next
  case (JObj kvs)
  have d: "sort_key fst (map (\<lambda>(k, v). (k, dumps fr v)) xs) = map (\<lambda>(k, v). (k, dumps fr v)) (sort_key fst xs)"
    for xs :: "(string \<times> json) list" by (rule sort_key_map) auto
  have s: "sort_key fst (map (\<lambda>(k, v). (k, sorted_json v)) (sort_key fst kvs)) = map (\<lambda>(k, v). (k, sorted_json v)) (sort_key fst kvs)"
    by (rule sort_key_id_if_sorted) (simp add: comp_def case_prod_unfold)
  have "map (\<lambda>(k, v). (k, dumps fr v)) (map (\<lambda>(k, v). (k, sorted_json v)) (sort_key fst kvs))
      = map (\<lambda>(k, v). (k, dumps fr v)) (sort_key fst kvs)"
    using JObj by (auto simp: case_prod_unfold)
  then show ?case unfolding sorted_json_obj dumps.simps d s by (simp only:)
qed simp_all

lemma canonical_sorted_json: "wf_json v \<Longrightarrow> canonical (sorted_json v)"
proof (induction v)
  case (JList vs)
  then show ?case by (auto simp: list_all_iff)
next
  case (JObj kvs)
  let ?ys = "map (\<lambda>(k, v). (k, sorted_json v)) (sort_key fst kvs)"
  have k: "map fst ?ys = map fst (sort_key fst kvs)" by (simp add: case_prod_unfold)
  have "sorted (map fst ?ys)" "distinct (map fst ?ys)"
    unfolding k using JObj.prems by (simp_all add: distinct_map)
  moreover have "list_all (\<lambda>(k, v). canonical v) ?ys"
    using JObj by (auto simp: list_all_iff)
  ultimately show ?case unfolding sorted_json_obj canonical.simps by blast
qed simp_all

lemma dumps_eq_iff: "wf_json v \<Longrightarrow> wf_json w \<Longrightarrow> dumps fr v = dumps fr w \<longleftrightarrow> sorted_json v = sorted_json w"
  using dumps_inject [OF canonical_sorted_json canonical_sorted_json, of v w fr] by (simp add: dumps_sorted_json)

lemma sorted_members:
  assumes "distinct (map fst xs)"
  shows "distinct (map fst (sort_key fst (map (\<lambda>(k, v). (k, sorted_json v)) xs)))"
    and "map_of (sort_key fst (map (\<lambda>(k, v). (k, sorted_json v)) xs)) k = map_option sorted_json (map_of xs k)"
proof -
  let ?ys = "map (\<lambda>(k, v). (k, sorted_json v)) xs"
  have d: "distinct (map fst ?ys)" using assms by (simp add: comp_def case_prod_unfold)
  show e: "distinct (map fst (sort_key fst ?ys))"
    using d by (simp only: distinct_map set_sort distinct_sort)
  have "map_of (sort_key fst ?ys) = map_of ?ys"
    using map_of_inject_set [OF e d] by (simp only: set_sort)
  then show "map_of (sort_key fst ?ys) k = map_option sorted_json (map_of xs k)" by (simp add: map_of_map)
qed

text \<open>Two objects with one canonical form have the same members, up to the order inside their values.\<close>

lemma sorted_json_obj_lookup:
  assumes "sorted_json (JObj kvs) = sorted_json (JObj kws)" and "distinct (map fst kvs)" and "distinct (map fst kws)"
  shows "map_option sorted_json (map_of kvs k) = map_option sorted_json (map_of kws k)"
  using assms(1) sorted_members(2) [OF assms(2), of k] sorted_members(2) [OF assms(3), of k] by simp

end
