(* ===== verification/Audit_Chain.thy ===== *)
theory Audit_Chain
  imports Delegation Json_Text "HOL-Library.Finite_Map"
begin

text \<open>
  The audit tape (\<open>broker/schemas/audit_record.py\<close>, \<open>broker/audit/_hash.py\<close>, \<open>_chain.py\<close>, \<open>_sink.py\<close>,
  \<open>broker/auditor/_chain_verifier.py\<close>): the record, the hash over its canonical JSON, \<open>emit\<close>, and the
  verification of a chain. SHA-256 and the text of a non-integral number are the arguments of
  \<open>hash_env\<close>; the canonical JSON itself is modelled. \<open>emit\<close> is written over any sink: the locale
  \<open>audit_sink\<close> states what a sink promises, and the in-memory sink keeps it here (the file sink in its
  own theory).

  The results: what \<open>emit\<close> writes always verifies; a verified tape is determined by the hash of its last
  record, as long as SHA-256 does not collide on the records concerned, so no edit, deletion, insertion or
  reordering under a known head goes unseen; a verified prefix stays verified, so dropping records at the
  end is not seen without a known head.
\<close>

section \<open>Records\<close>

record AuditRecord =
  au_seq :: int
  au_ts :: string
  au_principal :: Principal
  au_tool :: string
  au_op :: string
  argsDigest :: string
  au_decision :: string
  au_reason :: "string option"
  envelopeHash :: string
  au_approvedBy :: "string option"
  au_outcome :: string
  au_error :: "string option"
  au_seed :: "string option"
  intentId :: "string option"
  storedCallDigest :: "string option"
  resultDigest :: "string option"
  actorDigest :: "string option"
  evidenceBucket :: "string option"
  expiredAt :: "string option"
  inputsAsOf :: "(string, string) fmap option"
  au_horizon :: "string option"
  prevHash :: string
  au_hash :: string

definition AUDIT_DECISIONS :: "string list" where
  "AUDIT_DECISIONS = [''allow'', ''deny'', ''transform'', ''require_approval'', ''abstain'']"

definition AUDIT_OUTCOMES :: "string list" where
  "AUDIT_OUTCOMES =
     [''executed'', ''denied'', ''held'', ''refused'', ''failed'', ''rejected'', ''flagged'', ''observed'',
      ''expired'', ''permitted'']"

text \<open>Constructing a record validates its two enumerated fields.\<close>

definition mk_audit_record :: "AuditRecord \<Rightarrow> exn + AuditRecord" where
  "mk_audit_record r =
     bind_r (guard_r (au_decision r \<in> set AUDIT_DECISIONS) (Exn ''ValidationError'' ''decision'')) (\<lambda>_.
     bind_r (guard_r (au_outcome r \<in> set AUDIT_OUTCOMES) (Exn ''ValidationError'' ''outcome'')) (\<lambda>_.
       Inr r))"

section \<open>Hashing\<close>

record hash_env =
  sha256_hex :: "string \<Rightarrow> string"
  float_text :: "rat \<Rightarrow> string"

definition GENESIS_PREV_HASH :: "hash_env \<Rightarrow> string" where
  "GENESIS_PREV_HASH H = ''sha256:'' @ sha256_hex H ''''"

definition hash_args :: "hash_env \<Rightarrow> json \<Rightarrow> string" where
  "hash_args H args = ''sha256:'' @ sha256_hex H (dumps (float_text H) args)"

definition hash_record :: "hash_env \<Rightarrow> (string, json) dict \<Rightarrow> string" where
  "hash_record H record_fields = ''sha256:'' @ sha256_hex H (dumps (float_text H) (JObj record_fields))"

definition RECEIPT_FIELDS :: "string list" where
  "RECEIPT_FIELDS =
     [''intentId'', ''storedCallDigest'', ''resultDigest'', ''actorDigest'', ''evidenceBucket'',
      ''expiredAt'', ''inputsAsOf'', ''horizon'']"

definition hashable_fields :: "(string, json) dict \<Rightarrow> (string, json) dict" where
  "hashable_fields record_fields =
     filter (\<lambda>(k, v). \<not> (k \<in> set RECEIPT_FIELDS \<and> v = JNull)) record_fields"

definition opt_json :: "string option \<Rightarrow> json" where
  "opt_json x = (case x of None \<Rightarrow> JNull | Some s \<Rightarrow> JStr s)"

definition str_map_json :: "(string, string) fmap option \<Rightarrow> json" where
  "str_map_json x =
     (case x of None \<Rightarrow> JNull
      | Some m \<Rightarrow> JObj (map (\<lambda>(k, v). (k, JStr v)) (sorted_list_of_fmap m)))"

text \<open>Every field except \<open>hash\<close>, as \<open>emit\<close> and \<open>verify_chain\<close> both spell it.\<close>

definition record_fields :: "AuditRecord \<Rightarrow> (string, json) dict" where
  "record_fields r =
     [(''seq'', JNum (of_int (au_seq r))),
      (''ts'', JStr (au_ts r)),
      (''principal'', principal_json (au_principal r)),
      (''tool'', JStr (au_tool r)),
      (''op'', JStr (au_op r)),
      (''argsDigest'', JStr (argsDigest r)),
      (''decision'', JStr (au_decision r)),
      (''reason'', opt_json (au_reason r)),
      (''envelopeHash'', JStr (envelopeHash r)),
      (''approvedBy'', opt_json (au_approvedBy r)),
      (''outcome'', JStr (au_outcome r)),
      (''error'', opt_json (au_error r)),
      (''seed'', opt_json (au_seed r)),
      (''intentId'', opt_json (intentId r)),
      (''storedCallDigest'', opt_json (storedCallDigest r)),
      (''resultDigest'', opt_json (resultDigest r)),
      (''actorDigest'', opt_json (actorDigest r)),
      (''evidenceBucket'', opt_json (evidenceBucket r)),
      (''expiredAt'', opt_json (expiredAt r)),
      (''inputsAsOf'', str_map_json (inputsAsOf r)),
      (''horizon'', opt_json (au_horizon r)),
      (''prevHash'', JStr (prevHash r))]"

definition record_hash :: "hash_env \<Rightarrow> AuditRecord \<Rightarrow> string" where
  "record_hash H r = hash_record H (hashable_fields (record_fields r))"

section \<open>Sinks and \<open>emit\<close>\<close>

text \<open>\<open>sk_enter\<close> is what entering the sink's lock does to the sink (nothing in memory; a refresh from disk
  for a file). A sink that cannot be entered is unchanged.\<close>

record 's AuditSink =
  sk_enter :: "'s \<Rightarrow> exn + 's"
  sk_append :: "AuditRecord \<Rightarrow> 's \<Rightarrow> exn + 's"
  sk_last_hash :: "'s \<Rightarrow> string"
  sk_next_seq :: "'s \<Rightarrow> int"

record emission =
  em_principal :: Principal
  em_tool :: string
  em_op :: string
  em_args :: json
  em_decision :: string
  em_outcome :: string
  em_envelope_hash :: string
  em_reason :: "string option"
  em_approved_by :: "string option"
  em_error :: "string option"
  em_seed :: "string option"
  em_intent_id :: "string option"
  em_stored_call_digest :: "string option"
  em_result_digest :: "string option"
  em_actor_digest :: "string option"
  em_evidence_bucket :: "string option"
  em_expired_at :: "string option"
  em_inputs_as_of :: "(string, string) fmap option"
  em_horizon :: "string option"

definition build_record :: "hash_env \<Rightarrow> emission \<Rightarrow> instant \<Rightarrow> int \<Rightarrow> string \<Rightarrow> AuditRecord" where
  "build_record H e now seqn prev =
     (let r = \<lparr>au_seq = seqn, au_ts = isoformat_utc now, au_principal = em_principal e, au_tool = em_tool e,
               au_op = em_op e, argsDigest = hash_args H (em_args e), au_decision = em_decision e,
               au_reason = em_reason e, envelopeHash = em_envelope_hash e,
               au_approvedBy = em_approved_by e, au_outcome = em_outcome e, au_error = em_error e,
               au_seed = em_seed e, intentId = em_intent_id e,
               storedCallDigest = em_stored_call_digest e, resultDigest = em_result_digest e,
               actorDigest = em_actor_digest e, evidenceBucket = em_evidence_bucket e,
               expiredAt = em_expired_at e,
               inputsAsOf = (if em_inputs_as_of e = Some fmempty then None else em_inputs_as_of e),
               au_horizon = em_horizon e, prevHash = prev, au_hash = ''''\<rparr>
      in r\<lparr>au_hash := record_hash H r\<rparr>)"

definition emit :: "hash_env \<Rightarrow> 's AuditSink \<Rightarrow> emission \<Rightarrow> instant \<Rightarrow> 's \<Rightarrow> (exn + AuditRecord) \<times> 's" where
  "emit H S e now s =
     (case sk_enter S s of
        Inl x \<Rightarrow> (Inl x, s)
      | Inr s1 \<Rightarrow>
          (case mk_audit_record (build_record H e now (sk_next_seq S s1) (sk_last_hash S s1)) of
             Inl x \<Rightarrow> (Inl x, s1)
           | Inr r \<Rightarrow> (case sk_append S r s1 of Inl x \<Rightarrow> (Inl x, s1) | Inr s2 \<Rightarrow> (Inr r, s2))))"

type_synonym InMemorySink = "AuditRecord list"

definition sinkmem_append :: "AuditRecord \<Rightarrow> InMemorySink \<Rightarrow> exn + InMemorySink" where
  "sinkmem_append r s =
     bind_r (guard_r (au_seq r = int (length s)) (ValueError ''seq mismatch'')) (\<lambda>_. Inr (s @ [r]))"

definition sinkmem_last_hash :: "hash_env \<Rightarrow> InMemorySink \<Rightarrow> string" where
  "sinkmem_last_hash H s = (if s = [] then GENESIS_PREV_HASH H else au_hash (last s))"

definition sinkmem_ops :: "hash_env \<Rightarrow> InMemorySink AuditSink" where
  "sinkmem_ops H =
     \<lparr>sk_enter = Inr, sk_append = sinkmem_append, sk_last_hash = sinkmem_last_hash H,
      sk_next_seq = (\<lambda>s. int (length s))\<rparr>"

section \<open>Verification\<close>

abbreviation ChainError :: "string \<Rightarrow> exn" where
  "ChainError m \<equiv> Exn ''ChainError'' m"

definition gap_message :: "int \<Rightarrow> int \<Rightarrow> string" where
  "gap_message expected found = ''seq gap detected: expected '' @ int_str expected @ '', found '' @ int_str found"

definition prev_message :: "int \<Rightarrow> string \<Rightarrow> string \<Rightarrow> string" where
  "prev_message n expected got =
     ''prevHash mismatch at seq='' @ int_str n @ '': expected '' @ py_repr expected @ '', got '' @ py_repr got"

definition hash_message :: "int \<Rightarrow> string \<Rightarrow> string \<Rightarrow> string" where
  "hash_message n stored computed =
     ''hash mismatch at seq='' @ int_str n @ '': record was tampered (stored='' @ py_repr stored
     @ '', computed='' @ py_repr computed @ '')''"

text \<open>The empty list returns at once; the loop does too.\<close>

fun verify_chain :: "hash_env \<Rightarrow> AuditRecord list \<Rightarrow> int \<Rightarrow> string \<Rightarrow> exn + unit" where
  "verify_chain H [] expected_seq prev_hash = Inr ()"
| "verify_chain H (r # rs) expected_seq prev_hash =
     bind_r (guard_r (au_seq r = expected_seq) (ChainError (gap_message expected_seq (au_seq r)))) (\<lambda>_.
     bind_r (guard_r (prevHash r = prev_hash) (ChainError (prev_message (au_seq r) prev_hash (prevHash r)))) (\<lambda>_.
     bind_r (guard_r (au_hash r = record_hash H r)
       (ChainError (hash_message (au_seq r) (au_hash r) (record_hash H r)))) (\<lambda>_.
       verify_chain H rs (expected_seq + 1) (au_hash r))))"

text \<open>\<open>re.search\<close> of a literal followed by \<open>(\d+)\<close>: the digits after the first occurrence that has any.\<close>

fun search_number :: "string \<Rightarrow> string \<Rightarrow> int option" where
  "search_number lit [] = None"
| "search_number lit (c # s) =
     (if startswith (c # s) lit \<and> takeWhile is_digit (drop (length lit) (c # s)) \<noteq> []
      then Some (undigits (takeWhile is_digit (drop (length lit) (c # s))))
      else search_number lit s)"

text \<open>The two patterns; the second is \<open>(?:prevHash|hash) mismatch at seq=(\d+)\<close>, whose alternatives both end in
  \<open>Hash\<close> or \<open>hash\<close>.\<close>

fun search_mismatch :: "string \<Rightarrow> int option" where
  "search_mismatch [] = None"
| "search_mismatch (c # s) =
     (let num = (\<lambda>lit. if startswith (c # s) lit then takeWhile is_digit (drop (length lit) (c # s)) else []);
          p = num ''prevHash mismatch at seq=''; h = num ''hash mismatch at seq=''
      in if p \<noteq> [] then Some (undigits p) else if h \<noteq> [] then Some (undigits h) else search_mismatch s)"

definition extract_seq :: "string \<Rightarrow> int option" where
  "extract_seq msg =
     (case search_number ''seq gap detected: expected '' msg of
        Some n \<Rightarrow> Some n
      | None \<Rightarrow> search_mismatch msg)"

record ChainIntegrityFinding =
  intact :: bool
  cf_error :: "string option"
  broken_seq :: "int option"

definition check_chain_integrity :: "hash_env \<Rightarrow> AuditRecord list \<Rightarrow> ChainIntegrityFinding" where
  "check_chain_integrity H records =
     (case verify_chain H records 0 (GENESIS_PREV_HASH H) of
        Inr _ \<Rightarrow> \<lparr>intact = True, cf_error = None, broken_seq = None\<rparr>
      | Inl e \<Rightarrow> \<lparr>intact = False, cf_error = Some (exn_str e), broken_seq = extract_seq (exn_str e)\<rparr>)"

section \<open>Linked tapes\<close>

definition head_hash :: "string \<Rightarrow> AuditRecord list \<Rightarrow> string" where
  "head_hash prev rs = (if rs = [] then prev else au_hash (last rs))"

fun linked :: "hash_env \<Rightarrow> int \<Rightarrow> string \<Rightarrow> AuditRecord list \<Rightarrow> bool" where
  "linked H n prev [] = True"
| "linked H n prev (r # rs) =
     (au_seq r = n \<and> prevHash r = prev \<and> au_hash r = record_hash H r \<and> linked H (n + 1) (au_hash r) rs)"

lemma head_hash_simps [simp]:
  "head_hash prev [] = prev" "head_hash prev (r # rs) = head_hash (au_hash r) rs"
  "head_hash prev (rs @ [r]) = au_hash r"
  by (simp_all add: head_hash_def)

lemma verify_chain_linked: "verify_chain H rs n prev = Inr () \<longleftrightarrow> linked H n prev rs"
  by (induction rs arbitrary: n prev) (auto simp: bind_r_Inr_iff)

lemma linked_append:
  "linked H n prev (xs @ ys) \<longleftrightarrow> linked H n prev xs \<and> linked H (n + int (length xs)) (head_hash prev xs) ys"
  by (induction xs arbitrary: n prev) (auto simp: algebra_simps)

lemma linked_nth_seq: "linked H n prev rs \<Longrightarrow> i < length rs \<Longrightarrow> au_seq (rs ! i) = n + int i"
proof (induction rs arbitrary: n prev i)
  case (Cons r rs)
  then show ?case by (cases i) fastforce+
qed simp

lemma verify_chain_unit: "verify_chain H rs n prev = Inr u \<longleftrightarrow> linked H n prev rs"
  by (cases u) (simp add: verify_chain_linked)

section \<open>The sink contract\<close>

abbreviation valid_record :: "AuditRecord \<Rightarrow> bool" where
  "valid_record r \<equiv> au_decision r \<in> set AUDIT_DECISIONS \<and> au_outcome r \<in> set AUDIT_OUTCOMES"

abbreviation valid_emission :: "emission \<Rightarrow> bool" where
  "valid_emission e \<equiv> em_decision e \<in> set AUDIT_DECISIONS \<and> em_outcome e \<in> set AUDIT_OUTCOMES"

text \<open>\<open>tape\<close> is what a reader of the sink sees. A sink can always be entered, entering it changes nothing a
  reader sees and shows the current end of the tape, and an append of the next number adds that record.\<close>

locale audit_sink =
  fixes H :: hash_env
    and S :: "'s AuditSink"
    and wf :: "'s \<Rightarrow> bool"
    and tape :: "'s \<Rightarrow> AuditRecord list"
  assumes enter: "wf s \<Longrightarrow> \<exists>s1. sk_enter S s = Inr s1 \<and> wf s1 \<and> tape s1 = tape s
      \<and> sk_next_seq S s1 = int (length (tape s))
      \<and> sk_last_hash S s1 = head_hash (GENESIS_PREV_HASH H) (tape s)"
    and append: "wf s \<Longrightarrow> sk_enter S s = Inr s1 \<Longrightarrow> valid_record r \<Longrightarrow> au_seq r = int (length (tape s)) \<Longrightarrow>
      \<exists>s2. sk_append S r s1 = Inr s2 \<and> wf s2 \<and> tape s2 = tape s @ [r]"

lemma build_record_simps [simp]:
  "au_seq (build_record H e now n prev) = n" "prevHash (build_record H e now n prev) = prev"
  "au_decision (build_record H e now n prev) = em_decision e"
  "au_outcome (build_record H e now n prev) = em_outcome e"
  by (simp_all add: build_record_def Let_def)

lemma record_hash_ignores_hash [simp]: "record_hash H (r\<lparr>au_hash := h\<rparr>) = record_hash H r"
  by (simp add: record_hash_def record_fields_def)

lemma build_record_hash [simp]:
  "au_hash (build_record H e now n prev) = record_hash H (build_record H e now n prev)"
  by (simp add: build_record_def Let_def record_hash_def record_fields_def)

lemma mk_audit_record_eq: "valid_record r \<Longrightarrow> mk_audit_record r = Inr r"
  by (simp add: mk_audit_record_def)

definition emit_all :: "hash_env \<Rightarrow> 's AuditSink \<Rightarrow> (emission \<times> instant) list \<Rightarrow> 's \<Rightarrow> 's" where
  "emit_all H S es s = foldl (\<lambda>s (e, now). snd (emit H S e now s)) s es"

context audit_sink
begin

lemma emit_valid:
  assumes "wf s" and "valid_emission e"
    and r: "r = build_record H e now (int (length (tape s))) (head_hash (GENESIS_PREV_HASH H) (tape s))"
  shows "\<exists>s2. emit H S e now s = (Inr r, s2) \<and> wf s2 \<and> tape s2 = tape s @ [r]"
proof -
  from enter [OF assms(1)] obtain s1 where s1: "sk_enter S s = Inr s1"
    "sk_next_seq S s1 = int (length (tape s))" "sk_last_hash S s1 = head_hash (GENESIS_PREV_HASH H) (tape s)"
    by blast
  have "valid_record r" using assms(2) r by simp
  moreover obtain s2 where "sk_append S r s1 = Inr s2" "wf s2" "tape s2 = tape s @ [r]"
    using append [OF assms(1) s1(1) \<open>valid_record r\<close>] r by auto
  ultimately show ?thesis using s1 r by (simp add: emit_def mk_audit_record_eq)
qed

lemma emit_invalid:
  assumes "wf s" and "\<not> valid_emission e"
  shows "\<exists>x s2. emit H S e now s = (Inl x, s2) \<and> wf s2 \<and> tape s2 = tape s"
proof -
  from enter [OF assms(1)] obtain s1 where "sk_enter S s = Inr s1" "wf s1" "tape s1 = tape s" by blast
  with assms(2) show ?thesis by (auto simp: emit_def mk_audit_record_def guard_r_def)
qed

lemma emit_linked:
  assumes "wf s" and "linked H 0 (GENESIS_PREV_HASH H) (tape s)"
  shows "wf (snd (emit H S e now s)) \<and> linked H 0 (GENESIS_PREV_HASH H) (tape (snd (emit H S e now s)))
    \<and> length (tape (snd (emit H S e now s))) = length (tape s) + (if valid_emission e then 1 else 0)"
proof (cases "valid_emission e")
  case True
  from emit_valid [OF assms(1) True refl, of now] assms(2) True show ?thesis by (auto simp: linked_append)
next
  case False
  from emit_invalid [OF assms(1) False, of now] assms(2) False show ?thesis by auto
qed

lemma emit_all_linked:
  "wf s \<Longrightarrow> linked H 0 (GENESIS_PREV_HASH H) (tape s) \<Longrightarrow>
     wf (emit_all H S es s) \<and> linked H 0 (GENESIS_PREV_HASH H) (tape (emit_all H S es s))
     \<and> length (tape (emit_all H S es s)) = length (tape s) + length (filter (\<lambda>(e, now). valid_emission e) es)"
proof (induction es arbitrary: s)
  case Nil
  then show ?case by (simp add: emit_all_def)
next
  case (Cons x es)
  obtain e now where x: "x = (e, now)" by fastforce
  from Cons.IH [of "snd (emit H S e now s)"] emit_linked [OF Cons.prems, of e now] x show ?case
    by (simp add: emit_all_def)
qed

end

interpretation sinkmem: audit_sink H "sinkmem_ops H" "\<lambda>_. True" id for H
  by unfold_locales
     (auto simp: sinkmem_ops_def sinkmem_last_hash_def sinkmem_append_def head_hash_def)

section \<open>The hashed text determines the record\<close>

lemma opt_json_eq [simp]: "opt_json x = opt_json y \<longleftrightarrow> x = y" "opt_json x = JNull \<longleftrightarrow> x = None"
  by (auto simp: opt_json_def split: option.splits)

lemma sorted_json_opt [simp]: "sorted_json (opt_json x) = opt_json x"
  by (simp add: opt_json_def split: option.split)

lemma sorted_fmap_keys: "map fst (sorted_list_of_fmap m) = sorted_list_of_fset (fmdom m)"
  by (simp add: sorted_list_of_fmap_def comp_def)

lemma sorted_json_str_map [simp]: "sorted_json (str_map_json x) = str_map_json x"
proof (cases x)
  case (Some m)
  have "map fst (map (\<lambda>(k, v). (k, JStr v)) (sorted_list_of_fmap m)) = sorted_list_of_fset (fmdom m)"
    by (simp add: sorted_fmap_keys [symmetric] case_prod_unfold)
  then have "sort_key fst (map (\<lambda>(k, v). (k, JStr v)) (sorted_list_of_fmap m))
      = map (\<lambda>(k, v). (k, JStr v)) (sorted_list_of_fmap m)"
    by (intro sort_key_id_if_sorted) (simp add: sorted_list_of_fset.rep_eq)
  with Some show ?thesis by (simp add: str_map_json_def comp_def case_prod_unfold)
qed (simp add: str_map_json_def)

lemma str_map_json_eq [simp]:
  "str_map_json x = str_map_json y \<longleftrightarrow> x = y" "str_map_json x = JNull \<longleftrightarrow> x = None"
proof -
  have inj: "inj (\<lambda>(k :: string, v). (k, JStr v))" by (auto simp: inj_def)
  have "m = m'" if "map (\<lambda>(k, v). (k, JStr v)) (sorted_list_of_fmap m) = map (\<lambda>(k, v). (k, JStr v)) (sorted_list_of_fmap m')"
    for m m' :: "(string, string) fmap"
  proof -
    have "sorted_list_of_fmap m = sorted_list_of_fmap m'" using that inj by (simp add: inj_map_eq_map)
    then have "fmlookup m = fmlookup m'" by (metis map_of_sorted_list)
    then show ?thesis by (simp add: fmap_ext)
  qed
  then show "str_map_json x = str_map_json y \<longleftrightarrow> x = y" "str_map_json x = JNull \<longleftrightarrow> x = None"
    by (auto simp: str_map_json_def split: option.splits)
qed

lemma wf_principal_json [simp]: "wf_json (principal_json p)"
  by (simp add: principal_json_def)

lemma sorted_principal_json [simp]: "sorted_json (principal_json p) = sorted_json (principal_json q) \<longleftrightarrow> p = q"
proof -
  have "sorted_json (principal_json p) =
      JObj [(''agentId'', JStr (agentId p)), (''skill'', JStr (skill p)), (''tier'', JStr (tier_str (tier p))),
            (''user'', JStr (user p))]" for p
    by (simp add: principal_json_def less_char_def less_eq_char_def)
  then show ?thesis by auto
qed

lemma wf_opt_json [simp]: "wf_json (opt_json x)"
  by (simp add: opt_json_def split: option.split)

lemma wf_str_map_json [simp]: "wf_json (str_map_json x)"
proof (cases x)
  case (Some m)
  have "map fst (map (\<lambda>(k, v). (k, JStr v)) (sorted_list_of_fmap m)) = sorted_list_of_fset (fmdom m)"
    by (simp add: sorted_fmap_keys [symmetric] case_prod_unfold)
  then have "distinct (map fst (map (\<lambda>(k, v). (k, JStr v)) (sorted_list_of_fmap m)))"
    by (simp only:) (simp add: sorted_list_of_fset.rep_eq)
  with Some show ?thesis by (auto simp: str_map_json_def list_all_iff)
qed (simp add: str_map_json_def)

lemma record_fields_distinct: "distinct (map fst (record_fields r))"
  by (simp add: record_fields_def)

lemma hashable_distinct: "distinct (map fst fs) \<Longrightarrow> distinct (map fst (hashable_fields fs))"
  by (simp add: hashable_fields_def distinct_map_filter)

lemma record_fields_wf: "wf_json (JObj (hashable_fields (record_fields r)))"
proof -
  have "list_all (\<lambda>(k, v). wf_json v) (record_fields r)" by (simp add: record_fields_def)
  then have "list_all (\<lambda>(k, v). wf_json v) (hashable_fields (record_fields r))"
    by (auto simp: hashable_fields_def list_all_iff)
  with hashable_distinct [OF record_fields_distinct] show ?thesis by simp
qed

lemma hashable_lookup:
  assumes "distinct (map fst fs)"
  shows "map_of (hashable_fields fs) k =
    (case map_of fs k of None \<Rightarrow> None | Some v \<Rightarrow> if k \<in> set RECEIPT_FIELDS \<and> v = JNull then None else Some v)"
  using assms
  by (induction fs) (auto simp: hashable_fields_def map_of_eq_None_iff image_iff split: option.splits)

definition record_text :: "hash_env \<Rightarrow> AuditRecord \<Rightarrow> string" where
  "record_text H r = dumps (float_text H) (JObj (hashable_fields (record_fields r)))"

text \<open>A receipt field that is absent from both texts, or present with one value in both, is one value.\<close>

lemma receipt_eq:
  "map_option sorted_json (if x = None then None else Some (opt_json x))
     = map_option sorted_json (if y = None then None else Some (opt_json y)) \<longleftrightarrow> x = y"
  "map_option sorted_json (if m = None then None else Some (str_map_json m))
     = map_option sorted_json (if n = None then None else Some (str_map_json n)) \<longleftrightarrow> m = n"
  by auto

lemma record_text_inject:
  assumes "record_text H r = record_text H q"
  shows "r\<lparr>au_hash := h\<rparr> = q\<lparr>au_hash := h\<rparr>"
proof -
  have "sorted_json (JObj (hashable_fields (record_fields r))) = sorted_json (JObj (hashable_fields (record_fields q)))"
    using assms dumps_eq_iff [OF record_fields_wf record_fields_wf] by (simp only: record_text_def)
  from sorted_json_obj_lookup [OF this hashable_distinct hashable_distinct]
  have look: "map_option sorted_json (map_of (hashable_fields (record_fields r)) k)
      = map_option sorted_json (map_of (hashable_fields (record_fields q)) k)" for k
    by (simp add: record_fields_distinct)
  note field = look [unfolded hashable_lookup [OF record_fields_distinct]]
  have str: "au_ts r = au_ts q" "au_tool r = au_tool q" "au_op r = au_op q" "argsDigest r = argsDigest q"
    "au_decision r = au_decision q" "envelopeHash r = envelopeHash q" "au_outcome r = au_outcome q"
    "prevHash r = prevHash q"
    using field [of "''ts''"] field [of "''tool''"] field [of "''op''"] field [of "''argsDigest''"]
      field [of "''decision''"] field [of "''envelopeHash''"] field [of "''outcome''"] field [of "''prevHash''"]
    by (simp_all add: record_fields_def RECEIPT_FIELDS_def)
  have opt: "au_reason r = au_reason q" "au_approvedBy r = au_approvedBy q" "au_error r = au_error q"
    "au_seed r = au_seed q" "au_seq r = au_seq q" "au_principal r = au_principal q"
    using field [of "''reason''"] field [of "''approvedBy''"] field [of "''error''"] field [of "''seed''"]
      field [of "''seq''"] field [of "''principal''"]
    by (simp_all add: record_fields_def RECEIPT_FIELDS_def)
  note receipts = record_fields_def RECEIPT_FIELDS_def receipt_eq
  have rec: "intentId r = intentId q" "storedCallDigest r = storedCallDigest q" "resultDigest r = resultDigest q" "actorDigest r = actorDigest q"
    "evidenceBucket r = evidenceBucket q" "expiredAt r = expiredAt q" "au_horizon r = au_horizon q" "inputsAsOf r = inputsAsOf q"
    using field [of "''intentId''"] field [of "''storedCallDigest''"] field [of "''resultDigest''"]
      field [of "''actorDigest''"] field [of "''evidenceBucket''"] field [of "''expiredAt''"]
      field [of "''horizon''"] field [of "''inputsAsOf''"]
    by (simp_all add: receipts)
  from str opt rec show ?thesis by (intro AuditRecord.equality) simp_all
qed

lemma record_hash_text: "record_hash H r = ''sha256:'' @ sha256_hex H (record_text H r)"
  by (simp add: record_hash_def hash_record_def record_text_def)

lemma same_hash_same_record:
  assumes "au_hash r = record_hash H r" and "au_hash q = record_hash H q" and "au_hash r = au_hash q"
    and "inj_on (sha256_hex H) (record_text H ` A)" and "r \<in> A" and "q \<in> A"
  shows "r = q"
proof -
  from assms(1-3) have "sha256_hex H (record_text H r) = sha256_hex H (record_text H q)"
    by (simp add: record_hash_text)
  with assms(4-6) have "record_text H r = record_text H q" by (auto dest: inj_onD)
  from record_text_inject [OF this, of "au_hash r"] have "r = q\<lparr>au_hash := au_hash r\<rparr>" by simp
  with assms(3) show ?thesis by simp
qed

lemma linked_same_head:
  assumes "linked H n prev rs" and "linked H n prev qs" and "rs \<noteq> []" and "qs \<noteq> []"
    and "au_hash (last rs) = au_hash (last qs)"
    and "inj_on (sha256_hex H) (record_text H ` A)" and "set rs \<subseteq> A" and "set qs \<subseteq> A"
  shows "rs = qs"
  using assms
proof (induction rs arbitrary: qs rule: rev_induct)
  case Nil
  then show ?case by simp
next
  case (snoc r xs)
  obtain ys q where qs: "qs = ys @ [q]" using snoc.prems(4) by (cases qs rule: rev_cases) auto
  from snoc.prems(1,2) qs have r: "linked H n prev xs" "au_seq r = n + int (length xs)"
    "prevHash r = head_hash prev xs" "au_hash r = record_hash H r"
    and q: "linked H n prev ys" "au_seq q = n + int (length ys)" "prevHash q = head_hash prev ys"
    "au_hash q = record_hash H q"
    by (simp_all add: linked_append)
  have "r = q" using same_hash_same_record [OF r(4) q(4) _ snoc.prems(6)] snoc.prems(5,7,8) qs by simp
  with r q have len: "length xs = length ys" and head: "head_hash prev xs = head_hash prev ys" by simp_all
  have "xs = ys"
  proof (cases "xs = []")
    case True
    with len show ?thesis by simp
  next
    case False
    with len have "ys \<noteq> []" by auto
    from snoc.IH [OF r(1) q(1) False this _ snoc.prems(6)] head False \<open>ys \<noteq> []\<close> snoc.prems(7,8) qs
    show ?thesis by (simp add: head_hash_def)
  qed
  with \<open>r = q\<close> qs show ?case by simp
qed

lemma intact_linked: "intact (check_chain_integrity H rs) \<longleftrightarrow> linked H 0 (GENESIS_PREV_HASH H) rs"
  by (auto simp: check_chain_integrity_def verify_chain_unit split: sum.splits)
     (metis verify_chain_linked sum.distinct(1))

section \<open>Results\<close>

text \<open>What the broker writes verifies. After any sequence of \<open>emit\<close> calls on an empty in-memory sink,
  the auditor finds the tape intact, and the tape has exactly one record for each call with a valid
  decision and outcome (a call with another raises and writes nothing).\<close>

lemma emitted_tape_verifies:
  "check_chain_integrity H (emit_all H (sinkmem_ops H) es []) = \<lparr>intact = True, cf_error = None, broken_seq = None\<rparr>
   \<and> length (emit_all H (sinkmem_ops H) es [])
       = length (filter (\<lambda>(e, now). em_decision e \<in> set AUDIT_DECISIONS \<and> em_outcome e \<in> set AUDIT_OUTCOMES) es)"
  using sinkmem.emit_all_linked [of H "[]" es] by (simp add: check_chain_integrity_def verify_chain_linked [THEN iffD2])

text \<open>C38: the head hash binds the whole history. Two tapes the auditor finds intact and whose last records
  carry the same hash are equal, record by record and field by field, unless SHA-256 collides on two of
  their record texts: under a known head no record can be edited, removed, inserted or reordered. The
  proof goes through the canonical JSON: equal texts come from equal records.\<close>

theorem head_hash_binds_history:
  assumes "intact (check_chain_integrity H rs)" and "intact (check_chain_integrity H qs)"
    and "rs \<noteq> []" and "qs \<noteq> []" and "au_hash (last rs) = au_hash (last qs)"
    and "inj_on (sha256_hex H) (record_text H ` (set rs \<union> set qs))"
  shows "rs = qs"
  using linked_same_head [OF _ _ assms(3-6)] assms(1,2) by (auto simp: intact_linked)

definition sample_hash_env :: hash_env where
  "sample_hash_env = \<lparr>sha256_hex = id, float_text = (\<lambda>_. ''0.5'')\<rparr>"

definition sample_emission :: emission where
  "sample_emission =
     \<lparr>em_principal = sample_principal, em_tool = ''email'', em_op = ''send'', em_args = JObj [(''to'', JStr ''a'')],
      em_decision = ''allow'', em_outcome = ''executed'', em_envelope_hash = ''e'', em_reason = None,
      em_approved_by = None, em_error = None, em_seed = None, em_intent_id = None,
      em_stored_call_digest = None, em_result_digest = Some ''d'', em_actor_digest = None,
      em_evidence_bucket = None, em_expired_at = None, em_inputs_as_of = None, em_horizon = None\<rparr>"

definition sample_audit_tape :: "AuditRecord list" where
  "sample_audit_tape =
     emit_all sample_hash_env (sinkmem_ops sample_hash_env)
       [(sample_emission, 0), (sample_emission\<lparr>em_outcome := ''failed''\<rparr>, 1000000)] []"

lemma sample_audit_tape:
  "linked sample_hash_env 0 (GENESIS_PREV_HASH sample_hash_env) sample_audit_tape" "length sample_audit_tape = 2"
  using sinkmem.emit_all_linked [of sample_hash_env "[]"
      "[(sample_emission, 0), (sample_emission\<lparr>em_outcome := ''failed''\<rparr>, 1000000)]"]
  by (simp_all add: sample_audit_tape_def sample_emission_def AUDIT_DECISIONS_def AUDIT_OUTCOMES_def)

theorem head_hash_binds_history_witness:
  "sample_audit_tape =
     emit_all sample_hash_env (sinkmem_ops sample_hash_env) [(sample_emission\<lparr>em_outcome := ''failed''\<rparr>, 1000000)]
       (emit_all sample_hash_env (sinkmem_ops sample_hash_env) [(sample_emission, 0)] [])" (is "_ = ?q")
proof -
  have q: "?q = sample_audit_tape" by (simp add: sample_audit_tape_def emit_all_def)
  show ?thesis
    by (rule head_hash_binds_history [where H = sample_hash_env])
       (use sample_audit_tape in \<open>auto simp only: q intact_linked, auto simp: sample_hash_env_def\<close>)
qed

text \<open>Records dropped from the end are not seen. Every prefix of an intact tape is intact, so the
  auditor's check alone does not notice that the last records were deleted.\<close>

lemma tail_deletion_unseen:
  assumes "intact (check_chain_integrity H rs)"
  shows "intact (check_chain_integrity H (take k rs))"
  using assms linked_append [of H 0 "GENESIS_PREV_HASH H" "take k rs" "drop k rs"] by (simp add: intact_linked)

lemma tail_deletion_unseen_witness:
  "intact (check_chain_integrity sample_hash_env (take 1 sample_audit_tape)) \<and> length sample_audit_tape = 2"
  using tail_deletion_unseen [of sample_hash_env sample_audit_tape 1] sample_audit_tape
  by (simp add: intact_linked)

definition misdirecting_record :: AuditRecord where
  "misdirecting_record =
     (build_record sample_hash_env sample_emission 0 0 ''seq gap detected: expected 999'')"

text \<open>The place a finding names can be chosen by whoever altered the tape. The number is searched for in
  the error message, which quotes the altered record's own \<open>prevHash\<close>: on a one-record tape whose first
  record is broken, the finding names number 999.\<close>

lemma broken_seq_can_be_forged:
  "au_seq misdirecting_record = 0
   \<and> \<not> intact (check_chain_integrity sample_hash_env [misdirecting_record])
   \<and> broken_seq (check_chain_integrity sample_hash_env [misdirecting_record]) = Some 999"
  by code_simp

end
