(* ===== verification/Audit_File.thy ===== *)
theory Audit_File
  imports Audit_Chain
begin

text \<open>
  The local file sink (\<open>broker/audit/_file_sink.py\<close>): one JSON line per record, shared by several
  processes. A sink is its cached counters and the tape on disk; entering the lock creates a missing tape
  and refreshes the counters from it. The operating system's lock makes one \<open>emit\<close> a single step, which
  is how the shared tape of several processes is modelled. The text of a line is pydantic's
  (\<open>model_dump_json\<close>, \<open>model_validate_json\<close>): the argument \<open>line_codec\<close> with the laws of the locale
  \<open>json_lines\<close>.

  The results: scanning a tape that ends in a torn write gives exactly the committed records, and
  resuming trims exactly the torn bytes; any number of processes with stale counters keep one linked
  tape; a sink that is already open does not trim a torn tail, so its next record is lost and the tape
  is unreadable from then on.
\<close>

section \<open>Bytes\<close>

definition bytes_space :: "char \<Rightarrow> bool" where
  "bytes_space c = (c \<in> {CHR '' '', CHR 0x09, CHR 0x0A, CHR 0x0B, CHR 0x0C, CHR 0x0D})"

definition bytes_strip :: "string \<Rightarrow> string" where
  "bytes_strip s = rev (dropWhile bytes_space (rev (dropWhile bytes_space s)))"

abbreviation NL :: char where "NL \<equiv> CHR 0x0A"

section \<open>Scanning a tape\<close>

record line_codec =
  dump_line :: "AuditRecord \<Rightarrow> string"
  parse_line :: "string \<Rightarrow> exn + AuditRecord"

text \<open>\<open>data\<close> is the file from \<open>pos\<close> on.\<close>

function scan_from ::
  "line_codec \<Rightarrow> string \<Rightarrow> nat \<Rightarrow> AuditRecord list \<Rightarrow> nat \<Rightarrow> exn + (AuditRecord list \<times> nat \<times> bool)" where
  "scan_from C data pos records valid_bytes =
     (if data = [] then Inr (records, valid_bytes, False)
      else
        (case dropWhile (\<lambda>c. c \<noteq> NL) data of
           [] \<Rightarrow> Inr (records, valid_bytes, bytes_strip data \<noteq> [])
         | _ # rest \<Rightarrow>
             let line = bytes_strip (takeWhile (\<lambda>c. c \<noteq> NL) data);
                 next_pos = pos + length (takeWhile (\<lambda>c. c \<noteq> NL) data) + 1
             in if line = [] then scan_from C rest next_pos records next_pos
                else (case parse_line C line of
                        Inl e \<Rightarrow> Inl (ValueError ''corrupt audit record'')
                      | Inr r \<Rightarrow> scan_from C rest next_pos (records @ [r]) next_pos)))"
  by auto
termination
proof (relation "measure (\<lambda>(C, data, _). length data)")
  fix C data pos records valid_bytes x rest line next_pos
  assume "dropWhile (\<lambda>c. c \<noteq> NL) data = x # rest"
  then have "length rest < length data" by (metis length_Cons length_dropWhile_le less_eq_Suc_le)
  then show "((C, rest, next_pos, records, next_pos), C, data, pos, records, valid_bytes)
      \<in> measure (\<lambda>(C, data, _). length data)"
    and "((C, rest, next_pos, records @ [r], next_pos), C, data, pos, records, valid_bytes)
      \<in> measure (\<lambda>(C, data, _). length data)" for r
    by simp_all
qed simp

declare scan_from.simps [simp del]

definition scan :: "line_codec \<Rightarrow> string option \<Rightarrow> exn + (AuditRecord list \<times> nat \<times> bool)" where
  "scan C file = (case file of None \<Rightarrow> Inr ([], 0, False) | Some data \<Rightarrow> scan_from C data 0 [] 0)"

section \<open>The sink\<close>

record FileAuditSink =
  fs_file :: "string option"
  fs_seq :: int
  fs_last_hash :: string

definition refresh_from_disk :: "line_codec \<Rightarrow> FileAuditSink \<Rightarrow> exn + FileAuditSink" where
  "refresh_from_disk C s =
     bind_r (scan C (fs_file s)) (\<lambda>(records, _, _).
       Inr (if records = [] then s
            else s\<lparr>fs_seq := au_seq (last records) + 1, fs_last_hash := au_hash (last records)\<rparr>))"

definition tape_enter :: "line_codec \<Rightarrow> FileAuditSink \<Rightarrow> exn + FileAuditSink" where
  "tape_enter C s =
     refresh_from_disk C (s\<lparr>fs_file := Some (case fs_file s of None \<Rightarrow> [] | Some data \<Rightarrow> data)\<rparr>)"

definition file_append :: "line_codec \<Rightarrow> AuditRecord \<Rightarrow> FileAuditSink \<Rightarrow> exn + FileAuditSink" where
  "file_append C r s =
     bind_r (guard_r (au_seq r = fs_seq s) (ValueError ''seq mismatch'')) (\<lambda>_.
       Inr \<lparr>fs_file = Some ((case fs_file s of None \<Rightarrow> [] | Some data \<Rightarrow> data) @ dump_line C r @ [NL]),
            fs_seq = fs_seq s + 1, fs_last_hash = au_hash r\<rparr>)"

definition file_ops :: "line_codec \<Rightarrow> FileAuditSink AuditSink" where
  "file_ops C =
     \<lparr>sk_enter = tape_enter C, sk_append = file_append C, sk_last_hash = fs_last_hash, sk_next_seq = fs_seq\<rparr>"

definition file_open :: "hash_env \<Rightarrow> string option \<Rightarrow> FileAuditSink" where
  "file_open H file = \<lparr>fs_file = file, fs_seq = 0, fs_last_hash = GENESIS_PREV_HASH H\<rparr>"

definition resuming :: "hash_env \<Rightarrow> line_codec \<Rightarrow> string option \<Rightarrow> exn + FileAuditSink" where
  "resuming H C file =
     bind_r (scan C file) (\<lambda>(records, valid_bytes, torn).
       let file' = (if torn then map_option (take valid_bytes) file else file)
       in Inr (if records \<noteq> []
               then \<lparr>fs_file = file', fs_seq = au_seq (last records) + 1, fs_last_hash = au_hash (last records)\<rparr>
               else file_open H file'))"

definition file_records :: "line_codec \<Rightarrow> FileAuditSink \<Rightarrow> exn + AuditRecord list" where
  "file_records C s = bind_r (scan C (fs_file s)) (\<lambda>(records, _, _). Inr records)"

section \<open>Committed tapes\<close>

locale json_lines =
  fixes C :: line_codec
  assumes parse_dump: "valid_record r \<Longrightarrow> parse_line C (dump_line C r) = Inr r"
    and one_line: "NL \<notin> set (dump_line C r)"
    and stripped: "bytes_strip (dump_line C r) = dump_line C r"
    and not_blank: "dump_line C r \<noteq> []"

definition tape_lines :: "line_codec \<Rightarrow> AuditRecord list \<Rightarrow> string" where
  "tape_lines C rs = concat (map (\<lambda>r. dump_line C r @ [NL]) rs)"

lemma tape_lines_simps [simp]:
  "tape_lines C [] = []" "tape_lines C (r # rs) = dump_line C r @ NL # tape_lines C rs"
  "tape_lines C (rs @ qs) = tape_lines C rs @ tape_lines C qs"
  by (simp_all add: tape_lines_def)

lemma split_at_newline:
  "NL \<notin> set a \<Longrightarrow> takeWhile (\<lambda>c. c \<noteq> NL) (a @ NL # b) = a \<and> dropWhile (\<lambda>c. c \<noteq> NL) (a @ NL # b) = NL # b"
  by (induction a) auto

lemma no_newline_scan:
  assumes "NL \<notin> set torn"
  shows "scan_from C torn pos records valid_bytes = Inr (records, valid_bytes, bytes_strip torn \<noteq> [])"
proof (cases "torn = []")
  case True
  then show ?thesis by (simp add: scan_from.simps [of C "[]"] bytes_strip_def)
next
  case False
  moreover have "dropWhile (\<lambda>c. c \<noteq> NL) torn = []" using assms by (auto simp: dropWhile_eq_Nil_conv)
  ultimately show ?thesis by (subst scan_from.simps) (simp only: if_False list.case)
qed

context json_lines
begin

lemma scan_line:
  assumes "NL \<notin> set a" and "bytes_strip a = l" and "l \<noteq> []"
  shows "scan_from C (a @ NL # b) pos records v =
    (case parse_line C l of
       Inl e \<Rightarrow> Inl (ValueError ''corrupt audit record'')
     | Inr r \<Rightarrow> scan_from C b (pos + length a + 1) (records @ [r]) (pos + length a + 1))"
  using assms split_at_newline [OF assms(1), of b] by (subst scan_from.simps) (simp add: Let_def cong: sum.case_cong)

lemma scan_past:
  assumes "list_all valid_record rs"
  shows "scan_from C (tape_lines C rs @ x) pos records pos
    = scan_from C x (pos + length (tape_lines C rs)) (records @ rs) (pos + length (tape_lines C rs))"
  using assms
proof (induction rs arbitrary: pos records)
  case Nil
  then show ?case by simp
next
  case (Cons r rs)
  have "tape_lines C (r # rs) @ x = dump_line C r @ NL # tape_lines C rs @ x" by simp
  then have "scan_from C (tape_lines C (r # rs) @ x) pos records pos
      = scan_from C (tape_lines C rs @ x) (pos + length (dump_line C r) + 1) (records @ [r])
          (pos + length (dump_line C r) + 1)"
    using scan_line [OF one_line stripped not_blank, of r "tape_lines C rs @ x" pos records pos]
      parse_dump [of r] Cons.prems by simp
  with Cons show ?case by (simp add: add.assoc)
qed

lemma scan_committed:
  assumes "list_all valid_record rs" and "NL \<notin> set torn"
  shows "scan_from C (tape_lines C rs @ torn) pos records pos
    = Inr (records @ rs, pos + length (tape_lines C rs), bytes_strip torn \<noteq> [])"
  using scan_past [OF assms(1)] no_newline_scan [OF assms(2)] by simp

text \<open>A full line that is not a record: the scan raises, wherever it stands.\<close>

lemma scan_corrupt:
  assumes "list_all valid_record rs" and "NL \<notin> set a" and "bytes_strip a \<noteq> []"
    and "parse_line C (bytes_strip a) = Inl e"
  shows "scan C (Some (tape_lines C rs @ a @ NL # b)) = Inl (ValueError ''corrupt audit record'')"
  using scan_past [OF assms(1), of "a @ NL # b" 0 "[]"] scan_line [OF assms(2) refl assms(3)] assms(4)
  by (simp add: scan_def)

lemma scan_tape:
  "list_all valid_record rs \<Longrightarrow> NL \<notin> set torn \<Longrightarrow>
     scan C (Some (tape_lines C rs @ torn)) = Inr (rs, length (tape_lines C rs), bytes_strip torn \<noteq> [])"
  using scan_committed [of rs torn 0 "[]"] by (simp add: scan_def)

end

section \<open>The file sink keeps the sink contract\<close>

text \<open>The tape on disk is the committed lines of valid records numbered from 0. The counters may be stale: they
  are only required to be fresh while the tape is empty.\<close>

definition tape_of :: "line_codec \<Rightarrow> AuditRecord list \<Rightarrow> string option \<Rightarrow> bool" where
  "tape_of C rs file \<longleftrightarrow>
     list_all valid_record rs \<and> (\<forall>i < length rs. au_seq (rs ! i) = int i)
     \<and> (file = Some (tape_lines C rs) \<or> file = None \<and> rs = [])"

definition file_wf :: "hash_env \<Rightarrow> line_codec \<Rightarrow> FileAuditSink \<Rightarrow> bool" where
  "file_wf H C s \<longleftrightarrow>
     (\<exists>rs. tape_of C rs (fs_file s)
        \<and> (rs = [] \<longrightarrow> fs_seq s = 0 \<and> fs_last_hash s = GENESIS_PREV_HASH H))"

definition file_tape :: "line_codec \<Rightarrow> FileAuditSink \<Rightarrow> AuditRecord list" where
  "file_tape C s = (case file_records C s of Inl _ \<Rightarrow> [] | Inr rs \<Rightarrow> rs)"

context json_lines
begin

lemma scan_tape_of: "tape_of C rs file \<Longrightarrow> scan C file = Inr (rs, length (tape_lines C rs), False)"
  using scan_tape [of rs "[]"] by (auto simp: tape_of_def scan_def bytes_strip_def)

lemma file_tape_of: "tape_of C rs (fs_file s) \<Longrightarrow> file_tape C s = rs"
  by (simp add: file_tape_def file_records_def scan_tape_of)

lemma last_seq: "tape_of C rs file \<Longrightarrow> rs \<noteq> [] \<Longrightarrow> au_seq (last rs) + 1 = int (length rs)"
  by (cases rs rule: rev_cases) (auto simp: tape_of_def)

lemma tape_enter_of:
  assumes "tape_of C rs (fs_file s)" and "rs = [] \<Longrightarrow> fs_seq s = 0 \<and> fs_last_hash s = GENESIS_PREV_HASH H"
  shows "tape_enter C s = Inr \<lparr>fs_file = Some (tape_lines C rs), fs_seq = int (length rs),
    fs_last_hash = head_hash (GENESIS_PREV_HASH H) rs\<rparr>"
proof -
  have f: "Some (case fs_file s of None \<Rightarrow> [] | Some data \<Rightarrow> data) = Some (tape_lines C rs)"
    using assms(1) by (auto simp: tape_of_def)
  have t: "tape_of C rs (Some (tape_lines C rs))" using assms(1) by (auto simp: tape_of_def)
  show ?thesis
    unfolding tape_enter_def f refresh_from_disk_def
    using scan_tape_of [OF t] assms(2) last_seq [OF t] by (simp add: head_hash_def)
qed

end

sublocale json_lines \<subseteq> disk: audit_sink H "file_ops C" "file_wf H C" "file_tape C" for H
proof (unfold_locales, goal_cases)
  case (1 s)
  then obtain rs where rs: "tape_of C rs (fs_file s)"
    "rs = [] \<longrightarrow> fs_seq s = 0 \<and> fs_last_hash s = GENESIS_PREV_HASH H" unfolding file_wf_def by blast
  let ?s1 = "\<lparr>fs_file = Some (tape_lines C rs), fs_seq = int (length rs),
    fs_last_hash = head_hash (GENESIS_PREV_HASH H) rs\<rparr>"
  have t: "tape_of C rs (fs_file ?s1)" using rs(1) by (auto simp: tape_of_def)
  then have "file_wf H C ?s1" unfolding file_wf_def by (intro exI [of _ rs]) simp
  with tape_enter_of [OF rs(1), of H] rs file_tape_of [OF rs(1)] file_tape_of [OF t] show ?case
    by (simp add: file_ops_def)
next
  case (2 s s1 r)
  then obtain rs where rs: "tape_of C rs (fs_file s)"
    "rs = [] \<longrightarrow> fs_seq s = 0 \<and> fs_last_hash s = GENESIS_PREV_HASH H" unfolding file_wf_def by blast
  have s1: "s1 = \<lparr>fs_file = Some (tape_lines C rs), fs_seq = int (length rs),
    fs_last_hash = head_hash (GENESIS_PREV_HASH H) rs\<rparr>"
    using 2(2) tape_enter_of [OF rs(1), of H] rs(2) by (simp add: file_ops_def)
  have len: "file_tape C s = rs" by (rule file_tape_of [OF rs(1)])
  let ?s2 = "\<lparr>fs_file = Some (tape_lines C (rs @ [r])), fs_seq = int (length rs) + 1, fs_last_hash = au_hash r\<rparr>"
  have t: "tape_of C (rs @ [r]) (fs_file ?s2)"
    using rs(1) 2(3,4) len by (auto simp: tape_of_def nth_append less_Suc_eq)
  then have "file_wf H C ?s2" unfolding file_wf_def by (intro exI [of _ "rs @ [r]"]) simp
  with 2(4) len s1 file_tape_of [OF t] show ?case by (simp add: file_ops_def file_append_def)
qed

section \<open>Several processes, one tape\<close>

record 'p hosts =
  shared_tape :: "string option"
  caches :: "'p \<Rightarrow> int \<times> string"

definition hosts_start :: "hash_env \<Rightarrow> 'p hosts" where
  "hosts_start H = \<lparr>shared_tape = None, caches = (\<lambda>_. (0, GENESIS_PREV_HASH H))\<rparr>"

definition host_sink :: "'p hosts \<Rightarrow> 'p \<Rightarrow> FileAuditSink" where
  "host_sink g p = \<lparr>fs_file = shared_tape g, fs_seq = fst (caches g p), fs_last_hash = snd (caches g p)\<rparr>"

definition host_emit :: "hash_env \<Rightarrow> line_codec \<Rightarrow> 'p \<times> emission \<times> instant \<Rightarrow> 'p hosts \<Rightarrow> 'p hosts" where
  "host_emit H C x g =
     (case x of (p, e, now) \<Rightarrow>
        let s = snd (emit H (file_ops C) e now (host_sink g p))
        in \<lparr>shared_tape = fs_file s, caches = (caches g)(p := (fs_seq s, fs_last_hash s))\<rparr>)"

definition hosts_run :: "hash_env \<Rightarrow> line_codec \<Rightarrow> ('p \<times> emission \<times> instant) list \<Rightarrow> 'p hosts \<Rightarrow> 'p hosts" where
  "hosts_run H C xs g = foldl (\<lambda>g x. host_emit H C x g) g xs"

context json_lines
begin

definition hosts_ok :: "hash_env \<Rightarrow> AuditRecord list \<Rightarrow> 'p hosts \<Rightarrow> bool" where
  "hosts_ok H rs g \<longleftrightarrow>
     tape_of C rs (shared_tape g) \<and> linked H 0 (GENESIS_PREV_HASH H) rs
     \<and> (rs = [] \<longrightarrow> (\<forall>p. caches g p = (0, GENESIS_PREV_HASH H)))"

lemma hosts_ok_start: "hosts_ok H [] (hosts_start H)"
  by (simp add: hosts_ok_def hosts_start_def tape_of_def)

lemma host_emit_ok:
  assumes "hosts_ok H rs g"
  shows "\<exists>qs. hosts_ok H qs (host_emit H C (p, e, now) g)
    \<and> length qs = length rs + (if valid_emission e then 1 else 0)"
proof -
  let ?s = "host_sink g p"
  let ?s2 = "snd (emit H (file_ops C) e now ?s)"
  have t: "tape_of C rs (fs_file ?s)" using assms by (simp add: hosts_ok_def host_sink_def)
  have wf: "file_wf H C ?s"
    using assms unfolding file_wf_def by (intro exI [of _ rs]) (auto simp: hosts_ok_def host_sink_def)
  have lk: "linked H 0 (GENESIS_PREV_HASH H) (file_tape C ?s)"
    using assms file_tape_of [OF t] by (simp add: hosts_ok_def)
  from disk.emit_linked [OF wf lk, of e now] obtain qs where
    qs: "tape_of C qs (fs_file ?s2)" "qs = [] \<longrightarrow> fs_seq ?s2 = 0 \<and> fs_last_hash ?s2 = GENESIS_PREV_HASH H"
    unfolding file_wf_def by blast
  have "linked H 0 (GENESIS_PREV_HASH H) qs" "length qs = length rs + (if valid_emission e then 1 else 0)"
    using disk.emit_linked [OF wf lk, of e now] file_tape_of [OF qs(1)] file_tape_of [OF t] by simp_all
  moreover have "hosts_ok H qs (host_emit H C (p, e, now) g)"
    using qs calculation assms by (auto simp: hosts_ok_def host_emit_def Let_def)
  ultimately show ?thesis by blast
qed

lemma hosts_run_ok:
  "hosts_ok H rs g \<Longrightarrow>
     \<exists>qs. hosts_ok H qs (hosts_run H C xs g)
       \<and> length qs = length rs + length (filter (\<lambda>(p, e, now). valid_emission e) xs)"
proof (induction xs arbitrary: rs g)
  case Nil
  then show ?case by (auto simp: hosts_run_def)
next
  case (Cons x xs)
  obtain p e now where x: "x = (p, e, now)" by (cases x) auto
  from host_emit_ok [OF Cons.prems, of p e now] obtain rs1
    where rs1: "hosts_ok H rs1 (host_emit H C x g)" "length rs1 = length rs + (if valid_emission e then 1 else 0)"
    unfolding x by blast
  from Cons.IH [OF rs1(1)] rs1(2) show ?case by (auto simp: hosts_run_def x split: if_splits)
qed

end

section \<open>JSON lines\<close>

text \<open>A codec that keeps the laws: every field of the record as one canonical JSON object.\<close>

definition full_json :: "AuditRecord \<Rightarrow> json" where
  "full_json r = JObj (record_fields r @ [(''hash'', JStr (au_hash r))])"

definition json_str :: "json option \<Rightarrow> string" where
  "json_str v = (case v of Some (JStr s) \<Rightarrow> s | _ \<Rightarrow> [])"

definition json_opt :: "json option \<Rightarrow> string option" where
  "json_opt v = (case v of Some (JStr s) \<Rightarrow> Some s | _ \<Rightarrow> None)"

definition json_int :: "json option \<Rightarrow> int" where
  "json_int v = (case v of Some (JNum q) \<Rightarrow> \<lfloor>q\<rfloor> | _ \<Rightarrow> 0)"

definition json_members :: "json option \<Rightarrow> (string \<times> json) list" where
  "json_members v = (case v of Some (JObj kvs) \<Rightarrow> kvs | _ \<Rightarrow> [])"

definition json_str_map :: "json option \<Rightarrow> (string, string) fmap option" where
  "json_str_map v =
     (case v of
        Some (JObj kvs) \<Rightarrow> Some (fmap_of_list (map (\<lambda>(k, x). (k, json_str (Some x))) kvs))
      | _ \<Rightarrow> None)"

definition tier_of :: "string \<Rightarrow> tier" where
  "tier_of s = (if s = ''A'' then TierA else if s = ''B'' then TierB else if s = ''C'' then TierC else TierD)"

definition json_principal :: "json option \<Rightarrow> Principal" where
  "json_principal v =
     (let f = map_of (json_members v) in
      \<lparr>agentId = json_str (f ''agentId''), skill = json_str (f ''skill''), user = json_str (f ''user''),
       tier = tier_of (json_str (f ''tier''))\<rparr>)"

definition record_of_fields :: "(string \<Rightarrow> json option) \<Rightarrow> AuditRecord" where
  "record_of_fields f =
     \<lparr>au_seq = json_int (f ''seq''), au_ts = json_str (f ''ts''), au_principal = json_principal (f ''principal''),
      au_tool = json_str (f ''tool''), au_op = json_str (f ''op''), argsDigest = json_str (f ''argsDigest''),
      au_decision = json_str (f ''decision''), au_reason = json_opt (f ''reason''),
      envelopeHash = json_str (f ''envelopeHash''), au_approvedBy = json_opt (f ''approvedBy''),
      au_outcome = json_str (f ''outcome''), au_error = json_opt (f ''error''), au_seed = json_opt (f ''seed''),
      intentId = json_opt (f ''intentId''), storedCallDigest = json_opt (f ''storedCallDigest''),
      resultDigest = json_opt (f ''resultDigest''), actorDigest = json_opt (f ''actorDigest''),
      evidenceBucket = json_opt (f ''evidenceBucket''), expiredAt = json_opt (f ''expiredAt''),
      inputsAsOf = json_str_map (f ''inputsAsOf''), au_horizon = json_opt (f ''horizon''),
      prevHash = json_str (f ''prevHash''), au_hash = json_str (f ''hash'')\<rparr>"

definition json_line_codec :: line_codec where
  "json_line_codec =
     \<lparr>dump_line = (\<lambda>r. dumps (\<lambda>_. []) (full_json r)),
      parse_line = (\<lambda>s. case read_canonical s of
                          Some (JObj kvs) \<Rightarrow> Inr (record_of_fields (map_of kvs))
                        | _ \<Rightarrow> Inl (Exn ''ValidationError'' ''record''))\<rparr>"

lemma tier_of_str [simp]: "tier_of (tier_str t) = t"
  by (cases t) (simp_all add: tier_of_def tier_str_def)

lemma json_opt_json [simp]: "json_opt (Some (opt_json x)) = x"
  by (simp add: json_opt_def opt_json_def split: option.split)

lemma json_str_JStr [simp]: "json_str (Some (JStr s)) = s"
  by (simp add: json_str_def)

lemma json_int_JNum [simp]: "json_int (Some (JNum (of_int n))) = n"
  by (simp add: json_int_def)

lemma json_str_map_json [simp]: "json_str_map (Some (str_map_json x)) = x"
proof (cases x)
  case (Some m)
  have "map ((\<lambda>(k, x). (k, json_str (Some x))) \<circ> (\<lambda>(k, v). (k, JStr v))) (sorted_list_of_fmap m) = sorted_list_of_fmap m"
    by (simp add: comp_def case_prod_unfold)
  moreover have "fmap_of_list (sorted_list_of_fmap m) = m" by (rule fmap_ext) (simp add: fmlookup_of_list)
  ultimately show ?thesis using Some by (simp add: json_str_map_def str_map_json_def)
qed (simp add: json_str_map_def str_map_json_def)

lemma json_principal_json [simp]: "json_principal (Some (sorted_json (principal_json p))) = p"
  by (simp add: json_principal_def json_members_def principal_json_def less_char_def less_eq_char_def Let_def)

lemma map_of_sorted_json:
  assumes "distinct (map fst kvs)" and "sorted_json (JObj kvs) = JObj kws"
  shows "map_of kws k = map_option sorted_json (map_of kvs k)"
  using assms(2) sorted_members(2) [OF assms(1), of k] by auto

lemma full_fields_distinct: "distinct (map fst (record_fields r @ [(''hash'', JStr (au_hash r))]))"
  by (simp add: record_fields_def)

lemma full_json_wf: "wf_json (full_json r)"
proof -
  have "list_all (\<lambda>(k, v). wf_json v) (record_fields r @ [(''hash'', JStr (au_hash r))])"
    by (simp add: record_fields_def)
  with full_fields_distinct [of r] show ?thesis by (simp only: full_json_def wf_json.simps)
qed

lemma record_of_full: "record_of_fields (\<lambda>k. map_option sorted_json (map_of (record_fields r @ [(''hash'', JStr (au_hash r))]) k)) = r"
  by (simp add: record_of_fields_def record_fields_def)

lemma json_line_parse: "parse_line json_line_codec (dump_line json_line_codec r) = Inr r"
proof -
  obtain kws where k: "sorted_json (full_json r) = JObj kws" by (simp add: full_json_def)
  have "read_canonical (dumps (\<lambda>_. []) (full_json r)) = Some (JObj kws)"
    using read_canonical_dumps [OF canonical_sorted_json [OF full_json_wf [of r]], of "\<lambda>_. []"]
    by (simp only: dumps_sorted_json) (simp only: k)
  moreover have "map_of kws = (\<lambda>k. map_option sorted_json (map_of (record_fields r @ [(''hash'', JStr (au_hash r))]) k))"
    using map_of_sorted_json [OF full_fields_distinct k [unfolded full_json_def]] by (rule ext)
  ultimately show ?thesis using record_of_full [of r] by (simp add: json_line_codec_def)
qed

lemma esc_char_line: "NL \<notin> set (esc_char c)"
proof -
  have "hex_digit n \<noteq> NL" for n
  proof -
    have "\<forall>k \<in> set [0..<16]. ''0123456789abcdef'' ! k \<noteq> NL" by code_simp
    then show ?thesis by (auto simp: hex_digit_def)
  qed
  then have "NL \<noteq> hex_digit n" for n by metis
  then show ?thesis by (auto simp: esc_char_def)
qed

lemma quoted_line: "NL \<notin> set (quoted s)"
  by (auto simp: quoted_def esc_char_line)

lemma int_str_line: "NL \<notin> set (int_str n)"
proof -
  have "NL \<notin> set (nat_digits k)" for k
    using nat_digits_all [of k] by (auto simp: list_all_iff is_digit_def less_eq_char_def)
  then show ?thesis by (simp add: int_str_def)
qed

lemma joined_line: "(\<And>x. x \<in> set xs \<Longrightarrow> NL \<notin> set x) \<Longrightarrow> NL \<notin> set (joined xs)"
  by (induction xs rule: joined.induct) auto

lemma dumps_line: "wf_json v \<Longrightarrow> NL \<notin> set (dumps fr v)"
proof (induction v)
  case (JNum q)
  then show ?case by (simp add: int_str_line)
next
  case (JList vs)
  then have "NL \<notin> set (joined (map (dumps fr) vs))" by (intro joined_line) (auto simp: list_all_iff)
  then show ?case by simp
next
  case (JObj kvs)
  then have "NL \<notin> set (joined (map (\<lambda>(k, t). quoted k @ '':'' @ t)
      (sort_key fst (map (\<lambda>(k, v). (k, dumps fr v)) kvs))))"
    by (intro joined_line) (auto simp: list_all_iff quoted_line)
  then show ?case by simp
qed (simp_all add: quoted_line)

lemma strip_braces: "bytes_strip (CHR ''{'' # s @ [CHR ''}'']) = CHR ''{'' # s @ [CHR ''}'']"
  by (simp add: bytes_strip_def bytes_space_def)

interpretation jl: json_lines json_line_codec
proof
  show "parse_line json_line_codec (dump_line json_line_codec r) = Inr r" for r by (rule json_line_parse)
  show "NL \<notin> set (dump_line json_line_codec r)" for r
    using dumps_line [OF full_json_wf [of r]] by (simp add: json_line_codec_def)
  have braces: "\<exists>s. dump_line json_line_codec r = CHR ''{'' # s @ [CHR ''}'']" for r
    by (simp add: json_line_codec_def full_json_def del: dumps.simps) (simp only: dumps.simps append_Cons append_Nil, blast)
  show "bytes_strip (dump_line json_line_codec r) = dump_line json_line_codec r" for r
    using braces [of r] strip_braces by auto
  show "dump_line json_line_codec r \<noteq> []" for r using braces [of r] by auto
qed

section \<open>Results\<close>

text \<open>C39: any number of processes keep one intact tape. Let processes with their own cached counters call
  \<open>emit\<close> on one shared file in any order, starting from no file. The file is then the lines of a tape the
  auditor finds intact, with exactly one record per call with a valid decision and outcome, and every
  process reads exactly that tape: stale counters never duplicate a number or fork the chain.\<close>

theorem processes_share_one_tape:
  assumes "json_lines C"
  shows "\<exists>rs. intact (check_chain_integrity H rs)
    \<and> length rs = length (filter (\<lambda>(p, e, now). em_decision e \<in> set AUDIT_DECISIONS
        \<and> em_outcome e \<in> set AUDIT_OUTCOMES) xs)
    \<and> (\<forall>p. file_records C (host_sink (hosts_run H C xs (hosts_start H)) p) = Inr rs)"
proof -
  from json_lines.hosts_run_ok [OF assms json_lines.hosts_ok_start [OF assms], of H xs] obtain rs
    where ok: "json_lines.hosts_ok C H rs (hosts_run H C xs (hosts_start H))"
      and len: "length rs = length (filter (\<lambda>(p, e, now). valid_emission e) xs)" by auto
  from ok have t: "tape_of C rs (shared_tape (hosts_run H C xs (hosts_start H)))"
    and lk: "linked H 0 (GENESIS_PREV_HASH H) rs"
    by (simp_all add: json_lines.hosts_ok_def [OF assms])
  from t lk len json_lines.scan_tape_of [OF assms t] show ?thesis
    by (intro exI [of _ rs]) (simp add: intact_linked file_records_def host_sink_def)
qed

lemma sample_emission_verb: "em_decision sample_emission = ''allow''" "em_outcome sample_emission = ''executed''"
  by (simp_all add: sample_emission_def)

lemma sample_tape_valid: "list_all valid_record sample_audit_tape"
  by (simp add: sample_audit_tape_def emit_all_def emit_def sinkmem_ops_def sinkmem_append_def mk_audit_record_def
      sample_emission_verb AUDIT_DECISIONS_def AUDIT_OUTCOMES_def)

lemma sample_tape_not_Nil: "sample_audit_tape \<noteq> []"
  using sample_audit_tape by auto

theorem processes_share_one_tape_witness:
  "\<exists>rs. intact (check_chain_integrity sample_hash_env rs) \<and> length rs = 2
    \<and> (\<forall>p. file_records json_line_codec (host_sink (hosts_run sample_hash_env json_line_codec
          [(True, sample_emission, 0), (False, sample_emission, 1000000),
           (True, sample_emission\<lparr>em_outcome := ''done''\<rparr>, 2000000)] (hosts_start sample_hash_env)) p) = Inr rs)"
  using processes_share_one_tape [OF jl.json_lines_axioms, of sample_hash_env
      "[(True, sample_emission, 0), (False, sample_emission, 1000000),
        (True, sample_emission\<lparr>em_outcome := ''done''\<rparr>, 2000000)]"]
  by (simp add: sample_emission_verb AUDIT_DECISIONS_def AUDIT_OUTCOMES_def numeral_2_eq_2)

text \<open>Crash recovery keeps every committed record and nothing else. When a tape of committed records ends
  in a torn write (bytes without a final newline), readers see exactly the committed records, and resuming
  leaves a sink at the end of exactly those records, having trimmed the torn bytes (bytes that are only
  white space are left in place).\<close>

lemma resuming_recovers_committed:
  assumes "json_lines C" and "list_all valid_record rs" and "rs \<noteq> []" and "CHR 0x0A \<notin> set torn"
  shows "resuming H C (Some (tape_lines C rs @ torn)) =
      Inr \<lparr>fs_file = Some (if bytes_strip torn = [] then tape_lines C rs @ torn else tape_lines C rs),
           fs_seq = au_seq (last rs) + 1, fs_last_hash = au_hash (last rs)\<rparr>
    \<and> file_records C \<lparr>fs_file = Some (tape_lines C rs @ torn), fs_seq = n, fs_last_hash = h\<rparr> = Inr rs"
  using json_lines.scan_tape [OF assms(1,2,4)] assms(3) by (simp add: resuming_def file_records_def Let_def)

lemma resuming_recovers_committed_witness:
  "\<exists>s. resuming sample_hash_env json_line_codec (Some (tape_lines json_line_codec sample_audit_tape @ ''{'')) = Inr s
    \<and> fs_file s = Some (tape_lines json_line_codec sample_audit_tape)"
proof -
  from resuming_recovers_committed [OF jl.json_lines_axioms sample_tape_valid sample_tape_not_Nil, of "''{''" sample_hash_env]
  show ?thesis by (auto simp: bytes_strip_def bytes_space_def)
qed

text \<open>C40: a torn tail under a live sink loses the next record and the tape. A sink that is already open when
  another writer dies in the middle of a line does not trim it: its next \<open>emit\<close> returns normally and
  writes its record behind the torn bytes. When the two together are not a record, every later read,
  \<open>emit\<close> and resumption of that tape raises.\<close>

theorem torn_tail_breaks_live_sink:
  assumes "json_lines C" and "list_all valid_record rs" and "rs \<noteq> []"
    and "CHR 0x0A \<notin> set torn" and "bytes_strip (torn @ dump_line C r) \<noteq> []"
    and "em_decision e \<in> set AUDIT_DECISIONS" and "em_outcome e \<in> set AUDIT_OUTCOMES"
    and "r = build_record H e now (au_seq (last rs) + 1) (au_hash (last rs))"
    and "\<exists>x. parse_line C (bytes_strip (torn @ dump_line C r)) = Inl x"
    and "fs_file s = Some (tape_lines C rs @ torn)"
  shows "\<exists>s'. emit H (file_ops C) e now s = (Inr r, s')
    \<and> file_records C s' = Inl (ValueError ''corrupt audit record'')
    \<and> resuming H C (fs_file s') = Inl (ValueError ''corrupt audit record'')
    \<and> (\<forall>e' now'. emit H (file_ops C) e' now' s' = (Inl (ValueError ''corrupt audit record''), s'))"
proof -
  let ?f = "tape_lines C rs @ (torn @ dump_line C r) @ [NL]"
  let ?s' = "\<lparr>fs_file = Some ?f, fs_seq = au_seq (last rs) + 1 + 1, fs_last_hash = au_hash r\<rparr>"
  have seqn: "au_seq r = au_seq (last rs) + 1" and v: "valid_record r" using assms(6-8) by simp_all
  have "scan C (fs_file s) = Inr (rs, length (tape_lines C rs), bytes_strip torn \<noteq> [])"
    using json_lines.scan_tape [OF assms(1,2,4)] assms(10) by simp
  then have "tape_enter C s = Inr \<lparr>fs_file = fs_file s, fs_seq = au_seq (last rs) + 1, fs_last_hash = au_hash (last rs)\<rparr>"
    using assms(3,10) by (simp add: tape_enter_def refresh_from_disk_def)
  then have first: "emit H (file_ops C) e now s = (Inr r, ?s')"
    using assms(10) seqn mk_audit_record_eq [OF v] assms(8)
    by (simp add: emit_def file_ops_def file_append_def)
  have "NL \<notin> set (torn @ dump_line C r)" using json_lines.one_line [OF assms(1)] assms(4) by simp
  with json_lines.scan_corrupt [OF assms(1,2) _ assms(5)] assms(9)
  have corrupt: "scan C (Some ?f) = Inl (ValueError ''corrupt audit record'')" by auto
  then have "tape_enter C ?s' = Inl (ValueError ''corrupt audit record'')"
    by (simp add: tape_enter_def refresh_from_disk_def)
  with first corrupt show ?thesis
    by (intro exI [of _ ?s']) (simp add: file_records_def resuming_def emit_def file_ops_def)
qed

lemma read_canonical_double_brace: "read_canonical (CHR ''{'' # CHR ''{'' # t) = None"
  by (simp add: read_canonical_def startswith_def read_string_def)

definition sample_next_record :: AuditRecord where
  "sample_next_record =
     build_record sample_hash_env sample_emission 5000000 (au_seq (last sample_audit_tape) + 1)
       (au_hash (last sample_audit_tape))"

theorem torn_tail_breaks_live_sink_witness:
  "\<exists>s'. emit sample_hash_env (file_ops json_line_codec) sample_emission 5000000
        (file_open sample_hash_env (Some (tape_lines json_line_codec sample_audit_tape @ ''{'')))
      = (Inr sample_next_record, s')
    \<and> file_records json_line_codec s' = Inl (ValueError ''corrupt audit record'')"
proof -
  have braces: "\<exists>t. dump_line json_line_codec q = CHR ''{'' # t @ [CHR ''}'']" for q
    by (simp add: json_line_codec_def full_json_def)
  have line: "bytes_strip (''{'' @ dump_line json_line_codec q) = ''{'' @ dump_line json_line_codec q" for q
    using braces [of q] strip_braces [of "CHR ''{'' # t" for t] by auto
  have parse: "\<exists>x. parse_line json_line_codec (bytes_strip (''{'' @ dump_line json_line_codec q)) = Inl x" for q
  proof -
    obtain t where "dump_line json_line_codec q = CHR ''{'' # t" using braces [of q] by blast
    then have "read_canonical (''{'' @ dump_line json_line_codec q) = None"
      using read_canonical_double_brace [of t] by simp
    then show ?thesis unfolding line by (simp add: json_line_codec_def)
  qed
  have strip: "bytes_strip (''{'' @ dump_line json_line_codec sample_next_record) \<noteq> []" unfolding line by simp
  have verb: "em_decision sample_emission \<in> set AUDIT_DECISIONS" "em_outcome sample_emission \<in> set AUDIT_OUTCOMES"
    by (simp_all add: sample_emission_verb AUDIT_DECISIONS_def AUDIT_OUTCOMES_def)
  have disk: "fs_file (file_open sample_hash_env (Some (tape_lines json_line_codec sample_audit_tape @ ''{'')))
      = Some (tape_lines json_line_codec sample_audit_tape @ ''{'')" by (simp add: file_open_def)
  from torn_tail_breaks_live_sink [OF jl.json_lines_axioms sample_tape_valid sample_tape_not_Nil _ strip verb
      sample_next_record_def parse disk]
  show ?thesis by fastforce
qed

end
