(* ===== verification/Enforcement_Run.thy ===== *)
theory Enforcement_Run
  imports Enforcement
begin

text \<open>
  \<open>enforce\<close> (\<open>broker/enforcement/engine.py\<close>) with callbacks that act: the fact source, the decider and the
  executor read and change the same state as the store, which is how the runtime uses it (the executor
  writes the tape, the turn and further counters while the pipeline runs). The steps are those of
  theory \<open>Enforcement\<close>; with callbacks that change nothing the two pipelines are equal.
\<close>

record 'w actions =
  act_facts :: "BrokeredCall \<Rightarrow> 'w \<Rightarrow> (exn + Facts) \<times> 'w"
  act_decide :: "BrokeredCall \<Rightarrow> Facts \<Rightarrow> 'w \<Rightarrow> Decision \<times> 'w"
  act_execute :: "BrokeredCall \<Rightarrow> Decision \<Rightarrow> 'w \<Rightarrow> (exn + json option) \<times> 'w"

definition revalidate_w :: "'w actions \<Rightarrow> enf_request \<Rightarrow> 'w \<Rightarrow> (exn + Decision) \<times> 'w" where
  "revalidate_w ac rq w =
     (case act_facts ac (rq_call rq) w of
        (Inl e, w1) \<Rightarrow> (Inl e, w1)
      | (Inr facts, w1) \<Rightarrow>
          (let (d, w2) = act_decide ac (rq_call rq) facts w1 in (Inr (pick_stricter (initial_decision rq) d), w2)))"

definition execute_step_w ::
  "'w EnforcementStore \<Rightarrow> enf_env \<Rightarrow> 'w actions \<Rightarrow> enf_request \<Rightarrow> string option \<Rightarrow> Decision \<Rightarrow> 'w
     \<Rightarrow> (exn + json option) \<times> 'w" where
  "execute_step_w S env ac rq claimed effective w =
     (case act_execute ac (rq_call rq) effective w of
        (Inr res, w1) \<Rightarrow> (Inr res, w1)
      | (Inl e, w1) \<Rightarrow>
          (case saga S env rq e w1 of
             Inl e' \<Rightarrow> (Inl e', w1)
           | Inr w2 \<Rightarrow> (Inl e, fail_claim S claimed e w2)))"

definition act_step_w ::
  "'w EnforcementStore \<Rightarrow> enf_env \<Rightarrow> 'w actions \<Rightarrow> enf_request \<Rightarrow> string option \<Rightarrow> Decision \<Rightarrow> 'w
     \<Rightarrow> (exn + EnforcementResult) \<times> 'w" where
  "act_step_w S env ac rq claimed effective w =
     (if executes effective then
        (case execute_step_w S env ac rq claimed effective w of
           (Inl e, w1) \<Rightarrow> (Inl e, w1)
         | (Inr res, w1) \<Rightarrow> commit_and_finish S env claimed effective res w1)
      else if kind effective = k_require_approval then finish S env claimed effective None w
      else commit_and_finish S env claimed effective None w)"

definition enforce_w ::
  "'w EnforcementStore \<Rightarrow> enf_env \<Rightarrow> 'w actions \<Rightarrow> enf_request \<Rightarrow> 'w \<Rightarrow> (exn + EnforcementResult) \<times> 'w" where
  "enforce_w S env ac rq w =
     (case claim_step S env rq w of
        (Inl res, w1) \<Rightarrow> (Inr res, w1)
      | (Inr claimed, w1) \<Rightarrow>
        (case revalidate_w ac rq w1 of
           (Inl e, w2) \<Rightarrow> (Inl e, release_claim S claimed w2)
         | (Inr effective0, w2) \<Rightarrow>
           (let (effective, w3, draws) = draw_step S rq effective0 w2;
                w4 = write_ledger S (ledger_entry_for env rq effective) w3
            in act_step_w S env ac rq claimed effective w4)))"

section \<open>Callbacks that change nothing\<close>

definition pure_actions :: "callbacks \<Rightarrow> (BrokeredCall \<Rightarrow> Decision \<Rightarrow> exn + json option) \<Rightarrow> 'w actions" where
  "pure_actions cb run =
     \<lparr>act_facts = (\<lambda>c w. (fresh_facts cb c, w)), act_decide = (\<lambda>c f w. (decider cb c f, w)),
      act_execute = (\<lambda>c d w. (run c d, w))\<rparr>"

lemma enforce_w_pure:
  assumes "executor cb = Some run"
  shows "enforce_w S env (pure_actions cb run) rq w = (case enforce S env cb rq w of (out, w', evs) \<Rightarrow> (out, w'))"
proof -
  have rev: "revalidate_w (pure_actions cb run) rq v = (revalidate cb rq, v)" for v
    by (simp add: revalidate_w_def revalidate_def pure_actions_def split: sum.split)
  have act: "act_step_w S env (pure_actions cb run) rq claimed eff v
      = (case act_step S env cb rq claimed eff v of (out, v', evs) \<Rightarrow> (out, v'))" for claimed eff v
    using assms
    by (simp add: act_step_w_def act_step_def execute_step_w_def execute_step_def pure_actions_def Let_def
        split: sum.split prod.split)
  show ?thesis
    unfolding enforce_w_def enforce_def rev act
    by (simp add: Let_def split: sum.split prod.split)
qed

section \<open>When the executor acts\<close>

text \<open>A property of the state that every store operation and both read callbacks keep, and that the executor
  keeps whenever both decisions execute, holds after the run.\<close>

locale kept_by_store =
  fixes S :: "'w EnforcementStore" and P :: "'w \<Rightarrow> bool"
  assumes keeps_put: "P w \<Longrightarrow> P (snd (put_idempotency_if_absent S r w))"
    and keeps_complete: "P w \<Longrightarrow> P (snd (complete_idempotency S k d res w))"
    and keeps_fail: "P w \<Longrightarrow> P (snd (fail_idempotency S k m w))"
    and keeps_delete: "P w \<Longrightarrow> P (delete_idempotency S k w)"
    and keeps_increment: "P w \<Longrightarrow> P (snd (try_increment_counter S k x c w))"
    and keeps_ledger: "P w \<Longrightarrow> P (write_ledger S e w)"
    and keeps_commit: "P w \<Longrightarrow> commit_ledger S i t w = Inr w' \<Longrightarrow> P w'"
    and keeps_compensate: "P w \<Longrightarrow> compensate_ledger S i m w = Inr w' \<Longrightarrow> P w'"
    and keeps_escalate: "P w \<Longrightarrow> escalate_ledger S i m w = Inr w' \<Longrightarrow> P w'"
begin

lemma keeps_claim: "P w \<Longrightarrow> P (snd (claim_step S env rq w))"
proof -
  have take: "P w \<Longrightarrow> P (snd (take_claim S env k w))" for k w
    using keeps_put [of w "claim_record env k"] by (auto simp: take_claim_def Let_def split: prod.split)
  assume "P w"
  with take keeps_delete show ?thesis by (auto simp: claim_step_def split: option.split)
qed

lemma keeps_release: "P w \<Longrightarrow> P (release_claim S claimed w)"
  by (simp add: release_claim_def keeps_delete split: option.split)

lemma keeps_fail_claim: "P w \<Longrightarrow> P (fail_claim S claimed e w)"
  by (simp add: fail_claim_def keeps_fail split: option.split)

lemma keeps_ancestors: "P w \<Longrightarrow> P (fst (snd (draw_ancestors S ds eff w)))"
proof (induction ds arbitrary: w)
  case (Cons d ds)
  obtain ok w1 where t: "try_increment_counter S (draw_key d) (draw_delta d) (draw_cap d) w = (ok, w1)" by fastforce
  with keeps_increment [OF Cons.prems, of "draw_key d" "draw_delta d" "draw_cap d"] have "P w1" by simp
  from Cons.IH [OF this] t \<open>P w1\<close> show ?case by (auto split: prod.split)
qed simp

lemma keeps_draw: "P w \<Longrightarrow> P (fst (snd (draw_step S rq eff w)))"
proof -
  assume w: "P w"
  obtain ok w1 where t: "try_increment_counter S (counter_key rq) (counter_delta rq) (counter_cap rq) w = (ok, w1)"
    by fastforce
  with keeps_increment [OF w, of "counter_key rq" "counter_delta rq" "counter_cap rq"] have "P w1" by simp
  with keeps_ancestors [OF this, of "ancestor_draws rq" eff] t w show ?thesis
    by (auto simp: draw_step_def split: prod.split)
qed

lemma keeps_finish: "P w \<Longrightarrow> P (snd (finish S env claimed eff res w))"
  by (auto simp: finish_def settle_step_def keeps_complete keeps_delete split: sum.splits option.splits if_splits)

lemma keeps_commit_finish: "P w \<Longrightarrow> P (snd (commit_and_finish S env claimed eff res w))"
  by (auto simp: commit_and_finish_def keeps_finish dest: keeps_commit split: sum.split)

lemma keeps_saga: "P w \<Longrightarrow> saga S env rq e w = Inr w' \<Longrightarrow> P w'"
  by (auto simp: saga_def dest: keeps_compensate keeps_escalate split: if_splits)

end

text \<open>The executor runs at most once, and only when both decisions execute: \<open>P\<close> holds up to it and \<open>Q\<close> from it on.
  Without an idempotency key the facts are read in the state the run starts in.\<close>

lemma enforce_w_once:
  assumes P: "kept_by_store S P" and Q: "kept_by_store S Q" and "P w" and weaken: "\<And>w. P w \<Longrightarrow> Q w"
    and facts: "\<And>w. P w \<Longrightarrow> P (snd (act_facts ac (rq_call rq) w))"
    and decide: "\<And>f w. P w \<Longrightarrow> P (snd (act_decide ac (rq_call rq) f w))"
    and run: "\<And>f d u v x. act_facts ac (rq_call rq) u = (Inr f, v) \<Longrightarrow> (idempotency_key rq = None \<Longrightarrow> u = w) \<Longrightarrow> P v \<Longrightarrow> P x \<Longrightarrow>
      executes (initial_decision rq) \<Longrightarrow> executes (fst (act_decide ac (rq_call rq) f v)) \<Longrightarrow>
      d = pick_stricter (initial_decision rq) (fst (act_decide ac (rq_call rq) f v)) \<Longrightarrow>
      Q (snd (act_execute ac (rq_call rq) d x))"
  shows "Q (snd (enforce_w S env ac rq w))"
proof (cases "claim_step S env rq w")
  case (Pair r w1)
  have w1: "P w1" using kept_by_store.keeps_claim [OF P \<open>P w\<close>, of env rq] Pair by simp
  show ?thesis
  proof (cases r)
    case (Inl res)
    with Pair weaken [OF w1] show ?thesis by (simp add: enforce_w_def)
  next
    case (Inr claimed)
    obtain fr w2 where f: "act_facts ac (rq_call rq) w1 = (fr, w2)" by fastforce
    have w2: "P w2" using facts [OF w1] f by simp
    show ?thesis
    proof (cases fr)
      case (Inl e)
      with f Inr Pair weaken [OF kept_by_store.keeps_release [OF P w2]] show ?thesis
        by (simp add: enforce_w_def revalidate_w_def)
    next
      case fr: (Inr fa)
      obtain d w3 where d: "act_decide ac (rq_call rq) fa w2 = (d, w3)" by fastforce
      have w3: "P w3" using decide [OF w2, of fa] d by simp
      let ?e0 = "pick_stricter (initial_decision rq) d"
      obtain e w4 evs where dr: "draw_step S rq ?e0 w3 = (e, w4, evs)" by (cases "draw_step S rq ?e0 w3") blast
      have w4: "P w4" using kept_by_store.keeps_draw [OF P w3, of rq ?e0] dr by simp
      let ?w5 = "write_ledger S (ledger_entry_for env rq e) w4"
      have w5: "P ?w5" by (rule kept_by_store.keeps_ledger [OF P w4])
      have "Q (snd (act_step_w S env ac rq claimed e ?w5))"
      proof (cases "executes e")
        case True
        have e0: "e = ?e0" using draw_step_decision [OF dr] True by auto
        with True have "executes (initial_decision rq)" "executes (fst (act_decide ac (rq_call rq) fa w2))"
          using d by simp_all
        moreover have "idempotency_key rq = None \<Longrightarrow> w1 = w" using Pair by (simp add: claim_step_def)
        ultimately have x: "Q (snd (act_execute ac (rq_call rq) e ?w5))"
          using run [OF f [unfolded fr] _ w2 w5, of e] e0 d by simp
        obtain out w6 where o: "act_execute ac (rq_call rq) e ?w5 = (out, w6)" by fastforce
        with x have w6: "Q w6" by simp
        have "Q (snd (execute_step_w S env ac rq claimed e ?w5))"
          using o w6 kept_by_store.keeps_saga [OF Q w6, of env rq] kept_by_store.keeps_fail_claim [OF Q]
          by (auto simp: execute_step_w_def split: sum.split)
        with True show ?thesis
          by (auto simp: act_step_w_def kept_by_store.keeps_commit_finish [OF Q] split: prod.split sum.split)
      next
        case False
        with weaken [OF w5] show ?thesis
          by (simp add: act_step_w_def kept_by_store.keeps_finish [OF Q] kept_by_store.keeps_commit_finish [OF Q])
      qed
      with f fr d dr Inr Pair show ?thesis by (simp add: enforce_w_def revalidate_w_def Let_def)
    qed
  qed
qed

context kept_by_store
begin

lemma enforce_w_keeps:
  assumes "P w"
    and "\<And>w. P w \<Longrightarrow> P (snd (act_facts ac (rq_call rq) w))"
    and "\<And>f w. P w \<Longrightarrow> P (snd (act_decide ac (rq_call rq) f w))"
    and "\<And>f d v w. P v \<Longrightarrow> P w \<Longrightarrow> executes (initial_decision rq) \<Longrightarrow> executes (fst (act_decide ac (rq_call rq) f v)) \<Longrightarrow>
      d = pick_stricter (initial_decision rq) (fst (act_decide ac (rq_call rq) f v)) \<Longrightarrow>
      P (snd (act_execute ac (rq_call rq) d w))"
  shows "P (snd (enforce_w S env ac rq w))"
  by (rule enforce_w_once [OF kept_by_store_axioms kept_by_store_axioms assms(1)]) (use assms(2-4) in blast)+

end

text \<open>A run that reports an executed outcome of its own, and not a replay, went through the executor: what the
  executor establishes when it returns holds at the end. \<open>P'\<close> holds from the reading of the facts on.\<close>

lemma early_outcome_replays:
  assumes "claim_step S env rq w = (Inl res, w1)" and "executes (er_decision res)"
  shows "idempotent res"
proof -
  have settled: "settled_outcome env r k = Some x \<Longrightarrow> executes (er_decision x) \<Longrightarrow> idempotent x" for r k x
    by (auto simp: settled_outcome_def refusal_def split: if_splits)
  have lost: "executes (er_decision (lost_claim env k st)) \<Longrightarrow> idempotent (lost_claim env k st)" for k st
    by (auto simp: lost_claim_def contended_def refusal_def dest: settled split: option.splits)
  have "take_claim S env k v = (Inl res, w1) \<Longrightarrow> \<exists>st. res = lost_claim env k st" for k v
    by (auto simp: take_claim_def Let_def split: prod.splits if_splits)
  with assms settled lost show ?thesis
    by (fastforce simp: claim_step_def split: option.splits)
qed

lemma finish_decision:
  "finish S env claimed eff res w = (Inr out, w') \<Longrightarrow> er_decision out = eff"
  by (auto simp: finish_def split: sum.splits)

lemma commit_and_finish_decision:
  "commit_and_finish S env claimed eff res w = (Inr out, w') \<Longrightarrow> er_decision out = eff"
  by (auto simp: commit_and_finish_def finish_decision split: sum.splits)

lemma enforce_w_executed:
  assumes P: "kept_by_store S P" and P': "kept_by_store S P'" and M: "\<And>d. kept_by_store S (M d)"
    and "P w" and out: "enforce_w S env ac rq w = (Inr res, w')"
    and ran: "executes (er_decision res)" "\<not> idempotent res"
    and facts: "\<And>w f v. P w \<Longrightarrow> act_facts ac (rq_call rq) w = (Inr f, v) \<Longrightarrow> P' v"
    and decide: "\<And>f w. P' w \<Longrightarrow> P' (snd (act_decide ac (rq_call rq) f w))"
    and run: "\<And>f d u v y x y'. act_facts ac (rq_call rq) u = (Inr f, v) \<Longrightarrow> (idempotency_key rq = None \<Longrightarrow> u = w) \<Longrightarrow>
      executes (fst (act_decide ac (rq_call rq) f v)) \<Longrightarrow>
      d = pick_stricter (initial_decision rq) (fst (act_decide ac (rq_call rq) f v)) \<Longrightarrow> executes d \<Longrightarrow> P' y \<Longrightarrow>
      act_execute ac (rq_call rq) d y = (Inr x, y') \<Longrightarrow> M d y'"
  shows "M (er_decision res) w'"
proof -
  obtain claimed w1 where cl: "claim_step S env rq w = (Inr claimed, w1)"
    using out ran early_outcome_replays [of S env rq w res w']
    by (cases "claim_step S env rq w"; cases "fst (claim_step S env rq w)") (auto simp: enforce_w_def)
  have w1: "P w1" using kept_by_store.keeps_claim [OF P \<open>P w\<close>, of env rq] cl by simp
  obtain fa w2 where f: "act_facts ac (rq_call rq) w1 = (Inr fa, w2)"
    using out cl by (cases "act_facts ac (rq_call rq) w1"; cases "fst (act_facts ac (rq_call rq) w1)")
      (auto simp: enforce_w_def revalidate_w_def)
  have w2: "P' w2" by (rule facts [OF w1 f])
  obtain d w3 where d: "act_decide ac (rq_call rq) fa w2 = (d, w3)" by fastforce
  have w3: "P' w3" using decide [OF w2, of fa] d by simp
  let ?e0 = "pick_stricter (initial_decision rq) d"
  obtain e w4 evs where dr: "draw_step S rq ?e0 w3 = (e, w4, evs)" by (cases "draw_step S rq ?e0 w3") blast
  have w4: "P' w4" using kept_by_store.keeps_draw [OF P' w3, of rq ?e0] dr by simp
  let ?w5 = "write_ledger S (ledger_entry_for env rq e) w4"
  have w5: "P' ?w5" by (rule kept_by_store.keeps_ledger [OF P' w4])
  have act: "act_step_w S env ac rq claimed e ?w5 = (Inr res, w')"
    using out cl f d dr by (simp add: enforce_w_def revalidate_w_def Let_def)
  show ?thesis
  proof (cases "executes e")
    case True
    with act obtain v w6 where v: "execute_step_w S env ac rq claimed e ?w5 = (Inr v, w6)"
      and fin: "commit_and_finish S env claimed e v w6 = (Inr res, w')"
      by (auto simp: act_step_w_def split: prod.splits sum.splits)
    from v have "act_execute ac (rq_call rq) e ?w5 = (Inr v, w6)"
      by (auto simp: execute_step_w_def split: prod.splits sum.splits)
    moreover have "e = ?e0" using draw_step_decision [OF dr] True by auto
    ultimately have "M e w6"
      using True d cl by (intro run [OF f _ _ _ True w5, where x = v]) (simp_all add: claim_step_def)
    with kept_by_store.keeps_commit_finish [OF M, of e w6 env claimed e v] fin
    show ?thesis by (simp add: commit_and_finish_decision [OF fin])
  next
    case False
    with act have "er_decision res = e"
      by (auto simp: act_step_w_def finish_decision commit_and_finish_decision split: if_splits)
    with False ran show ?thesis by simp
  qed
qed

end
