(* ===== verification/Taint_Context.thy ===== *)
theory Taint_Context
  imports Schemas
begin

text \<open>
  The per-turn taint accumulator (\<open>broker/taint/context.py\<close>) and the input-trust map
  (\<open>broker/taint/propagation.py\<close>). A turn's history is a list of ingestions; the results show that what
  a call is stamped with is a function of that history alone: tainted exactly when some ingestion was
  untrusted, with every such source listed once, in order of first arrival.
\<close>

section \<open>Trust maps\<close>

type_synonym InputTrustMap = "string \<Rightarrow> bool"

definition connector_source_id :: "string \<Rightarrow> string \<Rightarrow> string" where
  "connector_source_id tool op = ''connector:'' @ tool @ ''.'' @ op"

definition build_trust_map :: "string list \<Rightarrow> InputTrustMap" where
  "build_trust_map trusted_prefixes = (\<lambda>source. list_ex (startswith source) trusted_prefixes)"

section \<open>The turn context\<close>

record TurnContext =
  tc_turn_id :: string
  tc_tainted :: bool
  tc_sources :: "string list"

definition turn_init :: "string \<Rightarrow> TurnContext" where
  "turn_init turn_id = \<lparr>tc_turn_id = turn_id, tc_tainted = False, tc_sources = []\<rparr>"

definition mark_tainted :: "string \<Rightarrow> TurnContext \<Rightarrow> TurnContext" where
  "mark_tainted source ctx =
     ctx\<lparr>tc_tainted := True,
         tc_sources := (if source \<in> set (tc_sources ctx) then tc_sources ctx
                        else tc_sources ctx @ [source])\<rparr>"

definition ingest_source :: "string \<Rightarrow> InputTrustMap \<Rightarrow> TurnContext \<Rightarrow> TurnContext" where
  "ingest_source source trust_map ctx =
     (if \<not> trust_map source then mark_tainted source ctx else ctx)"

definition ingest_memory_taint :: "bool \<Rightarrow> string \<Rightarrow> TurnContext \<Rightarrow> TurnContext" where
  "ingest_memory_taint taint_flag source ctx =
     (if taint_flag then mark_tainted source ctx else ctx)"

definition to_taint :: "TurnContext \<Rightarrow> Taint" where
  "to_taint ctx = \<lparr>tainted = tc_tainted ctx, sources = tc_sources ctx\<rparr>"

section \<open>Histories\<close>

datatype ingestion = FromSource string InputTrustMap | FromMemory bool string

fun ingest :: "ingestion \<Rightarrow> TurnContext \<Rightarrow> TurnContext" where
  "ingest (FromSource source trust_map) = ingest_source source trust_map"
| "ingest (FromMemory flag source) = ingest_memory_taint flag source"

definition run_turn :: "ingestion list \<Rightarrow> TurnContext \<Rightarrow> TurnContext" where
  "run_turn ops ctx = fold ingest ops ctx"

text \<open>The specification: the untrusted sources of a history, and a list without its later repetitions.\<close>

fun untrusted :: "ingestion \<Rightarrow> string list" where
  "untrusted (FromSource source trust_map) = (if trust_map source then [] else [source])"
| "untrusted (FromMemory flag source) = (if flag then [source] else [])"

definition first_arrivals :: "'a list \<Rightarrow> 'a list" where
  "first_arrivals xs = rev (remdups (rev xs))"

lemma first_arrivals_snoc [simp]:
  "first_arrivals (xs @ [x]) = (if x \<in> set xs then first_arrivals xs else first_arrivals xs @ [x])"
  by (simp add: first_arrivals_def)

lemma first_arrivals_Nil [simp]: "first_arrivals [] = []"
  by (simp add: first_arrivals_def)

lemma set_first_arrivals [simp]: "set (first_arrivals xs) = set xs"
  by (simp add: first_arrivals_def)

lemma first_arrivals_eq_Nil [simp]: "first_arrivals xs = [] \<longleftrightarrow> xs = []"
  by (metis set_empty set_first_arrivals)

lemma run_turn_Nil [simp]: "run_turn [] ctx = ctx"
  by (simp add: run_turn_def)

lemma run_turn_snoc [simp]: "run_turn (ops @ [p]) ctx = ingest p (run_turn ops ctx)"
  by (simp add: run_turn_def)

lemma run_turn_append: "run_turn (ops @ ops') ctx = run_turn ops' (run_turn ops ctx)"
  by (simp add: run_turn_def)

lemmas ingest_defs = ingest_source_def ingest_memory_taint_def mark_tainted_def

lemma ingest_keeps:
  "tc_tainted ctx \<Longrightarrow> tc_tainted (ingest p ctx)"
  "set (tc_sources ctx) \<subseteq> set (tc_sources (ingest p ctx))"
  "tc_turn_id (ingest p ctx) = tc_turn_id ctx"
  by (cases p; auto simp: ingest_defs)+

lemma run_turn_keeps:
  "tc_tainted ctx \<Longrightarrow> tc_tainted (run_turn ops ctx)"
  "set (tc_sources ctx) \<subseteq> set (tc_sources (run_turn ops ctx))"
  by (induction ops rule: rev_induct) (auto intro: ingest_keeps(1) subsetD [OF ingest_keeps(2)])

lemma run_turn_spec:
  "tc_sources (run_turn ops (turn_init i)) = first_arrivals (concat (map untrusted ops))
   \<and> tc_tainted (run_turn ops (turn_init i)) = (concat (map untrusted ops) \<noteq> [])"
proof (induction ops rule: rev_induct)
  case Nil
  then show ?case by (simp add: turn_init_def)
next
  case (snoc p ops)
  then show ?case by (cases p) (auto simp: ingest_defs)
qed

text \<open>What a call is stamped with is determined by what the turn ingested. After any history, the
  materialized taint lists exactly the untrusted sources, each once and in order of first arrival, and
  the flag is set exactly when there is one; and continuing the turn in any way keeps the flag and every
  source.\<close>

lemma taint_is_history:
  "to_taint (run_turn ops (turn_init i))
     = \<lparr>tainted = (\<exists>p \<in> set ops. untrusted p \<noteq> []),
        sources = first_arrivals (concat (map untrusted ops))\<rparr>
   \<and> (tainted (to_taint (run_turn ops (turn_init i)))
        \<longrightarrow> tainted (to_taint (run_turn (ops @ later) (turn_init i))))
   \<and> set (sources (to_taint (run_turn ops (turn_init i))))
        \<subseteq> set (sources (to_taint (run_turn (ops @ later) (turn_init i))))"
  using run_turn_spec [of ops i] run_turn_keeps [of "run_turn ops (turn_init i)" later]
  by (auto simp: to_taint_def run_turn_append)

lemma taint_is_history_witness:
  "tainted (to_taint (run_turn ([FromMemory True ''web''] @ [FromSource ''internal:x'' (\<lambda>_. True)])
     (turn_init ''t'')))"
  using taint_is_history [of "[FromMemory True ''web'']" "''t''" "[FromSource ''internal:x'' (\<lambda>_. True)]"]
  by simp

lemma connector_not_internal:
  "list_all (\<lambda>p. startswith p ''internal:'') prefixes \<Longrightarrow>
     \<not> build_trust_map prefixes (connector_source_id tool op)"
proof
  assume "list_all (\<lambda>p. startswith p ''internal:'') prefixes"
    and "build_trust_map prefixes (connector_source_id tool op)"
  then obtain p where "startswith (connector_source_id tool op) p" "startswith p ''internal:''"
    by (auto simp: build_trust_map_def list_ex_iff list_all_iff)
  then obtain t u where "connector_source_id tool op = (''internal:'' @ u) @ t"
    by (metis startswithE)
  then show False by (simp add: connector_source_id_def)
qed

end
