(* ===== verification/Inheritance.thy ===== *)
theory Inheritance
  imports Taint_Context Delegation
begin

text \<open>
  The taint inheritance ledger: the record (\<open>broker/schemas/inheritance.py\<close>), its keys and stores
  (\<open>broker/taint/inheritance.py\<close>) and the two hooks of the runtime (\<open>broker/runtime/inheritance.py\<close>):
  a cause op writes a record before it runs, and a minted turn ingests the live records of its
  principal. The locale \<open>inheritance_store\<close> is the protocol's documented contract; the in-memory store
  interprets it, which needs that the fixed-width instant in the sort key sorts chronologically.

  A row holds the record it was written from: the JSON text that \<open>model_dump_json\<close> writes and
  \<open>model_validate_json\<close> reads back is not modelled. The fresh identifier (\<open>uuid4\<close>) and the clock are
  arguments.
\<close>

section \<open>Records\<close>

record InheritanceRecord =
  inh_id :: string
  inh_target :: Principal
  causingPrincipal :: Principal
  causingTurnId :: string
  inh_taint :: Taint
  inh_tool :: string
  inh_op :: string
  issuedAt :: instant
  notAfter :: instant

text \<open>Construction runs the model validator.\<close>

definition mk_inheritance_record :: "InheritanceRecord \<Rightarrow> exn + InheritanceRecord" where
  "mk_inheritance_record r =
     (if notAfter r \<le> issuedAt r
      then Inl (Exn ''ValidationError'' ''an inheritance record must be live when it is written'')
      else Inr r)"

definition live_at :: "InheritanceRecord \<Rightarrow> instant \<Rightarrow> bool" where
  "live_at r now \<longleftrightarrow> now < notAfter r"

section \<open>Keys and helpers\<close>

definition INHERIT_PREFIX :: string where "INHERIT_PREFIX = ''INHERIT#''"

definition require_inheritance_store :: "ToolOp list \<Rightarrow> 's option \<Rightarrow> exn + unit" where
  "require_inheritance_store cause_entries store =
     guard_r (\<not> (cause_entries \<noteq> [] \<and> store = None))
       (Exn ''InheritanceStoreRequiredError'' ''tool_ops declares causes_context but no inheritance store is configured'')"

definition record_pk :: "Principal \<Rightarrow> string" where
  "record_pk p = INHERIT_PREFIX @ principal_key p"

definition instant_key :: "instant \<Rightarrow> string" where
  "instant_key t = strftime_micros t"

definition record_sk :: "InheritanceRecord \<Rightarrow> string" where
  "record_sk r = instant_key (notAfter r) @ ''#'' @ inh_id r"

definition inheritance_target :: "CausesContext \<Rightarrow> Principal \<Rightarrow> Principal" where
  "inheritance_target decl causing =
     (case target decl of SelfTarget \<Rightarrow> causing | ChildTarget p \<Rightarrow> p)"

definition resolve_not_after ::
  "CausesContext \<Rightarrow> instant \<Rightarrow> SubGrant option \<Rightarrow> exn + instant" where
  "resolve_not_after decl issued_at sub_grant =
     bind_r (dt_add issued_at (horizon_seconds decl * SECOND)) (\<lambda>horizon_end.
       (case (sub_grant, target decl) of
          (Some g, ChildTarget p) \<Rightarrow>
            if sg_principal g \<noteq> p
            then Inl (ValueError ''sub-grant is not held by the declared target'')
            else Inr (max horizon_end (sg_expiry g))
        | _ \<Rightarrow> Inr horizon_end))"

section \<open>The store\<close>

record 's InheritanceStore =
  put_record :: "InheritanceRecord \<Rightarrow> 's \<Rightarrow> exn + 's"
  live_records :: "'s \<Rightarrow> Principal \<Rightarrow> instant \<Rightarrow> exn + InheritanceRecord list"

type_synonym InMemoryInheritanceStore = "(string, (string, InheritanceRecord) dict) dict"

definition partition_of :: "InMemoryInheritanceStore \<Rightarrow> string \<Rightarrow> (string, InheritanceRecord) dict" where
  "partition_of s pk = (case map_of s pk of None \<Rightarrow> [] | Some part \<Rightarrow> part)"

definition inhmem_put_record ::
  "InheritanceRecord \<Rightarrow> InMemoryInheritanceStore \<Rightarrow> exn + InMemoryInheritanceStore" where
  "inhmem_put_record r s =
     (let pk = record_pk (inh_target r); part = partition_of s pk; sk = record_sk r in
      if map_of part sk \<noteq> None then Inl (Exn ''InheritanceRecordExistsError'' (inh_id r))
      else Inr (AList.update pk (AList.update sk r part) s))"

definition inhmem_live_records ::
  "InMemoryInheritanceStore \<Rightarrow> Principal \<Rightarrow> instant \<Rightarrow> exn + InheritanceRecord list" where
  "inhmem_live_records s prin now =
     (let rows = sort_key fst (partition_of s (record_pk prin));
          records = map snd (filter (\<lambda>(sk, r). sk > instant_key now) rows)
      in Inr (filter (\<lambda>r. live_at r now) records))"

definition inhmem_ops :: "InMemoryInheritanceStore InheritanceStore" where
  "inhmem_ops = \<lparr>put_record = inhmem_put_record, live_records = inhmem_live_records\<rparr>"

section \<open>The runtime's hooks\<close>

definition INHERITANCE_UNREADABLE_SOURCE :: string where
  "INHERITANCE_UNREADABLE_SOURCE = ''inheritance:unreadable''"

definition INHERITED_WITHOUT_SOURCE :: string where
  "INHERITED_WITHOUT_SOURCE = ''inheritance:unsourced''"

abbreviation InheritanceWriteError :: "string \<Rightarrow> exn" where
  "InheritanceWriteError m \<equiv> Exn ''InheritanceWriteError'' m"

definition trust_nothing :: InputTrustMap where
  "trust_nothing source = False"

definition record_taint :: "ToolOp \<Rightarrow> Taint \<Rightarrow> string list \<Rightarrow> Taint" where
  "record_taint entry t trusted_read_sources =
     (if \<not> (effect entry = read_effect \<and> external entry) then t
      else let source = connector_source_id (op_tool entry) (op_op entry) in
        if source \<in> set trusted_read_sources then t
        else \<lparr>tainted = True,
              sources = (if source \<in> set (sources t) then sources t else sources t @ [source])\<rparr>)"

text \<open>The body of the \<open>try\<close> block: any exception in it becomes an \<open>InheritanceWriteError\<close>.\<close>

definition build_inheritance_record ::
  "string \<Rightarrow> ('g SubGrantStore \<times> 'g) option \<Rightarrow> ToolOp \<Rightarrow> CausesContext \<Rightarrow> BrokeredCall \<Rightarrow> instant \<Rightarrow> string list
     \<Rightarrow> exn + InheritanceRecord" where
  "build_inheritance_record uuid sub_grant_store entry decl call now trusted_read_sources =
     (let tgt = inheritance_target decl (bc_principal call) in
      bind_r (case (target decl, sub_grant_store) of
                (ChildTarget _, Some (G, gs)) \<Rightarrow> get_by_principal G gs tgt
              | _ \<Rightarrow> Inr None) (\<lambda>sub_grant.
      bind_r (resolve_not_after decl now sub_grant) (\<lambda>not_after.
        mk_inheritance_record
          \<lparr>inh_id = uuid, inh_target = tgt, causingPrincipal = bc_principal call,
           causingTurnId = turnId (bc_session call),
           inh_taint = record_taint entry (bc_taint call) trusted_read_sources,
           inh_tool = bc_tool call, inh_op = op_op entry, issuedAt = now, notAfter = not_after\<rparr>)))"

definition write_inheritance_record ::
  "string \<Rightarrow> ('s InheritanceStore \<times> 's) option \<Rightarrow> ToolOp \<Rightarrow> BrokeredCall \<Rightarrow> ('g SubGrantStore \<times> 'g) option
     \<Rightarrow> instant \<Rightarrow> string list \<Rightarrow> exn + InheritanceRecord \<times> 's" where
  "write_inheritance_record uuid store entry call sub_grant_store now trusted_read_sources =
     (case causes_context entry of
        None \<Rightarrow> Inl (ValueError ''declares no causes_context'')
      | Some decl \<Rightarrow>
        (case (case store of
                 None \<Rightarrow> Inl (Exn ''RuntimeError'' ''no inheritance store is configured'')
               | Some (I, st) \<Rightarrow>
                   bind_r (build_inheritance_record uuid sub_grant_store entry decl call now
                     trusted_read_sources) (\<lambda>r.
                   bind_r (put_record I r st) (\<lambda>st'. Inr (r, st')))) of
           Inl e \<Rightarrow> Inl (InheritanceWriteError (exn_class e @ '': '' @ exn_str e))
         | Inr x \<Rightarrow> Inr x))"

fun ingest_record :: "Principal \<Rightarrow> InheritanceRecord \<Rightarrow> TurnContext \<Rightarrow> TurnContext" where
  "ingest_record prin r turn =
     (if inh_target r \<noteq> prin then turn
      else
        let turn' = fold (\<lambda>source. ingest_source source trust_nothing) (sources (inh_taint r)) turn in
        if tainted (inh_taint r) \<and> sources (inh_taint r) = []
        then ingest_source INHERITED_WITHOUT_SOURCE trust_nothing turn' else turn')"

definition ingest_inherited ::
  "'s InheritanceStore \<Rightarrow> 's \<Rightarrow> Principal \<Rightarrow> instant \<Rightarrow> timedelta \<Rightarrow> TurnContext \<Rightarrow> TurnContext" where
  "ingest_inherited I st prin now skew turn =
     (case bind_r (dt_add now (- skew)) (live_records I st prin) of
        Inl _ \<Rightarrow> ingest_source INHERITANCE_UNREADABLE_SOURCE trust_nothing turn
      | Inr records \<Rightarrow> fold (ingest_record prin) records turn)"

section \<open>The contract of the ledger\<close>

text \<open>A sequence of writes, each of which may be refused.\<close>

definition put_all :: "'s InheritanceStore \<Rightarrow> InheritanceRecord list \<Rightarrow> 's \<Rightarrow> 's" where
  "put_all I rs s = fold (\<lambda>r s. case put_record I r s of Inl _ \<Rightarrow> s | Inr s' \<Rightarrow> s') rs s"

text \<open>\<open>rows\<close> is the set of records the ledger holds. A write only ever adds its record; a read answers every
  live record of the principal's partition, in order of expiry.\<close>

locale inheritance_store =
  fixes I :: "'s InheritanceStore"
    and wf :: "'s \<Rightarrow> bool"
    and rows :: "'s \<Rightarrow> InheritanceRecord set"
  assumes put_adds:
    "wf s \<Longrightarrow> representable (notAfter r) \<Longrightarrow> put_record I r s = Inr s' \<Longrightarrow>
       rows s' = insert r (rows s) \<and> wf s'"
    and live_answers:
    "wf s \<Longrightarrow> representable now \<Longrightarrow> live_records I s p now = Inr rs \<Longrightarrow>
       set rs = {r \<in> rows s. record_pk (inh_target r) = record_pk p \<and> live_at r now}
       \<and> sorted (map notAfter rs)"
begin

lemma put_all_keeps:
  assumes "wf s" and "\<forall>r \<in> set rs. representable (notAfter r)"
  shows "wf (put_all I rs s) \<and> rows s \<subseteq> rows (put_all I rs s)"
  using assms
proof (induction rs arbitrary: s)
  case Nil
  then show ?case by (simp add: put_all_def)
next
  case (Cons r rs)
  let ?s = "case put_record I r s of Inl _ \<Rightarrow> s | Inr s' \<Rightarrow> s'"
  have "wf ?s \<and> rows s \<subseteq> rows ?s"
    using put_adds [OF Cons.prems(1), of r] Cons.prems by (auto split: sum.splits)
  with Cons.IH [of ?s] Cons.prems(2) show ?case by (auto simp: put_all_def)
qed

end

section \<open>Ingesting records\<close>

lemma ingest_nothing_trusted: "ingest_source x trust_nothing turn = mark_tainted x turn"
  by (simp add: ingest_source_def trust_nothing_def)

lemma fold_mark:
  "set (tc_sources (fold (\<lambda>x. ingest_source x trust_nothing) xs turn)) = set (tc_sources turn) \<union> set xs
   \<and> tc_tainted (fold (\<lambda>x. ingest_source x trust_nothing) xs turn) = (tc_tainted turn \<or> xs \<noteq> [])"
  by (induction xs arbitrary: turn) (auto simp: ingest_nothing_trusted mark_tainted_def)

lemma ingest_record_grows:
  "set (tc_sources turn) \<subseteq> set (tc_sources (ingest_record prin r turn))
   \<and> (tc_tainted turn \<longrightarrow> tc_tainted (ingest_record prin r turn))"
  using fold_mark [of "sources (inh_taint r)" turn]
  by (auto simp: ingest_nothing_trusted mark_tainted_def Let_def)

lemma ingest_record_takes:
  "inh_target r = prin \<Longrightarrow>
     set (sources (inh_taint r)) \<subseteq> set (tc_sources (ingest_record prin r turn))
     \<and> (tainted (inh_taint r) \<longrightarrow> tc_tainted (ingest_record prin r turn))"
  using fold_mark [of "sources (inh_taint r)" turn]
  by (auto simp: ingest_nothing_trusted mark_tainted_def Let_def)

declare ingest_record.simps [simp del]

lemma fold_ingest_grows:
  "set (tc_sources turn) \<subseteq> set (tc_sources (fold (ingest_record prin) rs turn))
   \<and> (tc_tainted turn \<longrightarrow> tc_tainted (fold (ingest_record prin) rs turn))"
proof (induction rs arbitrary: turn)
  case (Cons r rs)
  from Cons.IH [of "ingest_record prin r turn"] ingest_record_grows [of turn prin r] show ?case by auto
qed simp

lemma fold_ingest_takes:
  assumes "r \<in> set rs" and "inh_target r = prin"
  shows "set (sources (inh_taint r)) \<subseteq> set (tc_sources (fold (ingest_record prin) rs turn))
    \<and> (tainted (inh_taint r) \<longrightarrow> tc_tainted (fold (ingest_record prin) rs turn))"
  using assms(1)
proof (induction rs arbitrary: turn)
  case (Cons r' rs)
  show ?case
  proof (cases "r' = r")
    case True
    with ingest_record_takes [OF assms(2), of turn] fold_ingest_grows [of "ingest_record prin r turn" prin rs]
    show ?thesis by auto
  next
    case False
    with Cons show ?thesis by simp
  qed
qed simp

section \<open>What a write records\<close>

lemma record_taint_grows:
  "(tainted t \<longrightarrow> tainted (record_taint e t trusted)) \<and> set (sources t) \<subseteq> set (sources (record_taint e t trusted))"
  by (auto simp: record_taint_def Let_def)

lemma resolve_not_after_bounds:
  assumes "resolve_not_after decl now sg = Inr t" and "\<forall>g. sg = Some g \<longrightarrow> representable (sg_expiry g)"
  shows "now + horizon_seconds decl * SECOND \<le> t \<and> representable t"
  using assms
  by (auto simp: resolve_not_after_def bind_r_Inr_iff dt_add_def max_def
      split: if_splits option.splits causes_target.splits)

text \<open>The sub-grant consulted is one the store holds for the target.\<close>

definition sub_grant_of ::
  "('g SubGrantStore \<times> 'g) option \<Rightarrow> Principal \<Rightarrow> SubGrant option \<Rightarrow> bool" where
  "sub_grant_of sgs tgt sg \<longleftrightarrow>
     (\<forall>g. sg = Some g \<longrightarrow> (\<exists>G gs. sgs = Some (G, gs) \<and> get_by_principal G gs tgt = Inr (Some g)))"

lemma build_inheritance_record_InrD:
  assumes "build_inheritance_record uuid sgs entry decl call now trusted = Inr r"
  shows "\<exists>sg. resolve_not_after decl now sg = Inr (notAfter r) \<and> now < notAfter r
    \<and> sub_grant_of sgs (inh_target r) sg"
    and "inh_target r = inheritance_target decl (bc_principal call)"
    and "inh_taint r = record_taint entry (bc_taint call) trusted"
  using assms
  by (auto simp: build_inheritance_record_def mk_inheritance_record_def bind_r_Inr_iff Let_def
      sub_grant_of_def split: option.splits if_splits causes_target.splits prod.splits)

lemma write_inheritance_record_InrD:
  assumes "write_inheritance_record uuid (Some (I, st)) entry call sgs now trusted = Inr (r, st')"
  obtains decl sg where "causes_context entry = Some decl"
    and "inh_target r = inheritance_target decl (bc_principal call)"
    and "inh_taint r = record_taint entry (bc_taint call) trusted"
    and "put_record I r st = Inr st'" and "now < notAfter r"
    and "resolve_not_after decl now sg = Inr (notAfter r)"
    and "sub_grant_of sgs (inh_target r) sg"
proof -
  from assms obtain decl where d: "causes_context entry = Some decl"
    and b: "build_inheritance_record uuid sgs entry decl call now trusted = Inr r"
    and p: "put_record I r st = Inr st'"
    by (auto simp: write_inheritance_record_def bind_r_Inr_iff split: option.splits sum.splits)
  from build_inheritance_record_InrD [OF b] that [OF d _ _ p] show thesis by blast
qed

context inheritance_store
begin

text \<open>The invocation property, over any ledger that keeps the contract.\<close>

lemma caused_turn_no_cleaner:
  assumes wf: "wf st"
    and wrote: "write_inheritance_record uuid (Some (I, st)) entry call sgs now trusted = Inr (r, st')"
    and rep: "representable (notAfter r)"
    and later: "\<forall>x \<in> set rs. representable (notAfter x)"
    and mint: "representable (now' - skew)" "now' - skew < notAfter r"
    and read: "live_records I (put_all I rs st') (inh_target r) (now' - skew) = Inr out"
  shows "set (sources (bc_taint call))
      \<subseteq> set (tc_sources (ingest_inherited I (put_all I rs st') (inh_target r) now' skew turn))
    \<and> (tainted (bc_taint call) \<longrightarrow>
        tc_tainted (ingest_inherited I (put_all I rs st') (inh_target r) now' skew turn))"
proof -
  obtain decl sg where t: "inh_taint r = record_taint entry (bc_taint call) trusted"
    and p: "put_record I r st = Inr st'"
    by (rule write_inheritance_record_InrD [OF wrote])
  have st': "wf st'" "r \<in> rows st'" using put_adds [OF wf rep p] by auto
  have st'': "wf (put_all I rs st')" "r \<in> rows (put_all I rs st')"
    using put_all_keeps [OF st'(1) later] st'(2) by auto
  have "r \<in> set out"
    using live_answers [OF st''(1) mint(1) read] st''(2) mint(2) by (simp add: live_at_def)
  moreover have "ingest_inherited I (put_all I rs st') (inh_target r) now' skew turn
      = fold (ingest_record (inh_target r)) out turn"
    using mint(1) read by (simp add: ingest_inherited_def dt_add_def)
  ultimately show ?thesis
    using fold_ingest_takes [of r out "inh_target r" turn] record_taint_grows [of "bc_taint call" entry trusted]
    by (auto simp: t)
qed

end

section \<open>The in-memory ledger\<close>

definition inhmem_wf :: "InMemoryInheritanceStore \<Rightarrow> bool" where
  "inhmem_wf s \<longleftrightarrow> (\<forall>pk part. map_of s pk = Some part \<longrightarrow>
     distinct (map fst part)
     \<and> (\<forall>sk r. map_of part sk = Some r \<longrightarrow>
          sk = record_sk r \<and> pk = record_pk (inh_target r) \<and> representable (notAfter r)))"

definition inhmem_rows :: "InMemoryInheritanceStore \<Rightarrow> InheritanceRecord set" where
  "inhmem_rows s = {r. \<exists>pk part sk. map_of s pk = Some part \<and> map_of part sk = Some r}"

text \<open>The key condition of the read never drops a live record and never decides alone.\<close>

lemma record_sk_greater_iff:
  assumes "representable (notAfter r)" "representable now"
  shows "record_sk r > instant_key now \<longleftrightarrow> now \<le> notAfter r"
proof -
  consider "notAfter r < now" | "notAfter r = now" | "now < notAfter r" by linarith
  then show ?thesis
  proof cases
    case 1
    then have "instant_key (notAfter r) @ ''#'' @ inh_id r < instant_key now @ []"
      by (intro append_less_right) (simp_all add: instant_key_def strftime_micros_less assms)
    with 1 show ?thesis by (simp add: record_sk_def)
  next
    case 2
    then show ?thesis using append_less_left [of "instant_key now" "[]" "''#'' @ inh_id r"]
      by (simp add: record_sk_def)
  next
    case 3
    then have "instant_key now @ [] < instant_key (notAfter r) @ ''#'' @ inh_id r"
      by (intro append_less_right) (simp_all add: instant_key_def strftime_micros_less assms)
    with 3 show ?thesis by (simp add: record_sk_def)
  qed
qed

lemma record_sk_mono:
  assumes "representable (notAfter r)" "representable (notAfter r')" "record_sk r \<le> record_sk r'"
  shows "notAfter r \<le> notAfter r'"
proof (rule ccontr)
  assume "\<not> notAfter r \<le> notAfter r'"
  then have "record_sk r' < record_sk r"
    unfolding record_sk_def
    by (intro append_less_right) (simp_all add: instant_key_def strftime_micros_less assms)
  with assms(3) show False by simp
qed

lemma partition_wf:
  assumes "inhmem_wf s"
  shows "distinct (map fst (partition_of s pk))"
    and "(sk, r) \<in> set (partition_of s pk) \<longleftrightarrow> map_of (partition_of s pk) sk = Some r"
    and "map_of (partition_of s pk) sk = Some r \<Longrightarrow>
           sk = record_sk r \<and> pk = record_pk (inh_target r) \<and> representable (notAfter r)"
proof -
  show d: "distinct (map fst (partition_of s pk))"
    using assms by (cases "map_of s pk") (auto simp: inhmem_wf_def partition_of_def)
  show "(sk, r) \<in> set (partition_of s pk) \<longleftrightarrow> map_of (partition_of s pk) sk = Some r"
    by (simp add: map_of_eq_Some_iff [OF d])
  assume "map_of (partition_of s pk) sk = Some r"
  then obtain part where "map_of s pk = Some part" "map_of part sk = Some r"
    by (cases "map_of s pk") (auto simp: partition_of_def)
  then show "sk = record_sk r \<and> pk = record_pk (inh_target r) \<and> representable (notAfter r)"
    using assms unfolding inhmem_wf_def by blast
qed

lemma partition_rows: "map_of (partition_of s pk) sk = Some r \<Longrightarrow> r \<in> inhmem_rows s"
  by (cases "map_of s pk") (auto simp: partition_of_def inhmem_rows_def)

lemma inhmem_put_adds:
  assumes wf: "inhmem_wf s" and rep: "representable (notAfter r)"
    and put: "inhmem_put_record r s = Inr s'"
  shows "inhmem_rows s' = insert r (inhmem_rows s) \<and> inhmem_wf s'"
proof -
  let ?pk = "record_pk (inh_target r)"
  let ?part = "partition_of s ?pk"
  have s': "s' = AList.update ?pk (AList.update (record_sk r) r ?part) s"
    and new: "map_of ?part (record_sk r) = None"
    using put by (auto simp: inhmem_put_record_def Let_def split: if_splits)
  have old: "map_of ?part k = Some x \<longleftrightarrow> (\<exists>part. map_of s ?pk = Some part \<and> map_of part k = Some x)" for k x
    by (auto simp: partition_of_def split: option.splits)
  have look: "map_of s' pk = Some part \<longleftrightarrow>
      (if pk = ?pk then part = AList.update (record_sk r) r ?part else map_of s pk = Some part)" for pk part
    by (auto simp: s')
  have "inhmem_rows s' = insert r (inhmem_rows s)"
  proof (rule set_eqI, rule iffI)
    fix x assume "x \<in> inhmem_rows s'"
    then obtain pk part sk where x: "map_of s' pk = Some part" "map_of part sk = Some x"
      by (auto simp: inhmem_rows_def)
    show "x \<in> insert r (inhmem_rows s)"
    proof (cases "pk = ?pk")
      case True
      with x have "sk = record_sk r \<and> x = r \<or> map_of ?part sk = Some x"
        by (auto simp: look update_conv' split: if_splits)
      then show ?thesis using old by (auto simp: inhmem_rows_def)
    next
      case False
      with x show ?thesis by (auto simp: look inhmem_rows_def)
    qed
  next
    fix x assume "x \<in> insert r (inhmem_rows s)"
    then consider "x = r" | pk part sk where "map_of s pk = Some part" "map_of part sk = Some x"
      by (auto simp: inhmem_rows_def)
    then show "x \<in> inhmem_rows s'"
    proof cases
      case 1
      then have "map_of s' ?pk = Some (AList.update (record_sk r) r ?part)
          \<and> map_of (AList.update (record_sk r) r ?part) (record_sk r) = Some x" by (simp add: s')
      then show ?thesis unfolding inhmem_rows_def by blast
    next
      case 2
      show ?thesis
      proof (cases "pk = ?pk")
        case True
        then have px: "map_of ?part sk = Some x" using 2 old by auto
        then have "sk \<noteq> record_sk r" using new by auto
        with px have "map_of s' ?pk = Some (AList.update (record_sk r) r ?part)
            \<and> map_of (AList.update (record_sk r) r ?part) sk = Some x" by (simp add: s')
        then show ?thesis unfolding inhmem_rows_def by blast
      next
        case False
        with 2 have "map_of s' pk = Some part" by (simp add: look)
        with 2 show ?thesis unfolding inhmem_rows_def by blast
      qed
    qed
  qed
  moreover have "inhmem_wf s'"
    unfolding inhmem_wf_def
  proof (intro allI impI)
    fix pk part assume l: "map_of s' pk = Some part"
    show "distinct (map fst part) \<and> (\<forall>sk x. map_of part sk = Some x \<longrightarrow>
        sk = record_sk x \<and> pk = record_pk (inh_target x) \<and> representable (notAfter x))"
    proof (cases "pk = ?pk")
      case True
      with l have part: "part = AList.update (record_sk r) r ?part" by (simp add: look)
      have "sk = record_sk x \<and> pk = record_pk (inh_target x) \<and> representable (notAfter x)"
        if "map_of part sk = Some x" for sk x
      proof (cases "sk = record_sk r")
        case True
        with that part have "x = r" by simp
        with True \<open>pk = ?pk\<close> rep show ?thesis by simp
      next
        case False
        with that part have "map_of ?part sk = Some x" by simp
        from partition_wf(3) [OF wf this] True show ?thesis by simp
      qed
      moreover have "distinct (map fst part)"
        unfolding part by (rule distinct_update [OF partition_wf(1) [OF wf]])
      ultimately show ?thesis by blast
    next
      case False
      with l wf show ?thesis by (auto simp: look inhmem_wf_def)
    qed
  qed
  ultimately show ?thesis by simp
qed

lemma inhmem_live_answers:
  assumes wf: "inhmem_wf s" and now: "representable now" and rs: "inhmem_live_records s p now = Inr rs"
  shows "set rs = {r \<in> inhmem_rows s. record_pk (inh_target r) = record_pk p \<and> live_at r now}
    \<and> sorted (map notAfter rs)"
proof -
  let ?part = "partition_of s (record_pk p)"
  let ?keep = "filter (\<lambda>(sk, r). sk > instant_key now) (sort_key fst ?part)"
  have rs': "rs = filter (\<lambda>r. live_at r now) (map snd ?keep)"
    using rs by (simp add: inhmem_live_records_def Let_def)
  have inp: "(sk, r) \<in> set ?part \<longleftrightarrow> sk = record_sk r \<and> record_pk (inh_target r) = record_pk p \<and> r \<in> inhmem_rows s"
    for sk r
  proof
    assume "(sk, r) \<in> set ?part"
    then have m: "map_of ?part sk = Some r" using partition_wf(2) [OF wf] by blast
    from partition_wf(3) [OF wf m] partition_rows [OF m]
    show "sk = record_sk r \<and> record_pk (inh_target r) = record_pk p \<and> r \<in> inhmem_rows s" by simp
  next
    assume a: "sk = record_sk r \<and> record_pk (inh_target r) = record_pk p \<and> r \<in> inhmem_rows s"
    then obtain pk part k where "map_of s pk = Some part" "map_of part k = Some r"
      by (auto simp: inhmem_rows_def)
    then have m: "map_of (partition_of s pk) k = Some r" by (simp add: partition_of_def)
    from partition_wf(3) [OF wf m] a have "k = sk" "pk = record_pk p" by simp_all
    with m partition_wf(2) [OF wf] show "(sk, r) \<in> set ?part" by blast
  qed
  have rep: "representable (notAfter r)" if "r \<in> inhmem_rows s" for r
    using that wf unfolding inhmem_wf_def inhmem_rows_def by blast
  have "r \<in> set rs \<longleftrightarrow> (\<exists>sk. (sk, r) \<in> set ?part \<and> sk > instant_key now) \<and> live_at r now" for r
    unfolding rs' by (auto simp: image_iff)
  moreover have "(\<exists>sk. (sk, r) \<in> set ?part \<and> sk > instant_key now) \<longleftrightarrow>
      r \<in> inhmem_rows s \<and> record_pk (inh_target r) = record_pk p \<and> now \<le> notAfter r" for r
    unfolding inp using record_sk_greater_iff [OF rep now, of r] by blast
  ultimately have "set rs = {r \<in> inhmem_rows s. record_pk (inh_target r) = record_pk p \<and> live_at r now}"
    by (auto simp: live_at_def)
  moreover have "sorted (map notAfter rs)"
  proof -
    have "sorted_wrt (\<lambda>x y. fst x \<le> fst y) ?keep"
      using sorted_sort_key [of fst ?part] by (simp add: sorted_map sorted_wrt_filter)
    then have "sorted_wrt (\<lambda>x y. notAfter (snd x) \<le> notAfter (snd y)) ?keep"
    proof (rule sorted_wrt_mono_rel [rotated])
      fix x y assume "x \<in> set ?keep" "y \<in> set ?keep" "fst x \<le> fst y"
      then have "(fst x, snd x) \<in> set ?part" "(fst y, snd y) \<in> set ?part" by auto
      with inp have "fst x = record_sk (snd x)" "snd x \<in> inhmem_rows s"
        "fst y = record_sk (snd y)" "snd y \<in> inhmem_rows s" by blast+
      with \<open>fst x \<le> fst y\<close> show "notAfter (snd x) \<le> notAfter (snd y)"
        by (intro record_sk_mono [OF rep rep]) simp_all
    qed
    then show ?thesis by (simp add: rs' sorted_map sorted_wrt_map sorted_wrt_filter)
  qed
  ultimately show ?thesis by simp
qed

interpretation inhmem: inheritance_store inhmem_ops inhmem_wf inhmem_rows
proof (unfold_locales, goal_cases)
  case (1 s r s')
  then show ?case by (intro inhmem_put_adds) (simp_all add: inhmem_ops_def)
next
  case (2 s now p rs)
  then show ?case by (intro inhmem_live_answers) (simp_all add: inhmem_ops_def)
qed

section \<open>Properties\<close>

definition expiries_representable :: "('g SubGrantStore \<times> 'g) option \<Rightarrow> bool" where
  "expiries_representable sgs \<longleftrightarrow>
     (\<forall>G gs p g. sgs = Some (G, gs) \<longrightarrow> get_by_principal G gs p = Inr (Some g) \<longrightarrow> representable (sg_expiry g))"

lemma written_record:
  assumes "write_inheritance_record uuid (Some (I, st)) entry call sgs now trusted = Inr (r, st')"
    and "expiries_representable sgs" and "causes_context entry = Some decl"
  shows "inh_target r = inheritance_target decl (bc_principal call)"
    and "now + horizon_seconds decl * SECOND \<le> notAfter r" and "representable (notAfter r)"
proof -
  obtain decl' sg where d: "causes_context entry = Some decl'"
    and t: "inh_target r = inheritance_target decl' (bc_principal call)"
    and n: "resolve_not_after decl' now sg = Inr (notAfter r)" and sg: "sub_grant_of sgs (inh_target r) sg"
    by (rule write_inheritance_record_InrD [OF assms(1)])
  have eq: "decl' = decl" using d assms(3) by simp
  show "inh_target r = inheritance_target decl (bc_principal call)" using t eq by simp
  have "\<forall>g. sg = Some g \<longrightarrow> representable (sg_expiry g)"
    using sg assms(2) unfolding sub_grant_of_def expiries_representable_def by blast
  from resolve_not_after_bounds [OF n this] eq
  show "now + horizon_seconds decl * SECOND \<le> notAfter r" "representable (notAfter r)" by simp_all
qed

text \<open>C32: a context the agent causes starts no cleaner than the turn that caused it. Once the record of a
  cause op is written, whatever else is written to the ledger afterwards, every turn the target principal
  mints while the declared horizon (widened by the reader's skew bound) runs is tainted if the causing call
  was, and carries every source of the causing call.\<close>

theorem caused_context_no_cleaner:
  assumes "inhmem_wf st" and "expiries_representable sgs"
    and "write_inheritance_record uuid (Some (inhmem_ops, st)) entry call sgs now trusted = Inr (r, st')"
    and "causes_context entry = Some decl"
    and "\<forall>x \<in> set later. representable (notAfter x)"
    and "representable (now' - skew)" and "now' - skew < now + horizon_seconds decl * SECOND"
  shows "set (sources (bc_taint call)) \<subseteq> set (tc_sources
      (ingest_inherited inhmem_ops (put_all inhmem_ops later st')
         (inheritance_target decl (bc_principal call)) now' skew (turn_init i)))
    \<and> (tainted (bc_taint call) \<longrightarrow> tc_tainted
      (ingest_inherited inhmem_ops (put_all inhmem_ops later st')
         (inheritance_target decl (bc_principal call)) now' skew (turn_init i)))"
proof -
  note w = written_record [OF assms(3,2,4)]
  obtain out where "live_records inhmem_ops (put_all inhmem_ops later st') (inh_target r) (now' - skew) = Inr out"
    by (simp add: inhmem_ops_def inhmem_live_records_def Let_def)
  from inhmem.caused_turn_no_cleaner [OF assms(1,3) w(3) assms(5,6) _ this] assms(7) w show ?thesis
    by simp
qed

definition sample_spawn_call :: BrokeredCall where
  "sample_spawn_call = sample_call sample_spawn True"

definition sample_inherited :: InheritanceRecord where
  "sample_inherited =
     \<lparr>inh_id = ''r1'', inh_target = sample_child, causingPrincipal = sample_principal,
      causingTurnId = ''turn-1'', inh_taint = bc_taint sample_spawn_call, inh_tool = ''agents'',
      inh_op = ''spawn'', issuedAt = 0, notAfter = 3600 * 1000000\<rparr>"

lemma sample_write:
  "write_inheritance_record ''r1'' (Some (inhmem_ops, [])) sample_spawn sample_spawn_call
     (None :: (InMemorySubGrantStore SubGrantStore \<times> InMemorySubGrantStore) option) 0 []
   = Inr (sample_inherited, [(record_pk sample_child, [(record_sk sample_inherited, sample_inherited)])])"
  by (simp add: write_inheritance_record_def build_inheritance_record_def sample_spawn_def
      sample_spawn_call_def sample_call_def inheritance_target_def resolve_not_after_def dt_add_def
      mk_inheritance_record_def record_taint_def inhmem_ops_def inhmem_put_record_def
      partition_of_def sample_inherited_def DATETIME_MIN_def DATETIME_MAX_def SECOND_def Let_def)

theorem caused_context_no_cleaner_witness:
  "tc_tainted (ingest_inherited inhmem_ops (put_all inhmem_ops []
      [(record_pk sample_child, [(record_sk sample_inherited, sample_inherited)])])
      sample_child (60 * 1000000) 0 (turn_init ''turn-2''))"
proof -
  have d: "causes_context sample_spawn = Some \<lparr>target = ChildTarget sample_child, horizon_seconds = 3600\<rparr>"
    by (simp add: sample_spawn_def)
  have "inhmem_wf []" by (simp add: inhmem_wf_def)
  from caused_context_no_cleaner [OF this _ sample_write d, of "[]" "60 * 1000000" 0 "''turn-2''"]
  show ?thesis
    by (simp add: expiries_representable_def inheritance_target_def sample_spawn_call_def sample_call_def
        DATETIME_MIN_def DATETIME_MAX_def SECOND_def)
qed

text \<open>The ledger loses nothing and invents nothing. After any sequence of writes to an empty ledger, a
  read at an instant answers exactly the stored records of the principal's partition that are live then,
  in order of expiry; a write never replaces a stored record.\<close>

lemma ledger_read_exact:
  assumes "\<forall>x \<in> set written. representable (notAfter x)" and "representable now"
  shows "\<exists>rs. live_records inhmem_ops (put_all inhmem_ops written []) p now = Inr rs
    \<and> sorted (map notAfter rs)
    \<and> set rs = {r \<in> inhmem_rows (put_all inhmem_ops written []).
                  record_pk (inh_target r) = record_pk p \<and> now < notAfter r}
    \<and> (\<forall>s r s'. put_record inhmem_ops r s = Inr s' \<longrightarrow> inhmem_wf s \<longrightarrow> representable (notAfter r)
         \<longrightarrow> inhmem_rows s' = insert r (inhmem_rows s))"
proof -
  have wf: "inhmem_wf (put_all inhmem_ops written [])"
    using inhmem.put_all_keeps [of "[]" written] assms(1) by (simp add: inhmem_wf_def)
  obtain rs where rs: "live_records inhmem_ops (put_all inhmem_ops written []) p now = Inr rs"
    by (simp add: inhmem_ops_def inhmem_live_records_def Let_def)
  have "inhmem_rows s' = insert r (inhmem_rows s)"
    if "put_record inhmem_ops r s = Inr s'" "inhmem_wf s" "representable (notAfter r)" for s r s'
    using inhmem.put_adds [OF that(2,3,1)] by simp
  with inhmem.live_answers [OF wf assms(2) rs] rs show ?thesis unfolding live_at_def by blast
qed

lemma ledger_read_exact_witness:
  "\<exists>rs. live_records inhmem_ops (put_all inhmem_ops [sample_inherited] []) sample_child 0 = Inr rs
    \<and> sorted (map notAfter rs)
    \<and> set rs = {r \<in> inhmem_rows (put_all inhmem_ops [sample_inherited] []).
                  record_pk (inh_target r) = record_pk sample_child \<and> 0 < notAfter r}"
proof -
  have "\<forall>x \<in> set [sample_inherited]. representable (notAfter x)" "representable 0"
    by (simp_all add: sample_inherited_def DATETIME_MIN_def DATETIME_MAX_def)
  from ledger_read_exact [OF this] show ?thesis by blast
qed

text \<open>A ledger that cannot be read taints. Whatever store the runtime holds, a mint whose ledger read
  fails, or whose judging instant is not representable, still returns a turn, and the turn is tainted with
  the unreadable source.\<close>

lemma unreadable_ledger_taints:
  assumes "bind_r (dt_add now (- skew)) (live_records I st p) = Inl e"
  shows "tc_tainted (ingest_inherited I st p now skew turn)
    \<and> INHERITANCE_UNREADABLE_SOURCE \<in> set (tc_sources (ingest_inherited I st p now skew turn))"
  using assms by (simp add: ingest_inherited_def ingest_nothing_trusted mark_tainted_def)

lemma unreadable_ledger_taints_witness:
  "tc_tainted (ingest_inherited (inhmem_ops\<lparr>live_records := \<lambda>_ _ _. Inl (Exn ''ClientError'' ''throttled'')\<rparr>) []
     sample_child 0 0 (turn_init ''t''))"
proof -
  have "bind_r (dt_add 0 (- 0)) (live_records (inhmem_ops\<lparr>live_records :=
      \<lambda>_ _ _. Inl (Exn ''ClientError'' ''throttled'')\<rparr>) [] sample_child) = Inl (Exn ''ClientError'' ''throttled'')"
    by (simp add: dt_add_def DATETIME_MIN_def DATETIME_MAX_def)
  from unreadable_ledger_taints [OF this] show ?thesis by simp
qed

end
