(* ===== verification/Approval_Alarm.thy ===== *)
theory Approval_Alarm
  imports Approval Counter_Keys "HOL-Library.Product_Lexorder"
begin

text \<open>
  The approval-queue alarm and the sweep schedule (\<open>broker/approval/expiry.py\<close>). The alarm keeps, per
  operation, the bucket it was raised in and the expiries not yet reported; its durable half is two
  counters of the enforcement store. An operation returns the alarm, the store and the deliveries it
  made; a fault of a store write never reaches the caller, as in the code.
\<close>

section \<open>The alarm\<close>

definition APPROVAL_EXPIRED_REASON :: string where
  "APPROVAL_EXPIRED_REASON = ''approval expired undecided''"

definition ALARM_COUNT_WRITE_FAILED :: string where
  "ALARM_COUNT_WRITE_FAILED = ''approval alarm count write failed''"

definition ALARM_RAISED_SUFFIX :: string where "ALARM_RAISED_SUFFIX = ''approval_alarm_raised''"
definition ALARM_EXPIRED_SUFFIX :: string where "ALARM_EXPIRED_SUFFIX = ''approval_alarm_expired''"
definition RAISED_MARKER_CAP :: rat where "RAISED_MARKER_CAP = 1"
definition UNBOUNDED_COUNTER_CAP :: rat where "UNBOUNDED_COUNTER_CAP = 10 ^ 18"

record ApprovalAlarmEvent =
  ae_state :: string
  ae_agent_id :: string
  ae_tool :: string
  ae_op :: string
  ae_bucket :: string
  ae_cap :: int
  ae_expired_count :: int
  ae_new_expiries :: int

record alarm_config =
  aa_principal :: Principal
  aa_cap :: int
  aa_period :: string
  aa_hold_window :: timedelta

record ApprovalQueueAlarm =
  aa_raised :: "(string \<times> string, string) dict"
  aa_unreported :: "(string \<times> string \<times> string, int) dict"

definition alarm_init :: ApprovalQueueAlarm where
  "alarm_init = \<lparr>aa_raised = [], aa_unreported = []\<rparr>"

definition alarm_key :: "alarm_config \<Rightarrow> instant \<Rightarrow> string \<Rightarrow> string \<Rightarrow> string \<Rightarrow> string \<Rightarrow> exn + string" where
  "alarm_key A now tool op suffix bucket =
     scoped_counter_key now (aa_principal A) tool op suffix (aa_period A) (Some bucket) None"

definition alarm_event :: "alarm_config \<Rightarrow> string \<Rightarrow> string \<Rightarrow> string \<Rightarrow> string \<Rightarrow> int \<Rightarrow> int \<Rightarrow> ApprovalAlarmEvent" where
  "alarm_event A state tool op bucket total_expired new_expired =
     \<lparr>ae_state = state, ae_agent_id = agentId (aa_principal A), ae_tool = tool, ae_op = op, ae_bucket = bucket,
      ae_cap = aa_cap A, ae_expired_count = total_expired, ae_new_expiries = new_expired\<rparr>"

definition raise_for ::
  "alarm_config \<Rightarrow> 's EnforcementStore \<Rightarrow> string \<Rightarrow> string \<Rightarrow> instant \<Rightarrow> ApprovalQueueAlarm \<Rightarrow> 's
     \<Rightarrow> (exn + ApprovalAlarmEvent list) \<times> ApprovalQueueAlarm \<times> 's" where
  "raise_for A S tool op moment al s =
     (case period_bucket_of moment (aa_period A) of
        Inl e \<Rightarrow> (Inl e, al, s)
      | Inr bucket \<Rightarrow>
          (case alarm_key A moment tool op ALARM_RAISED_SUFFIX bucket of
             Inl e \<Rightarrow> (Inr [], al, s)
           | Inr k \<Rightarrow>
               (let (first, s') = try_increment_counter S k 1 RAISED_MARKER_CAP s in
                (Inr (if first then [alarm_event A ''raised'' tool op bucket 0 0] else []),
                 al\<lparr>aa_raised := AList.update (tool, op) bucket (aa_raised al)\<rparr>, s'))))"

definition is_raised :: "alarm_config \<Rightarrow> 's EnforcementStore \<Rightarrow> instant \<Rightarrow> string \<Rightarrow> string \<Rightarrow> string \<Rightarrow> 's \<Rightarrow> exn + bool" where
  "is_raised A S now tool op bucket s =
     bind_r (alarm_key A now tool op ALARM_RAISED_SUFFIX bucket) (\<lambda>k. Inr (read_counter S s k \<ge> 1))"

fun raised_bucket ::
  "alarm_config \<Rightarrow> 's EnforcementStore \<Rightarrow> instant \<Rightarrow> string \<Rightarrow> string \<Rightarrow> instant list \<Rightarrow> 's \<Rightarrow> exn + string option" where
  "raised_bucket A S now tool op [] s = Inr None"
| "raised_bucket A S now tool op (m # ms) s =
     bind_r (period_bucket_of m (aa_period A)) (\<lambda>candidate.
     bind_r (is_raised A S now tool op candidate s) (\<lambda>up.
       if up then Inr (Some candidate) else raised_bucket A S now tool op ms s))"

definition count_expiry ::
  "alarm_config \<Rightarrow> 's EnforcementStore \<Rightarrow> instant \<Rightarrow> string \<Rightarrow> string \<Rightarrow> instant \<Rightarrow> instant \<Rightarrow> ApprovalQueueAlarm \<Rightarrow> 's
     \<Rightarrow> bool \<times> ApprovalQueueAlarm \<times> 's" where
  "count_expiry A S now tool op held_at expired_at al s =
     (case raised_bucket A S now tool op [held_at, expired_at] s of
        Inl e \<Rightarrow> (False, al, s)
      | Inr None \<Rightarrow> (True, al, s)
      | Inr (Some bucket) \<Rightarrow>
          (case alarm_key A now tool op ALARM_EXPIRED_SUFFIX bucket of
             Inl e \<Rightarrow> (False, al, s)
           | Inr k \<Rightarrow>
               (let (_, s') = try_increment_counter S k 1 UNBOUNDED_COUNTER_CAP s;
                    raised = (if map_of (aa_raised al) (tool, op) = None
                              then AList.update (tool, op) bucket (aa_raised al) else aa_raised al);
                    n = (case map_of (aa_unreported al) (tool, op, bucket) of None \<Rightarrow> 0 | Some n \<Rightarrow> n)
                in (True, \<lparr>aa_raised = raised,
                           aa_unreported = AList.update (tool, op, bucket) (n + 1) (aa_unreported al)\<rparr>, s'))))"

text \<open>\<open>int()\<close> of a float truncates towards zero.\<close>

definition py_int :: "rat \<Rightarrow> int" where
  "py_int r = (if r < 0 then - \<lfloor>- r\<rfloor> else \<lfloor>r\<rfloor>)"

definition read_total ::
  "alarm_config \<Rightarrow> 's EnforcementStore \<Rightarrow> instant \<Rightarrow> string \<Rightarrow> string \<Rightarrow> string \<Rightarrow> int \<Rightarrow> 's \<Rightarrow> int" where
  "read_total A S now tool op bucket fallback s =
     (case alarm_key A now tool op ALARM_EXPIRED_SUFFIX bucket of
        Inl e \<Rightarrow> fallback
      | Inr k \<Rightarrow> py_int (read_counter S s k))"

definition flush ::
  "alarm_config \<Rightarrow> 's EnforcementStore \<Rightarrow> instant \<Rightarrow> ApprovalQueueAlarm \<Rightarrow> 's
     \<Rightarrow> (exn + unit) \<times> ApprovalQueueAlarm \<times> ApprovalAlarmEvent list" where
  "flush A S now al s =
     (let expired = map (\<lambda>((tool, op, bucket), new).
            alarm_event A ''expired'' tool op bucket (read_total A S now tool op bucket new s) new)
            (sort_key fst (aa_unreported al));
          al1 = al\<lparr>aa_unreported := []\<rparr>
      in case bind_r (dt_add now (- aa_hold_window A)) (\<lambda>t. period_bucket_of t (aa_period A)) of
           Inl e \<Rightarrow> (Inl e, al1, expired)
         | Inr settled \<Rightarrow>
             (Inr (), al1\<lparr>aa_raised := filter (\<lambda>(_, bucket). \<not> settled > bucket) (aa_raised al)\<rparr>,
              expired @ map (\<lambda>((tool, op), bucket).
                alarm_event A ''cleared'' tool op bucket (read_total A S now tool op bucket 0 s) 0)
                (filter (\<lambda>(_, bucket). settled > bucket) (sort_key fst (aa_raised al)))))"

section \<open>The sweep schedule\<close>

record ExpirySweeper =
  sw_interval :: rat
  sw_last :: "rat option"

definition mk_sweeper :: "rat \<Rightarrow> exn + ExpirySweeper" where
  "mk_sweeper interval_seconds =
     bind_r (guard_r (\<not> interval_seconds \<le> 0) (ValueError ''interval_seconds must be positive'')) (\<lambda>_.
       Inr \<lparr>sw_interval = interval_seconds, sw_last = None\<rparr>)"

definition due :: "ExpirySweeper \<Rightarrow> rat \<Rightarrow> bool" where
  "due w clock = (case sw_last w of None \<Rightarrow> True | Some prev \<Rightarrow> clock - prev \<ge> sw_interval w)"

text \<open>The two clock readings (the due check, the stamp) are separate; \<open>sweep\<close> may raise.\<close>

definition maybe_sweep :: "('s \<Rightarrow> (exn + nat) \<times> 's) \<Rightarrow> rat \<Rightarrow> rat \<Rightarrow> ExpirySweeper \<Rightarrow> 's \<Rightarrow> nat option \<times> ExpirySweeper \<times> 's" where
  "maybe_sweep sweep clock1 clock2 w s =
     (if \<not> due w clock1 then (None, w, s)
      else
        (case sweep s of
           (Inl e, s') \<Rightarrow> (None, w\<lparr>sw_last := Some clock2\<rparr>, s')
         | (Inr n, s') \<Rightarrow> (Some n, w\<lparr>sw_last := Some clock2\<rparr>, s')))"

section \<open>Buckets in time order\<close>

lemma strftime_day_less:
  assumes "representable t" "representable u" and "t div DAY < u div DAY"
  shows "strftime_day t @ x < strftime_day u @ y"
proof -
  obtain a b c where t: "date_of t = (a, b, c)" by (cases "date_of t") blast
  obtain a' b' c' where u: "date_of u = (a', b', c')" by (cases "date_of u") blast
  have rt: "1 \<le> a" "a < 10 ^ 4" "1 \<le> b" "b < 10 ^ 2" "1 \<le> c" "c < 10 ^ 2"
    using date_of_range [OF t] assms(1) by auto
  have ru: "1 \<le> a'" "a' < 10 ^ 4" "1 \<le> b'" "b' < 10 ^ 2" "1 \<le> c'" "c' < 10 ^ 2"
    using date_of_range [OF u] assms(2) by auto
  consider "a < a'" | "a = a'" "b < b'" | "a = a'" "b = b'" "c < c'"
    using date_of_less [OF assms(3) t u] by blast
  then have "strftime_day t < strftime_day u"
  proof cases
    case 1
    with rt ru t u show ?thesis by (simp add: strftime_day_def append_less_right pad_digits_less)
  next
    case 2
    with rt ru have "pad_digits 2 b @ pad_digits 2 c < pad_digits 2 b' @ pad_digits 2 c'"
      by (intro append_less_right pad_digits_less) simp_all
    with 2 t u show ?thesis by (simp add: strftime_day_def append_less_left)
  next
    case 3
    with rt ru have "pad_digits 2 c < pad_digits 2 c'" by (intro pad_digits_less) simp_all
    with 3 t u show ?thesis by (simp add: strftime_day_def append_less_left)
  qed
  then show ?thesis by (simp add: append_less_right)
qed

lemma strftime_hour_le:
  assumes "representable t" "representable u" and "t \<le> u"
  shows "strftime_hour t \<le> strftime_hour u"
proof -
  have h: "t div HOUR \<le> u div HOUR" using assms(3) HOUR_pos by (simp add: zdiv_mono1)
  consider "t div HOUR = u div HOUR" | "t div DAY < u div DAY"
    | "t div DAY = u div DAY" "t div HOUR mod 24 < u div HOUR mod 24"
    using h split_less [of "t div HOUR" "u div HOUR" 24] by (fastforce simp: day_div_hours)
  then show ?thesis
  proof cases
    case 1
    then have "strftime_hour t = strftime_hour u"
      by (simp add: strftime_hour_def strftime_day_def date_of_def hour_of_eq day_div_hours)
    then show ?thesis by simp
  next
    case 2
    then show ?thesis unfolding strftime_hour_def by (intro less_imp_le strftime_day_less assms(1,2))
  next
    case 3
    then have "strftime_day t = strftime_day u" by (simp add: strftime_day_def date_of_def)
    moreover have "pad_digits 2 (hour_of t) < pad_digits 2 (hour_of u)"
      using 3(2) hour_of_range [of t] hour_of_range [of u] by (intro pad_digits_less) (simp_all add: hour_of_eq)
    ultimately show ?thesis by (simp add: strftime_hour_def append_less_left less_imp_le)
  qed
qed

lemma period_format_le:
  assumes "representable t" "representable u" and "t \<le> u"
  shows "period_format p t \<le> period_format p u"
proof (cases "p = UTC_DAY")
  case True
  have "t div DAY \<le> u div DAY" using assms(3) DAY_pos by (simp add: zdiv_mono1)
  then consider "t div DAY = u div DAY" | "t div DAY < u div DAY" by linarith
  then have "strftime_day t \<le> strftime_day u"
  proof cases
    case 1
    then show ?thesis by (simp add: strftime_day_def date_of_def)
  next
    case 2
    from strftime_day_less [OF assms(1,2) this, of "[]" "[]"] show ?thesis by simp
  qed
  with True show ?thesis by (simp add: period_format_def)
next
  case False
  with strftime_hour_le [OF assms] show ?thesis by (simp add: period_format_def)
qed

section \<open>Results\<close>

text \<open>An alarm is cleared only when nothing held under it can still be approved. When a flush reports the
  alarm of a bucket as cleared, every hold made at an instant of that bucket, with the alarm's hold window
  as its lifetime, is past its expiry at the instant of the flush.\<close>

lemma cleared_alarm_has_no_open_hold:
  assumes "flush A S now al s = (Inr (), al', evs)" and "e \<in> set evs" and "ae_state e = ''cleared''"
    and "period_bucket_of held (aa_period A) = Inr (ae_bucket e)" and "dt_add held (aa_hold_window A) = Inr expiry"
    and "representable held" and "representable now"
  shows "is_expired expiry now ZERO_SKEW = Inr True"
proof -
  from assms(1-3) obtain t where t: "dt_add now (- aa_hold_window A) = Inr t"
    and later: "ae_bucket e < period_format (aa_period A) t"
    by (auto simp: flush_def Let_def alarm_event_def bind_r_Inr_iff period_bucket_of_def split: sum.splits)
  have b: "ae_bucket e = period_format (aa_period A) held"
    using assms(4) by (auto simp: period_bucket_of_def bind_r_Inr_iff)
  have t_eq: "t = now - aa_hold_window A" and r: "representable t"
    using t by (auto simp: dt_add_def split: if_splits)
  have "held < t"
  proof (rule ccontr)
    assume "\<not> held < t"
    then have "period_format (aa_period A) t \<le> period_format (aa_period A) held"
      using period_format_le [OF r assms(6)] by simp
    with later b show False by simp
  qed
  moreover have "expiry = held + aa_hold_window A" using assms(5) by (auto simp: dt_add_def split: if_splits)
  ultimately show ?thesis
    using t_eq end_judged_at_zero [OF assms(7)] by (simp add: is_expired_def)
qed

definition sample_alarm_config :: alarm_config where
  "sample_alarm_config =
     \<lparr>aa_principal = sample_principal, aa_cap = 3, aa_period = UTC_DAY, aa_hold_window = 3600 * SECOND\<rparr>"

lemma cleared_alarm_has_no_open_hold_witness:
  "is_expired (HOUR + 3600 * SECOND) (DAY + 2 * HOUR) ZERO_SKEW = Inr True"
proof -
  let ?al = "\<lparr>aa_raised = [((''email'', ''send''), ''19700101'')], aa_unreported = []\<rparr>"
  let ?e = "alarm_event sample_alarm_config ''cleared'' ''email'' ''send'' ''19700101'' 0 0"
  have f: "flush sample_alarm_config mem_ops (DAY + 2 * HOUR) ?al mem_init = (Inr (), alarm_init, [?e])"
    by code_simp
  have b: "period_bucket_of HOUR (aa_period sample_alarm_config) = Inr (ae_bucket ?e)" by code_simp
  have d: "dt_add HOUR (aa_hold_window sample_alarm_config) = Inr (HOUR + 3600 * SECOND)" by code_simp
  show ?thesis
    by (rule cleared_alarm_has_no_open_hold [OF f _ _ b d])
       (simp_all add: alarm_event_def HOUR_def DAY_def DATETIME_MIN_def DATETIME_MAX_def)
qed

end
