(* ===== verification/Input_Age.thy ===== *)
theory Input_Age
  imports Clock_Skew Schemas Json_Text
begin

text \<open>
  The age of the inputs a decision depends on (\<open>broker/runtime/input_age.py\<close>): when each fetched input was
  established, the deployment's maximum ages, the horizon of a decision, and the gate in front of the
  decider. A reading of the clock is an argument. A read that itself establishes inputs of the current
  decision returns them (\<open>nested\<close>), which is what the context variable of \<open>bound\<close> carries.
\<close>

section \<open>As-of instants\<close>

record InputAsOf =
  fetched_at :: instant
  stated_at :: "instant option"

definition as_of :: "InputAsOf \<Rightarrow> instant" where
  "as_of e = (case stated_at e of None \<Rightarrow> fetched_at e | Some s \<Rightarrow> min (fetched_at e) s)"

record InputAgePolicy =
  startup :: "(string, InputAsOf) dict"
  max_age :: "(string, timedelta) dict"
  lowering :: "(string, timedelta) dict"

text \<open>\<open>timedelta(seconds=n)\<close>: at most 999999999 days either way.\<close>

definition mk_timedelta :: "int \<Rightarrow> exn + timedelta" where
  "mk_timedelta seconds =
     (if \<bar>seconds div 86400\<bar> \<le> 999999999 then Inr (seconds * SECOND)
      else Inl (Exn ''OverflowError'' ''days''))"

fun timedeltas :: "(string, int) dict \<Rightarrow> exn + (string, timedelta) dict" where
  "timedeltas [] = Inr []"
| "timedeltas ((name, seconds) # xs) =
     bind_r (mk_timedelta seconds) (\<lambda>d. bind_r (timedeltas xs) (\<lambda>ds. Inr ((name, d) # ds)))"

definition from_seconds :: "(string, InputAsOf) dict \<Rightarrow> (string, int) dict \<Rightarrow> exn + InputAgePolicy" where
  "from_seconds inputs max_age_seconds =
     bind_r (timedeltas max_age_seconds) (\<lambda>ages. Inr \<lparr>startup = inputs, max_age = ages, lowering = []\<rparr>)"

definition end_of :: "instant \<Rightarrow> timedelta \<Rightarrow> instant" where
  "end_of t age = (case dt_add t age of Inl e \<Rightarrow> DATETIME_MAX | Inr e \<Rightarrow> e)"

record StaleInput =
  si_name :: string
  si_as_of :: instant
  si_max_age :: timedelta

definition describe :: "StaleInput \<Rightarrow> string" where
  "describe x =
     si_name x @ '' (as of '' @ isoformat_utc (si_as_of x) @ '', maximum age ''
     @ int_str (si_max_age x div SECOND) @ ''s)''"

section \<open>The inputs of one decision\<close>

definition INPUT_PAST_MAX_AGE_REASON :: string where
  "INPUT_PAST_MAX_AGE_REASON = ''input past maximum age''"

definition INPUT_AGE_CHECK_FAILED_REASON :: string where
  "INPUT_AGE_CHECK_FAILED_REASON = ''input age check failed''"

record DecisionInputs =
  di_max_age :: "(string, timedelta) dict"
  horizon_age :: "(string, timedelta) dict"
  di_entries :: "(string, InputAsOf) dict"

definition merge_dicts :: "('k, 'v) dict \<Rightarrow> ('k, 'v) dict \<Rightarrow> ('k, 'v) dict" where
  "merge_dicts a b = foldl (\<lambda>d (k, v). AList.update k v d) a b"

definition decision_inputs :: "InputAgePolicy \<Rightarrow> DecisionInputs" where
  "decision_inputs policy =
     \<lparr>di_max_age = max_age policy, horizon_age = merge_dicts (lowering policy) (max_age policy),
      di_entries = startup policy\<rparr>"

definition establish :: "string \<Rightarrow> instant \<Rightarrow> instant option \<Rightarrow> DecisionInputs \<Rightarrow> DecisionInputs" where
  "establish name fetched stated di =
     (let entry = \<lparr>fetched_at = fetched, stated_at = stated\<rparr> in
      case map_of (di_entries di) name of
        None \<Rightarrow> di\<lparr>di_entries := AList.update name entry (di_entries di)\<rparr>
      | Some held \<Rightarrow>
          if as_of entry < as_of held then di\<lparr>di_entries := AList.update name entry (di_entries di)\<rparr> else di)"

text \<open>The establishments a read makes through \<open>establish_in_current_decision\<close>.\<close>

type_synonym nested = "(string \<times> instant \<times> instant option) list"

definition establish_all :: "nested \<Rightarrow> DecisionInputs \<Rightarrow> DecisionInputs" where
  "establish_all xs di = foldl (\<lambda>d (name, fetched, stated). establish name fetched stated d) di xs"

definition timed ::
  "('a \<Rightarrow> (exn + 'b) \<times> nested) \<Rightarrow> string list \<Rightarrow> 'a \<Rightarrow> instant \<Rightarrow> DecisionInputs \<Rightarrow> (exn + 'b) \<times> DecisionInputs" where
  "timed read names arg fetched di =
     (case read arg of
        (Inl e, inner) \<Rightarrow> (Inl e, establish_all inner di)
      | (Inr r, inner) \<Rightarrow>
          (Inr r, establish_all (map (\<lambda>n. (n, fetched, None)) names) (establish_all inner di)))"

definition horizon :: "DecisionInputs \<Rightarrow> instant option" where
  "horizon di =
     (let ends = concat (map (\<lambda>(name, entry).
            case map_of (horizon_age di) name of None \<Rightarrow> [] | Some age \<Rightarrow> [end_of (as_of entry) age])
            (di_entries di))
      in if ends = [] then None else Some (Min (set ends)))"

definition stale_inputs :: "DecisionInputs \<Rightarrow> instant \<Rightarrow> StaleInput list" where
  "stale_inputs di now =
     concat (map (\<lambda>(name, entry).
       case map_of (di_max_age di) name of
         None \<Rightarrow> []
       | Some age \<Rightarrow>
           if now \<ge> end_of (as_of entry) age
           then [\<lparr>si_name = name, si_as_of = as_of entry, si_max_age = age\<rparr>] else [])
       (sort_key fst (di_entries di)))"

fun joined_with :: "string \<Rightarrow> string list \<Rightarrow> string" where
  "joined_with sep [] = []"
| "joined_with sep [x] = x"
| "joined_with sep (x # xs) = x @ sep @ joined_with sep xs"

definition gate ::
  "('c \<Rightarrow> 'f \<Rightarrow> Decision) \<Rightarrow> DecisionInputs \<Rightarrow> exn + instant \<Rightarrow> 'c \<Rightarrow> 'f \<Rightarrow> Decision" where
  "gate dec di clock_reading call facts =
     (case clock_reading of
        Inl e \<Rightarrow> Deny (INPUT_AGE_CHECK_FAILED_REASON @ '': '' @ exn_class e)
      | Inr now \<Rightarrow>
          if stale_inputs di now \<noteq> []
          then Deny (INPUT_PAST_MAX_AGE_REASON @ '': '' @ joined_with ''; '' (map describe (stale_inputs di now)))
          else dec call facts)"

definition audit_inputs :: "DecisionInputs \<Rightarrow> (string \<times> string) list" where
  "audit_inputs di = map (\<lambda>(name, entry). (name, isoformat_utc (as_of entry))) (sort_key fst (di_entries di))"

definition audit_horizon :: "DecisionInputs \<Rightarrow> string option" where
  "audit_horizon di = map_option isoformat_utc (horizon di)"

section \<open>Lemmas\<close>

lemma as_of_le_fetched: "as_of e \<le> fetched_at e"
  by (simp add: as_of_def split: option.split)

lemma map_of_merge: "distinct (map fst b) \<Longrightarrow> map_of (merge_dicts a b) k = (case map_of b k of None \<Rightarrow> map_of a k | Some v \<Rightarrow> Some v)"
proof (induction b arbitrary: a)
  case Nil
  then show ?case by (simp add: merge_dicts_def)
next
  case (Cons x b)
  obtain k' v where x: "x = (k', v)" by fastforce
  have "merge_dicts a (x # b) = merge_dicts (AList.update k' v a) b" by (simp add: merge_dicts_def x)
  moreover have "map_of b k' = None" using Cons.prems x by (simp add: map_of_eq_None_iff)
  ultimately show ?case using Cons.IH [of "AList.update k' v a"] Cons.prems x
    by (cases "k = k'") (simp_all cong: option.case_cong)
qed

text \<open>An input that is established again keeps the earlier of the two instants; every other entry is
  unchanged.\<close>

lemma establish_as_of:
  "map_option as_of (map_of (di_entries (establish name f s di)) k) =
     (if k = name then
        Some (case map_of (di_entries di) name of
                None \<Rightarrow> as_of \<lparr>fetched_at = f, stated_at = s\<rparr>
              | Some held \<Rightarrow> min (as_of \<lparr>fetched_at = f, stated_at = s\<rparr>) (as_of held))
      else map_option as_of (map_of (di_entries di) k))"
  by (auto simp: establish_def Let_def min_def split: option.splits)

lemma establish_ages [simp]:
  "di_max_age (establish n f s di) = di_max_age di" "horizon_age (establish n f s di) = horizon_age di"
  by (simp_all add: establish_def Let_def split: option.splits)

lemma establish_all_ages [simp]:
  "di_max_age (establish_all xs di) = di_max_age di" "horizon_age (establish_all xs di) = horizon_age di"
  by (induction xs arbitrary: di) (auto simp: establish_all_def)

lemma establish_distinct:
  "distinct (map fst (di_entries di)) \<Longrightarrow> distinct (map fst (di_entries (establish n f s di)))"
  by (simp add: establish_def Let_def distinct_update split: option.split)

lemma establish_all_distinct:
  "distinct (map fst (di_entries di)) \<Longrightarrow> distinct (map fst (di_entries (establish_all xs di)))"
  by (induction xs arbitrary: di) (auto simp: establish_all_def establish_distinct)

lemma stale_iff:
  assumes "distinct (map fst (di_entries di))"
  shows "stale_inputs di now \<noteq> [] \<longleftrightarrow>
    (\<exists>name entry age. map_of (di_entries di) name = Some entry \<and> map_of (di_max_age di) name = Some age
       \<and> end_of (as_of entry) age \<le> now)"
  using assms by (fastforce simp: stale_inputs_def split: option.splits if_splits)

lemma some_Min_le:
  "(\<exists>h. (if xs = [] then None else Some (Min (set xs))) = Some h \<and> h \<le> now) \<longleftrightarrow> (\<exists>e \<in> set xs. e \<le> now)"
  by (cases "xs = []") (simp_all add: Min_le_iff)

lemma horizon_le:
  assumes "distinct (map fst (di_entries di))"
  shows "(\<exists>h. horizon di = Some h \<and> h \<le> now) \<longleftrightarrow>
    (\<exists>name entry age. map_of (di_entries di) name = Some entry \<and> map_of (horizon_age di) name = Some age
       \<and> end_of (as_of entry) age \<le> now)"
proof -
  let ?ends = "concat (map (\<lambda>(name, entry).
            case map_of (horizon_age di) name of None \<Rightarrow> [] | Some age \<Rightarrow> [end_of (as_of entry) age])
            (di_entries di))"
  have "(\<exists>h. horizon di = Some h \<and> h \<le> now) \<longleftrightarrow> (\<exists>e \<in> set ?ends. e \<le> now)"
    unfolding horizon_def Let_def by (rule some_Min_le)
  also have "\<dots> \<longleftrightarrow> (\<exists>name entry age. map_of (di_entries di) name = Some entry
      \<and> map_of (horizon_age di) name = Some age \<and> end_of (as_of entry) age \<le> now)"
    unfolding map_of_eq_Some_iff [OF assms] by (force split: option.splits)
  finally show ?thesis .
qed

section \<open>Results\<close>

text \<open>An input is never used past its age, and the recorded horizon says so in advance. Before the
  horizon no input is stale; at or after an instant where one is stale the horizon has passed and the
  gate denies without consulting the decider; with no lowering ages declared the two coincide. A failing
  clock denies too.\<close>

lemma horizon_bounds_the_gate:
  assumes "distinct (map fst (startup p))" and "distinct (map fst (max_age p))"
    and "di = establish_all xs (decision_inputs p)"
  shows "(stale_inputs di now \<noteq> [] \<longrightarrow> (\<exists>h. horizon di = Some h \<and> h \<le> now))
    \<and> (lowering p = [] \<longrightarrow> (stale_inputs di now \<noteq> [] \<longleftrightarrow> (\<exists>h. horizon di = Some h \<and> h \<le> now)))
    \<and> (gate dec di (Inr now) c f = dec c f \<or> (\<exists>r. gate dec di (Inr now) c f = Deny r))
    \<and> (stale_inputs di now \<noteq> [] \<longrightarrow> (\<exists>r. gate dec di (Inr now) c f = Deny r))
    \<and> (\<exists>r. gate dec di (Inl e) c f = Deny r)"
proof -
  have d: "distinct (map fst (di_entries di))"
    unfolding assms(3) by (rule establish_all_distinct) (simp add: decision_inputs_def assms(1))
  have a: "di_max_age di = max_age p" "horizon_age di = merge_dicts (lowering p) (max_age p)"
    by (simp_all add: assms(3) decision_inputs_def)
  have m: "map_of (max_age p) k = Some age \<Longrightarrow> map_of (horizon_age di) k = Some age" for k age
    by (simp add: a map_of_merge [OF assms(2)])
  have l: "lowering p = [] \<Longrightarrow> map_of (horizon_age di) k = map_of (max_age p) k" for k
    by (simp add: a map_of_merge [OF assms(2)] split: option.split)
  have st: "\<exists>h. horizon di = Some h \<and> h \<le> now" if "stale_inputs di now \<noteq> []"
    using that m unfolding stale_iff [OF d] horizon_le [OF d] a(1) by blast
  have eq: "stale_inputs di now \<noteq> [] \<longleftrightarrow> (\<exists>h. horizon di = Some h \<and> h \<le> now)" if "lowering p = []"
    unfolding stale_iff [OF d] horizon_le [OF d] a(1) l [OF that] by (rule refl)
  from st eq show ?thesis by (auto simp: gate_def)
qed

definition sample_age_policy :: InputAgePolicy where
  "sample_age_policy =
     \<lparr>startup = [(''manifest'', \<lparr>fetched_at = 0, stated_at = None\<rparr>)], max_age = [(''grant'', 3000000)], lowering = []\<rparr>"

lemma horizon_bounds_the_gate_witness:
  "let di = establish_all [(''grant'', 5000000, Some 4000000)] (decision_inputs sample_age_policy)
   in stale_inputs di 7000000 \<noteq> [] \<longleftrightarrow> (\<exists>h. horizon di = Some h \<and> h \<le> 7000000)"
proof -
  have "distinct (map fst (startup sample_age_policy))" "distinct (map fst (max_age sample_age_policy))"
    and low: "lowering sample_age_policy = []" by (simp_all add: sample_age_policy_def)
  from horizon_bounds_the_gate [OF this(1,2) refl, of "[(''grant'', 5000000, Some 4000000)]" 7000000
      "\<lambda>_ _. Allow" "()" "()" "Exn ''Error'' ''clock''"] low
  show ?thesis unfolding Let_def by blast
qed

end
