(* ===== verification/Doer.thy ===== *)
theory Doer
  imports Schemas "HOL-Library.Sublist"
begin

text \<open>
  The capability-confined executor (\<open>broker/runtime/doer.py\<close>, \<open>broker/runtime/connector.py\<close>): the only part
  that reaches a connector and holds a credential. Connectors, secret names and credential strategies are
  the arguments of the record \<open>Doer\<close>; they may raise. \<open>str.replace\<close> is modelled, so that what redaction
  leaves in an error message is provable.

  A \<open>ConnectorExecutionError\<close> whose \<open>refused\<close> flag is set is the exception class
  \<open>ConnectorExecutionError[refused]\<close>.
\<close>

section \<open>Credentials and redaction\<close>

record AssumedRoleCredential =
  access_key_id :: string
  secret_access_key :: string
  session_token :: string
  cred_expiration :: "string option"

datatype Credential = StrCredential string | RoleCredential AssumedRoleCredential

definition REDACTION :: string where
  "REDACTION = ''***redacted-credential***''"

fun redaction_values :: "Credential \<Rightarrow> string list" where
  "redaction_values (RoleCredential c) = filter (\<lambda>v. v \<noteq> []) [secret_access_key c, session_token c]"
| "redaction_values (StrCredential s) = (if s \<noteq> [] then [s] else [])"

text \<open>\<open>str.replace\<close> for a non-empty pattern: leftmost occurrences first, never overlapping.\<close>

function py_replace :: "string \<Rightarrow> string \<Rightarrow> string \<Rightarrow> string" where
  "py_replace old new s =
     (if s = [] \<or> old = [] then s
      else if startswith s old then new @ py_replace old new (drop (length old) s)
      else hd s # py_replace old new (tl s))"
  by auto
termination
  by (relation "measure (\<lambda>(old, new, s). length s)") auto

declare py_replace.simps [simp del]

definition contains :: "string \<Rightarrow> string \<Rightarrow> bool" where
  "contains msg part = sublist part msg"

definition redact :: "string \<Rightarrow> Credential \<Rightarrow> string" where
  "redact msg credential =
     foldl (\<lambda>t secret. if contains t secret then py_replace secret REDACTION t else t) msg
       (redaction_values credential)"

section \<open>Execution\<close>

text \<open>A connector's exception and whether it is a \<open>ConnectorRefusedError\<close>.\<close>

record connector =
  uses_credential :: bool
  conn_execute :: "string \<Rightarrow> string \<Rightarrow> json \<Rightarrow> Credential \<Rightarrow> (exn \<times> bool) + json"

text \<open>\<open>resolve\<close> is the tool's credential strategy applied to a secret leaf; with an exception it says whether the
  strategy authored the message (\<open>CredentialStrategyError\<close>).\<close>

record Doer =
  connectors :: "(string, connector) dict"
  secret_name_for :: "string \<Rightarrow> string"
  resolve :: "string \<Rightarrow> string \<Rightarrow> (exn \<times> bool) + Credential"
  strategy_name :: "string \<Rightarrow> string"

record DoerResult =
  dr_tool :: string
  dr_op :: string
  dr_result :: json

abbreviation ConfinementError :: "string \<Rightarrow> exn" where
  "ConfinementError m \<equiv> Exn ''ConfinementError'' m"

definition ConnectorExecutionError :: "string \<Rightarrow> bool \<Rightarrow> exn" where
  "ConnectorExecutionError m refused =
     Exn (if refused then ''ConnectorExecutionError[refused]'' else ''ConnectorExecutionError'') m"

abbreviation CredentialResolutionError :: "string \<Rightarrow> exn" where
  "CredentialResolutionError m \<equiv> Exn ''CredentialResolutionError'' m"

definition credential_failure_message :: "string \<Rightarrow> string \<Rightarrow> string \<Rightarrow> string \<Rightarrow> exn \<Rightarrow> bool \<Rightarrow> string" where
  "credential_failure_message tool op secret_leaf strategy e authored =
     ''connector '' @ py_repr tool @ '' op '' @ py_repr op @ '' failed: credential could not be resolved (strategy ''
     @ strategy @ '', secret leaf '' @ py_repr secret_leaf @ ''): ''
     @ exn_class e @ (if authored then '': '' @ exn_str e else [])"

definition resolve_credential :: "Doer \<Rightarrow> connector \<Rightarrow> string \<Rightarrow> string \<Rightarrow> exn + Credential" where
  "resolve_credential D c tool op =
     (if uses_credential c then
        (case resolve D tool (secret_name_for D tool) of
           Inl (e, authored) \<Rightarrow>
             Inl (CredentialResolutionError
               (credential_failure_message tool op (secret_name_for D tool) (strategy_name D tool) e authored))
         | Inr cred \<Rightarrow> Inr cred)
      else Inr (StrCredential []))"

fun effective_op :: "BrokeredCall \<Rightarrow> Decision \<Rightarrow> string" where
  "effective_op call (Transform op args) = op"
| "effective_op call d = bc_op call"

fun effective_args :: "BrokeredCall \<Rightarrow> Decision \<Rightarrow> json" where
  "effective_args call (Transform op args) = args"
| "effective_args call d = bc_args call"

definition failure_message :: "string \<Rightarrow> string \<Rightarrow> exn \<Rightarrow> bool \<Rightarrow> Credential \<Rightarrow> string" where
  "failure_message tool op e refused cred =
     ''connector '' @ py_repr tool @ '' op '' @ py_repr op @ '' '' @ (if refused then ''refused'' else ''failed'')
     @ '': '' @ redact (exn_str e) cred"

definition execute :: "Doer \<Rightarrow> BrokeredCall \<Rightarrow> Decision \<Rightarrow> exn + DoerResult" where
  "execute D call decision =
     (if \<not> executes decision then Inl (ConfinementError ''doer.execute called with non-permitted decision'')
      else
        (case map_of (connectors D) (bc_tool call) of
           None \<Rightarrow> Inl (ValueError ''no connector registered for tool'')
         | Some c \<Rightarrow>
             bind_r (resolve_credential D c (bc_tool call) (effective_op call decision)) (\<lambda>cred.
               case conn_execute c (bc_tool call) (effective_op call decision) (effective_args call decision) cred of
                 Inl (e, refused) \<Rightarrow>
                   Inl (ConnectorExecutionError
                     (failure_message (bc_tool call) (effective_op call decision) e refused cred) refused)
               | Inr res \<Rightarrow>
                   Inr \<lparr>dr_tool = bc_tool call, dr_op = effective_op call decision, dr_result = res\<rparr>)))"

section \<open>What redaction leaves\<close>

abbreviation STAR :: char where "STAR \<equiv> CHR ''*''"

definition marker_text :: string where
  "marker_text = ''redacted-credential''"

lemma REDACTION_eq: "REDACTION = STAR # STAR # STAR # marker_text @ [STAR, STAR, STAR]"
  by (simp add: REDACTION_def marker_text_def)

text \<open>A text without the separator cannot straddle it.\<close>

lemma sublist_star:
  assumes "STAR \<notin> set q" and "sublist q (a @ STAR # b)"
  shows "sublist q a \<or> sublist q b"
proof -
  from assms(2) obtain x y where xy: "a @ STAR # b = x @ q @ y" by (auto simp: sublist_def)
  then consider z where "a = x @ z" "z @ STAR # b = q @ y" | z where "x = a @ z" "STAR # b = z @ q @ y"
    by (auto simp: append_eq_append_conv2)
  then show ?thesis
  proof cases
    case 1
    from 1(2) obtain w where "z = q @ w \<or> q = z @ w \<and> STAR # b = w @ y"
      by (auto simp: append_eq_append_conv2)
    then show ?thesis
    proof
      assume "z = q @ w"
      with 1(1) show ?thesis by (auto simp: sublist_def)
    next
      assume w: "q = z @ w \<and> STAR # b = w @ y"
      show ?thesis
      proof (cases w)
        case Nil
        with w 1(1) have "a = x @ q @ []" by simp
        then show ?thesis unfolding sublist_def by blast
      next
        case (Cons c w')
        with w assms(1) show ?thesis by auto
      qed
    qed
  next
    case 2
    show ?thesis
    proof (cases z)
      case Nil
      with 2(2) assms(1) show ?thesis by (cases q) auto
    next
      case (Cons c z')
      with 2(2) have "b = z' @ q @ y" by simp
      then show ?thesis unfolding sublist_def by blast
    qed
  qed
qed

lemma sublist_marker:
  assumes "STAR \<notin> set q" and "q \<noteq> []" and "sublist q (REDACTION @ r)"
  shows "sublist q marker_text \<or> sublist q r"
proof -
  have e: "\<not> sublist q []" using assms(2) by simp
  have "REDACTION @ r = [] @ STAR # STAR # STAR # marker_text @ STAR # STAR # STAR # r"
    by (simp add: REDACTION_eq)
  with assms(3) sublist_star [OF assms(1), of "[]"] e
  have "sublist q (STAR # STAR # marker_text @ STAR # STAR # STAR # r)" by metis
  with sublist_star [OF assms(1), of "[]" "STAR # marker_text @ STAR # STAR # STAR # r"] e
  have "sublist q (STAR # marker_text @ STAR # STAR # STAR # r)" by simp
  with sublist_star [OF assms(1), of "[]" "marker_text @ STAR # STAR # STAR # r"] e
  have "sublist q (marker_text @ STAR # STAR # STAR # r)" by simp
  from sublist_star [OF assms(1) this]
  have "sublist q marker_text \<or> sublist q (STAR # STAR # r)" .
  with sublist_star [OF assms(1), of "[]" "STAR # r"] sublist_star [OF assms(1), of "[]" r] e
  show ?thesis by auto
qed

text \<open>Up to the first marker the replaced text is the text.\<close>

lemma prefix_py_replace:
  "STAR \<notin> set q \<Longrightarrow> prefix q (py_replace old REDACTION s) \<Longrightarrow> prefix q s"
proof (induction old REDACTION s arbitrary: q rule: py_replace.induct)
  case (1 old s)
  show ?case
  proof (cases "s = [] \<or> old = []")
    case True
    with "1.prems" show ?thesis by (simp add: py_replace.simps [of old])
  next
    case False
    show ?thesis
    proof (cases "startswith s old")
      case True
      with False "1.prems"(2) have "prefix q (REDACTION @ py_replace old REDACTION (drop (length old) s))"
        by (simp add: py_replace.simps [of old _ s])
      with "1.prems"(1) show ?thesis by (cases q) (auto simp: REDACTION_eq)
    next
      case no: False
      with False "1.prems"(2) have p: "prefix q (hd s # py_replace old REDACTION (tl s))"
        by (simp add: py_replace.simps [of old _ s])
      show ?thesis
      proof (cases q)
        case (Cons c q')
        with p have "prefix q' (py_replace old REDACTION (tl s))" "c = hd s" by auto
        with "1.hyps"(2) [OF False no, of q'] "1.prems"(1) Cons False show ?thesis
          by (cases s) auto
      qed simp
    qed
  qed
qed

lemma sublist_Cons_cases: "sublist q (c # s) \<Longrightarrow> prefix q (c # s) \<or> sublist q s"
  by (simp add: sublist_Cons_right)

text \<open>Replacing adds no occurrence of another secret, and leaves none of the replaced one.\<close>

lemma sublist_py_replace:
  assumes "STAR \<notin> set q" and "q \<noteq> []" and "\<not> sublist q marker_text"
  shows "sublist q (py_replace old REDACTION s) \<Longrightarrow> sublist q s \<and> old \<noteq> q"
proof (induction old REDACTION s rule: py_replace.induct)
  case (1 old s)
  show ?case
  proof (cases "s = []")
    case True
    with "1.prems" assms(2) show ?thesis by (simp add: py_replace.simps [of old])
  next
    case ne: False
    show ?thesis
    proof (cases "old = []")
      case True
      with "1.prems" assms(2) show ?thesis by (simp add: py_replace.simps [of "[]"])
    next
      case False
      with ne have c: "\<not> (s = [] \<or> old = [])" by simp
      show ?thesis
      proof (cases "startswith s old")
        case True
        with c "1.prems" have "sublist q (REDACTION @ py_replace old REDACTION (drop (length old) s))"
          by (simp add: py_replace.simps [of old _ s])
        with sublist_marker [OF assms(1,2)] assms(3)
        have "sublist q (py_replace old REDACTION (drop (length old) s))" by blast
        from "1.hyps"(1) [OF c True this] have "sublist q (drop (length old) s)" "old \<noteq> q" by blast+
        then show ?thesis by (metis sublist_order.order.trans sublist_drop)
      next
        case no: False
        with c "1.prems" have "sublist q (hd s # py_replace old REDACTION (tl s))"
          by (simp add: py_replace.simps [of old _ s])
        from sublist_Cons_cases [OF this] show ?thesis
        proof
          assume p: "prefix q (hd s # py_replace old REDACTION (tl s))"
          then have "prefix q (py_replace old REDACTION s)"
            using c no by (simp add: py_replace.simps [of old _ s])
          from prefix_py_replace [OF assms(1) this] have "prefix q s" .
          moreover from this no have "old \<noteq> q" by (auto simp: startswith_def prefix_def)
          ultimately show ?thesis by (auto simp: prefix_imp_sublist)
        next
          assume "sublist q (py_replace old REDACTION (tl s))"
          from "1.hyps"(2) [OF c no this] have "sublist q (tl s)" "old \<noteq> q" by blast+
          then show ?thesis by (metis sublist_order.order.trans sublist_tl)
        qed
      qed
    qed
  qed
qed

lemma redact_fold:
  assumes "STAR \<notin> set q" and "q \<noteq> []" and "\<not> sublist q marker_text"
  shows "sublist q (foldl (\<lambda>t secret. if contains t secret then py_replace secret REDACTION t else t) msg vs)
    \<Longrightarrow> sublist q msg \<and> q \<notin> set vs"
proof (induction vs arbitrary: msg)
  case Nil
  then show ?case by simp
next
  case (Cons v vs)
  let ?t = "if contains msg v then py_replace v REDACTION msg else msg"
  from Cons have "sublist q ?t" "q \<notin> set vs" by simp_all
  with sublist_py_replace [OF assms, of v msg] show ?case
    by (auto simp: contains_def split: if_splits)
qed

section \<open>Results\<close>

text \<open>No credential leaves the Doer in an error. Whatever text a failing connector put into its exception,
  the redacted text contains no sensitive part of the credential it was given, for every secret that
  does not hold an asterisk and is not itself a piece of the words \<open>redacted-credential\<close>.\<close>

lemma credential_redacted:
  assumes "secret \<in> set (redaction_values cred)"
    and "CHR ''*'' \<notin> set secret" and "\<not> sublist secret ''redacted-credential''"
  shows "\<not> contains (redact msg cred) secret"
proof
  assume "contains (redact msg cred) secret"
  moreover have "secret \<noteq> []" using assms(1) by (cases cred) (auto split: if_splits)
  ultimately show False
    using redact_fold [OF assms(2) _ assms(3) [folded marker_text_def], of msg "redaction_values cred"] assms(1)
    by (auto simp: redact_def contains_def)
qed

lemma credential_redacted_witness:
  "\<not> contains (redact ''401 for s3cr3t (s3cr3t)'' (StrCredential ''s3cr3t'')) ''s3cr3t''"
  by (rule credential_redacted) (simp_all add: sublist_code)

end
