(* ===== verification/Tool_Table.thy ===== *)
theory Tool_Table
  imports Schemas Approval_Store
begin

text \<open>
  The per-agent table of tool operations (\<open>broker/manifest/__init__.py\<close>, class \<open>ToolOpTable\<close>): construction,
  lookup, the served view and the entries that cause a context. The table is the list of its entries; its
  index is the rendering \<open>tool.op\<close>.
\<close>

type_synonym ToolOpTable = "ToolOp list"

definition op_key :: "string \<Rightarrow> string \<Rightarrow> string" where
  "op_key tool op = tool @ ''.'' @ op"

abbreviation entry_key :: "ToolOp \<Rightarrow> string" where
  "entry_key mop \<equiv> op_key (op_tool mop) (op_op mop)"

fun index_entries :: "ToolOp list \<Rightarrow> (string, ToolOp) dict \<Rightarrow> exn + (string, ToolOp) dict" where
  "index_entries [] index = Inr index"
| "index_entries (mop # entries) index =
     (if map_of index (entry_key mop) \<noteq> None
      then Inl (ValueError ''ToolOpTable declares an entry more than once'')
      else index_entries entries (AList.update (entry_key mop) mop index))"

definition mk_table :: "ToolOp list \<Rightarrow> exn + ToolOpTable" where
  "mk_table entries = bind_r (index_entries entries []) (\<lambda>_. Inr entries)"

definition table_entry :: "ToolOpTable \<Rightarrow> string \<Rightarrow> string \<Rightarrow> ToolOp option" where
  "table_entry table tool op = find (\<lambda>mop. entry_key mop = op_key tool op) table"

text \<open>\<open>granted_classes\<close> are the action classes of the principal's active grants.\<close>

definition served :: "ToolOpTable \<Rightarrow> string list \<Rightarrow> ToolOp list" where
  "served table granted_classes =
     filter (\<lambda>mop. op_tool mop \<noteq> HARNESS_TOOL \<and> entry_key mop \<in> set granted_classes) table"

definition cause_entries :: "ToolOpTable \<Rightarrow> ToolOp list" where
  "cause_entries table = filter (\<lambda>mop. causes_context mop \<noteq> None) table"

section \<open>Lemmas\<close>

lemma index_entries_ok:
  "index_entries entries index = Inr res \<Longrightarrow>
     distinct (map entry_key entries) \<and> (\<forall>mop \<in> set entries. map_of index (entry_key mop) = None)
     \<and> (\<forall>k. map_of res k = (case find (\<lambda>mop. entry_key mop = k) entries of
                              Some mop \<Rightarrow> Some mop | None \<Rightarrow> map_of index k))"
proof (induction entries arbitrary: index)
  case (Cons mop entries)
  then have new: "map_of index (entry_key mop) = None"
    and "index_entries entries (AList.update (entry_key mop) mop index) = Inr res"
    by (auto split: if_splits)
  note ih = Cons.IH [OF this(2)]
  from ih have old: "\<forall>m \<in> set entries. entry_key m \<noteq> entry_key mop \<and> map_of index (entry_key m) = None"
    by (auto simp: update_conv' split: if_splits)
  then have "find (\<lambda>m. entry_key m = entry_key mop) entries = None"
    by (auto simp: find_None_iff)
  with ih old new show ?case
    by (auto simp: update_conv' split: option.splits)
qed simp

lemma index_entries_total:
  "distinct (map entry_key entries) \<Longrightarrow> \<forall>mop \<in> set entries. map_of index (entry_key mop) = None \<Longrightarrow>
     \<exists>res. index_entries entries index = Inr res"
proof (induction entries arbitrary: index)
  case (Cons mop entries)
  from Cons.prems(1) have "entry_key mop \<notin> entry_key ` set entries" by simp
  then have "\<forall>m \<in> set entries. entry_key m \<noteq> entry_key mop" by (auto simp: image_iff dest: sym)
  with Cons.prems(2) have "\<forall>m \<in> set entries. map_of (AList.update (entry_key mop) mop index) (entry_key m) = None"
    by (simp add: update_conv')
  with Cons.IH [OF _ this] Cons.prems show ?case by simp
qed simp

text \<open>The index the constructor builds and the search of \<^const>\<open>table_entry\<close> agree.\<close>

lemma table_entry_is_index:
  assumes "index_entries entries [] = Inr index"
  shows "table_entry entries tool op = map_of index (op_key tool op)"
  using index_entries_ok [OF assms] by (simp add: table_entry_def split: option.split)

lemma mk_table_Inr_iff: "mk_table entries = Inr t \<longleftrightarrow> distinct (map entry_key entries) \<and> t = entries"
  using index_entries_ok [of entries "[]"] index_entries_total [of entries "[]"]
  by (auto simp: mk_table_def bind_r_Inr_iff)

lemma table_entry_key:
  "table_entry table tool op = Some mop \<Longrightarrow> mop \<in> set table \<and> entry_key mop = op_key tool op"
  unfolding table_entry_def by (auto simp: find_Some_iff)

text \<open>The entry found is the declared operation when neither tool name holds a dot.\<close>

lemma op_key_inject:
  assumes "CHR ''.'' \<notin> set tool" and "CHR ''.'' \<notin> set tool'"
  shows "op_key tool op = op_key tool' op' \<longleftrightarrow> tool = tool' \<and> op = op'"
  using assms by (auto simp: op_key_def append_eq_append_conv2 append_eq_Cons_conv Cons_eq_append_conv)

lemma table_entry_exact:
  assumes "table_entry table tool op = Some mop" and "CHR ''.'' \<notin> set tool"
    and "\<forall>m \<in> set table. CHR ''.'' \<notin> set (op_tool m)"
  shows "op_tool mop = tool \<and> op_op mop = op"
  using table_entry_key [OF assms(1)] assms(2,3) op_key_inject by blast

text \<open>With a dot in a tool name the entry of another tool classifies the call.\<close>

lemma dotted_name_resolves_other_entry:
  "mk_table [sample_note\<lparr>op_tool := ''notes.v2''\<rparr>] = Inr [sample_note\<lparr>op_tool := ''notes.v2''\<rparr>]
   \<and> table_entry [sample_note\<lparr>op_tool := ''notes.v2''\<rparr>] ''notes'' ''v2.append''
       = Some (sample_note\<lparr>op_tool := ''notes.v2''\<rparr>)"
  by code_simp

end
