(* ===== verification/Pep_State.thy ===== *)
theory Pep_State
  imports Enforcement_Run Inheritance Approval_Alarm Audit_Chain Input_Age Doer Tool_Table
begin

text \<open>
  The state of one broker process (class \<open>BrokerRuntime\<close> of \<open>broker/runtime/pep.py\<close>) and the primitive actions
  its request pipeline is composed of. A world is the enforcement store beside the rest of the process
  state: the intent store, the inheritance ledger, the tape, the session turn, the last stamped instant,
  the inputs of the decision in progress, the approval alarm and the tampered rows a sweep already reported. Readings of the clocks, minted
  identifiers, reads of the policy information point and connector calls happen at successive ticks; what
  each returns is a function of its tick, so every behaviour of the surroundings is an instance.

  An action is a function of the world with a result or an exception; an exception keeps the state changes
  made before it.
\<close>

section \<open>Actions\<close>

type_synonym ('w, 'a) act = "'w \<Rightarrow> (exn + 'a) \<times> 'w"

definition ret_w :: "'a \<Rightarrow> ('w, 'a) act" where
  "ret_w x w = (Inr x, w)"

definition raise_w :: "exn \<Rightarrow> ('w, 'a) act" where
  "raise_w e w = (Inl e, w)"

definition lift_w :: "exn + 'a \<Rightarrow> ('w, 'a) act" where
  "lift_w r w = (r, w)"

definition bind_w :: "('w, 'a) act \<Rightarrow> ('a \<Rightarrow> ('w, 'b) act) \<Rightarrow> ('w, 'b) act" where
  "bind_w m f w = (case m w of (Inl e, w1) \<Rightarrow> (Inl e, w1) | (Inr x, w1) \<Rightarrow> f x w1)"

definition catch_w :: "('w, 'a) act \<Rightarrow> (exn \<Rightarrow> ('w, 'b) act) \<Rightarrow> ('a \<Rightarrow> ('w, 'b) act) \<Rightarrow> ('w, 'b) act" where
  "catch_w m handle f w = (case m w of (Inl e, w1) \<Rightarrow> handle e w1 | (Inr x, w1) \<Rightarrow> f x w1)"

definition when_w :: "bool \<Rightarrow> ('w, unit) act \<Rightarrow> ('w, unit) act" where
  "when_w b m = (if b then m else ret_w ())"

section \<open>The state of a process\<close>

record DemotionSignal =
  ds_trigger :: DemotionTrigger
  ds_principal :: Principal
  ds_action_class :: string
  ds_period :: string
  ds_detail :: string
  ds_ts :: string

text \<open>One run of the executor's \<open>try\<close> block and how it ended.\<close>

record attempt =
  at_call :: BrokeredCall
  at_decision :: Decision
  at_outcome :: "exn + DoerResult"

record ('i, 'h, 'k) side =
  s_intents :: 'i
  s_inherit :: 'h
  s_tape :: 'k
  s_turn :: "TurnContext option"
  s_last_ts :: "instant option"
  s_inputs :: DecisionInputs
  s_alarm :: ApprovalQueueAlarm
  s_ticks :: nat
  s_attempts :: "attempt list"
  s_deliveries :: "ApprovalAlarmEvent list"
  s_signals :: "DemotionSignal list"
  s_swept :: "string list"

type_synonym ('e, 'i, 'h, 'k) world = "'e \<times> ('i, 'h, 'k) side"

text \<open>The two envelope knobs the pipeline reads.\<close>

record ApprovalQueue =
  aq_dedup :: bool
  max_pending_per_op_day :: "int option"

record Confidence =
  error_budget_tolerance :: "rat option"
  knob_weights :: "(BlastClass \<times> rat) list"
  knob_high_blast :: "string list"

text \<open>What a process is constructed with. \<open>rt_validate\<close> is the schema validation of a raw confidence
  artifact, \<open>rt_call_json\<close> the JSON form of a call, \<open>rt_env\<close> the serialization of \<open>enforce\<close> and its clock,
  \<open>rt_admission\<close> the inputs a connector establishes while it runs.\<close>

record ('e, 'i, 'h, 'k, 'g) BrokerRuntime =
  rt_principal :: Principal
  rt_optable :: ToolOpTable
  rt_doer :: "nat \<Rightarrow> Doer"
  rt_admission :: "nat \<Rightarrow> nested"
  rt_pip :: "'e \<Rightarrow> nat \<Rightarrow> BrokeredCall \<Rightarrow> (exn + Facts) \<times> nested"
  rt_store :: "'e EnforcementStore"
  rt_intent_store :: "'i IntentStore"
  rt_sink :: "'k AuditSink"
  rt_inheritance :: "'h InheritanceStore option"
  rt_sub_grants :: "('g SubGrantStore \<times> 'g) option"
  rt_trust_map :: InputTrustMap
  rt_envelope_hash :: string
  rt_counter_cap :: rat
  rt_trusted_read_sources :: "string list"
  rt_approval_queue :: "ApprovalQueue option"
  rt_confidence_knob :: "Confidence option"
  rt_counter_period :: string
  rt_clock_skew :: timedelta
  rt_input_ages :: InputAgePolicy
  rt_clock :: "nat \<Rightarrow> exn + instant"
  rt_wall :: "nat \<Rightarrow> instant"
  rt_uuid :: "nat \<Rightarrow> string"
  rt_hash :: hash_env
  rt_env :: "nat \<Rightarrow> enf_env"
  rt_validate :: "json \<Rightarrow> ConfidenceArtifact option"
  rt_call_json :: "BrokeredCall \<Rightarrow> json"

section \<open>The enforcement store inside a world\<close>

definition lift_store :: "'e EnforcementStore \<Rightarrow> ('e \<times> 'r) EnforcementStore" where
  "lift_store S =
     \<lparr>get_idempotency = (\<lambda>w. get_idempotency S (fst w)),
      put_idempotency_if_absent = (\<lambda>r w. apsnd (\<lambda>e. (e, snd w)) (put_idempotency_if_absent S r (fst w))),
      complete_idempotency = (\<lambda>k d res w. apsnd (\<lambda>e. (e, snd w)) (complete_idempotency S k d res (fst w))),
      fail_idempotency = (\<lambda>k m w. apsnd (\<lambda>e. (e, snd w)) (fail_idempotency S k m (fst w))),
      delete_idempotency = (\<lambda>k w. (delete_idempotency S k (fst w), snd w)),
      try_increment_counter = (\<lambda>k x c w. apsnd (\<lambda>e. (e, snd w)) (try_increment_counter S k x c (fst w))),
      read_counter = (\<lambda>w. read_counter S (fst w)),
      write_ledger = (\<lambda>l w. (write_ledger S l (fst w), snd w)),
      commit_ledger = (\<lambda>i t w. bind_r (commit_ledger S i t (fst w)) (\<lambda>e. Inr (e, snd w))),
      compensate_ledger = (\<lambda>i m w. bind_r (compensate_ledger S i m (fst w)) (\<lambda>e. Inr (e, snd w))),
      escalate_ledger = (\<lambda>i m w. bind_r (escalate_ledger S i m (fst w)) (\<lambda>e. Inr (e, snd w))),
      get_uncommitted_entries = (\<lambda>w. get_uncommitted_entries S (fst w))\<rparr>"

interpretation lifted: kept_by_store "lift_store S" "\<lambda>w. Q (snd w)" for S :: "'e EnforcementStore" and Q :: "'r \<Rightarrow> bool"
  by unfold_locales (auto simp: lift_store_def bind_r_Inr_iff)

end
