(* ===== verification/Pep.thy ===== *)
theory Pep
  imports Pep_State
begin

text \<open>
  The policy enforcement point (\<open>handle_request\<close> of \<open>broker/runtime/pep.py\<close>): one brokered call from the
  agent's request to the reply, in the order of the code. The turn is the broker's session turn; a run that
  drives an explicit turn context is not modelled, and the hooks of the decision mouth are those of theory \<open>Pep_Harness\<close>.
\<close>

section \<open>Requests and replies\<close>

datatype raw_confidence = TypedArtifact ConfidenceArtifact | RawArtifact json

record AgentRequest =
  ag_tool :: string
  ag_op :: string
  ag_args :: json
  ag_confidence :: "raw_confidence option"
  ag_idempotency_key :: "string option"

record BrokerResponse =
  br_decision_kind :: decision_kind
  br_reason :: "string option"
  br_intent_id :: "string option"
  br_result :: "json option"
  br_idempotent :: bool
  br_execution_outcome :: "string option"

definition response :: "decision_kind \<Rightarrow> string option \<Rightarrow> BrokerResponse" where
  "response k reason =
     \<lparr>br_decision_kind = k, br_reason = reason, br_intent_id = None, br_result = None,
      br_idempotent = False, br_execution_outcome = None\<rparr>"

definition kind_str :: "decision_kind \<Rightarrow> string" where
  "kind_str k =
     (case k of k_allow \<Rightarrow> ''allow'' | k_deny \<Rightarrow> ''deny'' | k_transform \<Rightarrow> ''transform''
      | k_require_approval \<Rightarrow> ''require_approval'' | k_abstain \<Rightarrow> ''abstain'')"

definition HARNESS_TOOL_REFUSAL_REASON :: string where
  "HARNESS_TOOL_REFUSAL_REASON =
     HARNESS_TOOL @ '' is decided only through the decision mouth; it is not a callable op''"

definition INTENT_ID_COLLISION_REASON :: string where
  "INTENT_ID_COLLISION_REASON = ''intent id already pending''"

definition DEFAULT_APPROVAL_EXPIRY_SECONDS :: int where "DEFAULT_APPROVAL_EXPIRY_SECONDS = 3600"
definition OBSERVATIONS_SUFFIX :: string where "OBSERVATIONS_SUFFIX = ''observations''"
definition ERROR_BUDGET_SUFFIX :: string where "ERROR_BUDGET_SUFFIX = ''error_budget''"
definition QUERY_BYTES_SUFFIX :: string where "QUERY_BYTES_SUFFIX = ''query_bytes''"
definition QUERY_BYTES_COUNTER_CAP :: rat where "QUERY_BYTES_COUNTER_CAP = 10 ^ 18"
definition ERROR_BUDGET_COUNTER_CAP :: rat where "ERROR_BUDGET_COUNTER_CAP = 10 ^ 18"

section \<open>Primitive actions\<close>

definition tick_w :: "(('e, 'i, 'h, 'k) world, nat) act" where
  "tick_w w = (Inr (s_ticks (snd w)), fst w, (snd w)\<lparr>s_ticks := Suc (s_ticks (snd w))\<rparr>)"

definition get_w :: "(('i, 'h, 'k) side \<Rightarrow> 'a) \<Rightarrow> (('e, 'i, 'h, 'k) world, 'a) act" where
  "get_w f w = (Inr (f (snd w)), w)"

definition put_w :: "(('i, 'h, 'k) side \<Rightarrow> ('i, 'h, 'k) side) \<Rightarrow> (('e, 'i, 'h, 'k) world, unit) act" where
  "put_w f w = (Inr (), fst w, f (snd w))"

definition wall_w :: "('e, 'i, 'h, 'k, 'g) BrokerRuntime \<Rightarrow> (('e, 'i, 'h, 'k) world, instant) act" where
  "wall_w R = bind_w tick_w (\<lambda>n. ret_w (rt_wall R n))"

definition clock_w :: "('e, 'i, 'h, 'k, 'g) BrokerRuntime \<Rightarrow> (('e, 'i, 'h, 'k) world, instant) act" where
  "clock_w R = bind_w tick_w (\<lambda>n. lift_w (rt_clock R n))"

definition emit_w :: "('e, 'i, 'h, 'k, 'g) BrokerRuntime \<Rightarrow> emission \<Rightarrow> (('e, 'i, 'h, 'k) world, unit) act" where
  "emit_w R em =
     bind_w (wall_w R) (\<lambda>now w.
       let (r, tape) = emit (rt_hash R) (rt_sink R) em now (s_tape (snd w))
       in (bind_r r (\<lambda>_. Inr ()), fst w, (snd w)\<lparr>s_tape := tape\<rparr>))"

text \<open>The keyword arguments every record of the pipeline has, and \<open>audit_fields\<close>.\<close>

definition emission_of ::
  "('e, 'i, 'h, 'k, 'g) BrokerRuntime \<Rightarrow> string \<Rightarrow> string \<Rightarrow> json \<Rightarrow> string \<Rightarrow> string \<Rightarrow> string option \<Rightarrow> emission" where
  "emission_of R tool op args dec outcome reason =
     \<lparr>em_principal = rt_principal R, em_tool = tool, em_op = op, em_args = args, em_decision = dec,
      em_outcome = outcome, em_envelope_hash = rt_envelope_hash R, em_reason = reason, em_approved_by = None,
      em_error = None, em_seed = None, em_intent_id = None, em_stored_call_digest = None,
      em_result_digest = None, em_actor_digest = None, em_evidence_bucket = None, em_expired_at = None,
      em_inputs_as_of = None, em_horizon = None\<rparr>"

definition with_audit_fields :: "DecisionInputs \<Rightarrow> emission \<Rightarrow> emission" where
  "with_audit_fields di em =
     em\<lparr>em_inputs_as_of := (if audit_inputs di = [] then None else Some (fmap_of_list (audit_inputs di))),
        em_horizon := audit_horizon di\<rparr>"

definition record_w ::
  "('e, 'i, 'h, 'k, 'g) BrokerRuntime \<Rightarrow> emission \<Rightarrow> (('e, 'i, 'h, 'k) world, unit) act" where
  "record_w R em = bind_w (get_w s_inputs) (\<lambda>di. emit_w R (with_audit_fields di em))"

definition hash_stored_call :: "('e, 'i, 'h, 'k, 'g) BrokerRuntime \<Rightarrow> BrokeredCall \<Rightarrow> string" where
  "hash_stored_call R call = hash_args (rt_hash R) (rt_call_json R call)"

text \<open>Reading the clock, deriving a scoped key and drawing on its counter.\<close>

definition draw_w ::
  "('e, 'i, 'h, 'k, 'g) BrokerRuntime \<Rightarrow> Principal \<Rightarrow> string \<Rightarrow> string \<Rightarrow> string \<Rightarrow> rat \<Rightarrow> rat
     \<Rightarrow> (('e, 'i, 'h, 'k) world, bool \<times> string) act" where
  "draw_w R prin tool op sfx delta cap =
     bind_w (wall_w R) (\<lambda>now.
     bind_w (lift_w (scoped_counter_key now prin tool op sfx (rt_counter_period R) None None)) (\<lambda>k w.
       let (drawn, e) = try_increment_counter (rt_store R) k delta cap (fst w) in (Inr (drawn, k), e, snd w)))"

section \<open>The session turn\<close>

definition new_turn :: "(('e, 'i, 'h, 'k) world, unit) act" where
  "new_turn = put_w (\<lambda>s. s\<lparr>s_turn := None\<rparr>)"

definition session_turn ::
  "('e, 'i, 'h, 'k, 'g) BrokerRuntime \<Rightarrow> (('e, 'i, 'h, 'k) world, TurnContext) act" where
  "session_turn R =
     bind_w (get_w s_turn) (\<lambda>current.
       case current of
         Some turn \<Rightarrow> ret_w turn
       | None \<Rightarrow>
           bind_w tick_w (\<lambda>n.
           bind_w
             (let turn = turn_init (''turn:'' @ rt_uuid R n) in
              case rt_inheritance R of
                None \<Rightarrow> ret_w turn
              | Some I \<Rightarrow>
                  bind_w (clock_w R) (\<lambda>now.
                  bind_w (get_w s_inherit) (\<lambda>st.
                    ret_w (ingest_inherited I st (rt_principal R) now (rt_clock_skew R) turn)))) (\<lambda>turn.
           bind_w (put_w (\<lambda>s. s\<lparr>s_turn := Some turn\<rparr>)) (\<lambda>_. ret_w turn))))"

definition ingest_w ::
  "('e, 'i, 'h, 'k, 'g) BrokerRuntime \<Rightarrow> string list \<Rightarrow> (('e, 'i, 'h, 'k) world, unit) act" where
  "ingest_w R srcs =
     put_w (\<lambda>s. s\<lparr>s_turn := map_option (fold (\<lambda>source. ingest_source source (rt_trust_map R)) srcs) (s_turn s)\<rparr>)"

text \<open>\<open>_stamp_call_ts\<close>: strictly increasing even when the clock is not.\<close>

definition stamp_call_ts :: "('e, 'i, 'h, 'k, 'g) BrokerRuntime \<Rightarrow> (('e, 'i, 'h, 'k) world, string) act" where
  "stamp_call_ts R =
     bind_w (wall_w R) (\<lambda>now.
     bind_w (get_w s_last_ts) (\<lambda>prev.
     bind_w (lift_w (case prev of None \<Rightarrow> Inr now | Some p \<Rightarrow> if now \<le> p then dt_add p 1 else Inr now)) (\<lambda>ts.
     bind_w (put_w (\<lambda>s. s\<lparr>s_last_ts := Some ts\<rparr>)) (\<lambda>_. ret_w (isoformat_utc ts)))))"

section \<open>Facts and decisions\<close>

definition pip_names :: "('e, 'i, 'h, 'k, 'g) BrokerRuntime \<Rightarrow> string list" where
  "pip_names R = [''grant'', ''counters''] @ (case rt_sub_grants R of None \<Rightarrow> [] | Some _ \<Rightarrow> [''sub_grants''])"

definition timed_pip ::
  "('e, 'i, 'h, 'k, 'g) BrokerRuntime \<Rightarrow> BrokeredCall \<Rightarrow> (('e, 'i, 'h, 'k) world, Facts) act" where
  "timed_pip R call =
     bind_w (clock_w R) (\<lambda>fetched.
     bind_w tick_w (\<lambda>n w.
       let (r, di) = timed (rt_pip R (fst w) n) (pip_names R) call fetched (s_inputs (snd w))
       in (r, fst w, (snd w)\<lparr>s_inputs := di\<rparr>)))"

definition gated_decide ::
  "('e, 'i, 'h, 'k, 'g) BrokerRuntime \<Rightarrow> BrokeredCall \<Rightarrow> Facts \<Rightarrow> ('e, 'i, 'h, 'k) world
     \<Rightarrow> Decision \<times> ('e, 'i, 'h, 'k) world" where
  "gated_decide R call facts w =
     (gate (decide (sha256_hex (rt_hash R))) (s_inputs (snd w)) (rt_clock R (s_ticks (snd w))) call facts,
      fst w, (snd w)\<lparr>s_ticks := Suc (s_ticks (snd w))\<rparr>)"

definition tree_draws ::
  "('e, 'i, 'h, 'k, 'g) BrokerRuntime \<Rightarrow> BrokeredCall \<Rightarrow> (('e, 'i, 'h, 'k) world, CounterDraw list) act" where
  "tree_draws R call =
     bind_w (wall_w R) (\<lambda>now.
     bind_w (lift_w (resolve_tree_pool (rt_sub_grants R) now (bc_principal call) (bc_tool call) (bc_op call)
       (rt_counter_cap R) (rt_counter_period R) 1)) (\<lambda>draw.
       ret_w (case draw of None \<Rightarrow> [] | Some d \<Rightarrow> [d])))"

section \<open>The executor\<close>

definition is_connector_error :: "exn \<Rightarrow> bool" where
  "is_connector_error e \<longleftrightarrow>
     exn_class e \<in> {''ConnectorExecutionError'', ''ConnectorExecutionError[refused]'',
                     ''CredentialResolutionError'', ''InheritanceWriteError''}"

definition failure_outcome :: "exn \<Rightarrow> string" where
  "failure_outcome e = (if exn_class e = ''ConnectorExecutionError[refused]'' then ''refused'' else ''failed'')"

definition write_inheritance_if_declared ::
  "('e, 'i, 'h, 'k, 'g) BrokerRuntime \<Rightarrow> BrokeredCall \<Rightarrow> Decision \<Rightarrow> (('e, 'i, 'h, 'k) world, unit) act" where
  "write_inheritance_if_declared R call eff =
     (case table_entry (rt_optable R) (bc_tool call) (effective_op call eff) of
        None \<Rightarrow> ret_w ()
      | Some mop \<Rightarrow>
          if causes_context mop = None then ret_w ()
          else
            bind_w (clock_w R) (\<lambda>now.
            bind_w tick_w (\<lambda>n.
            bind_w (get_w s_inherit) (\<lambda>st.
            bind_w (lift_w (write_inheritance_record (rt_uuid R n) (map_option (\<lambda>I. (I, st)) (rt_inheritance R)) mop
                      call (rt_sub_grants R) now (rt_trusted_read_sources R))) (\<lambda>(_, st').
              put_w (\<lambda>s. s\<lparr>s_inherit := st'\<rparr>))))))"

definition doer_w ::
  "('e, 'i, 'h, 'k, 'g) BrokerRuntime \<Rightarrow> BrokeredCall \<Rightarrow> Decision \<Rightarrow> (('e, 'i, 'h, 'k) world, DoerResult) act" where
  "doer_w R call eff =
     bind_w tick_w (\<lambda>n.
     bind_w (put_w (\<lambda>s. s\<lparr>s_inputs := establish_all (rt_admission R n) (s_inputs s)\<rparr>)) (\<lambda>_.
       lift_w (execute (rt_doer R n) call eff)))"

definition attempt_w ::
  "('e, 'i, 'h, 'k, 'g) BrokerRuntime \<Rightarrow> BrokeredCall \<Rightarrow> Decision \<Rightarrow> (('e, 'i, 'h, 'k) world, DoerResult) act" where
  "attempt_w R call eff w =
     (let (r, w1) = bind_w (write_inheritance_if_declared R call eff) (\<lambda>_. doer_w R call eff) w
      in (r, fst w1, (snd w1)\<lparr>s_attempts := s_attempts (snd w1)
                               @ [\<lparr>at_call = call, at_decision = eff, at_outcome = r\<rparr>]\<rparr>))"

definition utf8_len :: "string \<Rightarrow> nat" where
  "utf8_len s = sum_list (map (\<lambda>c. if of_char c < (128 :: nat) then 1 else 2) s)"

definition is_external_read :: "ToolOp \<Rightarrow> bool" where
  "is_external_read mop \<longleftrightarrow> external mop \<and> effect mop = read_effect"

definition ingest_read ::
  "('e, 'i, 'h, 'k, 'g) BrokerRuntime \<Rightarrow> BrokeredCall \<Rightarrow> (('e, 'i, 'h, 'k) world, unit) act" where
  "ingest_read R call =
     when_w (is_external_read (bc_manifest call)
             \<and> connector_source_id (bc_tool call) (bc_op call) \<notin> set (rt_trusted_read_sources R))
       (ingest_w R [connector_source_id (bc_tool call) (bc_op call)])"

definition egress_value :: "BrokeredCall \<Rightarrow> string option" where
  "egress_value call =
     (case (egress_arg (bc_manifest call), bc_args call) of
        (Some a, JObj kvs) \<Rightarrow> (case map_of kvs a of Some (JStr v) \<Rightarrow> Some v | _ \<Rightarrow> None)
      | _ \<Rightarrow> None)"

definition meter_egress ::
  "('e, 'i, 'h, 'k, 'g) BrokerRuntime \<Rightarrow> BrokeredCall \<Rightarrow> (('e, 'i, 'h, 'k) world, unit) act" where
  "meter_egress R call =
     (if is_external_read (bc_manifest call) then
        (case egress_value call of
           None \<Rightarrow> ret_w ()
         | Some v \<Rightarrow>
             bind_w (draw_w R (bc_principal call) (bc_tool call) (bc_op call) QUERY_BYTES_SUFFIX (of_nat (utf8_len v)) QUERY_BYTES_COUNTER_CAP)
               (\<lambda>_. ret_w ()))
      else ret_w ())"

definition emit_demotion_signal ::
  "('e, 'i, 'h, 'k, 'g) BrokerRuntime \<Rightarrow> BrokeredCall \<Rightarrow> rat \<Rightarrow> rat \<Rightarrow> (('e, 'i, 'h, 'k) world, unit) act" where
  "emit_demotion_signal R call spent tolerance =
     bind_w (wall_w R) (\<lambda>t1.
     bind_w (lift_w (current_period_bucket t1 (rt_counter_period R))) (\<lambda>period.
     bind_w (wall_w R) (\<lambda>t2.
       put_w (\<lambda>s. s\<lparr>s_signals := s_signals s
         @ [\<lparr>ds_trigger = budget_breach, ds_principal = bc_principal call,
             ds_action_class = bc_tool call @ ''.'' @ bc_op call, ds_period = period,
             ds_detail = ''error budget breached: spent '' @ fixed4 spent @ '' >= tolerance '' @ fixed4 tolerance,
             ds_ts = isoformat_utc t2\<rparr>]\<rparr>))))"

definition budget_draw :: "Confidence \<Rightarrow> BrokeredCall \<Rightarrow> exn + rat" where
  "budget_draw knob call =
     (let blast = effective_blast_class (bc_manifest call) (knob_high_blast knob) in
      case bc_confidence call of
        Some artifact \<Rightarrow> error_budget_draw artifact blast (knob_weights knob)
      | None \<Rightarrow> (case map_of (knob_weights knob) blast of None \<Rightarrow> Inl (KeyError ''blast_weights'') | Some x \<Rightarrow> Inr (1 * x)))"

definition meter_error_budget ::
  "('e, 'i, 'h, 'k, 'g) BrokerRuntime \<Rightarrow> BrokeredCall \<Rightarrow> (('e, 'i, 'h, 'k) world, unit) act" where
  "meter_error_budget R call =
     (case rt_confidence_knob R of
        None \<Rightarrow> ret_w ()
      | Some knob \<Rightarrow>
          (case error_budget_tolerance knob of
             None \<Rightarrow> ret_w ()
           | Some tolerance \<Rightarrow>
               if effect (bc_manifest call) \<noteq> write_effect then ret_w ()
               else
                 bind_w (lift_w (budget_draw knob call)) (\<lambda>draw.
                 bind_w (draw_w R (bc_principal call) (bc_tool call) (bc_op call) ERROR_BUDGET_SUFFIX draw ERROR_BUDGET_COUNTER_CAP) (\<lambda>(_, k) w.
                   let spent = read_counter (rt_store R) (fst w) k in
                   when_w (spent \<ge> tolerance \<and> spent - draw < tolerance)
                     (emit_demotion_signal R call spent tolerance) w))))"

text \<open>The observation label never fails the operation it labels.\<close>

definition count_observation ::
  "('e, 'i, 'h, 'k, 'g) BrokerRuntime \<Rightarrow> BrokeredCall \<Rightarrow> (('e, 'i, 'h, 'k) world, unit) act" where
  "count_observation R call =
     catch_w (draw_w R (bc_principal call) (bc_tool call) (bc_op call) OBSERVATIONS_SUFFIX 1 UNBOUNDED_COUNTER_CAP)
       (\<lambda>_. ret_w ()) (\<lambda>_. ret_w ())"

definition failure_record ::
  "('e, 'i, 'h, 'k, 'g) BrokerRuntime \<Rightarrow> BrokeredCall \<Rightarrow> Decision \<Rightarrow> exn \<Rightarrow> emission" where
  "failure_record R call eff e =
     (emission_of R (bc_tool call) (bc_op call) (bc_args call) (kind_str (kind eff)) (failure_outcome e) None)
       \<lparr>em_principal := bc_principal call, em_error := Some (exn_str e)\<rparr>"

definition executed_record ::
  "('e, 'i, 'h, 'k, 'g) BrokerRuntime \<Rightarrow> BrokeredCall \<Rightarrow> Decision \<Rightarrow> DoerResult \<Rightarrow> emission" where
  "executed_record R call eff r =
     (emission_of R (bc_tool call) (dr_op r) (bc_args call) (kind_str (kind eff)) ''executed'' None)
       \<lparr>em_principal := bc_principal call, em_result_digest := Some (hash_args (rt_hash R) (dr_result r))\<rparr>"

definition executor_w ::
  "('e, 'i, 'h, 'k, 'g) BrokerRuntime \<Rightarrow> BrokeredCall \<Rightarrow> Decision \<Rightarrow> (('e, 'i, 'h, 'k) world, json option) act" where
  "executor_w R call eff =
     catch_w (attempt_w R call eff)
       (\<lambda>e. if is_connector_error e
            then bind_w (record_w R (failure_record R call eff e)) (\<lambda>_. raise_w e)
            else raise_w e)
       (\<lambda>r.
         bind_w (record_w R (executed_record R call eff r)) (\<lambda>_.
         bind_w (ingest_read R call) (\<lambda>_.
         bind_w (meter_egress R call) (\<lambda>_.
         bind_w (meter_error_budget R call) (\<lambda>_.
         bind_w (count_observation R call) (\<lambda>_.
           ret_w (if dr_result r = JNull then None else Some (dr_result r))))))))"

definition broker_actions :: "('e, 'i, 'h, 'k, 'g) BrokerRuntime \<Rightarrow> ('e, 'i, 'h, 'k) world actions" where
  "broker_actions R = \<lparr>act_facts = timed_pip R, act_decide = gated_decide R, act_execute = executor_w R\<rparr>"

section \<open>Holding a call for approval\<close>

definition quarantine_record ::
  "('e, 'i, 'h, 'k, 'g) BrokerRuntime \<Rightarrow> string \<Rightarrow> string \<Rightarrow> string \<Rightarrow> emission" where
  "quarantine_record R iid why op =
     (emission_of R ''intent-store'' op (JObj []) ''deny'' ''denied'' (Some (''intent quarantined: '' @ why)))
       \<lparr>em_intent_id := Some iid\<rparr>"

definition surface_quarantined_intent ::
  "('e, 'i, 'h, 'k, 'g) BrokerRuntime \<Rightarrow> string \<Rightarrow> string \<Rightarrow> string \<Rightarrow> (('e, 'i, 'h, 'k) world, unit) act" where
  "surface_quarantined_intent R iid why op =
     record_w R (quarantine_record R iid why op)"

definition deny_intent_id_collision ::
  "('e, 'i, 'h, 'k, 'g) BrokerRuntime \<Rightarrow> BrokeredCall \<Rightarrow> string \<Rightarrow> (('e, 'i, 'h, 'k) world, BrokerResponse) act" where
  "deny_intent_id_collision R call iid =
     (let reason = INTENT_ID_COLLISION_REASON @ '': '' @ iid in
      bind_w (record_w R ((emission_of R (bc_tool call) (bc_op call) (bc_args call) ''deny'' ''denied'' (Some reason))
                \<lparr>em_principal := bc_principal call, em_intent_id := Some iid\<rparr>)) (\<lambda>_.
        ret_w (response k_deny (Some reason))))"

definition dedup_id_of :: "('e, 'i, 'h, 'k, 'g) BrokerRuntime \<Rightarrow> BrokeredCall \<Rightarrow> string option" where
  "dedup_id_of R call =
     (case rt_approval_queue R of
        None \<Rightarrow> None
      | Some aq \<Rightarrow>
          if aq_dedup aq
          then Some (dedup_intent_id (sha256_hex (rt_hash R)) (bc_principal call) (bc_tool call) (bc_op call)
                       (hash_args (rt_hash R) (bc_args call)))
          else None)"

definition materialize_w ::
  "('e, 'i, 'h, 'k, 'g) BrokerRuntime \<Rightarrow> BrokeredCall \<Rightarrow> RenderedIntent \<Rightarrow> string option
     \<Rightarrow> (('e, 'i, 'h, 'k) world, ApprovalResult) act" where
  "materialize_w R call rendered dedup_id =
     bind_w (wall_w R) (\<lambda>now w.
       let (r, st, _) = materialize (rt_intent_store R) None call rendered DEFAULT_APPROVAL_EXPIRY_SECONDS dedup_id now
                          (s_intents (snd w))
       in (r, fst w, (snd w)\<lparr>s_intents := st\<rparr>))"

definition alarm_of :: "('e, 'i, 'h, 'k, 'g) BrokerRuntime \<Rightarrow> int \<Rightarrow> alarm_config" where
  "alarm_of R cap =
     \<lparr>aa_principal = rt_principal R, aa_cap = cap, aa_period = rt_counter_period R,
      aa_hold_window = DEFAULT_APPROVAL_EXPIRY_SECONDS * SECOND\<rparr>"

definition raise_alarm ::
  "('e, 'i, 'h, 'k, 'g) BrokerRuntime \<Rightarrow> int \<Rightarrow> BrokeredCall \<Rightarrow> (('e, 'i, 'h, 'k) world, unit) act" where
  "raise_alarm R cap call =
     bind_w (wall_w R) (\<lambda>now w.
       case raise_for (alarm_of R cap) (rt_store R) (bc_tool call) (bc_op call) now (s_alarm (snd w)) (fst w) of
         (Inl e, al, st) \<Rightarrow> (Inl e, st, (snd w)\<lparr>s_alarm := al\<rparr>)
       | (Inr evs, al, st) \<Rightarrow>
           (Inr (), st, (snd w)\<lparr>s_alarm := al, s_deliveries := s_deliveries (snd w) @ evs\<rparr>))"

definition flood_check ::
  "('e, 'i, 'h, 'k, 'g) BrokerRuntime \<Rightarrow> BrokeredCall \<Rightarrow> bool \<Rightarrow> (('e, 'i, 'h, 'k) world, unit) act" where
  "flood_check R call coalesced =
     (case rt_approval_queue R of
        None \<Rightarrow> ret_w ()
      | Some aq \<Rightarrow>
          (case max_pending_per_op_day aq of
             None \<Rightarrow> ret_w ()
           | Some cap \<Rightarrow>
               if coalesced then ret_w ()
               else
                 bind_w (draw_w R (rt_principal R) (bc_tool call) (bc_op call) ''approval'' 1 (of_int cap)) (\<lambda>(within_cap, _).
                   when_w (is_flood within_cap) (raise_alarm R cap call))))"

definition held_record ::
  "('e, 'i, 'h, 'k, 'g) BrokerRuntime \<Rightarrow> BrokeredCall \<Rightarrow> string option \<Rightarrow> ApprovalResult \<Rightarrow> emission" where
  "held_record R call reason approval =
     (let coalesced = (ar_status approval = ''coalesced'') in
      (emission_of R (bc_tool call) (bc_op call) (bc_args call) ''require_approval'' ''held''
        (if coalesced then Some ''approval-queue-coalesced'' else reason))
        \<lparr>em_principal := bc_principal call, em_intent_id := Some (ar_intent_id approval),
         em_stored_call_digest := (if coalesced then None else Some (hash_stored_call R call))\<rparr>)"

definition hold_call ::
  "('e, 'i, 'h, 'k, 'g) BrokerRuntime \<Rightarrow> BrokeredCall \<Rightarrow> RenderedIntent \<Rightarrow> string option
     \<Rightarrow> (('e, 'i, 'h, 'k) world, BrokerResponse) act" where
  "hold_call R call rendered reason =
     (let dedup_id = dedup_id_of R call;
          iid = (case dedup_id of Some d \<Rightarrow> d | None \<Rightarrow> intent_id rendered) in
      catch_w (materialize_w R call rendered dedup_id)
        (\<lambda>e. if exn_class e = ''QuarantinedIntentError''
             then bind_w (surface_quarantined_intent R iid (exn_str e) ''hold'') (\<lambda>_.
                    ret_w (response k_deny (Some (''intent quarantined: '' @ exn_str e))))
             else if exn_class e = ''IntentAlreadyPendingError'' then deny_intent_id_collision R call iid
             else raise_w e)
        (\<lambda>approval.
          bind_w (flood_check R call (ar_status approval = ''coalesced'')) (\<lambda>_.
          bind_w (record_w R (held_record R call reason approval)) (\<lambda>_.
            ret_w ((response k_require_approval None)\<lparr>br_intent_id := Some (ar_intent_id approval)\<rparr>)))))"

section \<open>The reply\<close>

definition decision_reason :: "Decision \<Rightarrow> string option" where
  "decision_reason d =
     (case d of Deny r \<Rightarrow> Some r | Abstain _ r \<Rightarrow> Some r | RequireApproval _ r \<Rightarrow> r | _ \<Rightarrow> None)"

definition method_str :: "ConfidenceMethod \<Rightarrow> string" where
  "method_str m =
     (case m of self_consistency \<Rightarrow> ''self-consistency'' | ensemble \<Rightarrow> ''ensemble'' | conformal \<Rightarrow> ''conformal'')"

definition refusal_reason :: "hash_env \<Rightarrow> BrokeredCall \<Rightarrow> Decision \<Rightarrow> string option" where
  "refusal_reason H call eff =
     (case (eff, bc_confidence call) of
        (Abstain _ r, Some a) \<Rightarrow>
          Some (r @ '' [confidence artifact: method='' @ method_str (evidence_method (evidence a))
            @ '' confidence='' @ float_text H (confidence_value a) @ '' error_prob='' @ float_text H (error_prob a)
            @ '' stale='' @ (if stale a then ''True'' else ''False'') @ '']'')
      | _ \<Rightarrow> decision_reason eff)"

definition refusal_record ::
  "('e, 'i, 'h, 'k, 'g) BrokerRuntime \<Rightarrow> BrokeredCall \<Rightarrow> Decision \<Rightarrow> string option \<Rightarrow> emission" where
  "refusal_record R call eff reason =
     (emission_of R (bc_tool call) (bc_op call) (bc_args call) (kind_str (kind eff)) ''denied'' reason)
       \<lparr>em_principal := bc_principal call\<rparr>"

definition refuse_call ::
  "('e, 'i, 'h, 'k, 'g) BrokerRuntime \<Rightarrow> BrokeredCall \<Rightarrow> Decision \<Rightarrow> (('e, 'i, 'h, 'k) world, BrokerResponse) act" where
  "refuse_call R call eff =
     (let reason = refusal_reason (rt_hash R) call eff in
      bind_w (record_w R (refusal_record R call eff reason)) (\<lambda>_. ret_w (response (kind eff) reason)))"

definition respond ::
  "('e, 'i, 'h, 'k, 'g) BrokerRuntime \<Rightarrow> BrokeredCall \<Rightarrow> EnforcementResult
     \<Rightarrow> (('e, 'i, 'h, 'k) world, BrokerResponse) act" where
  "respond R call res =
     (let eff = er_decision res in
      if idempotent res
      then ret_w ((response (kind eff) (decision_reason eff))\<lparr>br_result := er_result res, br_idempotent := True\<rparr>)
      else if executes eff then ret_w ((response (kind eff) None)\<lparr>br_result := er_result res\<rparr>)
      else
        (case eff of
           RequireApproval rendered reason \<Rightarrow> hold_call R call rendered reason
         | _ \<Rightarrow> refuse_call R call eff))"

section \<open>The pipeline\<close>

text \<open>The raw confidence artifact: \<open>None\<close> when it is malformed.\<close>

definition check_confidence ::
  "('e, 'i, 'h, 'k, 'g) BrokerRuntime \<Rightarrow> AgentRequest \<Rightarrow> ConfidenceArtifact option option" where
  "check_confidence R rq =
     (case ag_confidence rq of
        None \<Rightarrow> Some None
      | Some (TypedArtifact a) \<Rightarrow> Some (Some a)
      | Some (RawArtifact j) \<Rightarrow> map_option Some (rt_validate R j))"

definition materialized_call ::
  "('e, 'i, 'h, 'k, 'g) BrokerRuntime \<Rightarrow> AgentRequest \<Rightarrow> TurnContext \<Rightarrow> ToolOp \<Rightarrow> string \<Rightarrow> ConfidenceArtifact option
     \<Rightarrow> BrokeredCall" where
  "materialized_call R rq turn mop ts artifact =
     \<lparr>bc_principal = rt_principal R, bc_tool = ag_tool rq, bc_op = ag_op rq, bc_args = ag_args rq,
      bc_manifest = mop, bc_taint = to_taint turn,
      bc_session = \<lparr>turnId = tc_turn_id turn, ingestedSources = sources (to_taint turn)\<rparr>, bc_ts = ts,
      bc_confidence = artifact\<rparr>"

definition quarantined_grant_record ::
  "('e, 'i, 'h, 'k, 'g) BrokerRuntime \<Rightarrow> BrokeredCall \<Rightarrow> Facts \<Rightarrow> emission" where
  "quarantined_grant_record R call facts =
     (emission_of R (bc_tool call) (bc_op call) (bc_args call) ''deny'' ''denied''
       (Some (''grant quarantined: '' @ (case quarantine_reason facts of None \<Rightarrow> ''None'' | Some r \<Rightarrow> r))))
       \<lparr>em_principal := bc_principal call\<rparr>"

definition surface_quarantined_grant ::
  "('e, 'i, 'h, 'k, 'g) BrokerRuntime \<Rightarrow> BrokeredCall \<Rightarrow> Facts \<Rightarrow> (('e, 'i, 'h, 'k) world, unit) act" where
  "surface_quarantined_grant R call facts =
     when_w (quarantined facts) (record_w R (quarantined_grant_record R call facts))"

definition enforce_call ::
  "('e, 'i, 'h, 'k, 'g) BrokerRuntime \<Rightarrow> AgentRequest \<Rightarrow> BrokeredCall \<Rightarrow> Decision
     \<Rightarrow> (('e, 'i, 'h, 'k) world, EnforcementResult) act" where
  "enforce_call R rq call initial =
     bind_w (wall_w R) (\<lambda>now.
     bind_w (lift_w (scoped_counter_key now (rt_principal R) (ag_tool rq) (ag_op rq) ACTION_CAP_SUFFIX
       (rt_counter_period R) None None)) (\<lambda>ck.
     bind_w (tree_draws R call) (\<lambda>draws.
     bind_w tick_w (\<lambda>n.
       enforce_w (lift_store (rt_store R)) (rt_env R n) (broker_actions R)
         \<lparr>rq_call = call, initial_decision = initial, idempotency_key = ag_idempotency_key rq,
          counter_key = ck, counter_delta = 1, counter_cap = rt_counter_cap R, ancestor_draws = draws\<rparr>))))"

text \<open>Steps 4 to 8: facts, decision, enforcement and reply for a call whose entry and artifact are valid.\<close>

definition decide_and_enforce ::
  "('e, 'i, 'h, 'k, 'g) BrokerRuntime \<Rightarrow> AgentRequest \<Rightarrow> BrokeredCall \<Rightarrow> (('e, 'i, 'h, 'k) world, BrokerResponse) act" where
  "decide_and_enforce R rq call =
     bind_w (timed_pip R call) (\<lambda>facts.
     bind_w (surface_quarantined_grant R call facts) (\<lambda>_.
     bind_w (\<lambda>w. apfst Inr (gated_decide R call facts w)) (\<lambda>initial.
       catch_w (enforce_call R rq call initial)
         (\<lambda>e. if is_connector_error e
              then ret_w ((response k_deny (Some ''connector execution failed''))
                            \<lparr>br_execution_outcome := Some (failure_outcome e)\<rparr>)
              else raise_w e)
         (respond R call))))"

definition pipeline ::
  "('e, 'i, 'h, 'k, 'g) BrokerRuntime \<Rightarrow> AgentRequest \<Rightarrow> string list \<Rightarrow> (('e, 'i, 'h, 'k) world, BrokerResponse) act" where
  "pipeline R rq srcs =
     bind_w (session_turn R) (\<lambda>_.
     bind_w (put_w (\<lambda>s. s\<lparr>s_inputs := decision_inputs (rt_input_ages R)\<rparr>)) (\<lambda>_.
     bind_w (ingest_w R srcs) (\<lambda>_.
     bind_w (session_turn R) (\<lambda>turn.
       case table_entry (rt_optable R) (ag_tool rq) (ag_op rq) of
         None \<Rightarrow>
           (let reason = ''no manifest entry for '' @ ag_tool rq @ ''.'' @ ag_op rq in
            bind_w (record_w R (emission_of R (ag_tool rq) (ag_op rq) (ag_args rq) ''deny'' ''denied'' (Some reason)))
              (\<lambda>_. ret_w (response k_deny (Some reason))))
       | Some mop \<Rightarrow>
           (case check_confidence R rq of
              None \<Rightarrow> ret_w (response k_deny (Some ''invalid confidence artifact''))
            | Some artifact \<Rightarrow>
                bind_w (stamp_call_ts R) (\<lambda>ts.
                  decide_and_enforce R rq (materialized_call R rq turn mop ts artifact)))))))"

definition handle_request ::
  "('e, 'i, 'h, 'k, 'g) BrokerRuntime \<Rightarrow> AgentRequest \<Rightarrow> string list \<Rightarrow> (('e, 'i, 'h, 'k) world, BrokerResponse) act" where
  "handle_request R rq srcs =
     (if ag_tool rq = HARNESS_TOOL then
        bind_w (session_turn R) (\<lambda>_.
        bind_w (ingest_w R srcs) (\<lambda>_.
        bind_w (put_w (\<lambda>s. s\<lparr>s_inputs := decision_inputs (rt_input_ages R)\<rparr>)) (\<lambda>_.
        bind_w (record_w R (emission_of R (ag_tool rq) (ag_op rq) (ag_args rq) ''deny'' ''denied''
                  (Some HARNESS_TOOL_REFUSAL_REASON))) (\<lambda>_.
          ret_w (response k_deny (Some HARNESS_TOOL_REFUSAL_REASON))))))
      else pipeline R rq srcs)"

end
