(* ===== verification/Pep_Safety.thy ===== *)
theory Pep_Safety
  imports Pep
begin

text \<open>
  What holds of every request the broker serves: the taint of a session, the tape's account of the
  connector, and the record of each reply. The lemmas are stated over the part of the state these
  depend on, the tape, the session turn and the executor's attempts; every other action is quiet.
\<close>

section \<open>Conditions at the two ends of an action\<close>

definition ok :: "('w \<Rightarrow> bool) \<Rightarrow> ('w, 'a) act \<Rightarrow> ('a \<Rightarrow> 'w \<Rightarrow> bool) \<Rightarrow> (exn \<Rightarrow> 'w \<Rightarrow> bool) \<Rightarrow> bool" where
  "ok P m Q E \<longleftrightarrow> (\<forall>w. P w \<longrightarrow> (case m w of (Inl e, w1) \<Rightarrow> E e w1 | (Inr x, w1) \<Rightarrow> Q x w1))"

lemma okI: "(\<And>w. P w \<Longrightarrow> case m w of (Inl e, w1) \<Rightarrow> E e w1 | (Inr x, w1) \<Rightarrow> Q x w1) \<Longrightarrow> ok P m Q E"
  by (simp add: ok_def)

lemma okD: "ok P m Q E \<Longrightarrow> P w \<Longrightarrow> m w = (Inr x, w1) \<Longrightarrow> Q x w1" "ok P m Q E \<Longrightarrow> P w \<Longrightarrow> m w = (Inl e, w1) \<Longrightarrow> E e w1"
  by (auto simp: ok_def)

lemma ok_ret: "(\<And>w. P w \<Longrightarrow> Q x w) \<Longrightarrow> ok P (ret_w x) Q E"
  by (simp add: ok_def ret_w_def)

lemma ok_raise: "(\<And>w. P w \<Longrightarrow> E e w) \<Longrightarrow> ok P (raise_w e) Q E"
  by (simp add: ok_def raise_w_def)

lemma ok_bind: "ok P m S E \<Longrightarrow> (\<And>x. ok (S x) (f x) Q E) \<Longrightarrow> ok P (bind_w m f) Q E"
  unfolding ok_def bind_w_def by (fastforce split: prod.splits sum.splits)

lemma ok_catch:
  "ok P m S D \<Longrightarrow> (\<And>x. ok (S x) (f x) Q E) \<Longrightarrow> (\<And>e. ok (D e) (handle e) Q E) \<Longrightarrow> ok P (catch_w m handle f) Q E"
  unfolding ok_def catch_w_def by (fastforce split: prod.splits sum.splits)

lemma ok_conseq:
  "ok P' m Q' E' \<Longrightarrow> (\<And>w. P w \<Longrightarrow> P' w) \<Longrightarrow> (\<And>x w. Q' x w \<Longrightarrow> Q x w) \<Longrightarrow> (\<And>e w. E' e w \<Longrightarrow> E e w) \<Longrightarrow> ok P m Q E"
  unfolding ok_def by (fastforce split: prod.splits sum.splits)

lemma ok_snd: "ok P m Q (\<lambda>_. C) \<Longrightarrow> (\<And>x w. Q x w \<Longrightarrow> C w) \<Longrightarrow> P w \<Longrightarrow> C (snd (m w))"
  unfolding ok_def by (fastforce split: prod.splits sum.splits)

abbreviation keeps :: "('w \<Rightarrow> bool) \<Rightarrow> ('w, 'a) act \<Rightarrow> bool" where
  "keeps P m \<equiv> ok P m (\<lambda>_. P) (\<lambda>_. P)"

lemma keeps_iff: "keeps P m \<longleftrightarrow> (\<forall>w. P w \<longrightarrow> P (snd (m w)))"
  unfolding ok_def by (fastforce split: prod.splits sum.splits)

lemmas action_defs = get_w_def put_w_def bind_w_def ret_w_def tick_w_def lift_w_def catch_w_def when_w_def raise_w_def

section \<open>Quiet actions\<close>

definition core :: "('i, 'h, 'k) side \<Rightarrow> 'k \<times> TurnContext option \<times> attempt list" where
  "core s = (s_tape s, s_turn s, s_attempts s)"

definition quiet :: "(('e, 'i, 'h, 'k) world, 'a) act \<Rightarrow> bool" where
  "quiet m \<longleftrightarrow> (\<forall>w. core (snd (snd (m w))) = core (snd w))"

named_theorems quiet_rules \<open>actions that leave the tape, the turn and the attempts alone\<close>

lemma quiet_keeps: "quiet m \<Longrightarrow> keeps (\<lambda>w. P (core (snd w))) m"
  by (simp add: keeps_iff quiet_def)

lemma quiet_bind [quiet_rules]: "quiet m \<Longrightarrow> (\<And>x. quiet (f x)) \<Longrightarrow> quiet (bind_w m f)"
  unfolding quiet_def bind_w_def by (auto split: prod.splits sum.splits) (metis snd_conv)+

lemma quiet_catch [quiet_rules]:
  "quiet m \<Longrightarrow> (\<And>e. quiet (h e)) \<Longrightarrow> (\<And>x. quiet (f x)) \<Longrightarrow> quiet (catch_w m h f)"
  unfolding quiet_def catch_w_def by (auto split: prod.splits sum.splits) (metis snd_conv)+

lemma quiet_when [quiet_rules]: "quiet m \<Longrightarrow> quiet (when_w b m)"
  by (simp add: when_w_def quiet_def ret_w_def)

lemma quiet_basic [quiet_rules]: "quiet (ret_w x)" "quiet (raise_w e)" "quiet (lift_w r)" "quiet (get_w f)" "quiet tick_w"
  by (simp_all add: quiet_def ret_w_def raise_w_def lift_w_def get_w_def tick_w_def core_def)

lemma quiet_put: "(\<And>s. core (f s) = core s) \<Longrightarrow> quiet (put_w f)"
  by (simp add: quiet_def put_w_def)

lemma quiet_wall [quiet_rules]: "quiet (wall_w R)" "quiet (clock_w R)"
  unfolding wall_w_def clock_w_def by (intro quiet_rules)+

lemma quiet_draw [quiet_rules]: "quiet (draw_w R p tool op sfx x c)"
  unfolding draw_w_def by (intro quiet_rules) (simp add: quiet_def Let_def split: prod.split)

lemma quiet_stamp [quiet_rules]: "quiet (stamp_call_ts R)"
  unfolding stamp_call_ts_def by (intro quiet_rules quiet_put) (simp add: core_def)

lemma quiet_pip [quiet_rules]: "quiet (timed_pip R call)"
  unfolding timed_pip_def by (intro quiet_rules) (simp add: quiet_def Let_def core_def split: prod.split)

lemma quiet_gated [quiet_rules]: "quiet (\<lambda>w. apfst Inr (gated_decide R call facts w))"
  by (simp add: quiet_def gated_decide_def core_def)

lemma quiet_tree [quiet_rules]: "quiet (tree_draws R call)"
  unfolding tree_draws_def by (intro quiet_rules)

lemma quiet_inheritance [quiet_rules]: "quiet (write_inheritance_if_declared R call eff)"
  unfolding write_inheritance_if_declared_def
  by (auto intro!: quiet_rules quiet_put simp: core_def split: option.split)

lemma quiet_doer [quiet_rules]: "quiet (doer_w R call eff)"
  unfolding doer_w_def by (intro quiet_rules quiet_put) (simp add: core_def)

lemma quiet_meter_egress [quiet_rules]: "quiet (meter_egress R call)"
  unfolding meter_egress_def by (auto intro!: quiet_rules split: option.split)

lemma quiet_signal [quiet_rules]: "quiet (emit_demotion_signal R call spent tolerance)"
  unfolding emit_demotion_signal_def by (intro quiet_rules quiet_put) (simp add: core_def)

lemma quiet_dep: "(\<And>w. quiet (m w)) \<Longrightarrow> quiet (\<lambda>w. m w w)"
  by (simp add: quiet_def)

lemma quiet_meter_budget [quiet_rules]: "quiet (meter_error_budget R call)"
  unfolding meter_error_budget_def
  by (auto intro!: quiet_bind quiet_basic quiet_draw quiet_dep [OF quiet_when] quiet_signal simp: Let_def
      split: option.split prod.split)

lemma quiet_observation [quiet_rules]: "quiet (count_observation R call)"
  unfolding count_observation_def by (intro quiet_rules)

lemma quiet_materialize [quiet_rules]: "quiet (materialize_w R call rendered dd)"
  unfolding materialize_w_def by (intro quiet_rules) (simp add: quiet_def Let_def core_def split: prod.split)

lemma quiet_alarm [quiet_rules]: "quiet (raise_alarm R cap call)"
  unfolding raise_alarm_def by (intro quiet_rules) (simp add: quiet_def core_def split: prod.split sum.split)

lemma quiet_flood [quiet_rules]: "quiet (flood_check R call b)"
  unfolding flood_check_def by (auto intro!: quiet_rules split: option.split prod.split)

section \<open>What a request leaves behind\<close>

definition tainted_turn :: "TurnContext option \<Rightarrow> bool" where
  "tainted_turn turn = (case turn of None \<Rightarrow> False | Some t \<Rightarrow> tc_tainted t)"

text \<open>The coordinates, argument digest and outcome of the records that tell of the connector, and what an
  attempt must leave on the tape. A fault that is not the connector's (no connector registered, a clock
  that raised) is not an execution and leaves no record.\<close>

definition EXECUTION_OUTCOMES :: "string list" where
  "EXECUTION_OUTCOMES = [''executed'', ''failed'', ''refused'']"

definition executions :: "AuditRecord list \<Rightarrow> (string \<times> string \<times> string \<times> string) list" where
  "executions rs =
     map (\<lambda>r. (au_tool r, au_op r, argsDigest r, au_outcome r)) (filter (\<lambda>r. au_outcome r \<in> set EXECUTION_OUTCOMES) rs)"

definition accounted :: "hash_env \<Rightarrow> attempt \<Rightarrow> (string \<times> string \<times> string \<times> string) list" where
  "accounted H a =
     (case at_outcome a of
        Inr r \<Rightarrow> [(bc_tool (at_call a), dr_op r, hash_args H (bc_args (at_call a)), ''executed'')]
      | Inl e \<Rightarrow>
          if is_connector_error e
          then [(bc_tool (at_call a), bc_op (at_call a), hash_args H (bc_args (at_call a)), failure_outcome e)]
          else [])"

definition is_external_write :: "ToolOp \<Rightarrow> bool" where
  "is_external_write mop \<longleftrightarrow> external mop \<and> effect mop = write_effect"

text \<open>A successful read whose source nothing declares trusted.\<close>

definition untrusted_read :: "('e, 'i, 'h, 'k, 'g) BrokerRuntime \<Rightarrow> attempt \<Rightarrow> bool" where
  "untrusted_read R a \<longleftrightarrow>
     is_external_read (bc_manifest (at_call a)) \<and> (\<exists>r. at_outcome a = Inr r)
     \<and> connector_source_id (bc_tool (at_call a)) (bc_op (at_call a)) \<notin> set (rt_trusted_read_sources R)
     \<and> \<not> rt_trust_map R (connector_source_id (bc_tool (at_call a)) (bc_op (at_call a)))"

text \<open>The state during a request that started with tape \<open>k0\<close> and attempts \<open>log0\<close> and works on entry \<open>mop\<close>;
  \<open>t0\<close> says that the call was materialized on a tainted turn.\<close>

definition request_inv ::
  "('e, 'i, 'h, 'k, 'g) BrokerRuntime \<Rightarrow> ('k \<Rightarrow> bool) \<Rightarrow> ('k \<Rightarrow> AuditRecord list) \<Rightarrow> 'k \<Rightarrow> attempt list \<Rightarrow> bool \<Rightarrow> ToolOp
     \<Rightarrow> 'k \<times> TurnContext option \<times> attempt list \<Rightarrow> bool" where
  "request_inv R good tape k0 log0 t0 mop c \<longleftrightarrow>
     (case c of (k, turn, tried) \<Rightarrow>
        good k \<and> turn \<noteq> None \<and> linked (rt_hash R) 0 (GENESIS_PREV_HASH (rt_hash R)) (tape k) \<and> (t0 \<longrightarrow> tainted_turn turn)
        \<and> (\<exists>recs new. tape k = tape k0 @ recs \<and> tried = log0 @ new
            \<and> executions recs = concat (map (accounted (rt_hash R)) new)
            \<and> (\<forall>a \<in> set new. bc_manifest (at_call a) = mop \<and> (t0 \<longrightarrow> \<not> is_external_write mop)
                 \<and> (untrusted_read R a \<longrightarrow> tainted_turn turn))))"

lemma executions_append [simp]: "executions (xs @ ys) = executions xs @ executions ys"
  by (simp add: executions_def)

lemma executions_Nil [simp]: "executions [] = []"
  by (simp add: executions_def)

lemma kind_str_decision [simp]: "kind_str k \<in> set AUDIT_DECISIONS"
  by (cases k) (simp_all add: kind_str_def AUDIT_DECISIONS_def)

lemma decision_texts [simp]: "''deny'' \<in> set AUDIT_DECISIONS" "''require_approval'' \<in> set AUDIT_DECISIONS"
  by (simp_all add: AUDIT_DECISIONS_def)

lemma outcome_texts [simp]:
  "''denied'' \<in> set AUDIT_OUTCOMES" "''held'' \<in> set AUDIT_OUTCOMES" "''executed'' \<in> set AUDIT_OUTCOMES"
  "failure_outcome e \<in> set AUDIT_OUTCOMES" "''denied'' \<notin> set EXECUTION_OUTCOMES" "''held'' \<notin> set EXECUTION_OUTCOMES"
  "''executed'' \<in> set EXECUTION_OUTCOMES" "failure_outcome e \<in> set EXECUTION_OUTCOMES"
  by (simp_all add: AUDIT_OUTCOMES_def EXECUTION_OUTCOMES_def failure_outcome_def)

lemma emission_of_simps [simp]:
  "em_decision (emission_of R tool op args dec outcome reason) = dec"
  "em_outcome (emission_of R tool op args dec outcome reason) = outcome"
  "em_tool (emission_of R tool op args dec outcome reason) = tool"
  "em_op (emission_of R tool op args dec outcome reason) = op"
  "em_args (emission_of R tool op args dec outcome reason) = args"
  by (simp_all add: emission_of_def)

lemma with_audit_fields_simps [simp]:
  "em_decision (with_audit_fields di em) = em_decision em" "em_outcome (with_audit_fields di em) = em_outcome em"
  "em_tool (with_audit_fields di em) = em_tool em" "em_op (with_audit_fields di em) = em_op em"
  "em_args (with_audit_fields di em) = em_args em"
  by (simp_all add: with_audit_fields_def)

lemma build_record_coordinates [simp]:
  "au_tool (build_record H em now n prev) = em_tool em" "au_op (build_record H em now n prev) = em_op em"
  "argsDigest (build_record H em now n prev) = hash_args H (em_args em)"
  by (simp_all add: build_record_def Let_def)

lemma tainted_turn_ingest:
  "tainted_turn turn \<Longrightarrow> tainted_turn (map_option (fold (\<lambda>source. ingest_source source tm) srcs) turn)"
proof -
  have "tc_tainted t \<Longrightarrow> tc_tainted (fold (\<lambda>source. ingest_source source tm) srcs t)" for t
    by (induction srcs arbitrary: t) (auto simp: ingest_source_def mark_tainted_def)
  then show "tainted_turn turn \<Longrightarrow> ?thesis" by (cases turn) (auto simp: tainted_turn_def)
qed

text \<open>What one request did, seen from outside: \<open>t0\<close> says that the session was tainted when it arrived.\<close>

definition request_effect ::
  "('e, 'i, 'h, 'k, 'g) BrokerRuntime \<Rightarrow> ('k \<Rightarrow> bool) \<Rightarrow> ('k \<Rightarrow> AuditRecord list) \<Rightarrow> 'k \<Rightarrow> attempt list \<Rightarrow> bool
     \<Rightarrow> 'k \<times> TurnContext option \<times> attempt list \<Rightarrow> bool" where
  "request_effect R good tape k0 log0 t0 c \<longleftrightarrow>
     (case c of (k, turn, tried) \<Rightarrow>
        good k \<and> linked (rt_hash R) 0 (GENESIS_PREV_HASH (rt_hash R)) (tape k) \<and> (t0 \<longrightarrow> tainted_turn turn)
        \<and> (\<exists>recs new mop. tape k = tape k0 @ recs \<and> tried = log0 @ new
            \<and> executions recs = concat (map (accounted (rt_hash R)) new)
            \<and> (\<forall>a \<in> set new. bc_manifest (at_call a) = mop \<and> (t0 \<longrightarrow> \<not> is_external_write mop)
                 \<and> (untrusted_read R a \<longrightarrow> tainted_turn turn))))"

lemma request_inv_effect:
  "request_inv R good tape k0 log0 t1 mop c \<Longrightarrow> (t0 \<Longrightarrow> t1) \<Longrightarrow> request_effect R good tape k0 log0 t0 c"
  unfolding request_inv_def request_effect_def by (cases c) (simp, blast)

section \<open>Sessions\<close>

fun serve ::
  "('e, 'i, 'h, 'k, 'g) BrokerRuntime \<Rightarrow> (AgentRequest \<times> string list) list \<Rightarrow> ('e, 'i, 'h, 'k) world \<Rightarrow> ('e, 'i, 'h, 'k) world" where
  "serve R [] w = w"
| "serve R ((rq, srcs) # rqs) w = serve R rqs (snd (handle_request R rq srcs w))"

definition contained :: "('e, 'i, 'h, 'k, 'g) BrokerRuntime \<Rightarrow> attempt list \<Rightarrow> bool" where
  "contained R tried = sorted_wrt (\<lambda>a b. untrusted_read R a \<longrightarrow> \<not> is_external_write (bc_manifest (at_call b))) tried"

lemma contained_one_entry:
  "(\<forall>a \<in> set new. bc_manifest (at_call a) = mop) \<Longrightarrow> contained R new"
proof (induction new)
  case (Cons a new)
  then show ?case
    by (auto simp: contained_def untrusted_read_def is_external_read_def is_external_write_def)
qed (simp add: contained_def)

lemma contained_append:
  "contained R (xs @ ys) \<longleftrightarrow> contained R xs \<and> contained R ys
     \<and> (\<forall>a \<in> set xs. \<forall>b \<in> set ys. untrusted_read R a \<longrightarrow> \<not> is_external_write (bc_manifest (at_call b)))"
  by (auto simp: contained_def sorted_wrt_append)

text \<open>A session in which no external write was attempted after an untrusted read, and whose turn still has the
  taint of every untrusted read.\<close>

definition session_wf :: "('e, 'i, 'h, 'k, 'g) BrokerRuntime \<Rightarrow> ('i, 'h, 'k) side \<Rightarrow> bool" where
  "session_wf R s \<longleftrightarrow>
     contained R (s_attempts s) \<and> ((\<exists>a \<in> set (s_attempts s). untrusted_read R a) \<longrightarrow> tainted_turn (s_turn s))"

section \<open>The broker over a sink\<close>

locale broker_tape = audit_sink "rt_hash R" "rt_sink R" wf tape
  for R :: "('e, 'i, 'h, 'k, 'g) BrokerRuntime" and wf :: "'k \<Rightarrow> bool" and tape :: "'k \<Rightarrow> AuditRecord list"
begin

abbreviation genesis :: string where "genesis \<equiv> GENESIS_PREV_HASH (rt_hash R)"

lemma emit_w_appends:
  assumes "wf (s_tape (snd w))" and "valid_emission em"
  shows "\<exists>now k n. emit_w R em w = (Inr (), fst w, (snd w)\<lparr>s_ticks := n, s_tape := k\<rparr>) \<and> wf k
    \<and> tape k = tape (s_tape (snd w)) @ [build_record (rt_hash R) em now
         (int (length (tape (s_tape (snd w))))) (head_hash genesis (tape (s_tape (snd w))))]
    \<and> s_ticks (snd w) < n"
proof -
  let ?now = "rt_wall R (s_ticks (snd w))"
  let ?r = "build_record (rt_hash R) em ?now (int (length (tape (s_tape (snd w))))) (head_hash genesis (tape (s_tape (snd w))))"
  obtain k where "emit (rt_hash R) (rt_sink R) em ?now (s_tape (snd w)) = (Inr ?r, k)" "wf k" "tape k = tape (s_tape (snd w)) @ [?r]"
    using emit_valid [OF assms(1) _ refl, of em ?now] assms(2) by auto
  then show ?thesis
    by (intro exI [of _ ?now] exI [of _ k] exI [of _ "Suc (s_ticks (snd w))"])
       (simp add: emit_w_def wall_w_def bind_w_def tick_w_def ret_w_def bind_r_def)
qed

lemma record_w_appends:
  assumes "wf (s_tape (snd w))" and "valid_emission em"
  shows "\<exists>now di k n. record_w R em w = (Inr (), fst w, (snd w)\<lparr>s_ticks := n, s_tape := k\<rparr>) \<and> wf k
    \<and> tape k = tape (s_tape (snd w)) @ [build_record (rt_hash R) (with_audit_fields di em) now
         (int (length (tape (s_tape (snd w))))) (head_hash genesis (tape (s_tape (snd w))))]
    \<and> s_ticks (snd w) < n"
  using emit_w_appends [OF assms(1), of "with_audit_fields (s_inputs (snd w)) em"] assms(2)
  by (fastforce simp: record_w_def bind_w_def get_w_def)

text \<open>The tape grew, and its last record has a given decision.\<close>

definition grew :: "'k \<Rightarrow> string \<Rightarrow> ('e, 'i, 'h, 'k) world \<Rightarrow> bool" where
  "grew k0 dec w \<longleftrightarrow> (\<exists>recs r. tape (s_tape (snd w)) = tape k0 @ recs @ [r] \<and> au_decision r = dec)"

abbreviation rinv :: "'k \<Rightarrow> attempt list \<Rightarrow> bool \<Rightarrow> ToolOp \<Rightarrow> ('e, 'i, 'h, 'k) world \<Rightarrow> bool" where
  "rinv k0 log0 t0 mop w \<equiv> request_inv R wf tape k0 log0 t0 mop (core (snd w))"

lemma inv_appended:
  assumes "request_inv R wf tape k0 log0 t0 mop (k, turn, tried)" and "wf k'"
    and "tape k' = tape k @ [build_record (rt_hash R) em now (int (length (tape k))) (head_hash genesis (tape k))]"
    and "em_outcome em \<notin> set EXECUTION_OUTCOMES"
  shows "request_inv R wf tape k0 log0 t0 mop (k', turn, tried)"
proof -
  let ?r = "build_record (rt_hash R) em now (int (length (tape k))) (head_hash genesis (tape k))"
  from assms(1) obtain recs new where i: "linked (rt_hash R) 0 genesis (tape k)" "turn \<noteq> None \<and> (t0 \<longrightarrow> tainted_turn turn)"
    "tape k = tape k0 @ recs" "tried = log0 @ new" "executions recs = concat (map (accounted (rt_hash R)) new)"
    "\<forall>a \<in> set new. bc_manifest (at_call a) = mop \<and> (t0 \<longrightarrow> \<not> is_external_write mop)
       \<and> (untrusted_read R a \<longrightarrow> tainted_turn turn)"
    by (auto simp: request_inv_def)
  have "linked (rt_hash R) 0 genesis (tape k')" using i(1) assms(3) by (simp add: linked_append)
  moreover have "tape k' = tape k0 @ (recs @ [?r])" using assms(3) i(3) by simp
  moreover have "executions (recs @ [?r]) = concat (map (accounted (rt_hash R)) new)"
    using i(5) assms(4) by (simp add: executions_def)
  ultimately show ?thesis using assms(2) i unfolding request_inv_def prod.case by blast
qed

lemma record_ok:
  assumes "valid_emission em" and "em_outcome em \<notin> set EXECUTION_OUTCOMES"
  shows "ok (rinv k0 log0 t0 mop) (record_w R em) (\<lambda>_ w. rinv k0 log0 t0 mop w \<and> grew k0 (em_decision em) w) (\<lambda>_. rinv k0 log0 t0 mop)"
proof (rule okI)
  fix w :: "('e, 'i, 'h, 'k) world"
  assume i: "rinv k0 log0 t0 mop w"
  then have "wf (s_tape (snd w))" by (simp add: request_inv_def core_def)
  from record_w_appends [OF this assms(1)] obtain now di k n where
    r: "record_w R em w = (Inr (), fst w, (snd w)\<lparr>s_ticks := n, s_tape := k\<rparr>)" and k: "wf k"
    "tape k = tape (s_tape (snd w)) @ [build_record (rt_hash R) (with_audit_fields di em) now
         (int (length (tape (s_tape (snd w))))) (head_hash genesis (tape (s_tape (snd w))))]" by blast
  from i have i': "request_inv R wf tape k0 log0 t0 mop (s_tape (snd w), s_turn (snd w), s_attempts (snd w))"
    by (simp add: core_def)
  from inv_appended [OF this k] assms(2)
  have "request_inv R wf tape k0 log0 t0 mop (k, s_turn (snd w), s_attempts (snd w))" by simp
  moreover obtain recs where "tape (s_tape (snd w)) = tape k0 @ recs" using i' by (auto simp: request_inv_def)
  ultimately show "case record_w R em w of (Inl e, w1) \<Rightarrow> rinv k0 log0 t0 mop w1
      | (Inr x, w1) \<Rightarrow> rinv k0 log0 t0 mop w1 \<and> grew k0 (em_decision em) w1"
    using k by (auto simp: r core_def grew_def)
qed

subsection \<open>The executor\<close>

definition tried_inv :: "'k \<Rightarrow> attempt list \<Rightarrow> bool \<Rightarrow> ToolOp \<Rightarrow> attempt \<Rightarrow> ('e, 'i, 'h, 'k) world \<Rightarrow> bool" where
  "tried_inv k0 log0 t0 mop a w \<longleftrightarrow>
     (\<exists>k turn tried. core (snd w) = (k, turn, tried @ [a]) \<and> request_inv R wf tape k0 log0 t0 mop (k, turn, tried))"

definition noted_inv :: "'k \<Rightarrow> attempt list \<Rightarrow> bool \<Rightarrow> ToolOp \<Rightarrow> attempt \<Rightarrow> string \<Rightarrow> ('e, 'i, 'h, 'k) world \<Rightarrow> bool" where
  "noted_inv k0 log0 t0 mop a dec w \<longleftrightarrow>
     (\<exists>k k' turn tried r. core (snd w) = (k', turn, tried @ [a]) \<and> request_inv R wf tape k0 log0 t0 mop (k, turn, tried)
        \<and> wf k' \<and> tape k' = tape k @ [r] \<and> linked (rt_hash R) 0 genesis (tape k') \<and> au_decision r = dec
        \<and> executions [r] = accounted (rt_hash R) a)"

lemma attempt_ok:
  "ok (rinv k0 log0 t0 mop) (attempt_w R call eff)
     (\<lambda>r. tried_inv k0 log0 t0 mop \<lparr>at_call = call, at_decision = eff, at_outcome = Inr r\<rparr>)
     (\<lambda>e. tried_inv k0 log0 t0 mop \<lparr>at_call = call, at_decision = eff, at_outcome = Inl e\<rparr>)"
proof (rule okI)
  fix w :: "('e, 'i, 'h, 'k) world"
  assume i: "rinv k0 log0 t0 mop w"
  obtain r w1 where b: "bind_w (write_inheritance_if_declared R call eff) (\<lambda>_. doer_w R call eff) w = (r, w1)"
    using prod.exhaust by blast
  have "quiet (bind_w (write_inheritance_if_declared R call eff) (\<lambda>_. doer_w R call eff))" by (intro quiet_rules)
  then have "core (snd w1) = core (snd w)" using b unfolding quiet_def by (metis snd_conv)
  then have "tried_inv k0 log0 t0 mop \<lparr>at_call = call, at_decision = eff, at_outcome = r\<rparr> (snd (attempt_w R call eff w))"
    using i b by (auto simp: attempt_w_def tried_inv_def core_def)
  then show "case attempt_w R call eff w of
       (Inl e, w1) \<Rightarrow> tried_inv k0 log0 t0 mop \<lparr>at_call = call, at_decision = eff, at_outcome = Inl e\<rparr> w1
     | (Inr r, w1) \<Rightarrow> tried_inv k0 log0 t0 mop \<lparr>at_call = call, at_decision = eff, at_outcome = Inr r\<rparr> w1"
    using b by (cases r) (auto simp: attempt_w_def)
qed

lemma tried_recorded:
  assumes "valid_emission em" and "em_outcome em \<in> set EXECUTION_OUTCOMES"
    and "accounted (rt_hash R) a = [(em_tool em, em_op em, hash_args (rt_hash R) (em_args em), em_outcome em)]"
  shows "ok (tried_inv k0 log0 t0 mop a) (record_w R em) (\<lambda>_. noted_inv k0 log0 t0 mop a (em_decision em)) E"
proof (rule okI)
  fix w :: "('e, 'i, 'h, 'k) world"
  assume "tried_inv k0 log0 t0 mop a w"
  then obtain k turn tried where c: "core (snd w) = (k, turn, tried @ [a])"
    and i: "request_inv R wf tape k0 log0 t0 mop (k, turn, tried)" by (auto simp: tried_inv_def)
  from i c have k: "wf (s_tape (snd w))" "linked (rt_hash R) 0 genesis (tape (s_tape (snd w)))"
    by (auto simp: request_inv_def core_def)
  from record_w_appends [OF this(1) assms(1)] obtain now di k' n where
    r: "record_w R em w = (Inr (), fst w, (snd w)\<lparr>s_ticks := n, s_tape := k'\<rparr>)" and k': "wf k'"
    "tape k' = tape (s_tape (snd w)) @ [build_record (rt_hash R) (with_audit_fields di em) now
         (int (length (tape (s_tape (snd w))))) (head_hash genesis (tape (s_tape (snd w))))]" by blast
  let ?r = "build_record (rt_hash R) (with_audit_fields di em) now
         (int (length (tape (s_tape (snd w))))) (head_hash genesis (tape (s_tape (snd w))))"
  have "executions [?r] = accounted (rt_hash R) a" using assms(2,3) by (simp add: executions_def)
  moreover have "linked (rt_hash R) 0 genesis (tape k')" using k(2) k'(2) by (simp add: linked_append)
  ultimately have "noted_inv k0 log0 t0 mop a (em_decision em) (fst w, (snd w)\<lparr>s_ticks := n, s_tape := k'\<rparr>)"
    using c i k' unfolding noted_inv_def
    by (intro exI [of _ k] exI [of _ k'] exI [of _ turn] exI [of _ tried] exI [of _ ?r]) (auto simp: core_def)
  with r show "case record_w R em w of (Inl e, w1) \<Rightarrow> E e w1 | (Inr x, w1) \<Rightarrow> noted_inv k0 log0 t0 mop a (em_decision em) w1"
    by simp
qed

text \<open>Adding an attempt with its records, once the turn has the taint it brings.\<close>

lemma inv_attempt:
  assumes "request_inv R wf tape k0 log0 t0 mop (k, turn, tried)" and "wf k'" and "tape k' = tape k @ recs"
    and "linked (rt_hash R) 0 genesis (tape k')" and "executions recs = accounted (rt_hash R) a"
    and "bc_manifest (at_call a) = mop" and "t0 \<longrightarrow> \<not> is_external_write mop"
    and "turn \<noteq> None \<Longrightarrow> turn' \<noteq> None" and "tainted_turn turn \<Longrightarrow> tainted_turn turn'"
    and "turn \<noteq> None \<Longrightarrow> untrusted_read R a \<Longrightarrow> tainted_turn turn'"
  shows "request_inv R wf tape k0 log0 t0 mop (k', turn', tried @ [a])"
proof -
  from assms(1) obtain recs0 new where i: "turn \<noteq> None" "t0 \<longrightarrow> tainted_turn turn"
    "tape k = tape k0 @ recs0" "tried = log0 @ new" "executions recs0 = concat (map (accounted (rt_hash R)) new)"
    "\<forall>a \<in> set new. bc_manifest (at_call a) = mop \<and> (t0 \<longrightarrow> \<not> is_external_write mop)
       \<and> (untrusted_read R a \<longrightarrow> tainted_turn turn)"
    by (auto simp: request_inv_def)
  have "tape k' = tape k0 @ (recs0 @ recs)" "tried @ [a] = log0 @ (new @ [a])"
    "executions (recs0 @ recs) = concat (map (accounted (rt_hash R)) (new @ [a]))"
    using i assms(3,5) by simp_all
  moreover have "\<forall>b \<in> set (new @ [a]). bc_manifest (at_call b) = mop \<and> (t0 \<longrightarrow> \<not> is_external_write mop)
       \<and> (untrusted_read R b \<longrightarrow> tainted_turn turn')" using i(1,6) assms(6-10) by auto
  ultimately show ?thesis using assms(2,4,8,9) i(1,2) unfolding request_inv_def prod.case by blast
qed

lemma noted_settles:
  assumes "noted_inv k0 log0 t0 mop a dec w" and "core (snd w') = (s_tape (snd w), turn', s_attempts (snd w))"
    and "bc_manifest (at_call a) = mop" and "t0 \<longrightarrow> \<not> is_external_write mop"
    and "s_turn (snd w) \<noteq> None \<Longrightarrow> turn' \<noteq> None" and "tainted_turn (s_turn (snd w)) \<Longrightarrow> tainted_turn turn'"
    and "s_turn (snd w) \<noteq> None \<Longrightarrow> untrusted_read R a \<Longrightarrow> tainted_turn turn'"
  shows "rinv k0 log0 t0 mop w' \<and> grew k0 dec w'"
proof -
  from assms(1) obtain k k' turn tried r where c: "core (snd w) = (k', turn, tried @ [a])"
    and i: "request_inv R wf tape k0 log0 t0 mop (k, turn, tried)" "wf k'" "tape k' = tape k @ [r]"
      "linked (rt_hash R) 0 genesis (tape k')" "au_decision r = dec" "executions [r] = accounted (rt_hash R) a"
    by (auto simp: noted_inv_def)
  have turn: "s_turn (snd w) = turn" using c by (simp add: core_def)
  have "request_inv R wf tape k0 log0 t0 mop (k', turn', tried @ [a])"
    by (rule inv_attempt [OF i(1,2,3,4,6) assms(3,4) assms(5-7) [unfolded turn]])
  moreover have "core (snd w') = (k', turn', tried @ [a])" using c assms(2) by (simp add: core_def)
  moreover obtain recs where "tape k = tape k0 @ recs" using i(1) by (auto simp: request_inv_def)
  ultimately show ?thesis using i(3,5) by (auto simp: grew_def core_def)
qed

lemma ingest_read_ok:
  assumes "bc_manifest call = mop" and "t0 \<longrightarrow> \<not> is_external_write mop"
  shows "ok (noted_inv k0 log0 t0 mop \<lparr>at_call = call, at_decision = eff, at_outcome = Inr r\<rparr> dec) (ingest_read R call)
    (\<lambda>_ w. rinv k0 log0 t0 mop w \<and> grew k0 dec w) E"
proof (rule okI)
  fix w :: "('e, 'i, 'h, 'k) world"
  let ?a = "\<lparr>at_call = call, at_decision = eff, at_outcome = Inr r\<rparr>"
  let ?src = "connector_source_id (bc_tool call) (bc_op call)"
  assume n: "noted_inv k0 log0 t0 mop ?a dec w"
  show "case ingest_read R call w of (Inl e, w1) \<Rightarrow> E e w1 | (Inr x, w1) \<Rightarrow> rinv k0 log0 t0 mop w1 \<and> grew k0 dec w1"
  proof (cases "is_external_read (bc_manifest call) \<and> ?src \<notin> set (rt_trusted_read_sources R)")
    case True
    let ?turn = "map_option (fold (\<lambda>source. ingest_source source (rt_trust_map R)) [?src]) (s_turn (snd w))"
    have t: "s_turn (snd w) \<noteq> None \<Longrightarrow> untrusted_read R ?a \<Longrightarrow> tainted_turn ?turn"
      by (auto simp: untrusted_read_def tainted_turn_def ingest_source_def mark_tainted_def)
    have "rinv k0 log0 t0 mop (fst w, (snd w)\<lparr>s_turn := ?turn\<rparr>) \<and> grew k0 dec (fst w, (snd w)\<lparr>s_turn := ?turn\<rparr>)"
      by (rule noted_settles [OF n, where turn' = ?turn])
         (use t assms tainted_turn_ingest [of "s_turn (snd w)" "rt_trust_map R" "[?src]"] in \<open>auto simp: core_def\<close>)
    with True show ?thesis by (simp add: ingest_read_def when_w_def ingest_w_def put_w_def)
  next
    case False
    then have "\<not> untrusted_read R ?a" by (auto simp: untrusted_read_def)
    then have "rinv k0 log0 t0 mop w \<and> grew k0 dec w"
      by (intro noted_settles [OF n, where turn' = "s_turn (snd w)"]) (use assms in \<open>auto simp: core_def\<close>)
    with False show ?thesis by (auto simp: ingest_read_def when_w_def ret_w_def)
  qed
qed

lemma quiet_grown:
  "quiet m \<Longrightarrow> keeps (\<lambda>w. rinv k0 log0 t0 mop w \<and> grew k0 dec w) m"
  using quiet_keeps [of m "\<lambda>c. request_inv R wf tape k0 log0 t0 mop c
      \<and> (\<exists>recs r. tape (fst c) = tape k0 @ recs @ [r] \<and> au_decision r = dec)"]
  by (simp add: grew_def core_def)

lemma noted_failure:
  assumes "noted_inv k0 log0 t0 mop \<lparr>at_call = call, at_decision = eff, at_outcome = Inl e\<rparr> dec w"
    and "bc_manifest call = mop" and "t0 \<longrightarrow> \<not> is_external_write mop"
  shows "rinv k0 log0 t0 mop w"
  using noted_settles [OF assms(1), of w "s_turn (snd w)"] assms(2,3)
  by (simp add: core_def untrusted_read_def)

lemma tried_fault:
  assumes "tried_inv k0 log0 t0 mop \<lparr>at_call = call, at_decision = eff, at_outcome = Inl e\<rparr> w"
    and "\<not> is_connector_error e" and "bc_manifest call = mop" and "t0 \<longrightarrow> \<not> is_external_write mop"
  shows "rinv k0 log0 t0 mop w"
proof -
  let ?a = "\<lparr>at_call = call, at_decision = eff, at_outcome = Inl e\<rparr>"
  from assms(1) obtain k turn tried where c: "core (snd w) = (k, turn, tried @ [?a])"
    and i: "request_inv R wf tape k0 log0 t0 mop (k, turn, tried)" by (auto simp: tried_inv_def)
  have "request_inv R wf tape k0 log0 t0 mop (k, turn, tried @ [?a])"
    by (rule inv_attempt [OF i, where recs = "[]"])
       (use i assms(2-4) in \<open>auto simp: request_inv_def accounted_def untrusted_read_def\<close>)
  with c show ?thesis by simp
qed

lemma executor_ok:
  assumes "bc_manifest call = mop" and "t0 \<longrightarrow> \<not> is_external_write mop"
  shows "ok (rinv k0 log0 t0 mop) (executor_w R call eff)
    (\<lambda>_ w. rinv k0 log0 t0 mop w \<and> grew k0 (kind_str (kind eff)) w) (\<lambda>_. rinv k0 log0 t0 mop)"
  unfolding executor_w_def
proof (rule ok_catch [OF attempt_ok])
  fix r
  let ?em = "executed_record R call eff r" and ?a = "\<lparr>at_call = call, at_decision = eff, at_outcome = Inr r\<rparr>"
  have rec: "ok (tried_inv k0 log0 t0 mop ?a) (record_w R ?em)
      (\<lambda>_. noted_inv k0 log0 t0 mop ?a (kind_str (kind eff))) (\<lambda>_. rinv k0 log0 t0 mop)"
    using tried_recorded [of ?em ?a] by (simp add: executed_record_def accounted_def)
  have rest: "quiet (bind_w (meter_egress R call) (\<lambda>_. bind_w (meter_error_budget R call) (\<lambda>_.
      bind_w (count_observation R call) (\<lambda>_. ret_w (if dr_result r = JNull then None else Some (dr_result r))))))"
    by (intro quiet_rules)
  show "ok (tried_inv k0 log0 t0 mop ?a)
     (bind_w (record_w R ?em) (\<lambda>_. bind_w (ingest_read R call) (\<lambda>_. bind_w (meter_egress R call) (\<lambda>_.
        bind_w (meter_error_budget R call) (\<lambda>_. bind_w (count_observation R call) (\<lambda>_.
          ret_w (if dr_result r = JNull then None else Some (dr_result r))))))))
     (\<lambda>_ w. rinv k0 log0 t0 mop w \<and> grew k0 (kind_str (kind eff)) w) (\<lambda>_. rinv k0 log0 t0 mop)"
    by (rule ok_bind [OF rec ok_bind [OF ingest_read_ok [OF assms] ok_conseq [OF quiet_grown [OF rest]]]]) blast+
next
  fix e
  let ?em = "failure_record R call eff e" and ?a = "\<lparr>at_call = call, at_decision = eff, at_outcome = Inl e\<rparr>"
  show "ok (tried_inv k0 log0 t0 mop ?a)
     (if is_connector_error e then bind_w (record_w R ?em) (\<lambda>_. raise_w e) else raise_w e)
     (\<lambda>_ w. rinv k0 log0 t0 mop w \<and> grew k0 (kind_str (kind eff)) w) (\<lambda>_. rinv k0 log0 t0 mop)"
  proof (cases "is_connector_error e")
    case True
    have rec: "ok (tried_inv k0 log0 t0 mop ?a) (record_w R ?em)
        (\<lambda>_. noted_inv k0 log0 t0 mop ?a (kind_str (kind eff))) (\<lambda>_. rinv k0 log0 t0 mop)"
      using tried_recorded [of ?em ?a] True by (simp add: failure_record_def accounted_def)
    have "ok (noted_inv k0 log0 t0 mop ?a (kind_str (kind eff))) (raise_w e)
        (\<lambda>_ w. rinv k0 log0 t0 mop w \<and> grew k0 (kind_str (kind eff)) w) (\<lambda>_. rinv k0 log0 t0 mop)"
      by (rule ok_raise) (rule noted_failure [OF _ assms])
    from ok_bind [OF rec this] True show ?thesis by simp
  next
    case False
    then show ?thesis using ok_raise [OF tried_fault [OF _ False assms]] by simp
  qed
qed

subsection \<open>Enforcement\<close>

lemma rinv_weaken: "rinv k0 log0 t0 mop w \<Longrightarrow> rinv k0 log0 False mop w"
  by (auto simp: request_inv_def split: prod.splits)

lemma gated_executes:
  assumes "executes (fst (gated_decide R call facts w))" and "tainted (bc_taint call)"
  shows "\<not> is_external_write (bc_manifest call)"
proof -
  have "executes (decide (sha256_hex (rt_hash R)) call facts)"
    using assms(1) by (auto simp: gated_decide_def gate_def split: sum.splits if_splits)
  with assms(2) show ?thesis by (auto simp: executes_decide executes_write_policy is_external_write_def)
qed

lemma snd_gated [simp]: "core (snd (snd (gated_decide R call facts w))) = core (snd w)"
  by (simp add: gated_decide_def core_def)

lemma pip_keeps: "rinv k0 log0 t0 mop w \<Longrightarrow> rinv k0 log0 t0 mop (snd (timed_pip R call w))"
  using quiet_pip [of R call] by (cases w) (simp add: quiet_def)

lemma enforce_keeps:
  assumes "rinv k0 log0 (tainted (bc_taint (rq_call rq))) (bc_manifest (rq_call rq)) w"
  shows "rinv k0 log0 (tainted (bc_taint (rq_call rq))) (bc_manifest (rq_call rq))
    (snd (enforce_w (lift_store (rt_store R)) env (broker_actions R) rq w))"
proof (rule lifted.enforce_w_keeps [where Q = "\<lambda>s. request_inv R wf tape k0 log0 (tainted (bc_taint (rq_call rq)))
    (bc_manifest (rq_call rq)) (core s)"], goal_cases)
  case (4 f d v w)
  then have "tainted (bc_taint (rq_call rq)) \<longrightarrow> \<not> is_external_write (bc_manifest (rq_call rq))"
    using gated_executes by (auto simp: broker_actions_def)
  from ok_snd [OF executor_ok [OF refl this] conjunct1 4(2)] show ?case by (simp add: broker_actions_def)
qed (use assms pip_keeps in \<open>auto simp: broker_actions_def\<close>)

lemma kept_core: "kept_by_store (lift_store S) (\<lambda>w. Q (snd w))"
  by (rule lifted.kept_by_store_axioms)

lemma enforce_grew:
  assumes "rinv k0 log0 t0 (bc_manifest (rq_call rq)) w"
    and "enforce_w (lift_store (rt_store R)) env (broker_actions R) rq w = (Inr res, w')"
    and "executes (er_decision res)" and "\<not> idempotent res"
  shows "grew k0 (kind_str (kind (er_decision res))) w'"
proof (rule enforce_w_executed [OF _ _ _ _ assms(2,3,4), where P = "rinv k0 log0 False (bc_manifest (rq_call rq))"
      and P' = "rinv k0 log0 False (bc_manifest (rq_call rq))" and M = "\<lambda>d. grew k0 (kind_str (kind d))"], goal_cases)
  case (3 d)
  show ?case unfolding grew_def by (rule kept_core)
next
  case (5 w f v)
  then show ?case using pip_keeps [of k0 log0 False "bc_manifest (rq_call rq)" w "rq_call rq"] by (simp add: broker_actions_def)
next
  case (7 f d u v w x w')
  then show ?case
    using okD(1) [OF executor_ok [OF refl, of False "rq_call rq" k0 log0 d]] by (simp add: broker_actions_def)
qed (use rinv_weaken [OF assms(1)] in \<open>auto simp: broker_actions_def intro: kept_core\<close>)

lemma enforce_call_ok:
  assumes "t0 = tainted (bc_taint call)" and "mop = bc_manifest call"
  shows "ok (rinv k0 log0 t0 mop) (enforce_call R rq call initial)
    (\<lambda>res w. rinv k0 log0 t0 mop w
       \<and> (executes (er_decision res) \<and> \<not> idempotent res \<longrightarrow> grew k0 (kind_str (kind (er_decision res))) w))
    (\<lambda>_. rinv k0 log0 t0 mop)"
proof -
  let ?rq = "\<lambda>ck draws. \<lparr>rq_call = call, initial_decision = initial, idempotency_key = ag_idempotency_key rq,
    counter_key = ck, counter_delta = 1, counter_cap = rt_counter_cap R, ancestor_draws = draws\<rparr>"
  have run: "ok (rinv k0 log0 t0 mop) (enforce_w (lift_store (rt_store R)) (rt_env R n) (broker_actions R) (?rq ck draws))
      (\<lambda>res w. rinv k0 log0 t0 mop w
         \<and> (executes (er_decision res) \<and> \<not> idempotent res \<longrightarrow> grew k0 (kind_str (kind (er_decision res))) w))
      (\<lambda>_. rinv k0 log0 t0 mop)" for n ck draws
  proof (rule okI, goal_cases)
    case (1 w)
    obtain out w' where o: "enforce_w (lift_store (rt_store R)) (rt_env R n) (broker_actions R) (?rq ck draws) w = (out, w')"
      using prod.exhaust by blast
    have "rinv k0 log0 t0 mop w'"
      using enforce_keeps [of k0 log0 "?rq ck draws" w "rt_env R n"] 1 o assms by simp
    with o enforce_grew [of k0 log0 t0 "?rq ck draws" w "rt_env R n" _ w'] 1 assms show ?case
      by (cases out) auto
  qed
  have q: "keeps (rinv k0 log0 t0 mop) m" if "quiet m" for m :: "(('e, 'i, 'h, 'k) world, 'b) act"
    by (rule quiet_keeps [OF that])
  show ?thesis
    unfolding enforce_call_def
    by (rule ok_bind [OF quiet_keeps [OF quiet_wall(1)]] ok_bind [OF quiet_keeps [OF quiet_basic(3)]]
          ok_bind [OF quiet_keeps [OF quiet_tree]] ok_bind [OF quiet_keeps [OF quiet_basic(5)]] run)+
qed

subsection \<open>Replies\<close>

definition replied :: "'k \<Rightarrow> BrokerResponse \<Rightarrow> ('e, 'i, 'h, 'k) world \<Rightarrow> bool" where
  "replied k0 resp w \<longleftrightarrow>
     br_idempotent resp \<or> br_execution_outcome resp \<noteq> None \<or> grew k0 (kind_str (br_decision_kind resp)) w"

lemma response_simps [simp]:
  "br_decision_kind (response k r) = k" "br_idempotent (response k r) = False"
  "br_execution_outcome (response k r) = None"
  by (simp_all add: response_def)

lemma kind_texts [simp]: "kind_str k_deny = ''deny''" "kind_str k_require_approval = ''require_approval''"
  by (simp_all add: kind_str_def)

text \<open>A record followed by a reply of the same decision.\<close>

lemma record_reply:
  assumes "valid_emission em" and "em_outcome em \<notin> set EXECUTION_OUTCOMES"
    and "em_decision em = kind_str (br_decision_kind resp)"
  shows "ok (rinv k0 log0 t0 mop) (bind_w (record_w R em) (\<lambda>_. ret_w resp))
    (\<lambda>x w. rinv k0 log0 t0 mop w \<and> replied k0 x w) (\<lambda>_. rinv k0 log0 t0 mop)"
  by (rule ok_bind [OF record_ok [OF assms(1,2)] ok_ret]) (simp add: replied_def assms(3))

lemma hold_call_ok:
  "ok (rinv k0 log0 t0 mop) (hold_call R call rendered reason)
     (\<lambda>x w. rinv k0 log0 t0 mop w \<and> replied k0 x w) (\<lambda>_. rinv k0 log0 t0 mop)"
proof -
  let ?Q = "\<lambda>x w. rinv k0 log0 t0 mop w \<and> replied k0 x w"
  let ?d = "dedup_id_of R call"
  let ?iid = "case ?d of Some d \<Rightarrow> d | None \<Rightarrow> intent_id rendered"
  let ?h = "\<lambda>e. if exn_class e = ''QuarantinedIntentError''
             then bind_w (surface_quarantined_intent R ?iid (exn_str e) ''hold'') (\<lambda>_.
                    ret_w (response k_deny (Some (''intent quarantined: '' @ exn_str e))))
             else if exn_class e = ''IntentAlreadyPendingError'' then deny_intent_id_collision R call ?iid
             else raise_w e"
  have h: "ok (rinv k0 log0 t0 mop) (?h e) ?Q (\<lambda>_. rinv k0 log0 t0 mop)" for e
    unfolding surface_quarantined_intent_def quarantine_record_def deny_intent_id_collision_def Let_def
    by (auto intro!: record_reply ok_raise)
  have f: "ok (rinv k0 log0 t0 mop) (bind_w (flood_check R call (ar_status ap = ''coalesced'')) (\<lambda>_.
      bind_w (record_w R (held_record R call reason ap)) (\<lambda>_.
        ret_w ((response k_require_approval None)\<lparr>br_intent_id := Some (ar_intent_id ap)\<rparr>)))) ?Q
      (\<lambda>_. rinv k0 log0 t0 mop)" for ap
    by (rule ok_bind [OF quiet_keeps [OF quiet_flood] record_reply]) (simp_all add: held_record_def Let_def)
  show ?thesis
    unfolding hold_call_def Let_def by (rule ok_catch [OF quiet_keeps [OF quiet_materialize] f h])
qed

lemma respond_ok:
  "ok (\<lambda>w. rinv k0 log0 t0 mop w
        \<and> (executes (er_decision res) \<and> \<not> idempotent res \<longrightarrow> grew k0 (kind_str (kind (er_decision res))) w))
     (respond R call res) (\<lambda>x w. rinv k0 log0 t0 mop w \<and> replied k0 x w) (\<lambda>_. rinv k0 log0 t0 mop)"
proof -
  have refuse: "ok (rinv k0 log0 t0 mop) (refuse_call R call eff)
      (\<lambda>x w. rinv k0 log0 t0 mop w \<and> replied k0 x w) (\<lambda>_. rinv k0 log0 t0 mop)" for eff
    unfolding refuse_call_def Let_def by (rule record_reply) (simp_all add: refusal_record_def)
  show ?thesis
  proof (cases "idempotent res \<or> executes (er_decision res)")
    case True
    then show ?thesis by (auto simp: respond_def Let_def replied_def intro!: ok_ret)
  next
    case False
    then have "respond R call res = (case er_decision res of
        RequireApproval rendered reason \<Rightarrow> hold_call R call rendered reason | _ \<Rightarrow> refuse_call R call (er_decision res))"
      by (simp add: respond_def Let_def)
    moreover have "ok (rinv k0 log0 t0 mop) \<dots> (\<lambda>x w. rinv k0 log0 t0 mop w \<and> replied k0 x w) (\<lambda>_. rinv k0 log0 t0 mop)"
      by (auto intro: refuse hold_call_ok split: Decision.split)
    ultimately show ?thesis by (auto elim: ok_conseq)
  qed
qed

lemma decide_and_enforce_ok:
  assumes "t0 = tainted (bc_taint call)" and "mop = bc_manifest call"
  shows "ok (rinv k0 log0 t0 mop) (decide_and_enforce R rq call)
    (\<lambda>x w. rinv k0 log0 t0 mop w \<and> replied k0 x w) (\<lambda>_. rinv k0 log0 t0 mop)"
proof -
  let ?Q = "\<lambda>x w. rinv k0 log0 t0 mop w \<and> replied k0 x w"
  have surf: "keeps (rinv k0 log0 t0 mop) (surface_quarantined_grant R call facts)" for facts
  proof (cases "quarantined facts")
    case True
    then show ?thesis
      unfolding surface_quarantined_grant_def when_w_def
      by (auto intro!: ok_conseq [OF record_ok] simp: quarantined_grant_record_def)
  qed (simp add: surface_quarantined_grant_def when_w_def ok_ret)
  have err: "ok (rinv k0 log0 t0 mop)
      (if is_connector_error e
       then ret_w ((response k_deny (Some ''connector execution failed''))\<lparr>br_execution_outcome := Some (failure_outcome e)\<rparr>)
       else raise_w e) ?Q (\<lambda>_. rinv k0 log0 t0 mop)" for e
    by (auto intro!: ok_ret ok_raise simp: replied_def)
  show ?thesis
    unfolding decide_and_enforce_def
    by (rule ok_bind [OF quiet_keeps [OF quiet_pip]] ok_bind [OF surf] ok_bind [OF quiet_keeps [OF quiet_gated]]
          ok_catch [OF enforce_call_ok [OF assms] respond_ok err])+
qed

subsection \<open>A whole request\<close>

definition begun :: "'k \<Rightarrow> attempt list \<Rightarrow> bool \<Rightarrow> ('e, 'i, 'h, 'k) world \<Rightarrow> bool" where
  "begun k0 log0 t0 w \<longleftrightarrow>
     wf k0 \<and> linked (rt_hash R) 0 genesis (tape k0) \<and> s_tape (snd w) = k0 \<and> s_attempts (snd w) = log0
     \<and> (t0 \<longrightarrow> tainted_turn (s_turn (snd w)))"

abbreviation effect_of :: "'k \<Rightarrow> attempt list \<Rightarrow> bool \<Rightarrow> ('e, 'i, 'h, 'k) world \<Rightarrow> bool" where
  "effect_of k0 log0 t0 w \<equiv> request_effect R wf tape k0 log0 t0 (core (snd w))"

lemma begun_effect: "begun k0 log0 t0 w \<Longrightarrow> effect_of k0 log0 t0 w"
  by (auto simp: begun_def request_effect_def core_def)

lemma begun_rinv:
  "begun k0 log0 t0 w \<Longrightarrow> s_turn (snd w) = Some turn \<Longrightarrow> t1 = tc_tainted turn \<Longrightarrow> rinv k0 log0 t1 mop w"
  by (auto simp: begun_def request_inv_def core_def tainted_turn_def)

lemma begun_quiet: "quiet m \<Longrightarrow> keeps (begun k0 log0 t0) m"
  using quiet_keeps [of m "\<lambda>(k, turn, tried). wf k0 \<and> linked (rt_hash R) 0 genesis (tape k0) \<and> k = k0 \<and> tried = log0
      \<and> (t0 \<longrightarrow> tainted_turn turn)"]
  by (simp add: begun_def [abs_def] core_def)

lemma ok_get: "ok P (get_w f) (\<lambda>x w. P w \<and> x = f (snd w)) E"
  by (simp add: ok_def get_w_def)

lemma session_turn_ok:
  "ok (begun k0 log0 t0) (session_turn R) (\<lambda>turn w. begun k0 log0 t0 w \<and> s_turn (snd w) = Some turn) (\<lambda>_. begun k0 log0 t0)"
  unfolding session_turn_def
proof (rule ok_bind [OF ok_get])
  fix current :: "TurnContext option"
  let ?mint = "\<lambda>n. let turn = turn_init (''turn:'' @ rt_uuid R n) in
      case rt_inheritance R of None \<Rightarrow> ret_w turn
      | Some I \<Rightarrow> bind_w (clock_w R) (\<lambda>now. bind_w (get_w s_inherit) (\<lambda>st.
          ret_w (ingest_inherited I st (rt_principal R) now (rt_clock_skew R) turn)))"
  have mint: "keeps (begun k0 log0 False) (?mint n)" for n
    by (rule begun_quiet) (auto intro!: quiet_rules simp: Let_def split: option.split)
  have put: "ok (begun k0 log0 False) (bind_w (put_w (\<lambda>s. s\<lparr>s_turn := Some turn\<rparr>)) (\<lambda>_. ret_w turn))
      (\<lambda>turn w. begun k0 log0 False w \<and> s_turn (snd w) = Some turn) (\<lambda>_. begun k0 log0 False)" for turn
    by (auto simp: ok_def bind_w_def put_w_def ret_w_def begun_def)
  have new: "ok (begun k0 log0 False) (bind_w tick_w (\<lambda>n. bind_w (?mint n) (\<lambda>turn.
      bind_w (put_w (\<lambda>s. s\<lparr>s_turn := Some turn\<rparr>)) (\<lambda>_. ret_w turn))))
      (\<lambda>turn w. begun k0 log0 False w \<and> s_turn (snd w) = Some turn) (\<lambda>_. begun k0 log0 False)"
    by (rule ok_bind [OF begun_quiet [OF quiet_basic(5)] ok_bind [OF mint put]])
  show "ok (\<lambda>w. begun k0 log0 t0 w \<and> current = s_turn (snd w))
     (case current of None \<Rightarrow> bind_w tick_w (\<lambda>n. bind_w (?mint n) (\<lambda>turn.
        bind_w (put_w (\<lambda>s. s\<lparr>s_turn := Some turn\<rparr>)) (\<lambda>_. ret_w turn))) | Some turn \<Rightarrow> ret_w turn)
     (\<lambda>turn w. begun k0 log0 t0 w \<and> s_turn (snd w) = Some turn) (\<lambda>_. begun k0 log0 t0)"
  proof (cases current)
    case (Some turn)
    then show ?thesis by (auto intro!: ok_ret)
  next
    case None
    show ?thesis
    proof (cases t0)
      case True
      with None show ?thesis by (auto simp: ok_def begun_def tainted_turn_def)
    next
      case False
      then have "t0 = False" by simp
      show ?thesis unfolding None \<open>t0 = False\<close> option.case by (rule ok_conseq [OF new]) auto
    qed
  qed
qed

lemma ingest_ok: "keeps (begun k0 log0 t0) (ingest_w R srcs)"
  unfolding ok_def ingest_w_def put_w_def begun_def using tainted_turn_ingest by auto

lemma inputs_quiet: "quiet (put_w (\<lambda>s. s\<lparr>s_inputs := di\<rparr>))"
  by (rule quiet_put) (simp add: core_def)

lemma begun_turn_keeps:
  "quiet m \<Longrightarrow> keeps (\<lambda>w. begun k0 log0 t0 w \<and> s_turn (snd w) = Some turn) m"
  using quiet_keeps [of m "\<lambda>(k, tn, tried). wf k0 \<and> linked (rt_hash R) 0 genesis (tape k0) \<and> k = k0 \<and> tried = log0
      \<and> (t0 \<longrightarrow> tainted_turn tn) \<and> tn = Some turn"]
  by (simp add: begun_def [abs_def] core_def conj_ac)

text \<open>From the state in which a call is materialized, an action on one entry.\<close>

lemma from_turn:
  assumes "ok (rinv k0 log0 (tc_tainted turn) mop) m (\<lambda>x w. rinv k0 log0 (tc_tainted turn) mop w \<and> Q x w)
      (\<lambda>_. rinv k0 log0 (tc_tainted turn) mop)"
  shows "ok (\<lambda>w. begun k0 log0 t0 w \<and> s_turn (snd w) = Some turn) m
    (\<lambda>x w. effect_of k0 log0 t0 w \<and> Q x w) (\<lambda>_. effect_of k0 log0 t0)"
proof (cases "t0 \<longrightarrow> tc_tainted turn")
  case True
  show ?thesis
    by (rule ok_conseq [OF assms]) (use True in \<open>auto intro: begun_rinv request_inv_effect\<close>)
next
  case False
  then show ?thesis by (auto simp: ok_def begun_def tainted_turn_def)
qed

abbreviation malformed :: BrokerResponse where
  "malformed \<equiv> response k_deny (Some ''invalid confidence artifact'')"

lemma early_refusal:
  "ok (\<lambda>w. begun k0 log0 t0 w \<and> s_turn (snd w) = Some turn)
     (bind_w (record_w R (emission_of R tool op args ''deny'' ''denied'' reason)) (\<lambda>_. ret_w (response k_deny reason)))
     (\<lambda>x w. effect_of k0 log0 t0 w \<and> replied k0 x w) (\<lambda>_. effect_of k0 log0 t0)"
  by (rule from_turn [where mop = undefined], rule record_reply) simp_all

lemma decided_ok:
  assumes "call = materialized_call R rq turn mop ts artifact"
  shows "ok (\<lambda>w. begun k0 log0 t0 w \<and> s_turn (snd w) = Some turn) (decide_and_enforce R rq call)
     (\<lambda>x w. effect_of k0 log0 t0 w \<and> replied k0 x w) (\<lambda>_. effect_of k0 log0 t0)"
  by (rule from_turn [where mop = mop], rule decide_and_enforce_ok)
     (simp_all add: assms materialized_call_def to_taint_def)

lemma pipeline_ok:
  "ok (begun k0 log0 t0) (pipeline R rq srcs)
     (\<lambda>x w. effect_of k0 log0 t0 w \<and> (x \<noteq> malformed \<longrightarrow> replied k0 x w)) (\<lambda>_. effect_of k0 log0 t0)"
proof -
  let ?Q = "\<lambda>x w. effect_of k0 log0 t0 w \<and> (x \<noteq> malformed \<longrightarrow> replied k0 x w)"
  let ?E = "\<lambda>_ :: exn. effect_of k0 log0 t0"
  let ?B = "begun k0 log0 t0"
  have weak: "ok P m (\<lambda>x w. effect_of k0 log0 t0 w \<and> replied k0 x w) ?E \<Longrightarrow> ok P m ?Q ?E" for P m
    by (erule ok_conseq) auto
  have e: "ok P m S (\<lambda>_. ?B) \<Longrightarrow> ok P m S ?E" for P S and m :: "(('e, 'i, 'h, 'k) world, 'b) act"
    by (erule ok_conseq) (auto intro: begun_effect)
  have turn: "ok ?B (session_turn R) (\<lambda>turn w. ?B w \<and> s_turn (snd w) = Some turn) ?E"
    by (rule e [OF session_turn_ok])
  have stamp: "ok (\<lambda>w. ?B w \<and> s_turn (snd w) = Some turn) (stamp_call_ts R) (\<lambda>_ w. ?B w \<and> s_turn (snd w) = Some turn) ?E" for turn
    by (rule ok_conseq [OF begun_turn_keeps [OF quiet_stamp]]) (auto intro: begun_effect)
  have turn': "ok ?B (session_turn R) (\<lambda>_. ?B) ?E" by (rule ok_conseq [OF turn]) auto
  have body: "ok (\<lambda>w. ?B w \<and> s_turn (snd w) = Some turn)
       (case table_entry (rt_optable R) (ag_tool rq) (ag_op rq) of
          None \<Rightarrow> let reason = ''no manifest entry for '' @ ag_tool rq @ ''.'' @ ag_op rq in
            bind_w (record_w R (emission_of R (ag_tool rq) (ag_op rq) (ag_args rq) ''deny'' ''denied'' (Some reason)))
              (\<lambda>_. ret_w (response k_deny (Some reason)))
        | Some mop \<Rightarrow> case check_confidence R rq of None \<Rightarrow> ret_w malformed
            | Some artifact \<Rightarrow> bind_w (stamp_call_ts R) (\<lambda>ts.
                decide_and_enforce R rq (materialized_call R rq turn mop ts artifact))) ?Q ?E" for turn
  proof (cases "table_entry (rt_optable R) (ag_tool rq) (ag_op rq)")
    case None
    show ?thesis unfolding None option.case Let_def by (rule weak [OF early_refusal])
  next
    case mop: (Some mop)
    show ?thesis
    proof (cases "check_confidence R rq")
      case None
      then show ?thesis unfolding mop option.case None by (auto intro!: ok_ret begun_effect)
    next
      case (Some artifact)
      show ?thesis
        unfolding mop option.case Some by (rule ok_bind [OF stamp weak [OF decided_ok [OF refl]]])
    qed
  qed
  show ?thesis
    unfolding pipeline_def
    by (rule ok_bind [OF turn' ok_bind [OF e [OF begun_quiet [OF inputs_quiet]] ok_bind [OF e [OF ingest_ok] ok_bind [OF turn body]]]])
qed

lemma handle_request_ok:
  "ok (begun k0 log0 t0) (handle_request R rq srcs)
     (\<lambda>x w. effect_of k0 log0 t0 w \<and> (x \<noteq> malformed \<longrightarrow> replied k0 x w)) (\<lambda>_. effect_of k0 log0 t0)"
proof (cases "ag_tool rq = HARNESS_TOOL")
  case True
  let ?E = "\<lambda>_ :: exn. effect_of k0 log0 t0"
  let ?T = "\<lambda>turn w. begun k0 log0 t0 w \<and> s_turn (snd w) = Some turn"
  have turn: "ok (begun k0 log0 t0) (session_turn R) (\<lambda>_ w. \<exists>turn. ?T turn w) ?E"
    by (rule ok_conseq [OF session_turn_ok]) (auto intro: begun_effect)
  have ingest: "ok (\<lambda>w. \<exists>turn. ?T turn w) (ingest_w R srcs) (\<lambda>_ w. \<exists>turn. ?T turn w) ?E"
    unfolding ok_def ingest_w_def put_w_def begun_def using tainted_turn_ingest by fastforce
  have inputs: "ok (\<lambda>w. \<exists>turn. ?T turn w) (put_w (\<lambda>s. s\<lparr>s_inputs := di\<rparr>)) (\<lambda>_ w. \<exists>turn. ?T turn w) ?E" for di
    by (auto simp: ok_def put_w_def begun_def)
  have rec: "ok (\<lambda>w. \<exists>turn. ?T turn w)
     (bind_w (record_w R (emission_of R tool op args ''deny'' ''denied'' reason)) (\<lambda>_. ret_w (response k_deny reason)))
     (\<lambda>x w. effect_of k0 log0 t0 w \<and> (x \<noteq> malformed \<longrightarrow> replied k0 x w)) ?E" for tool op args reason
    using early_refusal [of k0 log0 t0] unfolding ok_def by (fastforce split: prod.splits sum.splits)
  show ?thesis
    unfolding handle_request_def if_P [OF True]
    by (rule ok_bind [OF turn ok_bind [OF ingest ok_bind [OF inputs rec]]])
next
  case False
  show ?thesis unfolding handle_request_def if_not_P [OF False] by (rule pipeline_ok)
qed

lemma request_begins: "wf (s_tape (snd w)) \<Longrightarrow> linked (rt_hash R) 0 genesis (tape (s_tape (snd w))) \<Longrightarrow>
    begun (s_tape (snd w)) (s_attempts (snd w)) (tainted_turn (s_turn (snd w))) w"
  by (simp add: begun_def)

lemma handle_request_effect:
  assumes "wf (s_tape (snd w))" and "linked (rt_hash R) 0 genesis (tape (s_tape (snd w)))"
  shows "effect_of (s_tape (snd w)) (s_attempts (snd w)) (tainted_turn (s_turn (snd w))) (snd (handle_request R rq srcs w))"
  by (rule ok_snd [OF handle_request_ok conjunct1 request_begins [OF assms]])

text \<open>The state of a session that started with tape \<open>k0\<close> and attempts \<open>log0\<close>.\<close>

definition session_inv :: "'k \<Rightarrow> attempt list \<Rightarrow> ('e, 'i, 'h, 'k) world \<Rightarrow> bool" where
  "session_inv k0 log0 w \<longleftrightarrow>
     wf (s_tape (snd w)) \<and> linked (rt_hash R) 0 genesis (tape (s_tape (snd w)))
     \<and> (\<exists>recs new. tape (s_tape (snd w)) = tape k0 @ recs \<and> s_attempts (snd w) = log0 @ new
          \<and> executions recs = concat (map (accounted (rt_hash R)) new))"

lemma session_step:
  assumes "session_inv k0 log0 w"
  shows "session_inv k0 log0 (snd (handle_request R rq srcs w))
    \<and> (session_wf R (snd w) \<longrightarrow> session_wf R (snd (snd (handle_request R rq srcs w))))"
proof -
  let ?w = "snd (handle_request R rq srcs w)"
  from assms obtain recs new where w: "wf (s_tape (snd w))" "linked (rt_hash R) 0 genesis (tape (s_tape (snd w)))"
    "tape (s_tape (snd w)) = tape k0 @ recs" "s_attempts (snd w) = log0 @ new"
    "executions recs = concat (map (accounted (rt_hash R)) new)"
    unfolding session_inv_def by blast
  from handle_request_effect [OF w(1,2), of rq srcs] obtain recs' new' mop where
    e: "wf (s_tape (snd ?w))" "linked (rt_hash R) 0 genesis (tape (s_tape (snd ?w)))"
      "tainted_turn (s_turn (snd w)) \<longrightarrow> tainted_turn (s_turn (snd ?w))"
      "tape (s_tape (snd ?w)) = tape (s_tape (snd w)) @ recs'" "s_attempts (snd ?w) = s_attempts (snd w) @ new'"
      "executions recs' = concat (map (accounted (rt_hash R)) new')"
      "\<forall>a \<in> set new'. bc_manifest (at_call a) = mop \<and> (tainted_turn (s_turn (snd w)) \<longrightarrow> \<not> is_external_write mop)
         \<and> (untrusted_read R a \<longrightarrow> tainted_turn (s_turn (snd ?w)))"
    unfolding request_effect_def core_def prod.case by blast
  have "contained R new'" using e(7) contained_one_entry by blast
  then have "session_wf R (snd w) \<longrightarrow> session_wf R (snd ?w)"
    using e(3,5,7) by (auto simp: session_wf_def contained_append)
  moreover have "tape (s_tape (snd ?w)) = tape k0 @ (recs @ recs')" "s_attempts (snd ?w) = log0 @ (new @ new')"
    "executions (recs @ recs') = concat (map (accounted (rt_hash R)) (new @ new'))"
    using w e by simp_all
  ultimately show ?thesis using e(1,2) unfolding session_inv_def by blast
qed

lemma session_serve:
  "session_inv k0 log0 w \<Longrightarrow>
     session_inv k0 log0 (serve R rqs w) \<and> (session_wf R (snd w) \<longrightarrow> session_wf R (snd (serve R rqs w)))"
proof (induction rqs arbitrary: w)
  case (Cons x rqs)
  obtain rq srcs where "x = (rq, srcs)" by fastforce
  with Cons.IH [of "snd (handle_request R rq srcs w)"] session_step [OF Cons.prems, of rq srcs] show ?case by simp
qed simp

lemma session_starts:
  "wf (s_tape (snd w)) \<Longrightarrow> linked (rt_hash R) 0 genesis (tape (s_tape (snd w))) \<Longrightarrow>
     session_inv (s_tape (snd w)) (s_attempts (snd w)) w"
  by (simp add: session_inv_def)

lemma reply_recorded:
  assumes "wf (s_tape (snd w))" and "linked (rt_hash R) 0 genesis (tape (s_tape (snd w)))"
    and "handle_request R rq srcs w = (Inr resp, w')" and "\<not> br_idempotent resp"
    and "br_execution_outcome resp = None" and "resp \<noteq> malformed"
  shows "\<exists>recs r. tape (s_tape (snd w')) = tape (s_tape (snd w)) @ recs @ [r]
    \<and> au_decision r = kind_str (br_decision_kind resp)"
  using okD(1) [OF handle_request_ok request_begins [OF assms(1,2)] assms(3)] assms(4-6)
  by (simp add: replied_def grew_def)

end

interpretation memory_tape: broker_tape "R\<lparr>rt_sink := sinkmem_ops (rt_hash R)\<rparr>" "\<lambda>_. True" id
  for R :: "('e, 'i, 'h, InMemorySink, 'g) BrokerRuntime"
proof -
  show "broker_tape (R\<lparr>rt_sink := sinkmem_ops (rt_hash R)\<rparr>) (\<lambda>_. True) id"
    unfolding broker_tape_def using sinkmem.audit_sink_axioms by simp
qed

section \<open>A small deployment\<close>

definition sample_fetch :: ToolOp where
  "sample_fetch =
     \<lparr>op_tool = ''web'', op_op = ''get'', effect = read_effect, external = True, reversible = None,
      egress_arg = Some ''q'', destination_arg = None, causes_context = None\<rparr>"

definition sample_connector :: connector where
  "sample_connector = \<lparr>uses_credential = False, conn_execute = (\<lambda>tool op args cred. Inr (JStr ''ok''))\<rparr>"

definition sample_doer :: Doer where
  "sample_doer =
     \<lparr>connectors = [(''web'', sample_connector), (''notes'', sample_connector), (''email'', sample_connector)],
      secret_name_for = id, resolve = (\<lambda>_ _. Inr (StrCredential [])), strategy_name = (\<lambda>_. ''StaticSecret'')\<rparr>"

text \<open>A store without keys or caps is enough to run the pipeline on.\<close>

definition open_store :: "unit EnforcementStore" where
  "open_store =
     \<lparr>get_idempotency = (\<lambda>_ _. None), put_idempotency_if_absent = (\<lambda>_ s. (True, s)),
      complete_idempotency = (\<lambda>_ _ _ s. (True, s)), fail_idempotency = (\<lambda>_ _ s. (True, s)), delete_idempotency = (\<lambda>_ s. s),
      try_increment_counter = (\<lambda>_ _ _ s. (True, s)), read_counter = (\<lambda>_ _. 0), write_ledger = (\<lambda>_ s. s),
      commit_ledger = (\<lambda>_ _. Inr), compensate_ledger = (\<lambda>_ _. Inr), escalate_ledger = (\<lambda>_ _. Inr),
      get_uncommitted_entries = (\<lambda>_. [])\<rparr>"

type_synonym sample_world = "(unit, intent_frozen InMemoryIntentStore, InMemoryInheritanceStore, InMemorySink) world"

definition sample_runtime ::
  "(unit, intent_frozen InMemoryIntentStore, InMemoryInheritanceStore, InMemorySink, InMemorySubGrantStore) BrokerRuntime" where
  "sample_runtime =
     \<lparr>rt_principal = sample_principal, rt_optable = [sample_fetch, sample_note, sample_send],
      rt_doer = (\<lambda>_. sample_doer), rt_admission = (\<lambda>_. []),
      rt_pip = (\<lambda>_ _ _. (Inr (sample_facts on_loop), [])), rt_store = open_store, rt_intent_store = intmem_ops plain_codec,
      rt_sink = sinkmem_ops sample_hash_env, rt_inheritance = None,
      rt_sub_grants = None, rt_trust_map = (\<lambda>_. False), rt_envelope_hash = ''env'', rt_counter_cap = 10,
      rt_trusted_read_sources = [], rt_approval_queue = None, rt_confidence_knob = None, rt_counter_period = UTC_DAY,
      rt_clock_skew = 0, rt_input_ages = \<lparr>startup = [], max_age = [], lowering = []\<rparr>,
      rt_clock = (\<lambda>n. Inr 0), rt_wall = (\<lambda>n. 0), rt_uuid = (\<lambda>n. ''u''),
      rt_hash = sample_hash_env, rt_env = (\<lambda>n. sample_env ''e''),
      rt_validate = (\<lambda>_. None), rt_call_json = (\<lambda>_. JNull)\<rparr>"

definition sample_world :: sample_world where
  "sample_world =
     ((), \<lparr>s_intents = [], s_inherit = [], s_tape = [], s_turn = None, s_last_ts = None,
           s_inputs = decision_inputs \<lparr>startup = [], max_age = [], lowering = []\<rparr>, s_alarm = alarm_init,
           s_ticks = 0, s_attempts = [], s_deliveries = [], s_signals = [], s_swept = []\<rparr>)"

definition sample_request :: "ToolOp \<Rightarrow> AgentRequest" where
  "sample_request mop =
     \<lparr>ag_tool = op_tool mop, ag_op = op_op mop, ag_args = JObj [(''q'', JStr ''x'')], ag_confidence = None,
      ag_idempotency_key = None\<rparr>"

definition sample_requests :: "(AgentRequest \<times> string list) list" where
  "sample_requests = [(sample_request sample_fetch, []), (sample_request sample_send, []), (sample_request sample_note, [])]"

lemma sample_sink: "audit_sink (rt_hash sample_runtime) (rt_sink sample_runtime) (\<lambda>_. True) id"
  using sinkmem.audit_sink_axioms [of sample_hash_env] by (simp add: sample_runtime_def)

lemma sample_world_tape [simp]: "s_tape (snd sample_world) = []"
  by (simp add: sample_world_def)

section \<open>Results\<close>

text \<open>C17: once a session has read from an untrusted source, it never again reaches a connector with an external
  write. In whatever order requests are served, with whatever clocks, facts, grants, budgets and
  idempotency keys, an attempt that follows a successful untrusted external read in the same session is
  not an external write, whether allowed or transformed.\<close>

theorem untrusted_read_confines_session:
  assumes "audit_sink (rt_hash R) (rt_sink R) good tape" and "good (s_tape (snd w))"
    and "linked (rt_hash R) 0 (GENESIS_PREV_HASH (rt_hash R)) (tape (s_tape (snd w)))"
    and "session_wf R (snd w)"
    and "tried = s_attempts (snd (serve R rqs w))"
  shows "\<forall>i j. i < j \<and> j < length tried \<and> untrusted_read R (tried ! i)
    \<longrightarrow> \<not> is_external_write (bc_manifest (at_call (tried ! j)))"
proof -
  note b = broker_tape.intro [OF assms(1)]
  have "session_wf R (snd (serve R rqs w))"
    using broker_tape.session_serve [OF b broker_tape.session_starts [OF b assms(2,3)]] assms(4) by blast
  then show ?thesis
    by (auto simp: assms(5) session_wf_def contained_def sorted_wrt_iff_nth_less)
qed

theorem untrusted_read_confines_session_witness:
  "let tried = s_attempts (snd (serve sample_runtime sample_requests sample_world))
   in \<forall>i j. i < j \<and> j < length tried \<and> untrusted_read sample_runtime (tried ! i)
        \<longrightarrow> \<not> is_external_write (bc_manifest (at_call (tried ! j)))"
  unfolding Let_def
  by (rule untrusted_read_confines_session [OF sample_sink _ _ _ refl])
     (simp_all add: session_wf_def contained_def sample_world_def)

text \<open>C21: the tape tells of every run of the connector, once, in order, and of nothing else. Over any session the
  tape only grows and stays a chain, and the records it gained with outcome executed, failed or refused
  are exactly the attempts made, with their tool, operation, argument digest and outcome.\<close>

theorem tape_accounts_for_executions:
  assumes "audit_sink (rt_hash R) (rt_sink R) good tape" and "good (s_tape (snd w))"
    and "linked (rt_hash R) 0 (GENESIS_PREV_HASH (rt_hash R)) (tape (s_tape (snd w)))"
  shows "\<exists>recs new. tape (s_tape (snd (serve R rqs w))) = tape (s_tape (snd w)) @ recs
    \<and> s_attempts (snd (serve R rqs w)) = s_attempts (snd w) @ new
    \<and> executions recs = concat (map (accounted (rt_hash R)) new)
    \<and> linked (rt_hash R) 0 (GENESIS_PREV_HASH (rt_hash R)) (tape (s_tape (snd (serve R rqs w))))"
proof -
  note b = broker_tape.intro [OF assms(1)]
  from broker_tape.session_serve [OF b broker_tape.session_starts [OF b assms(2,3)], of rqs] show ?thesis
    unfolding broker_tape.session_inv_def [OF b] by blast
qed

theorem tape_accounts_for_executions_witness:
  "\<exists>recs new. s_tape (snd (serve sample_runtime sample_requests sample_world)) = recs
    \<and> s_attempts (snd (serve sample_runtime sample_requests sample_world)) = new
    \<and> executions recs = concat (map (accounted (rt_hash sample_runtime)) new)"
  using tape_accounts_for_executions [OF sample_sink, of sample_world sample_requests]
  by (simp add: sample_world_def)

text \<open>C22: every reply is recorded. A request that is answered, other than by a replay, by a failed execution
  (which has its own record) or by the refusal of a malformed confidence artifact, appends at least one
  record to the tape, and the last one states the decision the agent was told.\<close>

theorem reply_is_recorded:
  assumes "audit_sink (rt_hash R) (rt_sink R) good tape" and "good (s_tape (snd w))"
    and "linked (rt_hash R) 0 (GENESIS_PREV_HASH (rt_hash R)) (tape (s_tape (snd w)))"
    and "handle_request R rq srcs w = (Inr resp, w')" and "\<not> br_idempotent resp"
    and "br_execution_outcome resp = None" and "resp \<noteq> response k_deny (Some ''invalid confidence artifact'')"
  shows "\<exists>recs r. tape (s_tape (snd w')) = tape (s_tape (snd w)) @ recs @ [r]
    \<and> au_decision r = kind_str (br_decision_kind resp)"
  by (rule broker_tape.reply_recorded [OF broker_tape.intro [OF assms(1)] assms(2-7)])

definition sample_unknown :: AgentRequest where
  "sample_unknown = (sample_request sample_note)\<lparr>ag_op := ''erase''\<rparr>"

lemma sample_unknown_reply:
  "fst (handle_request sample_runtime sample_unknown [] sample_world)
     = Inr (response k_deny (Some ''no manifest entry for notes.erase''))"
proof -
  have t: "ag_tool sample_unknown \<noteq> HARNESS_TOOL"
    "table_entry (rt_optable sample_runtime) (ag_tool sample_unknown) (ag_op sample_unknown) = None"
    "ag_tool sample_unknown @ ''.'' @ ag_op sample_unknown = ''notes.erase''"
    by code_simp+
  have "rt_inheritance sample_runtime = None" "rt_sink sample_runtime = sinkmem_ops (rt_hash sample_runtime)"
    by (simp_all add: sample_runtime_def)
  with t show ?thesis
    by (simp add: handle_request_def pipeline_def session_turn_def action_defs ingest_w_def record_w_def emit_w_def
        wall_w_def emit_def sinkmem_ops_def sinkmem_append_def mk_audit_record_def guard_r_def bind_r_def
        sample_world_def Let_def)
qed

theorem reply_is_recorded_witness:
  "\<exists>recs r. s_tape (snd (snd (handle_request sample_runtime sample_unknown [] sample_world))) = recs @ [r]
    \<and> au_decision r = kind_str k_deny"
proof -
  obtain w' where h: "handle_request sample_runtime sample_unknown [] sample_world
      = (Inr (response k_deny (Some ''no manifest entry for notes.erase'')), w')"
    using sample_unknown_reply by (metis prod.collapse)
  from reply_is_recorded [OF sample_sink _ _ h] show ?thesis by (simp add: h response_def)
qed

lemma session_turn_established:
  assumes "session_turn R w = (Inr turn, w1)"
  shows "s_turn (snd w1) = Some turn \<and> s_tape (snd w1) = s_tape (snd w) \<and> s_attempts (snd w1) = s_attempts (snd w)"
  using assms
  by (auto simp: session_turn_def action_defs clock_w_def Let_def split: option.splits sum.splits)

text \<open>C23: a malformed confidence artifact of a declared operation is refused without a record. When the session turn is
  there or can be established, a request for an operation the manifest declares, other than the reserved harness
  tool, with an artifact that does not validate is answered with a deny, and neither the tape nor the executor
  is touched. (A request for an undeclared operation is refused, and recorded, before its artifact is looked at.)\<close>

theorem malformed_artifact_unrecorded:
  assumes "ag_tool rq \<noteq> HARNESS_TOOL" and "table_entry (rt_optable R) (ag_tool rq) (ag_op rq) = Some mop"
    and "ag_confidence rq = Some (RawArtifact j)" and "rt_validate R j = None"
    and "session_turn R w = (Inr turn, w1)"
  shows "\<exists>w'. handle_request R rq srcs w = (Inr (response k_deny (Some ''invalid confidence artifact'')), w')
    \<and> s_tape (snd w') = s_tape (snd w) \<and> s_attempts (snd w') = s_attempts (snd w)"
proof -
  have again: "session_turn R v = (Inr t, v)" if "s_turn (snd v) = Some t" for v t
    using that by (simp add: session_turn_def action_defs)
  show ?thesis
    using assms session_turn_established [OF assms(5)]
    by (simp add: handle_request_def pipeline_def check_confidence_def action_defs again ingest_w_def)
qed

theorem malformed_artifact_unrecorded_witness:
  "\<exists>w'. handle_request sample_runtime ((sample_request sample_note)\<lparr>ag_confidence := Some (RawArtifact JNull)\<rparr>) []
      (apsnd (\<lambda>s. s\<lparr>s_turn := Some (turn_init ''t'')\<rparr>) sample_world)
        = (Inr (response k_deny (Some ''invalid confidence artifact'')), w') \<and> s_tape (snd w') = []"
proof -
  let ?rq = "(sample_request sample_note)\<lparr>ag_confidence := Some (RawArtifact JNull)\<rparr>"
  let ?w = "apsnd (\<lambda>s. s\<lparr>s_turn := Some (turn_init ''t'')\<rparr>) sample_world"
  have e: "ag_tool ?rq \<noteq> HARNESS_TOOL" "table_entry (rt_optable sample_runtime) (ag_tool ?rq) (ag_op ?rq) = Some sample_note"
    by code_simp+
  have "rt_validate sample_runtime JNull = None" by (simp add: sample_runtime_def)
  moreover have "session_turn sample_runtime ?w = (Inr (turn_init ''t''), ?w)"
    by (simp add: session_turn_def action_defs sample_world_def)
  ultimately show ?thesis
    using malformed_artifact_unrecorded [OF e, of JNull ?w "turn_init ''t''" ?w "[]"] by (auto simp: sample_world_def)
qed

end
