(* ===== verification/Pep_Release.thy ===== *)
theory Pep_Release
  imports Pep_Safety
begin

text \<open>
  The verbs of the authenticated owner, which reach the broker outside the agent's requests
  (\<open>describe_intent\<close>, \<open>approve_intent\<close>, \<open>reject_intent\<close>, \<open>flag_intent\<close> of \<open>broker/runtime/pep.py\<close>), and the
  host's expiry sweep (\<open>sweep_expired_intents\<close>). An approval releases the frozen call through the same
  \<open>enforce\<close> as an agent's request, with the rule table run again on facts read at the release; the other
  verbs reach no connector. A record written outside a decision carries no inputs, so those are emitted
  directly.
\<close>

section \<open>Constants and views\<close>

definition HUMAN_OVERRIDE_SUFFIX :: string where "HUMAN_OVERRIDE_SUFFIX = ''human_override''"
definition FALSE_ACTION_SUFFIX :: string where "FALSE_ACTION_SUFFIX = ''false_action''"
definition FLAGGED_BY_OWNER_REASON :: string where "FLAGGED_BY_OWNER_REASON = ''flagged by owner''"
definition FLAG_MARKER_PREFIX :: string where "FLAG_MARKER_PREFIX = ''flag-marker''"
definition FLAG_MARKER_CAP :: rat where "FLAG_MARKER_CAP = 1"
definition EVIDENCE_LABEL_WRITE_FAILED :: string where "EVIDENCE_LABEL_WRITE_FAILED = ''evidence label write failed''"

definition SHOWN_INPUT_MISMATCH_REASON :: string where
  "SHOWN_INPUT_MISMATCH_REASON =
     ''approval refused: the input the approval surface showed does not digest to the held input digest''"

record IntentView =
  iv_input_digest :: "string option"
  iv_intent_id :: string
  iv_status :: string
  iv_tool :: string
  iv_op :: string
  iv_args_digest :: string
  iv_rendered_for_human :: string
  iv_expiry :: instant
  iv_ts :: instant
  iv_agent_id :: string
  iv_approved_by :: "string option"

definition actor_digest :: "('e, 'i, 'h, 'k, 'g) BrokerRuntime \<Rightarrow> string \<Rightarrow> string" where
  "actor_digest R identity = ''sha256:'' @ sha256_hex (rt_hash R) identity"

definition held_input_digest :: "Intent \<Rightarrow> string option" where
  "held_input_digest i =
     (let stored = materializedRequest i in
      if bc_tool stored \<noteq> HARNESS_TOOL then None
      else (case bc_args stored of
              JObj kvs \<Rightarrow> (case map_of kvs ''input'' of Some (JStr v) \<Rightarrow> Some v | _ \<Rightarrow> None)
            | _ \<Rightarrow> None))"

definition owns_intent :: "('e, 'i, 'h, 'k, 'g) BrokerRuntime \<Rightarrow> Intent \<Rightarrow> bool" where
  "owns_intent R i \<longleftrightarrow> bc_principal (materializedRequest i) = rt_principal R"

definition foreign_intent_result ::
  "('e, 'i, 'h, 'k, 'g) BrokerRuntime \<Rightarrow> Intent option \<Rightarrow> string \<Rightarrow> ExecutionResult option" where
  "foreign_intent_result R found iid =
     (case found of
        None \<Rightarrow> None
      | Some i \<Rightarrow> if owns_intent R i then None else Some (exec_refusal iid ''intent belongs to a different principal''))"

section \<open>The intent store inside a world\<close>

definition intents_w :: "('i \<Rightarrow> (exn + 'a) \<times> 'i) \<Rightarrow> (('e, 'i, 'h, 'k) world, 'a) act" where
  "intents_w f w = (let (r, st) = f (s_intents (snd w)) in (r, fst w, (snd w)\<lparr>s_intents := st\<rparr>))"

definition get_intent_w ::
  "('e, 'i, 'h, 'k, 'g) BrokerRuntime \<Rightarrow> string \<Rightarrow> (('e, 'i, 'h, 'k) world, Intent option) act" where
  "get_intent_w R iid w = (get_intent (rt_intent_store R) (s_intents (snd w)) iid, w)"

definition is_quarantine :: "exn \<Rightarrow> bool" where
  "is_quarantine e \<longleftrightarrow> exn_class e = ''QuarantinedIntentError''"

text \<open>\<open>except QuarantinedIntentError\<close>: the record is written by \<open>writer\<close>, and the answer is a refusal.\<close>

definition quarantined_intent_result ::
  "('e, 'i, 'h, 'k, 'g) BrokerRuntime \<Rightarrow> (emission \<Rightarrow> (('e, 'i, 'h, 'k) world, unit) act) \<Rightarrow> string \<Rightarrow> string \<Rightarrow> exn
     \<Rightarrow> (('e, 'i, 'h, 'k) world, ExecutionResult) act" where
  "quarantined_intent_result R writer iid op e =
     (if is_quarantine e
      then bind_w (writer (quarantine_record R iid (exn_str e) op)) (\<lambda>_.
             ret_w (exec_refusal iid (''intent quarantined: '' @ exn_str e)))
      else raise_w e)"

definition intent_view :: "('e, 'i, 'h, 'k, 'g) BrokerRuntime \<Rightarrow> Intent \<Rightarrow> IntentView" where
  "intent_view R i =
     (let stored = materializedRequest i in
      \<lparr>iv_input_digest = held_input_digest i, iv_intent_id = in_id i, iv_status = in_status i, iv_tool = bc_tool stored,
       iv_op = bc_op stored, iv_args_digest = hash_args (rt_hash R) (bc_args stored),
       iv_rendered_for_human = in_rendered i, iv_expiry = in_expiry i, iv_ts = in_ts i,
       iv_agent_id = agentId (bc_principal stored), iv_approved_by = approvedBy i\<rparr>)"

definition describe_intent ::
  "('e, 'i, 'h, 'k, 'g) BrokerRuntime \<Rightarrow> string \<Rightarrow> (('e, 'i, 'h, 'k) world, IntentView option) act" where
  "describe_intent R iid =
     catch_w (get_intent_w R iid)
       (\<lambda>e. if is_quarantine e
            then bind_w (emit_w R (quarantine_record R iid (exn_str e) ''describe'')) (\<lambda>_. ret_w None)
            else raise_w e)
       (\<lambda>found. ret_w
         (case found of
            None \<Rightarrow> None
          | Some i \<Rightarrow> if owns_intent R i then Some (intent_view R i) else None))"

section \<open>Expiry records\<close>

definition alarm_cap :: "('e, 'i, 'h, 'k, 'g) BrokerRuntime \<Rightarrow> int option" where
  "alarm_cap R = (case rt_approval_queue R of None \<Rightarrow> None | Some aq \<Rightarrow> max_pending_per_op_day aq)"

definition count_expiry_w ::
  "('e, 'i, 'h, 'k, 'g) BrokerRuntime \<Rightarrow> Intent \<Rightarrow> (('e, 'i, 'h, 'k) world, bool) act" where
  "count_expiry_w R i =
     (case alarm_cap R of
        None \<Rightarrow> ret_w True
      | Some cap \<Rightarrow>
          bind_w (wall_w R) (\<lambda>now w.
            let (counted, al, st) = count_expiry (alarm_of R cap) (rt_store R) now (bc_tool (materializedRequest i))
                  (bc_op (materializedRequest i)) (in_ts i) (in_expiry i) (s_alarm (snd w)) (fst w)
            in (Inr counted, st, (snd w)\<lparr>s_alarm := al\<rparr>)))"

definition flush_w ::
  "('e, 'i, 'h, 'k, 'g) BrokerRuntime \<Rightarrow> (('e, 'i, 'h, 'k) world, instant) act \<Rightarrow> (('e, 'i, 'h, 'k) world, unit) act" where
  "flush_w R reading =
     (case alarm_cap R of
        None \<Rightarrow> ret_w ()
      | Some cap \<Rightarrow>
          bind_w reading (\<lambda>now w.
            let (r, al, evs) = flush (alarm_of R cap) (rt_store R) now (s_alarm (snd w)) (fst w)
            in (r, fst w, (snd w)\<lparr>s_alarm := al, s_deliveries := s_deliveries (snd w) @ evs\<rparr>)))"

text \<open>The records of an owner's verb name the stored call, the intent and the digest of the stored bytes.\<close>

definition stored_record ::
  "('e, 'i, 'h, 'k, 'g) BrokerRuntime \<Rightarrow> string \<Rightarrow> BrokeredCall \<Rightarrow> string \<Rightarrow> string \<Rightarrow> string option \<Rightarrow> emission" where
  "stored_record R iid stored dec outcome reason =
     (emission_of R (bc_tool stored) (bc_op stored) (bc_args stored) dec outcome reason)
       \<lparr>em_principal := bc_principal stored, em_intent_id := Some iid,
        em_stored_call_digest := Some (hash_stored_call R stored)\<rparr>"

definition record_expiry ::
  "('e, 'i, 'h, 'k, 'g) BrokerRuntime \<Rightarrow> Intent \<Rightarrow> (('e, 'i, 'h, 'k) world, unit) act" where
  "record_expiry R i =
     bind_w (count_expiry_w R i) (\<lambda>counted.
       emit_w R ((stored_record R (in_id i) (materializedRequest i) ''require_approval'' ''expired''
                    (Some APPROVAL_EXPIRED_REASON))
         \<lparr>em_error := (if counted then None else Some ALARM_COUNT_WRITE_FAILED),
          em_expired_at := Some (isoformat_utc (in_expiry i))\<rparr>))"

definition record_late_expiry ::
  "('e, 'i, 'h, 'k, 'g) BrokerRuntime \<Rightarrow> Intent option \<Rightarrow> string \<Rightarrow> string \<Rightarrow> (('e, 'i, 'h, 'k) world, unit) act" where
  "record_late_expiry R held iid op =
     catch_w (case held of Some i \<Rightarrow> ret_w (Some i) | None \<Rightarrow> get_intent_w R iid)
       (\<lambda>e. if is_quarantine e then emit_w R (quarantine_record R iid (exn_str e) op) else raise_w e)
       (\<lambda>stored. case stored of
          None \<Rightarrow> ret_w ()
        | Some i \<Rightarrow> bind_w (record_expiry R i) (\<lambda>_. flush_w R (wall_w R)))"

text \<open>A verb that found the hold expired, and moved it, writes the one expiry record.\<close>

definition with_late_expiry ::
  "('e, 'i, 'h, 'k, 'g) BrokerRuntime \<Rightarrow> Intent option \<Rightarrow> string \<Rightarrow> string \<Rightarrow> ExecutionResult
     \<Rightarrow> (('e, 'i, 'h, 'k) world, ExecutionResult) act" where
  "with_late_expiry R held iid op result =
     bind_w (when_w (expired_by_this_call result) (record_late_expiry R held iid op)) (\<lambda>_. ret_w result)"

section \<open>Releasing a held call\<close>

text \<open>The rule table at a release: the approval requirement is met, anything stricter still binds, and a
  transform is refused, because the bytes that were shown are the only ones a release may run.\<close>

definition approved_decider :: "(string \<Rightarrow> string) \<Rightarrow> BrokeredCall \<Rightarrow> Facts \<Rightarrow> Decision" where
  "approved_decider sha call facts =
     (let decided = decide sha call facts in
      case decided of
        Allow \<Rightarrow> Allow
      | RequireApproval _ _ \<Rightarrow> Allow
      | Transform op' _ \<Rightarrow>
          Deny (''release-time revalidation returned transform (op='' @ py_repr op'
            @ ''); the approved call is no longer executable as approved and a release never runs anything other than the bytes the human saw'')
      | _ \<Rightarrow> decided)"

definition gated_release ::
  "('e, 'i, 'h, 'k, 'g) BrokerRuntime \<Rightarrow> BrokeredCall \<Rightarrow> Facts \<Rightarrow> ('e, 'i, 'h, 'k) world
     \<Rightarrow> Decision \<times> ('e, 'i, 'h, 'k) world" where
  "gated_release R call facts w =
     (gate (approved_decider (sha256_hex (rt_hash R))) (s_inputs (snd w)) (rt_clock R (s_ticks (snd w))) call facts,
      fst w, (snd w)\<lparr>s_ticks := Suc (s_ticks (snd w))\<rparr>)"

text \<open>The receipt of an approval: who approved, which intent, and the digest of the stored call.\<close>

definition receipt :: "('e, 'i, 'h, 'k, 'g) BrokerRuntime \<Rightarrow> string \<Rightarrow> string \<Rightarrow> BrokeredCall \<Rightarrow> emission \<Rightarrow> emission" where
  "receipt R approved_by iid stored em =
     em\<lparr>em_approved_by := Some approved_by, em_intent_id := Some iid,
        em_stored_call_digest := Some (hash_stored_call R stored)\<rparr>"

definition release_failure ::
  "('e, 'i, 'h, 'k, 'g) BrokerRuntime \<Rightarrow> BrokeredCall \<Rightarrow> Decision \<Rightarrow> exn \<Rightarrow> emission" where
  "release_failure R call eff e =
     (emission_of R (bc_tool call) (bc_op call) (bc_args call) (kind_str (kind eff)) ''failed'' None)
       \<lparr>em_principal := bc_principal call, em_error := Some (exn_str e)\<rparr>"

definition release_executor ::
  "('e, 'i, 'h, 'k, 'g) BrokerRuntime \<Rightarrow> string \<Rightarrow> string \<Rightarrow> BrokeredCall \<Rightarrow> BrokeredCall \<Rightarrow> Decision
     \<Rightarrow> (('e, 'i, 'h, 'k) world, json option) act" where
  "release_executor R approved_by iid stored call eff =
     catch_w (attempt_w R call eff)
       (\<lambda>e. if is_connector_error e
            then bind_w (record_w R (receipt R approved_by iid stored (release_failure R call eff e))) (\<lambda>_.
                   raise_w (if exn_class e = ''InheritanceWriteError'' then ReleaseRefusedError (exn_str e) else e))
            else raise_w e)
       (\<lambda>r.
         bind_w (record_w R (receipt R approved_by iid stored (executed_record R call eff r))) (\<lambda>_.
         bind_w (count_observation R call) (\<lambda>_.
           ret_w (if dr_result r = JNull then None else Some (dr_result r)))))"

definition release_actions ::
  "('e, 'i, 'h, 'k, 'g) BrokerRuntime \<Rightarrow> string \<Rightarrow> string \<Rightarrow> BrokeredCall \<Rightarrow> ('e, 'i, 'h, 'k) world actions" where
  "release_actions R approved_by iid stored =
     \<lparr>act_facts = timed_pip R, act_decide = gated_release R,
      act_execute = release_executor R approved_by iid stored\<rparr>"

definition enforce_release ::
  "('e, 'i, 'h, 'k, 'g) BrokerRuntime \<Rightarrow> string \<Rightarrow> string \<Rightarrow> BrokeredCall
     \<Rightarrow> (('e, 'i, 'h, 'k) world, EnforcementResult) act" where
  "enforce_release R approved_by iid stored =
     bind_w (wall_w R) (\<lambda>now.
     bind_w (lift_w (scoped_counter_key now (bc_principal stored) (bc_tool stored) (bc_op stored) ACTION_CAP_SUFFIX
       (rt_counter_period R) None None)) (\<lambda>ck.
     bind_w (tree_draws R stored) (\<lambda>draws.
     bind_w tick_w (\<lambda>n.
       enforce_w (lift_store (rt_store R)) (rt_env R n) (release_actions R approved_by iid stored)
         \<lparr>rq_call = stored, initial_decision = Allow, idempotency_key = None,
          counter_key = ck, counter_delta = 1, counter_cap = rt_counter_cap R, ancestor_draws = draws\<rparr>))))"

definition release_reason :: "Decision \<Rightarrow> string" where
  "release_reason d =
     (case decision_reason d of None \<Rightarrow> ''release refused'' | Some r \<Rightarrow> if r = [] then ''release refused'' else r)"

definition release_stored ::
  "('e, 'i, 'h, 'k, 'g) BrokerRuntime \<Rightarrow> string \<Rightarrow> string \<Rightarrow> BrokeredCall \<Rightarrow> (('e, 'i, 'h, 'k) world, json option) act" where
  "release_stored R approved_by iid stored =
     bind_w (enforce_release R approved_by iid stored) (\<lambda>enforced.
       if kind (er_decision enforced) = k_allow then ret_w (er_result enforced)
       else
         (let reason = release_reason (er_decision enforced) in
          bind_w (record_w R (receipt R approved_by iid stored
                    (stored_record R iid stored (kind_str (kind (er_decision enforced))) ''denied'' (Some reason)))) (\<lambda>_.
            raise_w (ReleaseRefusedError reason))))"

text \<open>\<open>approve\<close> of the engine around this executor. The instant of execution is read only after it returned.\<close>

definition approve_w ::
  "('e, 'i, 'h, 'k, 'g) BrokerRuntime \<Rightarrow> string \<Rightarrow> string \<Rightarrow> (('e, 'i, 'h, 'k) world, ExecutionResult) act" where
  "approve_w R iid approved_by =
     bind_w (wall_w R) (\<lambda>now.
     bind_w (intents_w (claim_pending (rt_intent_store R) iid ''approved'' approved_by now (rt_clock_skew R))) (\<lambda>claim.
       case claim of
         Inl answer \<Rightarrow> ret_w answer
       | Inr i \<Rightarrow>
           catch_w (release_stored R approved_by iid (materializedRequest i))
             (\<lambda>e. intents_w (finish_release (rt_intent_store R) iid now (Inl e)))
             (\<lambda>res. bind_w (wall_w R) (\<lambda>exec_at.
                intents_w (finish_release (rt_intent_store R) iid exec_at (Inr res))))))"

definition shown_mismatch :: "string option \<Rightarrow> Intent option \<Rightarrow> Intent option" where
  "shown_mismatch shown held =
     (case (held, shown) of
        (Some i, Some d) \<Rightarrow> if Some d = held_input_digest i then None else Some i
      | _ \<Rightarrow> None)"

definition is_harness_hold :: "Intent option \<Rightarrow> bool" where
  "is_harness_hold held = (case held of None \<Rightarrow> False | Some i \<Rightarrow> bc_tool (materializedRequest i) = HARNESS_TOOL)"

text \<open>What happens to the intent that was read: refused, marked for the harness, or released.\<close>

definition approve_held ::
  "('e, 'i, 'h, 'k, 'g) BrokerRuntime \<Rightarrow> string \<Rightarrow> string \<Rightarrow> string option \<Rightarrow> Intent option
     \<Rightarrow> (('e, 'i, 'h, 'k) world, ExecutionResult) act" where
  "approve_held R iid approved_by shown held =
     (case foreign_intent_result R held iid of
        Some foreign \<Rightarrow> ret_w foreign
      | None \<Rightarrow>
          (case shown_mismatch shown held of
             Some i \<Rightarrow>
               bind_w (record_w R ((stored_record R iid (materializedRequest i) ''deny'' ''denied''
                         (Some SHOWN_INPUT_MISMATCH_REASON))\<lparr>em_approved_by := Some approved_by\<rparr>)) (\<lambda>_.
                 ret_w (exec_refusal iid SHOWN_INPUT_MISMATCH_REASON))
           | None \<Rightarrow>
               catch_w
                 (if is_harness_hold held
                  then bind_w (clock_w R) (\<lambda>now.
                         intents_w (approve_for_reissue (rt_intent_store R) iid approved_by now (rt_clock_skew R)))
                  else approve_w R iid approved_by)
                 (quarantined_intent_result R (record_w R) iid ''approve'')
                 (with_late_expiry R held iid ''approve'')))"

definition approve_intent ::
  "('e, 'i, 'h, 'k, 'g) BrokerRuntime \<Rightarrow> string \<Rightarrow> string \<Rightarrow> string option
     \<Rightarrow> (('e, 'i, 'h, 'k) world, ExecutionResult) act" where
  "approve_intent R iid approved_by shown =
     bind_w (put_w (\<lambda>s. s\<lparr>s_inputs := decision_inputs (rt_input_ages R)\<rparr>)) (\<lambda>_.
     bind_w (clock_w R) (\<lambda>now.
     bind_w (put_w (\<lambda>s. s\<lparr>s_inputs := establish ''intent'' now None (s_inputs s)\<rparr>)) (\<lambda>_.
       catch_w (get_intent_w R iid)
         (quarantined_intent_result R (record_w R) iid ''approve'')
         (approve_held R iid approved_by shown))))"

section \<open>Rejecting, flagging and sweeping\<close>

definition label_w ::
  "('e, 'i, 'h, 'k, 'g) BrokerRuntime \<Rightarrow> BrokeredCall \<Rightarrow> string \<Rightarrow> string \<Rightarrow> (('e, 'i, 'h, 'k) world, unit) act" where
  "label_w R req sfx bucket =
     bind_w (wall_w R) (\<lambda>now.
     bind_w (lift_w (scoped_counter_key now (bc_principal req) (bc_tool req) (bc_op req) sfx (rt_counter_period R)
       (Some bucket) None)) (\<lambda>k w.
       (Inr (), snd (try_increment_counter (rt_store R) k 1 UNBOUNDED_COUNTER_CAP (fst w)), snd w)))"

definition record_rejection ::
  "('e, 'i, 'h, 'k, 'g) BrokerRuntime \<Rightarrow> string \<Rightarrow> string \<Rightarrow> BrokeredCall \<Rightarrow> (('e, 'i, 'h, 'k) world, unit) act" where
  "record_rejection R iid rejected_by req =
     bind_w (wall_w R) (\<lambda>now.
     bind_w (lift_w (current_period_bucket now (rt_counter_period R))) (\<lambda>bucket.
     bind_w (catch_w (bind_w (label_w R req HUMAN_OVERRIDE_SUFFIX bucket) (\<lambda>_. label_w R req OBSERVATIONS_SUFFIX bucket))
               (\<lambda>_. ret_w False) (\<lambda>_. ret_w True)) (\<lambda>labelled.
       emit_w R ((stored_record R iid req ''require_approval'' ''rejected'' (Some REJECTED_BY_OWNER_REASON))
         \<lparr>em_error := (if labelled then None else Some EVIDENCE_LABEL_WRITE_FAILED),
          em_actor_digest := Some (actor_digest R rejected_by),
          em_evidence_bucket := (if labelled then Some bucket else None)\<rparr>))))"

definition after_reject ::
  "('e, 'i, 'h, 'k, 'g) BrokerRuntime \<Rightarrow> string \<Rightarrow> string \<Rightarrow> Intent option \<Rightarrow> ExecutionResult
     \<Rightarrow> (('e, 'i, 'h, 'k) world, ExecutionResult) act" where
  "after_reject R iid rejected_by held result =
     (if expired_by_this_call result then with_late_expiry R held iid ''reject'' result
      else if rejection_reason result = Some REJECTED_BY_OWNER_REASON then
        bind_w
          (catch_w (case held of Some i \<Rightarrow> ret_w (Some i) | None \<Rightarrow> get_intent_w R iid)
             (\<lambda>e. if is_quarantine e
                  then bind_w (emit_w R (quarantine_record R iid (exn_str e) ''reject'')) (\<lambda>_. ret_w None)
                  else raise_w e) ret_w)
          (\<lambda>labeled. case labeled of
             None \<Rightarrow> ret_w result
           | Some i \<Rightarrow> bind_w (record_rejection R iid rejected_by (materializedRequest i)) (\<lambda>_. ret_w result))
      else ret_w result)"

definition reject_intent ::
  "('e, 'i, 'h, 'k, 'g) BrokerRuntime \<Rightarrow> string \<Rightarrow> string \<Rightarrow> (('e, 'i, 'h, 'k) world, ExecutionResult) act" where
  "reject_intent R iid rejected_by =
     catch_w (get_intent_w R iid)
       (quarantined_intent_result R (emit_w R) iid ''reject'')
       (\<lambda>held. case foreign_intent_result R held iid of
          Some foreign \<Rightarrow> ret_w foreign
        | None \<Rightarrow>
            catch_w (bind_w (wall_w R) (\<lambda>now. intents_w (reject (rt_intent_store R) iid rejected_by now)))
              (quarantined_intent_result R (emit_w R) iid ''reject'')
              (after_reject R iid rejected_by held))"

text \<open>The counters of the model do not raise, so the two write faults of a flag left are those of the key
  derivation and of the tape.\<close>

definition flag_record ::
  "('e, 'i, 'h, 'k, 'g) BrokerRuntime \<Rightarrow> string \<Rightarrow> string \<Rightarrow> BrokeredCall \<Rightarrow> string \<Rightarrow> emission" where
  "flag_record R iid flagged_by req bucket =
     (stored_record R iid req ''require_approval'' ''flagged'' (Some FLAGGED_BY_OWNER_REASON))
       \<lparr>em_actor_digest := Some (actor_digest R flagged_by), em_evidence_bucket := Some bucket\<rparr>"

definition flag_executed ::
  "('e, 'i, 'h, 'k, 'g) BrokerRuntime \<Rightarrow> string \<Rightarrow> string \<Rightarrow> Intent \<Rightarrow> (('e, 'i, 'h, 'k) world, ExecutionResult) act" where
  "flag_executed R iid flagged_by i =
     bind_w (\<lambda>w. let (claimed, e) = try_increment_counter (rt_store R) (FLAG_MARKER_PREFIX @ '':'' @ iid) 1 FLAG_MARKER_CAP (fst w)
                 in (Inr claimed, e, snd w)) (\<lambda>claimed.
       if \<not> claimed then ret_w (exec_refusal iid ''intent already flagged'')
       else
         bind_w (lift_w (period_bucket_of (case executedAt i of Some t \<Rightarrow> t | None \<Rightarrow> in_ts i) (rt_counter_period R))) (\<lambda>bucket.
           catch_w (label_w R (materializedRequest i) FALSE_ACTION_SUFFIX bucket)
             (\<lambda>e. ret_w (exec_refusal iid (''flag counter write failed: '' @ exn_str e)))
             (\<lambda>_. catch_w (emit_w R (flag_record R iid flagged_by (materializedRequest i) bucket))
                (\<lambda>e. ret_w (exec_refusal iid (''flag audit write failed: '' @ exn_str e)))
                (\<lambda>_. ret_w (exec_refusal iid FLAGGED_BY_OWNER_REASON)))))"

definition flag_intent ::
  "('e, 'i, 'h, 'k, 'g) BrokerRuntime \<Rightarrow> string \<Rightarrow> string \<Rightarrow> (('e, 'i, 'h, 'k) world, ExecutionResult) act" where
  "flag_intent R iid flagged_by =
     catch_w (get_intent_w R iid)
       (quarantined_intent_result R (emit_w R) iid ''flag'')
       (\<lambda>found. case foreign_intent_result R found iid of
          Some foreign \<Rightarrow> ret_w foreign
        | None \<Rightarrow>
            (case found of
               None \<Rightarrow> ret_w (exec_refusal iid ''intent not found'')
             | Some i \<Rightarrow>
                 if in_status i \<noteq> ''executed''
                 then ret_w (exec_refusal iid (''intent not executed (current status: '' @ in_status i @ '')''))
                 else flag_executed R iid flagged_by i))"

definition sweep_one ::
  "('e, 'i, 'h, 'k, 'g) BrokerRuntime \<Rightarrow> instant \<Rightarrow> string \<Rightarrow> (('e, 'i, 'h, 'k) world, nat) act" where
  "sweep_one R moment iid =
     catch_w (get_intent_w R iid)
       (\<lambda>e. if is_quarantine e
            then bind_w (get_w s_swept) (\<lambda>seen.
                 bind_w (when_w (iid \<notin> set seen)
                   (bind_w (put_w (\<lambda>s. s\<lparr>s_swept := iid # s_swept s\<rparr>)) (\<lambda>_.
                      emit_w R (quarantine_record R iid (exn_str e) ''expire'')))) (\<lambda>_. ret_w 0))
            else raise_w e)
       (\<lambda>found. case found of
          None \<Rightarrow> ret_w 0
        | Some i \<Rightarrow>
            if \<not> owns_intent R i then ret_w 0
            else
              bind_w (intents_w (expire_if_due (rt_intent_store R) i moment)) (\<lambda>won.
                if won then bind_w (record_expiry R i) (\<lambda>_. ret_w 1) else ret_w 0))"

primrec sweep_candidates ::
  "('e, 'i, 'h, 'k, 'g) BrokerRuntime \<Rightarrow> instant \<Rightarrow> string list \<Rightarrow> (('e, 'i, 'h, 'k) world, nat) act" where
  "sweep_candidates R moment [] = ret_w 0"
| "sweep_candidates R moment (iid # rest) =
     bind_w (sweep_one R moment iid) (\<lambda>n.
     bind_w (sweep_candidates R moment rest) (\<lambda>m. ret_w (n + m)))"

definition sweep_expired_intents ::
  "('e, 'i, 'h, 'k, 'g) BrokerRuntime \<Rightarrow> instant option \<Rightarrow> (('e, 'i, 'h, 'k) world, nat) act" where
  "sweep_expired_intents R now =
     bind_w (case now of Some t \<Rightarrow> ret_w t | None \<Rightarrow> wall_w R) (\<lambda>moment.
     bind_w (get_w (\<lambda>s. expired_pending_candidates (rt_intent_store R) (s_intents s)
               (principal_index_key (rt_principal R)) moment)) (\<lambda>candidates.
     bind_w (sweep_candidates R moment candidates) (\<lambda>recorded.
     bind_w (flush_w R (ret_w moment)) (\<lambda>_. ret_w recorded))))"

section \<open>What the verbs keep\<close>

lemma keeps_bind: "keeps P m \<Longrightarrow> (\<And>x. keeps P (f x)) \<Longrightarrow> keeps P (bind_w m f)"
  by (rule ok_bind)

lemma keeps_catch: "keeps P m \<Longrightarrow> (\<And>e. keeps P (h e)) \<Longrightarrow> (\<And>x. keeps P (f x)) \<Longrightarrow> keeps P (catch_w m h f)"
  by (rule ok_catch)

lemma keepsD: "keeps P m \<Longrightarrow> P w \<Longrightarrow> P (snd (m w))"
  by (simp add: keeps_iff)

lemma keeps_ret: "keeps P (ret_w x)" "keeps P (raise_w e)"
  by (simp_all add: ok_ret ok_raise)

lemma bind_after: "P (snd (m w)) \<Longrightarrow> (\<And>x. keeps P (f x)) \<Longrightarrow> P (snd (bind_w m f w))"
  unfolding keeps_iff bind_w_def by (auto split: prod.split sum.split)

lemma catch_after: "P (snd (m w)) \<Longrightarrow> (\<And>x. keeps P (f x)) \<Longrightarrow> (\<And>e. keeps P (h e)) \<Longrightarrow> P (snd (catch_w m h f w))"
  unfolding keeps_iff catch_w_def by (auto split: prod.split sum.split)

lemma quiet_get_intent [quiet_rules]: "quiet (get_intent_w R iid)"
  by (simp add: quiet_def get_intent_w_def)

lemma quiet_intents [quiet_rules]: "quiet (intents_w f)"
  by (simp add: quiet_def intents_w_def core_def Let_def split: prod.split)

lemma quiet_label [quiet_rules]: "quiet (label_w R req sfx bucket)"
  unfolding label_w_def by (intro quiet_rules) (simp add: quiet_def)

lemma quiet_count_expiry [quiet_rules]: "quiet (count_expiry_w R i)"
  unfolding count_expiry_w_def
  by (auto intro!: quiet_bind quiet_basic quiet_wall split: option.split) (simp add: quiet_def core_def Let_def split: prod.split)

lemma quiet_flush [quiet_rules]: "quiet reading \<Longrightarrow> quiet (flush_w R reading)"
  unfolding flush_w_def
  by (auto intro!: quiet_bind quiet_basic split: option.split) (simp add: quiet_def core_def Let_def split: prod.split)

lemma quiet_swept [quiet_rules]: "quiet (put_w (\<lambda>s. s\<lparr>s_swept := f s\<rparr>))" "quiet (put_w (\<lambda>s. s\<lparr>s_inputs := g s\<rparr>))"
  by (simp_all add: quiet_put core_def)

text \<open>The outcomes of the records the verbs write outside a run of the connector.\<close>

lemma verb_outcomes [simp]:
  "''expired'' \<in> set AUDIT_OUTCOMES" "''rejected'' \<in> set AUDIT_OUTCOMES" "''flagged'' \<in> set AUDIT_OUTCOMES"
  "''expired'' \<notin> set EXECUTION_OUTCOMES" "''rejected'' \<notin> set EXECUTION_OUTCOMES" "''flagged'' \<notin> set EXECUTION_OUTCOMES"
  by (simp_all add: AUDIT_OUTCOMES_def EXECUTION_OUTCOMES_def)

text \<open>A condition that depends only on the tape, the turn and the attempts, and that survives a record which
  tells of no execution, is kept by every verb. An approval keeps it if its release does.\<close>

locale verb_invariant =
  fixes R :: "('e, 'i, 'h, 'k, 'g) BrokerRuntime" and P :: "('e, 'i, 'h, 'k) world \<Rightarrow> bool"
  assumes core_only: "P w \<Longrightarrow> core (snd w') = core (snd w) \<Longrightarrow> P w'"
    and survives_note: "valid_emission em \<Longrightarrow> em_outcome em \<notin> set EXECUTION_OUTCOMES \<Longrightarrow> keeps P (emit_w R em)"
begin

lemma quiet_kept: "quiet m \<Longrightarrow> keeps P m"
  unfolding keeps_iff quiet_def using core_only by blast

lemma record_kept:
  assumes "valid_emission em" and "em_outcome em \<notin> set EXECUTION_OUTCOMES"
  shows "keeps P (record_w R em)"
  unfolding record_w_def using assms by (intro keeps_bind quiet_kept quiet_basic survives_note) simp_all

lemma quarantine_kept:
  "keeps P (emit_w R (quarantine_record R iid why op))" "keeps P (record_w R (quarantine_record R iid why op))"
  by (rule survives_note record_kept; simp add: quarantine_record_def)+

lemma record_expiry_kept: "keeps P (record_expiry R i)"
  unfolding record_expiry_def
  by (intro keeps_bind quiet_kept [OF quiet_count_expiry] survives_note) (simp_all add: stored_record_def)

lemma get_kept: "keeps P (get_intent_w R iid)"
  by (rule quiet_kept [OF quiet_get_intent])

lemma reread_kept: "keeps P (case held of Some i \<Rightarrow> ret_w (Some i) | None \<Rightarrow> get_intent_w R iid)"
  by (cases held) (simp_all add: keeps_ret get_kept)

lemma late_expiry_kept: "keeps P (record_late_expiry R held iid op)"
proof -
  have late: "keeps P (case stored of None \<Rightarrow> ret_w () | Some i \<Rightarrow> bind_w (record_expiry R i) (\<lambda>_. flush_w R (wall_w R)))" for stored
    by (cases stored) (simp_all add: keeps_ret keeps_bind record_expiry_kept quiet_kept quiet_flush quiet_wall)
  have "keeps P (if is_quarantine e then emit_w R (quarantine_record R iid (exn_str e) op) else raise_w e)" for e
    by (simp add: quarantine_kept keeps_ret)
  with late show ?thesis unfolding record_late_expiry_def by (intro keeps_catch reread_kept)
qed

lemma with_late_kept: "keeps P (with_late_expiry R held iid op result)"
proof -
  have "keeps P (when_w b (record_late_expiry R held iid op))" for b
    by (simp add: when_w_def late_expiry_kept keeps_ret)
  then show ?thesis unfolding with_late_expiry_def by (intro keeps_bind keeps_ret)
qed

lemma quarantined_kept:
  "keeps P (quarantined_intent_result R (emit_w R) iid op e)" "keeps P (quarantined_intent_result R (record_w R) iid op e)"
  by (simp_all add: quarantined_intent_result_def keeps_bind keeps_ret quarantine_kept)

lemma describe_kept: "keeps P (describe_intent R iid)"
  unfolding describe_intent_def
  by (rule keeps_catch [OF get_kept]) (simp_all add: keeps_bind keeps_ret quarantine_kept)

lemma rejection_kept: "keeps P (record_rejection R iid by_whom req)"
  unfolding record_rejection_def
  by (intro keeps_bind quiet_kept [OF quiet_wall(1)] quiet_kept [OF quiet_basic(3)] quiet_kept [OF quiet_catch]
      quiet_bind quiet_label quiet_basic survives_note) (simp_all add: stored_record_def)

lemma after_reject_kept: "keeps P (after_reject R iid by_whom held result)"
proof -
  have q: "keeps P (if is_quarantine e
      then bind_w (emit_w R (quarantine_record R iid (exn_str e) ''reject'')) (\<lambda>_. ret_w None) else raise_w e)"
    for e :: exn and iid by (simp add: keeps_bind keeps_ret quarantine_kept)
  have l: "keeps P (case labeled of None \<Rightarrow> ret_w result
      | Some i \<Rightarrow> bind_w (record_rejection R iid by_whom (materializedRequest i)) (\<lambda>_. ret_w result))" for labeled
    by (cases labeled) (simp_all add: keeps_bind keeps_ret rejection_kept)
  show ?thesis
    unfolding after_reject_def
    by (simp add: with_late_kept keeps_ret keeps_bind [OF keeps_catch [OF reread_kept q keeps_ret(1)] l])
qed

lemma reject_kept: "keeps P (reject_intent R iid by_whom)"
proof -
  have run: "keeps P (catch_w (bind_w (wall_w R) (\<lambda>now. intents_w (reject (rt_intent_store R) iid by_whom now)))
      (quarantined_intent_result R (emit_w R) iid ''reject'') (after_reject R iid by_whom held))" for held
    by (intro keeps_catch quiet_kept [OF quiet_bind] quiet_wall quiet_intents quarantined_kept after_reject_kept)
  show ?thesis
    unfolding reject_intent_def
    by (rule keeps_catch [OF get_kept quarantined_kept(1)]) (simp add: run keeps_ret split: option.split)
qed

lemma flag_executed_kept: "keeps P (flag_executed R iid by_whom i)"
proof -
  have claim: "quiet (\<lambda>w. let (claimed, e) = try_increment_counter (rt_store R) k 1 c (fst w) in (Inr claimed, e, snd w))" for k c
    by (simp add: quiet_def Let_def split: prod.split)
  have rec: "keeps P (emit_w R (flag_record R iid by_whom req bucket))" for req bucket
    by (rule survives_note) (simp_all add: flag_record_def stored_record_def)
  have rest: "keeps P (if \<not> claimed then ret_w (exec_refusal iid ''intent already flagged'')
       else bind_w (lift_w (period_bucket_of t (rt_counter_period R))) (\<lambda>bucket.
           catch_w (label_w R (materializedRequest i) FALSE_ACTION_SUFFIX bucket)
             (\<lambda>e. ret_w (exec_refusal iid (''flag counter write failed: '' @ exn_str e)))
             (\<lambda>_. catch_w (emit_w R (flag_record R iid by_whom (materializedRequest i) bucket))
                (\<lambda>e. ret_w (exec_refusal iid (''flag audit write failed: '' @ exn_str e)))
                (\<lambda>_. ret_w (exec_refusal iid FLAGGED_BY_OWNER_REASON)))))" for claimed t
    by (simp add: keeps_ret keeps_bind keeps_catch quiet_kept quiet_basic quiet_label rec)
  show ?thesis unfolding flag_executed_def by (rule keeps_bind [OF quiet_kept [OF claim] rest])
qed

lemma flag_kept: "keeps P (flag_intent R iid by_whom)"
  unfolding flag_intent_def
  by (rule keeps_catch [OF get_kept quarantined_kept(1)]) (simp add: flag_executed_kept keeps_ret split: option.split)

lemma sweep_one_kept: "keeps P (sweep_one R moment iid)"
proof -
  have q: "keeps P (when_w b (bind_w (put_w (\<lambda>s. s\<lparr>s_swept := f s\<rparr>)) (\<lambda>_. emit_w R (quarantine_record R iid why op))))" for b f why op
    by (simp add: when_w_def keeps_ret keeps_bind quiet_kept quiet_swept quarantine_kept)
  have handler: "keeps P (if is_quarantine e
        then bind_w (get_w s_swept) (\<lambda>seen. bind_w (when_w (iid \<notin> set seen)
               (bind_w (put_w (\<lambda>s. s\<lparr>s_swept := iid # s_swept s\<rparr>)) (\<lambda>_. emit_w R (quarantine_record R iid (exn_str e) ''expire''))))
               (\<lambda>_. ret_w (0 :: nat))) else raise_w e)" for e
    by (simp add: keeps_ret keeps_bind quiet_kept quiet_basic q)
  show ?thesis
    unfolding sweep_one_def
    by (rule keeps_catch [OF get_kept handler])
       (simp add: keeps_ret keeps_bind quiet_kept quiet_intents record_expiry_kept split: option.split)
qed

lemma sweep_candidates_kept: "keeps P (sweep_candidates R moment ids)"
  by (induction ids) (simp_all add: keeps_ret keeps_bind sweep_one_kept)

lemma sweep_kept: "keeps P (sweep_expired_intents R now)"
  unfolding sweep_expired_intents_def
  by (intro keeps_bind sweep_candidates_kept keeps_ret quiet_kept quiet_flush quiet_basic)
     (simp add: quiet_basic quiet_wall split: option.split)

end

section \<open>What a release needs\<close>

text \<open>What the policy information point answers on one state of the enforcement store at one tick is one set of facts:
  on it the rule table lets the stored call run, with or without an approval.\<close>

definition cleared :: "('e, 'i, 'h, 'k, 'g) BrokerRuntime \<Rightarrow> 'e \<Rightarrow> nat \<Rightarrow> BrokeredCall \<Rightarrow> bool" where
  "cleared R e n call \<longleftrightarrow>
     (\<exists>facts. fst (rt_pip R e n call) = Inr facts
        \<and> kind (decide (sha256_hex (rt_hash R)) call facts) \<in> {k_allow, k_require_approval})"

text \<open>The intent under an identifier as an approval finds it: the broker's own, not a harness call, still
  pending when it is claimed, and before its expiry at the instant it is judged at.\<close>

definition releasable :: "('e, 'i, 'h, 'k, 'g) BrokerRuntime \<Rightarrow> 'i \<Rightarrow> instant \<Rightarrow> string \<Rightarrow> string \<Rightarrow> Intent \<Rightarrow> bool" where
  "releasable R st now iid approved_by i \<longleftrightarrow>
     get_intent (rt_intent_store R) st iid = Inr (Some i) \<and> owns_intent R i
     \<and> bc_tool (materializedRequest i) \<noteq> HARNESS_TOOL
     \<and> fst (transition_status (rt_intent_store R) iid ''pending'' ''approved'' (Some approved_by) None st)
     \<and> (\<exists>j. end_judged_at now (rt_clock_skew R) = Inr j \<and> j < in_expiry i)"

text \<open>The readings of an approval that starts at a state: the clock its expiry is judged by is the second thing it
  reads, the facts of the release are the seventh.\<close>

definition approval_instant :: "('e, 'i, 'h, 'k, 'g) BrokerRuntime \<Rightarrow> ('e, 'i, 'h, 'k) world \<Rightarrow> instant" where
  "approval_instant R w = rt_wall R (Suc (s_ticks (snd w)))"

definition release_tick :: "('e, 'i, 'h, 'k) world \<Rightarrow> nat" where
  "release_tick w = s_ticks (snd w) + 6"

definition released ::
  "('e, 'i, 'h, 'k, 'g) BrokerRuntime \<Rightarrow> 'e \<Rightarrow> nat \<Rightarrow> attempt list \<Rightarrow> BrokeredCall \<Rightarrow> attempt list \<Rightarrow> bool" where
  "released R e n log0 stored tried \<longleftrightarrow>
     tried = log0
     \<or> (\<exists>out. tried = log0 @ [\<lparr>at_call = stored, at_decision = Allow, at_outcome = out\<rparr>] \<and> cleared R e n stored)"

text \<open>The state before the connector is reached: the store as it was found, so many readings made, and the log.\<close>

definition reading :: "'e \<Rightarrow> nat \<Rightarrow> attempt list \<Rightarrow> ('e, 'i, 'h, 'k) world \<Rightarrow> bool" where
  "reading e t log0 w \<longleftrightarrow> fst w = e \<and> s_ticks (snd w) = t \<and> s_attempts (snd w) = log0"

lemma reading_steps:
  assumes "\<And>x w. s_attempts (snd w) = log0 \<Longrightarrow> E x w"
  shows "ok (reading e t log0) (wall_w R) (\<lambda>now w. reading e (Suc t) log0 w \<and> now = rt_wall R t) E"
    and "ok (reading e t log0) (clock_w R) (\<lambda>_. reading e (Suc t) log0) E"
    and "ok (reading e t log0) tick_w (\<lambda>_. reading e (Suc t) log0) E"
    and "ok (reading e t log0) (tree_draws R call) (\<lambda>_. reading e (Suc t) log0) E"
    and "ok (reading e t log0) (lift_w r) (\<lambda>_. reading e t log0) E"
  using assms
  by (auto simp: ok_def reading_def wall_w_def clock_w_def tree_draws_def action_defs split: sum.split)

lemma attempts_emit: "s_attempts (snd (snd (emit_w R em w))) = s_attempts (snd w)"
  by (simp add: emit_w_def wall_w_def action_defs Let_def split: prod.split)

interpretation tried: verb_invariant R "\<lambda>w. Q (s_attempts (snd w))"
  for R :: "('e, 'i, 'h, 'k, 'g) BrokerRuntime" and Q :: "attempt list \<Rightarrow> bool"
  by unfold_locales (auto simp: keeps_iff attempts_emit core_def)

lemma attempts_record: "s_attempts (snd (snd (record_w R em w))) = s_attempts (snd w)"
  by (simp add: record_w_def bind_w_def get_w_def attempts_emit)

lemma approved_decider_executes:
  "executes (approved_decider sha call facts) \<longleftrightarrow> kind (decide sha call facts) \<in> {k_allow, k_require_approval}"
  "executes (approved_decider sha call facts) \<Longrightarrow> approved_decider sha call facts = Allow"
  by (auto simp: approved_decider_def Let_def executes_def kind_def split: Decision.splits)

lemma timed_pip_reads:
  assumes "timed_pip R call u = (Inr facts, v)"
  shows "fst (rt_pip R (fst u) (Suc (s_ticks (snd u))) call) = Inr facts"
  using assms
  by (auto simp: timed_pip_def clock_w_def action_defs timed_def Let_def split: prod.splits sum.splits)

lemma attempt_logged:
  "s_attempts (snd (snd (attempt_w R call eff w)))
     = s_attempts (snd w) @ [\<lparr>at_call = call, at_decision = eff, at_outcome = fst (attempt_w R call eff w)\<rparr>]"
proof -
  let ?m = "bind_w (write_inheritance_if_declared R call eff) (\<lambda>_. doer_w R call eff)"
  have "quiet ?m" by (intro quiet_rules)
  then have "core (snd (snd (?m w))) = core (snd w)" unfolding quiet_def by blast
  then have "s_attempts (snd (snd (?m w))) = s_attempts (snd w)" by (simp add: core_def)
  moreover obtain out w1 where "?m w = (out, w1)" using prod.exhaust by blast
  ultimately show ?thesis by (simp add: attempt_w_def Let_def)
qed

lemma release_executor_logged:
  "\<exists>out. s_attempts (snd (snd (release_executor R by_whom iid stored call eff w)))
     = s_attempts (snd w) @ [\<lparr>at_call = call, at_decision = eff, at_outcome = out\<rparr>]"
proof -
  obtain out w1 where a: "attempt_w R call eff w = (out, w1)" using prod.exhaust by blast
  have l: "s_attempts (snd w1) = s_attempts (snd w) @ [\<lparr>at_call = call, at_decision = eff, at_outcome = out\<rparr>]"
    using attempt_logged [of R call eff w] a by simp
  have keep: "keeps (\<lambda>w. s_attempts (snd w) = tried) (record_w R em)" for tried em
    by (simp add: keeps_iff attempts_record)
  have obs: "keeps (\<lambda>w. s_attempts (snd w) = tried) (count_observation R call)" for tried
    by (rule tried.quiet_kept [OF quiet_observation, where Q = "\<lambda>l. l = tried"])
  let ?rest = "case out of
      Inl e \<Rightarrow> if is_connector_error e
            then bind_w (record_w R (receipt R by_whom iid stored (release_failure R call eff e))) (\<lambda>_.
                   raise_w (if exn_class e = ''InheritanceWriteError'' then ReleaseRefusedError (exn_str e) else e))
            else raise_w e
    | Inr r \<Rightarrow> bind_w (record_w R (receipt R by_whom iid stored (executed_record R call eff r))) (\<lambda>_.
         bind_w (count_observation R call) (\<lambda>_. ret_w (if dr_result r = JNull then None else Some (dr_result r))))"
  have "keeps (\<lambda>w. s_attempts (snd w) = s_attempts (snd w1)) ?rest"
    by (cases out) (simp_all add: keep obs keeps_ret keeps_bind)
  from keepsD [OF this, of w1] have "s_attempts (snd (snd (?rest w1))) = s_attempts (snd w1)" by simp
  moreover have "release_executor R by_whom iid stored call eff w = ?rest w1"
    unfolding release_executor_def catch_w_def a by (cases out) simp_all
  ultimately show ?thesis using l by metis
qed

lemma enforce_release_ok:
  "ok (reading e t log0) (enforce_release R by_whom iid stored)
     (\<lambda>_ w. released R e (t + 4) log0 stored (s_attempts (snd w))) (\<lambda>_ w. released R e (t + 4) log0 stored (s_attempts (snd w)))"
proof -
  let ?P = "\<lambda>w. s_attempts (snd w) = log0" and ?Q = "\<lambda>w. released R e (t + 4) log0 stored (s_attempts (snd w))"
  let ?rq = "\<lambda>ck draws. \<lparr>rq_call = stored, initial_decision = Allow, idempotency_key = None,
    counter_key = ck, counter_delta = 1, counter_cap = rt_counter_cap R, ancestor_draws = draws\<rparr>"
  let ?ac = "release_actions R by_whom iid stored"
  have run: "?Q (snd (enforce_w (lift_store (rt_store R)) env ?ac (?rq ck draws) w))" if "reading e (t + 3) log0 w" for env ck draws w
  proof (rule enforce_w_once [where P = ?P and Q = ?Q and w = w,
        OF lifted.kept_by_store_axioms [where Q = "\<lambda>s. s_attempts s = log0"]
           lifted.kept_by_store_axioms [where Q = "\<lambda>s. released R e (t + 4) log0 stored (s_attempts s)"]], goal_cases)
    case (3 w)
    then show ?case using quiet_pip [of R stored] by (cases w) (auto simp: release_actions_def quiet_def core_def)
  next
    case (5 f d u v x)
    have "timed_pip R stored w = (Inr f, v)" using 5(1,2) by (simp add: release_actions_def)
    from timed_pip_reads [OF this] that have pip: "fst (rt_pip R e (t + 4) stored) = Inr f"
      by (simp add: reading_def eval_nat_numeral)
    have "executes (approved_decider (sha256_hex (rt_hash R)) stored f)"
      and g: "fst (gated_release R stored f v) = approved_decider (sha256_hex (rt_hash R)) stored f"
      using 5(6) by (auto simp: release_actions_def gated_release_def gate_def split: sum.splits if_splits)
    with approved_decider_executes [of "sha256_hex (rt_hash R)" stored f] pip
    have "cleared R e (t + 4) stored" and "d = Allow"
      using 5(7) by (auto simp: cleared_def release_actions_def g pick_stricter_def)
    with release_executor_logged [of R by_whom iid stored stored Allow x] 5(4) show ?case
      by (auto simp: release_actions_def released_def)
  qed (use that in \<open>auto simp: reading_def released_def release_actions_def gated_release_def\<close>)
  have enf: "ok (reading e (Suc (Suc (Suc t))) log0) (enforce_w (lift_store (rt_store R)) env ?ac (?rq ck draws)) (\<lambda>_. ?Q) (\<lambda>_. ?Q)" for env ck draws
    using run unfolding ok_def by (auto simp: eval_nat_numeral split: prod.split sum.split) (metis snd_conv)+
  show ?thesis
    unfolding enforce_release_def
    by (rule ok_bind [OF ok_conseq [OF reading_steps(1)] ok_bind [OF reading_steps(5) ok_bind [OF reading_steps(4)
          ok_bind [OF reading_steps(3) enf]]]]; simp add: released_def)
qed

lemma release_stored_ok:
  "ok (reading e t log0) (release_stored R by_whom iid stored)
     (\<lambda>_ w. released R e (t + 4) log0 stored (s_attempts (snd w))) (\<lambda>_ w. released R e (t + 4) log0 stored (s_attempts (snd w)))"
proof -
  have "keeps (\<lambda>w. released R e (t + 4) log0 stored (s_attempts (snd w))) (record_w R em)" for em
    by (simp add: keeps_iff attempts_record)
  then have "keeps (\<lambda>w. released R e (t + 4) log0 stored (s_attempts (snd w)))
     (if kind (er_decision enforced) = k_allow then ret_w (er_result enforced)
      else let reason = release_reason (er_decision enforced) in
        bind_w (record_w R (receipt R by_whom iid stored
          (stored_record R iid stored (kind_str (kind (er_decision enforced))) ''denied'' (Some reason)))) (\<lambda>_.
            raise_w (ReleaseRefusedError reason)))" for enforced
    by (simp add: Let_def keeps_ret keeps_bind)
  then show ?thesis unfolding release_stored_def by (rule ok_bind [OF enforce_release_ok])
qed

lemma claim_won:
  assumes "claim_pending S iid new_status by_whom now skew st = (Inr (Inr i), st')"
  obtains j where "get_intent S st iid = Inr (Some i)" and "end_judged_at now skew = Inr j" and "j < in_expiry i"
    and "fst (transition_status S iid ''pending'' new_status (Some by_whom) None st)"
  using assms
  by (auto simp: claim_pending_def is_expired_def bind_r_Inr_iff expired_result_def Let_def
      split: sum.splits option.splits prod.splits if_splits)

text \<open>What an approval may have done to the executor's log: nothing, or the one run of the stored call.\<close>

definition approval_ran ::
  "('e, 'i, 'h, 'k, 'g) BrokerRuntime \<Rightarrow> 'e \<Rightarrow> nat \<Rightarrow> 'i \<Rightarrow> attempt list \<Rightarrow> string \<Rightarrow> string \<Rightarrow> attempt list \<Rightarrow> bool" where
  "approval_ran R e t st log0 iid by_whom tried \<longleftrightarrow>
     tried = log0
     \<or> (\<exists>i j. get_intent (rt_intent_store R) st iid = Inr (Some i)
          \<and> end_judged_at (rt_wall R t) (rt_clock_skew R) = Inr j \<and> j < in_expiry i
          \<and> fst (transition_status (rt_intent_store R) iid ''pending'' ''approved'' (Some by_whom) None st)
          \<and> released R e (t + 5) log0 (materializedRequest i) tried)"

lemma approve_w_ok:
  fixes R :: "('e, 'i, 'h, 'k, 'g) BrokerRuntime"
  shows "ok (\<lambda>w. reading e t log0 w \<and> s_intents (snd w) = st) (approve_w R iid by_whom)
     (\<lambda>_ w. approval_ran R e t st log0 iid by_whom (s_attempts (snd w)))
     (\<lambda>_ w. approval_ran R e t st log0 iid by_whom (s_attempts (snd w)))"
proof -
  let ?Q = "\<lambda>_ w. approval_ran R e t st log0 iid by_whom (s_attempts (snd w))"
  let ?won = "\<lambda>i. \<exists>j. get_intent (rt_intent_store R) st iid = Inr (Some i)
    \<and> end_judged_at (rt_wall R t) (rt_clock_skew R) = Inr j \<and> j < in_expiry i
    \<and> fst (transition_status (rt_intent_store R) iid ''pending'' ''approved'' (Some by_whom) None st)"
  have now: "ok (\<lambda>w. reading e t log0 w \<and> s_intents (snd w) = st) (wall_w R)
      (\<lambda>now w. reading e (Suc t) log0 w \<and> s_intents (snd w) = st \<and> now = rt_wall R t) ?Q"
    by (auto simp: ok_def reading_def wall_w_def action_defs)
  have claim: "ok (\<lambda>w. reading e (Suc t) log0 w \<and> s_intents (snd w) = st \<and> now = rt_wall R t)
      (intents_w (claim_pending (rt_intent_store R) iid ''approved'' by_whom now (rt_clock_skew R)))
      (\<lambda>claim w. reading e (Suc t) log0 w \<and> (\<forall>i. claim = Inr i \<longrightarrow> ?won i)) ?Q" for now
    unfolding ok_def
    by (auto simp: intents_w_def approval_ran_def reading_def Let_def split: prod.split sum.split elim!: claim_won)
  have finish: "keeps (\<lambda>w. approval_ran R e t st log0 iid by_whom (s_attempts (snd w))) (intents_w g)" for g :: "'i \<Rightarrow> (exn + ExecutionResult) \<times> 'i"
    by (rule tried.quiet_kept [OF quiet_intents, where Q = "approval_ran R e t st log0 iid by_whom"])
  have wall: "keeps (\<lambda>w. approval_ran R e t st log0 iid by_whom (s_attempts (snd w))) (wall_w R)"
    by (rule tried.quiet_kept [OF quiet_wall(1), where Q = "approval_ran R e t st log0 iid by_whom"])
  have run: "ok (\<lambda>w. reading e (Suc t) log0 w \<and> (\<forall>i. claim = Inr i \<longrightarrow> ?won i))
      (case claim of Inl answer \<Rightarrow> ret_w answer
       | Inr i \<Rightarrow> catch_w (release_stored R by_whom iid (materializedRequest i))
           (\<lambda>e. intents_w (finish_release (rt_intent_store R) iid now (Inl e)))
           (\<lambda>res. bind_w (wall_w R) (\<lambda>t. intents_w (finish_release (rt_intent_store R) iid t (Inr res))))) ?Q ?Q"
    for claim now
  proof (cases claim)
    case (Inl a)
    then show ?thesis by (auto simp: approval_ran_def reading_def intro!: ok_ret)
  next
    case (Inr i)
    show ?thesis
    proof (cases "?won i")
      case True
      have "ok (reading e (Suc t) log0) (release_stored R by_whom iid (materializedRequest i)) ?Q ?Q"
        by (rule ok_conseq [OF release_stored_ok]) (use True in \<open>auto simp: approval_ran_def add.commute [of 5]\<close>)
      from ok_catch [OF this keeps_bind [OF wall finish] finish] show ?thesis
        unfolding Inr sum.case by (rule ok_conseq) auto
    next
      case False
      with Inr show ?thesis by (auto simp: ok_def)
    qed
  qed
  show ?thesis unfolding approve_w_def by (rule ok_bind [OF now ok_bind [OF claim run]])
qed

text \<open>An approval as a whole: the log is unchanged, or it gained the one run of a releasable intent's call.\<close>

definition approval_effect ::
  "('e, 'i, 'h, 'k, 'g) BrokerRuntime \<Rightarrow> 'e \<Rightarrow> nat \<Rightarrow> 'i \<Rightarrow> attempt list \<Rightarrow> string \<Rightarrow> string \<Rightarrow> string option \<Rightarrow> attempt list \<Rightarrow> bool" where
  "approval_effect R e t st log0 iid by_whom shown tried \<longleftrightarrow>
     tried = log0
     \<or> (\<exists>i out. releasable R st (rt_wall R t) iid by_whom i \<and> shown = None \<and> cleared R e (t + 5) (materializedRequest i)
          \<and> tried = log0 @ [\<lparr>at_call = materializedRequest i, at_decision = Allow, at_outcome = out\<rparr>])"

lemma shown_matches_nothing:
  "shown_mismatch shown (Some i) = None \<Longrightarrow> bc_tool (materializedRequest i) \<noteq> HARNESS_TOOL \<Longrightarrow> shown = None"
  by (cases shown) (auto simp: shown_mismatch_def held_input_digest_def Let_def split: if_splits)

lemma approve_held_ok:
  fixes R :: "('e, 'i, 'h, 'k, 'g) BrokerRuntime"
  assumes "get_intent (rt_intent_store R) st iid = Inr held"
  shows "ok (\<lambda>w. reading e t log0 w \<and> s_intents (snd w) = st) (approve_held R iid by_whom shown held)
     (\<lambda>_ w. approval_effect R e t st log0 iid by_whom shown (s_attempts (snd w)))
     (\<lambda>_ w. approval_effect R e t st log0 iid by_whom shown (s_attempts (snd w)))"
proof -
  let ?P = "\<lambda>w :: ('e, 'i, 'h, 'k) world. reading e t log0 w \<and> s_intents (snd w) = st"
  let ?E = "approval_effect R e t st log0 iid by_whom shown"
  let ?Q = "\<lambda>_ w. ?E (s_attempts (snd w))"
  have start: "ok ?P m ?Q ?Q" if "keeps (\<lambda>w. ?E (s_attempts (snd w))) m" for m :: "(('e, 'i, 'h, 'k) world, 'b) act"
    by (rule ok_conseq [OF that]) (auto simp: approval_effect_def reading_def)
  show ?thesis
  proof (cases "foreign_intent_result R held iid")
    case (Some r)
    show ?thesis unfolding approve_held_def Some option.case by (rule start [OF keeps_ret(1)])
  next
    case own: None
    show ?thesis
    proof (cases "shown_mismatch shown held")
      case (Some i)
      show ?thesis
        unfolding approve_held_def own Some option.case
        by (rule start, rule keeps_bind [OF _ keeps_ret(1)]) (simp add: keeps_iff attempts_record)
    next
      case None
      have "ok ?P (if is_harness_hold held
          then bind_w (clock_w R) (\<lambda>now. intents_w (approve_for_reissue (rt_intent_store R) iid by_whom now (rt_clock_skew R)))
          else approve_w R iid by_whom) ?Q ?Q"
      proof (cases "is_harness_hold held")
        case True
        have "quiet (bind_w (clock_w R) (\<lambda>now. intents_w (approve_for_reissue (rt_intent_store R) iid by_whom now (rt_clock_skew R))))"
          by (intro quiet_rules)
        from start [OF tried.quiet_kept [OF this, where Q = ?E]] True show ?thesis by simp
      next
        case False
        have "?E tried" if "approval_ran R e t st log0 iid by_whom tried" for tried
          using that assms own None False shown_matches_nothing [of shown]
          by (auto simp: approval_ran_def approval_effect_def releasable_def released_def is_harness_hold_def
              foreign_intent_result_def split: if_splits)
        with False show ?thesis by (auto intro: ok_conseq [OF approve_w_ok])
      qed
      then show ?thesis
        unfolding approve_held_def own None option.case
        by (rule ok_catch) (rule tried.with_late_kept [where Q = ?E] tried.quarantined_kept(2) [where Q = ?E])+
    qed
  qed
qed

lemma approve_intent_effect:
  "approval_effect R (fst w) (Suc (s_ticks (snd w))) (s_intents (snd w)) (s_attempts (snd w)) iid by_whom shown
     (s_attempts (snd (snd (approve_intent R iid by_whom shown w))))"
proof -
  let ?st = "s_intents (snd w)" and ?l = "s_attempts (snd w)" and ?t = "s_ticks (snd w)"
  let ?E = "approval_effect R (fst w) (Suc ?t) ?st ?l iid by_whom shown"
  let ?P = "\<lambda>t v. reading (fst w) t ?l v \<and> s_intents (snd v) = ?st"
  let ?Q = "\<lambda>_ w. ?E (s_attempts (snd w))"
  have put: "ok (?P t) (put_w (\<lambda>s. s\<lparr>s_inputs := f s\<rparr>)) (\<lambda>_. ?P t) ?Q" for f t by (simp add: ok_def put_w_def reading_def)
  have clock: "ok (?P ?t) (clock_w R) (\<lambda>_. ?P (Suc ?t)) ?Q"
    by (auto simp: ok_def clock_w_def action_defs approval_effect_def reading_def split: sum.split)
  have get: "ok (?P (Suc ?t)) (get_intent_w R iid) (\<lambda>held w. ?P (Suc ?t) w \<and> get_intent (rt_intent_store R) ?st iid = Inr held) (\<lambda>_. ?P (Suc ?t))"
    by (auto simp: ok_def get_intent_w_def split: sum.split)
  have held: "ok (\<lambda>w. ?P (Suc ?t) w \<and> get_intent (rt_intent_store R) ?st iid = Inr held)
      (approve_held R iid by_whom shown held) ?Q ?Q" for held
    using approve_held_ok [of R ?st iid held "fst w" "Suc ?t" ?l by_whom shown] by (auto simp: ok_def)
  have quar: "ok (?P (Suc ?t)) (quarantined_intent_result R (record_w R) iid ''approve'' e) ?Q ?Q" for e
    by (rule ok_conseq [OF tried.quarantined_kept(2) [where Q = ?E]]) (auto simp: approval_effect_def reading_def)
  have "ok (?P ?t) (approve_intent R iid by_whom shown) ?Q ?Q"
    unfolding approve_intent_def
    by (rule ok_bind [OF put ok_bind [OF clock ok_bind [OF put ok_catch [OF get held quar]]]])
  from ok_snd [OF this, of w] show ?thesis by (simp add: reading_def)
qed

section \<open>What a release leaves on the tape\<close>

type_synonym receipt_entry =
  "string \<times> string \<times> string \<times> string \<times> string option \<times> string option \<times> string option"

text \<open>The records that tell of the connector, with the approval they name; and what one attempt of a release must
  leave: a refusal by the connector is recorded as a failure here.\<close>

definition receipts :: "AuditRecord list \<Rightarrow> receipt_entry list" where
  "receipts rs =
     map (\<lambda>r. (au_tool r, au_op r, argsDigest r, au_outcome r, au_approvedBy r, intentId r, storedCallDigest r))
       (filter (\<lambda>r. au_outcome r \<in> set EXECUTION_OUTCOMES) rs)"

definition receipt_of :: "('e, 'i, 'h, 'k, 'g) BrokerRuntime \<Rightarrow> string \<Rightarrow> string \<Rightarrow> attempt \<Rightarrow> receipt_entry list" where
  "receipt_of R approved_by iid a =
     (let call = at_call a;
          entry = (\<lambda>op outcome. (bc_tool call, op, hash_args (rt_hash R) (bc_args call), outcome, Some approved_by,
                     Some iid, Some (hash_stored_call R call)))
      in case at_outcome a of
           Inr r \<Rightarrow> [entry (dr_op r) ''executed'']
         | Inl e \<Rightarrow> if is_connector_error e then [entry (bc_op call) ''failed''] else [])"

definition told ::
  "('e, 'i, 'h, 'k, 'g) BrokerRuntime \<Rightarrow> ('k \<Rightarrow> bool) \<Rightarrow> ('k \<Rightarrow> AuditRecord list) \<Rightarrow> 'k \<Rightarrow> attempt list \<Rightarrow> string \<Rightarrow> string
     \<Rightarrow> 'k \<times> TurnContext option \<times> attempt list \<Rightarrow> bool" where
  "told R good tape k0 log0 approved_by iid c \<longleftrightarrow>
     (case c of (k, turn, tried) \<Rightarrow>
        good k \<and> linked (rt_hash R) 0 (GENESIS_PREV_HASH (rt_hash R)) (tape k)
        \<and> (\<exists>recs new. tape k = tape k0 @ recs \<and> tried = log0 @ new
             \<and> receipts recs = concat (map (receipt_of R approved_by iid) new)))"

lemma receipts_append [simp]: "receipts (xs @ ys) = receipts xs @ receipts ys"
  by (simp add: receipts_def)

lemma failed_outcome [simp]: "''failed'' \<in> set AUDIT_OUTCOMES" "''failed'' \<in> set EXECUTION_OUTCOMES"
  by (simp_all add: AUDIT_OUTCOMES_def EXECUTION_OUTCOMES_def)

lemma build_record_receipts [simp]:
  "au_approvedBy (build_record H em now n prev) = em_approved_by em" "intentId (build_record H em now n prev) = em_intent_id em"
  "storedCallDigest (build_record H em now n prev) = em_stored_call_digest em"
  by (simp_all add: build_record_def Let_def)

lemma with_audit_fields_receipts [simp]:
  "em_approved_by (with_audit_fields di em) = em_approved_by em" "em_intent_id (with_audit_fields di em) = em_intent_id em"
  "em_stored_call_digest (with_audit_fields di em) = em_stored_call_digest em"
  by (simp_all add: with_audit_fields_def)

context broker_tape
begin

lemma told_appended:
  assumes "told R wf tape k0 log0 by_whom iid (k, turn, tried)" and "wf k'"
    and "tape k' = tape k @ [build_record (rt_hash R) em now (int (length (tape k))) (head_hash genesis (tape k))]"
    and "receipts [build_record (rt_hash R) em now (int (length (tape k))) (head_hash genesis (tape k))]
      = concat (map (receipt_of R by_whom iid) gain)"
  shows "told R wf tape k0 log0 by_whom iid (k', turn', tried @ gain)"
proof -
  let ?r = "build_record (rt_hash R) em now (int (length (tape k))) (head_hash genesis (tape k))"
  from assms(1) obtain recs new where i: "linked (rt_hash R) 0 genesis (tape k)" "tape k = tape k0 @ recs" "tried = log0 @ new"
    "receipts recs = concat (map (receipt_of R by_whom iid) new)" by (auto simp: told_def)
  have "linked (rt_hash R) 0 genesis (tape k')" using i(1) assms(3) by (simp add: linked_append)
  moreover have "tape k' = tape k0 @ (recs @ [?r])" "tried @ gain = log0 @ (new @ gain)"
    "receipts (recs @ [?r]) = concat (map (receipt_of R by_whom iid) (new @ gain))"
    using i assms(3,4) by simp_all
  ultimately show ?thesis using assms(2) unfolding told_def prod.case by blast
qed

lemma told_emit:
  assumes "valid_emission em" and "em_outcome em \<notin> set EXECUTION_OUTCOMES"
  shows "keeps (\<lambda>w. told R wf tape k0 log0 by_whom iid (core (snd w))) (emit_w R em)"
  unfolding keeps_iff
proof (intro allI impI)
  fix w :: "('e, 'i, 'h, 'k) world"
  assume t: "told R wf tape k0 log0 by_whom iid (core (snd w))"
  then have "wf (s_tape (snd w))" by (simp add: told_def core_def)
  from emit_w_appends [OF this assms(1)] obtain now k n where
    e: "emit_w R em w = (Inr (), fst w, (snd w)\<lparr>s_ticks := n, s_tape := k\<rparr>)" "wf k"
      "tape k = tape (s_tape (snd w)) @ [build_record (rt_hash R) em now
         (int (length (tape (s_tape (snd w))))) (head_hash genesis (tape (s_tape (snd w))))]" by blast
  from told_appended [OF t [unfolded core_def] e(2,3), where gain = "[]"] assms(2) e(1)
  show "told R wf tape k0 log0 by_whom iid (core (snd (snd (emit_w R em w))))"
    by (simp add: receipts_def core_def)
qed

end

sublocale broker_tape \<subseteq> telling: verb_invariant R "\<lambda>w. told R wf tape k0 log0 by_whom iid (core (snd w))"
  for k0 log0 by_whom iid
  by unfold_locales (auto intro: told_emit)

context broker_tape
begin

abbreviation telling_of :: "'k \<Rightarrow> attempt list \<Rightarrow> string \<Rightarrow> string \<Rightarrow> ('e, 'i, 'h, 'k) world \<Rightarrow> bool" where
  "telling_of k0 log0 by_whom iid w \<equiv> told R wf tape k0 log0 by_whom iid (core (snd w))"

text \<open>An attempt that still owes its record.\<close>

definition owing :: "'k \<Rightarrow> attempt list \<Rightarrow> string \<Rightarrow> string \<Rightarrow> attempt \<Rightarrow> ('e, 'i, 'h, 'k) world \<Rightarrow> bool" where
  "owing k0 log0 by_whom iid a w \<longleftrightarrow>
     (\<exists>k turn tried. core (snd w) = (k, turn, tried @ [a]) \<and> told R wf tape k0 log0 by_whom iid (k, turn, tried))"

lemma attempt_owes:
  "ok (telling_of k0 log0 by_whom iid) (attempt_w R call eff)
     (\<lambda>r. owing k0 log0 by_whom iid \<lparr>at_call = call, at_decision = eff, at_outcome = Inr r\<rparr>)
     (\<lambda>e. owing k0 log0 by_whom iid \<lparr>at_call = call, at_decision = eff, at_outcome = Inl e\<rparr>)"
proof (rule okI)
  fix w :: "('e, 'i, 'h, 'k) world"
  assume t: "telling_of k0 log0 by_whom iid w"
  let ?m = "bind_w (write_inheritance_if_declared R call eff) (\<lambda>_. doer_w R call eff)"
  obtain r w1 where b: "?m w = (r, w1)" using prod.exhaust by blast
  have "quiet ?m" by (intro quiet_rules)
  then have "core (snd w1) = core (snd w)" using b unfolding quiet_def by (metis snd_conv)
  then have "owing k0 log0 by_whom iid \<lparr>at_call = call, at_decision = eff, at_outcome = r\<rparr> (snd (attempt_w R call eff w))"
    using t b by (auto simp: attempt_w_def owing_def core_def)
  then show "case attempt_w R call eff w of
       (Inl e, w1) \<Rightarrow> owing k0 log0 by_whom iid \<lparr>at_call = call, at_decision = eff, at_outcome = Inl e\<rparr> w1
     | (Inr r, w1) \<Rightarrow> owing k0 log0 by_whom iid \<lparr>at_call = call, at_decision = eff, at_outcome = Inr r\<rparr> w1"
    using b by (cases r) (auto simp: attempt_w_def)
qed

lemma owing_settled:
  assumes "valid_emission em"
    and "receipt_of R by_whom iid a = [(em_tool em, em_op em, hash_args (rt_hash R) (em_args em), em_outcome em,
           em_approved_by em, em_intent_id em, em_stored_call_digest em)]"
    and "em_outcome em \<in> set EXECUTION_OUTCOMES"
  shows "ok (owing k0 log0 by_whom iid a) (record_w R em) (\<lambda>_. telling_of k0 log0 by_whom iid) E"
proof (rule okI)
  fix w :: "('e, 'i, 'h, 'k) world"
  assume "owing k0 log0 by_whom iid a w"
  then obtain k turn tried where c: "core (snd w) = (k, turn, tried @ [a])"
    and t: "told R wf tape k0 log0 by_whom iid (k, turn, tried)" by (auto simp: owing_def)
  then have k: "s_tape (snd w) = k" "wf k" "s_attempts (snd w) = tried @ [a]" by (auto simp: core_def told_def)
  from record_w_appends [of w em] k assms(1) obtain now di k' n where
    r: "record_w R em w = (Inr (), fst w, (snd w)\<lparr>s_ticks := n, s_tape := k'\<rparr>)" "wf k'"
      "tape k' = tape k @ [build_record (rt_hash R) (with_audit_fields di em) now
         (int (length (tape k))) (head_hash genesis (tape k))]" by blast
  have "receipts [build_record (rt_hash R) (with_audit_fields di em) now (int (length (tape k))) (head_hash genesis (tape k))]
      = concat (map (receipt_of R by_whom iid) [a])"
    using assms(2,3) by (simp add: receipts_def)
  from told_appended [OF t r(2,3) this, of "s_turn (snd w)"] r(1) k
  show "case record_w R em w of (Inl e, w1) \<Rightarrow> E e w1 | (Inr x, w1) \<Rightarrow> telling_of k0 log0 by_whom iid w1"
    by (simp add: core_def)
qed

lemma owing_nothing:
  assumes "receipt_of R by_whom iid a = []" and "owing k0 log0 by_whom iid a w"
  shows "telling_of k0 log0 by_whom iid w"
proof -
  from assms(2) obtain k turn tried recs new where c: "core (snd w) = (k, turn, tried @ [a])"
    and t: "wf k" "linked (rt_hash R) 0 genesis (tape k)" "tape k = tape k0 @ recs" "tried = log0 @ new"
      "receipts recs = concat (map (receipt_of R by_whom iid) new)"
    by (auto simp: owing_def told_def)
  have "tried @ [a] = log0 @ (new @ [a])" "receipts recs = concat (map (receipt_of R by_whom iid) (new @ [a]))"
    using t(4,5) assms(1) by simp_all
  with c t(1-3) show ?thesis unfolding told_def c prod.case by blast
qed

lemma release_executor_tells:
  "keeps (telling_of k0 log0 by_whom iid) (release_executor R by_whom iid call call eff)"
  unfolding release_executor_def
proof (rule ok_catch [OF attempt_owes])
  fix r
  let ?em = "receipt R by_whom iid call (executed_record R call eff r)"
  let ?a = "\<lparr>at_call = call, at_decision = eff, at_outcome = Inr r\<rparr>"
  have rec: "ok (owing k0 log0 by_whom iid ?a) (record_w R ?em) (\<lambda>_. telling_of k0 log0 by_whom iid)
      (\<lambda>_. telling_of k0 log0 by_whom iid)"
    by (rule owing_settled) (simp_all add: receipt_def executed_record_def receipt_of_def Let_def)
  have "keeps (telling_of k0 log0 by_whom iid) (bind_w (count_observation R call) (\<lambda>_.
      ret_w (if dr_result r = JNull then None else Some (dr_result r))))"
    by (rule telling.quiet_kept) (intro quiet_rules)
  then show "ok (owing k0 log0 by_whom iid ?a) (bind_w (record_w R ?em) (\<lambda>_. bind_w (count_observation R call) (\<lambda>_.
      ret_w (if dr_result r = JNull then None else Some (dr_result r)))))
      (\<lambda>_. telling_of k0 log0 by_whom iid) (\<lambda>_. telling_of k0 log0 by_whom iid)"
    by (rule ok_bind [OF rec])
next
  fix e
  let ?em = "receipt R by_whom iid call (release_failure R call eff e)"
  let ?a = "\<lparr>at_call = call, at_decision = eff, at_outcome = Inl e\<rparr>"
  show "ok (owing k0 log0 by_whom iid ?a)
     (if is_connector_error e
      then bind_w (record_w R ?em) (\<lambda>_. raise_w (if exn_class e = ''InheritanceWriteError'' then ReleaseRefusedError (exn_str e) else e))
      else raise_w e) (\<lambda>_. telling_of k0 log0 by_whom iid) (\<lambda>_. telling_of k0 log0 by_whom iid)"
  proof (cases "is_connector_error e")
    case True
    have "ok (owing k0 log0 by_whom iid ?a) (record_w R ?em) (\<lambda>_. telling_of k0 log0 by_whom iid)
        (\<lambda>_. telling_of k0 log0 by_whom iid)"
      by (rule owing_settled) (simp_all add: receipt_def release_failure_def receipt_of_def Let_def True)
    with True show ?thesis by (simp only: if_True) (rule ok_bind [OF _ keeps_ret(2)])
  next
    case False
    have "receipt_of R by_whom iid ?a = []" using False by (simp add: receipt_of_def Let_def)
    from ok_raise [OF owing_nothing [OF this]] False show ?thesis by simp
  qed
qed

lemma release_stored_tells: "keeps (telling_of k0 log0 by_whom iid) (release_stored R by_whom iid stored)"
proof -
  let ?rq = "\<lambda>ck draws. \<lparr>rq_call = stored, initial_decision = Allow, idempotency_key = None,
    counter_key = ck, counter_delta = 1, counter_cap = rt_counter_cap R, ancestor_draws = draws\<rparr>"
  let ?ac = "release_actions R by_whom iid stored"
  have run: "keeps (telling_of k0 log0 by_whom iid) (enforce_w (lift_store (rt_store R)) env ?ac (?rq ck draws))" for env ck draws
    unfolding keeps_iff
  proof (intro allI impI)
    fix w :: "('e, 'i, 'h, 'k) world"
    assume "telling_of k0 log0 by_whom iid w"
    then show "telling_of k0 log0 by_whom iid (snd (enforce_w (lift_store (rt_store R)) env ?ac (?rq ck draws) w))"
      by (rule lifted.enforce_w_keeps [where Q = "\<lambda>s. told R wf tape k0 log0 by_whom iid (core s)"])
         (simp_all add: release_actions_def gated_release_def core_def [of "_\<lparr>s_ticks := _\<rparr>"] core_def [symmetric]
            keepsD [OF telling.quiet_kept [OF quiet_pip]] keepsD [OF release_executor_tells])
  qed
  have enforced: "keeps (telling_of k0 log0 by_whom iid) (enforce_release R by_whom iid stored)"
    unfolding enforce_release_def
    by (intro keeps_bind run telling.quiet_kept quiet_wall quiet_basic quiet_tree)
  have "keeps (telling_of k0 log0 by_whom iid) (record_w R (receipt R by_whom iid stored
      (stored_record R iid stored (kind_str k) ''denied'' reason)))" for k reason
    by (rule telling.record_kept) (simp_all add: receipt_def stored_record_def)
  then show ?thesis
    unfolding release_stored_def by (intro keeps_bind enforced) (simp add: Let_def keeps_ret keeps_bind)
qed

lemma approve_intent_tells: "keeps (telling_of k0 log0 by_whom iid) (approve_intent R iid by_whom shown)"
proof -
  let ?T = "telling_of k0 log0 by_whom iid"
  have w: "keeps ?T (approve_w R iid by_whom)"
  proof -
    have run: "keeps ?T (case claim of Inl answer \<Rightarrow> ret_w answer
       | Inr i \<Rightarrow> catch_w (release_stored R by_whom iid (materializedRequest i))
           (\<lambda>e. intents_w (finish_release (rt_intent_store R) iid now (Inl e)))
           (\<lambda>res. bind_w (wall_w R) (\<lambda>t. intents_w (finish_release (rt_intent_store R) iid t (Inr res)))))" for claim now
      by (cases claim) (simp_all add: keeps_ret keeps_catch keeps_bind release_stored_tells telling.quiet_kept quiet_intents quiet_wall)
    show ?thesis
      unfolding approve_w_def
      by (rule keeps_bind [OF telling.quiet_kept [OF quiet_wall(1)] keeps_bind [OF telling.quiet_kept [OF quiet_intents] run]])
  qed
  have mismatch: "keeps ?T (record_w R ((stored_record R iid stored ''deny'' ''denied'' reason)\<lparr>em_approved_by := Some by_whom\<rparr>))" for stored reason
    by (rule telling.record_kept) (simp_all add: stored_record_def)
  have "keeps ?T (if h then bind_w (clock_w R) (\<lambda>now. intents_w (approve_for_reissue (rt_intent_store R) iid by_whom now (rt_clock_skew R)))
      else approve_w R iid by_whom)" for h
    by (simp add: w keeps_bind telling.quiet_kept quiet_wall quiet_intents)
  note run = keeps_catch [OF this telling.quarantined_kept(2) telling.with_late_kept]
  have held: "keeps ?T (approve_held R iid by_whom shown held)" for held
    unfolding approve_held_def
    by (cases "foreign_intent_result R held iid"; cases "shown_mismatch shown held")
       (simp_all only: option.case run keeps_ret keeps_bind mismatch)
  show ?thesis
    unfolding approve_intent_def
    by (intro keeps_bind keeps_catch held telling.quarantined_kept(2) telling.get_kept telling.quiet_kept quiet_swept quiet_wall)
qed

end

section \<open>The expiry sweep\<close>

definition due_hold :: "('e, 'i, 'h, 'k, 'g) BrokerRuntime \<Rightarrow> instant \<Rightarrow> Intent \<Rightarrow> bool" where
  "due_hold R moment i \<longleftrightarrow> in_status i = ''pending'' \<and> owns_intent R i \<and> in_expiry i \<le> moment"

text \<open>The view of the intent store once the due holds among some identifiers are expired.\<close>

definition expire_view ::
  "('e, 'i, 'h, 'k, 'g) BrokerRuntime \<Rightarrow> instant \<Rightarrow> string set \<Rightarrow> (string \<rightharpoonup> Intent) \<Rightarrow> string \<rightharpoonup> Intent" where
  "expire_view R moment ids v =
     (\<lambda>k. map_option (\<lambda>i. if k \<in> ids \<and> due_hold R moment i then moved ''expired'' None None i else i) (v k))"

text \<open>The records a pass wrote: one per hold it expired, naming it.\<close>

definition expiry_records ::
  "('e, 'i, 'h, 'k, 'g) BrokerRuntime \<Rightarrow> instant \<Rightarrow> string set \<Rightarrow> (string \<rightharpoonup> Intent) \<Rightarrow> AuditRecord list \<Rightarrow> bool" where
  "expiry_records R moment ids v recs \<longleftrightarrow>
     distinct (map intentId recs)
     \<and> set (map intentId recs) = Some ` {k \<in> ids. \<exists>i. v k = Some i \<and> due_hold R moment i}
     \<and> set (map au_outcome recs) \<subseteq> {''expired''}"

text \<open>What a pass answers: the number of holds it expired or, where a flood cap is set and the period a whole hold before
  the instant has no name, the failure to deliver the alarm.\<close>

definition counted_or_unflushed ::
  "('e, 'i, 'h, 'k, 'g) BrokerRuntime \<Rightarrow> instant \<Rightarrow> nat \<Rightarrow> exn + nat \<Rightarrow> bool" where
  "counted_or_unflushed R moment n out \<longleftrightarrow>
     out = Inr n
     \<or> (\<exists>e. alarm_cap R \<noteq> None \<and> out = Inl e
          \<and> bind_r (dt_add moment (- (DEFAULT_APPROVAL_EXPIRY_SECONDS * SECOND))) (\<lambda>t. period_bucket_of t (rt_counter_period R)) = Inl e)"

lemma flush_w_outcome:
  assumes "flush_w R (ret_w moment) w = (r, w')"
  shows "core (snd w') = core (snd w) \<and> s_intents (snd w') = s_intents (snd w)
    \<and> (r = Inr () \<or> (\<exists>e. alarm_cap R \<noteq> None \<and> r = Inl e
          \<and> bind_r (dt_add moment (- (DEFAULT_APPROVAL_EXPIRY_SECONDS * SECOND))) (\<lambda>t. period_bucket_of t (rt_counter_period R)) = Inl e))"
proof (cases "alarm_cap R")
  case None
  with assms show ?thesis by (auto simp: flush_w_def ret_w_def)
next
  case (Some cap)
  let ?settled = "bind_r (dt_add moment (- (DEFAULT_APPROVAL_EXPIRY_SECONDS * SECOND))) (\<lambda>t. period_bucket_of t (rt_counter_period R))"
  have "fst (flush (alarm_of R cap) (rt_store R) moment al s) = (case ?settled of Inl e \<Rightarrow> Inl e | Inr _ \<Rightarrow> Inr ())" for al s
    by (simp add: flush_def alarm_of_def Let_def split: sum.split)
  with Some assms show ?thesis
    by (cases ?settled) (auto simp: flush_w_def bind_w_def ret_w_def Let_def core_def split: prod.splits, (metis fst_conv)+)
qed

lemma moved_not_due [simp]: "\<not> due_hold R moment (moved ''expired'' None None i)"
  by (simp add: due_hold_def moved_def)

lemma expire_view_twice:
  "expire_view R moment ids (expire_view R moment ids' v) = expire_view R moment (ids' \<union> ids) v"
  by (auto simp: expire_view_def fun_eq_iff option.map_comp comp_def intro!: option.map_cong)

lemma count_expiry_total:
  "\<exists>b w1. count_expiry_w R i w = (Inr b, w1) \<and> core (snd w1) = core (snd w) \<and> s_intents (snd w1) = s_intents (snd w)"
  by (cases w) (auto simp: count_expiry_w_def wall_w_def action_defs Let_def core_def split: option.split prod.split)

lemma is_expired_zero:
  "DATETIME_MIN \<le> moment \<Longrightarrow> moment \<le> DATETIME_MAX \<Longrightarrow> is_expired x moment ZERO_SKEW = Inr (x \<le> moment)"
  using end_judged_at_Inr_iff [of moment ZERO_SKEW moment]
  by (simp add: is_expired_def bind_r_def ZERO_SKEW_def DAY_def)

context broker_tape
begin

lemma record_expiry_appends:
  assumes "wf (s_tape (snd w))"
  shows "\<exists>w' r. record_expiry R i w = (Inr (), w') \<and> s_intents (snd w') = s_intents (snd w) \<and> s_attempts (snd w') = s_attempts (snd w)
    \<and> wf (s_tape (snd w')) \<and> tape (s_tape (snd w')) = tape (s_tape (snd w)) @ [r] \<and> intentId r = Some (in_id i) \<and> au_outcome r = ''expired''"
proof -
  obtain b w1 where c: "count_expiry_w R i w = (Inr b, w1)" "core (snd w1) = core (snd w)" "s_intents (snd w1) = s_intents (snd w)"
    using count_expiry_total by blast
  let ?em = "(stored_record R (in_id i) (materializedRequest i) ''require_approval'' ''expired'' (Some APPROVAL_EXPIRED_REASON))
      \<lparr>em_error := (if b then None else Some ALARM_COUNT_WRITE_FAILED), em_expired_at := Some (isoformat_utc (in_expiry i))\<rparr>"
  have "wf (s_tape (snd w1))" using assms c(2) by (simp add: core_def)
  moreover have "valid_emission ?em" by (simp add: stored_record_def)
  ultimately obtain now k n where e: "emit_w R ?em w1 = (Inr (), fst w1, (snd w1)\<lparr>s_ticks := n, s_tape := k\<rparr>)" "wf k"
    "tape k = tape (s_tape (snd w1)) @ [build_record (rt_hash R) ?em now
         (int (length (tape (s_tape (snd w1))))) (head_hash genesis (tape (s_tape (snd w1))))]"
    using emit_w_appends by blast
  then show ?thesis
    using c by (auto simp: record_expiry_def bind_w_def core_def stored_record_def)
qed

text \<open>One candidate: a due hold is expired and recorded, anything else is left alone.\<close>

lemma sweep_one_due:
  assumes store: "intent_store (rt_intent_store R) iwf view" and st: "iwf (s_intents (snd w))"
    and k: "wf (s_tape (snd w))" and moment: "DATETIME_MIN \<le> moment" "moment \<le> DATETIME_MAX"
  shows "\<exists>recs w'. sweep_one R moment iid w = (Inr (length recs), w') \<and> iwf (s_intents (snd w'))
    \<and> view (s_intents (snd w')) = expire_view R moment {iid} (view (s_intents (snd w)))
    \<and> s_attempts (snd w') = s_attempts (snd w) \<and> wf (s_tape (snd w')) \<and> tape (s_tape (snd w')) = tape (s_tape (snd w)) @ recs
    \<and> expiry_records R moment {iid} (view (s_intents (snd w))) recs"
proof -
  let ?v = "view (s_intents (snd w))"
  note get = intent_store.get_view [OF store st, of iid]
  show ?thesis
  proof (cases "\<exists>i. ?v iid = Some i \<and> due_hold R moment i")
    case True
    then obtain i where i: "?v iid = Some i" "in_status i = ''pending''" "owns_intent R i" "in_expiry i \<le> moment"
      and d: "due_hold R moment i" by (auto simp: due_hold_def)
    have "in_id i = iid" by (rule intent_store.view_id [OF store st i(1)])
    moreover obtain s' where "transition_status (rt_intent_store R) iid ''pending'' ''expired'' None None (s_intents (snd w)) = (True, s')"
      and s': "iwf s'" "view s' = ?v(iid \<mapsto> moved ''expired'' None None i)"
      using intent_store.cas_view [OF store st lifecycle_statuses(3,8) i(1,2)] by blast
    ultimately have e: "expire_if_due (rt_intent_store R) i moment (s_intents (snd w)) = (Inr True, s')"
      using i by (simp add: expire_if_due_def is_expired_zero [OF moment])
    let ?w1 = "(fst w, (snd w)\<lparr>s_intents := s'\<rparr>)"
    obtain w' r where w': "record_expiry R i ?w1 = (Inr (), w')" "s_intents (snd w') = s'" "s_attempts (snd w') = s_attempts (snd w)"
      "wf (s_tape (snd w'))" "tape (s_tape (snd w')) = tape (s_tape (snd w)) @ [r]" "intentId r = Some iid" "au_outcome r = ''expired''"
      using record_expiry_appends [of ?w1 i] k \<open>in_id i = iid\<close> by auto
    have "sweep_one R moment iid w = (Inr (length [r]), w')"
      using get i e w'(1) by (simp add: sweep_one_def get_intent_w_def action_defs intents_w_def)
    moreover have "view s' = expire_view R moment {iid} ?v" "expiry_records R moment {iid} ?v [r]"
      using s'(2) i(1) d w'(6,7) by (auto simp: expire_view_def expiry_records_def fun_eq_iff map_option_case split: option.split)
    ultimately show ?thesis using s'(1) w'(2-5) by blast
  next
    case False
    have "sweep_one R moment iid w = (Inr (length []), w)"
    proof (cases "?v iid")
      case (Some i)
      with False have "owns_intent R i \<Longrightarrow> expire_if_due (rt_intent_store R) i moment (s_intents (snd w)) = (Inr False, s_intents (snd w))"
        by (auto simp: due_hold_def expire_if_due_def is_expired_zero [OF moment])
      with Some get show ?thesis by (simp add: sweep_one_def get_intent_w_def action_defs intents_w_def)
    qed (use get in \<open>simp add: sweep_one_def get_intent_w_def action_defs\<close>)
    moreover have "view (s_intents (snd w)) = expire_view R moment {iid} ?v" "expiry_records R moment {iid} ?v []"
      using False by (auto simp: expire_view_def expiry_records_def fun_eq_iff map_option_case split: option.split)
    ultimately show ?thesis using st k by (metis append_Nil2)
  qed
qed

lemma expiry_records_append:
  assumes "expiry_records R moment a v recs" and "expiry_records R moment b (expire_view R moment a v) recs'"
  shows "expiry_records R moment (a \<union> b) v (recs @ recs')"
proof -
  have later: "(\<exists>i. expire_view R moment a v k = Some i \<and> due_hold R moment i) \<longleftrightarrow> (\<exists>i. v k = Some i \<and> due_hold R moment i) \<and> k \<notin> a" for k
    by (cases "v k") (auto simp: expire_view_def)
  show ?thesis using assms unfolding expiry_records_def later by auto
qed

lemma sweep_candidates_due:
  assumes "intent_store (rt_intent_store R) iwf view" and "iwf (s_intents (snd w))"
    and "wf (s_tape (snd w))" and "DATETIME_MIN \<le> moment" "moment \<le> DATETIME_MAX"
  shows "\<exists>recs w'. sweep_candidates R moment ids w = (Inr (length recs), w') \<and> iwf (s_intents (snd w'))
    \<and> view (s_intents (snd w')) = expire_view R moment (set ids) (view (s_intents (snd w)))
    \<and> s_attempts (snd w') = s_attempts (snd w) \<and> wf (s_tape (snd w')) \<and> tape (s_tape (snd w')) = tape (s_tape (snd w)) @ recs
    \<and> expiry_records R moment (set ids) (view (s_intents (snd w))) recs"
  using assms(2,3)
proof (induction ids arbitrary: w)
  case Nil
  have "view (s_intents (snd w)) = expire_view R moment {} (view (s_intents (snd w)))"
    by (simp add: expire_view_def option.map_ident fun_eq_iff)
  with Nil show ?case by (auto simp: ret_w_def expiry_records_def)
next
  case (Cons iid ids)
  from sweep_one_due [OF assms(1) Cons.prems assms(4,5), of iid] obtain r1 w1 where
    one: "sweep_one R moment iid w = (Inr (length r1), w1)" "iwf (s_intents (snd w1))"
      "view (s_intents (snd w1)) = expire_view R moment {iid} (view (s_intents (snd w)))" "s_attempts (snd w1) = s_attempts (snd w)"
      "wf (s_tape (snd w1))" "tape (s_tape (snd w1)) = tape (s_tape (snd w)) @ r1"
      "expiry_records R moment {iid} (view (s_intents (snd w))) r1" by blast
  from Cons.IH [OF one(2,5)] obtain r2 w2 where
    rest: "sweep_candidates R moment ids w1 = (Inr (length r2), w2)" "iwf (s_intents (snd w2))"
      "view (s_intents (snd w2)) = expire_view R moment (set ids) (view (s_intents (snd w1)))" "s_attempts (snd w2) = s_attempts (snd w1)"
      "wf (s_tape (snd w2))" "tape (s_tape (snd w2)) = tape (s_tape (snd w1)) @ r2"
      "expiry_records R moment (set ids) (view (s_intents (snd w1))) r2" by blast
  have "sweep_candidates R moment (iid # ids) w = (Inr (length (r1 @ r2)), w2)"
    using one(1) rest(1) by (simp add: action_defs)
  moreover have "view (s_intents (snd w2)) = expire_view R moment (set (iid # ids)) (view (s_intents (snd w)))"
    using one(3) rest(3) by (simp add: expire_view_twice)
  moreover have "expiry_records R moment (set (iid # ids)) (view (s_intents (snd w))) (r1 @ r2)"
    using expiry_records_append [OF one(7) rest(7) [unfolded one(3)]] by simp
  moreover have "tape (s_tape (snd w2)) = tape (s_tape (snd w)) @ (r1 @ r2)" "s_attempts (snd w2) = s_attempts (snd w)"
    using one rest by simp_all
  ultimately show ?case using rest(2,5) by blast
qed

text \<open>The index the pass reads has every due hold of the principal, so nothing due is left.\<close>

lemma sweep_due:
  assumes store: "intent_store (rt_intent_store R) iwf view" and st: "iwf (s_intents (snd w))"
    and k: "wf (s_tape (snd w))" and moment: "DATETIME_MIN \<le> moment" "moment \<le> DATETIME_MAX"
    and run: "sweep_expired_intents R (Some moment) w = (out, w')"
  shows "\<exists>recs. tape (s_tape (snd w')) = tape (s_tape (snd w)) @ recs
    \<and> view (s_intents (snd w')) = expire_view R moment UNIV (view (s_intents (snd w)))
    \<and> expiry_records R moment UNIV (view (s_intents (snd w))) recs
    \<and> s_attempts (snd w') = s_attempts (snd w) \<and> counted_or_unflushed R moment (length recs) out"
proof -
  let ?v = "view (s_intents (snd w))"
  let ?ids = "expired_pending_candidates (rt_intent_store R) (s_intents (snd w)) (principal_index_key (rt_principal R)) moment"
  obtain recs w1 where c: "sweep_candidates R moment ?ids w = (Inr (length recs), w1)"
    "view (s_intents (snd w1)) = expire_view R moment (set ?ids) ?v" "s_attempts (snd w1) = s_attempts (snd w)"
    "tape (s_tape (snd w1)) = tape (s_tape (snd w)) @ recs" "expiry_records R moment (set ?ids) ?v recs"
    using sweep_candidates_due [OF store st k moment] by blast
  have due: "?v key = Some i \<Longrightarrow> due_hold R moment i \<Longrightarrow> key \<in> set ?ids" for key i
    using intent_store.due_is_candidate [OF store st, of key i moment]
    by (simp add: due_hold_def owns_intent_def PENDING_STATUS_def)
  have "{key \<in> set ?ids. \<exists>i. ?v key = Some i \<and> due_hold R moment i} = {key. \<exists>i. ?v key = Some i \<and> due_hold R moment i}"
    using due by blast
  then have "expiry_records R moment UNIV ?v recs" using c(5) by (simp add: expiry_records_def)
  moreover have "expire_view R moment (set ?ids) ?v = expire_view R moment UNIV ?v"
    using due by (auto simp: expire_view_def fun_eq_iff map_option_case split: option.split)
  moreover have "core (snd w') = core (snd w1) \<and> s_intents (snd w') = s_intents (snd w1) \<and> counted_or_unflushed R moment (length recs) out"
  proof -
    obtain r w2 where f: "flush_w R (ret_w moment) w1 = (r, w2)" using prod.exhaust by blast
    have "w' = w2 \<and> out = (case r of Inl e \<Rightarrow> Inl e | Inr _ \<Rightarrow> Inr (length recs))"
      using run c(1) f by (auto simp: sweep_expired_intents_def action_defs split: sum.splits)
    with flush_w_outcome [OF f] show ?thesis by (auto simp: counted_or_unflushed_def)
  qed
  ultimately show ?thesis using c(2,3,4) by (auto simp: core_def)
qed

end

section \<open>Results\<close>

datatype owner_verb =
    Describe string
  | Approve string string "string option"
  | Reject string string
  | Flag string string
  | Sweep "instant option"

definition owner_step ::
  "('e, 'i, 'h, 'k, 'g) BrokerRuntime \<Rightarrow> owner_verb \<Rightarrow> ('e, 'i, 'h, 'k) world \<Rightarrow> ('e, 'i, 'h, 'k) world" where
  "owner_step R v w =
     (case v of
        Describe iid \<Rightarrow> snd (describe_intent R iid w)
      | Approve iid by_whom shown \<Rightarrow> snd (approve_intent R iid by_whom shown w)
      | Reject iid by_whom \<Rightarrow> snd (reject_intent R iid by_whom w)
      | Flag iid by_whom \<Rightarrow> snd (flag_intent R iid by_whom w)
      | Sweep now \<Rightarrow> snd (sweep_expired_intents R now w))"

definition sample_held_world :: sample_world where
  "sample_held_world = apsnd (\<lambda>s. s\<lparr>s_intents := sample_held\<rparr>) sample_world"

lemma sample_held_attempts [simp]: "s_attempts (snd sample_held_world) = []" "s_tape (snd sample_held_world) = []"
  "s_intents (snd sample_held_world) = sample_held"
  by (simp_all add: sample_held_world_def sample_world_def apsnd_def map_prod_def split: prod.split)

text \<open>A run of the sample deployment in which an approval does execute the held call.\<close>

lemma quiet_some: "quiet m \<Longrightarrow> keeps (\<lambda>w. s_attempts (snd w) \<noteq> []) m"
  by (rule tried.quiet_kept [where Q = "\<lambda>l. l \<noteq> []"])

lemma sample_key: "\<not> isl (scoped_counter_key 0 sample_principal ''email'' ''send'' ACTION_CAP_SUFFIX UTC_DAY None None)"
  by code_simp

lemma sample_decider: "approved_decider (sha256_hex sample_hash_env) (sample_call sample_send True) (sample_facts on_loop) = Allow"
  by code_simp

lemma sample_gated:
  "di_max_age (s_inputs (snd w)) = [] \<Longrightarrow>
     fst (gated_release sample_runtime (sample_call sample_send True) (sample_facts on_loop) w) = Allow"
  by (simp add: gated_release_def gate_def stale_inputs_def sample_runtime_def sample_decider)

lemma sample_pip:
  "\<exists>w1. timed_pip sample_runtime call w = (Inr (sample_facts on_loop), w1) \<and> di_max_age (s_inputs (snd w1)) = di_max_age (s_inputs (snd w))"
  by (simp add: timed_pip_def clock_w_def action_defs sample_runtime_def timed_def Let_def)

lemma enforce_release_runs:
  fixes R :: "(unit, 'i, 'h, 'k, 'g) BrokerRuntime"
  assumes "rt_store R = open_store" "timed_pip R call w = (Inr facts, w1)" "fst (gated_release R call facts w1) = Allow"
  shows "s_attempts (snd (snd (enforce_w (lift_store (rt_store R)) env (release_actions R by_whom iid call)
         \<lparr>rq_call = call, initial_decision = Allow, idempotency_key = None,
          counter_key = ck, counter_delta = 1, counter_cap = c, ancestor_draws = []\<rparr> w))) \<noteq> []"
proof -
  obtain s2 where g: "gated_release R call facts w1 = (Allow, (), s2)" using assms(3) by (metis prod.collapse unit.exhaust)
  obtain out w3 where x: "release_executor R by_whom iid call call Allow ((), s2) = (out, w3)" using prod.exhaust by blast
  from release_executor_logged [of R by_whom iid call call Allow "((), s2)"] x have "s_attempts (snd w3) \<noteq> []" by auto
  then show ?thesis
    using assms(1,2) g x
    by (cases out) (simp_all add: enforce_w_def claim_step_def revalidate_w_def release_actions_def lift_store_def open_store_def
        draw_step_def pick_stricter_def act_step_w_def execute_step_w_def commit_and_finish_def finish_def settle_step_def
        saga_def fail_claim_def bind_r_def)
qed

lemma sample_get: "get_intent (intmem_ops plain_codec) sample_held ''intent-1'' = Inr (Some sample_pending)"
  using intent_store.get_view [OF intmem_keeps_contract [OF plain.intent_codec_axioms] sample_held_wf] sample_held_view by simp

lemma sample_claim:
  "\<exists>st. claim_pending (intmem_ops plain_codec) ''intent-1'' ''approved'' ''alice'' 0 0 sample_held = (Inr (Inr sample_pending), st)"
proof -
  have i: "in_status sample_pending = ''pending''" "in_expiry sample_pending = 3600 * SECOND"
    by (simp_all add: sample_pending_def pending_intent_def)
  have "is_expired (in_expiry sample_pending) 0 0 = Inr False"
    using end_judged_at_Inr_iff [of 0 0 0] by (simp add: is_expired_def bind_r_def i SECOND_def DAY_def DATETIME_MIN_def DATETIME_MAX_def)
  moreover obtain st where "transition_status (intmem_ops plain_codec) ''intent-1'' ''pending'' ''approved'' (Some ''alice'') None sample_held = (True, st)"
    using plain.intmem.cas_view [OF sample_held_wf lifecycle_statuses(1,6) sample_held_view i(1)] by blast
  ultimately show ?thesis using sample_get by (simp add: claim_pending_def)
qed

lemma sample_release_stored:
  assumes "di_max_age (s_inputs (snd w)) = []"
  shows "s_attempts (snd (snd (release_stored sample_runtime ''alice'' ''intent-1'' (sample_call sample_send True) w))) \<noteq> []"
proof -
  let ?R = sample_runtime and ?call = "sample_call sample_send True"
  obtain ck where ck: "scoped_counter_key 0 sample_principal ''email'' ''send'' ACTION_CAP_SUFFIX UTC_DAY None None = Inr ck"
    using sample_key by (metis isl_def sum.exhaust_sel)
  let ?w = "(fst w, (snd w)\<lparr>s_ticks := Suc (Suc (Suc (s_ticks (snd w))))\<rparr>)"
  let ?rq = "\<lparr>rq_call = ?call, initial_decision = Allow, idempotency_key = None,
          counter_key = ck, counter_delta = 1, counter_cap = rt_counter_cap ?R, ancestor_draws = []\<rparr>"
  have c: "bc_principal ?call = sample_principal" "bc_tool ?call = ''email''" "bc_op ?call = ''send''"
    by (simp_all add: sample_call_def sample_send_def)
  have r: "rt_wall ?R n = 0" "rt_counter_period ?R = UTC_DAY" "rt_sub_grants ?R = None" "rt_store ?R = open_store" for n
    by (simp_all add: sample_runtime_def)
  have e: "enforce_release ?R ''alice'' ''intent-1'' ?call w
      = enforce_w (lift_store (rt_store ?R)) (rt_env ?R (Suc (Suc (s_ticks (snd w))))) (release_actions ?R ''alice'' ''intent-1'' ?call) ?rq ?w"
    by (simp add: enforce_release_def wall_w_def tree_draws_def action_defs c r ck resolve_tree_pool_def)
  obtain w1 where "timed_pip ?R ?call ?w = (Inr (sample_facts on_loop), w1)" "di_max_age (s_inputs (snd w1)) = []"
    using sample_pip [of ?call ?w] assms by auto
  from enforce_release_runs [OF r(4) this(1) sample_gated [OF this(2)]]
  have a: "s_attempts (snd (snd (enforce_release ?R ''alice'' ''intent-1'' ?call w))) \<noteq> []" unfolding e by blast
  have "keeps (\<lambda>w. s_attempts (snd w) \<noteq> []) (if kind (er_decision enforced) = k_allow then ret_w (er_result enforced)
      else let reason = release_reason (er_decision enforced) in
        bind_w (record_w ?R (receipt ?R ''alice'' ''intent-1'' ?call
          (stored_record ?R ''intent-1'' ?call (kind_str (kind (er_decision enforced))) ''denied'' (Some reason)))) (\<lambda>_.
            raise_w (ReleaseRefusedError reason)))" for enforced
    by (simp add: Let_def keeps_ret keeps_bind keeps_iff [of _ "record_w _ _"] attempts_record)
  from a this show ?thesis
    unfolding release_stored_def by (rule bind_after [where P = "\<lambda>w. s_attempts (snd w) \<noteq> []"])
qed

lemma sample_release_runs:
  "s_attempts (snd (snd (approve_intent sample_runtime ''intent-1'' ''alice'' None sample_held_world))) \<noteq> []"
proof -
  let ?R = sample_runtime and ?call = "sample_call sample_send True"
  let ?some = "\<lambda>w. s_attempts (snd w) \<noteq> []"
  have i: "materializedRequest sample_pending = ?call" "owns_intent ?R sample_pending"
    by (simp_all add: sample_pending_def pending_intent_def owns_intent_def sample_runtime_def sample_call_def)
  have r: "rt_wall ?R n = 0" "rt_clock ?R n = Inr 0" "rt_clock_skew ?R = 0" "rt_intent_store ?R = intmem_ops plain_codec" for n
    by (simp_all add: sample_runtime_def)
  obtain st where st: "claim_pending (intmem_ops plain_codec) ''intent-1'' ''approved'' ''alice'' 0 0 sample_held
      = (Inr (Inr sample_pending), st)" using sample_claim by blast
  have ages: "di_max_age (decision_inputs (rt_input_ages ?R)) = []" by (simp add: sample_runtime_def decision_inputs_def)
  have approve: "?some (snd (approve_w ?R ''intent-1'' ''alice'' w))"
    if "s_intents (snd w) = sample_held" "di_max_age (s_inputs (snd w)) = []" for w
  proof -
    let ?w = "(fst w, (snd w)\<lparr>s_ticks := Suc (s_ticks (snd w)), s_intents := st\<rparr>)"
    have "approve_w ?R ''intent-1'' ''alice'' w = catch_w (release_stored ?R ''alice'' ''intent-1'' ?call)
         (\<lambda>e. intents_w (finish_release (rt_intent_store ?R) ''intent-1'' 0 (Inl e)))
         (\<lambda>res. bind_w (wall_w ?R) (\<lambda>t. intents_w (finish_release (rt_intent_store ?R) ''intent-1'' t (Inr res)))) ?w"
      using that st by (simp add: approve_w_def wall_w_def action_defs(1-6) intents_w_def r i)
    moreover have "?some (snd (release_stored ?R ''alice'' ''intent-1'' ?call ?w))"
      by (rule sample_release_stored) (simp add: that)
    then have "?some (snd (catch_w (release_stored ?R ''alice'' ''intent-1'' ?call)
         (\<lambda>e. intents_w (finish_release (rt_intent_store ?R) ''intent-1'' 0 (Inl e)))
         (\<lambda>res. bind_w (wall_w ?R) (\<lambda>t. intents_w (finish_release (rt_intent_store ?R) ''intent-1'' t (Inr res)))) ?w))"
      by (rule catch_after [where P = ?some]) (intro quiet_some quiet_rules)+
    ultimately show ?thesis by simp
  qed
  let ?w = "(fst sample_held_world, (snd sample_held_world)\<lparr>s_ticks := Suc (s_ticks (snd sample_held_world)),
      s_inputs := establish ''intent'' 0 None (decision_inputs (rt_input_ages ?R))\<rparr>)"
  have n: "bc_tool ?call \<noteq> HARNESS_TOOL" by (simp add: sample_call_def sample_send_def HARNESS_TOOL_def)
  have "get_intent_w ?R ''intent-1'' ?w = (Inr (Some sample_pending), ?w)"
    by (simp add: get_intent_w_def r sample_get)
  then have get: "catch_w (get_intent_w ?R ''intent-1'') h f ?w = f (Some sample_pending) ?w" for h and f :: "_ \<Rightarrow> (_, ExecutionResult) act"
    unfolding catch_w_def by simp
  have "approve_intent ?R ''intent-1'' ''alice'' None sample_held_world
      = catch_w (approve_w ?R ''intent-1'' ''alice'') (quarantined_intent_result ?R (record_w ?R) ''intent-1'' ''approve'')
          (with_late_expiry ?R (Some sample_pending) ''intent-1'' ''approve'') ?w"
    using get by (simp add: approve_intent_def clock_w_def action_defs(1-6) r approve_held_def
        foreign_intent_result_def i n shown_mismatch_def is_harness_hold_def)
  moreover have "?some (snd (approve_w ?R ''intent-1'' ''alice'' ?w))" by (rule approve) (simp_all add: ages)
  then have "?some (snd (catch_w (approve_w ?R ''intent-1'' ''alice'') (quarantined_intent_result ?R (record_w ?R) ''intent-1'' ''approve'')
          (with_late_expiry ?R (Some sample_pending) ''intent-1'' ''approve'') ?w))"
    by (rule catch_after [where P = ?some])
       (rule tried.with_late_kept [where Q = "\<lambda>l. l \<noteq> []"] tried.quarantined_kept(2) [where Q = "\<lambda>l. l \<noteq> []"])+
  ultimately show ?thesis by simp
qed

text \<open>C18: among the owner's verbs only an approval reaches a connector, and only as far as the rules still allow. One
  verb makes at most one attempt. If it makes one, the verb is an approval that showed no input of its
  own, the intent it names is the broker's own and no harness call, was still pending when it was claimed
  and before its expiry on the clock this approval read, the attempt runs exactly the stored call with a plain allow, and on
  the facts this release read, from the enforcement store as the approval found it, the rule table lets that call run or
  hold for approval: a call it denies, abstains on or transforms is not run.\<close>

theorem only_approval_releases:
  "\<exists>new. s_attempts (snd (owner_step R v w)) = s_attempts (snd w) @ new \<and> length new \<le> 1
    \<and> (\<forall>a \<in> set new. \<exists>iid by_whom i. v = Approve iid by_whom None \<and> releasable R (s_intents (snd w)) (approval_instant R w) iid by_whom i
         \<and> at_call a = materializedRequest i \<and> at_decision a = Allow \<and> cleared R (fst w) (release_tick w) (materializedRequest i))"
proof (cases v)
  case (Approve iid by_whom shown)
  with approve_intent_effect [of R w iid by_whom shown] show ?thesis
    by (auto simp: owner_step_def approval_effect_def approval_instant_def release_tick_def eval_nat_numeral)
next
  case (Describe iid)
  with keepsD [OF tried.describe_kept [where Q = "\<lambda>l. l = s_attempts (snd w)"], of w R iid] show ?thesis
    by (simp add: owner_step_def)
next
  case (Reject iid by_whom)
  with keepsD [OF tried.reject_kept [where Q = "\<lambda>l. l = s_attempts (snd w)"], of w R iid by_whom] show ?thesis
    by (simp add: owner_step_def)
next
  case (Flag iid by_whom)
  with keepsD [OF tried.flag_kept [where Q = "\<lambda>l. l = s_attempts (snd w)"], of w R iid by_whom] show ?thesis
    by (simp add: owner_step_def)
next
  case (Sweep now)
  with keepsD [OF tried.sweep_kept [where Q = "\<lambda>l. l = s_attempts (snd w)"], of w R now] show ?thesis
    by (simp add: owner_step_def)
qed

theorem only_approval_releases_witness:
  "\<exists>a i. s_attempts (snd (owner_step sample_runtime (Approve ''intent-1'' ''alice'' None) sample_held_world)) = [a]
    \<and> releasable sample_runtime sample_held 0 ''intent-1'' ''alice'' i \<and> at_call a = materializedRequest i
    \<and> at_decision a = Allow \<and> cleared sample_runtime () 6 (materializedRequest i)"
proof -
  let ?w = "owner_step sample_runtime (Approve ''intent-1'' ''alice'' None) sample_held_world"
  have readings: "approval_instant sample_runtime sample_held_world = 0" "release_tick sample_held_world = 6"
    by (simp_all add: approval_instant_def release_tick_def sample_runtime_def sample_held_world_def sample_world_def)
  from only_approval_releases [of sample_runtime "Approve ''intent-1'' ''alice'' None" sample_held_world]
  have "length (s_attempts (snd ?w)) \<le> 1"
    and all: "\<forall>a \<in> set (s_attempts (snd ?w)). \<exists>i. releasable sample_runtime sample_held 0 ''intent-1'' ''alice'' i
         \<and> at_call a = materializedRequest i \<and> at_decision a = Allow \<and> cleared sample_runtime () 6 (materializedRequest i)"
    by (auto simp: readings)
  moreover have "s_attempts (snd ?w) \<noteq> []" using sample_release_runs by (simp add: owner_step_def)
  ultimately obtain a where "s_attempts (snd ?w) = [a]" by (cases "s_attempts (snd ?w)") auto
  with all show ?thesis by auto
qed

text \<open>C19: a release is receipted. Whatever an approval comes to, the tape only grows and stays a chain, and the records it
  gained that tell of the connector are exactly its attempts, each naming the approver, the intent and
  the digest of the stored call. A connector that refused is recorded as failed, like one that broke.\<close>

theorem release_is_receipted:
  assumes "audit_sink (rt_hash R) (rt_sink R) good tape" and "good (s_tape (snd w))"
    and "linked (rt_hash R) 0 (GENESIS_PREV_HASH (rt_hash R)) (tape (s_tape (snd w)))"
    and "approve_intent R iid by_whom shown w = (out, w')"
  shows "\<exists>recs new. tape (s_tape (snd w')) = tape (s_tape (snd w)) @ recs \<and> s_attempts (snd w') = s_attempts (snd w) @ new
    \<and> receipts recs = concat (map (receipt_of R by_whom iid) new)
    \<and> linked (rt_hash R) 0 (GENESIS_PREV_HASH (rt_hash R)) (tape (s_tape (snd w')))"
proof -
  note b = broker_tape.intro [OF assms(1)]
  have "told R good tape (s_tape (snd w)) (s_attempts (snd w)) by_whom iid (core (snd w))"
    using assms(2,3) by (simp add: told_def core_def receipts_def)
  from keepsD [OF broker_tape.approve_intent_tells [OF b] this, of shown] assms(4) show ?thesis
    by (simp add: told_def core_def)
qed

theorem release_is_receipted_witness:
  "\<exists>recs a. s_tape (snd (snd (approve_intent sample_runtime ''intent-1'' ''alice'' None sample_held_world))) = recs
    \<and> s_attempts (snd (snd (approve_intent sample_runtime ''intent-1'' ''alice'' None sample_held_world))) = [a]
    \<and> receipts recs = receipt_of sample_runtime ''alice'' ''intent-1'' a"
proof -
  obtain out w' where r: "approve_intent sample_runtime ''intent-1'' ''alice'' None sample_held_world = (out, w')"
    using prod.exhaust by blast
  obtain a where "s_attempts (snd w') = [a]"
    using approve_intent_effect [of sample_runtime sample_held_world "''intent-1''" "''alice''" None] sample_release_runs
    by (auto simp: r approval_effect_def)
  with release_is_receipted [OF sample_sink _ _ r] r show ?thesis by auto
qed

text \<open>C20: the sweep expires exactly what is due. Over an honest intent store, a pass at an instant moves every
  pending hold of this principal whose expiry has come to expired and changes no other, writes one expiry
  record for each of them and nothing else, reaches no connector, and answers their number. The one other
  answer it can give, after all this is done, is the failure to deliver a flood alarm: where a flood cap is set and
  the instant is so early, or the counter period such, that the period of the holds it settles has no name.\<close>

theorem sweep_expires_exactly_due:
  assumes "audit_sink (rt_hash R) (rt_sink R) good tape" and "intent_store (rt_intent_store R) iwf view"
    and "iwf (s_intents (snd w))" and "good (s_tape (snd w))" and "DATETIME_MIN \<le> moment" and "moment \<le> DATETIME_MAX"
    and "sweep_expired_intents R (Some moment) w = (out, w')"
  shows "\<exists>recs. tape (s_tape (snd w')) = tape (s_tape (snd w)) @ recs
    \<and> view (s_intents (snd w')) = expire_view R moment UNIV (view (s_intents (snd w)))
    \<and> expiry_records R moment UNIV (view (s_intents (snd w))) recs
    \<and> s_attempts (snd w') = s_attempts (snd w) \<and> counted_or_unflushed R moment (length recs) out"
  by (rule broker_tape.sweep_due [OF broker_tape.intro [OF assms(1)] assms(2-7)])

theorem sweep_expires_exactly_due_witness:
  "\<exists>w' r. sweep_expired_intents sample_runtime (Some 3600000000) sample_held_world = (Inr 1, w') \<and> s_tape (snd w') = [r]
    \<and> intentId r = Some ''intent-1'' \<and> au_outcome r = ''expired''"
proof -
  let ?v = "intmem_view plain_codec sample_held"
  obtain out w' where r: "sweep_expired_intents sample_runtime (Some 3600000000) sample_held_world = (out, w')"
    using prod.exhaust by blast
  have store: "intent_store (rt_intent_store sample_runtime) (intmem_wf plain_codec) (intmem_view plain_codec)"
    using intmem_keeps_contract [OF plain.intent_codec_axioms] by (simp add: sample_runtime_def)
  have "alarm_cap sample_runtime = None" by (simp add: alarm_cap_def sample_runtime_def)
  with sweep_expires_exactly_due [OF sample_sink store _ _ _ _ r] sample_held_wf obtain recs where
    recs: "s_tape (snd w') = recs" "expiry_records sample_runtime 3600000000 UNIV ?v recs" "out = Inr (length recs)"
    by (auto simp: DATETIME_MIN_def DATETIME_MAX_def counted_or_unflushed_def)
  have "due_hold sample_runtime 3600000000 sample_pending"
    by (simp add: due_hold_def sample_pending_def pending_intent_def owns_intent_def sample_runtime_def sample_call_def SECOND_def)
  then have "{k. \<exists>i. ?v k = Some i \<and> due_hold sample_runtime 3600000000 i} = {''intent-1''}"
    using sample_held_view by (auto simp: intmem_view_def sample_held_eq split: if_splits)
  then have s: "set (map intentId recs) = {Some ''intent-1''}" "distinct (map intentId recs)" "set (map au_outcome recs) \<subseteq> {''expired''}"
    using recs(2) by (auto simp: expiry_records_def)
  then have "length recs = 1" using distinct_card [of "map intentId recs"] by simp
  then obtain e where "recs = [e]" by (auto simp: length_Suc_conv)
  with s recs(1,3) r show ?thesis by auto
qed

end
