(* ===== verification/Grant_Schemas.thy ===== *)
theory Grant_Schemas
  imports Clock_Skew Schemas Json_Text
begin

text \<open>
  The records of the grant lifecycle (\<open>broker/schemas/grant.py\<close>, \<open>broker/schemas/promotion_record.py\<close>,
  \<open>broker/schemas/durations.py\<close>) and its pure rules: the certification term (\<open>grants/term.py\<close>), the promotion
  predicate (\<open>grants/predicate.py\<close>), the blast class a promotion is judged at (\<open>grants/blast.py\<close>), the rung
  transitions and the dwell (\<open>grants/rung.py\<close>), and the ceremony's operator identities
  (\<open>broker/ceremony_identity.py\<close>).

  A stored time string is an \<open>iso\<close>: its text, which is what is stored, signed and compared, and what
  \<open>datetime.fromisoformat\<close> reads from it. The results show that the level enforcement acts on is never above the
  stored one and never recovers by waiting, that a ledger record signed by the evaluator's key cannot raise a
  level, and that the promotion predicate holds exactly when every gate does.
\<close>

section \<open>Time strings\<close>

text \<open>\<open>iso_read\<close> is \<open>None\<close> where \<open>fromisoformat\<close> raises, \<open>Some (t, None)\<close> for a naive value (\<open>t\<close> its reading as
  UTC), and \<open>Some (t, Some d)\<close> for the instant \<open>t\<close> written with UTC offset \<open>d\<close>.\<close>

record iso =
  iso_str :: string
  iso_read :: "(instant \<times> timedelta option) option"

text \<open>\<open>isoformat()\<close> of an aware UTC datetime.\<close>

definition iso_of :: "instant \<Rightarrow> iso" where
  "iso_of t = \<lparr>iso_str = isoformat_utc t, iso_read = Some (t, Some 0)\<rparr>"

definition parse_certified_until :: "iso \<Rightarrow> exn + instant" where
  "parse_certified_until v =
     (case iso_read v of
        None \<Rightarrow> Inl (ValueError ''certifiedUntil is not a parseable ISO-8601 instant'')
      | Some (t, off) \<Rightarrow>
          if off \<noteq> Some 0 then Inl (ValueError ''certifiedUntil must be an explicit UTC instant'')
          else Inr t)"

section \<open>Grants\<close>

datatype demotion_reason = failing | pending_evidence

record Grant =
  gr_principal :: Principal
  gr_actionClass :: string
  gr_level :: AutonomyLevel
  gr_envelopeHash :: string
  gr_promotedBy :: string
  gr_evidence :: string
  gr_ts :: iso
  gr_lastSafeLevel :: AutonomyLevel
  gr_demotionTriggers :: "DemotionTrigger list"
  gr_demotionReason :: "demotion_reason option"
  gr_labelLatency :: string
  gr_ownerId :: string
  gr_certifiedUntil :: "iso option"

abbreviation ValidationError :: "string \<Rightarrow> exn" where
  "ValidationError m \<equiv> Exn ''ValidationError'' m"

text \<open>The third-party duration parser is an argument: \<open>None\<close> where it raises, otherwise the sign of the
  delta and the units it carries.\<close>

type_synonym delta_parser = "string \<Rightarrow> (int \<times> string list) option"

definition validate_label_latency :: "delta_parser \<Rightarrow> string \<Rightarrow> exn + string" where
  "validate_label_latency parse_iso v =
     (case parse_iso v of
        None \<Rightarrow> Inl (ValueError ''labelLatency must be an ISO-8601 duration'')
      | Some (sign, units) \<Rightarrow>
          if sign < 0 then Inl (ValueError ''labelLatency must be nonnegative'')
          else if filter (\<lambda>u. u \<in> set units) [''years'', ''months''] \<noteq> []
          then Inl (ValueError ''labelLatency must not carry calendar-ambiguous units'')
          else Inr v)"

text \<open>Constructing a \<open>Grant\<close> runs its three field validators; \<open>model_copy\<close> runs none.\<close>

definition certified_until_ok :: "iso option \<Rightarrow> bool" where
  "certified_until_ok v =
     (case v of None \<Rightarrow> True | Some x \<Rightarrow> (case parse_certified_until x of Inl _ \<Rightarrow> False | Inr _ \<Rightarrow> True))"

definition mk_grant :: "delta_parser \<Rightarrow> Grant \<Rightarrow> exn + Grant" where
  "mk_grant parse_iso g =
     (case validate_label_latency parse_iso (gr_labelLatency g) of
        Inl _ \<Rightarrow> Inl (ValidationError ''labelLatency'')
      | Inr _ \<Rightarrow>
          if \<not> certified_until_ok (gr_certifiedUntil g) then Inl (ValidationError ''certifiedUntil'')
          else if gr_lastSafeLevel g = out_of_loop
          then Inl (ValidationError ''lastSafeLevel may never be 'out-of-loop' '')
          else Inr g)"

section \<open>Ledger records\<close>

datatype record_type =
  Promotion | Demotion | Bootstrap | Tightening | Lapse | Reattestation | Withdrawal

definition record_type_str :: "record_type \<Rightarrow> string" where
  "record_type_str t =
     (case t of Promotion \<Rightarrow> ''promotion'' | Demotion \<Rightarrow> ''demotion'' | Bootstrap \<Rightarrow> ''bootstrap''
      | Tightening \<Rightarrow> ''tightening'' | Lapse \<Rightarrow> ''lapse'' | Reattestation \<Rightarrow> ''reattestation''
      | Withdrawal \<Rightarrow> ''withdrawal'')"

record PromotionRecord =
  pr_recordType :: record_type
  pr_actionClass :: string
  pr_principal :: Principal
  pr_fromLevel :: "AutonomyLevel option"
  pr_toLevel :: AutonomyLevel
  pr_evidence :: string
  pr_predicate :: "string option"
  pr_proposedBy :: string
  pr_ratifiedBy :: string
  pr_attestation :: "string option"
  pr_envelopeHash :: string
  pr_triggeredBy :: "string list"
  pr_demotionReason :: "demotion_reason option"
  pr_ts :: iso
  pr_certifiedUntil :: "iso option"

definition DEMOTION_RATIFIER :: string where
  "DEMOTION_RATIFIER = ''system:demotion-evaluator''"

definition TERM_BEARING_RECORD_TYPES :: "record_type list" where
  "TERM_BEARING_RECORD_TYPES = [Promotion, Lapse]"

definition bears_level :: "PromotionRecord \<Rightarrow> bool" where
  "bears_level r \<longleftrightarrow> pr_recordType r \<noteq> Reattestation"

definition require_no_raise :: "PromotionRecord \<Rightarrow> bool" where
  "require_no_raise r \<longleftrightarrow>
     (case pr_fromLevel r of None \<Rightarrow> False
      | Some l \<Rightarrow> \<not> AUTONOMY_RANK l < AUTONOMY_RANK (pr_toLevel r))"

definition forbid_predicate :: "PromotionRecord \<Rightarrow> bool" where
  "forbid_predicate r \<longleftrightarrow> pr_predicate r = None"

definition forbid_demotion_fields :: "PromotionRecord \<Rightarrow> bool" where
  "forbid_demotion_fields r \<longleftrightarrow> pr_triggeredBy r = [] \<and> pr_demotionReason r = None"

definition withdrawal_shape :: "PromotionRecord \<Rightarrow> bool" where
  "withdrawal_shape r \<longleftrightarrow>
     pr_ratifiedBy r = DEMOTION_RATIFIER \<and> pr_triggeredBy r = [] \<and>
     pr_demotionReason r = Some pending_evidence \<and> pr_fromLevel r \<noteq> None \<and>
     pr_toLevel r \<noteq> out_of_loop \<and> require_no_raise r \<and> forbid_predicate r"

definition shape_rules_per_record_type :: "PromotionRecord \<Rightarrow> bool" where
  "shape_rules_per_record_type r \<longleftrightarrow>
     (pr_certifiedUntil r \<noteq> None \<longrightarrow> pr_recordType r \<in> set TERM_BEARING_RECORD_TYPES) \<and>
     (case pr_recordType r of
        Promotion \<Rightarrow>
          pr_proposedBy r \<noteq> pr_ratifiedBy r \<and>
          (case pr_predicate r of None \<Rightarrow> False | Some p \<Rightarrow> p \<noteq> []) \<and>
          (pr_fromLevel r = None \<longrightarrow> pr_toLevel r = in_loop) \<and>
          forbid_demotion_fields r
      | Demotion \<Rightarrow>
          pr_ratifiedBy r = DEMOTION_RATIFIER \<and> pr_triggeredBy r \<noteq> [] \<and> pr_demotionReason r \<noteq> None \<and>
          pr_fromLevel r \<noteq> None \<and> pr_toLevel r \<noteq> out_of_loop \<and> require_no_raise r \<and> forbid_predicate r
      | Bootstrap \<Rightarrow> pr_fromLevel r = None \<and> forbid_predicate r \<and> forbid_demotion_fields r
      | Lapse \<Rightarrow>
          pr_ratifiedBy r = DEMOTION_RATIFIER \<and> pr_triggeredBy r = [] \<and>
          pr_demotionReason r = Some pending_evidence \<and> pr_fromLevel r \<noteq> None \<and>
          pr_toLevel r \<noteq> out_of_loop \<and> require_no_raise r \<and> forbid_predicate r
      | Withdrawal \<Rightarrow> withdrawal_shape r
      | Reattestation \<Rightarrow>
          pr_fromLevel r = Some (pr_toLevel r) \<and> forbid_predicate r \<and> forbid_demotion_fields r
      | Tightening \<Rightarrow>
          pr_toLevel r = in_loop \<and> pr_fromLevel r \<noteq> None \<and> forbid_predicate r \<and> forbid_demotion_fields r)"

definition mk_record :: "PromotionRecord \<Rightarrow> exn + PromotionRecord" where
  "mk_record r =
     (if \<not> certified_until_ok (pr_certifiedUntil r) then Inl (ValidationError ''certifiedUntil'')
      else if shape_rules_per_record_type r then Inr r
      else Inl (ValidationError (record_type_str (pr_recordType r))))"

section \<open>The certification term\<close>

definition term_passed :: "Grant \<Rightarrow> instant \<Rightarrow> timedelta \<Rightarrow> exn + bool" where
  "term_passed g now skew =
     (case gr_certifiedUntil g of
        None \<Rightarrow> Inr False
      | Some until \<Rightarrow>
          bind_r (end_judged_at now skew) (\<lambda>judged.
          bind_r (parse_certified_until until) (\<lambda>t. Inr (t \<le> judged))))"

definition lapse_pending :: "Grant \<Rightarrow> instant \<Rightarrow> timedelta \<Rightarrow> exn + bool" where
  "lapse_pending g now skew =
     bind_r (term_passed g now skew) (\<lambda>passed.
       Inr (passed \<and> AUTONOMY_RANK (gr_lastSafeLevel g) < AUTONOMY_RANK (gr_level g)))"

definition effective_level :: "Grant \<Rightarrow> instant \<Rightarrow> timedelta \<Rightarrow> bool \<Rightarrow> exn + AutonomyLevel" where
  "effective_level g now skew standing_held =
     bind_r (term_passed g now skew) (\<lambda>passed.
       if standing_held \<and> \<not> passed then Inr (gr_level g)
       else if AUTONOMY_RANK (gr_lastSafeLevel g) < AUTONOMY_RANK (gr_level g) then Inr (gr_lastSafeLevel g)
       else Inr (gr_level g))"

definition extends_term :: "iso option \<Rightarrow> iso option \<Rightarrow> exn + bool" where
  "extends_term previous proposed =
     (case previous of None \<Rightarrow> Inr False
      | Some p \<Rightarrow>
        (case proposed of None \<Rightarrow> Inr True
         | Some q \<Rightarrow>
             bind_r (parse_certified_until q) (\<lambda>tq.
             bind_r (parse_certified_until p) (\<lambda>tp. Inr (tp < tq)))))"

section \<open>The promotion predicate\<close>

text \<open>A proposal is read back from JSON with its \<open>provenance_maturity\<close> and \<open>blast_class\<close> unchecked, so both are
  strings here and the predicate refuses the unknown ones.\<close>

definition MATURITY_RANK :: "string \<rightharpoonup> int" where
  "MATURITY_RANK = map_of [(''taint-bit'', 0), (''lineage'', 1), (''signed-lineage'', 2)]"

definition REQUIRED_PROVENANCE_MATURITY :: "AutonomyLevel \<rightharpoonup> string" where
  "REQUIRED_PROVENANCE_MATURITY l =
     (case l of in_loop \<Rightarrow> None | on_loop \<Rightarrow> Some ''signed-lineage'' | out_of_loop \<Rightarrow> Some ''signed-lineage'')"

record ActionClassMetrics =
  false_action_count :: int
  human_override_count :: int
  observation_count :: int

record ErrorBudget =
  eb_tolerance :: rat
  eb_spent :: rat

record PredicateResult =
  eligible :: bool
  pred_reason :: string
  requires_human_ratification :: bool

text \<open>What the predicate reads of a proposal.\<close>

record predicate_args =
  pa_metrics :: ActionClassMetrics
  pa_window_n :: int
  pa_min_observations :: int
  pa_threshold :: rat
  pa_target_level :: AutonomyLevel
  pa_artifact :: "ConfidenceArtifact option"
  pa_covered :: bool
  pa_provenance_maturity :: string
  pa_blast_class :: string
  pa_error_budget :: "ErrorBudget option"

definition ineligible :: "string \<Rightarrow> PredicateResult" where
  "ineligible why = \<lparr>eligible = False, pred_reason = why, requires_human_ratification = False\<rparr>"

definition predicate_args_ok :: "predicate_args \<Rightarrow> exn + unit" where
  "predicate_args_ok a =
     (let m = pa_metrics a in
      if pa_window_n a < 1 then Inl (ValueError ''window_n must be >= 1'')
      else if pa_min_observations a < 1 then Inl (ValueError ''min_observations must be >= 1'')
      else if \<not> (0 < pa_threshold a \<and> pa_threshold a \<le> 1) then Inl (ValueError ''threshold must be in (0.0, 1.0]'')
      else if observation_count m > pa_window_n a
      then Inl (ValueError ''windowed observation_count exceeds window_n'')
      else if false_action_count m < 0 \<or> human_override_count m < 0 \<or> observation_count m < 0
      then Inl (ValueError ''counter values must be non-negative'')
      else if false_action_count m + human_override_count m > observation_count m
      then Inl (ValueError ''sum of false_action_count and human_override_count cannot exceed observation_count'')
      else if MATURITY_RANK (pa_provenance_maturity a) = None then Inl (ValueError ''unknown provenance_maturity'')
      else if pa_blast_class a \<notin> {''low'', ''medium'', ''high''} then Inl (ValueError ''unknown blast_class'')
      else Inr ())"

definition below_maturity :: "string \<Rightarrow> AutonomyLevel \<Rightarrow> bool" where
  "below_maturity held level =
     (case REQUIRED_PROVENANCE_MATURITY level of None \<Rightarrow> False
      | Some required \<Rightarrow> the (MATURITY_RANK held) < the (MATURITY_RANK required))"

text \<open>The reason of a pass is recorded as the signed predicate of the promotion (its dash is written in UTF-8). The
  reasons of refusals are shortened: nothing stores them.\<close>

definition passed_reason :: "predicate_args \<Rightarrow> rat \<Rightarrow> string" where
  "passed_reason a error_rate =
     (let m = pa_metrics a in
      ''error_rate='' @ fixed4 error_rate @ '' < threshold='' @ fixed4 (pa_threshold a) @ '' over ''
        @ int_str (observation_count m) @ '' observations in window_n='' @ int_str (pa_window_n a)
        @ '' (false_actions='' @ int_str (false_action_count m)
        @ '', human_overrides='' @ int_str (human_override_count m) @ '')'')"

definition human_needed :: string where
  "human_needed =
     ''; blast class is high '' @ [CHR 0xE2, CHR 0x80, CHR 0x94]
       @ '' predicate-true is necessary but not sufficient: per-instance human ratification required''"

definition evaluate_promotion_predicate :: "predicate_args \<Rightarrow> exn + PredicateResult" where
  "evaluate_promotion_predicate a =
     bind_r (predicate_args_ok a) (\<lambda>_.
       let m = pa_metrics a;
           error_count = false_action_count m + human_override_count m;
           error_rate = of_int error_count / of_int (observation_count m);
           needs_human = (pa_blast_class a = ''high'') in
       Inr (
         if below_maturity (pa_provenance_maturity a) (pa_target_level a)
         then ineligible ''provenance maturity is below the ceiling for target level''
         else (case pa_artifact a of
           None \<Rightarrow> ineligible ''evidence artifact missing''
         | Some art \<Rightarrow>
             if stale art then ineligible ''evidence artifact is stale''
             else if \<not> pa_covered a then ineligible ''covered-distribution soundness not asserted''
             else if (case pa_error_budget a of None \<Rightarrow> False | Some b \<Rightarrow> eb_tolerance b \<le> eb_spent b)
             then ineligible ''error budget in breach''
             else if observation_count m < pa_min_observations a then ineligible ''insufficient observations''
             else if pa_threshold a \<le> error_rate then ineligible ''error_rate >= threshold''
             else \<lparr>eligible = True,
                    pred_reason = passed_reason a error_rate @ (if needs_human then human_needed else []),
                    requires_human_ratification = needs_human\<rparr>)))"

section \<open>The blast class of a promotion\<close>

definition blast_str :: "BlastClass \<Rightarrow> string" where
  "blast_str b = (case b of low_blast \<Rightarrow> ''low'' | medium_blast \<Rightarrow> ''medium'' | high_blast \<Rightarrow> ''high'')"

abbreviation UndeclaredOperationError :: "string \<Rightarrow> exn" where
  "UndeclaredOperationError m \<equiv> Exn ''UndeclaredOperationError'' m"

definition ceremony_blast_class :: "string \<Rightarrow> ToolOp list \<Rightarrow> string list \<Rightarrow> exn + BlastClass" where
  "ceremony_blast_class action_class tool_ops high_blast_overrides =
     (let declared = filter (\<lambda>mop. op_tool mop @ ''.'' @ op_op mop = action_class) tool_ops in
      case declared of
        [mop] \<Rightarrow> Inr (effective_blast_class mop high_blast_overrides)
      | _ \<Rightarrow> Inl (UndeclaredOperationError action_class))"

section \<open>Rung transitions and dwell\<close>

abbreviation TransitionError :: "string \<Rightarrow> exn" where
  "TransitionError m \<equiv> Exn ''TransitionError'' m"

definition validate_promotion_transition :: "AutonomyLevel option \<Rightarrow> AutonomyLevel \<Rightarrow> exn + unit" where
  "validate_promotion_transition from_level to_level =
     (case from_level of
        None \<Rightarrow>
          if to_level \<noteq> in_loop then Inl (TransitionError ''Promotion from the Recommend rung must target in-loop'')
          else Inr ()
      | Some l \<Rightarrow>
          if AUTONOMY_RANK to_level \<le> AUTONOMY_RANK l then Inl (TransitionError ''Promotion must move upward'')
          else if AUTONOMY_RANK to_level - AUTONOMY_RANK l \<noteq> 1
          then Inl (TransitionError ''Promotion must move exactly one rung'')
          else Inr ())"

definition validate_demotion_transition :: "AutonomyLevel \<Rightarrow> AutonomyLevel \<Rightarrow> exn + unit" where
  "validate_demotion_transition from_level to_level =
     (if AUTONOMY_RANK to_level > AUTONOMY_RANK from_level
      then Inl (TransitionError ''Demotion must not raise the autonomy level'') else Inr ())"

text \<open>The ceremony states the one-rung rule a second time, over the list of rungs.\<close>

definition one_rung_up :: "AutonomyLevel \<Rightarrow> exn + AutonomyLevel" where
  "one_rung_up current =
     (case current of in_loop \<Rightarrow> Inr on_loop | on_loop \<Rightarrow> Inr out_of_loop
      | out_of_loop \<Rightarrow> Inl (ValueError ''Cannot promote beyond the top rung''))"

definition one_rung_violation :: "AutonomyLevel option \<Rightarrow> AutonomyLevel \<Rightarrow> string option" where
  "one_rung_violation from_level target_level =
     (case (case from_level of None \<Rightarrow> Inr in_loop | Some l \<Rightarrow> one_rung_up l) of
        Inl e \<Rightarrow> Some (exn_str e)
      | Inr expected \<Rightarrow>
          if target_level \<noteq> expected then Some ''target_level must be exactly one rung above from_level''
          else None)"

text \<open>A naive stamp is read as UTC; one that does not parse raises.\<close>

definition parse_ts :: "iso \<Rightarrow> exn + instant" where
  "parse_ts v = (case iso_read v of None \<Rightarrow> Inl (ValueError ''Invalid isoformat string'') | Some (t, _) \<Rightarrow> Inr t)"

text \<open>\<open>max(xs, key=f)\<close> for a key that may raise: the key of every element is taken, in order, and the first of
  the elements with the greatest key wins.\<close>

fun max_by :: "('a \<Rightarrow> exn + instant) \<Rightarrow> 'a \<Rightarrow> instant \<Rightarrow> 'a list \<Rightarrow> exn + 'a" where
  "max_by f best k [] = Inr best"
| "max_by f best k (x # xs) =
     bind_r (f x) (\<lambda>kx. if k < kx then max_by f x kx xs else max_by f best k xs)"

definition dwell_start_ts :: "PromotionRecord list \<Rightarrow> exn + iso option" where
  "dwell_start_ts records =
     (case map pr_ts (filter bears_level records) of
        [] \<Rightarrow> Inr None
      | s # stamps \<Rightarrow>
          bind_r (parse_ts s) (\<lambda>k. bind_r (max_by parse_ts s k stamps) (\<lambda>m. Inr (Some m))))"

record PromotionEligibilityCounters =
  clean_runs_since_promotion :: int
  last_transition_ts :: iso

definition is_eligible_for_promotion ::
  "Grant \<Rightarrow> PromotionEligibilityCounters \<Rightarrow> int \<Rightarrow> timedelta \<Rightarrow> instant \<Rightarrow> timedelta \<Rightarrow> exn + bool" where
  "is_eligible_for_promotion g counters min_clean_runs min_dwell now skew =
     (if gr_level g = out_of_loop then Inr False
      else if clean_runs_since_promotion counters < min_clean_runs then Inr False
      else
        bind_r (start_judged_at now skew) (\<lambda>judged.
        bind_r (parse_ts (last_transition_ts counters)) (\<lambda>since.
          Inr (min_dwell \<le> judged - since))))"

section \<open>Ceremony identities\<close>

definition LOCAL_IDENTITY_PREFIX :: string where "LOCAL_IDENTITY_PREFIX = ''local-solo:''"

definition SOLO_ATTESTATION :: string where "SOLO_ATTESTATION = ''solo-local''"

definition is_local_identity :: "string \<Rightarrow> bool" where
  "is_local_identity ident = startswith ident LOCAL_IDENTITY_PREFIX"

definition attestation_for :: "string \<Rightarrow> string option" where
  "attestation_for ident = (if is_local_identity ident then Some SOLO_ATTESTATION else None)"

text \<open>The part after the last \<open>#\<close>, if there is one.\<close>

definition local_role_of :: "string \<Rightarrow> string option" where
  "local_role_of ident =
     (if \<not> is_local_identity ident then None
      else if CHR ''#'' \<in> set ident
      then Some (rev (takeWhile (\<lambda>c. c \<noteq> CHR ''#'') (rev ident))) else None)"

definition is_same_operator :: "string \<Rightarrow> string \<Rightarrow> bool" where
  "is_same_operator proposed_by ratifier =
     (if proposed_by = ratifier then True
      else local_role_of proposed_by \<noteq> None \<and> local_role_of proposed_by = local_role_of ratifier)"

section \<open>Facts about levels and identities\<close>

lemma rank_less_iff [simp]:
  "AUTONOMY_RANK a < AUTONOMY_RANK b \<longleftrightarrow> a < b" "AUTONOMY_RANK a \<le> AUTONOMY_RANK b \<longleftrightarrow> a \<le> b"
  by (simp_all add: less_AutonomyLevel_def less_eq_AutonomyLevel_def)

lemma level_top: "(l :: AutonomyLevel) \<le> out_of_loop" "in_loop \<le> (l :: AutonomyLevel)"
  by (cases l; simp add: less_eq_AutonomyLevel_def AUTONOMY_RANK_def)+

lemma iso_read_iso_of [simp]: "iso_read (iso_of t) = Some (t, Some 0)" "iso_str (iso_of t) = isoformat_utc t"
  by (simp_all add: iso_of_def)

lemma parse_ts_iso_of [simp]: "parse_ts (iso_of t) = Inr t"
  by (simp add: parse_ts_def)

lemma same_operator_refl [simp]: "is_same_operator x x"
  by (simp add: is_same_operator_def)

lemma mk_record_Inr: "mk_record r = Inr r' \<longleftrightarrow> r' = r \<and> certified_until_ok (pr_certifiedUntil r) \<and> shape_rules_per_record_type r"
  by (auto simp: mk_record_def)

lemma mk_grant_Inr:
  "mk_grant parse_iso g = Inr g' \<Longrightarrow>
     g' = g \<and> certified_until_ok (gr_certifiedUntil g) \<and> gr_lastSafeLevel g \<noteq> out_of_loop"
  by (auto simp: mk_grant_def split: sum.splits if_splits)

text \<open>A record of a type the evaluator's key signs, or one that says it changes no level, does not raise the level.\<close>

lemma record_shape_lowers:
  assumes "mk_record r = Inr r'" "pr_recordType r \<noteq> Promotion" "pr_recordType r \<noteq> Bootstrap"
  shows "\<exists>l. pr_fromLevel r = Some l \<and> pr_toLevel r \<le> l"
  using assms
  by (cases "pr_recordType r")
    (auto simp: mk_record_Inr shape_rules_per_record_type_def withdrawal_shape_def require_no_raise_def
      level_top not_less split: option.splits)

text \<open>The one-rung rule of the state machine and the one of the ceremony are the same rule, and what it allows is
  one step of the order of levels.\<close>

lemma one_rung_rules_agree:
  "validate_promotion_transition from_level to_level = Inr () \<longleftrightarrow> one_rung_violation from_level to_level = None"
  by (cases from_level; cases to_level; (cases "the from_level")?)
    (auto simp: validate_promotion_transition_def one_rung_violation_def one_rung_up_def AUTONOMY_RANK_def
      less_AutonomyLevel_def less_eq_AutonomyLevel_def split: AutonomyLevel.splits)

lemma one_rung_violation_None:
  assumes "one_rung_violation (Some l) l' = None"
  shows "l < l'" "AUTONOMY_RANK l' = AUTONOMY_RANK l + 1"
  using assms
  by (cases l; auto simp: one_rung_violation_def one_rung_up_def AUTONOMY_RANK_def less_AutonomyLevel_def
      split: if_splits)+

lemma one_rung_violation_created: "one_rung_violation None l = None \<longleftrightarrow> l = in_loop"
  by (simp add: one_rung_violation_def)

section \<open>The level enforcement acts on\<close>

lemma term_passed_mono:
  assumes "term_passed g t s = Inr True" "t \<le> t'" "s \<le> s'" "term_passed g t' s' = Inr b"
  shows "b"
  using assms
  by (auto simp: term_passed_def bind_r_Inr_iff end_judged_at_def require_bound_def dt_add_def
      split: option.splits if_splits)

lemma effective_level_Inr:
  "effective_level g now skew held = Inr l \<longleftrightarrow>
     (\<exists>passed. term_passed g now skew = Inr passed \<and>
        l = (if held \<and> \<not> passed then gr_level g else min (gr_level g) (gr_lastSafeLevel g)))"
  unfolding effective_level_def bind_r_Inr_iff
  by (rule ex_cong1) (auto simp: min_def not_le)

lemma lapse_pending_Inr:
  "lapse_pending g now skew = Inr b \<longleftrightarrow>
     (\<exists>p. term_passed g now skew = Inr p \<and> b = (p \<and> gr_lastSafeLevel g < gr_level g))"
  by (auto simp: lapse_pending_def bind_r_Inr_iff)

text \<open>C27: the level per-call enforcement acts on is never above the stored level, and it never recovers by
  waiting: at a later instant, under a wider clock-skew bound, or once the issuer's standing is lost, it is the same
  or lower. After the term has passed, or without standing, it is a level demotion may land on and so never
  out-of-loop, provided the grant's lastSafeLevel passed its validator.\<close>

theorem effective_level_never_recovers:
  assumes now: "effective_level g t skew held = Inr l"
    and later: "effective_level g t' skew' held' = Inr l'"
    and "t \<le> t'" "skew \<le> skew'" "held' \<longrightarrow> held"
  shows "l' \<le> l \<and> l \<le> gr_level g
    \<and> (gr_lastSafeLevel g \<noteq> out_of_loop \<and> (\<not> held \<or> term_passed g t skew = Inr True) \<longrightarrow> l \<noteq> out_of_loop)"
proof -
  obtain p p' where p: "term_passed g t skew = Inr p" "term_passed g t' skew' = Inr p'"
    and l: "l = (if held \<and> \<not> p then gr_level g else min (gr_level g) (gr_lastSafeLevel g))"
      "l' = (if held' \<and> \<not> p' then gr_level g else min (gr_level g) (gr_lastSafeLevel g))"
    using now later by (auto simp: effective_level_Inr)
  have "p \<Longrightarrow> p'" using term_passed_mono [of g t skew t' skew' p'] p assms(3,4) by simp
  moreover have "min (gr_level g) (gr_lastSafeLevel g) \<noteq> out_of_loop" if "gr_lastSafeLevel g \<noteq> out_of_loop"
    using that level_top(1) [of "gr_lastSafeLevel g"] by (auto simp: min_def dest: antisym)
  ultimately show ?thesis using l p(1) assms(5) by auto
qed

definition sample_grant :: Grant where
  "sample_grant =
     \<lparr>gr_principal = sample_principal, gr_actionClass = ''mail.send'', gr_level = on_loop,
      gr_envelopeHash = ''e1'', gr_promotedBy = ''checker'', gr_evidence = ''ev'', gr_ts = iso_of 0,
      gr_lastSafeLevel = in_loop, gr_demotionTriggers = [budget_breach, stale_confidence],
      gr_demotionReason = None, gr_labelLatency = ''P7D'', gr_ownerId = ''owner'',
      gr_certifiedUntil = Some (iso_of DAY)\<rparr>"

theorem effective_level_never_recovers_witness:
  "effective_level sample_grant 0 0 True = Inr on_loop \<and> effective_level sample_grant DAY SECOND True = Inr in_loop
    \<and> in_loop \<le> on_loop \<and> on_loop \<le> gr_level sample_grant"
proof -
  have "effective_level sample_grant 0 0 True = Inr on_loop" "effective_level sample_grant DAY SECOND True = Inr in_loop"
    "(0 :: timedelta) \<le> SECOND" "(0 :: instant) \<le> DAY"
    by (simp_all add: sample_grant_def effective_level_def term_passed_def parse_certified_until_def
        end_judged_at_def require_bound_def dt_add_def ZERO_SKEW_def MAX_SKEW_def MAX_CLOCK_SKEW_SECONDS_def
        SECOND_def DAY_def DATETIME_MIN_def DATETIME_MAX_def AUTONOMY_RANK_def)
  with effective_level_never_recovers [of sample_grant 0 0 True on_loop DAY SECOND True in_loop] show ?thesis by simp
qed

section \<open>The predicate is the conjunction of its gates\<close>

text \<open>On arguments that pass its sanity checks the promotion predicate answers, and it answers eligible exactly
  when every gate holds: an acting rung has receiver-verifiable signed lineage, there is a fresh evidence artifact,
  coverage is asserted, the error budget (if one is set) is not spent, the sample is large enough and its error rate
  is strictly below the threshold. Human ratification is demanded exactly for an eligible high-blast class.\<close>

lemma predicate_is_all_gates:
  assumes ok: "predicate_args_ok a = Inr ()"
  shows "\<exists>r. evaluate_promotion_predicate a = Inr r
    \<and> (eligible r \<longleftrightarrow>
        (pa_target_level a = in_loop \<or> pa_provenance_maturity a = ''signed-lineage'')
        \<and> (\<exists>art. pa_artifact a = Some art \<and> \<not> stale art)
        \<and> pa_covered a
        \<and> (\<forall>b. pa_error_budget a = Some b \<longrightarrow> eb_spent b < eb_tolerance b)
        \<and> pa_min_observations a \<le> observation_count (pa_metrics a)
        \<and> of_int (false_action_count (pa_metrics a) + human_override_count (pa_metrics a))
            < pa_threshold a * of_int (observation_count (pa_metrics a)))
    \<and> (requires_human_ratification r \<longleftrightarrow> eligible r \<and> pa_blast_class a = ''high'')"
proof -
  let ?m = "pa_metrics a"
  have known: "MATURITY_RANK (pa_provenance_maturity a) \<noteq> None"
    using ok by (auto simp: predicate_args_ok_def Let_def split: if_splits)
  have maturity: "\<not> below_maturity (pa_provenance_maturity a) (pa_target_level a) \<longleftrightarrow>
      pa_target_level a = in_loop \<or> pa_provenance_maturity a = ''signed-lineage''"
    using known
    by (auto simp: below_maturity_def REQUIRED_PROVENANCE_MATURITY_def MATURITY_RANK_def
        split: AutonomyLevel.splits if_splits)
  have rate: "(of_int (false_action_count ?m + human_override_count ?m) / of_int (observation_count ?m) < pa_threshold a)
      \<longleftrightarrow> of_int (false_action_count ?m + human_override_count ?m) < pa_threshold a * of_int (observation_count ?m)"
    if "pa_min_observations a \<le> observation_count ?m"
  proof -
    have "1 \<le> pa_min_observations a"
      using ok by (auto simp: predicate_args_ok_def Let_def split: if_splits)
    with that have "(0 :: rat) < of_int (observation_count ?m)" by simp
    then show ?thesis by (simp add: pos_divide_less_eq)
  qed
  show ?thesis
    unfolding evaluate_promotion_predicate_def ok bind_r_simps Let_def
    using maturity rate
    by (auto simp: ineligible_def not_le not_less split: option.splits)
qed

definition sample_args :: predicate_args where
  "sample_args =
     \<lparr>pa_metrics = \<lparr>false_action_count = 1, human_override_count = 0, observation_count = 40\<rparr>,
      pa_window_n = 50, pa_min_observations = 30, pa_threshold = 1 / 20, pa_target_level = on_loop,
      pa_artifact = Some \<lparr>confidence_value = 9 / 10, error_prob = 1 / 10,
        evidence = EnsembleEvidence 5 (9 / 10), stale = False, computed_at = 0, annotations = []\<rparr>,
      pa_covered = True, pa_provenance_maturity = ''signed-lineage'', pa_blast_class = ''high'',
      pa_error_budget = None\<rparr>"

lemma predicate_is_all_gates_witness:
  "\<exists>r. evaluate_promotion_predicate sample_args = Inr r \<and> eligible r \<and> requires_human_ratification r"
proof -
  have "predicate_args_ok sample_args = Inr ()"
    by (simp add: predicate_args_ok_def sample_args_def MATURITY_RANK_def)
  from predicate_is_all_gates [OF this] show ?thesis
    by (elim ex_forward) (simp add: sample_args_def)
qed

end
