(* ===== verification/Record_Signing.thy ===== *)
theory Record_Signing
  imports Grant_Schemas
begin

text \<open>
  The signature of a ledger record (\<open>grants/record_signing.py\<close>, and \<open>pae\<close> and \<open>load_public_key\<close> of
  \<open>channels/signing.py\<close>): the canonical record bytes, the in-toto statement, the DSSE envelope, its verification, and
  the binding of each record type to one signing role. Bytes are strings. Base64 is modelled; the JSON reader, SHA-256
  and the Ed25519 and PEM functions of the cryptography library are the arguments \<open>crypto\<close>. The results show that
  what a role's signer signs verifies, and what a record that verifies carries; that it was signed, as stored, is shown
  in theory \<open>Admission_Signing\<close>, because the same keys sign the records of the admission ledger.
\<close>

section \<open>Base64\<close>

definition BASE64 :: string where
  "BASE64 = ''ABCDEFGHIJKLMNOPQRSTUVWXYZabcdefghijklmnopqrstuvwxyz0123456789+/''"

definition sextet :: "bool \<Rightarrow> bool \<Rightarrow> bool \<Rightarrow> bool \<Rightarrow> bool \<Rightarrow> bool \<Rightarrow> char" where
  "sextet a b c d e f =
     BASE64 ! (32 * of_bool a + 16 * of_bool b + 8 * of_bool c + 4 * of_bool d + 2 * of_bool e + of_bool f)"

fun b64encode :: "string \<Rightarrow> string" where
  "b64encode [] = []"
| "b64encode [Char a0 a1 a2 a3 a4 a5 a6 a7] =
     [sextet a7 a6 a5 a4 a3 a2, sextet a1 a0 False False False False, CHR ''='', CHR ''='']"
| "b64encode [Char a0 a1 a2 a3 a4 a5 a6 a7, Char b0 b1 b2 b3 b4 b5 b6 b7] =
     [sextet a7 a6 a5 a4 a3 a2, sextet a1 a0 b7 b6 b5 b4, sextet b3 b2 b1 b0 False False, CHR ''='']"
| "b64encode (Char a0 a1 a2 a3 a4 a5 a6 a7 # Char b0 b1 b2 b3 b4 b5 b6 b7 # Char c0 c1 c2 c3 c4 c5 c6 c7 # r) =
     sextet a7 a6 a5 a4 a3 a2 # sextet a1 a0 b7 b6 b5 b4 # sextet b3 b2 b1 b0 c7 c6 # sextet c5 c4 c3 c2 c1 c0
     # b64encode r"

definition unsextet :: "char \<Rightarrow> (bool \<times> bool \<times> bool \<times> bool \<times> bool \<times> bool) option" where
  "unsextet x =
     map_of [(sextet a b c d e f, (a, b, c, d, e, f)).
       a \<leftarrow> [False, True], b \<leftarrow> [False, True], c \<leftarrow> [False, True], d \<leftarrow> [False, True], e \<leftarrow> [False, True], f \<leftarrow> [False, True]] x"

text \<open>\<open>b64decode(s, validate=True)\<close>: groups of four, padding only at the end, no other characters. The spare bits of a
  padded group are dropped.\<close>

fun b64decode :: "string \<Rightarrow> string option" where
  "b64decode [] = Some []"
| "b64decode (w # x # y # z # r) =
     (case (unsextet w, unsextet x) of
        (Some (a7, a6, a5, a4, a3, a2), Some (a1, a0, b7, b6, b5, b4)) \<Rightarrow>
          let a = Char a0 a1 a2 a3 a4 a5 a6 a7 in
          if r = [] \<and> y = CHR ''='' \<and> z = CHR ''='' then Some [a]
          else (case unsextet y of
            None \<Rightarrow> None
          | Some (b3, b2, b1, b0, c7, c6) \<Rightarrow>
              let b = Char b0 b1 b2 b3 b4 b5 b6 b7 in
              if r = [] \<and> z = CHR ''='' then Some [a, b]
              else (case unsextet z of
                None \<Rightarrow> None
              | Some (c5, c4, c3, c2, c1, c0) \<Rightarrow>
                  map_option (\<lambda>s. a # b # Char c0 c1 c2 c3 c4 c5 c6 c7 # s) (b64decode r)))
      | _ \<Rightarrow> None)"
| "b64decode _ = None"

lemma sextets:
  "\<forall>a b c d e f. unsextet (sextet a b c d e f) = Some (a, b, c, d, e, f) \<and> sextet a b c d e f \<noteq> CHR ''=''"
  by code_simp

lemma unsextet_sextet [simp]: "unsextet (sextet a b c d e f) = Some (a, b, c, d, e, f)"
  using sextets by blast

lemma sextet_not_pad [simp]: "sextet a b c d e f \<noteq> CHR ''=''"
  using sextets by blast

lemma b64decode_encode [simp]: "b64decode (b64encode s) = Some s"
  by (induction s rule: b64encode.induct) simp_all

section \<open>What the cryptography and JSON libraries do\<close>

text \<open>\<open>cx_load_pem\<close>: \<open>None\<close> where \<open>load_pem_public_key\<close> raises, otherwise whether the key is an Ed25519 key and its raw
  bytes. \<open>cx_verify\<close>: the raw key, the signature and the message. \<open>cx_loads\<close>: \<open>json.loads\<close>, the members of an object in
  the order of the text. \<open>cx_fromiso\<close>: \<open>datetime.fromisoformat\<close>, with the conventions of \<open>iso_read\<close>.\<close>

record crypto =
  cx_load_pem :: "string \<Rightarrow> (bool \<times> string) option"
  cx_verify :: "string \<Rightarrow> string \<Rightarrow> string \<Rightarrow> bool"
  cx_sha256 :: "string \<Rightarrow> string"
  cx_loads :: "string \<Rightarrow> json option"
  cx_fromiso :: "string \<Rightarrow> (instant \<times> timedelta option) option"

definition load_public_key :: "crypto \<Rightarrow> string \<Rightarrow> exn + string" where
  "load_public_key K pem =
     (case cx_load_pem K pem of
        None \<Rightarrow> Inl (ValueError ''pem'')
      | Some (ed25519, raw) \<Rightarrow>
          if ed25519 then Inr raw else Inl (ValueError ''verification key must be an Ed25519 public key''))"

type_synonym key_resolver = "string \<Rightarrow> string option"

definition pae :: "string \<Rightarrow> string \<Rightarrow> string" where
  "pae payload_type payload =
     ''DSSEv1 '' @ int_str (int (length payload_type)) @ '' '' @ payload_type @ '' ''
       @ int_str (int (length payload)) @ '' '' @ payload"

definition json_text :: "json \<Rightarrow> string" where
  "json_text v = dumps (\<lambda>_. []) v"

text \<open>\<open>d.get(k)\<close> on a parsed object: of a repeated member the last one counts.\<close>

definition member :: "json \<Rightarrow> string \<Rightarrow> json option" where
  "member v k = (case v of JObj kvs \<Rightarrow> map_of (rev kvs) k | _ \<Rightarrow> None)"

definition is_obj :: "json \<Rightarrow> bool" where
  "is_obj v = (case v of JObj _ \<Rightarrow> True | _ \<Rightarrow> False)"

definition falsy :: "json \<Rightarrow> bool" where
  "falsy v \<longleftrightarrow> v \<in> {JNull, JBool False, JNum 0, JStr [], JList [], JObj []}"

definition head_of :: "json \<Rightarrow> json option" where
  "head_of v = (case v of JList (x # _) \<Rightarrow> Some x | _ \<Rightarrow> None)"

section \<open>Records and statements\<close>

definition RECORD_PREDICATE_TYPE :: string where
  "RECORD_PREDICATE_TYPE = ''https://safe-agents.dev/promotion-record/v1''"

definition DSSE_PAYLOAD_TYPE :: string where "DSSE_PAYLOAD_TYPE = ''application/vnd.in-toto+json''"

definition STATEMENT_TYPE :: string where "STATEMENT_TYPE = ''https://in-toto.io/Statement/v1''"

definition opt_str :: "string option \<Rightarrow> json" where
  "opt_str v = (case v of None \<Rightarrow> JNull | Some s \<Rightarrow> JStr s)"

definition reason_str :: "demotion_reason \<Rightarrow> string" where
  "reason_str r = (case r of failing \<Rightarrow> ''failing'' | pending_evidence \<Rightarrow> ''pending-evidence'')"

text \<open>\<open>model_dump(mode="json")\<close>, without \<open>certifiedUntil\<close> when it is absent.\<close>

definition record_json :: "PromotionRecord \<Rightarrow> json" where
  "record_json r =
     JObj ([(''recordType'', JStr (record_type_str (pr_recordType r))),
            (''actionClass'', JStr (pr_actionClass r)),
            (''principal'', JObj [(''agentId'', JStr (agentId (pr_principal r))), (''skill'', JStr (skill (pr_principal r))),
               (''user'', JStr (user (pr_principal r))), (''tier'', JStr (tier_str (tier (pr_principal r))))]),
            (''fromLevel'', opt_str (map_option level_str (pr_fromLevel r))),
            (''toLevel'', JStr (level_str (pr_toLevel r))),
            (''evidence'', JStr (pr_evidence r)),
            (''predicate'', opt_str (pr_predicate r)),
            (''proposedBy'', JStr (pr_proposedBy r)),
            (''ratifiedBy'', JStr (pr_ratifiedBy r)),
            (''attestation'', opt_str (pr_attestation r)),
            (''envelopeHash'', JStr (pr_envelopeHash r)),
            (''triggeredBy'', JList (map JStr (pr_triggeredBy r))),
            (''demotionReason'', opt_str (map_option reason_str (pr_demotionReason r))),
            (''ts'', JStr (iso_str (pr_ts r)))]
         @ (case pr_certifiedUntil r of None \<Rightarrow> [] | Some u \<Rightarrow> [(''certifiedUntil'', JStr (iso_str u))]))"

definition canonical_record_payload :: "PromotionRecord \<Rightarrow> string" where
  "canonical_record_payload r = json_text (record_json r)"

definition record_statement :: "crypto \<Rightarrow> PromotionRecord \<Rightarrow> string \<Rightarrow> string \<Rightarrow> json" where
  "record_statement K r key_id zone =
     JObj [(''_type'', JStr STATEMENT_TYPE),
           (''predicateType'', JStr RECORD_PREDICATE_TYPE),
           (''subject'', JList [JObj [(''name'', JStr ''promotion-record''),
              (''digest'', JObj [(''sha256'', JStr (cx_sha256 K (canonical_record_payload r)))])]]),
           (''predicate'', JObj [
              (''signer'', JObj [(''key_id'', JStr key_id), (''zone'', JStr zone)]),
              (''record'', JObj [
                 (''recordType'', JStr (record_type_str (pr_recordType r))),
                 (''ts'', JStr (iso_str (pr_ts r))),
                 (''actionClass'', JStr (pr_actionClass r)),
                 (''proposedBy'', JStr (pr_proposedBy r)),
                 (''ratifiedBy'', JStr (pr_ratifiedBy r)),
                 (''envelopeHash'', JStr (pr_envelopeHash r))])])]"

definition build_record_statement :: "crypto \<Rightarrow> PromotionRecord \<Rightarrow> string \<Rightarrow> string \<Rightarrow> string" where
  "build_record_statement K r key_id zone = json_text (record_statement K r key_id zone)"

text \<open>A signing identity: its key id, its zone and the signing function of its private key.\<close>

record RecordSigner =
  rs_key_id :: string
  rs_zone :: string
  rs_sign :: "string \<Rightarrow> string"

definition sign_record :: "crypto \<Rightarrow> RecordSigner \<Rightarrow> PromotionRecord \<Rightarrow> json" where
  "sign_record K sgnr r =
     (let statement = build_record_statement K r (rs_key_id sgnr) (rs_zone sgnr);
          sig = rs_sign sgnr (pae DSSE_PAYLOAD_TYPE statement) in
      JObj [(''payloadType'', JStr DSSE_PAYLOAD_TYPE),
            (''payload'', JStr (b64encode statement)),
            (''signatures'', JList [JObj [(''keyid'', JStr (rs_key_id sgnr)), (''sig'', JStr (b64encode sig))]])])"

section \<open>Verification\<close>

record DsseVerifyReasons =
  dv_missing :: string
  dv_malformed :: string
  dv_invalid :: string
  dv_signer_unknown :: string

text \<open>The loop over the signatures: \<open>Inr None\<close> when every one verifies. A key id that is a list or an object is not
  hashable, so looking it up raises.\<close>

definition signature_bytes :: "json \<Rightarrow> string option" where
  "signature_bytes v = (case v of JStr s \<Rightarrow> b64decode s | _ \<Rightarrow> None)"

fun check_signatures ::
  "crypto \<Rightarrow> DsseVerifyReasons \<Rightarrow> key_resolver \<Rightarrow> json \<Rightarrow> string \<Rightarrow> json list \<Rightarrow> exn + string option" where
  "check_signatures K reasons resolver signer signed [] = Inr None"
| "check_signatures K reasons resolver signer signed (s # ss) =
     (case (member s ''keyid'', member s ''sig'') of
        (Some keyid, Some sig) \<Rightarrow>
          if keyid \<noteq> signer then Inr (Some (dv_invalid reasons))
          else (case keyid of
            JList _ \<Rightarrow> Inl (Exn ''TypeError'' ''unhashable type'')
          | JObj _ \<Rightarrow> Inl (Exn ''TypeError'' ''unhashable type'')
          | JStr k \<Rightarrow>
              (case resolver k of
                 None \<Rightarrow> Inr (Some (dv_signer_unknown reasons))
               | Some pub \<Rightarrow>
                   (case signature_bytes sig of
                      None \<Rightarrow> Inr (Some (dv_invalid reasons))
                    | Some b \<Rightarrow>
                        if cx_verify K pub b signed then check_signatures K reasons resolver signer signed ss
                        else Inr (Some (dv_invalid reasons))))
          | _ \<Rightarrow> Inr (Some (dv_signer_unknown reasons)))
      | _ \<Rightarrow> Inr (Some (dv_malformed reasons)))"

definition statement_subject :: "json \<Rightarrow> json option" where
  "statement_subject st =
     Option.bind (member st ''subject'') (\<lambda>s. Option.bind (head_of s) (\<lambda>x.
     Option.bind (member x ''digest'') (\<lambda>d. member d ''sha256'')))"

definition statement_signer :: "json \<Rightarrow> json option" where
  "statement_signer st =
     Option.bind (member st ''predicate'') (\<lambda>p. Option.bind (member p ''signer'') (\<lambda>s. member s ''key_id''))"

definition decode_statement :: "crypto \<Rightarrow> json \<Rightarrow> (string \<times> json) option" where
  "decode_statement K envelope =
     (case member envelope ''payload'' of
        Some (JStr p) \<Rightarrow>
          Option.bind (b64decode p) (\<lambda>bytes. Option.bind (cx_loads K bytes) (\<lambda>st.
            if is_obj st then Some (bytes, st) else None))
      | _ \<Rightarrow> None)"

definition verify_dsse_record ::
  "crypto \<Rightarrow> json \<Rightarrow> string \<Rightarrow> string \<Rightarrow> key_resolver \<Rightarrow> DsseVerifyReasons \<Rightarrow> exn + string option" where
  "verify_dsse_record K envelope predicate_type digest resolver reasons =
     (if \<not> is_obj envelope then Inr (Some (dv_malformed reasons))
      else (case member envelope ''signatures'' of
        None \<Rightarrow> Inr (Some (dv_missing reasons))
      | Some signatures \<Rightarrow>
          if falsy signatures then Inr (Some (dv_missing reasons))
          else (case signatures of
            JList sigs \<Rightarrow>
              if member envelope ''payloadType'' \<noteq> Some (JStr DSSE_PAYLOAD_TYPE) then Inr (Some (dv_invalid reasons))
              else (case decode_statement K envelope of
                None \<Rightarrow> Inr (Some (dv_malformed reasons))
              | Some (bytes, st) \<Rightarrow>
                  if member st ''_type'' \<noteq> Some (JStr STATEMENT_TYPE) then Inr (Some (dv_invalid reasons))
                  else if member st ''predicateType'' \<noteq> Some (JStr predicate_type) then Inr (Some (dv_invalid reasons))
                  else (case (statement_subject st, statement_signer st) of
                    (Some subject, Some signer) \<Rightarrow>
                      if subject \<noteq> JStr digest then Inr (Some (dv_invalid reasons))
                      else check_signatures K reasons resolver signer (pae DSSE_PAYLOAD_TYPE bytes) sigs
                  | _ \<Rightarrow> Inr (Some (dv_malformed reasons))))
          | _ \<Rightarrow> Inr (Some (dv_malformed reasons)))))"

definition RECORD_VERIFY_REASONS :: DsseVerifyReasons where
  "RECORD_VERIFY_REASONS =
     \<lparr>dv_missing = ''record_signature_missing'', dv_malformed = ''record_signature_malformed'',
      dv_invalid = ''record_signature_invalid'', dv_signer_unknown = ''record_signer_unknown''\<rparr>"

record RecordVerifyResult =
  rv_ok :: bool
  rv_reason :: "string option"
  rv_key_id :: "string option"

definition verify_record :: "crypto \<Rightarrow> string \<Rightarrow> json \<Rightarrow> key_resolver \<Rightarrow> exn + RecordVerifyResult" where
  "verify_record K stored envelope resolver =
     bind_r (verify_dsse_record K envelope RECORD_PREDICATE_TYPE (cx_sha256 K stored) resolver RECORD_VERIFY_REASONS)
       (\<lambda>reason. Inr \<lparr>rv_ok = (reason = None), rv_reason = reason, rv_key_id = None\<rparr>)"

section \<open>Signing roles\<close>

datatype signing_role = issuer_role | evaluator_role

definition RECORD_TYPE_SIGNING_ROLE :: "(string, signing_role) dict" where
  "RECORD_TYPE_SIGNING_ROLE =
     [(''promotion'', issuer_role), (''bootstrap'', issuer_role), (''tightening'', issuer_role),
      (''reattestation'', issuer_role), (''demotion'', evaluator_role), (''lapse'', evaluator_role),
      (''withdrawal'', evaluator_role)]"

definition signing_role_for_record_type :: "string \<Rightarrow> signing_role option" where
  "signing_role_for_record_type t = map_of RECORD_TYPE_SIGNING_ROLE t"

text \<open>The key maps of the two roles, and the key states of the roles that have a standing source.\<close>

record RoleKeyResolvers =
  rk_issuer :: "key_resolver option"
  rk_evaluator :: "key_resolver option"
  rk_standing :: "signing_role \<Rightarrow> (string \<Rightarrow> string option) option"

definition for_role :: "RoleKeyResolvers \<Rightarrow> signing_role \<Rightarrow> key_resolver option" where
  "for_role R role = (case role of issuer_role \<Rightarrow> rk_issuer R | evaluator_role \<Rightarrow> rk_evaluator R)"

definition roles_resolving :: "RoleKeyResolvers \<Rightarrow> string \<Rightarrow> signing_role list" where
  "roles_resolving R key_id =
     filter (\<lambda>role. case for_role R role of None \<Rightarrow> False | Some f \<Rightarrow> f key_id \<noteq> None) [issuer_role, evaluator_role]"

definition envelope_signer_key_id :: "json \<Rightarrow> string option" where
  "envelope_signer_key_id envelope =
     (case member envelope ''signatures'' of
        Some (JList (first # _)) \<Rightarrow> (case member first ''keyid'' of Some (JStr k) \<Rightarrow> Some k | _ \<Rightarrow> None)
      | _ \<Rightarrow> None)"

definition refused :: "string \<Rightarrow> RecordVerifyResult" where
  "refused why = \<lparr>rv_ok = False, rv_reason = Some why, rv_key_id = None\<rparr>"

definition verify_record_by_type ::
  "crypto \<Rightarrow> string \<Rightarrow> json \<Rightarrow> string \<Rightarrow> RoleKeyResolvers \<Rightarrow> exn + RecordVerifyResult" where
  "verify_record_by_type K stored envelope record_type R =
     (case signing_role_for_record_type record_type of
        None \<Rightarrow> Inr (refused ''record_role_unresolved'')
      | Some role \<Rightarrow>
        (case for_role R role of
           None \<Rightarrow> Inr (refused ''record_role_unresolved'')
         | Some resolver \<Rightarrow>
             let key_id = envelope_signer_key_id envelope;
                 holders = (case key_id of None \<Rightarrow> [] | Some k \<Rightarrow> roles_resolving R k) in
             if length holders > 1 then Inr (refused ''record_signer_role_ambiguous'')
             else if holders \<noteq> [] \<and> hd holders \<noteq> role then Inr (refused ''record_signer_wrong_role'')
             else bind_r (verify_record K stored envelope resolver) (\<lambda>res.
               if \<not> rv_ok res then Inr res
               else if (case (rk_standing R role, key_id) of
                          (Some state, Some k) \<Rightarrow> state k = Some ''withdrawn'' | _ \<Rightarrow> False)
               then Inr \<lparr>rv_ok = False, rv_reason = Some ''record_signer_withdrawn'', rv_key_id = key_id\<rparr>
               else Inr \<lparr>rv_ok = True, rv_reason = None, rv_key_id = key_id\<rparr>)))"

section \<open>What verifies was signed\<close>

text \<open>What the reader of JSON promises: canonical text reads back as the value with its members in order.\<close>

locale json_reader =
  fixes loads :: "string \<Rightarrow> json option"
  assumes loads_text: "wf_json v \<Longrightarrow> loads (json_text v) = Some (sorted_json v)"

interpretation canonical_reader: json_reader read_canonical
  by unfold_locales (metis canonical_sorted_json dumps_sorted_json json_text_def read_canonical_dumps)

lemma member_sorted:
  assumes "distinct (map fst kvs)"
  shows "member (sorted_json (JObj kvs)) k = map_option sorted_json (map_of kvs k)"
proof -
  let ?xs = "sort_key fst (map (\<lambda>(k, v). (k, sorted_json v)) kvs)"
  have d: "distinct (map fst ?xs)" by (rule sorted_members(1) [OF assms])
  then have "map_of (rev ?xs) = map_of ?xs" 
    by (intro map_of_inject_set [THEN iffD2]) (simp_all add: rev_map [symmetric])
  then show ?thesis using sorted_members(2) [OF assms] by (simp add: member_def)
qed

lemma int_str_no_space: "CHR '' '' \<notin> set (int_str (int n))"
  using nat_digits_all [of n] by (auto simp: int_str_def list_all_iff is_digit_def)

lemma pae_inject: "pae t p = pae t' p' \<longleftrightarrow> t = t' \<and> p = p'"
proof
  assume e: "pae t p = pae t' p'"
  then have n: "int_str (int (length t)) = int_str (int (length t'))"
    and r: "t @ CHR '' '' # int_str (int (length p)) @ CHR '' '' # p = t' @ CHR '' '' # int_str (int (length p')) @ CHR '' '' # p'"
    using append_sep_inject [OF int_str_no_space int_str_no_space, of "length t" _ "length t'"] by (auto simp: pae_def)
  have "no_digit []" by simp
  with n have "length t = length t'" using read_int_str [of "[]"] by (metis append_Nil2 fst_conv of_nat_eq_iff option.inject)
  with r show "t = t' \<and> p = p'"
    using append_sep_inject [OF int_str_no_space int_str_no_space, of "length p" p "length p'" p'] by auto
qed simp

lemma check_signatures_ok:
  assumes "check_signatures K reasons resolver signer signed sigs = Inr None" and "sigs \<noteq> []"
  shows "\<exists>k pub b. signer = JStr k \<and> resolver k = Some pub \<and> cx_verify K pub b signed
    \<and> member (hd sigs) ''keyid'' = Some (JStr k)"
  using assms
  by (cases sigs) (auto split: option.splits json.splits if_splits)

lemma verify_dsse_ok:
  assumes "verify_dsse_record K envelope predicate_type digest resolver reasons = Inr None"
  shows "\<exists>k pub b bytes st. envelope_signer_key_id envelope = Some k \<and> resolver k = Some pub
    \<and> cx_verify K pub b (pae DSSE_PAYLOAD_TYPE bytes) \<and> cx_loads K bytes = Some st
    \<and> member st ''predicateType'' = Some (JStr predicate_type)
    \<and> statement_subject st = Some (JStr digest) \<and> statement_signer st = Some (JStr k)"
proof -
  from assms obtain sigs bytes st subject signer where *: "member envelope ''signatures'' = Some (JList sigs)"
    "\<not> falsy (JList sigs)" "decode_statement K envelope = Some (bytes, st)" "statement_subject st = Some subject"
    "statement_signer st = Some signer" "subject = JStr digest"
    "check_signatures K reasons resolver signer (pae DSSE_PAYLOAD_TYPE bytes) sigs = Inr None"
    "member st ''predicateType'' = Some (JStr predicate_type)"
    by (auto simp: verify_dsse_record_def split: option.splits json.splits if_splits)
  have "sigs \<noteq> []" using *(2) by (auto simp: falsy_def)
  then obtain s ss where s: "sigs = s # ss" by (cases sigs) auto
  obtain k pub b where k: "signer = JStr k" "resolver k = Some pub" "cx_verify K pub b (pae DSSE_PAYLOAD_TYPE bytes)"
    "member s ''keyid'' = Some (JStr k)"
    using check_signatures_ok [OF *(7)] s by auto
  moreover have "envelope_signer_key_id envelope = Some k" using *(1) k(4) by (simp add: envelope_signer_key_id_def s)
  moreover have "cx_loads K bytes = Some st"
    using *(3) by (auto simp: decode_statement_def Option.bind_eq_Some_conv split: option.splits json.splits if_splits)
  ultimately show ?thesis using *(4-6,8) by blast
qed

lemma verify_record_ok:
  assumes "verify_record K stored envelope resolver = Inr res" and "rv_ok res"
  shows "verify_dsse_record K envelope RECORD_PREDICATE_TYPE (cx_sha256 K stored) resolver RECORD_VERIFY_REASONS = Inr None"
  using assms by (auto simp: verify_record_def bind_r_Inr_iff)

lemma verify_record_by_type_ok:
  assumes "verify_record_by_type K stored envelope t R = Inr res" and "rv_ok res"
  shows "\<exists>role resolver k. signing_role_for_record_type t = Some role \<and> for_role R role = Some resolver
    \<and> rv_key_id res = Some k \<and> roles_resolving R k = [role]
    \<and> (\<forall>state. rk_standing R role = Some state \<longrightarrow> state k \<noteq> Some ''withdrawn'')
    \<and> (\<exists>pub b bytes st. resolver k = Some pub \<and> cx_verify K pub b (pae DSSE_PAYLOAD_TYPE bytes)
        \<and> cx_loads K bytes = Some st \<and> member st ''predicateType'' = Some (JStr RECORD_PREDICATE_TYPE)
        \<and> statement_subject st = Some (JStr (cx_sha256 K stored)) \<and> statement_signer st = Some (JStr k))"
proof -
  let ?holders = "case envelope_signer_key_id envelope of None \<Rightarrow> [] | Some k \<Rightarrow> roles_resolving R k"
  from assms obtain role resolver res' where *: "signing_role_for_record_type t = Some role"
    "for_role R role = Some resolver" "\<not> length ?holders > 1" "\<not> (?holders \<noteq> [] \<and> hd ?holders \<noteq> role)"
    "verify_record K stored envelope resolver = Inr res'" "rv_ok res'"
    "rv_key_id res = envelope_signer_key_id envelope"
    "\<not> (case (rk_standing R role, envelope_signer_key_id envelope) of
          (Some state, Some k) \<Rightarrow> state k = Some ''withdrawn'' | _ \<Rightarrow> False)"
    by (auto simp: verify_record_by_type_def Let_def refused_def bind_r_Inr_iff split: option.splits if_splits)
  obtain k pub b bytes st where k: "envelope_signer_key_id envelope = Some k" "resolver k = Some pub"
    "cx_verify K pub b (pae DSSE_PAYLOAD_TYPE bytes)" "cx_loads K bytes = Some st"
    "member st ''predicateType'' = Some (JStr RECORD_PREDICATE_TYPE)"
    "statement_subject st = Some (JStr (cx_sha256 K stored))" "statement_signer st = Some (JStr k)"
    using verify_dsse_ok [OF verify_record_ok [OF *(5,6)]] by blast
  have "role \<in> set (roles_resolving R k)" using *(2) k(2) by (cases role) (auto simp: roles_resolving_def)
  then have "roles_resolving R k = [role]"
    using *(3,4) k(1) by (cases "roles_resolving R k"; cases "tl (roles_resolving R k)") auto
  with * k show ?thesis by (intro exI [of _ role] exI [of _ resolver] exI [of _ k]) auto
qed

lemma statement_wf: "wf_json (record_statement K r k zone)"
  by (simp add: record_statement_def)

lemma sorted_leaves: "sorted_json (JStr s) = JStr s" "sorted_json (JList vs) = JList (map sorted_json vs)"
  by simp_all

lemma statement_reads:
  fixes K :: crypto and r :: PromotionRecord and k zone :: string
  defines "st \<equiv> sorted_json (record_statement K r k zone)"
  shows "is_obj st" "member st ''_type'' = Some (JStr STATEMENT_TYPE)"
    "member st ''predicateType'' = Some (JStr RECORD_PREDICATE_TYPE)"
    "statement_subject st = Some (JStr (cx_sha256 K (canonical_record_payload r)))"
    "statement_signer st = Some (JStr k)"
  unfolding st_def record_statement_def statement_subject_def statement_signer_def
  by (simp_all add: member_sorted sorted_leaves head_of_def is_obj_def del: sorted_json.simps)
    (simp_all add: is_obj_def member_def)

lemma sign_then_verify:
  assumes reader: "json_reader (cx_loads K)"
    and keys: "cx_verify K pub (rs_sign sgnr (pae DSSE_PAYLOAD_TYPE (build_record_statement K r (rs_key_id sgnr) (rs_zone sgnr))))
      (pae DSSE_PAYLOAD_TYPE (build_record_statement K r (rs_key_id sgnr) (rs_zone sgnr)))"
    and role: "signing_role_for_record_type (record_type_str (pr_recordType r)) = Some role"
      "for_role R role = Some resolver" "resolver (rs_key_id sgnr) = Some pub" "roles_resolving R (rs_key_id sgnr) = [role]"
    and standing: "\<And>state. rk_standing R role = Some state \<Longrightarrow> state (rs_key_id sgnr) \<noteq> Some ''withdrawn''"
  shows "verify_record_by_type K (canonical_record_payload r) (sign_record K sgnr r) (record_type_str (pr_recordType r)) R
    = Inr \<lparr>rv_ok = True, rv_reason = None, rv_key_id = Some (rs_key_id sgnr)\<rparr>"
proof -
  let ?st = "record_statement K r (rs_key_id sgnr) (rs_zone sgnr)"
  have dec: "decode_statement K (sign_record K sgnr r) = Some (json_text ?st, sorted_json ?st)"
    using json_reader.loads_text [OF reader statement_wf] statement_reads(1)
    by (simp add: decode_statement_def sign_record_def Let_def member_def build_record_statement_def)
  let ?sig = "JObj [(''keyid'', JStr (rs_key_id sgnr)),
    (''sig'', JStr (b64encode (rs_sign sgnr (pae DSSE_PAYLOAD_TYPE (json_text ?st)))))]"
  have env: "is_obj (sign_record K sgnr r)" "member (sign_record K sgnr r) ''signatures'' = Some (JList [?sig])"
    "member (sign_record K sgnr r) ''payloadType'' = Some (JStr DSSE_PAYLOAD_TYPE)"
    by (simp_all add: sign_record_def Let_def is_obj_def member_def build_record_statement_def)
  have "check_signatures K reasons resolver (JStr (rs_key_id sgnr)) (pae DSSE_PAYLOAD_TYPE (json_text ?st)) [?sig] = Inr None"
    for reasons using role(3) keys by (simp add: member_def signature_bytes_def build_record_statement_def)
  with dec env have "verify_record K (canonical_record_payload r) (sign_record K sgnr r) resolver
      = Inr \<lparr>rv_ok = True, rv_reason = None, rv_key_id = None\<rparr>"
    by (simp add: verify_record_def verify_dsse_record_def statement_reads falsy_def del: check_signatures.simps)
  moreover have "envelope_signer_key_id (sign_record K sgnr r) = Some (rs_key_id sgnr)"
    by (simp add: envelope_signer_key_id_def sign_record_def Let_def member_def)
  ultimately show ?thesis
    using role standing by (auto simp: verify_record_by_type_def Let_def split: option.splits)
qed

text \<open>What the role's signer signs verifies. A record signed with a key that its type's role resolves to the matching
  public key, that the other role does not know and that is not withdrawn, verifies over its canonical bytes, naming
  that key.\<close>

lemma signed_record_verifies:
  assumes reader: "json_reader (cx_loads K)"
    and keys: "\<And>m. cx_verify K pub (rs_sign sgnr m) m"
    and role: "signing_role_for_record_type (record_type_str (pr_recordType r)) = Some role"
      "for_role R role = Some resolver" "resolver (rs_key_id sgnr) = Some pub" "roles_resolving R (rs_key_id sgnr) = [role]"
    and standing: "\<And>state. rk_standing R role = Some state \<Longrightarrow> state (rs_key_id sgnr) \<noteq> Some ''withdrawn''"
  shows "verify_record_by_type K (canonical_record_payload r) (sign_record K sgnr r) (record_type_str (pr_recordType r)) R
    = Inr \<lparr>rv_ok = True, rv_reason = None, rv_key_id = Some (rs_key_id sgnr)\<rparr>"
  using sign_then_verify [of K pub sgnr r role R resolver] assms by blast

section \<open>Witnesses\<close>

definition sample_signed :: PromotionRecord where
  "sample_signed =
     \<lparr>pr_recordType = Bootstrap, pr_actionClass = ''mail.send'', pr_principal = sample_principal, pr_fromLevel = None,
      pr_toLevel = in_loop, pr_evidence = ''ev'', pr_predicate = None, pr_proposedBy = ''op'', pr_ratifiedBy = ''op'',
      pr_attestation = None, pr_envelopeHash = ''e1'', pr_triggeredBy = [], pr_demotionReason = None,
      pr_ts = iso_of 5, pr_certifiedUntil = None\<rparr>"

text \<open>A digest that is the text itself.\<close>

definition sample_digest :: crypto where
  "sample_digest =
     \<lparr>cx_load_pem = (\<lambda>p. Some (True, p)), cx_verify = (\<lambda>_ _ _. False), cx_sha256 = (\<lambda>s. s), cx_loads = read_canonical,
      cx_fromiso = (\<lambda>_. None)\<rparr>"

definition sample_resolvers :: RoleKeyResolvers where
  "sample_resolvers =
     \<lparr>rk_issuer = Some ((\<lambda>_. None)(''k1'' := Some ''P'')), rk_evaluator = Some (\<lambda>_. None), rk_standing = (\<lambda>_. None)\<rparr>"

definition open_crypto :: crypto where
  "open_crypto = sample_digest\<lparr>cx_verify := (\<lambda>pub b m. b = pub @ m)\<rparr>"

definition sample_signer :: RecordSigner where
  "sample_signer = \<lparr>rs_key_id = ''k1'', rs_zone = ''z'', rs_sign = (\<lambda>m. ''P'' @ m)\<rparr>"

lemma sample_roles:
  "signing_role_for_record_type (record_type_str (pr_recordType sample_signed)) = Some issuer_role"
  "for_role sample_resolvers issuer_role = Some ((\<lambda>_. None)(''k1'' := Some ''P''))"
  "roles_resolving sample_resolvers ''k1'' = [issuer_role]" "rk_standing sample_resolvers role = None"
  by (simp_all add: signing_role_for_record_type_def record_type_str_def sample_signed_def RECORD_TYPE_SIGNING_ROLE_def
      for_role_def sample_resolvers_def roles_resolving_def)

lemma signed_record_verifies_witness:
  "verify_record_by_type open_crypto (canonical_record_payload sample_signed) (sign_record open_crypto sample_signer sample_signed)
     (record_type_str (pr_recordType sample_signed)) sample_resolvers
   = Inr \<lparr>rv_ok = True, rv_reason = None, rv_key_id = Some ''k1''\<rparr>"
proof -
  have "json_reader (cx_loads open_crypto)" "cx_verify open_crypto ''P'' (rs_sign sample_signer m) m" for m
    by (simp_all add: open_crypto_def sample_digest_def sample_signer_def canonical_reader.json_reader_axioms)
  from signed_record_verifies [OF this sample_roles(1,2)] sample_roles(3,4) show ?thesis
    by (simp add: sample_signer_def)
qed

end
