(* ===== verification/Grant_Store.thy ===== *)
theory Grant_Store
  imports Grant_Schemas
begin

text \<open>
  The grant store and the ceremony ledger (\<open>grants/store.py\<close>, the in-memory record store of
  \<open>grants/ceremony.py\<close>) and the ledger's clock (\<open>grants/ledger_clock.py\<close>). A grant is serialized once, stored
  verbatim and authenticated by an item-level HMAC; a read verifies the stored bytes before it parses them, and bytes
  that fail are quarantined and never parsed. Every write to an existing grant appends the ledger record that
  accounts for it, in one unit.

  The stored bytes are a value of the type \<open>'p\<close>. What the source takes from libraries is the record
  \<open>grant_codec\<close>: the canonical JSON of grants and of records, the validated reading of each, and the HMAC under the
  store's key. The locale \<open>grant_ledger\<close> is what the lifecycle relies on; every codec gives an in-memory store that
  satisfies it.
\<close>

section \<open>Errors and keys\<close>

abbreviation GrantUpdateConflictError :: "string \<Rightarrow> exn" where
  "GrantUpdateConflictError m \<equiv> Exn ''GrantUpdateConflictError'' m"

abbreviation GrantAlreadyExistsError :: "string \<Rightarrow> exn" where
  "GrantAlreadyExistsError m \<equiv> Exn ''GrantAlreadyExistsError'' m"

abbreviation RecordAlreadyExistsError :: "string \<Rightarrow> exn" where
  "RecordAlreadyExistsError m \<equiv> Exn ''RecordAlreadyExistsError'' m"

abbreviation RecordTimestampFormatError :: "string \<Rightarrow> exn" where
  "RecordTimestampFormatError m \<equiv> Exn ''RecordTimestampFormatError'' m"

abbreviation TermExtensionRefusedError :: "string \<Rightarrow> exn" where
  "TermExtensionRefusedError m \<equiv> Exn ''TermExtensionRefusedError'' m"

abbreviation ReattestationRefusedError :: "string \<Rightarrow> exn" where
  "ReattestationRefusedError m \<equiv> Exn ''ReattestationRefusedError'' m"

abbreviation LapseRefusedError :: "string \<Rightarrow> exn" where
  "LapseRefusedError m \<equiv> Exn ''LapseRefusedError'' m"

abbreviation QuarantinedGrantError :: "string \<Rightarrow> exn" where
  "QuarantinedGrantError m \<equiv> Exn ''QuarantinedGrantError'' m"

type_synonym grant_slot = "string \<times> string"

definition grant_key :: "Principal \<Rightarrow> string \<Rightarrow> grant_slot" where
  "grant_key p action_class = (principal_key p, action_class)"

definition promotion_record_pk :: "Principal \<Rightarrow> string \<Rightarrow> string" where
  "promotion_record_pk p action_class = principal_key p @ ''#'' @ action_class"

definition promotion_record_sk :: "PromotionRecord \<Rightarrow> string" where
  "promotion_record_sk r = iso_str (pr_ts r) @ ''#'' @ record_type_str (pr_recordType r)"

lemma record_pk_of_key: "grant_key p c = grant_key p' c' \<Longrightarrow> promotion_record_pk p c = promotion_record_pk p' c'"
  by (simp add: grant_key_def promotion_record_pk_def)

definition endswith :: "string \<Rightarrow> string \<Rightarrow> bool" where
  "endswith s p = startswith (rev s) (rev p)"

definition validate_record_ts :: "iso \<Rightarrow> exn + unit" where
  "validate_record_ts v =
     (case iso_read v of
        None \<Rightarrow> Inl (RecordTimestampFormatError ''not parseable'')
      | Some (_, None) \<Rightarrow> Inl (RecordTimestampFormatError ''naive'')
      | Some (_, Some off) \<Rightarrow>
          if off \<noteq> 0 \<or> \<not> endswith (iso_str v) ''+00:00''
          then Inl (RecordTimestampFormatError ''must be UTC and end with '+00:00' '')
          else Inr ())"

section \<open>Items and reads\<close>

record 'p grant_codec =
  parse_delta :: delta_parser
  dump_grant :: "Grant \<Rightarrow> 'p"
  load_grant :: "'p \<Rightarrow> exn + Grant"
  dump_record :: "PromotionRecord \<Rightarrow> 'p"
  load_record :: "'p \<Rightarrow> exn + PromotionRecord"
  hmac_of :: "'p \<Rightarrow> string"

text \<open>\<open>None\<close> where the attribute is missing or is not a string.\<close>

record 'p grant_item =
  gi_data :: "'p option"
  gi_hash :: "string option"

record 'p GrantReadResult =
  rr_grant :: "Grant option"
  rr_quarantined :: bool
  rr_quarantine_reason :: "string option"
  rr_raw_data :: "'p option"
  rr_stored_hash :: "string option"

definition absent_grant :: "'p GrantReadResult" where
  "absent_grant = \<lparr>rr_grant = None, rr_quarantined = False, rr_quarantine_reason = None, rr_raw_data = None,
     rr_stored_hash = None\<rparr>"

definition read_result_from_item :: "'p grant_codec \<Rightarrow> 'p grant_item \<Rightarrow> exn + 'p GrantReadResult" where
  "read_result_from_item C it =
     (case (gi_data it, gi_hash it) of
        (Some dat, Some h) \<Rightarrow>
          if h \<noteq> hmac_of C dat
          then Inr \<lparr>rr_grant = None, rr_quarantined = True, rr_quarantine_reason = Some ''hash mismatch'',
                    rr_raw_data = Some dat, rr_stored_hash = Some h\<rparr>
          else bind_r (load_grant C dat) (\<lambda>g.
            Inr \<lparr>rr_grant = Some g, rr_quarantined = False, rr_quarantine_reason = None,
                 rr_raw_data = Some dat, rr_stored_hash = Some h\<rparr>)
      | _ \<Rightarrow> Inr \<lparr>rr_grant = None, rr_quarantined = True,
                   rr_quarantine_reason = Some ''stored item is missing its data or grantHash attribute'',
                   rr_raw_data = gi_data it, rr_stored_hash = None\<rparr>)"

definition build_item :: "'p grant_codec \<Rightarrow> Grant \<Rightarrow> 'p grant_item" where
  "build_item C g = (let payload = dump_grant C g in \<lparr>gi_data = Some payload, gi_hash = Some (hmac_of C payload)\<rparr>)"

section \<open>What a write may not change\<close>

text \<open>\<open>prev\<close> is the stored bytes of the guarded re-read; bytes that are not a grant's are left to the write's own
  condition.\<close>

definition refuse_term_extension ::
  "'p grant_codec \<Rightarrow> 'p option \<Rightarrow> Grant \<Rightarrow> record_type \<Rightarrow> exn + unit" where
  "refuse_term_extension C prev updated rt =
     (if rt = Promotion then Inr ()
      else (case prev of None \<Rightarrow> Inr ()
       | Some raw \<Rightarrow>
         (case load_grant C raw of Inl _ \<Rightarrow> Inr ()
          | Inr previous \<Rightarrow>
            bind_r (extends_term (gr_certifiedUntil previous) (gr_certifiedUntil updated)) (\<lambda>longer.
              if longer then Inl (TermExtensionRefusedError (gr_actionClass updated)) else Inr ()))))"

text \<open>Every field but the three a re-attestation may change.\<close>

definition reattestation_drift :: "Grant \<Rightarrow> Grant \<Rightarrow> bool" where
  "reattestation_drift previous g \<longleftrightarrow>
     previous\<lparr>gr_envelopeHash := gr_envelopeHash g, gr_promotedBy := gr_promotedBy g, gr_ts := gr_ts g\<rparr> \<noteq> g"

definition refuse_reattestation_drift ::
  "'p grant_codec \<Rightarrow> 'p option \<Rightarrow> PromotionRecord \<Rightarrow> Grant \<Rightarrow> exn + unit" where
  "refuse_reattestation_drift C prev r g =
     (if pr_recordType r \<noteq> Reattestation then Inr ()
      else (case prev of None \<Rightarrow> Inl (ReattestationRefusedError ''cannot create a grant'')
       | Some raw \<Rightarrow>
         (case load_grant C raw of Inl _ \<Rightarrow> Inr ()
          | Inr previous \<Rightarrow>
            if reattestation_drift previous g then Inl (ReattestationRefusedError ''may change only three fields'')
            else if pr_toLevel r \<noteq> gr_level g \<or> pr_envelopeHash r \<noteq> gr_envelopeHash g
              \<or> pr_ratifiedBy r \<noteq> gr_promotedBy g \<or> pr_ts r \<noteq> gr_ts g
            then Inl (ReattestationRefusedError ''the record does not describe the grant'')
            else Inr ())))"

definition refuse_lapse_drift ::
  "'p grant_codec \<Rightarrow> 'p option \<Rightarrow> PromotionRecord \<Rightarrow> Grant \<Rightarrow> exn + unit" where
  "refuse_lapse_drift C prev r g =
     (if pr_recordType r \<noteq> Lapse then Inr ()
      else if pr_certifiedUntil r \<noteq> None \<and> pr_certifiedUntil r \<noteq> gr_certifiedUntil g
      then Inl (LapseRefusedError ''the lapse record names another term'')
      else (case prev of None \<Rightarrow> Inr ()
       | Some raw \<Rightarrow>
         (case load_grant C raw of Inl _ \<Rightarrow> Inr ()
          | Inr previous \<Rightarrow>
            if gr_certifiedUntil previous \<noteq> gr_certifiedUntil g \<or> gr_lastSafeLevel previous \<noteq> gr_lastSafeLevel g
            then Inl (LapseRefusedError ''a lapse moves neither the term nor lastSafeLevel'')
            else Inr ())))"

section \<open>The in-memory stores\<close>

text \<open>The grant store and the record store it is paired with; a record's signature is kept beside it.\<close>

record 'p InMemoryLedger =
  lg_grants :: "(grant_slot, 'p grant_item) dict"
  lg_records :: "(string \<times> string, 'p \<times> json option) dict"

definition gmem_get_grant ::
  "'p grant_codec \<Rightarrow> 'p InMemoryLedger \<Rightarrow> Principal \<Rightarrow> string \<Rightarrow> exn + 'p GrantReadResult" where
  "gmem_get_grant C s p action_class =
     (case map_of (lg_grants s) (grant_key p action_class) of
        None \<Rightarrow> Inr absent_grant
      | Some it \<Rightarrow> read_result_from_item C it)"

definition gmem_put_grant :: "'p grant_codec \<Rightarrow> Grant \<Rightarrow> 'p InMemoryLedger \<Rightarrow> 'p InMemoryLedger" where
  "gmem_put_grant C g s =
     s\<lparr>lg_grants := AList.update (grant_key (gr_principal g) (gr_actionClass g)) (build_item C g) (lg_grants s)\<rparr>"

definition gmem_create_grant :: "'p grant_codec \<Rightarrow> Grant \<Rightarrow> 'p InMemoryLedger \<Rightarrow> exn + 'p InMemoryLedger" where
  "gmem_create_grant C g s =
     (if map_of (lg_grants s) (grant_key (gr_principal g) (gr_actionClass g)) \<noteq> None
      then Inl (GrantAlreadyExistsError (gr_actionClass g))
      else Inr (gmem_put_grant C g s))"

definition check_update_conditions ::
  "Grant \<Rightarrow> string option \<Rightarrow> 'p option \<Rightarrow> 'p InMemoryLedger \<Rightarrow> exn + unit" where
  "check_update_conditions updated expected_hash prev_raw_data s =
     (case map_of (lg_grants s) (grant_key (gr_principal updated) (gr_actionClass updated)) of
        None \<Rightarrow> Inl (GrantUpdateConflictError ''does not exist'')
      | Some it \<Rightarrow>
          if gi_hash it \<noteq> expected_hash \<or> gi_data it \<noteq> prev_raw_data
          then Inl (GrantUpdateConflictError ''stored item is not the one evaluated'')
          else Inr ())"

definition rmem_put_record ::
  "'p grant_codec \<Rightarrow> PromotionRecord \<Rightarrow> json option \<Rightarrow> 'p InMemoryLedger \<Rightarrow> exn + 'p InMemoryLedger" where
  "rmem_put_record C r signature s =
     bind_r (validate_record_ts (pr_ts r)) (\<lambda>_.
       let key = (promotion_record_pk (pr_principal r) (pr_actionClass r), promotion_record_sk r) in
       if map_of (lg_records s) key \<noteq> None then Inl (RecordAlreadyExistsError (snd key))
       else Inr (s\<lparr>lg_records := AList.update key (dump_record C r, signature) (lg_records s)\<rparr>))"

definition gmem_write_record_and_grant ::
  "'p grant_codec \<Rightarrow> PromotionRecord \<Rightarrow> Grant \<Rightarrow> json option \<Rightarrow> 'p GrantReadResult option
     \<Rightarrow> 'p InMemoryLedger \<Rightarrow> exn + 'p InMemoryLedger" where
  "gmem_write_record_and_grant C r g signature expected s =
     (let creating = (case expected of None \<Rightarrow> True | Some e \<Rightarrow> rr_grant e = None);
          prev = (if creating then None else rr_raw_data (the expected)) in
      bind_r (refuse_reattestation_drift C prev r g) (\<lambda>_.
      bind_r
        (if creating
         then (if map_of (lg_grants s) (grant_key (gr_principal g) (gr_actionClass g)) \<noteq> None
               then Inl (GrantAlreadyExistsError (gr_actionClass g)) else Inr ())
         else bind_r (check_update_conditions g (rr_stored_hash (the expected)) prev s) (\<lambda>_.
              refuse_term_extension C prev g (pr_recordType r))) (\<lambda>_.
      bind_r (refuse_lapse_drift C prev r g) (\<lambda>_.
      bind_r (rmem_put_record C r signature s) (\<lambda>s1.
        Inr (gmem_put_grant C g s1))))))"

text \<open>Reading a list of fallible values stops at the first failure.\<close>

fun collect_r :: "(exn + 'a) list \<Rightarrow> exn + 'a list" where
  "collect_r [] = Inr []"
| "collect_r (x # xs) = bind_r x (\<lambda>a. bind_r (collect_r xs) (\<lambda>as. Inr (a # as)))"

lemma collect_r_Inr: "collect_r xs = Inr ys \<longleftrightarrow> xs = map Inr ys"
  by (induction xs arbitrary: ys) (auto simp: bind_r_Inr_iff)

definition rmem_matching ::
  "'p InMemoryLedger \<Rightarrow> string \<Rightarrow> string option \<Rightarrow> (string \<times> 'p \<times> json option) list" where
  "rmem_matching s pk ts_prefix =
     sort_key fst (map (\<lambda>((_, sk), v). (sk, v))
       (filter (\<lambda>((item_pk, sk), _). item_pk = pk \<and> (case ts_prefix of None \<Rightarrow> True | Some x \<Rightarrow> startswith sk x))
         (lg_records s)))"

definition rmem_list_records ::
  "'p grant_codec \<Rightarrow> 'p InMemoryLedger \<Rightarrow> Principal \<Rightarrow> string \<Rightarrow> string option \<Rightarrow> exn + PromotionRecord list" where
  "rmem_list_records C s p action_class ts_prefix =
     collect_r (map (\<lambda>(_, dat, _). load_record C dat) (rmem_matching s (promotion_record_pk p action_class) ts_prefix))"

record 'p StoredRecord =
  sr_record :: PromotionRecord
  sr_data :: 'p
  sr_signature :: "json option"

definition rmem_list_stored_records ::
  "'p grant_codec \<Rightarrow> 'p InMemoryLedger \<Rightarrow> Principal \<Rightarrow> string \<Rightarrow> exn + 'p StoredRecord list" where
  "rmem_list_stored_records C s p action_class =
     collect_r (map (\<lambda>(_, dat, sig).
         bind_r (load_record C dat) (\<lambda>r. Inr \<lparr>sr_record = r, sr_data = dat, sr_signature = sig\<rparr>))
       (rmem_matching s (promotion_record_pk p action_class) None))"

section \<open>The protocol\<close>

record ('p, 's) GrantStore =
  get_grant :: "'s \<Rightarrow> Principal \<Rightarrow> string \<Rightarrow> exn + 'p GrantReadResult"
  write_record_and_grant ::
    "PromotionRecord \<Rightarrow> Grant \<Rightarrow> json option \<Rightarrow> 'p GrantReadResult option \<Rightarrow> 's \<Rightarrow> exn + 's"
  list_records :: "'s \<Rightarrow> Principal \<Rightarrow> string \<Rightarrow> string option \<Rightarrow> exn + PromotionRecord list"
  list_stored_records :: "'s \<Rightarrow> Principal \<Rightarrow> string \<Rightarrow> exn + 'p StoredRecord list"

definition gmem_ops :: "'p grant_codec \<Rightarrow> ('p, 'p InMemoryLedger) GrantStore" where
  "gmem_ops C =
     \<lparr>get_grant = gmem_get_grant C, write_record_and_grant = gmem_write_record_and_grant C,
      list_records = rmem_list_records C, list_stored_records = rmem_list_stored_records C\<rparr>"

section \<open>The ledger clock\<close>

text \<open>The caller's clock reading: none (the system clock is read), a datetime, or a string.\<close>

datatype ledger_now = SystemNow | AtInstant instant | AtText iso

definition LEDGER_TS_TICK :: timedelta where "LEDGER_TS_TICK = 1"

definition wall_clock :: "instant \<Rightarrow> ledger_now \<Rightarrow> exn + instant" where
  "wall_clock system_now now =
     (case now of
        SystemNow \<Rightarrow> Inr system_now
      | AtInstant t \<Rightarrow> Inr t
      | AtText v \<Rightarrow> bind_r (validate_record_ts v) (\<lambda>_. parse_ts v))"

definition next_ledger_ts ::
  "('p, 's) GrantStore \<Rightarrow> 's \<Rightarrow> Principal \<Rightarrow> string \<Rightarrow> instant \<Rightarrow> ledger_now \<Rightarrow> exn + iso" where
  "next_ledger_ts S s p action_class system_now now =
     bind_r (wall_clock system_now now) (\<lambda>wall.
     bind_r (list_records S s p action_class None) (\<lambda>records.
       if records = [] then Inr (iso_of wall)
       else
         bind_r (collect_r (map (\<lambda>r. parse_ts (pr_ts r)) records)) (\<lambda>stamps.
         bind_r (dt_add (Max (set stamps)) LEDGER_TS_TICK) (\<lambda>next.
           Inr (iso_of (max wall next))))))"

section \<open>Contracts\<close>

abbreviation grant_valid :: "delta_parser \<Rightarrow> Grant \<Rightarrow> bool" where
  "grant_valid parse_iso g \<equiv> mk_grant parse_iso g = Inr g"

abbreviation key_of :: "Grant \<Rightarrow> grant_slot" where
  "key_of g \<equiv> grant_key (gr_principal g) (gr_actionClass g)"

abbreviation pk_of :: "PromotionRecord \<Rightarrow> string" where
  "pk_of r \<equiv> promotion_record_pk (pr_principal r) (pr_actionClass r)"

text \<open>Reading inverts writing on values that pass their validators, and reads nothing else.\<close>

locale ledger_codec =
  fixes C :: "'p grant_codec"
  assumes load_dump_grant: "grant_valid (parse_delta C) g \<Longrightarrow> load_grant C (dump_grant C g) = Inr g"
    and load_grant_valid: "load_grant C x = Inr g \<Longrightarrow> grant_valid (parse_delta C) g"
    and load_dump_record: "mk_record r = Inr r \<Longrightarrow> load_record C (dump_record C r) = Inr r"

text \<open>\<open>held\<close> is the grant an honest read returns under a key, \<open>occupied\<close> says an item is stored there (one
  that is occupied and holds nothing is quarantined), and \<open>rows\<close> is a partition of the ledger in the order of
  its appends. A write that succeeds appends exactly its record and stores exactly its grant, over a free key or
  over the grant the caller evaluated.\<close>

locale grant_ledger =
  fixes S :: "('p, 's) GrantStore"
    and parse_iso :: delta_parser
    and sound :: "'s \<Rightarrow> bool"
    and held :: "'s \<Rightarrow> grant_slot \<Rightarrow> Grant option"
    and occupied :: "'s \<Rightarrow> grant_slot \<Rightarrow> bool"
    and rows :: "'s \<Rightarrow> string \<Rightarrow> PromotionRecord list"
  assumes held_valid: "sound s \<Longrightarrow> held s k = Some g \<Longrightarrow> grant_valid parse_iso g \<and> k = key_of g \<and> occupied s k"
    and get_reads:
      "sound s \<Longrightarrow> \<exists>r. get_grant S s p c = Inr r \<and> rr_grant r = held s (grant_key p c)
         \<and> (rr_quarantined r \<longleftrightarrow> occupied s (grant_key p c) \<and> held s (grant_key p c) = None)"
    and list_reads: "sound s \<Longrightarrow> \<exists>rs. list_records S s p c None = Inr rs \<and> set rs = set (rows s (promotion_record_pk p c))"
    and write_unit:
      "sound s \<Longrightarrow> write_record_and_grant S r g sig expected s = Inr s' \<Longrightarrow>
         (\<And>e. expected = Some e \<Longrightarrow> \<exists>s0 p c. sound s0 \<and> grant_key p c = key_of g \<and> get_grant S s0 p c = Inr e) \<Longrightarrow>
         grant_valid parse_iso g \<Longrightarrow> mk_record r = Inr r \<Longrightarrow>
         sound s' \<and> held s' = (held s)(key_of g \<mapsto> g) \<and> occupied s' = (occupied s)(key_of g := True)
         \<and> rows s' = (rows s)(pk_of r := rows s (pk_of r) @ [r])
         \<and> (case expected of None \<Rightarrow> \<not> occupied s (key_of g)
            | Some e \<Rightarrow> (case rr_grant e of None \<Rightarrow> \<not> occupied s (key_of g)
                | Some g0 \<Rightarrow> held s (key_of g) = Some g0))
         \<and> validate_record_ts (pr_ts r) = Inr ()
         \<and> (\<forall>r' \<in> set (rows s (pk_of r)). promotion_record_sk r' \<noteq> promotion_record_sk r)
         \<and> (\<forall>g0. held s (key_of g) = Some g0 \<longrightarrow> pr_recordType r \<noteq> Promotion \<longrightarrow>
              extends_term (gr_certifiedUntil g0) (gr_certifiedUntil g) = Inr False)"

section \<open>The in-memory stores keep the contract\<close>

definition gmem_held :: "'p grant_codec \<Rightarrow> 'p InMemoryLedger \<Rightarrow> grant_slot \<Rightarrow> Grant option" where
  "gmem_held C s k =
     (case map_of (lg_grants s) k of None \<Rightarrow> None
      | Some it \<Rightarrow> (case read_result_from_item C it of Inl _ \<Rightarrow> None | Inr r \<Rightarrow> rr_grant r))"

definition gmem_occupied :: "'p InMemoryLedger \<Rightarrow> grant_slot \<Rightarrow> bool" where
  "gmem_occupied s k \<longleftrightarrow> map_of (lg_grants s) k \<noteq> None"

definition rmem_rows :: "'p grant_codec \<Rightarrow> 'p InMemoryLedger \<Rightarrow> string \<Rightarrow> PromotionRecord list" where
  "rmem_rows C s pk =
     map (\<lambda>(_, dat, _). projr (load_record C dat)) (filter (\<lambda>((item_pk, _), _). item_pk = pk) (lg_records s))"

text \<open>A row was written by the broker, or its bytes do not verify: whoever changed them has no HMAC key.\<close>

definition authentic :: "'p grant_codec \<Rightarrow> 'p grant_item \<Rightarrow> bool" where
  "authentic C it \<longleftrightarrow> (\<exists>d. gi_data it = Some d \<and> gi_hash it = Some (hmac_of C d))"

definition gmem_sound :: "'p grant_codec \<Rightarrow> 'p InMemoryLedger \<Rightarrow> bool" where
  "gmem_sound C s \<longleftrightarrow>
     (\<forall>k it. map_of (lg_grants s) k = Some it \<longrightarrow> authentic C it \<longrightarrow>
        (\<exists>g. it = build_item C g \<and> grant_valid (parse_delta C) g \<and> key_of g = k))
     \<and> distinct (map fst (lg_records s))
     \<and> (\<forall>k \<in> set (lg_records s). \<exists>r. mk_record r = Inr r \<and> fst (snd k) = dump_record C r \<and> fst k = (pk_of r, promotion_record_sk r))"

lemma collect_r_map_Inr: "(\<And>x. x \<in> set xs \<Longrightarrow> f x = Inr (g x)) \<Longrightarrow> collect_r (map f xs) = Inr (map g xs)"
  by (induction xs) simp_all

lemma alist_update_fresh: "k \<notin> fst ` set xs \<Longrightarrow> AList.update k v xs = xs @ [(k, v)]"
  by (induction xs) auto

lemma authentic_build_item [simp]: "authentic C (build_item C g)"
  by (simp add: authentic_def build_item_def Let_def)

lemma quarantine_iff:
  "read_result_from_item C it = Inr r \<Longrightarrow> rr_quarantined r \<longleftrightarrow> \<not> authentic C it"
  "read_result_from_item C it = Inr r \<Longrightarrow> rr_grant r = None \<longleftrightarrow> \<not> authentic C it"
  by (auto simp: read_result_from_item_def authentic_def bind_r_Inr_iff split: option.splits if_splits)

lemma not_authentic_reads: "\<not> authentic C it \<Longrightarrow> \<exists>r. read_result_from_item C it = Inr r"
  by (auto simp: read_result_from_item_def authentic_def split: option.splits if_splits)

context ledger_codec
begin

lemma read_built:
  "grant_valid (parse_delta C) g \<Longrightarrow>
     read_result_from_item C (build_item C g) =
       Inr \<lparr>rr_grant = Some g, rr_quarantined = False, rr_quarantine_reason = None,
            rr_raw_data = Some (dump_grant C g), rr_stored_hash = Some (hmac_of C (dump_grant C g))\<rparr>"
  by (simp add: read_result_from_item_def build_item_def Let_def load_dump_grant)

lemma item_reads:
  assumes "gmem_sound C s" and "map_of (lg_grants s) k = Some it"
  shows "\<exists>r. read_result_from_item C it = Inr r"
proof (cases "authentic C it")
  case True
  with assms obtain g where "it = build_item C g" "grant_valid (parse_delta C) g" unfolding gmem_sound_def by blast
  then show ?thesis using read_built by blast
qed (rule not_authentic_reads)

lemma held_built:
  assumes "gmem_sound C s" and "gmem_held C s k = Some g"
  shows "grant_valid (parse_delta C) g \<and> key_of g = k \<and> map_of (lg_grants s) k = Some (build_item C g)"
proof -
  obtain it r where it: "map_of (lg_grants s) k = Some it" "read_result_from_item C it = Inr r" "rr_grant r = Some g"
    using assms(2) by (auto simp: gmem_held_def split: option.splits sum.splits)
  with quarantine_iff(2) have "authentic C it" by fastforce
  with assms(1) it(1) obtain g' where g': "it = build_item C g'" "grant_valid (parse_delta C) g'" "key_of g' = k"
    unfolding gmem_sound_def by blast
  with it read_built [OF g'(2)] show ?thesis by auto
qed

lemma rows_read:
  assumes "gmem_sound C s"
  shows "set (map (\<lambda>(_, dat, _). projr (load_record C dat)) (rmem_matching s pk None)) = set (rmem_rows C s pk)"
  by (auto simp: rmem_matching_def rmem_rows_def image_iff split_beta) blast+

lemma record_reads:
  assumes "gmem_sound C s" and "(k, dat, sig) \<in> set (lg_records s)"
  shows "\<exists>r. load_record C dat = Inr r \<and> k = (pk_of r, promotion_record_sk r)"
  using assms load_dump_record unfolding gmem_sound_def by fastforce

lemma held_by_raw:
  assumes "gmem_sound C s" "gmem_sound C s0" and e: "gmem_get_grant C s0 p c = Inr e" "rr_grant e = Some g0"
    and it: "map_of (lg_grants s) k = Some it" "gi_hash it = rr_stored_hash e" "gi_data it = rr_raw_data e"
  shows "gmem_held C s k = Some g0 \<and> rr_raw_data e = Some (dump_grant C g0)"
proof -
  have "gmem_held C s0 (grant_key p c) = Some g0"
    using e by (auto simp: gmem_get_grant_def gmem_held_def absent_grant_def split: option.splits)
  from held_built [OF assms(2) this] have v: "grant_valid (parse_delta C) g0"
    and m: "map_of (lg_grants s0) (grant_key p c) = Some (build_item C g0)" by simp_all
  with e(1) have r: "e = \<lparr>rr_grant = Some g0, rr_quarantined = False, rr_quarantine_reason = None,
      rr_raw_data = Some (dump_grant C g0), rr_stored_hash = Some (hmac_of C (dump_grant C g0))\<rparr>"
    by (simp add: gmem_get_grant_def read_built)
  then have "it = build_item C g0" using it(2,3) by (cases it) (simp add: build_item_def Let_def)
  with v r it(1) show ?thesis by (simp add: gmem_held_def read_built)
qed

lemma put_held:
  assumes "grant_valid (parse_delta C) g"
  shows "gmem_held C (gmem_put_grant C g s) = (gmem_held C s)(key_of g \<mapsto> g)"
  using read_built [OF assms] by (auto simp: gmem_held_def gmem_put_grant_def fun_eq_iff update_conv')

lemma sound_put:
  assumes "gmem_sound C s" "grant_valid (parse_delta C) g"
  shows "gmem_sound C (gmem_put_grant C g s)"
  using assms by (auto simp: gmem_sound_def gmem_put_grant_def update_conv' split: if_splits)

lemma put_record_effect:
  assumes s: "gmem_sound C s" and r: "mk_record r = Inr r" and w: "rmem_put_record C r sig s = Inr s1"
  shows "gmem_sound C s1" "lg_grants s1 = lg_grants s" "validate_record_ts (pr_ts r) = Inr ()"
    "rmem_rows C s1 = (rmem_rows C s)(pk_of r := rmem_rows C s (pk_of r) @ [r])"
    "\<forall>r' \<in> set (rmem_rows C s (pk_of r)). promotion_record_sk r' \<noteq> promotion_record_sk r"
proof -
  have fresh: "(pk_of r, promotion_record_sk r) \<notin> fst ` set (lg_records s)" and ok: "validate_record_ts (pr_ts r) = Inr ()"
    and s1: "s1 = s\<lparr>lg_records := lg_records s @ [((pk_of r, promotion_record_sk r), dump_record C r, sig)]\<rparr>"
    using w by (auto simp: rmem_put_record_def bind_r_Inr_iff Let_def map_of_eq_None_iff alist_update_fresh
        split: if_splits)
  show "gmem_sound C s1" using s fresh r by (auto simp: gmem_sound_def s1)
  show "lg_grants s1 = lg_grants s" "validate_record_ts (pr_ts r) = Inr ()" using ok by (simp_all add: s1)
  show "rmem_rows C s1 = (rmem_rows C s)(pk_of r := rmem_rows C s (pk_of r) @ [r])"
    by (auto simp: rmem_rows_def s1 fun_eq_iff load_dump_record [OF r])
  show "\<forall>r' \<in> set (rmem_rows C s (pk_of r)). promotion_record_sk r' \<noteq> promotion_record_sk r"
    using fresh record_reads [OF s] by (fastforce simp: rmem_rows_def image_iff)
qed

lemma write_effect:
  assumes s: "gmem_sound C s" and w: "gmem_write_record_and_grant C r g sig expected s = Inr s'"
    and honest: "\<And>e. expected = Some e \<Longrightarrow>
      \<exists>s0 p c. gmem_sound C s0 \<and> grant_key p c = key_of g \<and> gmem_get_grant C s0 p c = Inr e"
  shows "(case expected of None \<Rightarrow> \<not> gmem_occupied s (key_of g)
          | Some e \<Rightarrow> (case rr_grant e of None \<Rightarrow> \<not> gmem_occupied s (key_of g)
              | Some g0 \<Rightarrow> gmem_held C s (key_of g) = Some g0))"
    "\<And>g0. gmem_held C s (key_of g) = Some g0 \<Longrightarrow> pr_recordType r \<noteq> Promotion \<Longrightarrow>
       extends_term (gr_certifiedUntil g0) (gr_certifiedUntil g) = Inr False"
    "\<exists>s1. rmem_put_record C r sig s = Inr s1 \<and> s' = gmem_put_grant C g s1"
proof -
  show rec: "\<exists>s1. rmem_put_record C r sig s = Inr s1 \<and> s' = gmem_put_grant C g s1"
    using w by (auto simp: gmem_write_record_and_grant_def Let_def bind_r_Inr_iff)
  let ?creating = "case expected of None \<Rightarrow> True | Some e \<Rightarrow> rr_grant e = None"
  have free: "\<not> gmem_occupied s (key_of g)" if ?creating
    using w that by (auto simp: gmem_write_record_and_grant_def Let_def bind_r_Inr_iff gmem_occupied_def
        split: if_splits)
  have upd: "gmem_held C s (key_of g) = Some g0
      \<and> (pr_recordType r \<noteq> Promotion \<longrightarrow> extends_term (gr_certifiedUntil g0) (gr_certifiedUntil g) = Inr False)"
    if e: "expected = Some e" "rr_grant e = Some g0" for e g0
  proof -
    obtain it where it: "map_of (lg_grants s) (key_of g) = Some it" "gi_hash it = rr_stored_hash e"
      "gi_data it = rr_raw_data e"
      and ext: "refuse_term_extension C (rr_raw_data e) g (pr_recordType r) = Inr ()"
      using w e by (auto simp: gmem_write_record_and_grant_def Let_def bind_r_Inr_iff check_update_conditions_def
          split: option.splits if_splits)
    obtain s0 p c where "gmem_sound C s0" "gmem_get_grant C s0 p c = Inr e"
      using honest e(1) by blast
    from held_by_raw [OF s this e(2) it] have h: "gmem_held C s (key_of g) = Some g0"
      and raw: "rr_raw_data e = Some (dump_grant C g0)" by simp_all
    with held_built [OF s h] ext show ?thesis
      by (auto simp: refuse_term_extension_def load_dump_grant bind_r_Inr_iff split: if_splits)
  qed
  show "(case expected of None \<Rightarrow> \<not> gmem_occupied s (key_of g)
          | Some e \<Rightarrow> (case rr_grant e of None \<Rightarrow> \<not> gmem_occupied s (key_of g)
              | Some g0 \<Rightarrow> gmem_held C s (key_of g) = Some g0))"
    using free upd by (auto split: option.splits)
  show "extends_term (gr_certifiedUntil g0) (gr_certifiedUntil g) = Inr False"
    if h: "gmem_held C s (key_of g) = Some g0" and t: "pr_recordType r \<noteq> Promotion" for g0
  proof -
    have "gmem_occupied s (key_of g)" using h by (auto simp: gmem_occupied_def gmem_held_def split: option.splits)
    with free obtain e g1 where "expected = Some e" "rr_grant e = Some g1"
      by (cases expected; cases "rr_grant (the expected)") auto
    with upd h t show ?thesis by fastforce
  qed
qed

end

sublocale ledger_codec \<subseteq> gmem: grant_ledger "gmem_ops C" "parse_delta C" "gmem_sound C" "gmem_held C" gmem_occupied
  "rmem_rows C"
proof (unfold_locales, goal_cases)
  case (1 s k g)
  with held_built [OF 1] show ?case by (auto simp: gmem_occupied_def)
next
  case (2 s p c)
  show ?case
  proof (cases "map_of (lg_grants s) (grant_key p c)")
    case None
    then show ?thesis by (simp add: gmem_ops_def gmem_get_grant_def absent_grant_def gmem_held_def gmem_occupied_def)
  next
    case (Some it)
    from item_reads [OF 2 Some] obtain r where "read_result_from_item C it = Inr r" by blast
    with Some quarantine_iff [OF this] show ?thesis
      by (simp add: gmem_ops_def gmem_get_grant_def gmem_held_def gmem_occupied_def)
  qed
next
  case (3 s p c)
  let ?m = "rmem_matching s (promotion_record_pk p c) None"
  have "collect_r (map (\<lambda>(_, dat, _). load_record C dat) ?m)
      = Inr (map (\<lambda>(_, dat, _). projr (load_record C dat)) ?m)"
  proof (rule collect_r_map_Inr)
    fix x assume "x \<in> set ?m"
    then obtain k where "(k, snd x) \<in> set (lg_records s)" by (auto simp: rmem_matching_def)
    with record_reads [OF 3, of k "fst (snd x)" "snd (snd x)"]
    show "(\<lambda>(_, dat, _). load_record C dat) x = Inr ((\<lambda>(_, dat, _). projr (load_record C dat)) x)"
      by (auto simp: split_beta)
  qed
  with rows_read [OF 3] show ?case by (simp add: gmem_ops_def rmem_list_records_def)
next
  case (4 s r g sig expected s')
  from 4(2) have w: "gmem_write_record_and_grant C r g sig expected s = Inr s'" by (simp add: gmem_ops_def)
  from 4(3) have h: "\<exists>s0 p c. gmem_sound C s0 \<and> grant_key p c = key_of g \<and> gmem_get_grant C s0 p c = Inr e"
    if "expected = Some e" for e using that by (simp add: gmem_ops_def)
  obtain s1 where s1: "rmem_put_record C r sig s = Inr s1" "s' = gmem_put_grant C g s1"
    using write_effect(3) [OF 4(1) w h] by blast
  note p = put_record_effect [OF 4(1,5) s1(1)]
  have "gmem_sound C s'" using sound_put [OF p(1) 4(4)] s1(2) by simp
  moreover have "gmem_held C s' = (gmem_held C s)(key_of g \<mapsto> g)"
    using put_held [OF 4(4), of s1] p(2) by (simp add: s1(2) gmem_held_def fun_eq_iff)
  moreover have "gmem_occupied s' = (gmem_occupied s)(key_of g := True)"
    by (auto simp: s1(2) gmem_occupied_def gmem_put_grant_def p(2) fun_eq_iff update_conv')
  moreover have "rmem_rows C s' = rmem_rows C s1" by (simp add: s1(2) gmem_put_grant_def rmem_rows_def fun_eq_iff)
  ultimately show ?case using p(3-5) write_effect(1,2) [OF 4(1) w h] by auto
qed

text \<open>A codec whose stored bytes are the value itself, authenticated by its text.\<close>

datatype plain_bytes = GrantBytes Grant | RecordBytes PromotionRecord

definition plain_ledger_codec :: "plain_bytes grant_codec" where
  "plain_ledger_codec =
     \<lparr>parse_delta = (\<lambda>s. if s = ''P7D'' then Some (1, [''days'']) else None),
      dump_grant = GrantBytes,
      load_grant = (\<lambda>x. case x of
          GrantBytes g \<Rightarrow> mk_grant (\<lambda>s. if s = ''P7D'' then Some (1, [''days'']) else None) g
        | RecordBytes _ \<Rightarrow> Inl (ValidationError ''Grant'')),
      dump_record = RecordBytes,
      load_record = (\<lambda>x. case x of RecordBytes r \<Rightarrow> mk_record r | GrantBytes _ \<Rightarrow> Inl (ValidationError ''PromotionRecord'')),
      hmac_of = (\<lambda>x. case x of GrantBytes g \<Rightarrow> gr_envelopeHash g @ level_str (gr_level g) @ iso_str (gr_ts g)
        | RecordBytes r \<Rightarrow> iso_str (pr_ts r))\<rparr>"

interpretation plain: ledger_codec plain_ledger_codec
  by unfold_locales
    (auto simp: plain_ledger_codec_def mk_record_Inr dest: mk_grant_Inr split: plain_bytes.splits)

end
