(* ===== verification/Key_Standing.thy ===== *)
theory Key_Standing
  imports Record_Signing Grant_Store Input_Age
begin

text \<open>
  The standing of signing keys (\<open>grants/key_standing.py\<close>, \<open>grants/standing_source.py\<close>): the signed document that says
  which keys a role holds and in what state, its verification, the changes allowed from one version to the next, the
  ceremony's transitions, and the source one process holds, which refreshes from a pinned place and answers whether a
  key has standing at an instant. A fetch is the text it returned or the exception it raised.

  A refresh that accepts writes twice, the document in force and then the withdrawals it has seen, without the readers'
  taking the lock: the two writes are \<open>publish\<close> and \<open>remember\<close>. The results show that a withdrawal is terminal under
  every sequence of fetches, that the ceremony signs only what a verifier accepts, and what a reader between the two
  writes sees.
\<close>

section \<open>Documents\<close>

datatype key_state = key_active | key_retired | key_withdrawn

definition key_state_str :: "key_state \<Rightarrow> string" where
  "key_state_str s =
     (case s of key_active \<Rightarrow> ''active'' | key_retired \<Rightarrow> ''retired'' | key_withdrawn \<Rightarrow> ''withdrawn'')"

definition RETIRED_REASONS :: "string list" where "RETIRED_REASONS = [''superseded'', ''cessationOfOperation'']"

definition WITHDRAWN_REASONS :: "string list" where "WITHDRAWN_REASONS = [''keyCompromise'', ''privilegeWithdrawn'']"

abbreviation StandingDocumentRefused :: "string \<Rightarrow> exn" where
  "StandingDocumentRefused verdict \<equiv> Exn ''StandingDocumentRefused'' verdict"

abbreviation StandingTransitionError :: "string \<Rightarrow> exn" where
  "StandingTransitionError m \<equiv> Exn ''StandingTransitionError'' m"

definition parse_standing_instant :: "iso \<Rightarrow> exn + instant" where
  "parse_standing_instant v =
     (case iso_read v of
        None \<Rightarrow> Inl (ValueError ''not a parseable ISO-8601 instant'')
      | Some (t, off) \<Rightarrow> if off \<noteq> Some 0 then Inl (ValueError ''must be an explicit UTC instant'') else Inr t)"

record KeyStandingEntry =
  ke_publicKey :: string
  ke_state :: key_state
  ke_retiredAt :: "iso option"
  ke_retiredReason :: "string option"
  ke_withdrawnAt :: "iso option"
  ke_withdrawnReason :: "string option"

text \<open>\<open>parse_standing_instant(v) if v else None\<close>: an empty string is not parsed.\<close>

definition instant_if_set :: "iso option \<Rightarrow> exn + instant option" where
  "instant_if_set v =
     (case v of None \<Rightarrow> Inr None
      | Some x \<Rightarrow> if iso_str x = [] then Inr None else bind_r (parse_standing_instant x) (\<lambda>t. Inr (Some t)))"

definition shape_matches_state :: "KeyStandingEntry \<Rightarrow> exn + unit" where
  "shape_matches_state e =
     (let unretired = (ke_retiredAt e = None \<and> ke_retiredReason e = None);
          unwithdrawn = (ke_withdrawnAt e = None \<and> ke_withdrawnReason e = None) in
      bind_r (guard_r (\<not> (ke_state e = key_active \<and> \<not> (unretired \<and> unwithdrawn)))
        (ValueError ''an active key carries no retirement or withdrawal fields'')) (\<lambda>_.
      bind_r (guard_r (\<not> (ke_state e = key_retired
            \<and> (ke_retiredAt e = None \<or> ke_retiredReason e = None \<or> \<not> unwithdrawn)))
        (ValueError ''a retired key carries retiredAt and retiredReason and no withdrawal fields'')) (\<lambda>_.
      bind_r (guard_r (\<not> (ke_state e = key_withdrawn \<and> (ke_withdrawnAt e = None \<or> ke_withdrawnReason e = None)))
        (ValueError ''a withdrawn key carries withdrawnAt and withdrawnReason'')) (\<lambda>_.
      bind_r (guard_r (\<not> (ke_state e = key_withdrawn \<and> (ke_retiredAt e = None) \<noteq> (ke_retiredReason e = None)))
        (ValueError ''retiredAt and retiredReason are set together or not at all'')) (\<lambda>_.
      bind_r (instant_if_set (ke_retiredAt e)) (\<lambda>retired_at.
      bind_r (instant_if_set (ke_withdrawnAt e)) (\<lambda>withdrawn_at.
        case (retired_at, withdrawn_at) of
          (Some r, Some w) \<Rightarrow> guard_r (\<not> w < r) (ValueError ''withdrawnAt must not be earlier than retiredAt'')
        | _ \<Rightarrow> Inr ())))))))"

text \<open>Constructing an entry: the literal types of the reasons, the public key, and the shape.\<close>

definition mk_entry :: "crypto \<Rightarrow> KeyStandingEntry \<Rightarrow> exn + KeyStandingEntry" where
  "mk_entry K e =
     (if (case ke_retiredReason e of None \<Rightarrow> False | Some r \<Rightarrow> r \<notin> set RETIRED_REASONS)
         \<or> (case ke_withdrawnReason e of None \<Rightarrow> False | Some r \<Rightarrow> r \<notin> set WITHDRAWN_REASONS)
      then Inl (ValidationError ''reason'')
      else (case bind_r (load_public_key K (ke_publicKey e)) (\<lambda>_. shape_matches_state e) of
        Inl x \<Rightarrow> Inl (ValidationError (exn_str x)) | Inr _ \<Rightarrow> Inr e))"

record StandingSigner =
  sg_keyId :: string
  sg_zone :: string

record KeyStandingDocument =
  kd_role :: signing_role
  kd_version :: int
  kd_issuedAt :: iso
  kd_signer :: StandingSigner
  kd_keys :: "(string, KeyStandingEntry) dict"

definition mk_document :: "KeyStandingDocument \<Rightarrow> exn + KeyStandingDocument" where
  "mk_document d =
     (if \<not> 1 \<le> kd_version d \<or> sg_keyId (kd_signer d) = [] \<or> sg_zone (kd_signer d) = []
      then Inl (ValidationError ''field'')
      else (case parse_standing_instant (kd_issuedAt d) of
        Inl x \<Rightarrow> Inl (ValidationError (exn_str x))
      | Inr _ \<Rightarrow>
          if [] \<in> set (map fst (kd_keys d)) then Inl (ValidationError ''a key id must be a non-empty string'')
          else Inr d))"

section \<open>Serialization and signing\<close>

definition role_str :: "signing_role \<Rightarrow> string" where
  "role_str r = (case r of issuer_role \<Rightarrow> ''issuer'' | evaluator_role \<Rightarrow> ''evaluator'')"

definition entry_json :: "KeyStandingEntry \<Rightarrow> json" where
  "entry_json e =
     JObj [(''publicKey'', JStr (ke_publicKey e)), (''state'', JStr (key_state_str (ke_state e))),
           (''retiredAt'', opt_str (map_option iso_str (ke_retiredAt e))),
           (''retiredReason'', opt_str (ke_retiredReason e)),
           (''withdrawnAt'', opt_str (map_option iso_str (ke_withdrawnAt e))),
           (''withdrawnReason'', opt_str (ke_withdrawnReason e))]"

definition document_json :: "KeyStandingDocument \<Rightarrow> json" where
  "document_json d =
     JObj [(''role'', JStr (role_str (kd_role d))), (''version'', JNum (of_int (kd_version d))),
           (''issuedAt'', JStr (iso_str (kd_issuedAt d))),
           (''signer'', JObj [(''keyId'', JStr (sg_keyId (kd_signer d))), (''zone'', JStr (sg_zone (kd_signer d)))]),
           (''keys'', JObj (map (\<lambda>(k, e). (k, entry_json e)) (kd_keys d)))]"

definition STANDING_PAYLOAD_TYPE :: string where
  "STANDING_PAYLOAD_TYPE = ''application/vnd.safe-agents.key-standing.v1+json''"

definition canonical_standing_bytes :: "KeyStandingDocument \<Rightarrow> string" where
  "canonical_standing_bytes d = json_text (document_json d)"

definition sign_standing_document :: "KeyStandingDocument \<Rightarrow> RecordSigner \<Rightarrow> exn + string" where
  "sign_standing_document d sgnr =
     (if (sg_keyId (kd_signer d), sg_zone (kd_signer d)) \<noteq> (rs_key_id sgnr, rs_zone sgnr)
      then Inl (ValueError ''the signer field of the document must name the key and zone that sign it'')
      else
        let payload = canonical_standing_bytes d; sig = rs_sign sgnr (pae STANDING_PAYLOAD_TYPE payload) in
        Inr (json_text (JObj [(''payloadType'', JStr STANDING_PAYLOAD_TYPE), (''payload'', JStr (b64encode payload)),
          (''signatures'', JList [JObj [(''keyid'', JStr (rs_key_id sgnr)), (''sig'', JStr (b64encode sig))]])])))"

section \<open>Reading a document\<close>

text \<open>\<open>object_pairs_hook=_refuse_duplicate_keys\<close>: no object of the value names a member twice.\<close>

fun no_duplicate_keys :: "json \<Rightarrow> bool" where
  "no_duplicate_keys (JList vs) = list_all no_duplicate_keys vs"
| "no_duplicate_keys (JObj kvs) = (distinct (map fst kvs) \<and> list_all (\<lambda>(k, v). no_duplicate_keys v) kvs)"
| "no_duplicate_keys v = True"

definition loads_strict :: "crypto \<Rightarrow> string \<Rightarrow> json option" where
  "loads_strict K s = Option.bind (cx_loads K s) (\<lambda>v. if no_duplicate_keys v then Some v else None)"

text \<open>Fields of a model that forbids extra ones: a required string, an optional string, an optional time. A number with an
  integral value is an \<open>int\<close>.\<close>

definition only_fields :: "string list \<Rightarrow> json \<Rightarrow> bool" where
  "only_fields names v = (case v of JObj kvs \<Rightarrow> set (map fst kvs) \<subseteq> set names | _ \<Rightarrow> False)"

definition str_field :: "json \<Rightarrow> string \<Rightarrow> string option" where
  "str_field v k = (case member v k of Some (JStr s) \<Rightarrow> Some s | _ \<Rightarrow> None)"

definition opt_field :: "json \<Rightarrow> string \<Rightarrow> string option option" where
  "opt_field v k =
     (case member v k of None \<Rightarrow> Some None | Some JNull \<Rightarrow> Some None | Some (JStr s) \<Rightarrow> Some (Some s) | _ \<Rightarrow> None)"

definition iso_text :: "crypto \<Rightarrow> string \<Rightarrow> iso" where
  "iso_text K s = \<lparr>iso_str = s, iso_read = cx_fromiso K s\<rparr>"

definition key_state_of :: "string \<Rightarrow> key_state option" where
  "key_state_of s = map_of (map (\<lambda>x. (key_state_str x, x)) [key_active, key_retired, key_withdrawn]) s"

definition role_of :: "string \<Rightarrow> signing_role option" where
  "role_of s = map_of (map (\<lambda>x. (role_str x, x)) [issuer_role, evaluator_role]) s"

definition entry_of_json :: "crypto \<Rightarrow> json \<Rightarrow> exn + KeyStandingEntry" where
  "entry_of_json K v =
     (if \<not> only_fields [''publicKey'', ''state'', ''retiredAt'', ''retiredReason'', ''withdrawnAt'', ''withdrawnReason''] v
      then Inl (ValidationError ''entry'')
      else (case (str_field v ''publicKey'', Option.bind (str_field v ''state'') key_state_of, opt_field v ''retiredAt'',
                  opt_field v ''retiredReason'', opt_field v ''withdrawnAt'', opt_field v ''withdrawnReason'') of
        (Some pk, Some st, Some ra, Some rr, Some wa, Some wr) \<Rightarrow>
          mk_entry K \<lparr>ke_publicKey = pk, ke_state = st, ke_retiredAt = map_option (iso_text K) ra, ke_retiredReason = rr,
                      ke_withdrawnAt = map_option (iso_text K) wa, ke_withdrawnReason = wr\<rparr>
      | _ \<Rightarrow> Inl (ValidationError ''entry'')))"

definition int_field :: "json \<Rightarrow> string \<Rightarrow> int option" where
  "int_field v k = (case member v k of Some (JNum r) \<Rightarrow> if r = of_int \<lfloor>r\<rfloor> then Some \<lfloor>r\<rfloor> else None | _ \<Rightarrow> None)"

definition document_of_json :: "crypto \<Rightarrow> json \<Rightarrow> exn + KeyStandingDocument" where
  "document_of_json K v =
     (if \<not> only_fields [''role'', ''version'', ''issuedAt'', ''signer'', ''keys''] v then Inl (ValidationError ''document'')
      else (case (Option.bind (str_field v ''role'') role_of, int_field v ''version'', str_field v ''issuedAt'',
                  member v ''signer'', member v ''keys'') of
        (Some role, Some version, Some issued, Some sg, Some (JObj kvs)) \<Rightarrow>
          (case (only_fields [''keyId'', ''zone''] sg, str_field sg ''keyId'', str_field sg ''zone'') of
             (True, Some keyid, Some zone) \<Rightarrow>
               bind_r (collect_r (map (\<lambda>(k, x). bind_r (entry_of_json K x) (\<lambda>e. Inr (k, e))) kvs)) (\<lambda>keys.
                 mk_document \<lparr>kd_role = role, kd_version = version, kd_issuedAt = iso_text K issued,
                   kd_signer = \<lparr>sg_keyId = keyid, sg_zone = zone\<rparr>, kd_keys = keys\<rparr>)
           | _ \<Rightarrow> Inl (ValidationError ''signer''))
      | _ \<Rightarrow> Inl (ValidationError ''document'')))"

fun each_r :: "('a \<Rightarrow> exn + unit) \<Rightarrow> 'a list \<Rightarrow> exn + unit" where
  "each_r f [] = Inr ()"
| "each_r f (x # xs) = bind_r (f x) (\<lambda>_. each_r f xs)"

fun distinct_bytes :: "crypto \<Rightarrow> string list \<Rightarrow> (string, KeyStandingEntry) dict \<Rightarrow> exn + unit" where
  "distinct_bytes K seen [] = Inr ()"
| "distinct_bytes K seen ((k, e) # ks) =
     bind_r (load_public_key K (ke_publicKey e)) (\<lambda>raw.
       if raw \<in> set seen then Inl (StandingDocumentRefused ''key_duplicated'') else distinct_bytes K (raw # seen) ks)"

definition check_distinct_key_bytes :: "crypto \<Rightarrow> KeyStandingDocument \<Rightarrow> exn + unit" where
  "check_distinct_key_bytes K d = distinct_bytes K [] (kd_keys d)"

definition verify_standing_envelope ::
  "crypto \<Rightarrow> string \<Rightarrow> key_resolver \<Rightarrow> signing_role \<Rightarrow> exn + KeyStandingDocument \<times> string" where
  "verify_standing_envelope K txt authority role =
     (case loads_strict K txt of
        None \<Rightarrow> Inl (StandingDocumentRefused ''malformed'')
      | Some env \<Rightarrow>
        if \<not> is_obj env \<or> member env ''payloadType'' \<noteq> Some (JStr STANDING_PAYLOAD_TYPE)
        then Inl (StandingDocumentRefused ''malformed'')
        else (case member env ''signatures'' of
          Some (JList [s]) \<Rightarrow>
            (case str_field s ''keyid'' of
               None \<Rightarrow> Inl (StandingDocumentRefused ''malformed'')
             | Some keyid \<Rightarrow>
               (case (Option.bind (str_field env ''payload'') b64decode, Option.bind (str_field s ''sig'') b64decode) of
                  (Some payload, Some sig) \<Rightarrow>
                    (case authority keyid of
                       None \<Rightarrow> Inl (StandingDocumentRefused ''signer_unknown'')
                     | Some pub \<Rightarrow>
                         if \<not> cx_verify K pub sig (pae STANDING_PAYLOAD_TYPE payload)
                         then Inl (StandingDocumentRefused ''signature_invalid'')
                         else (case loads_strict K payload of
                           None \<Rightarrow> Inl (StandingDocumentRefused ''malformed'')
                         | Some v \<Rightarrow>
                           (case document_of_json K v of
                              Inl _ \<Rightarrow> Inl (StandingDocumentRefused ''malformed'')
                            | Inr d \<Rightarrow>
                                if sg_keyId (kd_signer d) \<noteq> keyid
                                then Inl (StandingDocumentRefused ''signature_invalid'')
                                else if kd_role d \<noteq> role then Inl (StandingDocumentRefused ''wrong_role'')
                                else bind_r (check_distinct_key_bytes K d) (\<lambda>_. Inr (d, cx_sha256 K payload)))))
                | _ \<Rightarrow> Inl (StandingDocumentRefused ''malformed'')))
        | _ \<Rightarrow> Inl (StandingDocumentRefused ''signature_invalid'')))"

section \<open>What may change between versions\<close>

definition moves_forward :: "KeyStandingEntry \<Rightarrow> KeyStandingEntry \<Rightarrow> bool" where
  "moves_forward old new =
     (if ke_state old = ke_state new then old = new
      else if ke_state old = key_active then ke_state new \<in> {key_retired, key_withdrawn}
      else if ke_state old = key_retired \<and> ke_state new = key_withdrawn
      then ke_retiredAt new = ke_retiredAt old \<and> ke_retiredReason new = ke_retiredReason old
      else False)"

definition raws_of :: "crypto \<Rightarrow> (string, KeyStandingEntry) dict \<Rightarrow> exn + string list" where
  "raws_of K keys = collect_r (map (\<lambda>(k, e). load_public_key K (ke_publicKey e)) keys)"

definition check_successor ::
  "crypto \<Rightarrow> KeyStandingDocument option \<Rightarrow> KeyStandingDocument \<Rightarrow> (string, KeyStandingEntry) dict \<Rightarrow> exn + unit" where
  "check_successor K accepted candidate seen =
     bind_r (check_distinct_key_bytes K candidate) (\<lambda>_.
     bind_r (each_r (\<lambda>(k, e). guard_r (map_of (kd_keys candidate) k = Some e)
         (StandingDocumentRefused ''withdrawal_dropped'')) seen) (\<lambda>_.
       let known = AList.merge (case accepted of None \<Rightarrow> [] | Some d \<Rightarrow> kd_keys d) seen in
       bind_r (raws_of K known) (\<lambda>known_bytes.
       bind_r (each_r (\<lambda>(k, e).
           if map_of known k \<noteq> None then Inr ()
           else bind_r (load_public_key K (ke_publicKey e)) (\<lambda>raw.
             guard_r (raw \<notin> set known_bytes) (StandingDocumentRefused ''key_rebound''))) (kd_keys candidate)) (\<lambda>_.
         case accepted of
           None \<Rightarrow> Inr ()
         | Some d \<Rightarrow>
             bind_r (guard_r (\<not> kd_version candidate \<le> kd_version d) (StandingDocumentRefused ''rollback'')) (\<lambda>_.
               each_r (\<lambda>(k, old).
                 case map_of (kd_keys candidate) k of
                   None \<Rightarrow> Inr ()
                 | Some new \<Rightarrow>
                     bind_r (guard_r (ke_publicKey new = ke_publicKey old) (StandingDocumentRefused ''key_rebound'')) (\<lambda>_.
                       guard_r (moves_forward old new) (StandingDocumentRefused ''transition_refused''))) (kd_keys d))))))"

definition check_authority_not_listed ::
  "crypto \<Rightarrow> KeyStandingDocument \<Rightarrow> string list \<Rightarrow> string list \<Rightarrow> exn + unit" where
  "check_authority_not_listed K d ids raws =
     each_r (\<lambda>(k, e).
       if k \<in> set ids then Inl (StandingDocumentRefused ''authority_key_listed'')
       else bind_r (load_public_key K (ke_publicKey e)) (\<lambda>raw.
         guard_r (raw \<notin> set raws) (StandingDocumentRefused ''authority_key_listed''))) (kd_keys d)"

section \<open>Transitions of the ceremony\<close>

definition add_key ::
  "crypto \<Rightarrow> (string, KeyStandingEntry) dict \<Rightarrow> string \<Rightarrow> string \<Rightarrow> exn + (string, KeyStandingEntry) dict" where
  "add_key K keys key_id pem =
     bind_r (guard_r (map_of keys key_id = None) (StandingTransitionError ''a key id is never reused'')) (\<lambda>_.
     bind_r (load_public_key K pem) (\<lambda>raw.
     bind_r (each_r (\<lambda>(k, e). bind_r (load_public_key K (ke_publicKey e)) (\<lambda>r.
         guard_r (r \<noteq> raw) (StandingTransitionError ''a key trusted again is a new key pair''))) keys) (\<lambda>_.
     bind_r (mk_entry K \<lparr>ke_publicKey = pem, ke_state = key_active, ke_retiredAt = None, ke_retiredReason = None,
         ke_withdrawnAt = None, ke_withdrawnReason = None\<rparr>) (\<lambda>e.
       Inr (AList.update key_id e keys)))))"

definition require_key :: "(string, KeyStandingEntry) dict \<Rightarrow> string \<Rightarrow> exn + KeyStandingEntry" where
  "require_key keys key_id =
     (case map_of keys key_id of None \<Rightarrow> Inl (StandingTransitionError ''not in the document'') | Some e \<Rightarrow> Inr e)"

definition retire_key ::
  "crypto \<Rightarrow> (string, KeyStandingEntry) dict \<Rightarrow> string \<Rightarrow> string \<Rightarrow> instant \<Rightarrow> exn + (string, KeyStandingEntry) dict" where
  "retire_key K keys key_id reason now =
     bind_r (guard_r (reason \<in> set RETIRED_REASONS) (StandingTransitionError ''retirement reason'')) (\<lambda>_.
     bind_r (require_key keys key_id) (\<lambda>e.
     bind_r (guard_r (ke_state e = key_active) (StandingTransitionError ''only an active key retires'')) (\<lambda>_.
     bind_r (mk_entry K \<lparr>ke_publicKey = ke_publicKey e, ke_state = key_retired, ke_retiredAt = Some (iso_of now),
         ke_retiredReason = Some reason, ke_withdrawnAt = None, ke_withdrawnReason = None\<rparr>) (\<lambda>e'.
       Inr (AList.update key_id e' keys)))))"

definition withdraw_key ::
  "crypto \<Rightarrow> (string, KeyStandingEntry) dict \<Rightarrow> string \<Rightarrow> string \<Rightarrow> instant \<Rightarrow> exn + (string, KeyStandingEntry) dict" where
  "withdraw_key K keys key_id reason now =
     bind_r (guard_r (reason \<in> set WITHDRAWN_REASONS) (StandingTransitionError ''withdrawal reason'')) (\<lambda>_.
     bind_r (require_key keys key_id) (\<lambda>e.
     bind_r (guard_r (ke_state e \<noteq> key_withdrawn) (StandingTransitionError ''withdrawal is terminal'')) (\<lambda>_.
     bind_r (mk_entry K \<lparr>ke_publicKey = ke_publicKey e, ke_state = key_withdrawn, ke_retiredAt = ke_retiredAt e,
         ke_retiredReason = ke_retiredReason e, ke_withdrawnAt = Some (iso_of now), ke_withdrawnReason = Some reason\<rparr>) (\<lambda>e'.
       Inr (AList.update key_id e' keys)))))"

definition withdrawn_keys :: "(string, KeyStandingEntry) dict \<Rightarrow> (string, KeyStandingEntry) dict" where
  "withdrawn_keys keys = filter (\<lambda>(k, e). ke_state e = key_withdrawn) keys"

definition next_document ::
  "crypto \<Rightarrow> KeyStandingDocument option \<Rightarrow> signing_role \<Rightarrow> (string, KeyStandingEntry) dict \<Rightarrow> instant \<Rightarrow> RecordSigner
     \<Rightarrow> exn + KeyStandingDocument" where
  "next_document K previous role keys issued_at sgnr =
     bind_r (guard_r (case previous of None \<Rightarrow> True | Some d \<Rightarrow> kd_role d = role)
       (StandingTransitionError ''the current document is for another role'')) (\<lambda>_.
     bind_r (mk_document
       \<lparr>kd_role = role, kd_version = (case previous of None \<Rightarrow> 1 | Some d \<Rightarrow> kd_version d + 1),
        kd_issuedAt = iso_of issued_at, kd_signer = \<lparr>sg_keyId = rs_key_id sgnr, sg_zone = rs_zone sgnr\<rparr>, kd_keys = keys\<rparr>) (\<lambda>d.
     bind_r (check_successor K previous d (case previous of None \<Rightarrow> [] | Some p \<Rightarrow> withdrawn_keys (kd_keys p))) (\<lambda>_.
       Inr d)))"

section \<open>The source a process holds\<close>

record StandingConfig =
  sc_role :: signing_role
  sc_authority :: key_resolver
  sc_authority_key_ids :: "string list"
  sc_authority_public_keys :: "string list"
  sc_max_age :: timedelta

record Accepted =
  ac_document :: KeyStandingDocument
  ac_digest :: string
  ac_as_of :: InputAsOf
  ac_public_keys :: "(string, string) dict"

record StandingSource =
  ss_accepted :: "Accepted option"
  ss_seen_withdrawn :: "(string, KeyStandingEntry) dict"

definition standing_source :: "StandingConfig \<Rightarrow> exn + StandingSource" where
  "standing_source cfg =
     (if sc_max_age cfg \<le> 0 then Inl (ValueError ''a standing source needs a positive maximum age'')
      else Inr \<lparr>ss_accepted = None, ss_seen_withdrawn = []\<rparr>)"

record StandingLoad =
  sl_verdict :: string
  sl_version :: "int option"

definition load_accepted :: "StandingLoad \<Rightarrow> bool" where
  "load_accepted l \<longleftrightarrow> sl_verdict l \<in> {''accepted'', ''unchanged''}"

definition held_version :: "StandingSource \<Rightarrow> int option" where
  "held_version src = map_option (\<lambda>a. kd_version (ac_document a)) (ss_accepted src)"

text \<open>The checks of a fetched text: \<open>Inr None\<close> for the bytes already in force.\<close>

definition judge_candidate ::
  "crypto \<Rightarrow> StandingConfig \<Rightarrow> StandingSource \<Rightarrow> string \<Rightarrow> exn + (KeyStandingDocument \<times> string) option" where
  "judge_candidate K cfg src txt =
     bind_r (verify_standing_envelope K txt (sc_authority cfg) (sc_role cfg)) (\<lambda>(d, digest).
       if map_option ac_digest (ss_accepted src) = Some digest then Inr None
       else
         bind_r (check_authority_not_listed K d (sc_authority_key_ids cfg) (sc_authority_public_keys cfg)) (\<lambda>_.
         bind_r (check_successor K (map_option ac_document (ss_accepted src)) d (ss_seen_withdrawn src)) (\<lambda>_.
           Inr (Some (d, digest)))))"

definition load_keys :: "crypto \<Rightarrow> (string, KeyStandingEntry) dict \<Rightarrow> exn + (string, string) dict" where
  "load_keys K keys = collect_r (map (\<lambda>(k, e). bind_r (load_public_key K (ke_publicKey e)) (\<lambda>raw. Inr (k, raw))) keys)"

text \<open>The first write of an acceptance, and the second.\<close>

definition publish ::
  "crypto \<Rightarrow> KeyStandingDocument \<Rightarrow> string \<Rightarrow> instant \<Rightarrow> StandingSource \<Rightarrow> exn + StandingSource" where
  "publish K d digest now src =
     bind_r (parse_standing_instant (kd_issuedAt d)) (\<lambda>issued.
     bind_r (load_keys K (kd_keys d)) (\<lambda>raws.
       Inr (src\<lparr>ss_accepted := Some \<lparr>ac_document = d, ac_digest = digest,
         ac_as_of = \<lparr>fetched_at = now, stated_at = Some issued\<rparr>, ac_public_keys = raws\<rparr>\<rparr>)))"

definition remember :: "KeyStandingDocument \<Rightarrow> StandingSource \<Rightarrow> StandingSource" where
  "remember d src =
     src\<lparr>ss_seen_withdrawn := AList.merge (ss_seen_withdrawn src) (rev (withdrawn_keys (kd_keys d)))\<rparr>"

definition standing_refresh ::
  "crypto \<Rightarrow> StandingConfig \<Rightarrow> instant \<Rightarrow> exn + string \<Rightarrow> StandingSource \<Rightarrow> exn + StandingLoad \<times> StandingSource" where
  "standing_refresh K cfg now fetched src =
     (case fetched of
        Inl _ \<Rightarrow> Inr (\<lparr>sl_verdict = ''unreadable'', sl_version = held_version src\<rparr>, src)
      | Inr txt \<Rightarrow>
        (case judge_candidate K cfg src txt of
           Inl e \<Rightarrow>
             if exn_class e = ''StandingDocumentRefused''
             then Inr (\<lparr>sl_verdict = exn_str e, sl_version = held_version src\<rparr>, src) else Inl e
         | Inr None \<Rightarrow> Inr (\<lparr>sl_verdict = ''unchanged'', sl_version = held_version src\<rparr>, src)
         | Inr (Some (d, digest)) \<Rightarrow>
             bind_r (publish K d digest now src) (\<lambda>src'.
               Inr (\<lparr>sl_verdict = ''accepted'', sl_version = Some (kd_version d)\<rparr>, remember d src'))))"

datatype standing_verdict = In_standing | Is_withdrawn | Not_established | Unknown_key

record KeyStanding =
  ks_verdict :: standing_verdict
  ks_entry :: "KeyStandingEntry option"
  ks_version :: "int option"
  ks_as_of :: "instant option"
  ks_horizon :: "instant option"

definition source_as_of :: "StandingSource \<Rightarrow> InputAsOf option" where
  "source_as_of src = map_option ac_as_of (ss_accepted src)"

definition source_horizon :: "StandingConfig \<Rightarrow> StandingSource \<Rightarrow> instant option" where
  "source_horizon cfg src = map_option (\<lambda>a. end_of (as_of (ac_as_of a)) (sc_max_age cfg)) (ss_accepted src)"

definition standing_of ::
  "StandingConfig \<Rightarrow> StandingSource \<Rightarrow> string \<Rightarrow> instant \<Rightarrow> timedelta \<Rightarrow> exn + KeyStanding" where
  "standing_of cfg src key_id now skew =
     (let answer = (\<lambda>v e. \<lparr>ks_verdict = v, ks_entry = e, ks_version = held_version src,
            ks_as_of = map_option as_of (source_as_of src), ks_horizon = source_horizon cfg src\<rparr>) in
      case map_of (ss_seen_withdrawn src) key_id of
        Some e \<Rightarrow> Inr (answer Is_withdrawn (Some e))
      | None \<Rightarrow>
        (case ss_accepted src of
           None \<Rightarrow> Inr (answer Not_established None)
         | Some a \<Rightarrow>
             bind_r (end_judged_at now skew) (\<lambda>judged.
               if end_of (as_of (ac_as_of a)) (sc_max_age cfg) \<le> judged then Inr (answer Not_established None)
               else (case map_of (kd_keys (ac_document a)) key_id of
                 None \<Rightarrow> Inr (answer Unknown_key None)
               | Some e \<Rightarrow> Inr (answer In_standing (Some e))))))"

definition source_key_state :: "StandingSource \<Rightarrow> string \<Rightarrow> string option" where
  "source_key_state src key_id =
     (if map_of (ss_seen_withdrawn src) key_id \<noteq> None then Some ''withdrawn''
      else (case ss_accepted src of None \<Rightarrow> None
        | Some a \<Rightarrow> map_option (\<lambda>e. key_state_str (ke_state e)) (map_of (kd_keys (ac_document a)) key_id)))"

definition source_key_resolver :: "StandingSource \<Rightarrow> key_resolver" where
  "source_key_resolver src key_id =
     (case ss_accepted src of None \<Rightarrow> None | Some a \<Rightarrow> map_of (ac_public_keys a) key_id)"

definition known_key_ids :: "StandingSource \<Rightarrow> string list" where
  "known_key_ids src = (case ss_accepted src of None \<Rightarrow> [] | Some a \<Rightarrow> map fst (kd_keys (ac_document a)))"

section \<open>Checks as conditions\<close>

lemma each_r_Inr [simp]: "each_r f xs = Inr () \<longleftrightarrow> (\<forall>x \<in> set xs. f x = Inr ())"
  by (induction xs) (auto simp: bind_r_Inr_iff)

lemma distinct_bytes_Inr:
  "distinct_bytes K seen keys = Inr () \<longleftrightarrow>
     (\<exists>raws. raws_of K keys = Inr raws \<and> distinct raws \<and> set raws \<inter> set seen = {})"
proof (induction K seen keys rule: distinct_bytes.induct)
  case (1 K seen)
  then show ?case by (simp add: raws_of_def)
next
  case (2 K seen k e ks)
  then show ?case
    by (cases "load_public_key K (ke_publicKey e)") (auto simp: raws_of_def bind_r_Inr_iff)
qed

abbreviation raw_of :: "crypto \<Rightarrow> KeyStandingEntry \<Rightarrow> exn + string" where
  "raw_of K e \<equiv> load_public_key K (ke_publicKey e)"

lemma raws_of_Inr:
  "raws_of K keys = Inr raws \<longleftrightarrow> map (\<lambda>(k, e). raw_of K e) keys = map Inr raws"
  by (simp add: raws_of_def collect_r_Inr)

lemma raws_of_set:
  assumes "raws_of K keys = Inr raws"
  shows "raw \<in> set raws \<longleftrightarrow> (\<exists>k e. (k, e) \<in> set keys \<and> raw_of K e = Inr raw)"
proof -
  have "raw \<in> set raws \<longleftrightarrow> (Inr raw :: exn + string) \<in> set (map Inr raws)" by auto
  also have "map Inr raws = map (\<lambda>(k, e). raw_of K e) keys" using assms by (simp only: raws_of_Inr)
  finally show ?thesis by force
qed

lemma raws_of_ex:
  "(\<exists>raws. raws_of K keys = Inr raws) \<longleftrightarrow> (\<forall>k e. (k, e) \<in> set keys \<longrightarrow> (\<exists>raw. raw_of K e = Inr raw))"
  by (induction keys) (auto simp: raws_of_def bind_r_Inr_iff)

text \<open>One public key, one entry.\<close>

definition keys_apart :: "crypto \<Rightarrow> (string \<rightharpoonup> KeyStandingEntry) \<Rightarrow> bool" where
  "keys_apart K m \<longleftrightarrow> (\<forall>k e. m k = Some e \<longrightarrow> (\<exists>raw. raw_of K e = Inr raw))
     \<and> (\<forall>k k' e e' raw. m k = Some e \<longrightarrow> m k' = Some e' \<longrightarrow> raw_of K e = Inr raw \<longrightarrow> raw_of K e' = Inr raw \<longrightarrow> k = k')"

lemma distinct_key_bytes_iff:
  assumes d: "distinct (map fst (kd_keys d))"
  shows "check_distinct_key_bytes K d = Inr () \<longleftrightarrow> keys_apart K (map_of (kd_keys d))"
proof -
  let ?keys = "kd_keys d" and ?f = "\<lambda>(k, e). raw_of K e"
  have "distinct ?keys" using d by (simp add: distinct_map)
  then have inj: "distinct (map ?f ?keys) \<longleftrightarrow> inj_on ?f (set ?keys)" by (simp add: distinct_map)
  have "distinct raws \<longleftrightarrow> inj_on ?f (set ?keys)" if "raws_of K ?keys = Inr raws" for raws
  proof -
    have "distinct (map (Inr :: string \<Rightarrow> exn + string) raws) \<longleftrightarrow> distinct raws" by (simp add: distinct_map)
    with that inj show ?thesis by (simp only: raws_of_Inr)
  qed
  then have "check_distinct_key_bytes K d = Inr ()
      \<longleftrightarrow> (\<exists>raws. raws_of K ?keys = Inr raws) \<and> inj_on ?f (set ?keys)"
    by (auto simp: check_distinct_key_bytes_def distinct_bytes_Inr)
  also have "\<dots> \<longleftrightarrow> keys_apart K (map_of ?keys)"
    unfolding raws_of_ex keys_apart_def map_of_eq_Some_iff [OF d]
  proof (intro conj_cong refl iffI allI impI)
    fix k k' e e' raw
    assume "inj_on ?f (set ?keys)" "(k, e) \<in> set ?keys" "(k', e') \<in> set ?keys" "raw_of K e = Inr raw" "raw_of K e' = Inr raw"
    then have "(k, e) = (k', e')" by (intro inj_onD [of ?f "set ?keys"]) simp_all
    then show "k = k'" by simp
  next
    assume loads: "\<forall>k e. (k, e) \<in> set ?keys \<longrightarrow> (\<exists>raw. raw_of K e = Inr raw)"
      and apart: "\<forall>k k' e e' raw. (k, e) \<in> set ?keys \<longrightarrow> (k', e') \<in> set ?keys \<longrightarrow> raw_of K e = Inr raw
        \<longrightarrow> raw_of K e' = Inr raw \<longrightarrow> k = k'"
    show "inj_on ?f (set ?keys)"
    proof (rule inj_onI, clarify)
      fix k e k' e'
      assume m: "(k, e) \<in> set ?keys" "(k', e') \<in> set ?keys" "raw_of K e = raw_of K e'"
      obtain raw where "raw_of K e = Inr raw" using loads m(1) by blast
      with apart m have "k = k'" by metis
      with m eq_key_imp_eq_value [OF d] show "k = k' \<and> e = e'" by blast
    qed
  qed
  finally show ?thesis .
qed

lemma each_dict:
  assumes "distinct (map fst xs)"
  shows "each_r (\<lambda>(k, e). f k e) xs = Inr () \<longleftrightarrow> (\<forall>k e. map_of xs k = Some e \<longrightarrow> f k e = Inr ())"
  unfolding each_r_Inr map_of_eq_Some_iff [OF assms] by fastforce

abbreviation old_keys :: "KeyStandingDocument option \<Rightarrow> (string, KeyStandingEntry) dict" where
  "old_keys accepted \<equiv> (case accepted of None \<Rightarrow> [] | Some d \<Rightarrow> kd_keys d)"

text \<open>What a successor satisfies, over the entries as maps: the order of the entries does not matter.\<close>

definition rebinds_none :: "crypto \<Rightarrow> (string \<rightharpoonup> KeyStandingEntry) \<Rightarrow> (string \<rightharpoonup> KeyStandingEntry) \<Rightarrow> bool" where
  "rebinds_none K known m \<longleftrightarrow>
     (\<forall>k e. known k = Some e \<longrightarrow> (\<exists>raw. raw_of K e = Inr raw))
     \<and> (\<forall>k e. m k = Some e \<longrightarrow> known k = None \<longrightarrow>
          (\<exists>raw. raw_of K e = Inr raw \<and> (\<forall>k' e'. known k' = Some e' \<longrightarrow> raw_of K e' \<noteq> Inr raw)))"

definition steps_forward :: "(string \<rightharpoonup> KeyStandingEntry) \<Rightarrow> (string \<rightharpoonup> KeyStandingEntry) \<Rightarrow> bool" where
  "steps_forward old m \<longleftrightarrow>
     (\<forall>k e e'. old k = Some e \<longrightarrow> m k = Some e' \<longrightarrow> ke_publicKey e' = ke_publicKey e \<and> moves_forward e e')"

lemma new_keys_iff:
  assumes d: "distinct (map fst (kd_keys cand))" and dm: "distinct (map fst known)" and raws: "raws_of K known = Inr raws"
  shows "each_r (\<lambda>(k, e). if map_of known k \<noteq> None then Inr ()
        else bind_r (raw_of K e) (\<lambda>raw. guard_r (raw \<notin> set raws) x)) (kd_keys cand) = Inr ()
      \<longleftrightarrow> rebinds_none K (map_of known) (map_of (kd_keys cand))"
proof -
  have loads: "\<exists>raw. raw_of K e = Inr raw" if "map_of known k = Some e" for k e
    using raws raws_of_ex [of K known] map_of_SomeD [OF that] by blast
  have r: "raw \<in> set raws \<longleftrightarrow> (\<exists>k e. map_of known k = Some e \<and> raw_of K e = Inr raw)" for raw
    unfolding raws_of_set [OF raws] map_of_eq_Some_iff [OF dm] ..
  have "((if map_of known k \<noteq> None then Inr () else bind_r (raw_of K e) (\<lambda>raw. guard_r (raw \<notin> set raws) x)) = Inr ())
      \<longleftrightarrow> (map_of known k = None \<longrightarrow>
           (\<exists>raw. raw_of K e = Inr raw \<and> (\<forall>k' e'. map_of known k' = Some e' \<longrightarrow> raw_of K e' \<noteq> Inr raw)))" for k e
    by (cases "raw_of K e") (auto simp: bind_r_Inr_iff guard_r_Inr_iff r)
  then show ?thesis unfolding each_dict [OF d] rebinds_none_def using loads by auto
qed

lemma moves_iff:
  assumes "distinct (map fst xs)"
  shows "each_r (\<lambda>(k, old). case m k of None \<Rightarrow> Inr ()
        | Some new \<Rightarrow> bind_r (guard_r (ke_publicKey new = ke_publicKey old) x) (\<lambda>_. guard_r (moves_forward old new) y)) xs
      = Inr () \<longleftrightarrow> steps_forward (map_of xs) m"
  unfolding each_dict [OF assms] steps_forward_def
  by (auto simp: bind_r_Inr_iff guard_r_Inr_iff split: option.splits)

lemma check_successor_iff:
  assumes d: "distinct (map fst (kd_keys cand))" and old: "distinct (map fst (old_keys acc))" and seen: "distinct (map fst seen)"
  shows "check_successor K acc cand seen = Inr () \<longleftrightarrow>
     keys_apart K (map_of (kd_keys cand))
     \<and> (\<forall>k e. map_of seen k = Some e \<longrightarrow> map_of (kd_keys cand) k = Some e)
     \<and> rebinds_none K (map_of (old_keys acc) ++ map_of seen) (map_of (kd_keys cand))
     \<and> steps_forward (map_of (old_keys acc)) (map_of (kd_keys cand))
     \<and> (\<forall>p. acc = Some p \<longrightarrow> kd_version p < kd_version cand)"
proof -
  let ?m = "map_of (kd_keys cand)" and ?known = "AList.merge (old_keys acc) seen"
  have dm: "distinct (map fst ?known)" by (rule distinct_merge [OF old])
  have dropped: "each_r (\<lambda>(k, e). guard_r (?m k = Some e) x) seen = Inr () \<longleftrightarrow>
      (\<forall>k e. map_of seen k = Some e \<longrightarrow> ?m k = Some e)" for x
    unfolding each_dict [OF seen] guard_r_Inr_iff ..
  have loads: "rebinds_none K (map_of ?known) ?m \<Longrightarrow> \<exists>raws. raws_of K ?known = Inr raws"
    unfolding raws_of_ex rebinds_none_def map_of_eq_Some_iff [OF dm] by blast
  have moves: "(case acc of None \<Rightarrow> Inr () | Some p \<Rightarrow>
        bind_r (guard_r (\<not> kd_version cand \<le> kd_version p) z) (\<lambda>_. each_r (\<lambda>(k, old). case ?m k of None \<Rightarrow> Inr ()
          | Some new \<Rightarrow> bind_r (guard_r (ke_publicKey new = ke_publicKey old) x) (\<lambda>_. guard_r (moves_forward old new) y))
          (kd_keys p))) = Inr ()
      \<longleftrightarrow> steps_forward (map_of (old_keys acc)) ?m \<and> (\<forall>p. acc = Some p \<longrightarrow> kd_version p < kd_version cand)" for x y z
    using moves_iff [where xs = "old_keys acc" and m = ?m and x = x and y = y] old
    by (cases acc) (auto simp: bind_r_Inr_iff guard_r_Inr_iff steps_forward_def not_le)
  show ?thesis
    unfolding check_successor_def Let_def bind_r_Inr_iff merge_conv' [symmetric]
    using distinct_key_bytes_iff [OF d] dropped moves new_keys_iff [OF d dm] loads by auto
qed

section \<open>Verified documents\<close>

lemma mk_document_Inr: "mk_document d = Inr d' \<Longrightarrow> d' = d"
  by (auto simp: mk_document_def split: sum.splits if_splits)

lemma no_duplicate_member: "no_duplicate_keys v \<Longrightarrow> member v k = Some x \<Longrightarrow> no_duplicate_keys x"
  by (cases v) (auto simp: member_def list_all_iff dest!: map_of_SomeD)

lemma collect_keys:
  "collect_r (map (\<lambda>(k, x). bind_r (f x) (\<lambda>e. Inr (k, e))) kvs) = Inr keys \<Longrightarrow> map fst keys = map fst kvs"
  by (induction kvs arbitrary: keys) (auto simp: bind_r_Inr_iff)

lemma document_keys_distinct:
  assumes "document_of_json K v = Inr d" and "no_duplicate_keys v"
  shows "distinct (map fst (kd_keys d))"
proof -
  from assms(1) obtain kvs keys where k: "member v ''keys'' = Some (JObj kvs)"
    "collect_r (map (\<lambda>(k, x). bind_r (entry_of_json K x) (\<lambda>e. Inr (k, e))) kvs) = Inr keys" "kd_keys d = keys"
    by (auto simp: document_of_json_def bind_r_Inr_iff split: if_splits option.splits json.splits bool.splits
        dest!: mk_document_Inr)
  with no_duplicate_member [OF assms(2) k(1)] collect_keys [OF k(2)] show ?thesis by simp
qed

lemma verified_document:
  assumes "verify_standing_envelope K txt authority role = Inr (d, digest)"
  shows "\<exists>pub sig payload v. authority (sg_keyId (kd_signer d)) = Some pub
    \<and> cx_verify K pub sig (pae STANDING_PAYLOAD_TYPE payload) \<and> loads_strict K payload = Some v
    \<and> document_of_json K v = Inr d \<and> digest = cx_sha256 K payload"
    and "kd_role d = role" and "distinct (map fst (kd_keys d))" and "check_distinct_key_bytes K d = Inr ()"
proof -
  from assms obtain keyid pub sig payload v where *: "authority keyid = Some pub"
    "cx_verify K pub sig (pae STANDING_PAYLOAD_TYPE payload)" "loads_strict K payload = Some v"
    "document_of_json K v = Inr d" "sg_keyId (kd_signer d) = keyid" "kd_role d = role" "digest = cx_sha256 K payload"
    "check_distinct_key_bytes K d = Inr ()"
    by (auto simp: verify_standing_envelope_def bind_r_Inr_iff
        split: option.splits json.splits list.splits sum.splits if_splits)
  then show "\<exists>pub sig payload v. authority (sg_keyId (kd_signer d)) = Some pub
      \<and> cx_verify K pub sig (pae STANDING_PAYLOAD_TYPE payload) \<and> loads_strict K payload = Some v
      \<and> document_of_json K v = Inr d \<and> digest = cx_sha256 K payload"
    and "kd_role d = role" and "check_distinct_key_bytes K d = Inr ()" by blast+
  have "no_duplicate_keys v" using *(3) by (auto simp: loads_strict_def Option.bind_eq_Some_conv split: if_splits)
  with *(4) show "distinct (map fst (kd_keys d))" by (rule document_keys_distinct)
qed

section \<open>The source over its fetches\<close>

text \<open>Every sequence of fetches from a source, whatever each returned or raised.\<close>

inductive standing_run :: "crypto \<Rightarrow> StandingConfig \<Rightarrow> StandingSource \<Rightarrow> StandingSource \<Rightarrow> bool" for K cfg src where
  start: "standing_run K cfg src src"
| fetch: "standing_run K cfg src src' \<Longrightarrow> standing_refresh K cfg now fetched src' = Inr (l, src'') \<Longrightarrow>
     standing_run K cfg src src''"

text \<open>The withdrawals remembered are those of the document in force, whose public keys are apart.\<close>

definition source_ok :: "crypto \<Rightarrow> StandingSource \<Rightarrow> bool" where
  "source_ok K src \<longleftrightarrow>
     distinct (map fst (ss_seen_withdrawn src)) \<and>
     (case ss_accepted src of
        None \<Rightarrow> ss_seen_withdrawn src = []
      | Some a \<Rightarrow>
          distinct (map fst (kd_keys (ac_document a)))
          \<and> keys_apart K (map_of (kd_keys (ac_document a)))
          \<and> load_keys K (kd_keys (ac_document a)) = Inr (ac_public_keys a)
          \<and> (\<forall>k e. map_of (ss_seen_withdrawn src) k = Some e \<longleftrightarrow>
                map_of (kd_keys (ac_document a)) k = Some e \<and> ke_state e = key_withdrawn))"

lemma withdrawn_keys_lookup:
  assumes "distinct (map fst keys)"
  shows "map_of (withdrawn_keys keys) k = Some e \<longleftrightarrow> map_of keys k = Some e \<and> ke_state e = key_withdrawn"
proof -
  have "distinct (map fst (withdrawn_keys keys))" using assms by (simp add: withdrawn_keys_def distinct_map_filter)
  then show ?thesis using assms by (simp add: map_of_eq_Some_iff) (auto simp: withdrawn_keys_def)
qed

lemma remembered:
  assumes "distinct (map fst (kd_keys d))"
  shows "map_of (ss_seen_withdrawn (remember d src)) k =
    (case map_of (withdrawn_keys (kd_keys d)) k of None \<Rightarrow> map_of (ss_seen_withdrawn src) k | Some e \<Rightarrow> Some e)"
proof -
  have d: "distinct (map fst (withdrawn_keys (kd_keys d)))" using assms by (simp add: withdrawn_keys_def distinct_map_filter)
  then have "map_of (rev (withdrawn_keys (kd_keys d))) = map_of (withdrawn_keys (kd_keys d))"
    by (intro map_of_inject_set [THEN iffD2]) (simp_all add: rev_map [symmetric])
  then show ?thesis by (simp add: remember_def merge_conv' map_add_def)
qed

lemma accepted_step:
  assumes ok: "source_ok K src" and judge: "judge_candidate K cfg src txt = Inr (Some (d, digest))"
    and pub: "publish K d digest now src = Inr src'"
  shows "source_ok K (remember d src')"
    and "map_of (ss_seen_withdrawn src) k = Some e \<Longrightarrow> map_of (ss_seen_withdrawn (remember d src')) k = Some e"
    and "\<And>a. ss_accepted src = Some a \<Longrightarrow> kd_version (ac_document a) < kd_version d"
    and "ac_document (the (ss_accepted (remember d src'))) = d" "ss_accepted (remember d src') \<noteq> None"
proof -
  let ?acc = "map_option ac_document (ss_accepted src)" and ?seen = "ss_seen_withdrawn src"
  from judge have v: "verify_standing_envelope K txt (sc_authority cfg) (sc_role cfg) = Inr (d, digest)"
    and cs: "check_successor K ?acc d ?seen = Inr ()"
    by (auto simp: judge_candidate_def bind_r_Inr_iff split: if_splits)
  note d = verified_document(3,4) [OF v]
  have seen: "distinct (map fst ?seen)" and old: "distinct (map fst (old_keys ?acc))"
    using ok by (auto simp: source_ok_def split: option.splits)
  from cs have carried: "\<And>k e. map_of ?seen k = Some e \<Longrightarrow> map_of (kd_keys d) k = Some e"
    and newer: "\<And>p. ?acc = Some p \<Longrightarrow> kd_version p < kd_version d"
    by (auto simp: check_successor_iff [OF d(1) old seen])
  have states: "\<And>k e. map_of ?seen k = Some e \<Longrightarrow> ke_state e = key_withdrawn"
    using ok by (auto simp: source_ok_def split: option.splits)
  from pub obtain raws issued where p: "load_keys K (kd_keys d) = Inr raws"
    "src' = src\<lparr>ss_accepted := Some \<lparr>ac_document = d, ac_digest = digest,
       ac_as_of = \<lparr>fetched_at = now, stated_at = Some issued\<rparr>, ac_public_keys = raws\<rparr>\<rparr>"
    by (auto simp: publish_def bind_r_Inr_iff)
  have s: "ss_seen_withdrawn src' = ?seen" by (simp add: p(2))
  have look: "map_of (ss_seen_withdrawn (remember d src')) k = Some e
      \<longleftrightarrow> map_of (kd_keys d) k = Some e \<and> ke_state e = key_withdrawn" for k e
    unfolding remembered [OF d(1)] s
    using withdrawn_keys_lookup [OF d(1), of k] carried [of k] states [of k]
    by (auto split: option.splits)
  show "source_ok K (remember d src')"
    using look d distinct_key_bytes_iff [OF d(1)] p seen
    by (simp add: source_ok_def) (simp add: remember_def distinct_merge)
  show "map_of (ss_seen_withdrawn (remember d src')) k = Some e" if "map_of ?seen k = Some e"
    using look carried [OF that] states [OF that] by simp
  show "\<And>a. ss_accepted src = Some a \<Longrightarrow> kd_version (ac_document a) < kd_version d" using newer by simp
  show "ac_document (the (ss_accepted (remember d src'))) = d" "ss_accepted (remember d src') \<noteq> None"
    by (simp_all add: p(2) remember_def)
qed

lemma refresh_cases:
  assumes "standing_refresh K cfg now fetched src = Inr (l, src')"
  obtains (same) "src' = src"
  | (accepted) fetched_text d digest mid where "judge_candidate K cfg src fetched_text = Inr (Some (d, digest))" "publish K d digest now src = Inr mid"
      "src' = remember d mid" "l = \<lparr>sl_verdict = ''accepted'', sl_version = Some (kd_version d)\<rparr>"
  using assms
  by (auto simp: standing_refresh_def bind_r_Inr_iff split: sum.splits option.splits if_splits)

lemma empty_source_ok: "standing_source cfg = Inr src \<Longrightarrow> source_ok K src"
  by (auto simp: standing_source_def source_ok_def split: if_splits)

lemma refresh_step:
  assumes ok: "source_ok K src" and step: "standing_refresh K cfg now fetched src = Inr (l, src')"
  shows "source_ok K src'
    \<and> (\<forall>k e. map_of (ss_seen_withdrawn src) k = Some e \<longrightarrow> map_of (ss_seen_withdrawn src') k = Some e)
    \<and> (\<forall>v. held_version src = Some v \<longrightarrow> (\<exists>v'. held_version src' = Some v' \<and> v \<le> v'))"
  using step
proof (cases rule: refresh_cases)
  case same
  with ok show ?thesis by simp
next
  case (accepted fetched_text d digest mid)
  note a = accepted_step [OF ok accepted(1,2)]
  from a(3-5) have "\<exists>v'. held_version src' = Some v' \<and> v \<le> v'" if "held_version src = Some v" for v
    using that by (auto simp: accepted(3) held_version_def)
  with a(1,2) show ?thesis by (simp add: accepted(3))
qed

lemma standing_run_keeps:
  assumes "standing_run K cfg src src'" and "source_ok K src"
  shows "source_ok K src'"
    and "map_of (ss_seen_withdrawn src) k = Some e \<Longrightarrow> map_of (ss_seen_withdrawn src') k = Some e"
    and "held_version src = Some v \<Longrightarrow> \<exists>v'. held_version src' = Some v' \<and> v \<le> v'"
proof -
  from assms have "source_ok K src'
      \<and> (map_of (ss_seen_withdrawn src) k = Some e \<longrightarrow> map_of (ss_seen_withdrawn src') k = Some e)
      \<and> (held_version src = Some v \<longrightarrow> (\<exists>v'. held_version src' = Some v' \<and> v \<le> v'))"
  proof (induction rule: standing_run.induct)
    case (fetch src' now fetched l src'')
    then show ?case using refresh_step [OF _ fetch.hyps(2)] by (meson order_trans)
  qed simp
  then show "source_ok K src'"
    and "map_of (ss_seen_withdrawn src) k = Some e \<Longrightarrow> map_of (ss_seen_withdrawn src') k = Some e"
    and "held_version src = Some v \<Longrightarrow> \<exists>v'. held_version src' = Some v' \<and> v \<le> v'" by blast+
qed

lemma key_state_withdrawn:
  assumes "source_ok K src"
  shows "source_key_state src k = Some ''withdrawn'' \<longleftrightarrow> map_of (ss_seen_withdrawn src) k \<noteq> None"
proof -
  have "key_state_str s = ''withdrawn'' \<longleftrightarrow> s = key_withdrawn" for s by (cases s) (simp_all add: key_state_str_def)
  with assms show ?thesis
    by (cases "ss_accepted src") (auto simp: source_key_state_def source_ok_def)
qed

lemma in_standing_not_withdrawn:
  assumes "source_ok K src" and "standing_of cfg src k now skew = Inr s" and "ks_verdict s = In_standing"
  shows "source_key_state src k \<noteq> Some ''withdrawn''"
  using assms by (auto simp: key_state_withdrawn standing_of_def Let_def bind_r_Inr_iff split: option.splits if_splits)

lemma load_keys_lookup:
  assumes "load_keys K keys = Inr raws"
  shows "map_of raws k = Some raw \<longleftrightarrow> (\<exists>e. map_of keys k = Some e \<and> raw_of K e = Inr raw)"
proof -
  have "collect_r (map (\<lambda>(k, e). bind_r (raw_of K e) (\<lambda>raw. Inr (k, raw))) keys) = Inr raws \<Longrightarrow>
      map_of raws k = Some raw \<longleftrightarrow> (\<exists>e. map_of keys k = Some e \<and> raw_of K e = Inr raw)"
    by (induction keys arbitrary: raws) (auto simp: bind_r_Inr_iff)
  with assms show ?thesis by (simp add: load_keys_def)
qed

text \<open>C11: withdrawal is terminal. Once a source reports a key withdrawn, then after any further fetches, of any texts and
  at any instants and skew bounds, it answers withdrawn for that key, the version in force never falls, and the public
  key of the withdrawn key resolves under no other key id: a document that drops the withdrawal, rewinds the version or
  lists the same key again is never accepted.\<close>

theorem withdrawal_is_terminal:
  assumes start: "standing_source cfg = Inr src0" "standing_run K cfg src0 src"
    and withdrawn: "source_key_state src k = Some ''withdrawn''" and later: "standing_run K cfg src src'"
  shows "\<exists>e. ke_state e = key_withdrawn
    \<and> (\<forall>now skew. \<exists>s. standing_of cfg src' k now skew = Inr s \<and> ks_verdict s = Is_withdrawn \<and> ks_entry s = Some e)
    \<and> (\<forall>k' raw. load_public_key K (ke_publicKey e) = Inr raw \<longrightarrow> source_key_resolver src' k' = Some raw \<longrightarrow> k' = k)
    \<and> source_key_state src' k = Some ''withdrawn''
    \<and> (\<forall>v. held_version src = Some v \<longrightarrow> (\<exists>v'. held_version src' = Some v' \<and> v \<le> v'))"
proof -
  have ok: "source_ok K src" by (rule standing_run_keeps(1) [OF start(2) empty_source_ok [OF start(1)]])
  then have ok': "source_ok K src'" by (rule standing_run_keeps(1) [OF later])
  obtain e where e: "map_of (ss_seen_withdrawn src) k = Some e" using withdrawn key_state_withdrawn [OF ok] by blast
  then have e': "map_of (ss_seen_withdrawn src') k = Some e" by (rule standing_run_keeps(2) [OF later ok])
  then obtain a where a: "ss_accepted src' = Some a" using ok' by (auto simp: source_ok_def split: option.splits)
  have d: "map_of (kd_keys (ac_document a)) k = Some e" "ke_state e = key_withdrawn"
    "keys_apart K (map_of (kd_keys (ac_document a)))" "load_keys K (kd_keys (ac_document a)) = Inr (ac_public_keys a)"
    using ok' e' a by (auto simp: source_ok_def)
  have "k' = k" if "load_public_key K (ke_publicKey e) = Inr raw" "source_key_resolver src' k' = Some raw" for k' raw
    using that d(1,3) unfolding source_key_resolver_def a option.case load_keys_lookup [OF d(4)] keys_apart_def by blast
  moreover have "source_key_state src' k = Some ''withdrawn''" using e' key_state_withdrawn [OF ok'] by simp
  moreover have "\<exists>s. standing_of cfg src' k now skew = Inr s \<and> ks_verdict s = Is_withdrawn \<and> ks_entry s = Some e" for now skew
    by (simp add: standing_of_def Let_def e')
  ultimately show ?thesis using d(2) standing_run_keeps(3) [OF later ok] by blast
qed

section \<open>What the ceremony signs is accepted\<close>

definition readable :: "crypto \<Rightarrow> iso \<Rightarrow> bool" where
  "readable K v \<longleftrightarrow> iso_read v = cx_fromiso K (iso_str v)"

definition entry_valid :: "crypto \<Rightarrow> KeyStandingEntry \<Rightarrow> bool" where
  "entry_valid K e \<longleftrightarrow> mk_entry K e = Inr e
     \<and> (\<forall>v \<in> set_option (ke_retiredAt e) \<union> set_option (ke_withdrawnAt e). readable K v)"

lemma readable_text: "readable K v \<Longrightarrow> iso_text K (iso_str v) = v"
  by (simp add: readable_def iso_text_def)

lemma readable_opt: "(\<And>v. x = Some v \<Longrightarrow> readable K v) \<Longrightarrow> map_option (iso_text K) (map_option iso_str x) = x"
  by (cases x) (simp_all add: readable_text)

lemma opt_str_sorted: "sorted_json (opt_str x) = opt_str x"
  by (cases x) (simp_all add: opt_str_def)

lemma opt_field_str: "member v k = Some (opt_str x) \<Longrightarrow> opt_field v k = Some x"
  by (cases x) (simp_all add: opt_field_def opt_str_def)

lemma key_state_of_str: "key_state_of (key_state_str s) = Some s"
  by (cases s) (simp_all add: key_state_of_def key_state_str_def)

lemma role_of_str: "role_of (role_str r) = Some r"
  by (cases r) (simp_all add: role_of_def role_str_def)

lemma only_fields_sorted: "only_fields names (sorted_json (JObj kvs)) \<longleftrightarrow> fst ` set kvs \<subseteq> set names"
  by (simp add: only_fields_def image_image split_beta)

lemma entry_round_trip:
  assumes "entry_valid K e"
  shows "entry_of_json K (sorted_json (entry_json e)) = Inr e"
proof -
  let ?v = "sorted_json (entry_json e)"
  have f: "only_fields [''publicKey'', ''state'', ''retiredAt'', ''retiredReason'', ''withdrawnAt'', ''withdrawnReason''] ?v"
    unfolding entry_json_def only_fields_sorted by simp
  have "member ?v ''publicKey'' = Some (JStr (ke_publicKey e))" "member ?v ''state'' = Some (JStr (key_state_str (ke_state e)))"
    "member ?v ''retiredAt'' = Some (opt_str (map_option iso_str (ke_retiredAt e)))"
    "member ?v ''retiredReason'' = Some (opt_str (ke_retiredReason e))"
    "member ?v ''withdrawnAt'' = Some (opt_str (map_option iso_str (ke_withdrawnAt e)))"
    "member ?v ''withdrawnReason'' = Some (opt_str (ke_withdrawnReason e))"
    unfolding entry_json_def by (simp_all add: member_sorted opt_str_sorted sorted_leaves del: sorted_json.simps)
  note m = this(1,2) this(3-6) [THEN opt_field_str]
  have r: "map_option (iso_text K) (map_option iso_str (ke_retiredAt e)) = ke_retiredAt e"
    "map_option (iso_text K) (map_option iso_str (ke_withdrawnAt e)) = ke_withdrawnAt e"
    using assms by (auto intro!: readable_opt simp: entry_valid_def)
  show ?thesis
    using f m assms r by (cases e) (simp add: entry_of_json_def str_field_def key_state_of_str entry_valid_def)
qed

text \<open>A document as it is read back: its entries in the order of their key ids.\<close>

definition read_back :: "KeyStandingDocument \<Rightarrow> KeyStandingDocument" where
  "read_back d = d\<lparr>kd_keys := sort_key fst (kd_keys d)\<rparr>"

lemma read_back_simps [simp]:
  "kd_role (read_back d) = kd_role d" "kd_version (read_back d) = kd_version d" "kd_issuedAt (read_back d) = kd_issuedAt d"
  "kd_signer (read_back d) = kd_signer d" "kd_keys (read_back d) = sort_key fst (kd_keys d)"
  by (simp_all add: read_back_def)

definition document_valid :: "crypto \<Rightarrow> KeyStandingDocument \<Rightarrow> bool" where
  "document_valid K d \<longleftrightarrow> mk_document d = Inr d \<and> readable K (kd_issuedAt d) \<and> distinct (map fst (kd_keys d))
     \<and> (\<forall>(k, e) \<in> set (kd_keys d). entry_valid K e)"

lemma document_wf: "distinct (map fst (kd_keys d)) \<Longrightarrow> wf_json (document_json d)"
  by (auto simp: document_json_def entry_json_def opt_str_def comp_def split_beta list_all_iff split: option.splits)

lemma document_round_trip:
  assumes "document_valid K d"
  shows "document_of_json K (sorted_json (document_json d)) = Inr (read_back d)"
proof -
  let ?v = "sorted_json (document_json d)"
  let ?ks = "map (\<lambda>(k, e). (k, sorted_json (entry_json e))) (sort_key fst (kd_keys d))"
  have f: "only_fields [''role'', ''version'', ''issuedAt'', ''signer'', ''keys''] ?v"
    unfolding document_json_def only_fields_sorted by simp
  have "sorted_json (JObj (map (\<lambda>(k, e). (k, entry_json e)) (kd_keys d))) = JObj ?ks"
    using sort_key_map [of "\<lambda>(k, e). (k, sorted_json (entry_json e))" "kd_keys d"]
    by (simp add: comp_def case_prod_unfold)
  then have m: "member ?v ''role'' = Some (JStr (role_str (kd_role d)))" "member ?v ''version'' = Some (JNum (of_int (kd_version d)))"
    "member ?v ''issuedAt'' = Some (JStr (iso_str (kd_issuedAt d)))" "member ?v ''keys'' = Some (JObj ?ks)"
    "member ?v ''signer'' = Some (sorted_json (JObj [(''keyId'', JStr (sg_keyId (kd_signer d))), (''zone'', JStr (sg_zone (kd_signer d)))]))"
    unfolding document_json_def by (simp_all add: member_sorted sorted_leaves del: sorted_json.simps) simp
  let ?sg = "sorted_json (JObj [(''keyId'', JStr (sg_keyId (kd_signer d))), (''zone'', JStr (sg_zone (kd_signer d)))])"
  have sg: "only_fields [''keyId'', ''zone''] ?sg" "str_field ?sg ''keyId'' = Some (sg_keyId (kd_signer d))"
    "str_field ?sg ''zone'' = Some (sg_zone (kd_signer d))"
    by (simp_all add: only_fields_sorted str_field_def member_sorted sorted_leaves del: sorted_json.simps)
  have "collect_r (map (\<lambda>(k, x). bind_r (entry_of_json K x) (\<lambda>e. Inr (k, e))) ?ks) = Inr (sort_key fst (kd_keys d))"
    using assms entry_round_trip [of K] by (auto simp: collect_r_Inr document_valid_def split_beta)
  with f m sg assms readable_text [of K "kd_issuedAt d"] show ?thesis
    by (auto simp: document_of_json_def str_field_def role_of_str int_field_def document_valid_def mk_document_def
        read_back_def split: if_splits sum.splits)
qed

lemma no_duplicate_sorted: "wf_json v \<Longrightarrow> no_duplicate_keys (sorted_json v)"
proof (induction v)
  case (JList vs)
  then show ?case by (auto simp: list_all_iff)
next
  case (JObj kvs)
  then have "no_duplicate_keys (sorted_json v)" if "(k, v) \<in> set kvs" for k v
    using that by (force simp: list_all_iff)
  then have "list_all (\<lambda>(k, v). no_duplicate_keys v) (map (\<lambda>(k, v). (k, sorted_json v)) (sort_key fst kvs))"
    by (auto simp: list_all_iff)
  moreover have "distinct (map fst (map (\<lambda>(k, v). (k, sorted_json v)) (sort_key fst kvs)))"
    using JObj.prems sorted_members(1) [of kvs] sorted_json_obj [of kvs] by simp
  ultimately show ?case unfolding sorted_json_obj no_duplicate_keys.simps by blast
qed simp_all

lemma strict_reads:
  assumes "json_reader (cx_loads K)" and "wf_json v"
  shows "loads_strict K (json_text v) = Some (sorted_json v)"
  using json_reader.loads_text [OF assms] no_duplicate_sorted [OF assms(2)] by (simp add: loads_strict_def)

lemma sorted_lookup: "distinct (map fst xs) \<Longrightarrow> map_of (sort_key fst xs) = map_of xs"
  by (intro map_of_inject_set [THEN iffD2]) (auto simp: distinct_map)

lemma read_back_keys:
  assumes "distinct (map fst (kd_keys d))"
  shows "distinct (map fst (kd_keys (read_back d)))" "map_of (kd_keys (read_back d)) = map_of (kd_keys d)"
  using assms by (auto simp: sorted_lookup distinct_map)

lemma signed_document_verifies:
  assumes reader: "json_reader (cx_loads K)" and valid: "document_valid K d"
    and apart: "check_distinct_key_bytes K d = Inr ()" and signed: "sign_standing_document d sgnr = Inr s"
    and key: "authority (rs_key_id sgnr) = Some pub"
      "cx_verify K pub (rs_sign sgnr (pae STANDING_PAYLOAD_TYPE (canonical_standing_bytes d)))
         (pae STANDING_PAYLOAD_TYPE (canonical_standing_bytes d))"
  shows "verify_standing_envelope K s authority (kd_role d) = Inr (read_back d, cx_sha256 K (canonical_standing_bytes d))"
proof -
  let ?sig = "JObj [(''keyid'', JStr (rs_key_id sgnr)),
    (''sig'', JStr (b64encode (rs_sign sgnr (pae STANDING_PAYLOAD_TYPE (canonical_standing_bytes d)))))]"
  let ?env = "JObj [(''payloadType'', JStr STANDING_PAYLOAD_TYPE), (''payload'', JStr (b64encode (canonical_standing_bytes d))),
    (''signatures'', JList [?sig])]"
  from signed have s: "s = json_text ?env" and signer: "sg_keyId (kd_signer d) = rs_key_id sgnr"
    by (auto simp: sign_standing_document_def Let_def split: if_splits)
  have d: "distinct (map fst (kd_keys d))" using valid by (simp add: document_valid_def)
  have "loads_strict K s = Some (sorted_json ?env)" unfolding s by (rule strict_reads [OF reader]) simp
  moreover have "is_obj (sorted_json ?env)" by (simp add: is_obj_def)
  moreover have "member (sorted_json ?env) ''payloadType'' = Some (JStr STANDING_PAYLOAD_TYPE)"
    "str_field (sorted_json ?env) ''payload'' = Some (b64encode (canonical_standing_bytes d))"
    "member (sorted_json ?env) ''signatures'' = Some (JList [sorted_json ?sig])"
    by (simp_all add: str_field_def member_sorted sorted_leaves del: sorted_json.simps) (simp_all add: sorted_leaves)
  moreover have "str_field (sorted_json ?sig) ''keyid'' = Some (rs_key_id sgnr)"
    "str_field (sorted_json ?sig) ''sig''
       = Some (b64encode (rs_sign sgnr (pae STANDING_PAYLOAD_TYPE (canonical_standing_bytes d))))"
    by (simp_all add: str_field_def member_sorted sorted_leaves del: sorted_json.simps)
  moreover have "loads_strict K (canonical_standing_bytes d) = Some (sorted_json (document_json d))"
    unfolding canonical_standing_bytes_def by (rule strict_reads [OF reader document_wf [OF d]])
  moreover have "check_distinct_key_bytes K (read_back d) = Inr ()"
    using apart distinct_key_bytes_iff [OF d] distinct_key_bytes_iff [OF read_back_keys(1) [OF d]] read_back_keys(2) [OF d]
    by simp
  ultimately show ?thesis
    using key document_round_trip [OF valid] signer
    by (simp add: verify_standing_envelope_def del: sorted_json.simps)
qed

lemma seen_is_withdrawn:
  assumes ok: "source_ok K src"
  shows "map_of (case map_option ac_document (ss_accepted src) of None \<Rightarrow> [] | Some p \<Rightarrow> withdrawn_keys (kd_keys p))
    = map_of (ss_seen_withdrawn src)"
proof (cases "ss_accepted src")
  case None
  with ok show ?thesis by (simp add: source_ok_def)
next
  case (Some a)
  with ok have d: "distinct (map fst (kd_keys (ac_document a)))"
    and s: "\<And>k e. map_of (ss_seen_withdrawn src) k = Some e
      \<longleftrightarrow> map_of (kd_keys (ac_document a)) k = Some e \<and> ke_state e = key_withdrawn"
    by (auto simp: source_ok_def)
  have "map_of (withdrawn_keys (kd_keys (ac_document a))) k = map_of (ss_seen_withdrawn src) k" for k
    using withdrawn_keys_lookup [OF d, of k] s [of k] by (metis not_None_eq)
  with Some show ?thesis by auto
qed

lemma load_keys_ex: "\<forall>k e. (k, e) \<in> set keys \<longrightarrow> (\<exists>raw. raw_of K e = Inr raw) \<Longrightarrow> \<exists>raws. load_keys K keys = Inr raws"
  by (induction keys) (auto simp: load_keys_def bind_r_Inr_iff)

lemma next_document_judged:
  assumes reader: "json_reader (cx_loads K)"
    and run: "standing_source cfg = Inr src0" "standing_run K cfg src0 src"
    and nxt: "next_document K (map_option ac_document (ss_accepted src)) (sc_role cfg) keys issued sgnr = Inr d"
    and signed: "sign_standing_document d sgnr = Inr s" and valid: "document_valid K d"
    and key: "sc_authority cfg (rs_key_id sgnr) = Some pub" "\<And>m. cx_verify K pub (rs_sign sgnr m) m"
    and third: "check_authority_not_listed K d (sc_authority_key_ids cfg) (sc_authority_public_keys cfg) = Inr ()"
    and new: "\<And>a. ss_accepted src = Some a \<Longrightarrow> ac_digest a \<noteq> cx_sha256 K (canonical_standing_bytes d)"
  shows "judge_candidate K cfg src s = Inr (Some (read_back d, cx_sha256 K (canonical_standing_bytes d)))"
    and "\<exists>a. publish K (read_back d) (cx_sha256 K (canonical_standing_bytes d)) now src = Inr (src\<lparr>ss_accepted := Some a\<rparr>)
      \<and> ac_document a = read_back d \<and> ac_digest a = cx_sha256 K (canonical_standing_bytes d)
      \<and> (\<exists>i. parse_standing_instant (kd_issuedAt d) = Inr i \<and> ac_as_of a = \<lparr>fetched_at = now, stated_at = Some i\<rparr>)"
proof -
  let ?acc = "map_option ac_document (ss_accepted src)" and ?seen = "ss_seen_withdrawn src"
  have ok: "source_ok K src" by (rule standing_run_keeps(1) [OF run(2) empty_source_ok [OF run(1)]])
  have d: "distinct (map fst (kd_keys d))" using valid by (simp add: document_valid_def)
  have seen: "distinct (map fst ?seen)" and old: "distinct (map fst (old_keys ?acc))"
    using ok by (auto simp: source_ok_def split: option.splits)
  let ?w = "case ?acc of None \<Rightarrow> [] | Some p \<Rightarrow> withdrawn_keys (kd_keys p)"
  have w: "distinct (map fst ?w)" using old by (auto simp: withdrawn_keys_def distinct_map_filter split: option.splits)
  have same: "map_of ?w = map_of ?seen" by (rule seen_is_withdrawn [OF ok])
  from nxt have role: "kd_role d = sc_role cfg" and cs: "check_successor K ?acc d ?w = Inr ()"
    by (auto simp: next_document_def bind_r_Inr_iff dest: mk_document_Inr)
  have cs': "check_successor K ?acc (read_back d) ?seen = Inr ()"
    using cs unfolding check_successor_iff [OF d old w] check_successor_iff [OF read_back_keys(1) [OF d] old seen]
    unfolding sorted_lookup [OF d] same read_back_simps .
  have apart: "check_distinct_key_bytes K d = Inr ()" using cs by (simp add: check_successor_def bind_r_Inr_iff)
  have third': "check_authority_not_listed K (read_back d) (sc_authority_key_ids cfg) (sc_authority_public_keys cfg) = Inr ()"
    using third unfolding check_authority_not_listed_def each_dict [OF d] each_dict [OF read_back_keys(1) [OF d]]
    by (simp only: sorted_lookup [OF d] read_back_simps)
  have v: "verify_standing_envelope K s (sc_authority cfg) (sc_role cfg) = Inr (read_back d, cx_sha256 K (canonical_standing_bytes d))"
    using signed_document_verifies [OF reader valid apart signed, of "sc_authority cfg" pub] key by (simp add: role)
  show "judge_candidate K cfg src s = Inr (Some (read_back d, cx_sha256 K (canonical_standing_bytes d)))"
    using v third' cs' new by (auto simp: judge_candidate_def)
  obtain issued_at where i: "parse_standing_instant (kd_issuedAt d) = Inr issued_at"
    using valid by (auto simp: document_valid_def mk_document_def split: sum.splits if_splits)
  have "\<exists>raws. load_keys K (kd_keys (read_back d)) = Inr raws"
    using apart distinct_key_bytes_iff [OF d] map_of_eq_Some_iff [OF d] by (intro load_keys_ex) (auto simp: keys_apart_def)
  then show "\<exists>a. publish K (read_back d) (cx_sha256 K (canonical_standing_bytes d)) now src = Inr (src\<lparr>ss_accepted := Some a\<rparr>)
      \<and> ac_document a = read_back d \<and> ac_digest a = cx_sha256 K (canonical_standing_bytes d)
      \<and> (\<exists>i. parse_standing_instant (kd_issuedAt d) = Inr i \<and> ac_as_of a = \<lparr>fetched_at = now, stated_at = Some i\<rparr>)"
    using i by (auto simp: publish_def)
qed

lemma next_document_accepted:
  assumes reader: "json_reader (cx_loads K)"
    and run: "standing_source cfg = Inr src0" "standing_run K cfg src0 src"
    and nxt: "next_document K (map_option ac_document (ss_accepted src)) (sc_role cfg) keys issued sgnr = Inr d"
    and signed: "sign_standing_document d sgnr = Inr s" and valid: "document_valid K d"
    and key: "sc_authority cfg (rs_key_id sgnr) = Some pub" "\<And>m. cx_verify K pub (rs_sign sgnr m) m"
    and third: "check_authority_not_listed K d (sc_authority_key_ids cfg) (sc_authority_public_keys cfg) = Inr ()"
    and new: "\<And>a. ss_accepted src = Some a \<Longrightarrow> ac_digest a \<noteq> cx_sha256 K (canonical_standing_bytes d)"
  shows "\<exists>src'. standing_refresh K cfg now (Inr s) src
      = Inr (\<lparr>sl_verdict = ''accepted'', sl_version = Some (kd_version d)\<rparr>, src')
    \<and> map_option ac_document (ss_accepted src') = Some (read_back d)
    \<and> map_option ac_digest (ss_accepted src') = Some (cx_sha256 K (canonical_standing_bytes d))"
  using next_document_judged(1) [OF assms] next_document_judged(2) [OF assms, of now]
  by (auto simp: standing_refresh_def remember_def)

text \<open>C15: the ceremony signs only what a verifier accepts. Take any state of a source reached by fetches, and the next
  document the ceremony builds from the one in force: if its entries are valid, it lists no key of the standing
  authority and its digest is new, then the signed text is accepted, and the document, read back with its entries in
  order, is in force at the next version.\<close>

theorem ceremony_document_is_accepted:
  assumes reader: "json_reader (cx_loads K)"
    and run: "standing_source cfg = Inr src0" "standing_run K cfg src0 src"
    and nxt: "next_document K (map_option ac_document (ss_accepted src)) (sc_role cfg) keys issued sgnr = Inr d"
    and signed: "sign_standing_document d sgnr = Inr s" and valid: "document_valid K d"
    and key: "sc_authority cfg (rs_key_id sgnr) = Some pub" "\<And>m. cx_verify K pub (rs_sign sgnr m) m"
    and third: "check_authority_not_listed K d (sc_authority_key_ids cfg) (sc_authority_public_keys cfg) = Inr ()"
    and new: "\<And>a. ss_accepted src = Some a \<Longrightarrow> ac_digest a \<noteq> cx_sha256 K (canonical_standing_bytes d)"
  shows "\<exists>src'. standing_refresh K cfg now (Inr s) src
      = Inr (\<lparr>sl_verdict = ''accepted'', sl_version = Some (kd_version d)\<rparr>, src')
    \<and> map_option ac_document (ss_accepted src') = Some (read_back d)
    \<and> map_option ac_digest (ss_accepted src') = Some (cx_sha256 K (canonical_standing_bytes d))"
  by (rule next_document_accepted [OF assms])

section \<open>A reader between the two writes\<close>

text \<open>C16: a reader between the two writes of an acceptance is told that a withdrawn key has standing. When a source
  accepts a document that withdraws a key it had not seen withdrawn, then after the document is in force and before the
  withdrawal is remembered the source answers in standing for that key at every instant before the document's horizon,
  although the state it reports for the key is withdrawn; once the withdrawal is remembered it answers withdrawn.\<close>

theorem half_update_reads_in_standing:
  assumes run: "standing_source cfg = Inr src0" "standing_run K cfg src0 src"
    and judge: "judge_candidate K cfg src fetched = Inr (Some (d, digest))" and pub: "publish K d digest now src = Inr mid"
    and key: "map_of (kd_keys d) k = Some e" "ke_state e = key_withdrawn" "source_key_state src k \<noteq> Some ''withdrawn''"
    and date: "end_judged_at t skew = Inr judged" "source_horizon cfg mid = Some h" "judged < h"
  shows "(\<exists>s. standing_of cfg mid k t skew = Inr s \<and> ks_verdict s = In_standing \<and> ks_entry s = Some e)
    \<and> source_key_state mid k = Some ''withdrawn''
    \<and> (\<exists>s. standing_of cfg (remember d mid) k t skew = Inr s \<and> ks_verdict s = Is_withdrawn)"
proof -
  have ok: "source_ok K src" by (rule standing_run_keeps(1) [OF run(2) empty_source_ok [OF run(1)]])
  from pub obtain a where m: "mid = src\<lparr>ss_accepted := Some a\<rparr>" "ac_document a = d"
    by (auto simp: publish_def bind_r_Inr_iff)
  have unseen: "map_of (ss_seen_withdrawn src) k = None" using key(3) key_state_withdrawn [OF ok] by simp
  have "map_of (ss_seen_withdrawn (remember d mid)) k = Some e"
  proof -
    from judge have v: "verify_standing_envelope K fetched (sc_authority cfg) (sc_role cfg) = Inr (d, digest)"
      by (auto simp: judge_candidate_def bind_r_Inr_iff split: if_splits)
    show ?thesis
      using key(1,2) withdrawn_keys_lookup [OF verified_document(3) [OF v], of k e]
      unfolding remembered [OF verified_document(3) [OF v]] by simp
  qed
  with m unseen key(1,2) date show ?thesis
    by (auto simp: standing_of_def Let_def source_key_state_def source_horizon_def key_state_str_def)
qed

section \<open>Witnesses\<close>

definition standing_crypto :: crypto where
  "standing_crypto = open_crypto\<lparr>cx_fromiso := (\<lambda>s. if s = isoformat_utc 0 then Some (0, Some 0) else None)\<rparr>"

definition standing_config :: StandingConfig where
  "standing_config =
     \<lparr>sc_role = issuer_role, sc_authority = (\<lambda>_. None)(''a1'' := Some ''A''), sc_authority_key_ids = [''a1''],
      sc_authority_public_keys = [''A''], sc_max_age = DAY\<rparr>"

definition authority_signer :: RecordSigner where
  "authority_signer = \<lparr>rs_key_id = ''a1'', rs_zone = ''z'', rs_sign = (\<lambda>m. ''A'' @ m)\<rparr>"

definition sample_entry :: KeyStandingEntry where
  "sample_entry =
     \<lparr>ke_publicKey = ''P'', ke_state = key_active, ke_retiredAt = None, ke_retiredReason = None,
      ke_withdrawnAt = None, ke_withdrawnReason = None\<rparr>"

definition sample_withdrawn :: KeyStandingEntry where
  "sample_withdrawn =
     sample_entry\<lparr>ke_state := key_withdrawn, ke_withdrawnAt := Some (iso_of 0), ke_withdrawnReason := Some ''keyCompromise''\<rparr>"

definition sample_document :: "int \<Rightarrow> KeyStandingEntry \<Rightarrow> KeyStandingDocument" where
  "sample_document v e =
     \<lparr>kd_role = issuer_role, kd_version = v, kd_issuedAt = iso_of 0, kd_signer = \<lparr>sg_keyId = ''a1'', sg_zone = ''z''\<rparr>,
      kd_keys = [(''k1'', e)]\<rparr>"

definition sample_text :: "KeyStandingDocument \<Rightarrow> string" where
  "sample_text d =
     (case sign_standing_document d authority_signer of Inl _ \<Rightarrow> [] | Inr s \<Rightarrow> s)"

lemma standing_raw [simp]: "load_public_key standing_crypto pem = Inr pem"
  by (simp add: load_public_key_def standing_crypto_def open_crypto_def sample_digest_def)

lemma standing_reader: "json_reader (cx_loads standing_crypto)"
  by (simp add: standing_crypto_def open_crypto_def sample_digest_def canonical_reader.json_reader_axioms)

lemma standing_verify: "cx_verify standing_crypto ''A'' (rs_sign authority_signer m) m"
  by (simp add: standing_crypto_def open_crypto_def authority_signer_def)

lemma sample_valid_documents:
  assumes "1 \<le> v" and "e \<in> {sample_entry, sample_withdrawn}"
  shows "mk_document (sample_document v e) = Inr (sample_document v e)"
    "document_valid standing_crypto (sample_document v e)"
    "sign_standing_document (sample_document v e) authority_signer = Inr (sample_text (sample_document v e))"
    "check_authority_not_listed standing_crypto (sample_document v e) [''a1''] [''A''] = Inr ()"
    "check_distinct_key_bytes standing_crypto (sample_document v e) = Inr ()"
proof -
  have r: "readable standing_crypto (iso_of 0)" by (simp add: readable_def iso_of_def standing_crypto_def)
  have p: "parse_standing_instant (iso_of 0) = Inr 0" by (simp add: parse_standing_instant_def iso_of_def)
  show m: "mk_document (sample_document v e) = Inr (sample_document v e)"
    using assms(1) by (simp add: mk_document_def sample_document_def p)
  have "entry_valid standing_crypto e"
    using assms(2) r p
    by (auto simp: entry_valid_def mk_entry_def sample_entry_def sample_withdrawn_def shape_matches_state_def
        guard_r_def bind_r_def instant_if_set_def RETIRED_REASONS_def WITHDRAWN_REASONS_def)
  then show "document_valid standing_crypto (sample_document v e)"
    using m r by (simp add: document_valid_def sample_document_def)
  show "sign_standing_document (sample_document v e) authority_signer = Inr (sample_text (sample_document v e))"
    by (simp add: sample_text_def sign_standing_document_def sample_document_def authority_signer_def Let_def)
  show "check_authority_not_listed standing_crypto (sample_document v e) [''a1''] [''A''] = Inr ()"
    using assms(2)
    by (auto simp: check_authority_not_listed_def sample_document_def guard_r_def sample_entry_def sample_withdrawn_def)
  show "check_distinct_key_bytes standing_crypto (sample_document v e) = Inr ()"
    by (simp add: check_distinct_key_bytes_def sample_document_def)
qed

lemma read_back_sample [simp]: "read_back (sample_document v e) = sample_document v e"
  by (simp add: read_back_def sample_document_def)

lemma first_document:
  "next_document standing_crypto None issuer_role [(''k1'', sample_entry)] 0 authority_signer = Inr (sample_document 1 sample_entry)"
proof -
  have "next_document standing_crypto None issuer_role [(''k1'', sample_entry)] 0 authority_signer
      = bind_r (mk_document (sample_document 1 sample_entry)) (\<lambda>d.
          bind_r (check_successor standing_crypto None d []) (\<lambda>_. Inr d))"
    by (simp add: next_document_def guard_r_def sample_document_def authority_signer_def)
  also have "\<dots> = Inr (sample_document 1 sample_entry)"
    using sample_valid_documents(1,5) [of 1 sample_entry]
    by (simp add: check_successor_def) (simp add: sample_document_def raws_of_def)
  finally show ?thesis .
qed

lemma second_document:
  "next_document standing_crypto (Some (sample_document 1 sample_entry)) issuer_role [(''k1'', sample_withdrawn)] 0 authority_signer
     = Inr (sample_document 2 sample_withdrawn)"
proof -
  let ?p = "sample_document 1 sample_entry"
  have "next_document standing_crypto (Some ?p) issuer_role [(''k1'', sample_withdrawn)] 0 authority_signer
      = bind_r (mk_document (sample_document 2 sample_withdrawn)) (\<lambda>d.
          bind_r (check_successor standing_crypto (Some ?p) d []) (\<lambda>_. Inr d))"
    by (simp add: next_document_def guard_r_def sample_document_def authority_signer_def withdrawn_keys_def sample_entry_def)
  moreover have "check_successor standing_crypto (Some ?p) (sample_document 2 sample_withdrawn) [] = Inr ()"
    using sample_valid_documents(5) [of 2 sample_withdrawn]
    by (simp add: check_successor_def)
      (simp add: sample_document_def raws_of_def guard_r_def sample_withdrawn_def sample_entry_def moves_forward_def)
  ultimately show ?thesis using sample_valid_documents(1) [of 2 sample_withdrawn] by simp
qed

abbreviation empty_source :: StandingSource where
  "empty_source \<equiv> \<lparr>ss_accepted = None, ss_seen_withdrawn = []\<rparr>"

lemma empty_started: "standing_source standing_config = Inr empty_source"
  by (simp add: standing_source_def standing_config_def DAY_def SECOND_def)

lemma config_simps [simp]:
  "sc_role standing_config = issuer_role" "sc_authority standing_config (rs_key_id authority_signer) = Some ''A''"
  "sc_authority_key_ids standing_config = [''a1'']" "sc_authority_public_keys standing_config = [''A'']"
  by (simp_all add: standing_config_def authority_signer_def)

lemma canonical_version:
  assumes "canonical_standing_bytes (sample_document v e) = canonical_standing_bytes (sample_document v' e')"
  shows "v = v'"
proof -
  have w: "wf_json (document_json (sample_document v e))" for v e by (rule document_wf) (simp add: sample_document_def)
  have "sorted_json (document_json (sample_document v e)) = sorted_json (document_json (sample_document v' e'))"
    using assms dumps_eq_iff [OF w w] by (simp add: canonical_standing_bytes_def json_text_def)
  then have "member (sorted_json (document_json (sample_document v e))) ''version''
      = member (sorted_json (document_json (sample_document v' e'))) ''version''" by simp
  then show ?thesis
    unfolding document_json_def by (simp add: member_sorted sample_document_def del: sorted_json.simps) simp
qed

text \<open>The first document is accepted, and the second, which withdraws its key, may follow it.\<close>

lemma first_accepted:
  obtains src where "standing_run standing_crypto standing_config empty_source src"
    "map_option ac_document (ss_accepted src) = Some (sample_document 1 sample_entry)" "ss_seen_withdrawn src = []"
    "map_option ac_digest (ss_accepted src) = Some (cx_sha256 standing_crypto (canonical_standing_bytes (sample_document 1 sample_entry)))"
proof -
  let ?d = "sample_document 1 sample_entry"
  have v: "document_valid standing_crypto ?d" "sign_standing_document ?d authority_signer = Inr (sample_text ?d)"
    "check_authority_not_listed standing_crypto ?d [''a1''] [''A''] = Inr ()"
    using sample_valid_documents [of 1 sample_entry] by simp_all
  have "\<exists>src'. standing_refresh standing_crypto standing_config 0 (Inr (sample_text ?d)) empty_source
      = Inr (\<lparr>sl_verdict = ''accepted'', sl_version = Some (kd_version ?d)\<rparr>, src')
    \<and> map_option ac_document (ss_accepted src') = Some (read_back ?d)
    \<and> map_option ac_digest (ss_accepted src') = Some (cx_sha256 standing_crypto (canonical_standing_bytes ?d))"
    by (rule next_document_accepted [OF standing_reader empty_started standing_run.start, where pub = "''A''" and sgnr = authority_signer
          and keys = "[(''k1'', sample_entry)]" and issued = 0])
      (use v first_document standing_verify in \<open>simp_all add: standing_config_def authority_signer_def\<close>)
  then obtain src where s: "standing_refresh standing_crypto standing_config 0 (Inr (sample_text ?d)) empty_source
      = Inr (\<lparr>sl_verdict = ''accepted'', sl_version = Some (kd_version ?d)\<rparr>, src)"
    "map_option ac_document (ss_accepted src) = Some (read_back ?d)"
    "map_option ac_digest (ss_accepted src) = Some (cx_sha256 standing_crypto (canonical_standing_bytes ?d))" by blast
  have run: "standing_run standing_crypto standing_config empty_source src"
    by (rule standing_run.fetch [OF standing_run.start s(1)])
  have "source_ok standing_crypto src" by (rule standing_run_keeps(1) [OF run empty_source_ok [OF empty_started]])
  moreover obtain a where "ss_accepted src = Some a" "ac_document a = ?d" using s(2) by auto
  ultimately have "map_of (ss_seen_withdrawn src) k = Some e \<longleftrightarrow> map_of [(''k1'', sample_entry)] k = Some e \<and> ke_state e = key_withdrawn"
    for k e by (simp add: source_ok_def sample_document_def)
  moreover have "\<not> (map_of [(''k1'', sample_entry)] k = Some e \<and> ke_state e = key_withdrawn)" for k e
    by (auto simp: sample_entry_def split: if_splits)
  ultimately have "map_of (ss_seen_withdrawn src) k = None" for k by (metis option.exhaust)
  then have "ss_seen_withdrawn src = []" by (metis map_of_eq_None_iff image_is_empty set_empty all_not_in_conv)
  with run s that show ?thesis by simp
qed

lemma second_judged:
  assumes "standing_run standing_crypto standing_config empty_source src"
    and "map_option ac_document (ss_accepted src) = Some (sample_document 1 sample_entry)"
    and "map_option ac_digest (ss_accepted src) = Some (cx_sha256 standing_crypto (canonical_standing_bytes (sample_document 1 sample_entry)))"
  obtains digest a where
    "judge_candidate standing_crypto standing_config src (sample_text (sample_document 2 sample_withdrawn))
       = Inr (Some (sample_document 2 sample_withdrawn, digest))"
    "publish standing_crypto (sample_document 2 sample_withdrawn) digest 0 src = Inr (src\<lparr>ss_accepted := Some a\<rparr>)"
    "ac_document a = sample_document 2 sample_withdrawn" "ac_as_of a = \<lparr>fetched_at = 0, stated_at = Some 0\<rparr>"
proof -
  let ?d = "sample_document 2 sample_withdrawn"
  have v: "document_valid standing_crypto ?d" "sign_standing_document ?d authority_signer = Inr (sample_text ?d)"
    "check_authority_not_listed standing_crypto ?d [''a1''] [''A''] = Inr ()"
    using sample_valid_documents [of 2 sample_withdrawn] by simp_all
  have nxt: "next_document standing_crypto (map_option ac_document (ss_accepted src)) (sc_role standing_config)
      [(''k1'', sample_withdrawn)] 0 authority_signer = Inr ?d"
    using second_document unfolding assms(2) config_simps .
  have fresh: "ac_digest a \<noteq> cx_sha256 standing_crypto (canonical_standing_bytes ?d)" if "ss_accepted src = Some a" for a
    using that assms(3) canonical_version [of 1 sample_entry 2 sample_withdrawn]
    by (auto simp: standing_crypto_def open_crypto_def sample_digest_def)
  note j = next_document_judged [OF standing_reader empty_started assms(1) nxt v(2,1) config_simps(2) standing_verify _ fresh]
  have p: "parse_standing_instant (kd_issuedAt ?d) = Inr 0"
    by (simp add: parse_standing_instant_def iso_of_def sample_document_def)
  show ?thesis using that j(1) j(2) [of 0] v(3) p by auto
qed

theorem half_update_reads_in_standing_witness:
  "\<exists>src mid d digest. standing_run standing_crypto standing_config empty_source src
    \<and> publish standing_crypto d digest 0 src = Inr mid
    \<and> (\<exists>s. standing_of standing_config mid ''k1'' 0 0 = Inr s \<and> ks_verdict s = In_standing)
    \<and> source_key_state mid ''k1'' = Some ''withdrawn''"
proof -
  let ?d = "sample_document 2 sample_withdrawn"
  obtain src where s: "standing_run standing_crypto standing_config empty_source src"
    "map_option ac_document (ss_accepted src) = Some (sample_document 1 sample_entry)" "ss_seen_withdrawn src = []"
    "map_option ac_digest (ss_accepted src) = Some (cx_sha256 standing_crypto (canonical_standing_bytes (sample_document 1 sample_entry)))"
    by (rule first_accepted)
  obtain digest a where j: "judge_candidate standing_crypto standing_config src (sample_text ?d) = Inr (Some (?d, digest))"
    "publish standing_crypto ?d digest 0 src = Inr (src\<lparr>ss_accepted := Some a\<rparr>)"
    "ac_document a = ?d" "ac_as_of a = \<lparr>fetched_at = 0, stated_at = Some 0\<rparr>"
    by (rule second_judged [OF s(1,2,4)])
  have k: "map_of (kd_keys ?d) ''k1'' = Some sample_withdrawn" "ke_state sample_withdrawn = key_withdrawn"
    by (simp_all add: sample_document_def sample_withdrawn_def)
  have u: "source_key_state src ''k1'' \<noteq> Some ''withdrawn''"
    using s(2,3) by (auto simp: source_key_state_def sample_document_def sample_entry_def key_state_str_def)
  have t: "end_judged_at 0 0 = Inr 0" "source_horizon standing_config (src\<lparr>ss_accepted := Some a\<rparr>) = Some DAY" "0 < DAY"
    by (simp_all add: end_judged_at_def require_bound_def dt_add_def ZERO_SKEW_def MAX_SKEW_def MAX_CLOCK_SKEW_SECONDS_def
        SECOND_def DAY_def DATETIME_MIN_def DATETIME_MAX_def source_horizon_def j(4) as_of_def end_of_def standing_config_def)
  from half_update_reads_in_standing [OF empty_started s(1) j(1,2) k u t] s(1) j(2) show ?thesis by blast
qed

theorem withdrawal_is_terminal_witness:
  "\<exists>src s. standing_run standing_crypto standing_config empty_source src
    \<and> standing_of standing_config src ''k1'' 0 0 = Inr s \<and> ks_verdict s = Is_withdrawn"
proof -
  let ?d = "sample_document 2 sample_withdrawn"
  obtain src where s: "standing_run standing_crypto standing_config empty_source src"
    "map_option ac_document (ss_accepted src) = Some (sample_document 1 sample_entry)" "ss_seen_withdrawn src = []"
    "map_option ac_digest (ss_accepted src) = Some (cx_sha256 standing_crypto (canonical_standing_bytes (sample_document 1 sample_entry)))"
    by (rule first_accepted)
  obtain digest a where j: "judge_candidate standing_crypto standing_config src (sample_text ?d) = Inr (Some (?d, digest))"
    "publish standing_crypto ?d digest 0 src = Inr (src\<lparr>ss_accepted := Some a\<rparr>)"
    "ac_document a = ?d" "ac_as_of a = \<lparr>fetched_at = 0, stated_at = Some 0\<rparr>"
    by (rule second_judged [OF s(1,2,4)])
  let ?src = "remember ?d (src\<lparr>ss_accepted := Some a\<rparr>)"
  have run: "standing_run standing_crypto standing_config empty_source ?src"
    by (rule standing_run.fetch [OF s(1), where now = 0 and fetched = "Inr (sample_text ?d)"])
      (simp add: standing_refresh_def j(1,2))
  have w: "source_key_state ?src ''k1'' = Some ''withdrawn''"
    by (simp add: source_key_state_def remember_def s(3) withdrawn_keys_def sample_document_def sample_withdrawn_def)
  from withdrawal_is_terminal [OF empty_started run w standing_run.start] run show ?thesis by blast
qed

theorem ceremony_document_is_accepted_witness:
  "\<exists>src. standing_refresh standing_crypto standing_config 0 (Inr (sample_text (sample_document 1 sample_entry))) empty_source
      = Inr (\<lparr>sl_verdict = ''accepted'', sl_version = Some 1\<rparr>, src)
    \<and> map_option ac_document (ss_accepted src) = Some (sample_document 1 sample_entry)"
proof -
  let ?d = "sample_document 1 sample_entry"
  have v: "document_valid standing_crypto ?d" "sign_standing_document ?d authority_signer = Inr (sample_text ?d)"
    "check_authority_not_listed standing_crypto ?d [''a1''] [''A''] = Inr ()" "kd_version ?d = 1"
    using sample_valid_documents [of 1 sample_entry] by (simp_all add: sample_document_def)
  have "next_document standing_crypto (map_option ac_document (ss_accepted empty_source)) (sc_role standing_config)
      [(''k1'', sample_entry)] 0 authority_signer = Inr ?d" using first_document by simp
  note acc = ceremony_document_is_accepted [OF standing_reader empty_started standing_run.start this v(2,1) config_simps(2)
      standing_verify, of 0]
  from acc v(3,4) show ?thesis by simp blast
qed

end
