(* ===== verification/Grant_Lifecycle.thy ===== *)
theory Grant_Lifecycle
  imports Grant_Store
begin

text \<open>
  The writers of the grant lifecycle: automatic demotion (\<open>grants/demotion.py\<close>), the lapse of a certification
  term (\<open>grants/lapse.py\<close>), the withdrawal of an issuer key (\<open>grants/withdrawal.py\<close>), voluntary tightening and the
  rung state machine (\<open>grants/rung.py\<close>), seeding and re-attestation (\<open>grants/commands.py\<close>), and the durable
  proposals (\<open>grants/proposals.py\<close>). Every writer is a function of the store protocol \<open>GrantStore\<close>; a writer that fails
  returns the exception and leaves the store as it was. An exception is kept as its class, which the callers test, with
  a shortened message.
\<close>

section \<open>Demotion\<close>

abbreviation DemotionConflictError :: "string \<Rightarrow> exn" where
  "DemotionConflictError m \<equiv> Exn ''DemotionConflictError'' m"

abbreviation GrantNotFoundError :: "string \<Rightarrow> exn" where
  "GrantNotFoundError m \<equiv> Exn ''GrantNotFoundError'' m"

definition trigger_str :: "DemotionTrigger \<Rightarrow> string" where
  "trigger_str t =
     (case t of stale_confidence \<Rightarrow> ''stale_confidence'' | corroboration_failure \<Rightarrow> ''corroboration_failure''
      | budget_breach \<Rightarrow> ''budget_breach'' | false_action \<Rightarrow> ''false_action'')"

definition trigger_of :: "string \<Rightarrow> exn + DemotionTrigger" where
  "trigger_of name =
     (case filter (\<lambda>t. trigger_str t = name) [stale_confidence, corroboration_failure, budget_breach, false_action] of
        t # _ \<Rightarrow> Inr t | [] \<Rightarrow> Inl (ValueError name))"

definition trigger_reason :: "DemotionTrigger \<Rightarrow> demotion_reason" where
  "trigger_reason t = (if t = stale_confidence then pending_evidence else failing)"

record DemotionResult =
  should_demote :: bool
  triggered_by :: "string list"
  dem_reason :: string

fun repr_items :: "string list \<Rightarrow> string" where
  "repr_items [] = []"
| "repr_items [n] = [CHR 0x27] @ n @ [CHR 0x27]"
| "repr_items (n # ns) = [CHR 0x27] @ n @ [CHR 0x27] @ '', '' @ repr_items ns"

text \<open>The breach message is the record's evidence; its arrow is written in UTF-8. The message of the other branch is
  shortened: nothing stores or reads it.\<close>

definition breach_message :: "Grant \<Rightarrow> string list \<Rightarrow> string" where
  "breach_message g triggered =
     ''demotion triggered for '' @ agentId (gr_principal g) @ ''/'' @ gr_actionClass g @ '': breached=''
       @ ''['' @ repr_items triggered @ '']; level '' @ [CHR 0x27] @ level_str (gr_level g) @ [CHR 0x27]
       @ [CHR 0x20, CHR 0xE2, CHR 0x86, CHR 0x92, CHR 0x20]
       @ [CHR 0x27] @ level_str (gr_lastSafeLevel g) @ [CHR 0x27]"

definition evaluate_demotion_triggers :: "Grant \<Rightarrow> DemotionTrigger set \<Rightarrow> DemotionResult" where
  "evaluate_demotion_triggers g tripped =
     (let triggered = map trigger_str (filter (\<lambda>t. t \<in> tripped) (gr_demotionTriggers g)) in
      if triggered = [] then \<lparr>should_demote = False, triggered_by = [], dem_reason = ''no active breach''\<rparr>
      else \<lparr>should_demote = True, triggered_by = triggered, dem_reason = breach_message g triggered\<rparr>)"

definition demotion_target_level :: "Grant \<Rightarrow> AutonomyLevel" where
  "demotion_target_level g = gr_lastSafeLevel g"

definition fired_reason :: "string list \<Rightarrow> exn + demotion_reason" where
  "fired_reason names =
     bind_r (collect_r (map (\<lambda>n. bind_r (trigger_of n) (\<lambda>t. Inr (trigger_reason t))) names)) (\<lambda>reasons.
       Inr (if failing \<in> set reasons then failing else pending_evidence))"

text \<open>The lowered grant: the level never rises, and lastSafeLevel becomes the level left behind unless nothing moved or
  that level was out-of-loop.\<close>

definition demoted :: "Grant \<Rightarrow> demotion_reason \<Rightarrow> iso \<Rightarrow> Grant" where
  "demoted g reason ts =
     (let from_level = gr_level g;
          new_level = (if AUTONOMY_RANK from_level \<le> AUTONOMY_RANK (demotion_target_level g) then from_level
                       else demotion_target_level g) in
      g\<lparr>gr_level := new_level,
        gr_lastSafeLevel := (if new_level = from_level \<or> from_level = out_of_loop then gr_lastSafeLevel g else from_level),
        gr_demotionReason := Some reason, gr_ts := ts\<rparr>)"

definition demotion_record :: "Grant \<Rightarrow> DemotionResult \<Rightarrow> demotion_reason \<Rightarrow> iso \<Rightarrow> PromotionRecord" where
  "demotion_record g res reason ts =
     \<lparr>pr_recordType = Demotion, pr_actionClass = gr_actionClass g, pr_principal = gr_principal g,
      pr_fromLevel = Some (gr_level g), pr_toLevel = gr_level (demoted g reason ts), pr_evidence = dem_reason res,
      pr_predicate = None, pr_proposedBy = DEMOTION_RATIFIER, pr_ratifiedBy = DEMOTION_RATIFIER,
      pr_attestation = None, pr_envelopeHash = gr_envelopeHash g, pr_triggeredBy = triggered_by res,
      pr_demotionReason = Some reason, pr_ts = ts, pr_certifiedUntil = None\<rparr>"

text \<open>A conditional write that loses its race is reported as the writer's own conflict.\<close>

definition as_conflict :: "(string \<Rightarrow> exn) \<Rightarrow> exn + 'a \<Rightarrow> exn + 'a" where
  "as_conflict conflict r =
     (case r of Inl e \<Rightarrow> if exn_class e = ''GrantUpdateConflictError'' then Inl (conflict (exn_str e)) else Inl e
      | Inr x \<Rightarrow> Inr x)"

type_synonym signer = "(PromotionRecord \<Rightarrow> json) option"

definition sign_with :: "signer \<Rightarrow> PromotionRecord \<Rightarrow> json option" where
  "sign_with sgnr r = map_option (\<lambda>f. f r) sgnr"

definition apply_demotion ::
  "('p, 's) GrantStore \<Rightarrow> Grant \<Rightarrow> DemotionResult \<Rightarrow> instant \<Rightarrow> ledger_now \<Rightarrow> signer \<Rightarrow> 's
     \<Rightarrow> exn + (Grant \<times> PromotionRecord) \<times> 's" where
  "apply_demotion S g res system_now ts sgnr s =
     bind_r (guard_r (should_demote res) (ValueError ''apply_demotion called with should_demote=False'')) (\<lambda>_.
     bind_r (next_ledger_ts S s (gr_principal g) (gr_actionClass g) system_now ts) (\<lambda>stamp.
     bind_r (get_grant S s (gr_principal g) (gr_actionClass g)) (\<lambda>current.
     bind_r (guard_r (\<not> rr_quarantined current) (QuarantinedGrantError (gr_actionClass g))) (\<lambda>_.
     bind_r (guard_r (rr_grant current \<noteq> None) (GrantNotFoundError (gr_actionClass g))) (\<lambda>_.
     bind_r (guard_r (rr_grant current = Some g) (DemotionConflictError ''modified between evaluate and apply'')) (\<lambda>_.
     bind_r (fired_reason (triggered_by res)) (\<lambda>reason.
     bind_r (mk_record (demotion_record g res reason stamp)) (\<lambda>r.
     bind_r (as_conflict DemotionConflictError
         (write_record_and_grant S r (demoted g reason stamp) (sign_with sgnr r) (Some current) s)) (\<lambda>s'.
       Inr ((demoted g reason stamp, r), s'))))))))))"

section \<open>Lapse\<close>

abbreviation LapseNotDueError :: "string \<Rightarrow> exn" where
  "LapseNotDueError m \<equiv> Exn ''LapseNotDueError'' m"

abbreviation LapseConflictError :: "string \<Rightarrow> exn" where
  "LapseConflictError m \<equiv> Exn ''LapseConflictError'' m"

definition build_lapse :: "Grant \<Rightarrow> instant \<Rightarrow> iso option \<Rightarrow> timedelta \<Rightarrow> exn + Grant \<times> PromotionRecord" where
  "build_lapse g now ts skew =
     bind_r (lapse_pending g now skew) (\<lambda>due.
     bind_r (guard_r due (LapseNotDueError (gr_actionClass g))) (\<lambda>_.
       let stamp = (case ts of None \<Rightarrow> iso_of now | Some t \<Rightarrow> t) in
       bind_r (mk_record
           \<lparr>pr_recordType = Lapse, pr_actionClass = gr_actionClass g, pr_principal = gr_principal g,
            pr_fromLevel = Some (gr_level g), pr_toLevel = gr_lastSafeLevel g,
            pr_evidence = ''certification term expired: certifiedUntil=''
              @ (case gr_certifiedUntil g of None \<Rightarrow> ''None'' | Some u \<Rightarrow> iso_str u),
            pr_predicate = None, pr_proposedBy = DEMOTION_RATIFIER, pr_ratifiedBy = DEMOTION_RATIFIER,
            pr_attestation = None, pr_envelopeHash = gr_envelopeHash g, pr_triggeredBy = [],
            pr_demotionReason = Some pending_evidence, pr_ts = stamp, pr_certifiedUntil = gr_certifiedUntil g\<rparr>) (\<lambda>r.
         Inr (g\<lparr>gr_level := gr_lastSafeLevel g, gr_demotionReason := Some pending_evidence, gr_ts := stamp\<rparr>, r))))"

definition apply_lapse ::
  "('p, 's) GrantStore \<Rightarrow> Grant \<Rightarrow> instant \<Rightarrow> signer \<Rightarrow> timedelta \<Rightarrow> 's \<Rightarrow> exn + (Grant \<times> PromotionRecord) \<times> 's" where
  "apply_lapse S g now sgnr skew s =
     bind_r (next_ledger_ts S s (gr_principal g) (gr_actionClass g) now (AtInstant now)) (\<lambda>ts.
     bind_r (build_lapse g now (Some ts) skew) (\<lambda>(updated, r).
     bind_r (get_grant S s (gr_principal g) (gr_actionClass g)) (\<lambda>current.
     bind_r (guard_r (\<not> rr_quarantined current) (QuarantinedGrantError (gr_actionClass g))) (\<lambda>_.
     bind_r (guard_r (rr_grant current = Some g) (LapseConflictError ''missing or modified'')) (\<lambda>_.
     bind_r (as_conflict LapseConflictError
         (write_record_and_grant S r updated (sign_with sgnr r) (Some current) s)) (\<lambda>s'.
       Inr ((updated, r), s')))))))"

datatype lapse_status =
  Lapse_no_grant | Lapse_quarantined | Lapse_no_term | Lapse_not_due | Lapse_nothing | Lapse_lapsed | Lapse_conflict

record LapseOutcome =
  lo_status :: lapse_status
  lo_updated :: "Grant option"
  lo_record :: "PromotionRecord option"

definition lapse_says :: "lapse_status \<Rightarrow> LapseOutcome" where
  "lapse_says st = \<lparr>lo_status = st, lo_updated = None, lo_record = None\<rparr>"

definition run_lapse ::
  "('p, 's) GrantStore \<Rightarrow> Principal \<Rightarrow> string \<Rightarrow> instant \<Rightarrow> signer \<Rightarrow> timedelta \<Rightarrow> 's \<Rightarrow> exn + LapseOutcome \<times> 's" where
  "run_lapse S p action_class now sgnr skew s =
     bind_r (get_grant S s p action_class) (\<lambda>read.
       if rr_quarantined read then Inr (lapse_says Lapse_quarantined, s)
       else (case rr_grant read of
         None \<Rightarrow> Inr (lapse_says Lapse_no_grant, s)
       | Some g \<Rightarrow>
           if gr_certifiedUntil g = None then Inr (lapse_says Lapse_no_term, s)
           else
             bind_r (term_passed g now skew) (\<lambda>passed.
               if \<not> passed then Inr (lapse_says Lapse_not_due, s)
               else bind_r (lapse_pending g now skew) (\<lambda>pending.
                 if \<not> pending then Inr (lapse_says Lapse_nothing, s)
                 else (case apply_lapse S g now sgnr skew s of
                   Inl e \<Rightarrow>
                     if exn_class e = ''LapseConflictError'' \<or> exn_class e = ''RecordAlreadyExistsError''
                     then Inr (lapse_says Lapse_conflict, s) else Inl e
                 | Inr ((updated, r), s') \<Rightarrow>
                     Inr (\<lparr>lo_status = Lapse_lapsed, lo_updated = Some updated, lo_record = Some r\<rparr>, s'))))))"

section \<open>Withdrawal\<close>

abbreviation WithdrawalNotOwedError :: "string \<Rightarrow> exn" where
  "WithdrawalNotOwedError m \<equiv> Exn ''WithdrawalNotOwedError'' m"

abbreviation WithdrawalConflictError :: "string \<Rightarrow> exn" where
  "WithdrawalConflictError m \<equiv> Exn ''WithdrawalConflictError'' m"

definition withdrawal_evidence :: "string \<Rightarrow> string \<Rightarrow> string \<Rightarrow> string" where
  "withdrawal_evidence key_id withdrawn_reason withdrawn_at =
     ''issuer key withdrawn: '' @ key_id @ '' ('' @ withdrawn_reason @ '', withdrawn at '' @ withdrawn_at @ '')''"

definition build_withdrawal :: "Grant \<Rightarrow> string \<Rightarrow> iso \<Rightarrow> exn + Grant \<times> PromotionRecord" where
  "build_withdrawal g evidence_text ts =
     bind_r (guard_r (\<not> AUTONOMY_RANK (gr_level g) \<le> AUTONOMY_RANK (gr_lastSafeLevel g))
         (WithdrawalNotOwedError (gr_actionClass g))) (\<lambda>_.
     bind_r (mk_record
         \<lparr>pr_recordType = Withdrawal, pr_actionClass = gr_actionClass g, pr_principal = gr_principal g,
          pr_fromLevel = Some (gr_level g), pr_toLevel = gr_lastSafeLevel g, pr_evidence = evidence_text,
          pr_predicate = None, pr_proposedBy = DEMOTION_RATIFIER, pr_ratifiedBy = DEMOTION_RATIFIER,
          pr_attestation = None, pr_envelopeHash = gr_envelopeHash g, pr_triggeredBy = [],
          pr_demotionReason = Some pending_evidence, pr_ts = ts, pr_certifiedUntil = None\<rparr>) (\<lambda>r.
       Inr (g\<lparr>gr_level := gr_lastSafeLevel g, gr_demotionReason := Some pending_evidence, gr_ts := ts\<rparr>, r)))"

definition apply_withdrawal ::
  "('p, 's) GrantStore \<Rightarrow> Grant \<Rightarrow> string \<Rightarrow> instant \<Rightarrow> signer \<Rightarrow> 's \<Rightarrow> exn + (Grant \<times> PromotionRecord) \<times> 's" where
  "apply_withdrawal S g evidence_text now sgnr s =
     bind_r (next_ledger_ts S s (gr_principal g) (gr_actionClass g) now (AtInstant now)) (\<lambda>ts.
     bind_r (build_withdrawal g evidence_text ts) (\<lambda>(updated, r).
     bind_r (get_grant S s (gr_principal g) (gr_actionClass g)) (\<lambda>current.
     bind_r (guard_r (\<not> rr_quarantined current) (QuarantinedGrantError (gr_actionClass g))) (\<lambda>_.
     bind_r (guard_r (rr_grant current = Some g) (WithdrawalConflictError ''missing or modified'')) (\<lambda>_.
     bind_r (as_conflict WithdrawalConflictError
         (write_record_and_grant S r updated (sign_with sgnr r) (Some current) s)) (\<lambda>s'.
       Inr ((updated, r), s')))))))"

section \<open>The rung state machine: demotion and tightening\<close>

definition rung_demote ::
  "('p, 's) GrantStore \<Rightarrow> Grant \<Rightarrow> DemotionTrigger set \<Rightarrow> instant \<Rightarrow> ledger_now \<Rightarrow> 's
     \<Rightarrow> exn + (Grant \<times> PromotionRecord) \<times> 's" where
  "rung_demote S g tripped system_now ts s =
     (let res = evaluate_demotion_triggers g tripped in
      bind_r (guard_r (should_demote res) (TransitionError ''no configured trigger is currently breached'')) (\<lambda>_.
      bind_r (guard_r (gr_lastSafeLevel g \<noteq> out_of_loop) (TransitionError ''lastSafeLevel is out-of-loop'')) (\<lambda>_.
        let target = (if AUTONOMY_RANK (gr_lastSafeLevel g) > AUTONOMY_RANK (gr_level g) then gr_level g
                      else gr_lastSafeLevel g) in
        bind_r (validate_demotion_transition (gr_level g) target) (\<lambda>_.
          apply_demotion S g res system_now ts None s))))"

definition tightening_record :: "Grant \<Rightarrow> string \<Rightarrow> string \<Rightarrow> iso \<Rightarrow> PromotionRecord" where
  "tightening_record g requested_by evidence_text ts =
     \<lparr>pr_recordType = Tightening, pr_actionClass = gr_actionClass g, pr_principal = gr_principal g,
      pr_fromLevel = Some (gr_level g), pr_toLevel = in_loop, pr_evidence = evidence_text,
      pr_predicate = None, pr_proposedBy = requested_by, pr_ratifiedBy = requested_by,
      pr_attestation = attestation_for requested_by, pr_envelopeHash = gr_envelopeHash g,
      pr_triggeredBy = [], pr_demotionReason = None, pr_ts = ts, pr_certifiedUntil = None\<rparr>"

definition tighten_to_in_loop ::
  "('p, 's) GrantStore \<Rightarrow> Grant \<Rightarrow> string \<Rightarrow> instant \<Rightarrow> ledger_now \<Rightarrow> string \<Rightarrow> signer \<Rightarrow> 's
     \<Rightarrow> exn + (Grant \<times> PromotionRecord) \<times> 's" where
  "tighten_to_in_loop S g requested_by system_now ts evidence_text sgnr s =
     bind_r (guard_r (gr_level g \<noteq> in_loop) (TransitionError ''already at in-loop'')) (\<lambda>_.
     bind_r (guard_r (requested_by \<noteq> []) (TransitionError ''requested_by is required'')) (\<lambda>_.
     bind_r (get_grant S s (gr_principal g) (gr_actionClass g)) (\<lambda>current.
     bind_r (guard_r (\<not> rr_quarantined current) (QuarantinedGrantError (gr_actionClass g))) (\<lambda>_.
     bind_r (guard_r (rr_grant current \<noteq> None) (GrantNotFoundError (gr_actionClass g))) (\<lambda>_.
     bind_r (guard_r (rr_grant current = Some g) (GrantUpdateConflictError ''modified since it was read'')) (\<lambda>_.
     bind_r (next_ledger_ts S s (gr_principal g) (gr_actionClass g) system_now ts) (\<lambda>stamp.
       let updated = g\<lparr>gr_level := in_loop, gr_lastSafeLevel := in_loop, gr_ts := stamp\<rparr> in
       bind_r (mk_record (tightening_record g requested_by evidence_text stamp)) (\<lambda>r.
       bind_r (write_record_and_grant S r updated (sign_with sgnr r) (Some current) s) (\<lambda>s'.
         Inr ((updated, r), s'))))))))))"

section \<open>Seeding and re-attestation\<close>

definition bootstrap_record :: "Grant \<Rightarrow> string \<Rightarrow> iso \<Rightarrow> PromotionRecord" where
  "bootstrap_record g caller ts =
     \<lparr>pr_recordType = Bootstrap, pr_actionClass = gr_actionClass g, pr_principal = gr_principal g,
      pr_fromLevel = None, pr_toLevel = gr_level g, pr_evidence = gr_evidence g,
      pr_predicate = None, pr_proposedBy = caller, pr_ratifiedBy = caller,
      pr_attestation = attestation_for caller, pr_envelopeHash = gr_envelopeHash g,
      pr_triggeredBy = [], pr_demotionReason = None, pr_ts = ts, pr_certifiedUntil = None\<rparr>"

text \<open>One grant of a seed run, up to its readback.\<close>

definition seed_grant ::
  "('p, 's) GrantStore \<Rightarrow> Grant \<Rightarrow> string \<Rightarrow> signer \<Rightarrow> instant \<Rightarrow> 's \<Rightarrow> exn + (Grant \<times> PromotionRecord) \<times> 's" where
  "seed_grant S template caller sgnr wall s =
     bind_r (next_ledger_ts S s (gr_principal template) (gr_actionClass template) wall (AtInstant wall)) (\<lambda>ts.
       let g = template\<lparr>gr_promotedBy := caller, gr_ts := ts\<rparr> in
       bind_r (mk_record (bootstrap_record g caller ts)) (\<lambda>r.
       bind_r (write_record_and_grant S r g (sign_with sgnr r) None s) (\<lambda>s'.
         Inr ((g, r), s'))))"

text \<open>The loop over the floor grants: an existing grant is skipped, a colliding record and a failed readback count as
  failures, and any other error ends the run.\<close>

fun seed_loop ::
  "('p, 's) GrantStore \<Rightarrow> string \<Rightarrow> signer \<Rightarrow> instant \<Rightarrow> Grant list \<Rightarrow> nat \<times> nat \<times> nat \<Rightarrow> 's
     \<Rightarrow> exn + (nat \<times> nat \<times> nat) \<times> 's" where
  "seed_loop S caller sgnr wall [] counts s = Inr (counts, s)"
| "seed_loop S caller sgnr wall (t # ts) (created, skipped, failures) s =
     (case seed_grant S t caller sgnr wall s of
        Inl e \<Rightarrow>
          if exn_class e = ''GrantAlreadyExistsError'' then seed_loop S caller sgnr wall ts (created, skipped + 1, failures) s
          else if exn_class e = ''RecordAlreadyExistsError''
          then seed_loop S caller sgnr wall ts (created, skipped, failures + 1) s
          else Inl e
      | Inr ((g, _), s') \<Rightarrow>
          bind_r (get_grant S s' (gr_principal g) (gr_actionClass g)) (\<lambda>readback.
            if rr_grant readback \<noteq> None \<and> \<not> rr_quarantined readback
            then seed_loop S caller sgnr wall ts (created + 1, skipped, failures) s'
            else seed_loop S caller sgnr wall ts (created, skipped, failures + 1) s'))"

definition seed_command ::
  "('p, 's) GrantStore \<Rightarrow> string \<Rightarrow> signer \<Rightarrow> instant \<Rightarrow> Grant list \<Rightarrow> 's \<Rightarrow> exn + int \<times> 's" where
  "seed_command S caller sgnr wall grants s =
     bind_r (seed_loop S caller sgnr wall grants (0, 0, 0) s) (\<lambda>((_, _, failures), s').
       Inr (if failures > 0 then 1 else 0, s'))"

definition build_reattestation :: "Grant \<Rightarrow> string \<Rightarrow> string \<Rightarrow> iso \<Rightarrow> exn + Grant \<times> PromotionRecord" where
  "build_reattestation g caller envelope_hash ts =
     bind_r (mk_record
         \<lparr>pr_recordType = Reattestation, pr_actionClass = gr_actionClass g, pr_principal = gr_principal g,
          pr_fromLevel = Some (gr_level g), pr_toLevel = gr_level g,
          pr_evidence = ''envelope re-attestation (was '' @ gr_envelopeHash g @ '')'',
          pr_predicate = None, pr_proposedBy = caller, pr_ratifiedBy = caller,
          pr_attestation = attestation_for caller, pr_envelopeHash = envelope_hash,
          pr_triggeredBy = [], pr_demotionReason = None, pr_ts = ts, pr_certifiedUntil = None\<rparr>) (\<lambda>r.
       Inr (g\<lparr>gr_envelopeHash := envelope_hash, gr_promotedBy := caller, gr_ts := ts\<rparr>, r))"

text \<open>An injected standing check: whether the issuer key behind a grant's level has standing, and why not.\<close>

type_synonym standing_check = "(Grant \<Rightarrow> instant \<Rightarrow> bool \<times> string) option"

definition ceremony_standing_refusal :: "standing_check \<Rightarrow> Grant \<Rightarrow> instant \<Rightarrow> string option" where
  "ceremony_standing_refusal check g now =
     (case check of None \<Rightarrow> None
      | Some assess \<Rightarrow>
          if AUTONOMY_RANK (gr_level g) \<le> AUTONOMY_RANK (gr_lastSafeLevel g) then None
          else (case assess g now of (is_held, why) \<Rightarrow> if is_held then None else Some why))"

definition reattest_grant ::
  "('p, 's) GrantStore \<Rightarrow> 'p GrantReadResult \<Rightarrow> Principal \<Rightarrow> string \<Rightarrow> Grant \<Rightarrow> string \<Rightarrow> string
     \<Rightarrow> (PromotionRecord \<Rightarrow> json) \<Rightarrow> instant \<Rightarrow> 's \<Rightarrow> exn + (Grant \<times> PromotionRecord) \<times> 's" where
  "reattest_grant S read p action_class g caller envelope_hash sign wall s =
     bind_r (next_ledger_ts S s p action_class wall (AtInstant wall)) (\<lambda>ts.
     bind_r (build_reattestation g caller envelope_hash ts) (\<lambda>(updated, r).
     bind_r (write_record_and_grant S r updated (Some (sign r)) (Some read) s) (\<lambda>s'.
       Inr ((updated, r), s'))))"

definition REATTESTATION_FAILURES :: "string list" where
  "REATTESTATION_FAILURES =
     [''GrantUpdateConflictError'', ''RecordAlreadyExistsError'', ''ReattestationRefusedError'',
      ''TermExtensionRefusedError'']"

fun reseed_loop ::
  "('p, 's) GrantStore \<Rightarrow> Principal \<Rightarrow> string \<Rightarrow> string \<Rightarrow> (PromotionRecord \<Rightarrow> json) \<Rightarrow> instant \<Rightarrow> standing_check
     \<Rightarrow> string list \<Rightarrow> nat \<times> nat \<times> nat \<Rightarrow> 's \<Rightarrow> exn + (nat \<times> nat \<times> nat) \<times> 's" where
  "reseed_loop S p caller h sign wall check [] counts s = Inr (counts, s)"
| "reseed_loop S p caller h sign wall check (c # cs) (reattested, skipped, failures) s =
     bind_r (get_grant S s p c) (\<lambda>read.
       if rr_quarantined read then reseed_loop S p caller h sign wall check cs (reattested, skipped, failures + 1) s
       else (case rr_grant read of
         None \<Rightarrow> reseed_loop S p caller h sign wall check cs (reattested, skipped, failures + 1) s
       | Some g \<Rightarrow>
           if gr_envelopeHash g = h then reseed_loop S p caller h sign wall check cs (reattested, skipped + 1, failures) s
           else if ceremony_standing_refusal check g wall \<noteq> None
           then reseed_loop S p caller h sign wall check cs (reattested, skipped, failures + 1) s
           else (case reattest_grant S read p c g caller h sign wall s of
             Inl e \<Rightarrow>
               if exn_class e \<in> set REATTESTATION_FAILURES
               then reseed_loop S p caller h sign wall check cs (reattested, skipped, failures + 1) s
               else Inl e
           | Inr (_, s') \<Rightarrow> reseed_loop S p caller h sign wall check cs (reattested + 1, skipped, failures) s')))"

definition reseed_command ::
  "('p, 's) GrantStore \<Rightarrow> Principal \<Rightarrow> string list \<Rightarrow> string \<Rightarrow> string \<Rightarrow> signer \<Rightarrow> instant \<Rightarrow> standing_check \<Rightarrow> 's
     \<Rightarrow> exn + int \<times> 's" where
  "reseed_command S p granted_classes envelope_hash caller sgnr wall check s =
     (case sgnr of
        None \<Rightarrow> Inr (1, s)
      | Some sign \<Rightarrow>
          bind_r (reseed_loop S p caller envelope_hash sign wall check granted_classes (0, 0, 0) s)
            (\<lambda>((_, _, failures), s'). Inr (if failures > 0 then 1 else 0, s')))"

section \<open>Proposals\<close>

record PromotionProposal =
  pp_proposal_id :: string
  pp_expires_at :: iso
  pp_principal :: Principal
  pp_action_class :: string
  pp_from_level :: "AutonomyLevel option"
  pp_target_level :: AutonomyLevel
  pp_evidence_bundle :: string
  pp_proposer_id :: string
  pp_owner_id :: string
  pp_envelope_hash :: string
  pp_label_latency :: string
  pp_demotion_triggers :: "DemotionTrigger list"
  pp_last_safe_level :: AutonomyLevel
  pp_metrics :: ActionClassMetrics
  pp_window_n :: int
  pp_min_observations :: int
  pp_threshold :: rat
  pp_artifact :: "ConfidenceArtifact option"
  pp_covered :: bool
  pp_provenance_maturity :: string
  pp_blast_class :: string
  pp_error_budget :: "ErrorBudget option"
  pp_window_periods :: int
  pp_period :: string
  pp_certified_until :: "iso option"

text \<open>The maker's half: the arguments are the proposal's fields, checked before it is built.\<close>

definition propose_promotion :: "delta_parser \<Rightarrow> PromotionProposal \<Rightarrow> exn + PromotionProposal" where
  "propose_promotion parse_iso p =
     bind_r (validate_label_latency parse_iso (pp_label_latency p)) (\<lambda>_.
     bind_r (case pp_certified_until p of None \<Rightarrow> Inr () | Some u \<Rightarrow> bind_r (parse_certified_until u) (\<lambda>_. Inr ())) (\<lambda>_.
     bind_r (guard_r (pp_owner_id p \<noteq> []) (ValueError ''owner_id is required'')) (\<lambda>_.
     bind_r (guard_r (pp_proposal_id p \<noteq> [] \<and> iso_str (pp_expires_at p) \<noteq> [])
        (ValueError ''proposal_id and expires_at are both required'')) (\<lambda>_.
       case one_rung_violation (pp_from_level p) (pp_target_level p) of
         Some v \<Rightarrow> Inl (ValueError v) | None \<Rightarrow> Inr p))))"

definition proposal_expired :: "iso \<Rightarrow> instant \<Rightarrow> timedelta \<Rightarrow> exn + bool" where
  "proposal_expired expires_at now skew =
     (case iso_read expires_at of
        None \<Rightarrow> Inr True
      | Some (t, _) \<Rightarrow> bind_r (end_judged_at now skew) (\<lambda>judged. Inr (t \<le> judged)))"

abbreviation ProposalConsumedError :: "string \<Rightarrow> exn" where
  "ProposalConsumedError m \<equiv> Exn ''ProposalConsumedError'' m"

abbreviation ProposalAlreadyExistsError :: "string \<Rightarrow> exn" where
  "ProposalAlreadyExistsError m \<equiv> Exn ''ProposalAlreadyExistsError'' m"

abbreviation ProposalIntegrityError :: "string \<Rightarrow> exn" where
  "ProposalIntegrityError m \<equiv> Exn ''ProposalIntegrityError'' m"

text \<open>The canonical proposal JSON, its reading and the HMAC are arguments; the status is item-level and outside the
  HMAC.\<close>

record 'd proposal_codec =
  proposal_to_json :: "PromotionProposal \<Rightarrow> 'd"
  proposal_from_json :: "'d \<Rightarrow> exn + PromotionProposal"
  compute_proposal_hash :: "'d \<Rightarrow> string"

record 'd proposal_item =
  pi_data :: 'd
  pi_hash :: "string option"
  pi_status :: string
  pi_expires_at :: string

type_synonym 'd InMemoryProposalStore = "(string \<times> string, 'd proposal_item) dict"

definition proposal_pk :: "Principal \<Rightarrow> string \<Rightarrow> string" where
  "proposal_pk p action_class = ''PROPOSAL#'' @ principal_key p @ ''#'' @ action_class"

definition verify_proposal_item :: "'d proposal_codec \<Rightarrow> 'd proposal_item \<Rightarrow> exn + unit" where
  "verify_proposal_item D it =
     guard_r (pi_hash it = Some (compute_proposal_hash D (pi_data it))) (ProposalIntegrityError ''hash mismatch'')"

definition pmem_put_proposal ::
  "'d proposal_codec \<Rightarrow> PromotionProposal \<Rightarrow> 'd InMemoryProposalStore \<Rightarrow> exn + 'd InMemoryProposalStore" where
  "pmem_put_proposal D p q =
     (let key = (proposal_pk (pp_principal p) (pp_action_class p), pp_proposal_id p) in
      if map_of q key \<noteq> None then Inl (ProposalAlreadyExistsError (pp_proposal_id p))
      else
        let dat = proposal_to_json D p in
        Inr (AList.update key
          \<lparr>pi_data = dat, pi_hash = Some (compute_proposal_hash D dat), pi_status = ''pending'',
           pi_expires_at = iso_str (pp_expires_at p)\<rparr> q))"

definition pmem_get_proposal ::
  "'d proposal_codec \<Rightarrow> 'd InMemoryProposalStore \<Rightarrow> Principal \<Rightarrow> string \<Rightarrow> string
     \<Rightarrow> exn + (PromotionProposal \<times> string) option" where
  "pmem_get_proposal D q prin action_class pid =
     (case map_of q (proposal_pk prin action_class, pid) of
        None \<Rightarrow> Inr None
      | Some it \<Rightarrow>
          bind_r (verify_proposal_item D it) (\<lambda>_.
          bind_r (proposal_from_json D (pi_data it)) (\<lambda>p. Inr (Some (p, pi_status it)))))"

definition check_new_status :: "string \<Rightarrow> exn + unit" where
  "check_new_status st = guard_r (st \<in> {''ratified'', ''rejected''}) (ValueError st)"

definition pmem_consume_proposal ::
  "Principal \<Rightarrow> string \<Rightarrow> string \<Rightarrow> string \<Rightarrow> 'd InMemoryProposalStore \<Rightarrow> exn + 'd InMemoryProposalStore" where
  "pmem_consume_proposal prin action_class pid new_status q =
     bind_r (check_new_status new_status) (\<lambda>_.
       case map_of q (proposal_pk prin action_class, pid) of
         None \<Rightarrow> Inl (ProposalConsumedError pid)
       | Some it \<Rightarrow>
           if pi_status it \<noteq> ''pending'' then Inl (ProposalConsumedError pid)
           else Inr (AList.update (proposal_pk prin action_class, pid) (it\<lparr>pi_status := new_status\<rparr>) q))"

definition pmem_list_pending ::
  "'d proposal_codec \<Rightarrow> 'd InMemoryProposalStore \<Rightarrow> Principal \<Rightarrow> string \<Rightarrow> exn + PromotionProposal list" where
  "pmem_list_pending D q prin action_class =
     collect_r (map (\<lambda>(_, it). bind_r (verify_proposal_item D it) (\<lambda>_. proposal_from_json D (pi_data it)))
       (filter (\<lambda>((pk, _), it). pk = proposal_pk prin action_class \<and> pi_status it = ''pending'') q))"

definition reject_proposal ::
  "Principal \<Rightarrow> string \<Rightarrow> string \<Rightarrow> 'd InMemoryProposalStore \<Rightarrow> exn + 'd InMemoryProposalStore" where
  "reject_proposal prin action_class pid q = pmem_consume_proposal prin action_class pid ''rejected'' q"

end
