(* ===== verification/Grant_Standing.thy ===== *)
theory Grant_Standing
  imports Key_Standing Grant_Lifecycle
begin

text \<open>
  The issuer standing behind a grant (\<open>broker/grants/grant_standing.py\<close>) and the withdrawal runner
  (\<open>run_withdrawal\<close> of \<open>broker/grants/withdrawal.py\<close>).

  A coordinate's stored records are a list in sort-key order; an entry of it is named by its position, which stands for
  the identity of the entry object. The check a broker process holds is a record of its standing source, the instant of
  the next lazy fetch and the cache of resolved keys; the fetch of a document, the reading of the source's clock and
  whether another caller holds the refresh lock are arguments of the call that may fetch. Where Python raises inside
  \<open>assess\<close> the model has the error value that \<open>assess\<close> turns into a fall.
\<close>

section \<open>The record a level rests on\<close>

definition RECORD_SIGNING_EPOCH_ENV :: string where "RECORD_SIGNING_EPOCH_ENV = ''RECORD_SIGNING_EPOCH''"

definition EARNING_RECORD_TYPES :: "record_type list" where "EARNING_RECORD_TYPES = [Bootstrap, Promotion]"

definition recorded_instant :: "iso \<Rightarrow> instant option" where
  "recorded_instant v = map_option fst (iso_read v)"

fun licensing_scan :: "instant \<Rightarrow> nat \<Rightarrow> bool \<Rightarrow> nat option \<Rightarrow> 'p StoredRecord list \<Rightarrow> nat option" where
  "licensing_scan grant_instant i earned found [] = found"
| "licensing_scan grant_instant i earned found (e # es) =
     (case recorded_instant (pr_ts (sr_record e)) of
        None \<Rightarrow> licensing_scan grant_instant (Suc i) earned found es
      | Some t \<Rightarrow>
          if grant_instant < t then licensing_scan grant_instant (Suc i) earned found es
          else if pr_recordType (sr_record e) \<in> set EARNING_RECORD_TYPES
          then licensing_scan grant_instant (Suc i) True (Some i) es
          else if pr_recordType (sr_record e) = Reattestation \<and> earned
          then licensing_scan grant_instant (Suc i) earned (Some i) es
          else licensing_scan grant_instant (Suc i) earned found es)"

definition licensing_record :: "'p StoredRecord list \<Rightarrow> instant \<Rightarrow> nat option" where
  "licensing_record stored grant_instant = licensing_scan grant_instant 0 False None stored"

definition before_epoch :: "instant \<Rightarrow> instant option \<Rightarrow> timedelta \<Rightarrow> exn + bool" where
  "before_epoch t epoch skew =
     (case epoch of None \<Rightarrow> Inr True
      | Some e \<Rightarrow> bind_r (end_judged_at t skew) (\<lambda>judged. Inr (judged < e)))"

definition follows_a_signed_record :: "'p StoredRecord list \<Rightarrow> nat \<Rightarrow> bool" where
  "follows_a_signed_record stored i = list_ex (\<lambda>e. sr_signature e \<noteq> None) (take i stored)"

datatype licensing_kind = Licensed_by_key | Licensed_before_epoch | Licensing_unverified

record LicensingKey =
  lk_kind :: licensing_kind
  lk_key_id :: "string option"
  lk_record :: "(record_type \<times> iso) option"
  lk_detail :: string

definition unverified :: "(record_type \<times> iso) option \<Rightarrow> string \<Rightarrow> LicensingKey" where
  "unverified place why = \<lparr>lk_kind = Licensing_unverified, lk_key_id = None, lk_record = place, lk_detail = why\<rparr>"

definition history :: "(record_type \<times> iso) option \<Rightarrow> string \<Rightarrow> LicensingKey" where
  "history place why = \<lparr>lk_kind = Licensed_before_epoch, lk_key_id = None, lk_record = place, lk_detail = why\<rparr>"

definition licensed_by :: "(record_type \<times> iso) option \<Rightarrow> string \<Rightarrow> LicensingKey" where
  "licensed_by place k = \<lparr>lk_kind = Licensed_by_key, lk_key_id = Some k, lk_record = place, lk_detail = []\<rparr>"

definition opt_text :: "string option \<Rightarrow> string" where
  "opt_text x = (case x of None \<Rightarrow> ''None'' | Some t \<Rightarrow> t)"

definition licensed_text :: "PromotionRecord \<Rightarrow> string" where
  "licensed_text r =
     ''the '' @ record_type_str (pr_recordType r) @ '' record at ts='' @ iso_str (pr_ts r) @ '' that licensed the grant''"

text \<open>The entry that licenses the grant, judged: unsigned history, a verified key, or neither.\<close>

definition judge_entry ::
  "crypto \<Rightarrow> string StoredRecord list \<Rightarrow> nat \<Rightarrow> RoleKeyResolvers \<Rightarrow> instant option \<Rightarrow> timedelta \<Rightarrow> exn + LicensingKey" where
  "judge_entry K stored i R epoch skew =
     (let e = stored ! i; r = sr_record e; place = Some (pr_recordType r, pr_ts r) in
      case sr_signature e of
        None \<Rightarrow>
          if follows_a_signed_record stored i then Inr (unverified place (licensed_text r @ '' is unsigned and comes after a signed record at its coordinate, so it is not history''))
          else
            bind_r (case recorded_instant (pr_ts r) of None \<Rightarrow> Inr False | Some t \<Rightarrow> before_epoch t epoch skew) (\<lambda>old.
              Inr (if old then history place (''the licensing '' @ record_type_str (pr_recordType r) @ '' record is unsigned history'')
                   else unverified place (licensed_text r @ '' is unsigned and not before the record-signing epoch'')))
      | Some sig \<Rightarrow>
          bind_r (if is_obj sig
                  then bind_r (verify_record_by_type K (sr_data e) sig (record_type_str (pr_recordType r)) R)
                         (\<lambda>res. Inr (rv_reason res, rv_key_id res))
                  else Inr (Some ''record_signature_malformed'', None)) (\<lambda>(why, key_id).
            Inr (case key_id of
                   Some k \<Rightarrow> licensed_by place k
                 | None \<Rightarrow> unverified place (licensed_text r @ '' failed signature verification ('' @ opt_text why @ '')''))))"

definition resolve_licensing_key ::
  "crypto \<Rightarrow> string StoredRecord list \<Rightarrow> Grant \<Rightarrow> RoleKeyResolvers \<Rightarrow> instant option \<Rightarrow> timedelta \<Rightarrow> exn + LicensingKey" where
  "resolve_licensing_key K stored g R epoch skew =
     (case recorded_instant (gr_ts g) of
        None \<Rightarrow> Inr (unverified None (''the grant's ts '' @ py_repr (iso_str (gr_ts g)) @ '' is not an instant''))
      | Some grant_instant \<Rightarrow>
        (case licensing_record stored grant_instant of
           None \<Rightarrow>
             bind_r (before_epoch grant_instant epoch skew) (\<lambda>old.
               Inr (if old then history None ''no record licenses the grant, and its ts is before the record-signing epoch''
                    else unverified None ''no bootstrap, promotion or reattestation record licenses the grant''))
         | Some i \<Rightarrow> judge_entry K stored i R epoch skew))"

section \<open>The check a broker process holds\<close>

text \<open>\<open>RoleKeyResolvers\<close> over the issuer source, as the check and the runner build it.\<close>

definition issuer_resolvers :: "StandingSource \<Rightarrow> RoleKeyResolvers" where
  "issuer_resolvers src =
     \<lparr>rk_issuer = Some (source_key_resolver src), rk_evaluator = None,
      rk_standing = (\<lambda>role. if role = issuer_role then Some (source_key_state src) else None)\<rparr>"

record CheckConfig =
  gc_source :: StandingConfig
  gc_epoch :: "instant option"
  gc_skew :: timedelta
  gc_refresh_every :: timedelta

record GrantStandingCheck =
  gs_source :: StandingSource
  gs_next_refresh :: "instant option"
  gs_cache :: "(Principal \<times> string, iso \<times> int option \<times> LicensingKey) dict"

definition quarter :: "timedelta \<Rightarrow> timedelta" where
  "quarter d = round_half_even (of_int d / 4)"

definition grant_standing_check ::
  "StandingConfig \<Rightarrow> StandingSource \<Rightarrow> instant option \<Rightarrow> timedelta \<Rightarrow> timedelta option
     \<Rightarrow> exn + CheckConfig \<times> GrantStandingCheck" where
  "grant_standing_check cfg src epoch skew every =
     (if sc_role cfg \<noteq> issuer_role
      then Inl (ValueError ''the enforcer checks the issuer's standing only'')
      else Inr
        (\<lparr>gc_source = cfg, gc_epoch = epoch, gc_skew = skew,
          gc_refresh_every = (case every of Some d \<Rightarrow> if d \<noteq> 0 then d else quarter (sc_max_age cfg)
                              | None \<Rightarrow> quarter (sc_max_age cfg))\<rparr>,
         \<lparr>gs_source = src, gs_next_refresh = None, gs_cache = []\<rparr>))"

text \<open>What the world answers to a call that fetches: the clock of the source, the text or the failure of the fetch, and
  whether another caller holds the refresh lock.\<close>

record fetch_world =
  fw_clock :: instant
  fw_fetched :: "exn + string"
  fw_busy :: bool

definition refresh_locked ::
  "crypto \<Rightarrow> CheckConfig \<Rightarrow> fetch_world \<Rightarrow> instant \<Rightarrow> GrantStandingCheck \<Rightarrow> (exn + StandingLoad) \<times> GrantStandingCheck" where
  "refresh_locked K c w now st =
     (case standing_refresh K (gc_source c) (fw_clock w) (fw_fetched w) (gs_source st) of
        Inl e \<Rightarrow> (Inl e, st)
      | Inr (load, src) \<Rightarrow>
          (case dt_add now (gc_refresh_every c) of
             Inl e \<Rightarrow> (Inl e, st\<lparr>gs_source := src\<rparr>)
           | Inr t \<Rightarrow> (Inr load, st\<lparr>gs_source := src, gs_next_refresh := Some t\<rparr>)))"

text \<open>The eager fetch, which waits for the refresh lock.\<close>

definition check_refresh ::
  "crypto \<Rightarrow> CheckConfig \<Rightarrow> fetch_world \<Rightarrow> instant \<Rightarrow> GrantStandingCheck \<Rightarrow> (exn + StandingLoad) \<times> GrantStandingCheck" where
  "check_refresh K c w now st = refresh_locked K c w now st"

definition maybe_refresh ::
  "crypto \<Rightarrow> CheckConfig \<Rightarrow> fetch_world \<Rightarrow> instant \<Rightarrow> GrantStandingCheck \<Rightarrow> (exn + unit) \<times> GrantStandingCheck" where
  "maybe_refresh K c w now st =
     (if (case gs_next_refresh st of None \<Rightarrow> False | Some due \<Rightarrow> now < due) then (Inr (), st)
      else if fw_busy w then (Inr (), st)
      else (case refresh_locked K c w now st of (Inl e, st') \<Rightarrow> (Inl e, st') | (Inr _, st') \<Rightarrow> (Inr (), st')))"

definition document_version :: "GrantStandingCheck \<Rightarrow> int" where
  "document_version st = (case held_version (gs_source st) of None \<Rightarrow> 0 | Some v \<Rightarrow> v)"

definition coordinate :: "Grant \<Rightarrow> Principal \<times> string" where
  "coordinate g = (gr_principal g, gr_actionClass g)"

type_synonym record_reader = "Principal \<Rightarrow> string \<Rightarrow> exn + string StoredRecord list"

definition licensing_key ::
  "crypto \<Rightarrow> CheckConfig \<Rightarrow> record_reader \<Rightarrow> Grant \<Rightarrow> GrantStandingCheck \<Rightarrow> exn + LicensingKey \<times> GrantStandingCheck" where
  "licensing_key K c records g st =
     (let version = document_version st;
          cached = (case map_of (gs_cache st) (coordinate g) of
             Some (ts, v, key) \<Rightarrow> if ts = gr_ts g \<and> (v = None \<or> v = Some version) then Some key else None
           | None \<Rightarrow> None) in
      case cached of
        Some key \<Rightarrow> Inr (key, st)
      | None \<Rightarrow>
        (case records (gr_principal g) (gr_actionClass g) of
           Inl e \<Rightarrow> Inr (unverified None (''the ledger could not be read ('' @ exn_class e @ '')''), st)
         | Inr stored \<Rightarrow>
             bind_r (resolve_licensing_key K stored g (issuer_resolvers (gs_source st)) (gc_epoch c) (gc_skew c)) (\<lambda>key.
               let stable = lk_kind key \<in> {Licensed_by_key, Licensed_before_epoch} in
               Inr (key, st\<lparr>gs_cache := AList.update (coordinate g)
                      (gr_ts g, if stable then None else Some version, key) (gs_cache st)\<rparr>))))"

record StandingAssessment =
  sa_held :: bool
  sa_reason :: "string option"
  sa_as_of :: "InputAsOf option"

definition falls :: "string \<Rightarrow> InputAsOf option \<Rightarrow> StandingAssessment" where
  "falls why t = \<lparr>sa_held = False, sa_reason = Some why, sa_as_of = t\<rparr>"

definition FALL_KEY_WITHDRAWN :: string where "FALL_KEY_WITHDRAWN = ''issuer key withdrawn''"

definition FALL_NOT_ESTABLISHED :: string where "FALL_NOT_ESTABLISHED = ''issuer standing not established''"

definition withdrawn_text :: "KeyStanding \<Rightarrow> string" where
  "withdrawn_text s =
     (case ks_entry s of
        None \<Rightarrow> []
      | Some e \<Rightarrow> opt_text (ke_withdrawnReason e) @ '', withdrawn at '' @ opt_text (map_option iso_str (ke_withdrawnAt e)))"

definition signed_text :: "LicensingKey \<Rightarrow> string" where
  "signed_text key =
     ''the '' @ opt_text (map_option (record_type_str \<circ> fst) (lk_record key)) @ '' record at ts=''
     @ opt_text (map_option (iso_str \<circ> snd) (lk_record key)) @ '' that licensed this grant''"

definition judge_standing ::
  "CheckConfig \<Rightarrow> StandingSource \<Rightarrow> LicensingKey \<Rightarrow> instant \<Rightarrow> exn + StandingAssessment" where
  "judge_standing c src key now =
     (case lk_kind key of
        Licensed_before_epoch \<Rightarrow> Inr \<lparr>sa_held = True, sa_reason = None, sa_as_of = None\<rparr>
      | Licensing_unverified \<Rightarrow> Inr (falls (FALL_NOT_ESTABLISHED @ '': '' @ lk_detail key) (source_as_of src))
      | Licensed_by_key \<Rightarrow>
          bind_r (standing_of (gc_source c) src (the (lk_key_id key)) now (gc_skew c)) (\<lambda>s.
            Inr (case ks_verdict s of
                   In_standing \<Rightarrow> \<lparr>sa_held = True, sa_reason = None, sa_as_of = source_as_of src\<rparr>
                 | Is_withdrawn \<Rightarrow>
                     falls (FALL_KEY_WITHDRAWN @ '': key '' @ py_repr (the (lk_key_id key)) @ '' ('' @ withdrawn_text s @ '') signed ''
                       @ signed_text key) (source_as_of src)
                 | Not_established \<Rightarrow>
                     falls (FALL_NOT_ESTABLISHED @ '': '' @
                       (case ks_version s of
                          None \<Rightarrow> ''no issuer standing document has been accepted''
                        | Some v \<Rightarrow> ''the issuer standing document (version '' @ int_str v @ '') is past its maximum age at ''
                            @ isoformat_utc now)) (source_as_of src)
                 | Unknown_key \<Rightarrow>
                     falls (FALL_NOT_ESTABLISHED @ '': key '' @ py_repr (the (lk_key_id key)) @ '', which signed '' @ signed_text key
                       @ '', is not in the issuer standing document'') (source_as_of src))))"

definition check_failed :: "exn \<Rightarrow> StandingAssessment" where
  "check_failed e = falls (FALL_NOT_ESTABLISHED @ '': the standing check failed ('' @ exn_class e @ '')'') None"

definition assess ::
  "crypto \<Rightarrow> CheckConfig \<Rightarrow> record_reader \<Rightarrow> fetch_world \<Rightarrow> Grant \<Rightarrow> instant \<Rightarrow> GrantStandingCheck
     \<Rightarrow> StandingAssessment \<times> GrantStandingCheck" where
  "assess K c records w g now st =
     (case maybe_refresh K c w now st of
        (Inl e, st') \<Rightarrow> (check_failed e, st')
      | (Inr _, st') \<Rightarrow>
        (case licensing_key K c records g st' of
           Inl e \<Rightarrow> (check_failed e, st')
         | Inr (key, st'') \<Rightarrow>
           (case judge_standing c (gs_source st'') key now of
              Inl e \<Rightarrow> (check_failed e, st'')
            | Inr a \<Rightarrow> (a, st''))))"

definition parse_signing_epoch :: "iso option \<Rightarrow> exn + instant option" where
  "parse_signing_epoch epoch_text =
     (case epoch_text of None \<Rightarrow> Inr None
      | Some v \<Rightarrow>
          if iso_str v = [] then Inr None
          else (case iso_read v of
             None \<Rightarrow> Inl (ValueError ''Invalid isoformat string'')
           | Some (t, None) \<Rightarrow> Inl (ValueError (RECORD_SIGNING_EPOCH_ENV @ '' has no UTC offset; it must name an instant''))
           | Some (t, Some _) \<Rightarrow> Inr (Some t)))"

section \<open>The withdrawal runner\<close>

datatype withdrawal_status =
  Wd_no_grant | Wd_quarantined | Wd_nothing_to_lower | Wd_in_standing | Wd_not_established | Wd_lowered | Wd_conflict

record WithdrawalOutcome =
  wo_status :: withdrawal_status
  wo_updated :: "Grant option"
  wo_record :: "PromotionRecord option"

definition withdrawal_says :: "withdrawal_status \<Rightarrow> WithdrawalOutcome" where
  "withdrawal_says st = \<lparr>wo_status = st, wo_updated = None, wo_record = None\<rparr>"

definition entry_evidence :: "string \<Rightarrow> KeyStandingEntry \<Rightarrow> string" where
  "entry_evidence k e =
     withdrawal_evidence k (case ke_withdrawnReason e of None \<Rightarrow> ''None'' | Some s \<Rightarrow> s)
       (case ke_withdrawnAt e of None \<Rightarrow> ''None'' | Some v \<Rightarrow> iso_str v)"

definition run_withdrawal ::
  "crypto \<Rightarrow> (string, 's) GrantStore \<Rightarrow> Principal \<Rightarrow> string \<Rightarrow> StandingConfig \<Rightarrow> StandingSource \<Rightarrow> instant \<Rightarrow> timedelta
     \<Rightarrow> signer \<Rightarrow> 's \<Rightarrow> exn + WithdrawalOutcome \<times> 's" where
  "run_withdrawal K S p action_class cfg src now skew sgnr s =
     bind_r (guard_r (sc_role cfg = issuer_role) (ValueError ''a withdrawal is owed only on the issuer's standing'')) (\<lambda>_.
     bind_r (get_grant S s p action_class) (\<lambda>read.
       if rr_quarantined read then Inr (withdrawal_says Wd_quarantined, s)
       else (case rr_grant read of
         None \<Rightarrow> Inr (withdrawal_says Wd_no_grant, s)
       | Some g \<Rightarrow>
           if AUTONOMY_RANK (gr_level g) \<le> AUTONOMY_RANK (gr_lastSafeLevel g)
           then Inr (withdrawal_says Wd_nothing_to_lower, s)
           else
             bind_r (list_stored_records S s p action_class) (\<lambda>stored.
             bind_r (resolve_licensing_key K stored g (issuer_resolvers src) None skew) (\<lambda>key.
               if lk_kind key \<noteq> Licensed_by_key then Inr (withdrawal_says Wd_not_established, s)
               else
                 bind_r (standing_of cfg src (the (lk_key_id key)) now skew) (\<lambda>v.
                   if ks_verdict v = In_standing then Inr (withdrawal_says Wd_in_standing, s)
                   else if ks_verdict v \<noteq> Is_withdrawn then Inr (withdrawal_says Wd_not_established, s)
                   else
                     (case apply_withdrawal S g (entry_evidence (the (lk_key_id key)) (the (ks_entry v))) now sgnr s of
                        Inl e \<Rightarrow>
                          if exn_class e = ''WithdrawalConflictError'' \<or> exn_class e = ''RecordAlreadyExistsError''
                          then Inr (withdrawal_says Wd_conflict, s) else Inl e
                      | Inr ((updated, r), s') \<Rightarrow>
                          Inr (\<lparr>wo_status = Wd_lowered, wo_updated = Some updated, wo_record = Some r\<rparr>, s'))))))))"

section \<open>The licensing record is the last that licenses\<close>

definition placed :: "instant \<Rightarrow> 'p StoredRecord \<Rightarrow> bool" where
  "placed grant_instant e = (case recorded_instant (pr_ts (sr_record e)) of None \<Rightarrow> False | Some t \<Rightarrow> t \<le> grant_instant)"

definition earns :: "instant \<Rightarrow> 'p StoredRecord \<Rightarrow> bool" where
  "earns grant_instant e \<longleftrightarrow> placed grant_instant e \<and> pr_recordType (sr_record e) \<in> set EARNING_RECORD_TYPES"

definition renews :: "instant \<Rightarrow> 'p StoredRecord \<Rightarrow> bool" where
  "renews grant_instant e \<longleftrightarrow> placed grant_instant e \<and> pr_recordType (sr_record e) = Reattestation"

definition licenses :: "instant \<Rightarrow> 'p StoredRecord list \<Rightarrow> nat \<Rightarrow> bool" where
  "licenses grant_instant es i \<longleftrightarrow>
     i < length es \<and> (earns grant_instant (es ! i)
       \<or> renews grant_instant (es ! i) \<and> list_ex (earns grant_instant) (take i es))"

lemma licensing_scan_step:
  "licensing_scan T i earned found (e # es) =
     licensing_scan T (Suc i) (earned \<or> earns T e) (if earns T e \<or> renews T e \<and> earned then Some i else found) es"
  by (auto simp: earns_def renews_def placed_def EARNING_RECORD_TYPES_def split: option.splits)

declare licensing_scan.simps(2) [simp del]

lemma licensing_scan_spec:
  "licensing_scan T i earned found es =
     (let js = filter (\<lambda>j. earns T (es ! j) \<or> renews T (es ! j) \<and> (earned \<or> list_ex (earns T) (take j es))) [0..<length es]
      in if js = [] then found else Some (i + last js))"
proof (induction es arbitrary: i earned found)
  case (Cons e es)
  let ?P = "\<lambda>earned es j. earns T (es ! j) \<or> renews T (es ! j) \<and> (earned \<or> list_ex (earns T) (take j es))"
  let ?js = "filter (?P (earned \<or> earns T e) es) [0..<length es]"
  have "filter (?P earned (e # es)) [0..<length (e # es)] =
      (if earns T e \<or> renews T e \<and> earned then [0] else []) @ map Suc ?js"
    by (subst upt_conv_Cons) (auto simp: filter_map o_def map_Suc_upt [symmetric] simp del: upt_Suc intro!: filter_cong)
  then show ?case by (simp add: licensing_scan_step Cons.IH Let_def last_map)
qed simp

lemma last_filter_upt: "filter P [0..<n] \<noteq> [] \<Longrightarrow> last (filter P [0..<n]) = i \<longleftrightarrow> i < n \<and> P i \<and> (\<forall>j. i < j \<and> j < n \<longrightarrow> \<not> P j)"
proof (induction n)
  case (Suc n)
  then show ?case by (cases "P n") (auto simp: less_Suc_eq filter_empty_conv)
qed simp

text \<open>The scan of the code finds the last position that licenses the grant.\<close>

lemma licensing_record_iff:
  "licensing_record es T = Some i \<longleftrightarrow> licenses T es i \<and> (\<forall>j. i < j \<longrightarrow> \<not> licenses T es j)"
  "licensing_record es T = None \<longleftrightarrow> (\<forall>j. \<not> licenses T es j)"
proof -
  let ?js = "filter (\<lambda>j. earns T (es ! j) \<or> renews T (es ! j) \<and> list_ex (earns T) (take j es)) [0..<length es]"
  have eq: "licensing_record es T = (if ?js = [] then None else Some (last ?js))"
    by (simp add: licensing_record_def licensing_scan_spec Let_def)
  have none: "?js = [] \<longleftrightarrow> (\<forall>j. \<not> licenses T es j)" by (auto simp: filter_empty_conv licenses_def)
  show "licensing_record es T = None \<longleftrightarrow> (\<forall>j. \<not> licenses T es j)" using eq none by simp
  show "licensing_record es T = Some i \<longleftrightarrow> licenses T es i \<and> (\<forall>j. i < j \<longrightarrow> \<not> licenses T es j)"
  proof (cases "?js = []")
    case True
    then show ?thesis using eq none by simp
  next
    case False
    then show ?thesis using eq last_filter_upt [OF False, of i] by (auto simp: licenses_def)
  qed
qed

lemma list_ex_take: "i \<le> length es \<Longrightarrow> list_ex P (take i es) \<longleftrightarrow> (\<exists>j < i. P (es ! j))"
  by (simp add: list_ex_length) (metis min.absorb2 nth_take)

lemma licenses_iff:
  "licenses T es i \<longleftrightarrow>
     i < length es \<and> (earns T (es ! i) \<or> renews T (es ! i) \<and> (\<exists>j < i. earns T (es ! j)))"
  by (cases "i < length es") (simp_all add: licenses_def list_ex_take)

lemma earlier_earning:
  assumes "licenses T es i"
  obtains j where "j \<le> i" and "earns T (es ! j)"
  using assms unfolding licenses_iff by (meson less_imp_le order_refl)

text \<open>A record inserted at position \<open>n\<close> moves the later ones by one.\<close>

definition shifted :: "nat \<Rightarrow> nat \<Rightarrow> nat" where "shifted n i = (if i < n then i else Suc i)"

lemma nth_planted: "(xs @ e # ys) ! shifted (length xs) i = (xs @ ys) ! i"
  by (simp add: shifted_def nth_append Suc_diff_le)

lemma planted_licenses:
  fixes xs ys :: "'p StoredRecord list"
  assumes "licensing_record (xs @ ys) T = Some i"
  shows "licensing_record (xs @ e # ys) T = Some (shifted (length xs) i)
    \<or> licensing_record (xs @ e # ys) T = Some (length xs) \<and> i < length xs"
proof -
  let ?old = "xs @ ys" and ?new = "xs @ e # ys" and ?n = "length xs"
  have i: "licenses T ?old i" "\<And>j. i < j \<Longrightarrow> \<not> licenses T ?old j" using assms by (auto simp: licensing_record_iff)
  obtain j0 where j0: "j0 \<le> i" "earns T (?old ! j0)" by (rule earlier_earning [OF i(1)])
  have len: "shifted ?n j < length ?new \<longleftrightarrow> j < length ?old" for j by (auto simp: shifted_def)
  have mono: "shifted ?n a < shifted ?n b \<longleftrightarrow> a < b" for a b by (auto simp: shifted_def)
  have up: "licenses T ?new (shifted ?n j)" if "licenses T ?old j" for j
    using that unfolding licenses_iff len nth_planted by (metis mono nth_planted)
  have down: "\<not> licenses T ?new (shifted ?n j)" if "i < j" for j
    using i(2) [OF that] j0 that unfolding licenses_iff len nth_planted by (meson le_less_trans)
  have cover: "m = ?n \<or> (\<exists>j. m = shifted ?n j)" for m
  proof (cases "m < ?n")
    case True
    then show ?thesis by (intro disjI2 exI [of _ m]) (simp add: shifted_def)
  next
    case False
    then have "m \<noteq> ?n \<Longrightarrow> m = shifted ?n (m - 1)" by (simp add: shifted_def)
    then show ?thesis by blast
  qed
  have "\<not> licenses T ?new m" if "shifted ?n i < m" "m \<noteq> ?n" for m
    using that cover [of m] down mono by auto
  then have "licensing_record ?new T = Some (shifted ?n i)" if "\<not> (licenses T ?new ?n \<and> shifted ?n i < ?n)"
    using that up [OF i(1)] unfolding licensing_record_iff by metis
  moreover have "licensing_record ?new T = Some ?n" if "licenses T ?new ?n" "shifted ?n i < ?n"
    using that \<open>\<And>m. \<lbrakk>shifted ?n i < m; m \<noteq> ?n\<rbrakk> \<Longrightarrow> \<not> licenses T ?new m\<close>
    unfolding licensing_record_iff by (metis less_trans nat_neq_iff)
  moreover have "shifted ?n i < ?n \<longleftrightarrow> i < ?n" by (auto simp: shifted_def)
  ultimately show ?thesis by blast
qed

section \<open>What a planted record can do\<close>

lemma judged_by_key:
  assumes "judge_entry K stored i R epoch skew = Inr key" and "lk_kind key = Licensed_by_key"
  shows "sr_signature (stored ! i) \<noteq> None"
  using assms by (auto simp: judge_entry_def Let_def bind_r_Inr_iff unverified_def history_def split: option.splits if_splits)

lemma judge_entry_signed:
  assumes "sr_signature (stored ! i) \<noteq> None" and "stored' ! j = stored ! i"
  shows "judge_entry K stored' j R epoch skew = judge_entry K stored i R epoch skew"
  using assms by (auto simp: judge_entry_def Let_def)

lemma judge_entry_unverified:
  assumes "sr_signature (stored ! i) = None \<Longrightarrow> follows_a_signed_record stored i"
    and "\<And>sig res. sr_signature (stored ! i) = Some sig \<Longrightarrow> is_obj sig \<Longrightarrow>
      verify_record_by_type K (sr_data (stored ! i)) sig (record_type_str (pr_recordType (sr_record (stored ! i)))) R = Inr res \<Longrightarrow>
      rv_key_id res = None"
    and "judge_entry K stored i R epoch skew = Inr key"
  shows "lk_kind key = Licensing_unverified"
  using assms by (auto simp: judge_entry_def Let_def bind_r_Inr_iff unverified_def split: option.splits if_splits)

text \<open>C12: a record that does not verify never moves the key a level rests on. Whoever may append records but holds no
  issuer key inserts a record anywhere among a coordinate's records, unsigned or with a signature that does not verify
  under the role's keys: where the level rested on a verified key it rests on the same key, or the check falls.\<close>

theorem planted_record_never_relicenses:
  assumes before: "resolve_licensing_key K (xs @ ys) g R epoch skew = Inr key" "lk_kind key = Licensed_by_key"
    and planted: "\<And>sig res. sr_signature e = Some sig \<Longrightarrow> is_obj sig \<Longrightarrow>
      verify_record_by_type K (sr_data e) sig (record_type_str (pr_recordType (sr_record e))) R = Inr res \<Longrightarrow> rv_key_id res = None"
    and after: "resolve_licensing_key K (xs @ e # ys) g R epoch skew = Inr key'"
  shows "key' = key \<or> lk_kind key' = Licensing_unverified"
proof -
  from before obtain T i where T: "recorded_instant (gr_ts g) = Some T" and i: "licensing_record (xs @ ys) T = Some i"
    and key: "judge_entry K (xs @ ys) i R epoch skew = Inr key"
    by (auto simp: resolve_licensing_key_def bind_r_Inr_iff history_def unverified_def split: option.splits if_splits)
  have signed: "sr_signature ((xs @ ys) ! i) \<noteq> None" by (rule judged_by_key [OF key before(2)])
  from planted_licenses [OF i, of e] show ?thesis
  proof (elim disjE conjE)
    assume "licensing_record (xs @ e # ys) T = Some (shifted (length xs) i)"
    then show ?thesis
      using after key judge_entry_signed [OF signed nth_planted] by (simp add: resolve_licensing_key_def T)
  next
    assume n: "licensing_record (xs @ e # ys) T = Some (length xs)" and less: "i < length xs"
    have entry: "(xs @ e # ys) ! length xs = e" by simp
    have "follows_a_signed_record (xs @ e # ys) (length xs)"
      using signed less by (auto simp: follows_a_signed_record_def list_ex_iff nth_append intro!: bexI [of _ "xs ! i"])
    moreover have "judge_entry K (xs @ e # ys) (length xs) R epoch skew = Inr key'"
      using after by (simp add: resolve_licensing_key_def T n)
    ultimately have "lk_kind key' = Licensing_unverified"
      using judge_entry_unverified [of "xs @ e # ys" "length xs" K R epoch skew key'] planted entry by simp
    then show ?thesis ..
  qed
qed

section \<open>A withdrawn key licenses nothing\<close>

lemma key_id_claimed:
  assumes "verify_record_by_type K stored envelope t R = Inr res" and "rv_key_id res = Some k"
  shows "envelope_signer_key_id envelope = Some k"
  using assms
  by (auto simp: verify_record_by_type_def verify_record_def refused_def Let_def bind_r_Inr_iff
      split: option.splits if_splits)

lemma signed_entry_judged:
  assumes "sr_signature (stored ! i) = Some sig" and "envelope_signer_key_id sig = Some k"
    and "judge_entry K stored i R epoch skew = Inr key"
  shows "lk_kind key = Licensing_unverified \<or> lk_kind key = Licensed_by_key \<and> lk_key_id key = Some k"
proof (cases "is_obj sig")
  case False
  with assms show ?thesis by (auto simp: judge_entry_def Let_def unverified_def)
next
  case True
  with assms obtain res where res: "verify_record_by_type K (sr_data (stored ! i)) sig
      (record_type_str (pr_recordType (sr_record (stored ! i)))) R = Inr res"
    and key: "\<exists>place why. key = (case rv_key_id res of Some k \<Rightarrow> licensed_by place k | None \<Rightarrow> unverified place why)"
    by (auto simp: judge_entry_def Let_def bind_r_Inr_iff)
  show ?thesis
  proof (cases "rv_key_id res")
    case None
    then show ?thesis using key by (auto simp: unverified_def)
  next
    case (Some k')
    then have "k' = k" using key_id_claimed [OF res] assms(2) by simp
    then show ?thesis using Some key by (auto simp: licensed_by_def)
  qed
qed

lemma withdrawn_key_falls:
  assumes "source_key_state src k = Some ''withdrawn''" and "source_ok K src"
    and "lk_kind key = Licensing_unverified \<or> lk_kind key = Licensed_by_key \<and> lk_key_id key = Some k"
    and "judge_standing c src key now = Inr a"
  shows "\<not> sa_held a"
  using assms
  by (auto simp: key_state_withdrawn judge_standing_def standing_of_def falls_def Let_def bind_r_Inr_iff)

text \<open>Every run of the check, eager fetches included, over one coordinate, whose records are \<open>stored\<close> or cannot be read: grants, instants,
  fetched texts and the records of other coordinates are arbitrary.\<close>

inductive check_run ::
  "crypto \<Rightarrow> CheckConfig \<Rightarrow> Principal \<Rightarrow> string \<Rightarrow> string StoredRecord list \<Rightarrow> GrantStandingCheck \<Rightarrow> GrantStandingCheck \<Rightarrow> bool"
  for K c p action_class stored st where
  begun: "check_run K c p action_class stored st st"
| asked: "check_run K c p action_class stored st st' \<Longrightarrow>
    records p action_class = Inr stored \<or> (\<exists>x. records p action_class = Inl x) \<Longrightarrow>
    assess K c records w g now st' = (a, st'') \<Longrightarrow> check_run K c p action_class stored st st''"
| refreshed: "check_run K c p action_class stored st st' \<Longrightarrow> check_refresh K c w now st' = (r, st'') \<Longrightarrow>
    check_run K c p action_class stored st st''"

definition cache_ok :: "crypto \<Rightarrow> CheckConfig \<Rightarrow> Principal \<times> string \<Rightarrow> string StoredRecord list \<Rightarrow> GrantStandingCheck \<Rightarrow> bool" where
  "cache_ok K c co stored st \<longleftrightarrow>
     (\<forall>ts v key. map_of (gs_cache st) co = Some (ts, v, key) \<longrightarrow>
        (\<exists>src. \<forall>g. gr_ts g = ts \<longrightarrow> resolve_licensing_key K stored g (issuer_resolvers src) (gc_epoch c) (gc_skew c) = Inr key))"

lemma resolve_ts: "gr_ts g = gr_ts h \<Longrightarrow> resolve_licensing_key K stored g R epoch skew = resolve_licensing_key K stored h R epoch skew"
  by (auto simp: resolve_licensing_key_def split: option.splits)

lemma refresh_run: "standing_refresh K cfg now fetched src = Inr (l, src') \<Longrightarrow> standing_run K cfg src src'"
  by (rule standing_run.fetch [OF standing_run.start])

lemma refresh_locked_run:
  assumes "refresh_locked K c w now st = (r, st')"
  shows "standing_run K (gc_source c) (gs_source st) (gs_source st') \<and> gs_cache st' = gs_cache st"
proof (cases "standing_refresh K (gc_source c) (fw_clock w) (fw_fetched w) (gs_source st)")
  case (Inl e)
  with assms show ?thesis by (auto simp: refresh_locked_def standing_run.start)
next
  case (Inr y)
  then have "standing_run K (gc_source c) (gs_source st) (snd y)" by (cases y) (simp add: refresh_run)
  with Inr assms show ?thesis by (auto simp: refresh_locked_def split: prod.splits sum.splits)
qed

lemma maybe_refresh_run:
  assumes "maybe_refresh K c w now st = (r, st')"
  shows "standing_run K (gc_source c) (gs_source st) (gs_source st') \<and> gs_cache st' = gs_cache st"
proof (cases "st' = st")
  case True
  then show ?thesis by (simp add: standing_run.start)
next
  case False
  obtain r' st2 where r: "refresh_locked K c w now st = (r', st2)" by fastforce
  with False assms have "st' = st2" by (auto simp: maybe_refresh_def split: if_splits sum.splits)
  with refresh_locked_run [OF r] show ?thesis by simp
qed

lemma licensing_key_outcome:
  assumes "licensing_key K c records g st = Inr (key, st')"
  obtains (hit) v where "map_of (gs_cache st) (coordinate g) = Some (gr_ts g, v, key)" "st' = st"
  | (unread) "lk_kind key = Licensing_unverified" "st' = st"
  | (resolved) recs v where "records (gr_principal g) (gr_actionClass g) = Inr recs"
      "resolve_licensing_key K recs g (issuer_resolvers (gs_source st)) (gc_epoch c) (gc_skew c) = Inr key"
      "st' = st\<lparr>gs_cache := AList.update (coordinate g) (gr_ts g, v, key) (gs_cache st)\<rparr>"
proof -
  let ?cached = "case map_of (gs_cache st) (coordinate g) of
      Some (ts, v, key) \<Rightarrow> if ts = gr_ts g \<and> (v = None \<or> v = Some (document_version st)) then Some key else None
    | None \<Rightarrow> None"
  show ?thesis
  proof (cases ?cached)
    case (Some k)
    then obtain v where "map_of (gs_cache st) (coordinate g) = Some (gr_ts g, v, k)"
      by (cases "map_of (gs_cache st) (coordinate g)") (auto split: if_splits)
    moreover from Some assms have "k = key \<and> st' = st" by (simp add: licensing_key_def Let_def)
    ultimately show ?thesis by (intro hit [of v]) simp_all
  next
    case None
    show ?thesis
    proof (cases "records (gr_principal g) (gr_actionClass g)")
      case (Inl x)
      with None assms show ?thesis by (intro unread) (auto simp: licensing_key_def Let_def unverified_def)
    next
      case (Inr recs)
      with None assms show ?thesis
        by (intro resolved [of recs]) (auto simp: licensing_key_def Let_def bind_r_Inr_iff)
    qed
  qed
qed

lemma licensing_key_step:
  assumes "licensing_key K c records g st = Inr (key, st')"
    and reader: "records p action_class = Inr stored \<or> (\<exists>x. records p action_class = Inl x)"
    and cache: "cache_ok K c (p, action_class) stored st"
  shows "gs_source st' = gs_source st" and "cache_ok K c (p, action_class) stored st'"
    and "coordinate g = (p, action_class) \<Longrightarrow> lk_kind key = Licensing_unverified
      \<or> (\<exists>src. resolve_licensing_key K stored g (issuer_resolvers src) (gc_epoch c) (gc_skew c) = Inr key)"
proof -
  have "gs_source st' = gs_source st \<and> cache_ok K c (p, action_class) stored st'
    \<and> (coordinate g = (p, action_class) \<longrightarrow> lk_kind key = Licensing_unverified
      \<or> (\<exists>src. resolve_licensing_key K stored g (issuer_resolvers src) (gc_epoch c) (gc_skew c) = Inr key))"
    using assms(1)
  proof (cases rule: licensing_key_outcome)
    case hit
    then show ?thesis using cache unfolding cache_ok_def by metis
  next
    case unread
    then show ?thesis using cache by simp
  next
    case (resolved recs v)
    show ?thesis
    proof (cases "coordinate g = (p, action_class)")
      case True
      then have recs: "recs = stored" using resolved(1) reader by (auto simp: coordinate_def)
      have "resolve_licensing_key K stored h (issuer_resolvers (gs_source st)) (gc_epoch c) (gc_skew c) = Inr key"
        if "gr_ts h = gr_ts g" for h using resolved(2) resolve_ts [OF that] by (simp add: recs)
      then show ?thesis using True by (auto simp: resolved(3) cache_ok_def update_conv')
    next
      case False
      then show ?thesis using cache by (auto simp: resolved(3) cache_ok_def update_conv')
    qed
  qed
  then show "gs_source st' = gs_source st" "cache_ok K c (p, action_class) stored st'"
    "coordinate g = (p, action_class) \<Longrightarrow> lk_kind key = Licensing_unverified
      \<or> (\<exists>src. resolve_licensing_key K stored g (issuer_resolvers src) (gc_epoch c) (gc_skew c) = Inr key)" by blast+
qed

lemma assess_outcome:
  assumes "assess K c records w g now st = (a, st')" and "maybe_refresh K c w now st = (r, mid)"
  obtains (fell) "st' = mid" "\<not> sa_held a"
  | (judged) key where "licensing_key K c records g mid = Inr (key, st')"
      "sa_held a \<Longrightarrow> judge_standing c (gs_source st') key now = Inr a"
proof (cases r)
  case (Inl x)
  with assms show ?thesis by (intro fell) (auto simp: assess_def check_failed_def falls_def)
next
  case (Inr u)
  show ?thesis
  proof (cases "licensing_key K c records g mid")
    case (Inl x)
    with assms \<open>r = Inr u\<close> show ?thesis by (intro fell) (auto simp: assess_def check_failed_def falls_def)
  next
    case (Inr y)
    with assms \<open>r = Inr u\<close> show ?thesis
      by (intro judged [of "fst y"]) (auto simp: assess_def check_failed_def falls_def split: sum.splits prod.splits)
  qed
qed

lemma assess_source:
  assumes "assess K c records w g now st = (a, st')" and "maybe_refresh K c w now st = (r, mid)"
  shows "gs_source st' = gs_source mid"
  using assms
proof (cases rule: assess_outcome)
  case (judged key)
  from judged(1) show ?thesis by (cases rule: licensing_key_outcome) simp_all
qed simp

lemma assess_next_refresh:
  assumes "assess K c records w g now st = (a, st')" and "maybe_refresh K c w now st = (r, mid)"
  shows "gs_next_refresh st' = gs_next_refresh mid"
  using assms
proof (cases rule: assess_outcome)
  case (judged key)
  from judged(1) show ?thesis by (cases rule: licensing_key_outcome) simp_all
qed simp

lemma assess_step:
  assumes step: "assess K c records w g now st = (a, st')"
    and reader: "records p action_class = Inr stored \<or> (\<exists>x. records p action_class = Inl x)"
    and cache: "cache_ok K c (p, action_class) stored st"
  shows "cache_ok K c (p, action_class) stored st'" and "standing_run K (gc_source c) (gs_source st) (gs_source st')"
    and "sa_held a \<Longrightarrow> coordinate g = (p, action_class) \<Longrightarrow>
      \<exists>key src. resolve_licensing_key K stored g (issuer_resolvers src) (gc_epoch c) (gc_skew c) = Inr key
        \<and> judge_standing c (gs_source st') key now = Inr a"
proof -
  obtain r mid where r: "maybe_refresh K c w now st = (r, mid)" by fastforce
  note mid = maybe_refresh_run [OF r]
  have cache': "cache_ok K c (p, action_class) stored mid" using cache mid by (simp add: cache_ok_def)
  have "cache_ok K c (p, action_class) stored st' \<and> gs_source st' = gs_source mid
    \<and> (sa_held a \<longrightarrow> coordinate g = (p, action_class) \<longrightarrow>
        (\<exists>key src. resolve_licensing_key K stored g (issuer_resolvers src) (gc_epoch c) (gc_skew c) = Inr key
          \<and> judge_standing c (gs_source st') key now = Inr a))"
    using step r
  proof (cases rule: assess_outcome)
    case fell
    with cache' show ?thesis by simp
  next
    case (judged key)
    have "sa_held a \<Longrightarrow> lk_kind key \<noteq> Licensing_unverified"
      using judged(2) by (auto simp: judge_standing_def unverified_def falls_def)
    then show ?thesis using licensing_key_step [OF judged(1) reader cache'] judged(2) by blast
  qed
  with mid show "cache_ok K c (p, action_class) stored st'" "standing_run K (gc_source c) (gs_source st) (gs_source st')"
    "sa_held a \<Longrightarrow> coordinate g = (p, action_class) \<Longrightarrow>
      \<exists>key src. resolve_licensing_key K stored g (issuer_resolvers src) (gc_epoch c) (gc_skew c) = Inr key
        \<and> judge_standing c (gs_source st') key now = Inr a" by (blast, metis, blast)
qed

lemma standing_run_trans:
  "standing_run K cfg b d \<Longrightarrow> standing_run K cfg a b \<Longrightarrow> standing_run K cfg a d"
  by (induction rule: standing_run.induct) (auto intro: standing_run.intros)

lemma check_run_keeps:
  assumes "check_run K c p action_class stored st st'" and "cache_ok K c (p, action_class) stored st"
  shows "cache_ok K c (p, action_class) stored st' \<and> standing_run K (gc_source c) (gs_source st) (gs_source st')"
  using assms
proof (induction rule: check_run.induct)
  case (asked st' records w g now a st'')
  then show ?case using assess_step(1,2) [OF asked.hyps(3,2)] standing_run_trans by blast
next
  case (refreshed st' w now r st'')
  note run = refresh_locked_run [OF refreshed.hyps(2) [unfolded check_refresh_def]]
  note before = refreshed.IH [OF refreshed.prems]
  have "cache_ok K c (p, action_class) stored st''"
    using conjunct1 [OF before] unfolding cache_ok_def conjunct2 [OF run] .
  moreover have "standing_run K (gc_source c) (gs_source st) (gs_source st'')"
    by (rule standing_run_trans [OF conjunct1 [OF run]]) (rule conjunct2 [OF before])
  ultimately show ?case ..
qed (simp add: standing_run.start)

lemma effective_level_fallen:
  assumes "effective_level g now skew False = Inr l"
  shows "AUTONOMY_RANK l \<le> AUTONOMY_RANK (gr_lastSafeLevel g)"
  using assms by (auto simp: effective_level_def bind_r_Inr_iff split: if_splits)

text \<open>From the call that accepts a withdrawal on, a level that rests on a record of the withdrawn key is not held.
  A check starts on an empty source and is asked any number of times, about any grants, while the fetched texts, the
  instants and the failures of reads are arbitrary. Once its source reports key \<open>k\<close> withdrawn, then after any further
  calls, cached keys included, every assessment of a grant whose licensing record carries a signature of \<open>k\<close> is a fall,
  and the level enforcement acts on is at most the last safe level.\<close>

lemma withdrawn_key_licenses_nothing:
  assumes start: "standing_source cfg = Inr src0" "grant_standing_check cfg src0 epoch skew every = Inr (c, st0)"
    and run: "check_run K c p action_class stored st0 st" "source_key_state (gs_source st) k = Some ''withdrawn''"
      "check_run K c p action_class stored st st'"
    and reader: "records p action_class = Inr stored \<or> (\<exists>x. records p action_class = Inl x)"
    and grant: "coordinate g = (p, action_class)" "recorded_instant (gr_ts g) = Some T"
    and licensed: "licensing_record stored T = Some i" "sr_signature (stored ! i) = Some sig"
      "envelope_signer_key_id sig = Some k"
    and asked: "assess K c records w g now st' = (a, st'')"
  shows "\<not> sa_held a \<and> (\<forall>l. effective_level g now' skew' (sa_held a) = Inr l \<longrightarrow>
    AUTONOMY_RANK l \<le> AUTONOMY_RANK (gr_lastSafeLevel g))"
proof -
  have st0: "gs_source st0 = src0" "gs_cache st0 = []" "gc_source c = cfg"
    using start(2) by (auto simp: grant_standing_check_def split: if_splits)
  have "cache_ok K c (p, action_class) stored st0" by (simp add: cache_ok_def st0)
  then have st: "cache_ok K c (p, action_class) stored st" "standing_run K cfg src0 (gs_source st)"
    using check_run_keeps [OF run(1)] by (simp_all add: st0)
  then have st': "cache_ok K c (p, action_class) stored st'" "standing_run K cfg (gs_source st) (gs_source st')"
    using check_run_keeps [OF run(3)] by (simp_all add: st0)
  note end_ = assess_step [OF asked reader st'(1)]
  have later: "standing_run K cfg (gs_source st) (gs_source st'')"
    using standing_run_trans [OF end_(2) [unfolded st0] st'(2)] .
  have ok: "source_ok K (gs_source st)" by (rule standing_run_keeps(1) [OF st(2) empty_source_ok [OF start(1)]])
  then have ok'': "source_ok K (gs_source st'')" by (rule standing_run_keeps(1) [OF later])
  have withdrawn: "source_key_state (gs_source st'') k = Some ''withdrawn''"
    using run(2) standing_run_keeps(2) [OF later ok] unfolding key_state_withdrawn [OF ok] key_state_withdrawn [OF ok'']
    by blast
  have "\<not> sa_held a"
  proof
    assume held: "sa_held a"
    then obtain key src where key: "resolve_licensing_key K stored g (issuer_resolvers src) (gc_epoch c) (gc_skew c) = Inr key"
      "judge_standing c (gs_source st'') key now = Inr a" using end_(3) grant(1) by blast
    have "judge_entry K stored i (issuer_resolvers src) (gc_epoch c) (gc_skew c) = Inr key"
      using key(1) by (simp add: resolve_licensing_key_def grant(2) licensed(1))
    from signed_entry_judged [OF licensed(2,3) this] withdrawn_key_falls [OF withdrawn ok'' _ key(2)] held
    show False by blast
  qed
  then show ?thesis using effective_level_fallen by simp
qed

section \<open>What a copied record can do\<close>

lemma licensing_record_appended:
  assumes "placed T e" and "pr_recordType (sr_record e) \<in> set EARNING_RECORD_TYPES"
  shows "licensing_record (stored @ [e]) T = Some (length stored)"
  using assms by (auto simp: licensing_record_iff licenses_iff earns_def)

text \<open>A call that finds no fetch due, or leaves it to another caller.\<close>

definition no_fetch :: "fetch_world \<Rightarrow> instant \<Rightarrow> GrantStandingCheck \<Rightarrow> bool" where
  "no_fetch w now st \<longleftrightarrow> fw_busy w \<or> (case gs_next_refresh st of None \<Rightarrow> False | Some due \<Rightarrow> now < due)"

lemma no_fetch_refresh: "no_fetch w now st \<Longrightarrow> maybe_refresh K c w now st = (Inr (), st)"
  by (auto simp: no_fetch_def maybe_refresh_def)

lemma cached_key_answers:
  assumes "no_fetch w now st" and "map_of (gs_cache st) (coordinate g) = Some (gr_ts g, None, key)"
  shows "licensing_key K c records g st = Inr (key, st)"
  using assms by (simp add: licensing_key_def Let_def)

text \<open>C13: nothing binds a licensing record to the coordinate it is read at, or to its place in the ledger order. In a
  process that has not read the coordinate yet, a grant whose key is withdrawn falls; but once any genuinely signed bootstrap or
  promotion record with an earlier instant, of whatever principal and action class, is copied behind the coordinate's
  records, that process holds the level, because the copy verifies under a key in standing. Only a process that had resolved
  and cached the withdrawn key before the copy keeps falling, until the grant is written again.\<close>

theorem copied_record_restores_level:
  assumes fresh: "map_of (gs_cache st) (coordinate g) = None" "no_fetch w now st"
    and grant: "recorded_instant (gr_ts g) = Some T"
    and fallen: "licensing_record stored T = Some i" "sr_signature (stored ! i) = Some sig"
      "envelope_signer_key_id sig = Some k" "map_of (ss_seen_withdrawn (gs_source st)) k \<noteq> None" "source_ok K (gs_source st)"
    and copy: "placed T e" "pr_recordType (sr_record e) \<in> set EARNING_RECORD_TYPES" "sr_signature e = Some sig'" "is_obj sig'"
      "verify_record_by_type K (sr_data e) sig' (record_type_str (pr_recordType (sr_record e)))
         (issuer_resolvers (gs_source st)) = Inr res" "rv_key_id res = Some k'"
      "standing_of (gc_source c) (gs_source st) k' now (gc_skew c) = Inr s" "ks_verdict s = In_standing"
    and before: "assess K c (\<lambda>_ _. Inr stored) w g now st = (a, st')"
  shows "\<not> sa_held a
    \<and> sa_held (fst (assess K c (\<lambda>_ _. Inr (stored @ [e])) w g now st))
    \<and> (\<forall>key. map_of (gs_cache st') (coordinate g) = Some (gr_ts g, None, key)
         \<longrightarrow> \<not> sa_held (fst (assess K c (\<lambda>_ _. Inr (stored @ [e])) w g now st')))"
proof (intro conjI allI impI)
  have cache: "cache_ok K c (gr_principal g, gr_actionClass g) stored st"
    using fresh(1) by (simp add: cache_ok_def coordinate_def)
  note step = assess_step [OF before _ cache, simplified]
  have src: "gs_source st' = gs_source st"
    by (rule assess_source [OF before no_fetch_refresh [OF fresh(2)]])
  have withdrawn: "source_key_state (gs_source st) k = Some ''withdrawn''" using fallen(4) key_state_withdrawn [OF fallen(5)] by simp
  have falls: "\<not> sa_held x" if "resolve_licensing_key K stored g (issuer_resolvers src') (gc_epoch c) (gc_skew c) = Inr key"
    "judge_standing c (gs_source st) key now = Inr x" for x key src'
  proof -
    have "judge_entry K stored i (issuer_resolvers src') (gc_epoch c) (gc_skew c) = Inr key"
      using that(1) by (simp add: resolve_licensing_key_def grant fallen(1))
    from signed_entry_judged [OF fallen(2,3) this] withdrawn_key_falls [OF withdrawn fallen(5) _ that(2)] show ?thesis by blast
  qed
  then show "\<not> sa_held a" using step(3) by (auto simp: coordinate_def src)
  show "\<not> sa_held (fst (assess K c (\<lambda>_ _. Inr (stored @ [e])) w g now st'))"
    if key: "map_of (gs_cache st') (coordinate g) = Some (gr_ts g, None, key)" for key
  proof -
    have nf: "no_fetch w now st'" using fresh(2) assess_next_refresh [OF before no_fetch_refresh [OF fresh(2)]] by (simp add: no_fetch_def)
    obtain src' where "resolve_licensing_key K stored g (issuer_resolvers src') (gc_epoch c) (gc_skew c) = Inr key"
      using step(1) key by (auto simp: cache_ok_def coordinate_def)
    from falls [OF this] show ?thesis
      by (auto simp: assess_def no_fetch_refresh [OF nf] cached_key_answers [OF nf key] src check_failed_def falls_def split: sum.split)
  qed
  have "resolve_licensing_key K (stored @ [e]) g (issuer_resolvers (gs_source st)) (gc_epoch c) (gc_skew c)
      = Inr (licensed_by (Some (pr_recordType (sr_record e), pr_ts (sr_record e))) k')"
    using copy(3-6) by (simp add: resolve_licensing_key_def grant licensing_record_appended [OF copy(1,2)] judge_entry_def Let_def)
  then show "sa_held (fst (assess K c (\<lambda>_ _. Inr (stored @ [e])) w g now st))"
    using fresh(1) no_fetch_refresh [OF fresh(2)] copy(7,8) by (simp add: assess_def licensing_key_def Let_def judge_standing_def licensed_by_def)
qed

section \<open>Witnesses\<close>

definition standing_signer :: "string \<Rightarrow> string \<Rightarrow> RecordSigner" where
  "standing_signer k pub = \<lparr>rs_key_id = k, rs_zone = ''z'', rs_sign = (\<lambda>m. pub @ m)\<rparr>"

definition signed_entry :: "string \<Rightarrow> string \<Rightarrow> PromotionRecord \<Rightarrow> string StoredRecord" where
  "signed_entry k pub r =
     \<lparr>sr_record = r, sr_data = canonical_record_payload r,
      sr_signature = Some (sign_record standing_crypto (standing_signer k pub) r)\<rparr>"

definition foreign_record :: PromotionRecord where
  "foreign_record = sample_signed\<lparr>pr_principal := sample_principal\<lparr>agentId := ''other''\<rparr>\<rparr>"

definition licensed_grant :: Grant where
  "licensed_grant =
     \<lparr>gr_principal = sample_principal, gr_actionClass = ''mail.send'', gr_level = on_loop, gr_envelopeHash = ''e1'',
      gr_promotedBy = ''op'', gr_evidence = ''ev'', gr_ts = iso_of 5, gr_lastSafeLevel = in_loop, gr_demotionTriggers = [],
      gr_demotionReason = None, gr_labelLatency = ''PT1H'', gr_ownerId = ''op'', gr_certifiedUntil = None\<rparr>"

definition two_keys :: StandingSource where
  "two_keys =
     (let other = sample_entry\<lparr>ke_publicKey := ''Q''\<rparr> in
      \<lparr>ss_accepted = Some
         \<lparr>ac_document = (sample_document 1 sample_withdrawn)\<lparr>kd_keys := [(''k1'', sample_withdrawn), (''k2'', other)]\<rparr>,
          ac_digest = [], ac_as_of = \<lparr>fetched_at = 0, stated_at = Some 0\<rparr>,
          ac_public_keys = [(''k1'', ''P''), (''k2'', ''Q'')]\<rparr>,
       ss_seen_withdrawn = [(''k1'', sample_withdrawn)]\<rparr>)"

definition sample_check :: CheckConfig where
  "sample_check = \<lparr>gc_source = standing_config, gc_epoch = None, gc_skew = 0, gc_refresh_every = 1\<rparr>"

lemma signed_entry_verifies:
  assumes "pr_recordType r = Bootstrap" and "rk_issuer R = Some f" "f k = Some pub" and "rk_evaluator R = None"
    and "\<And>state. rk_standing R issuer_role = Some state \<Longrightarrow> state k \<noteq> Some ''withdrawn''"
  shows "verify_record_by_type standing_crypto (sr_data (signed_entry k pub r)) (sign_record standing_crypto (standing_signer k pub) r)
      (record_type_str (pr_recordType r)) R = Inr \<lparr>rv_ok = True, rv_reason = None, rv_key_id = Some k\<rparr>"
proof -
  have "signing_role_for_record_type (record_type_str (pr_recordType r)) = Some issuer_role"
    by (simp add: assms(1) signing_role_for_record_type_def record_type_str_def RECORD_TYPE_SIGNING_ROLE_def)
  moreover have "for_role R issuer_role = Some f" "roles_resolving R k = [issuer_role]"
    using assms(2-4) by (simp_all add: for_role_def roles_resolving_def)
  moreover have "cx_verify standing_crypto pub (rs_sign (standing_signer k pub) m) m" for m
    by (simp add: standing_crypto_def open_crypto_def standing_signer_def)
  ultimately show ?thesis
    using sign_then_verify [OF standing_reader, of pub "standing_signer k pub" r issuer_role R f] assms(3,5)
    by (simp add: signed_entry_def standing_signer_def)
qed

lemma signed_entry_simps:
  "sr_record (signed_entry k pub r) = r"
  "sr_signature (signed_entry k pub r) = Some (sign_record standing_crypto (standing_signer k pub) r)"
  "is_obj (sign_record standing_crypto (standing_signer k pub) r)"
  "envelope_signer_key_id (sign_record standing_crypto (standing_signer k pub) r) = Some k"
  by (simp_all add: signed_entry_def sign_record_def Let_def is_obj_def envelope_signer_key_id_def member_def standing_signer_def)

lemma licensed_sample:
  "recorded_instant (gr_ts licensed_grant) = Some 5"
  "licensing_record [signed_entry k pub sample_signed] 5 = Some 0"
  "pr_recordType sample_signed = Bootstrap"
  by (simp_all add: recorded_instant_def licensed_grant_def iso_of_def licensing_record_def licensing_scan.simps
      signed_entry_simps sample_signed_def EARNING_RECORD_TYPES_def)

definition unsigned_entry :: "string StoredRecord" where
  "unsigned_entry =
     \<lparr>sr_record = sample_signed\<lparr>pr_recordType := Reattestation\<rparr>, sr_data = [], sr_signature = None\<rparr>"

theorem planted_record_never_relicenses_witness:
  "\<exists>key key'. resolve_licensing_key standing_crypto [signed_entry ''k1'' ''P'' sample_signed] licensed_grant
       (sample_resolvers\<lparr>rk_evaluator := None\<rparr>) None 0 = Inr key \<and> lk_kind key = Licensed_by_key
    \<and> resolve_licensing_key standing_crypto [signed_entry ''k1'' ''P'' sample_signed, unsigned_entry] licensed_grant
       (sample_resolvers\<lparr>rk_evaluator := None\<rparr>) None 0 = Inr key'
    \<and> (key' = key \<or> lk_kind key' = Licensing_unverified)"
proof -
  let ?e = "signed_entry ''k1'' ''P'' sample_signed" and ?R = "sample_resolvers\<lparr>rk_evaluator := None\<rparr>"
  have v: "verify_record_by_type standing_crypto (sr_data ?e) (sign_record standing_crypto (standing_signer ''k1'' ''P'') sample_signed)
      (record_type_str (pr_recordType sample_signed)) ?R = Inr \<lparr>rv_ok = True, rv_reason = None, rv_key_id = Some ''k1''\<rparr>"
    by (rule signed_entry_verifies [where f = "(\<lambda>_. None)(''k1'' := Some ''P'')"]) (simp_all add: sample_resolvers_def sample_signed_def)
  obtain key where key: "resolve_licensing_key standing_crypto [?e] licensed_grant ?R None 0 = Inr key" "lk_kind key = Licensed_by_key"
    using v by (simp add: resolve_licensing_key_def licensed_sample judge_entry_def Let_def signed_entry_simps licensed_by_def)
  have two: "licensing_record [?e, unsigned_entry] 5 = Some 1"
    by (simp add: licensing_record_def licensing_scan.simps recorded_instant_def iso_of_def signed_entry_simps sample_signed_def
        EARNING_RECORD_TYPES_def unsigned_entry_def)
  have unsigned: "sr_signature unsigned_entry = None" by (simp add: unsigned_entry_def)
  have "follows_a_signed_record [?e, unsigned_entry] 1" by (simp add: follows_a_signed_record_def signed_entry_simps)
  then obtain key' where key': "resolve_licensing_key standing_crypto [?e, unsigned_entry] licensed_grant ?R None 0 = Inr key'"
    by (simp add: resolve_licensing_key_def licensed_sample(1) two judge_entry_def Let_def unsigned)
  have "key' = key \<or> lk_kind key' = Licensing_unverified"
    using planted_record_never_relicenses [of standing_crypto "[?e]" "[]" licensed_grant ?R None 0 key unsigned_entry key'] key key'
    by (simp add: unsigned_entry_def)
  with key key' show ?thesis by blast
qed

theorem copied_record_restores_level_witness:
  "pr_principal foreign_record \<noteq> gr_principal licensed_grant
    \<and> \<not> sa_held (fst (assess standing_crypto sample_check (\<lambda>_ _. Inr [signed_entry ''k1'' ''P'' sample_signed])
        \<lparr>fw_clock = 0, fw_fetched = Inr [], fw_busy = True\<rparr> licensed_grant 0
        \<lparr>gs_source = two_keys, gs_next_refresh = None, gs_cache = []\<rparr>))
    \<and> sa_held (fst (assess standing_crypto sample_check
        (\<lambda>_ _. Inr ([signed_entry ''k1'' ''P'' sample_signed] @ [signed_entry ''k2'' ''Q'' foreign_record]))
        \<lparr>fw_clock = 0, fw_fetched = Inr [], fw_busy = True\<rparr> licensed_grant 0
        \<lparr>gs_source = two_keys, gs_next_refresh = None, gs_cache = []\<rparr>))"
proof -
  let ?st = "\<lparr>gs_source = two_keys, gs_next_refresh = None, gs_cache = []\<rparr>" and ?e = "signed_entry ''k2'' ''Q'' foreign_record"
  let ?w = "\<lparr>fw_clock = 0, fw_fetched = Inr [], fw_busy = True\<rparr>"
  have foreign: "pr_recordType foreign_record = Bootstrap" "pr_ts foreign_record = iso_of 5"
    "pr_principal foreign_record \<noteq> gr_principal licensed_grant"
    by (simp_all add: foreign_record_def sample_signed_def licensed_grant_def sample_principal_def)
  have ok: "source_ok standing_crypto two_keys"
    by (auto simp: source_ok_def two_keys_def Let_def sample_document_def sample_entry_def sample_withdrawn_def
        keys_apart_def load_keys_def split: if_splits)
  have src: "source_key_resolver two_keys ''k2'' = Some ''Q''" "source_key_state two_keys ''k2'' = Some ''active''"
    "map_of (ss_seen_withdrawn two_keys) ''k1'' \<noteq> None"
    by (simp_all add: two_keys_def Let_def source_key_resolver_def source_key_state_def sample_entry_def key_state_str_def)
  have v: "verify_record_by_type standing_crypto (sr_data ?e) (sign_record standing_crypto (standing_signer ''k2'' ''Q'') foreign_record)
      (record_type_str (pr_recordType foreign_record)) (issuer_resolvers two_keys)
      = Inr \<lparr>rv_ok = True, rv_reason = None, rv_key_id = Some ''k2''\<rparr>"
    by (rule signed_entry_verifies [where f = "source_key_resolver two_keys"]) (auto simp: foreign issuer_resolvers_def src)
  obtain s where s: "standing_of standing_config two_keys ''k2'' 0 0 = Inr s" "ks_verdict s = In_standing"
    by (simp add: standing_of_def two_keys_def Let_def end_judged_at_def require_bound_def dt_add_def ZERO_SKEW_def MAX_SKEW_def
        MAX_CLOCK_SKEW_SECONDS_def SECOND_def DAY_def DATETIME_MIN_def DATETIME_MAX_def as_of_def end_of_def standing_config_def)
  obtain a st' where before: "assess standing_crypto sample_check (\<lambda>_ _. Inr [signed_entry ''k1'' ''P'' sample_signed]) ?w licensed_grant 0 ?st
      = (a, st')" by fastforce
  have nf: "no_fetch ?w 0 ?st" by (simp add: no_fetch_def)
  show ?thesis
    using foreign(3) before copied_record_restores_level [of ?st licensed_grant ?w 0 5
        "[signed_entry ''k1'' ''P'' sample_signed]" 0 _ "''k1''" standing_crypto ?e, OF _ nf licensed_sample(1,2) _ signed_entry_simps(4) _ _ _ _ signed_entry_simps(2,3),
        where c = sample_check and a = a and st' = st']
      ok src(3) v s foreign(1,2)
    by (simp add: signed_entry_simps placed_def recorded_instant_def iso_of_def EARNING_RECORD_TYPES_def sample_check_def)
qed

lemma withdrawing_document:
  "next_document standing_crypto None issuer_role [(''k1'', sample_withdrawn)] 0 authority_signer = Inr (sample_document 1 sample_withdrawn)"
proof -
  have "next_document standing_crypto None issuer_role [(''k1'', sample_withdrawn)] 0 authority_signer
      = bind_r (mk_document (sample_document 1 sample_withdrawn)) (\<lambda>d.
          bind_r (check_successor standing_crypto None d []) (\<lambda>_. Inr d))"
    by (simp add: next_document_def guard_r_def sample_document_def authority_signer_def)
  then show ?thesis
    using sample_valid_documents(1,5) [of 1 sample_withdrawn]
    by (simp add: check_successor_def) (simp add: sample_document_def raws_of_def)
qed

lemma withdrawing_document_accepted:
  obtains l src where "standing_refresh standing_crypto standing_config 0 (Inr (sample_text (sample_document 1 sample_withdrawn))) empty_source
      = Inr (l, src)" "source_key_state src ''k1'' = Some ''withdrawn''"
proof -
  let ?d = "sample_document 1 sample_withdrawn"
  have v: "document_valid standing_crypto ?d" "sign_standing_document ?d authority_signer = Inr (sample_text ?d)"
    "check_authority_not_listed standing_crypto ?d [''a1''] [''A''] = Inr ()"
    using sample_valid_documents [of 1 sample_withdrawn] by simp_all
  have "\<exists>src'. standing_refresh standing_crypto standing_config 0 (Inr (sample_text ?d)) empty_source
      = Inr (\<lparr>sl_verdict = ''accepted'', sl_version = Some (kd_version ?d)\<rparr>, src')
    \<and> map_option ac_document (ss_accepted src') = Some (read_back ?d)
    \<and> map_option ac_digest (ss_accepted src') = Some (cx_sha256 standing_crypto (canonical_standing_bytes ?d))"
    by (rule next_document_accepted [OF standing_reader empty_started standing_run.start, where pub = "''A''" and sgnr = authority_signer
          and keys = "[(''k1'', sample_withdrawn)]" and issued = 0])
      (use v withdrawing_document standing_verify in \<open>simp_all add: standing_config_def authority_signer_def\<close>)
  then obtain l src where s: "standing_refresh standing_crypto standing_config 0 (Inr (sample_text ?d)) empty_source = Inr (l, src)"
    "map_option ac_document (ss_accepted src) = Some ?d" by auto
  have "ke_state sample_withdrawn = key_withdrawn" by (simp add: sample_withdrawn_def)
  then have "source_key_state src ''k1'' = Some ''withdrawn''"
    using s(2) by (auto simp: source_key_state_def sample_document_def key_state_str_def)
  with s(1) that show ?thesis by blast
qed

lemma withdrawing_check:
  fixes records :: record_reader
  assumes "\<And>p action_class. (p, action_class) = coordinate g \<Longrightarrow> records p action_class = Inr stored"
  obtains st where "check_run standing_crypto sample_check (gr_principal g) (gr_actionClass g) stored
      \<lparr>gs_source = empty_source, gs_next_refresh = None, gs_cache = []\<rparr> st" "source_key_state (gs_source st) ''k1'' = Some ''withdrawn''"
proof -
  let ?st0 = "\<lparr>gs_source = empty_source, gs_next_refresh = None, gs_cache = []\<rparr>"
  let ?w = "\<lparr>fw_clock = 0, fw_fetched = Inr (sample_text (sample_document 1 sample_withdrawn)), fw_busy = False\<rparr>"
  obtain l src where s: "standing_refresh standing_crypto standing_config 0 (Inr (sample_text (sample_document 1 sample_withdrawn))) empty_source
      = Inr (l, src)" "source_key_state src ''k1'' = Some ''withdrawn''" by (rule withdrawing_document_accepted)
  obtain a st where a: "assess standing_crypto sample_check records ?w g 0 ?st0 = (a, st)" by fastforce
  have "maybe_refresh standing_crypto sample_check ?w 0 ?st0 = (Inr (), ?st0\<lparr>gs_source := src, gs_next_refresh := Some 1\<rparr>)"
    using s(1) by (simp add: maybe_refresh_def refresh_locked_def sample_check_def dt_add_def DATETIME_MIN_def DATETIME_MAX_def
        DAY_def SECOND_def)
  from assess_source [OF a this] have src: "gs_source st = src" by simp
  have "check_run standing_crypto sample_check (gr_principal g) (gr_actionClass g) stored ?st0 st"
    by (rule check_run.asked [OF check_run.begun _ a]) (simp add: assms coordinate_def)
  with s(2) src that show ?thesis by blast
qed

lemma sample_check_begun:
  "grant_standing_check standing_config empty_source None 0 (Some 1)
     = Inr (sample_check, \<lparr>gs_source = empty_source, gs_next_refresh = None, gs_cache = []\<rparr>)"
  by (simp add: grant_standing_check_def sample_check_def)

end
