(* ===== verification/Broker_Pip.thy ===== *)
theory Broker_Pip
  imports Grant_Standing Pep
begin

text \<open>
  The policy information point (\<open>_make_pip\<close>, \<open>holds_harness_class\<close> and \<open>supplies_destination\<close> of
  \<open>broker/prototype/broker_server.py\<close>) and the vocabulary of a harness's own calls
  (\<open>broker/schemas/harness_tool.py\<close>).

  The pip reads the grant store, the standing check, the enforcement counters and the delegation tree and composes the
  facts the rule table decides on. Every clock reading it makes is a field of \<open>pip_clock\<close>; the establishment of the
  standing document's age is returned beside the facts, as \<open>timed\<close> expects it; the one state it changes is the
  standing check's own.
\<close>

section \<open>The vocabulary of a harness's own call\<close>

datatype ToolClass = file_read | file_write | file_edit | shell | web_fetch | web_search | other_class

datatype Locality = project | home | outside | remote | unknown_locality

definition tool_class_str :: "ToolClass \<Rightarrow> string" where
  "tool_class_str c =
     (case c of file_read \<Rightarrow> ''file-read'' | file_write \<Rightarrow> ''file-write'' | file_edit \<Rightarrow> ''file-edit'' | shell \<Rightarrow> ''shell''
      | web_fetch \<Rightarrow> ''web-fetch'' | web_search \<Rightarrow> ''web-search'' | other_class \<Rightarrow> ''other'')"

definition locality_str :: "Locality \<Rightarrow> string" where
  "locality_str l =
     (case l of project \<Rightarrow> ''project'' | home \<Rightarrow> ''home'' | outside \<Rightarrow> ''outside'' | remote \<Rightarrow> ''remote''
      | unknown_locality \<Rightarrow> ''unknown'')"

text \<open>\<open>member\<close>: the member of a closed set spelled exactly as given.\<close>

definition enum_member :: "string \<Rightarrow> ('a \<Rightarrow> string) \<Rightarrow> 'a list \<Rightarrow> string \<Rightarrow> exn + 'a" where
  "enum_member name spell xs s =
     (case find (\<lambda>x. spell x = s) xs of
        None \<Rightarrow> Inl (ValueError (name @ '' must be one of its closed set''))
      | Some x \<Rightarrow> Inr x)"

definition TOOL_CLASSES :: "ToolClass list" where
  "TOOL_CLASSES = [file_read, file_write, file_edit, shell, web_fetch, web_search, other_class]"

definition LOCALITIES :: "Locality list" where
  "LOCALITIES = [project, home, outside, remote, unknown_locality]"

definition coordinate_op :: "string \<Rightarrow> string \<Rightarrow> exn + string" where
  "coordinate_op cls loc =
     bind_r (enum_member ''tool_class'' tool_class_str TOOL_CLASSES cls) (\<lambda>c.
     bind_r (enum_member ''locality'' locality_str LOCALITIES loc) (\<lambda>l.
       Inr (tool_class_str c @ ''/'' @ locality_str l)))"

definition parse_coordinate_op :: "string \<Rightarrow> exn + ToolClass \<times> Locality" where
  "parse_coordinate_op op =
     (let cls = takeWhile (\<lambda>x. x \<noteq> CHR ''/'') op; rest = dropWhile (\<lambda>x. x \<noteq> CHR ''/'') op in
      if rest = [] \<or> CHR ''/'' \<in> set (tl rest)
      then Inl (ValueError ''a harness-tool op must be <tool_class>/<locality>'')
      else
        bind_r (enum_member ''tool_class'' tool_class_str TOOL_CLASSES cls) (\<lambda>c.
        bind_r (enum_member ''locality'' locality_str LOCALITIES (tl rest)) (\<lambda>l. Inr (c, l))))"

definition holds_harness_class :: "BrokeredCall \<Rightarrow> ToolClass list \<Rightarrow> bool" where
  "holds_harness_class call held_classes =
     (if held_classes = [] \<or> bc_tool call \<noteq> HARNESS_TOOL then False
      else (case parse_coordinate_op (bc_op call) of Inl _ \<Rightarrow> True | Inr (c, _) \<Rightarrow> c \<in> set held_classes))"

definition supplies_destination :: "BrokeredCall \<Rightarrow> bool" where
  "supplies_destination call =
     (case destination_arg (bc_manifest call) of
        None \<Rightarrow> False
      | Some dest \<Rightarrow>
        (case bc_args call of JNull \<Rightarrow> False | JObj kvs \<Rightarrow> dest \<in> fst ` set kvs | _ \<Rightarrow> True))"

section \<open>The policy information point\<close>

record PipConfig =
  pc_counter_cap :: rat
  pc_in_force_hash :: string
  pc_trusted_read_sources :: "string list"
  pc_max_query_bytes :: "int option"
  pc_query_egress_budget :: "rat option"
  pc_confidence :: "ConfidenceKnob option"
  pc_error_budget_tolerance :: "rat option"
  pc_period :: string
  pc_clock_skew :: timedelta
  pc_escalate_composed :: bool
  pc_harness_hold :: "ToolClass list"

record pip_clock =
  pk_now :: instant
  pk_counter :: instant
  pk_tree :: instant
  pk_query :: instant
  pk_budget :: instant

text \<open>The standing check of a deployment that has one: its keys, configuration, the world of a fetch.\<close>

type_synonym pip_check = "(crypto \<times> CheckConfig \<times> fetch_world) option"

text \<open>The grant a read gives authority to, and the quarantine signal: stored bytes that fail verification, or a grant
  issued under another envelope.\<close>

definition admitted_grant :: "string \<Rightarrow> 'p GrantReadResult \<Rightarrow> Grant option \<times> bool \<times> string option" where
  "admitted_grant in_force_hash res =
     (let g = (if rr_quarantined res then None else rr_grant res) in
      case g of
        Some gr \<Rightarrow>
          if gr_envelopeHash gr \<noteq> in_force_hash
          then (None, True, Some (''envelope hash mismatch: grant issued under '' @ gr_envelopeHash gr
                  @ '' but in-force '' @ in_force_hash))
          else (Some gr, rr_quarantined res, rr_quarantine_reason res)
      | None \<Rightarrow> (None, rr_quarantined res, rr_quarantine_reason res))"

definition established_standing :: "StandingAssessment \<Rightarrow> nested" where
  "established_standing a =
     (case sa_as_of a of None \<Rightarrow> [] | Some t \<Rightarrow> [(''issuer_standing'', fetched_at t, stated_at t)])"

text \<open>The level the decision is made on, why it fell, and what the standing check established.\<close>

definition pip_level ::
  "PipConfig \<Rightarrow> pip_check \<Rightarrow> record_reader \<Rightarrow> instant \<Rightarrow> Grant option \<Rightarrow> GrantStandingCheck
     \<Rightarrow> (exn + AutonomyLevel \<times> string option) \<times> nested \<times> GrantStandingCheck" where
  "pip_level cfg check records now g st =
     (case g of
        None \<Rightarrow> (Inr (in_loop, None), [], st)
      | Some gr \<Rightarrow>
        (case effective_level gr now (pc_clock_skew cfg) True of
           Inl e \<Rightarrow> (Inl e, [], st)
         | Inr level \<Rightarrow>
           (case check of
              None \<Rightarrow> (Inr (level, None), [], st)
            | Some (K, c, w) \<Rightarrow>
                if \<not> AUTONOMY_RANK (gr_lastSafeLevel gr) < AUTONOMY_RANK (gr_level gr) then (Inr (level, None), [], st)
                else
                  let (a, st') = assess K c records w gr now st in
                  (bind_r (effective_level gr now (pc_clock_skew cfg) (sa_held a)) (\<lambda>fallen.
                     Inr (if fallen \<noteq> level then (fallen, sa_reason a) else (level, None))),
                   established_standing a, st'))))"

definition tree_breach ::
  "'e EnforcementStore \<Rightarrow> 'e \<Rightarrow> ('g SubGrantStore \<times> 'g) option \<Rightarrow> PipConfig \<Rightarrow> instant \<Rightarrow> BrokeredCall \<Rightarrow> exn + bool" where
  "tree_breach E e sub_grants cfg now call =
     bind_r (resolve_tree_pool sub_grants now (bc_principal call) (bc_tool call) (bc_op call) (pc_counter_cap cfg) (pc_period cfg) 1)
       (\<lambda>draw. Inr (case draw of None \<Rightarrow> False | Some d \<Rightarrow> draw_cap d \<le> read_counter E e (draw_key d)))"

text \<open>A budget read from a scoped counter, where the deployment sets one.\<close>

definition counter_breach ::
  "'e EnforcementStore \<Rightarrow> 'e \<Rightarrow> PipConfig \<Rightarrow> instant \<Rightarrow> BrokeredCall \<Rightarrow> string \<Rightarrow> rat option \<Rightarrow> exn + bool" where
  "counter_breach E e cfg now call sfx budget =
     (case budget of None \<Rightarrow> Inr False
      | Some b \<Rightarrow>
          bind_r (scoped_counter_key now (bc_principal call) (bc_tool call) (bc_op call) sfx (pc_period cfg) None None)
            (\<lambda>k. Inr (b \<le> read_counter E e k)))"

definition query_facts ::
  "'e EnforcementStore \<Rightarrow> 'e \<Rightarrow> PipConfig \<Rightarrow> instant \<Rightarrow> BrokeredCall \<Rightarrow> exn + bool \<times> bool" where
  "query_facts E e cfg now call =
     (case egress_value call of
        None \<Rightarrow> Inr (False, False)
      | Some v \<Rightarrow>
          bind_r (counter_breach E e cfg now call QUERY_BYTES_SUFFIX (pc_query_egress_budget cfg)) (\<lambda>breached.
            Inr ((case pc_max_query_bytes cfg of None \<Rightarrow> False | Some n \<Rightarrow> n < int (utf8_len v)), breached)))"

definition make_pip ::
  "(string, 's) GrantStore \<Rightarrow> 'e EnforcementStore \<Rightarrow> ('g SubGrantStore \<times> 'g) option \<Rightarrow> PipConfig \<Rightarrow> pip_check
     \<Rightarrow> pip_clock \<Rightarrow> 's \<Rightarrow> 'e \<Rightarrow> BrokeredCall \<Rightarrow> GrantStandingCheck \<Rightarrow> (exn + Facts) \<times> nested \<times> GrantStandingCheck" where
  "make_pip S E sub_grants cfg check t s e call st =
     (case get_grant S s (bc_principal call) (bc_tool call @ ''.'' @ bc_op call) of
        Inl x \<Rightarrow> (Inl x, [], st)
      | Inr res \<Rightarrow>
          let (g, bad, reason) = admitted_grant (pc_in_force_hash cfg) res;
              (level, inner, st') = pip_level cfg check (list_stored_records S s) (pk_now t) g st in
          (bind_r level (\<lambda>(lvl, fall).
           bind_r (scoped_counter_key (pk_counter t) (bc_principal call) (bc_tool call) (bc_op call) ''counter'' (pc_period cfg) None None) (\<lambda>k.
           bind_r (tree_breach E e sub_grants cfg (pk_tree t) call) (\<lambda>tree.
           bind_r (query_facts E e cfg (pk_query t) call) (\<lambda>(too_long, query_spent).
           bind_r (counter_breach E e cfg (pk_budget t) call ERROR_BUDGET_SUFFIX (pc_error_budget_tolerance cfg)) (\<lambda>budget_spent.
             Inr \<lparr>grant_present = (g \<noteq> None), grant_level = lvl, error_budget_breached = budget_spent,
                  cap_budget_breached = (pc_counter_cap cfg \<le> read_counter E e k \<or> tree),
                  escalation_budget_available = True, human_reachable = True, transform_op = None,
                  quarantined = bad, quarantine_reason = reason, standing_fall_reason = fall,
                  read_source_trusted = (connector_source_id (bc_tool call) (bc_op call) \<in> set (pc_trusted_read_sources cfg)),
                  query_bytes_exceeded = too_long, query_egress_breached = query_spent,
                  confidence_below_bar = (\<not> meets_bar (bc_confidence call) (pc_confidence cfg)),
                  destination_composed = (pc_escalate_composed cfg \<and> supplies_destination call),
                  harness_class_held = holds_harness_class call (pc_harness_hold cfg)\<rparr>))))),
           inner, st'))"

section \<open>The coordinate of a harness's own call\<close>

lemma enum_member_iff:
  assumes "inj spell" and "\<And>x. x \<in> set xs"
  shows "enum_member name spell xs s = Inr x \<longleftrightarrow> s = spell x"
proof -
  have "find (\<lambda>y. spell y = s) xs = Some y \<Longrightarrow> spell y = s" for y by (auto simp: find_Some_iff)
  moreover have "find (\<lambda>y. spell y = spell x) xs \<noteq> None" using assms(2) by (auto simp: find_None_iff)
  ultimately show ?thesis
    using assms(1) by (fastforce simp: enum_member_def inj_eq split: option.splits)
qed

lemma tool_class_member: "enum_member name tool_class_str TOOL_CLASSES s = Inr c \<longleftrightarrow> s = tool_class_str c"
proof (rule enum_member_iff)
  show "inj tool_class_str" by (rule injI) (auto simp: tool_class_str_def split: ToolClass.splits)
  show "c \<in> set TOOL_CLASSES" for c by (cases c) (simp_all add: TOOL_CLASSES_def)
qed

lemma locality_member: "enum_member name locality_str LOCALITIES s = Inr l \<longleftrightarrow> s = locality_str l"
proof (rule enum_member_iff)
  show "inj locality_str" by (rule injI) (auto simp: locality_str_def split: Locality.splits)
  show "l \<in> set LOCALITIES" for l by (cases l) (simp_all add: LOCALITIES_def)
qed

lemma no_separator: "CHR ''/'' \<notin> set (tool_class_str c)" "CHR ''/'' \<notin> set (locality_str l)"
  by (cases c) (simp_all add: tool_class_str_def, cases l, simp_all add: locality_str_def)

text \<open>Parsing a coordinate inverts spelling it: an op parses to a class at a locality exactly when it is their spelling.\<close>

lemma parse_coordinate_op_iff:
  "parse_coordinate_op op = Inr (c, l) \<longleftrightarrow> coordinate_op (tool_class_str c) (locality_str l) = Inr op"
proof -
  have "takeWhile (\<lambda>x. x \<noteq> CHR ''/'') (tool_class_str c @ CHR ''/'' # y) = tool_class_str c"
    "dropWhile (\<lambda>x. x \<noteq> CHR ''/'') (tool_class_str c @ CHR ''/'' # y) = CHR ''/'' # y" for y
    using no_separator(1) by (auto simp: takeWhile_append dropWhile_append)
  then have "parse_coordinate_op (tool_class_str c @ ''/'' @ locality_str l) = Inr (c, l)"
    using no_separator(2) by (simp add: parse_coordinate_op_def Let_def bind_r_Inr_iff tool_class_member locality_member)
  moreover have "op = tool_class_str c @ ''/'' @ locality_str l" if "parse_coordinate_op op = Inr (c, l)"
  proof -
    let ?rest = "dropWhile (\<lambda>x. x \<noteq> CHR ''/'') op"
    have "?rest \<noteq> []" "takeWhile (\<lambda>x. x \<noteq> CHR ''/'') op = tool_class_str c" "tl ?rest = locality_str l"
      using that by (auto simp: parse_coordinate_op_def Let_def bind_r_Inr_iff tool_class_member locality_member split: if_splits)
    moreover from this(1) have "hd ?rest = CHR ''/''" using hd_dropWhile [of "\<lambda>x. x \<noteq> CHR ''/''" op] by blast
    ultimately show ?thesis
      by (metis append_Cons append_Nil list.collapse takeWhile_dropWhile_id)
  qed
  moreover have "coordinate_op (tool_class_str c) (locality_str l) = Inr (tool_class_str c @ ''/'' @ locality_str l)"
    using tool_class_member [of "''tool_class''" "tool_class_str c" c] locality_member [of "''locality''" "locality_str l" l]
    by (simp add: coordinate_op_def)
  ultimately show ?thesis by auto
qed

section \<open>What the facts stand for\<close>

lemma admitted_grant_Some:
  "fst (admitted_grant h res) = Some g \<longleftrightarrow> \<not> rr_quarantined res \<and> rr_grant res = Some g \<and> gr_envelopeHash g = h"
  by (auto simp: admitted_grant_def Let_def split: option.splits)

lemma pip_level_Inr:
  assumes "pip_level cfg check records now (Some g) st = (Inr (level, fall), inner, st')"
  shows "\<exists>standing_held. effective_level g now (pc_clock_skew cfg) standing_held = Inr level
    \<and> (\<forall>K c w. check = Some (K, c, w) \<and> AUTONOMY_RANK (gr_lastSafeLevel g) < AUTONOMY_RANK (gr_level g)
        \<longrightarrow> standing_held = sa_held (fst (assess K c records w g now st)))"
  using assms
  by (auto simp: pip_level_def Let_def bind_r_Inr_iff case_prod_unfold split: sum.splits option.splits if_splits prod.splits)

lemma make_pip_Inr:
  assumes "make_pip S E sub_grants cfg check t s e call st = (Inr f, inner, st')"
  shows "\<exists>res level fall k tree. get_grant S s (bc_principal call) (bc_tool call @ ''.'' @ bc_op call) = Inr res
    \<and> pip_level cfg check (list_stored_records S s) (pk_now t) (fst (admitted_grant (pc_in_force_hash cfg) res)) st = (Inr (level, fall), inner, st')
    \<and> scoped_counter_key (pk_counter t) (bc_principal call) (bc_tool call) (bc_op call) ''counter'' (pc_period cfg) None None = Inr k
    \<and> tree_breach E e sub_grants cfg (pk_tree t) call = Inr tree
    \<and> grant_present f = (fst (admitted_grant (pc_in_force_hash cfg) res) \<noteq> None) \<and> grant_level f = level
    \<and> cap_budget_breached f = (pc_counter_cap cfg \<le> read_counter E e k \<or> tree) \<and> transform_op f = None"
  using assms
  by (auto simp: make_pip_def Let_def bind_r_Inr_iff case_prod_unfold prod_eq_iff split: sum.splits)

lemma write_authority:
  assumes pip: "make_pip S E sub_grants cfg check t s e call st = (Inr f, inner, st')"
    and runs: "executes (decide sha call f)" and is_write: "\<not> is_read call"
  shows "\<exists>res g standing_held level k. get_grant S s (bc_principal call) (bc_tool call @ ''.'' @ bc_op call) = Inr res
    \<and> \<not> rr_quarantined res \<and> rr_grant res = Some g \<and> gr_envelopeHash g = pc_in_force_hash cfg
    \<and> effective_level g (pk_now t) (pc_clock_skew cfg) standing_held = Inr level \<and> level \<noteq> in_loop
    \<and> (\<forall>K c w. check = Some (K, c, w) \<and> AUTONOMY_RANK (gr_lastSafeLevel g) < AUTONOMY_RANK (gr_level g)
        \<longrightarrow> standing_held = sa_held (fst (assess K c (list_stored_records S s) w g (pk_now t) st)))
    \<and> scoped_counter_key (pk_counter t) (bc_principal call) (bc_tool call) (bc_op call) ''counter'' (pc_period cfg) None None = Inr k
    \<and> read_counter E e k < pc_counter_cap cfg \<and> tree_breach E e sub_grants cfg (pk_tree t) call = Inr False
    \<and> \<not> (is_external call \<and> (is_tainted call \<or> reversible (bc_manifest call) = Some False))"
proof -
  obtain res level fall k tree where p: "get_grant S s (bc_principal call) (bc_tool call @ ''.'' @ bc_op call) = Inr res"
    "pip_level cfg check (list_stored_records S s) (pk_now t) (fst (admitted_grant (pc_in_force_hash cfg) res)) st = (Inr (level, fall), inner, st')"
    "scoped_counter_key (pk_counter t) (bc_principal call) (bc_tool call) (bc_op call) ''counter'' (pc_period cfg) None None = Inr k"
    "tree_breach E e sub_grants cfg (pk_tree t) call = Inr tree"
    "grant_present f = (fst (admitted_grant (pc_in_force_hash cfg) res) \<noteq> None)" "grant_level f = level"
    "cap_budget_breached f = (pc_counter_cap cfg \<le> read_counter E e k \<or> tree)" "transform_op f = None"
    using make_pip_Inr [OF pip] by blast
  have x: "grant_present f" "\<not> cap_budget_breached f" "level \<noteq> in_loop" "\<not> (is_tainted call \<and> is_external call)"
    "\<not> (is_external call \<and> reversible (bc_manifest call) = Some False)"
    using runs is_write p(6,8) by (auto simp: executes_iff)
  then obtain g where g: "fst (admitted_grant (pc_in_force_hash cfg) res) = Some g" using p(5) by auto
  then have "\<not> rr_quarantined res" "rr_grant res = Some g" "gr_envelopeHash g = pc_in_force_hash cfg"
    by (simp_all add: admitted_grant_Some)
  moreover obtain standing_held where "effective_level g (pk_now t) (pc_clock_skew cfg) standing_held = Inr level"
    "\<forall>K c w. check = Some (K, c, w) \<and> AUTONOMY_RANK (gr_lastSafeLevel g) < AUTONOMY_RANK (gr_level g)
        \<longrightarrow> standing_held = sa_held (fst (assess K c (list_stored_records S s) w g (pk_now t) st))"
    using pip_level_Inr p(2) unfolding g by blast
  moreover have "read_counter E e k < pc_counter_cap cfg" "tree = False" using x(2) p(7) by auto
  ultimately show ?thesis using p(1,3,4) x(3-5) by blast
qed

text \<open>C10: a write runs without a human only inside the authority that is in force at the instant of the decision. When
  the rule table executes a write on the facts of the pip, the grant store holds, under exactly the call's principal and
  \<open>tool.op\<close>, a grant that verifies and was issued under the envelope in force; the level it acts at, with a passed term
  and a lost issuer standing taken into account, is above in-loop; the principal's own counter and the pool of its
  delegation tree are below their caps; and the call is neither a tainted external write nor an irreversible external
  one.\<close>

theorem write_runs_only_in_authority:
  assumes pip: "make_pip S E sub_grants cfg check t s e call st = (Inr f, inner, st')"
    and runs: "executes (decide sha call f)" and is_write: "\<not> is_read call"
  shows "\<exists>res g standing_held level k. get_grant S s (bc_principal call) (bc_tool call @ ''.'' @ bc_op call) = Inr res
    \<and> \<not> rr_quarantined res \<and> rr_grant res = Some g \<and> gr_envelopeHash g = pc_in_force_hash cfg
    \<and> effective_level g (pk_now t) (pc_clock_skew cfg) standing_held = Inr level \<and> level \<noteq> in_loop
    \<and> (\<forall>K c w. check = Some (K, c, w) \<and> AUTONOMY_RANK (gr_lastSafeLevel g) < AUTONOMY_RANK (gr_level g)
        \<longrightarrow> standing_held = sa_held (fst (assess K c (list_stored_records S s) w g (pk_now t) st)))
    \<and> scoped_counter_key (pk_counter t) (bc_principal call) (bc_tool call) (bc_op call) ''counter'' (pc_period cfg) None None = Inr k
    \<and> read_counter E e k < pc_counter_cap cfg \<and> tree_breach E e sub_grants cfg (pk_tree t) call = Inr False
    \<and> \<not> (is_external call \<and> (is_tainted call \<or> reversible (bc_manifest call) = Some False))"
  by (rule write_authority [OF assms])

section \<open>Witnesses\<close>

text \<open>A store that holds one grant, under any coordinate it is written at.\<close>

definition pip_codec :: "Grant \<Rightarrow> string grant_codec" where
  "pip_codec g =
     \<lparr>parse_delta = (\<lambda>_. None), dump_grant = (\<lambda>_. ''g''), load_grant = (\<lambda>_. Inr g), dump_record = canonical_record_payload,
      load_record = (\<lambda>_. Inr sample_signed), hmac_of = (\<lambda>s. ''mac:'' @ s)\<rparr>"

definition mail_op :: ToolOp where
  "mail_op = sample_note\<lparr>op_tool := ''mail'', op_op := ''send''\<rparr>"

definition pip_ledger :: "string InMemoryLedger" where
  "pip_ledger =
     gmem_put_grant (pip_codec licensed_grant) licensed_grant
       \<lparr>lg_grants = [],
        lg_records = [((promotion_record_pk sample_principal ''mail.send'', promotion_record_sk sample_signed),
          canonical_record_payload sample_signed, Some (sign_record standing_crypto (standing_signer ''k1'' ''P'') sample_signed))]\<rparr>"

definition pip_config :: PipConfig where
  "pip_config =
     \<lparr>pc_counter_cap = 3, pc_in_force_hash = ''e1'', pc_trusted_read_sources = [], pc_max_query_bytes = None,
      pc_query_egress_budget = None, pc_confidence = None, pc_error_budget_tolerance = None, pc_period = UTC_DAY,
      pc_clock_skew = 0, pc_escalate_composed = False, pc_harness_hold = []\<rparr>"

abbreviation pip_now :: pip_clock where
  "pip_now \<equiv> \<lparr>pk_now = 0, pk_counter = 0, pk_tree = 0, pk_query = 0, pk_budget = 0\<rparr>"

abbreviation no_delegation :: "(unit SubGrantStore \<times> unit) option" where "no_delegation \<equiv> None"

lemma mail_read:
  "get_grant (gmem_ops (pip_codec licensed_grant)) pip_ledger sample_principal ''mail.send''
     = Inr \<lparr>rr_grant = Some licensed_grant, rr_quarantined = False, rr_quarantine_reason = None,
            rr_raw_data = Some ''g'', rr_stored_hash = Some ''mac:g''\<rparr>"
  by (simp add: gmem_ops_def gmem_get_grant_def pip_ledger_def gmem_put_grant_def grant_key_def build_item_def Let_def
      read_result_from_item_def pip_codec_def licensed_grant_def)

lemma mail_records:
  "list_stored_records (gmem_ops (pip_codec licensed_grant)) pip_ledger sample_principal ''mail.send''
     = Inr [signed_entry ''k1'' ''P'' sample_signed]"
  by (simp add: gmem_ops_def rmem_list_stored_records_def rmem_matching_def pip_ledger_def gmem_put_grant_def pip_codec_def
      signed_entry_def Let_def)

lemma mail_level: "effective_level licensed_grant 0 0 held = Inr (if held then on_loop else in_loop)"
  by (simp add: effective_level_def term_passed_def licensed_grant_def AUTONOMY_RANK_def)

lemma mail_key:
  "scoped_counter_key 0 sample_principal ''mail'' ''send'' ''counter'' UTC_DAY None None
     = Inr (scoped_key_str sample_principal ''mail'' ''send'' ''counter'' ''19700101'')"
  by code_simp

lemma mail_facts:
  assumes "pip_level pip_config check (list_stored_records (gmem_ops (pip_codec licensed_grant)) pip_ledger) 0 (Some licensed_grant) st
    = (Inr (level, fall), inner, st')"
  shows "make_pip (gmem_ops (pip_codec licensed_grant)) mem_ops no_delegation pip_config check pip_now pip_ledger mem_init
      (sample_call mail_op False) st = (Inr ((sample_facts level)\<lparr>standing_fall_reason := fall\<rparr>), inner, st')"
  using assms mail_read mail_key
  by (simp add: make_pip_def sample_call_def mail_op_def sample_note_def admitted_grant_def Let_def pip_config_def tree_breach_def
      resolve_tree_pool_def query_facts_def egress_value_def counter_breach_def meets_bar_def holds_harness_class_def sample_facts_def
      mem_ops_def mem_read_counter_def mem_init_def licensed_grant_def)

theorem write_runs_only_in_authority_witness:
  "\<exists>g level k. executes (decide id (sample_call mail_op False) (sample_facts on_loop))
    \<and> get_grant (gmem_ops (pip_codec licensed_grant)) pip_ledger sample_principal ''mail.send'' = Inr g \<and> \<not> rr_quarantined g
    \<and> level \<noteq> in_loop \<and> read_counter mem_ops mem_init k < 3"
proof -
  let ?st = "\<lparr>gs_source = empty_source, gs_next_refresh = None, gs_cache = []\<rparr>"
  have "pip_level pip_config None (list_stored_records (gmem_ops (pip_codec licensed_grant)) pip_ledger) 0 (Some licensed_grant) ?st
      = (Inr (on_loop, None), [], ?st)" using mail_level [of True] by (simp add: pip_level_def pip_config_def)
  note pip = mail_facts [OF this]
  have f: "(sample_facts on_loop)\<lparr>standing_fall_reason := None\<rparr> = sample_facts on_loop" by (simp add: sample_facts_def)
  have runs: "executes (decide id (sample_call mail_op False) (sample_facts on_loop))" "\<not> is_read (sample_call mail_op False)"
    by (simp_all add: executes_iff sample_facts_def sample_call_def mail_op_def sample_note_def)
  have call: "bc_principal (sample_call mail_op False) = sample_principal" "bc_tool (sample_call mail_op False) = ''mail''"
    "bc_op (sample_call mail_op False) = ''send''" by (simp_all add: sample_call_def mail_op_def)
  have "pc_counter_cap pip_config = 3" by (simp add: pip_config_def)
  with write_runs_only_in_authority [OF pip [unfolded f] runs] runs(1) show ?thesis by (auto simp: call)
qed

end
