(* ===== verification/Pep_Harness.thy ===== *)
theory Pep_Harness
  imports Pep_Release Broker_Pip
begin

text \<open>
  A harness's own tool calls (\<open>decide_harness_call\<close>, \<open>refuse_decision_request\<close>, \<open>record_observed_event\<close> and
  \<open>record_refused_connections\<close> of \<open>broker/runtime/pep.py\<close>, with \<open>broker/runtime/harness_decision.py\<close> and
  \<open>broker/runtime/observed.py\<close>). A call the harness asks about is decided at a reserved coordinate through the
  pipeline of every call, with the hooks of the decision mouth in place of the connector; the answer is a
  permit or a refusal. A held call that was approved is permitted once when it is asked for again.
\<close>

section \<open>Answers\<close>

definition PERMIT :: string where "PERMIT = ''permit''"
definition REFUSE :: string where "REFUSE = ''refuse''"

definition REFUSED_SENTENCE :: string where
  "REFUSED_SENTENCE =
     ''Refused by policy. Do not attempt the same action another way. Tell the user what was refused, and continue with any part of the task this does not affect.''"

definition held_sentence :: "string \<Rightarrow> string" where
  "held_sentence iid =
     ''Held for approval by policy (intent '' @ iid @ ''). Do not attempt the same action another way. Tell the user it is waiting for approval; if it is approved, the same call will be allowed once.''"

definition FAULT_REASON :: string where "FAULT_REASON = ''the broker could not decide this call; refused''"
definition MALFORMED_REASON :: string where "MALFORMED_REASON = ''malformed decision request; refused''"

definition HARNESS_RELEASE_MISMATCH_REASON :: string where
  "HARNESS_RELEASE_MISMATCH_REASON = ''an approved intent under this call's id does not match the call; refused''"

definition HARNESS_APPROVAL_LAPSED_REASON :: string where
  "HARNESS_APPROVAL_LAPSED_REASON =
     ''approval lapsed unused: the harness did not ask again before the intent expired''"

definition MOUTH_REFUSAL_TOOL :: string where "MOUTH_REFUSAL_TOOL = ''broker-mouth''"

definition permitted_reason :: "string \<Rightarrow> string option \<Rightarrow> string" where
  "permitted_reason op iid =
     (let coord = HARNESS_TOOL @ ''.'' @ op in
      case iid of
        None \<Rightarrow> ''permitted at '' @ coord @ '' as declared by the manifest; performed by the harness''
      | Some i \<Rightarrow> ''permitted once at '' @ coord @ '' on the approval of intent '' @ i
                   @ '', as declared by the manifest; performed by the harness'')"

definition transform_reason :: "string \<Rightarrow> string" where
  "transform_reason op =
     ''configuration error: the PDP returned transform at '' @ HARNESS_TOOL @ ''.'' @ op
     @ '', and the broker holds no safer op for a harness tool; refused''"

definition DECISION_REFUSAL_CAUSES :: "string list" where
  "DECISION_REFUSAL_CAUSES = [''bad-method'', ''too-large'', ''bad-body'', ''bad-field'']"

record HarnessDecision =
  hd_answer :: string
  hd_reason :: string
  hd_intent_id :: "string option"
  hd_decision_kind :: "string option"
  hd_outcome :: "string option"

definition harness_refused :: "string \<Rightarrow> string option \<Rightarrow> string option \<Rightarrow> string option \<Rightarrow> HarnessDecision" where
  "harness_refused reason dk outcome iid =
     \<lparr>hd_answer = REFUSE, hd_reason = reason, hd_intent_id = iid, hd_decision_kind = dk, hd_outcome = outcome\<rparr>"

definition is_held_answer :: "HarnessDecision \<Rightarrow> bool" where
  "is_held_answer d \<longleftrightarrow> hd_answer d = REFUSE \<and> hd_intent_id d \<noteq> None"

definition answer_text :: "HarnessDecision \<Rightarrow> string option" where
  "answer_text d =
     (if hd_answer d = PERMIT then None
      else Some ((if is_held_answer d then held_sentence (the (hd_intent_id d)) else REFUSED_SENTENCE)
                 @ '' Reason: '' @ hd_reason d))"

definition VERB_ANSWER :: "decision_kind \<Rightarrow> string" where
  "VERB_ANSWER k = (case k of k_allow \<Rightarrow> PERMIT | _ \<Rightarrow> REFUSE)"

section \<open>Reports and requests\<close>

definition is_lower :: "char \<Rightarrow> bool" where
  "is_lower c \<longleftrightarrow> CHR ''a'' \<le> c \<and> c \<le> CHR ''z''"

definition is_digit_char :: "char \<Rightarrow> bool" where
  "is_digit_char c \<longleftrightarrow> CHR ''0'' \<le> c \<and> c \<le> CHR ''9''"

definition SHORT_CODE :: "string \<Rightarrow> bool" where
  "SHORT_CODE s =
     (case s of
        [] \<Rightarrow> False
      | c # cs \<Rightarrow> is_lower c \<and> length cs \<le> 39
          \<and> list_all (\<lambda>x. is_lower x \<or> is_digit_char x \<or> x = CHR ''_'' \<or> x = CHR ''-'') cs)"

definition DIGEST :: "string \<Rightarrow> bool" where
  "DIGEST s \<longleftrightarrow>
     take 7 s = ''sha256:'' \<and> length s = 71
     \<and> list_all (\<lambda>x. is_digit_char x \<or> (CHR ''a'' \<le> x \<and> x \<le> CHR ''f'')) (drop 7 s)"

definition HARNESS_SOURCE_PREFIX :: string where "HARNESS_SOURCE_PREFIX = ''harness:''"

definition TAINTING_CLASSES :: "ToolClass list" where
  "TAINTING_CLASSES = [file_read, web_fetch, web_search]"

definition harness_op :: "ToolClass \<Rightarrow> Locality \<Rightarrow> string" where
  "harness_op c l = tool_class_str c @ ''/'' @ locality_str l"

lemma coordinate_op_members: "coordinate_op (tool_class_str c) (locality_str l) = Inr (harness_op c l)"
  by (cases c; cases l) (simp_all add: coordinate_op_def harness_op_def enum_member_def tool_class_str_def locality_str_def
      TOOL_CLASSES_def LOCALITIES_def)

definition harness_source_id :: "string \<Rightarrow> ToolClass \<Rightarrow> Locality \<Rightarrow> string" where
  "harness_source_id harness c l = HARNESS_SOURCE_PREFIX @ harness @ ''/'' @ harness_op c l"

record ObservedEvent =
  oe_mouth :: string
  oe_harness :: string
  oe_tool_class :: ToolClass
  oe_locality :: Locality
  oe_subject_digest :: string
  oe_result_digest :: "string option"
  oe_call_digest :: "string option"

record DecisionRequest =
  dq_mouth :: string
  dq_harness :: string
  dq_tool_class :: ToolClass
  dq_locality :: Locality
  dq_subject_digest :: string
  dq_input_digest :: string
  dq_call_digest :: string

definition short_code_field :: "string \<Rightarrow> json \<Rightarrow> exn + string" where
  "short_code_field name v =
     (case v of
        JStr s \<Rightarrow> if SHORT_CODE s then Inr s else Inl (ValueError (name @ '' must be a short lowercase code''))
      | _ \<Rightarrow> Inl (ValueError (name @ '' must be a short lowercase code'')))"

definition digest_field :: "string \<Rightarrow> json \<Rightarrow> exn + string" where
  "digest_field name v =
     (case v of
        JStr s \<Rightarrow> if DIGEST s then Inr s else Inl (ValueError (name @ '' must be 'sha256:' and 64 lowercase hex digits''))
      | _ \<Rightarrow> Inl (ValueError (name @ '' must be 'sha256:' and 64 lowercase hex digits'')))"

definition member_field :: "string \<Rightarrow> ('a \<Rightarrow> string) \<Rightarrow> 'a list \<Rightarrow> json \<Rightarrow> exn + 'a" where
  "member_field name spell xs v =
     (case v of JStr s \<Rightarrow> enum_member name spell xs s | _ \<Rightarrow> Inl (ValueError (name @ '' must be a string'')))"

definition optional_digest :: "string \<Rightarrow> json option \<Rightarrow> exn + string option" where
  "optional_digest name v =
     (case v of None \<Rightarrow> Inr None | Some x \<Rightarrow> bind_r (digest_field name x) (\<lambda>s. Inr (Some s)))"

definition validate_observed_event ::
  "json \<Rightarrow> json \<Rightarrow> json \<Rightarrow> json \<Rightarrow> json \<Rightarrow> json option \<Rightarrow> json option \<Rightarrow> exn + ObservedEvent" where
  "validate_observed_event mouth harness tool_class loc subject_digest result_digest call_digest =
     bind_r (short_code_field ''mouth'' mouth) (\<lambda>mo.
     bind_r (short_code_field ''harness'' harness) (\<lambda>ha.
     bind_r (member_field ''tool_class'' tool_class_str TOOL_CLASSES tool_class) (\<lambda>c.
     bind_r (member_field ''locality'' locality_str LOCALITIES loc) (\<lambda>l.
     bind_r (digest_field ''subject_digest'' subject_digest) (\<lambda>sd.
     bind_r (optional_digest ''result_digest'' result_digest) (\<lambda>rd.
     bind_r (optional_digest ''call_digest'' call_digest) (\<lambda>cd.
       Inr \<lparr>oe_mouth = mo, oe_harness = ha, oe_tool_class = c, oe_locality = l, oe_subject_digest = sd,
            oe_result_digest = rd, oe_call_digest = cd\<rparr>)))))))"

definition validate_decision_request ::
  "json \<Rightarrow> json \<Rightarrow> json \<Rightarrow> json \<Rightarrow> json \<Rightarrow> json \<Rightarrow> json \<Rightarrow> exn + DecisionRequest" where
  "validate_decision_request mouth harness tool_class loc subject_digest input_digest call_digest =
     bind_r (short_code_field ''mouth'' mouth) (\<lambda>mo.
     bind_r (short_code_field ''harness'' harness) (\<lambda>ha.
     bind_r (member_field ''tool_class'' tool_class_str TOOL_CLASSES tool_class) (\<lambda>c.
     bind_r (member_field ''locality'' locality_str LOCALITIES loc) (\<lambda>l.
     bind_r (digest_field ''subject_digest'' subject_digest) (\<lambda>sd.
     bind_r (digest_field ''input_digest'' input_digest) (\<lambda>ip.
     bind_r (digest_field ''call_digest'' call_digest) (\<lambda>cd.
       Inr \<lparr>dq_mouth = mo, dq_harness = ha, dq_tool_class = c, dq_locality = l, dq_subject_digest = sd,
            dq_input_digest = ip, dq_call_digest = cd\<rparr>)))))))"

definition dq_op :: "DecisionRequest \<Rightarrow> string" where
  "dq_op rq = harness_op (dq_tool_class rq) (dq_locality rq)"

definition dq_source_id :: "DecisionRequest \<Rightarrow> string" where
  "dq_source_id rq = harness_source_id (dq_harness rq) (dq_tool_class rq) (dq_locality rq)"

definition dq_taints :: "DecisionRequest \<Rightarrow> bool" where
  "dq_taints rq \<longleftrightarrow> dq_tool_class rq \<in> set TAINTING_CLASSES"

definition oe_source_id :: "ObservedEvent \<Rightarrow> string" where
  "oe_source_id e = harness_source_id (oe_harness e) (oe_tool_class e) (oe_locality e)"

definition oe_taints :: "ObservedEvent \<Rightarrow> bool" where
  "oe_taints e \<longleftrightarrow> oe_tool_class e \<in> set TAINTING_CLASSES"

section \<open>Reports\<close>

text \<open>The sources of the consumer's list are trusted; any other is ingested before the record is written.\<close>

definition observed_record :: "('e, 'i, 'h, 'k, 'g) BrokerRuntime \<Rightarrow> ObservedEvent \<Rightarrow> emission" where
  "observed_record R ev =
     (emission_of R HARNESS_TOOL (tool_class_str (oe_tool_class ev))
       (JObj [(''call'', opt_json (oe_call_digest ev)), (''harness'', JStr (oe_harness ev)),
              (''locality'', JStr (locality_str (oe_locality ev))), (''subject'', JStr (oe_subject_digest ev))])
       ''abstain'' ''observed''
       (Some (''observed, not decided: '' @ oe_harness ev @ '' '' @ tool_class_str (oe_tool_class ev) @ '' (''
          @ locality_str (oe_locality ev) @ '') reported by mouth '' @ oe_mouth ev)))
       \<lparr>em_result_digest := oe_result_digest ev\<rparr>"

definition record_observed_event ::
  "('e, 'i, 'h, 'k, 'g) BrokerRuntime \<Rightarrow> json \<Rightarrow> json \<Rightarrow> json \<Rightarrow> json \<Rightarrow> json \<Rightarrow> json option \<Rightarrow> json option
     \<Rightarrow> (('e, 'i, 'h, 'k) world, string option) act" where
  "record_observed_event R mouth harness tool_class loc subject_digest result_digest call_digest =
     bind_w (lift_w (validate_observed_event mouth harness tool_class loc subject_digest result_digest call_digest)) (\<lambda>ev.
     bind_w
       (if oe_taints ev \<and> oe_source_id ev \<notin> set (rt_trusted_read_sources R)
        then bind_w (session_turn R) (\<lambda>_. bind_w (ingest_w R [oe_source_id ev]) (\<lambda>_. ret_w (Some (oe_source_id ev))))
        else ret_w None) (\<lambda>ingested.
     bind_w (emit_w R (observed_record R ev)) (\<lambda>_. ret_w ingested)))"

text \<open>Connections a mouth refused: the causes are a mapping of the host, so the pairs have distinct keys; a count
  that is not a positive integer is refused.\<close>

definition record_refused_connections ::
  "('e, 'i, 'h, 'k, 'g) BrokerRuntime \<Rightarrow> string \<Rightarrow> (string \<times> int) list \<Rightarrow> (('e, 'i, 'h, 'k) world, unit) act" where
  "record_refused_connections R mouth causes =
     (if \<not> SHORT_CODE mouth then raise_w (ValueError ''mouth must be a short lowercase code'')
      else if causes = [] then raise_w (ValueError ''causes is empty: there is no refusal to record'')
      else if \<not> list_all (\<lambda>(c, n). SHORT_CODE c \<and> 1 \<le> n) causes
      then raise_w (ValueError ''refusal cause or count'')
      else
        (let ordered = sort_key fst causes in
         emit_w R (emission_of R MOUTH_REFUSAL_TOOL mouth
           (JObj [(''causes'', JObj (map (\<lambda>(c, n). (c, JNum (of_int n))) ordered))]) ''deny'' ''denied''
           (Some (int_str (sum_list (map snd ordered)) @ '' connection(s) refused before any frame was served: ''
             @ joined_with '', '' (map (\<lambda>(c, n). c @ ''='' @ int_str n) ordered))))))"

section \<open>The pipeline with the hooks of the decision mouth\<close>

text \<open>\<open>_PipelineHooks\<close>. The inputs of the decision are those of the state. The sentinel of a recorded permit is a
  value no other executor result is compared with; only the harness executor can hand it back, because a
  harness request has no idempotency key.\<close>

record 'w PipelineHooks =
  hk_decider :: "BrokeredCall \<Rightarrow> Facts \<Rightarrow> Decision"
  hk_executor :: "BrokeredCall \<Rightarrow> Decision \<Rightarrow> ('w, json option) act"
  hk_hold_id :: string
  hk_extra :: "emission \<Rightarrow> emission"

definition PERMIT_RECORDED :: json where "PERMIT_RECORDED = JStr ''_PERMIT_RECORDED''"

definition gated_hooked ::
  "('e, 'i, 'h, 'k, 'g) BrokerRuntime \<Rightarrow> ('e, 'i, 'h, 'k) world PipelineHooks \<Rightarrow> BrokeredCall \<Rightarrow> Facts \<Rightarrow> ('e, 'i, 'h, 'k) world
     \<Rightarrow> Decision \<times> ('e, 'i, 'h, 'k) world" where
  "gated_hooked R hk call facts w =
     (gate (hk_decider hk) (s_inputs (snd w)) (rt_clock R (s_ticks (snd w))) call facts,
      fst w, (snd w)\<lparr>s_ticks := Suc (s_ticks (snd w))\<rparr>)"

definition hooked_actions ::
  "('e, 'i, 'h, 'k, 'g) BrokerRuntime \<Rightarrow> ('e, 'i, 'h, 'k) world PipelineHooks \<Rightarrow> ('e, 'i, 'h, 'k) world actions" where
  "hooked_actions R hk =
     \<lparr>act_facts = timed_pip R, act_decide = gated_hooked R hk, act_execute = hk_executor hk\<rparr>"

definition hold_hooked ::
  "('e, 'i, 'h, 'k, 'g) BrokerRuntime \<Rightarrow> ('e, 'i, 'h, 'k) world PipelineHooks \<Rightarrow> BrokeredCall \<Rightarrow> RenderedIntent \<Rightarrow> string option
     \<Rightarrow> (('e, 'i, 'h, 'k) world, BrokerResponse) act" where
  "hold_hooked R hk call rendered reason =
     catch_w (materialize_w R call rendered (Some (hk_hold_id hk)))
       (\<lambda>e. if is_quarantine e
            then bind_w (surface_quarantined_intent R (hk_hold_id hk) (exn_str e) ''hold'') (\<lambda>_.
                   ret_w (response k_deny (Some ''intent quarantined'')))
            else if exn_class e = ''IntentAlreadyPendingError'' then deny_intent_id_collision R call (hk_hold_id hk)
            else raise_w e)
       (\<lambda>approval.
         bind_w (flood_check R call (ar_status approval = ''coalesced'')) (\<lambda>_.
         bind_w (record_w R (held_record R call reason approval)) (\<lambda>_.
           ret_w ((response k_require_approval reason)\<lparr>br_intent_id := Some (ar_intent_id approval)\<rparr>))))"

definition respond_hooked ::
  "('e, 'i, 'h, 'k, 'g) BrokerRuntime \<Rightarrow> ('e, 'i, 'h, 'k) world PipelineHooks \<Rightarrow> BrokeredCall \<Rightarrow> EnforcementResult
     \<Rightarrow> (('e, 'i, 'h, 'k) world, BrokerResponse) act" where
  "respond_hooked R hk call res =
     (let eff = er_decision res in
      if idempotent res
      then ret_w ((response (kind eff) (decision_reason eff))\<lparr>br_result := er_result res, br_idempotent := True\<rparr>)
      else if executes eff then ret_w ((response (kind eff) None)\<lparr>br_result := er_result res\<rparr>)
      else
        (case eff of
           RequireApproval rendered reason \<Rightarrow> hold_hooked R hk call rendered reason
         | _ \<Rightarrow>
             (let reason = refusal_reason (rt_hash R) call eff in
              bind_w (record_w R (hk_extra hk (refusal_record R call eff reason))) (\<lambda>_.
                ret_w (response (kind eff) reason)))))"

definition enforce_hooked ::
  "('e, 'i, 'h, 'k, 'g) BrokerRuntime \<Rightarrow> ('e, 'i, 'h, 'k) world PipelineHooks \<Rightarrow> BrokeredCall \<Rightarrow> Decision
     \<Rightarrow> (('e, 'i, 'h, 'k) world, EnforcementResult) act" where
  "enforce_hooked R hk call initial =
     bind_w (wall_w R) (\<lambda>now.
     bind_w (lift_w (scoped_counter_key now (rt_principal R) (bc_tool call) (bc_op call) ACTION_CAP_SUFFIX
       (rt_counter_period R) None None)) (\<lambda>ck.
     bind_w (tree_draws R call) (\<lambda>draws.
     bind_w tick_w (\<lambda>n.
       enforce_w (lift_store (rt_store R)) (rt_env R n) (hooked_actions R hk)
         \<lparr>rq_call = call, initial_decision = initial, idempotency_key = None,
          counter_key = ck, counter_delta = 1, counter_cap = rt_counter_cap R, ancestor_draws = draws\<rparr>))))"

definition decide_hooked ::
  "('e, 'i, 'h, 'k, 'g) BrokerRuntime \<Rightarrow> ('e, 'i, 'h, 'k) world PipelineHooks \<Rightarrow> BrokeredCall
     \<Rightarrow> (('e, 'i, 'h, 'k) world, BrokerResponse) act" where
  "decide_hooked R hk call =
     bind_w (timed_pip R call) (\<lambda>facts.
     bind_w (when_w (quarantined facts) (record_w R (hk_extra hk (quarantined_grant_record R call facts)))) (\<lambda>_.
     bind_w (\<lambda>w. apfst Inr (gated_hooked R hk call facts w)) (\<lambda>initial.
       catch_w (enforce_hooked R hk call initial)
         (\<lambda>e. if is_connector_error e
              then ret_w ((response k_deny (Some ''connector execution failed''))
                            \<lparr>br_execution_outcome := Some (failure_outcome e)\<rparr>)
              else raise_w e)
         (respond_hooked R hk call))))"

definition pipeline_hooked ::
  "('e, 'i, 'h, 'k, 'g) BrokerRuntime \<Rightarrow> ('e, 'i, 'h, 'k) world PipelineHooks \<Rightarrow> AgentRequest
     \<Rightarrow> (('e, 'i, 'h, 'k) world, BrokerResponse) act" where
  "pipeline_hooked R hk rq =
     bind_w (session_turn R) (\<lambda>turn.
       case table_entry (rt_optable R) (ag_tool rq) (ag_op rq) of
         None \<Rightarrow>
           (let reason = ''no manifest entry for '' @ ag_tool rq @ ''.'' @ ag_op rq in
            bind_w (record_w R (hk_extra hk (emission_of R (ag_tool rq) (ag_op rq) (ag_args rq) ''deny'' ''denied'' (Some reason))))
              (\<lambda>_. ret_w (response k_deny (Some reason))))
       | Some mop \<Rightarrow>
           bind_w (stamp_call_ts R) (\<lambda>ts. decide_hooked R hk (materialized_call R rq turn mop ts None)))"

section \<open>Deciding a harness's call\<close>

definition harness_decider :: "(string \<Rightarrow> string) \<Rightarrow> BrokeredCall \<Rightarrow> Facts \<Rightarrow> Decision" where
  "harness_decider sha call facts =
     (let decided = decide sha call facts in
      case decided of Transform _ _ \<Rightarrow> Deny (transform_reason (bc_op call)) | _ \<Rightarrow> decided)"

definition harness_release_decider :: "(string \<Rightarrow> string) \<Rightarrow> BrokeredCall \<Rightarrow> Facts \<Rightarrow> Decision" where
  "harness_release_decider sha call facts =
     (let decided = decide sha call facts in
      case decided of
        Allow \<Rightarrow> Allow
      | RequireApproval _ _ \<Rightarrow> Allow
      | Transform _ _ \<Rightarrow> Deny (transform_reason (bc_op call))
      | _ \<Rightarrow> decided)"

record HarnessRelease =
  hr_intent_id :: string
  hr_approved_by :: string
  hr_stored_call_digest :: string

definition harness_args :: "DecisionRequest \<Rightarrow> json" where
  "harness_args rq =
     JObj [(''call'', JStr (dq_call_digest rq)), (''harness'', JStr (dq_harness rq)), (''input'', JStr (dq_input_digest rq)),
           (''locality'', JStr (locality_str (dq_locality rq))), (''subject'', JStr (dq_subject_digest rq))]"

definition transition_w ::
  "('e, 'i, 'h, 'k, 'g) BrokerRuntime \<Rightarrow> string \<Rightarrow> string \<Rightarrow> string \<Rightarrow> (('e, 'i, 'h, 'k) world, bool) act" where
  "transition_w R iid expected_status new_status =
     intents_w (\<lambda>s. apfst Inr (transition_status (rt_intent_store R) iid expected_status new_status None None s))"

definition release_extra :: "HarnessRelease option \<Rightarrow> emission \<Rightarrow> emission" where
  "release_extra rel em =
     (case rel of
        None \<Rightarrow> em
      | Some r \<Rightarrow> em\<lparr>em_intent_id := Some (hr_intent_id r), em_approved_by := Some (hr_approved_by r),
                       em_stored_call_digest := Some (hr_stored_call_digest r)\<rparr>)"

definition permit_record ::
  "('e, 'i, 'h, 'k, 'g) BrokerRuntime \<Rightarrow> HarnessRelease option \<Rightarrow> BrokeredCall \<Rightarrow> emission" where
  "permit_record R rel call =
     release_extra rel
       ((emission_of R (bc_tool call) (bc_op call) (bc_args call) ''allow'' ''permitted''
          (Some (permitted_reason (bc_op call) (map_option hr_intent_id rel))))\<lparr>em_principal := bc_principal call\<rparr>)"

definition harness_executor ::
  "('e, 'i, 'h, 'k, 'g) BrokerRuntime \<Rightarrow> DecisionRequest \<Rightarrow> HarnessRelease option \<Rightarrow> BrokeredCall \<Rightarrow> Decision
     \<Rightarrow> (('e, 'i, 'h, 'k) world, json option) act" where
  "harness_executor R rq rel call eff =
     (if kind eff \<noteq> k_allow then raise_w (Exn ''RuntimeError'' (HARNESS_TOOL @ '' is permitted only on allow; got '' @ kind_str (kind eff)))
      else
        bind_w (case rel of None \<Rightarrow> ret_w True | Some r \<Rightarrow> transition_w R (hr_intent_id r) ''approved'' ''permitted'') (\<lambda>claimed.
          if \<not> claimed then raise_w (Exn ''RuntimeError'' (''intent '' @ hr_intent_id (the rel) @ '' was no longer approved at release''))
          else
            catch_w
              (bind_w (when_w (dq_taints rq \<and> dq_source_id rq \<notin> set (rt_trusted_read_sources R)) (ingest_w R [dq_source_id rq])) (\<lambda>_.
                 record_w R (permit_record R rel call)))
              (\<lambda>e. bind_w (case rel of None \<Rightarrow> ret_w True | Some r \<Rightarrow> transition_w R (hr_intent_id r) ''permitted'' ''refused'') (\<lambda>_.
                 raise_w e))
              (\<lambda>_. ret_w (Some PERMIT_RECORDED))))"

definition lapsed_record :: "('e, 'i, 'h, 'k, 'g) BrokerRuntime \<Rightarrow> Intent \<Rightarrow> emission" where
  "lapsed_record R i =
     (stored_record R (in_id i) (materializedRequest i) ''require_approval'' ''expired'' (Some HARNESS_APPROVAL_LAPSED_REASON))
       \<lparr>em_approved_by := approvedBy i, em_expired_at := Some (isoformat_utc (in_expiry i))\<rparr>"

definition matches_request :: "('e, 'i, 'h, 'k, 'g) BrokerRuntime \<Rightarrow> DecisionRequest \<Rightarrow> Intent \<Rightarrow> bool" where
  "matches_request R rq i \<longleftrightarrow>
     (let stored = materializedRequest i in
      owns_intent R i \<and> bc_tool stored = HARNESS_TOOL \<and> bc_op stored = dq_op rq
      \<and> (case bc_args stored of JObj kvs \<Rightarrow> map_of kvs ''input'' = Some (JStr (dq_input_digest rq)) | _ \<Rightarrow> False))"

definition approved_harness_intent ::
  "('e, 'i, 'h, 'k, 'g) BrokerRuntime \<Rightarrow> DecisionRequest \<Rightarrow> string
     \<Rightarrow> (('e, 'i, 'h, 'k) world, HarnessDecision + HarnessRelease option) act" where
  "approved_harness_intent R rq hold_id =
     catch_w (get_intent_w R hold_id)
       (\<lambda>e. if is_quarantine e
            then bind_w (surface_quarantined_intent R hold_id (exn_str e) ''decide'') (\<lambda>_.
                   ret_w (Inl (harness_refused ''intent quarantined'' (Some ''deny'') (Some ''denied'') None)))
            else raise_w e)
       (\<lambda>found. case found of
          None \<Rightarrow> ret_w (Inr None)
        | Some i \<Rightarrow>
            if in_status i \<noteq> ''approved'' then ret_w (Inr None)
            else if \<not> matches_request R rq i then
              bind_w (record_w R ((emission_of R HARNESS_TOOL (dq_op rq) (harness_args rq) ''deny'' ''denied''
                        (Some HARNESS_RELEASE_MISMATCH_REASON))\<lparr>em_intent_id := Some hold_id\<rparr>)) (\<lambda>_.
                ret_w (Inl (harness_refused HARNESS_RELEASE_MISMATCH_REASON (Some ''deny'') (Some ''denied'') None)))
            else
              bind_w (clock_w R) (\<lambda>now.
              bind_w (lift_w (past_expiry (in_expiry i) now (rt_clock_skew R))) (\<lambda>past.
                if past then
                  bind_w (transition_w R hold_id ''approved'' ''expired'') (\<lambda>won.
                  bind_w (when_w won (emit_w R (lapsed_record R i))) (\<lambda>_. ret_w (Inr None)))
                else
                  ret_w (Inr (Some \<lparr>hr_intent_id = hold_id, hr_approved_by = (case approvedBy i of None \<Rightarrow> [] | Some b \<Rightarrow> b),
                                    hr_stored_call_digest = hash_stored_call R (materializedRequest i)\<rparr>)))))"

definition harness_hooks ::
  "('e, 'i, 'h, 'k, 'g) BrokerRuntime \<Rightarrow> DecisionRequest \<Rightarrow> string \<Rightarrow> HarnessRelease option \<Rightarrow> ('e, 'i, 'h, 'k) world PipelineHooks" where
  "harness_hooks R rq hold_id rel =
     \<lparr>hk_decider = (if rel = None then harness_decider else harness_release_decider) (sha256_hex (rt_hash R)),
      hk_executor = harness_executor R rq rel, hk_hold_id = hold_id, hk_extra = release_extra rel\<rparr>"

definition harness_request :: "DecisionRequest \<Rightarrow> AgentRequest" where
  "harness_request rq =
     \<lparr>ag_tool = HARNESS_TOOL, ag_op = dq_op rq, ag_args = harness_args rq, ag_confidence = None, ag_idempotency_key = None\<rparr>"

definition or_else :: "string option \<Rightarrow> string \<Rightarrow> string" where
  "or_else x d = (case x of None \<Rightarrow> d | Some s \<Rightarrow> if s = [] then d else s)"

definition answer_harness ::
  "('e, 'i, 'h, 'k, 'g) BrokerRuntime \<Rightarrow> DecisionRequest \<Rightarrow> HarnessRelease option \<Rightarrow> BrokerResponse
     \<Rightarrow> (('e, 'i, 'h, 'k) world, HarnessDecision) act" where
  "answer_harness R rq rel resp =
     (let k = br_decision_kind resp in
      if VERB_ANSWER k = PERMIT \<and> \<not> br_idempotent resp \<and> br_result resp = Some PERMIT_RECORDED then
        ret_w \<lparr>hd_answer = PERMIT, hd_reason = permitted_reason (dq_op rq) (map_option hr_intent_id rel),
               hd_intent_id = map_option hr_intent_id rel, hd_decision_kind = Some ''allow'', hd_outcome = Some ''permitted''\<rparr>
      else
        bind_w (case rel of None \<Rightarrow> ret_w True | Some r \<Rightarrow> transition_w R (hr_intent_id r) ''approved'' ''refused'') (\<lambda>_.
          ret_w
            (if k = k_require_approval
             then harness_refused (or_else (br_reason resp) ''held for approval'') (Some (kind_str k)) (Some ''held'') (br_intent_id resp)
             else harness_refused (or_else (br_reason resp) ''refused'') (Some (kind_str k)) (Some ''denied'') None)))"

definition decide_harness ::
  "('e, 'i, 'h, 'k, 'g) BrokerRuntime \<Rightarrow> DecisionRequest \<Rightarrow> (('e, 'i, 'h, 'k) world, HarnessDecision) act" where
  "decide_harness R rq =
     (let hold_id = harness_hold_intent_id (sha256_hex (rt_hash R)) (rt_principal R) (dq_op rq) (dq_input_digest rq) in
      bind_w (put_w (\<lambda>s. s\<lparr>s_inputs := decision_inputs (rt_input_ages R)\<rparr>)) (\<lambda>_.
      bind_w (clock_w R) (\<lambda>now.
      bind_w (put_w (\<lambda>s. s\<lparr>s_inputs := establish ''intent'' now None (s_inputs s)\<rparr>)) (\<lambda>_.
      bind_w (approved_harness_intent R rq hold_id) (\<lambda>found.
        case found of
          Inl answer \<Rightarrow> ret_w answer
        | Inr rel \<Rightarrow>
            bind_w (pipeline_hooked R (harness_hooks R rq hold_id rel) (harness_request rq))
              (answer_harness R rq rel))))))"

definition record_harness_fault ::
  "('e, 'i, 'h, 'k, 'g) BrokerRuntime \<Rightarrow> DecisionRequest \<Rightarrow> exn \<Rightarrow> (('e, 'i, 'h, 'k) world, unit) act" where
  "record_harness_fault R rq e =
     catch_w (emit_w R (emission_of R HARNESS_TOOL (dq_op rq) (harness_args rq) ''deny'' ''denied''
         (Some (FAULT_REASON @ '' ('' @ exn_class e @ '')''))))
       (\<lambda>_. ret_w ()) ret_w"

definition refuse_decision_request ::
  "('e, 'i, 'h, 'k, 'g) BrokerRuntime \<Rightarrow> json \<Rightarrow> string \<Rightarrow> (('e, 'i, 'h, 'k) world, HarnessDecision) act" where
  "refuse_decision_request R mouth cause =
     (case mouth of
        JStr m \<Rightarrow>
          if \<not> SHORT_CODE m then raise_w (ValueError ''mouth must be a short lowercase code'')
          else if cause \<notin> set DECISION_REFUSAL_CAUSES then raise_w (ValueError ''cause'')
          else
            catch_w (emit_w R (emission_of R MOUTH_REFUSAL_TOOL m (JObj [(''cause'', JStr cause)]) ''deny'' ''denied''
                (Some (''decision request refused before it was decided: '' @ cause))))
              (\<lambda>_. ret_w (harness_refused MALFORMED_REASON None None None))
              (\<lambda>_. ret_w (harness_refused MALFORMED_REASON (Some ''deny'') (Some ''denied'') None))
      | _ \<Rightarrow> raise_w (Exn ''TypeError'' ''mouth''))"

definition decide_harness_call ::
  "('e, 'i, 'h, 'k, 'g) BrokerRuntime \<Rightarrow> json \<Rightarrow> json \<Rightarrow> json \<Rightarrow> json \<Rightarrow> json \<Rightarrow> json \<Rightarrow> json
     \<Rightarrow> (('e, 'i, 'h, 'k) world, HarnessDecision) act" where
  "decide_harness_call R mouth harness tool_class loc subject_digest input_digest call_digest =
     (case validate_decision_request mouth harness tool_class loc subject_digest input_digest call_digest of
        Inl e \<Rightarrow> refuse_decision_request R mouth ''bad-field''
      | Inr rq \<Rightarrow>
          catch_w (decide_harness R rq)
            (\<lambda>e. bind_w (record_harness_fault R rq e) (\<lambda>_. ret_w (harness_refused FAULT_REASON None None None)))
            ret_w)"

section \<open>What a permit needs\<close>

text \<open>Actions that leave the stores, the tape, the turn and the attempts alone; they only make readings.\<close>

definition unmoved :: "(('e, 'i, 'h, 'k) world, 'a) act \<Rightarrow> bool" where
  "unmoved m \<longleftrightarrow> (\<forall>w. fst (snd (m w)) = fst w \<and> core (snd (snd (m w))) = core (snd w)
     \<and> s_intents (snd (snd (m w))) = s_intents (snd w) \<and> s_ticks (snd w) \<le> s_ticks (snd (snd (m w))))"

named_theorems unmoved_rules \<open>actions that leave the stores alone as well\<close>

lemma unmoved_bind [unmoved_rules]:
  assumes m: "unmoved m" and f: "\<And>x. unmoved (f x)"
  shows "unmoved (bind_w m f)"
  unfolding unmoved_def
proof
  fix w
  obtain r w1 where mw: "m w = (r, w1)" using prod.exhaust by blast
  note m' = m [unfolded unmoved_def, rule_format, of w, unfolded mw, simplified]
  show "fst (snd (bind_w m f w)) = fst w \<and> core (snd (snd (bind_w m f w))) = core (snd w)
     \<and> s_intents (snd (snd (bind_w m f w))) = s_intents (snd w) \<and> s_ticks (snd w) \<le> s_ticks (snd (snd (bind_w m f w)))"
  proof (cases r)
    case (Inl e)
    with m' mw show ?thesis by (simp add: bind_w_def)
  next
    case (Inr x)
    with m' mw f [of x, unfolded unmoved_def, rule_format, of w1] show ?thesis by (simp add: bind_w_def)
  qed
qed

lemma unmoved_basic [unmoved_rules]:
  "unmoved (ret_w x)" "unmoved (raise_w e)" "unmoved (lift_w r)" "unmoved (get_w f)" "unmoved tick_w"
  by (simp_all add: unmoved_def ret_w_def raise_w_def lift_w_def get_w_def tick_w_def core_def)

lemma unmoved_put [unmoved_rules]: "unmoved (put_w (\<lambda>s. s\<lparr>s_inputs := f s\<rparr>))" "unmoved (put_w (\<lambda>s. s\<lparr>s_last_ts := g s\<rparr>))"
  by (simp_all add: unmoved_def put_w_def core_def)

lemma unmoved_clock [unmoved_rules]: "unmoved (wall_w R)" "unmoved (clock_w R)"
  unfolding wall_w_def clock_w_def by (intro unmoved_rules)+

lemma unmoved_pip [unmoved_rules]: "unmoved (timed_pip R call)"
  unfolding timed_pip_def by (intro unmoved_rules) (simp add: unmoved_def Let_def core_def split: prod.split)

lemma unmoved_gated [unmoved_rules]: "unmoved (\<lambda>w. apfst Inr (gated_hooked R hk call facts w))"
  by (simp add: unmoved_def gated_hooked_def core_def)

lemma unmoved_tree [unmoved_rules]: "unmoved (tree_draws R call)"
  unfolding tree_draws_def by (intro unmoved_rules)

lemma unmoved_stamp [unmoved_rules]: "unmoved (stamp_call_ts R)"
  unfolding stamp_call_ts_def by (intro unmoved_rules)

lemma unmoved_get_intent [unmoved_rules]: "unmoved (get_intent_w R iid)"
  by (simp add: unmoved_def get_intent_w_def)

text \<open>The rule table on the facts a request read, between its first and its last state and from the enforcement store
  as it found it: the table allows the call or, when an approval is being used, would hold it for one.\<close>

definition permits ::
  "('e, 'i, 'h, 'k, 'g) BrokerRuntime \<Rightarrow> ('e, 'i, 'h, 'k) world \<Rightarrow> ('e, 'i, 'h, 'k) world \<Rightarrow> bool \<Rightarrow> BrokeredCall \<Rightarrow> bool" where
  "permits R w0 w approved call \<longleftrightarrow>
     (\<exists>n facts. s_ticks (snd w0) \<le> n \<and> n < s_ticks (snd w) \<and> fst (rt_pip R (fst w0) n call) = Inr facts
        \<and> kind (decide (sha256_hex (rt_hash R)) call facts) \<in> (if approved then {k_allow, k_require_approval} else {k_allow}))"

text \<open>The call a request is decided as: the declared entry of its coordinate and the digests it named.\<close>

definition asks :: "('e, 'i, 'h, 'k, 'g) BrokerRuntime \<Rightarrow> DecisionRequest \<Rightarrow> BrokeredCall \<Rightarrow> bool" where
  "asks R rq call \<longleftrightarrow>
     bc_principal call = rt_principal R \<and> bc_tool call = HARNESS_TOOL \<and> bc_op call = dq_op rq \<and> bc_args call = harness_args rq
     \<and> table_entry (rt_optable R) HARNESS_TOOL (dq_op rq) = Some (bc_manifest call)"

definition untrusted_harness_read :: "('e, 'i, 'h, 'k, 'g) BrokerRuntime \<Rightarrow> DecisionRequest \<Rightarrow> bool" where
  "untrusted_harness_read R rq \<longleftrightarrow>
     dq_taints rq \<and> dq_source_id rq \<notin> set (rt_trusted_read_sources R) \<and> \<not> rt_trust_map R (dq_source_id rq)"

definition permit_entry ::
  "('e, 'i, 'h, 'k, 'g) BrokerRuntime \<Rightarrow> DecisionRequest \<Rightarrow> string option \<Rightarrow> AuditRecord \<Rightarrow> bool" where
  "permit_entry R rq iid r \<longleftrightarrow>
     au_tool r = HARNESS_TOOL \<and> au_op r = dq_op rq \<and> argsDigest r = hash_args (rt_hash R) (harness_args rq)
     \<and> au_decision r = ''allow'' \<and> au_outcome r = ''permitted'' \<and> intentId r = iid"

text \<open>The state during a request that started at \<open>w0\<close>, with the intent store still as it was where that matters, and
  once its permit is recorded.\<close>

definition asked ::
  "('e, 'i, 'h, 'k, 'g) BrokerRuntime \<Rightarrow> ('k \<Rightarrow> bool) \<Rightarrow> ('k \<Rightarrow> AuditRecord list) \<Rightarrow> ('e, 'i, 'h, 'k) world \<Rightarrow> bool
     \<Rightarrow> ('e, 'i, 'h, 'k) world \<Rightarrow> bool" where
  "asked R good tape w0 same w \<longleftrightarrow>
     good (s_tape (snd w)) \<and> linked (rt_hash R) 0 (GENESIS_PREV_HASH (rt_hash R)) (tape (s_tape (snd w)))
     \<and> s_attempts (snd w) = s_attempts (snd w0) \<and> s_ticks (snd w0) \<le> s_ticks (snd w)
     \<and> (\<exists>recs. tape (s_tape (snd w)) = tape (s_tape (snd w0)) @ recs) \<and> (same \<longrightarrow> s_intents (snd w) = s_intents (snd w0))"

definition granted ::
  "('e, 'i, 'h, 'k, 'g) BrokerRuntime \<Rightarrow> ('k \<Rightarrow> bool) \<Rightarrow> ('k \<Rightarrow> AuditRecord list) \<Rightarrow> ('e, 'i, 'h, 'k) world \<Rightarrow> DecisionRequest
     \<Rightarrow> HarnessRelease option \<Rightarrow> ('e, 'i, 'h, 'k) world \<Rightarrow> bool" where
  "granted R good tape w0 rq rel w \<longleftrightarrow>
     good (s_tape (snd w)) \<and> linked (rt_hash R) 0 (GENESIS_PREV_HASH (rt_hash R)) (tape (s_tape (snd w)))
     \<and> s_attempts (snd w) = s_attempts (snd w0)
     \<and> (untrusted_harness_read R rq \<longrightarrow> tainted_turn (s_turn (snd w)))
     \<and> (\<exists>recs r. tape (s_tape (snd w)) = tape (s_tape (snd w0)) @ recs @ [r] \<and> permit_entry R rq (map_option hr_intent_id rel) r)
     \<and> (\<forall>h. rel = Some h \<longrightarrow>
          transition_status (rt_intent_store R) (hr_intent_id h) ''approved'' ''permitted'' None None (s_intents (snd w0))
          = (True, s_intents (snd w)))"

definition permitting :: "BrokerResponse \<Rightarrow> bool" where
  "permitting resp \<longleftrightarrow> br_decision_kind resp = k_allow \<and> \<not> br_idempotent resp"

text \<open>An approved intent a request that starts at a state may use: it is stored under the identifier of the call, it is the
  call, and its expiry has not come on the clock the request reads it with, which is its second reading.\<close>

definition usable :: "('e, 'i, 'h, 'k, 'g) BrokerRuntime \<Rightarrow> ('e, 'i, 'h, 'k) world \<Rightarrow> DecisionRequest \<Rightarrow> string \<Rightarrow> Intent \<Rightarrow> bool" where
  "usable R w0 rq iid i \<longleftrightarrow>
     get_intent (rt_intent_store R) (s_intents (snd w0)) iid = Inr (Some i) \<and> in_status i = ''approved'' \<and> matches_request R rq i
     \<and> (\<exists>now. rt_clock R (Suc (s_ticks (snd w0))) = Inr now \<and> past_expiry (in_expiry i) now (rt_clock_skew R) = Inr False)"

lemma permit_texts [simp]: "''permitted'' \<in> set AUDIT_OUTCOMES" "''allow'' \<in> set AUDIT_DECISIONS"
  by (simp_all add: AUDIT_OUTCOMES_def AUDIT_DECISIONS_def)

lemma harness_decider_executes:
  "executes (harness_decider sha call facts) \<Longrightarrow> kind (decide sha call facts) = k_allow"
  "executes (harness_release_decider sha call facts) \<Longrightarrow> kind (decide sha call facts) \<in> {k_allow, k_require_approval}"
  by (auto simp: harness_decider_def harness_release_decider_def Let_def executes_def kind_def split: Decision.splits)

lemma gated_hooked_permits:
  assumes "timed_pip R call u = (Inr facts, v)"
    and "executes (fst (gated_hooked R (harness_hooks R rq hold_id rel) call facts v))"
    and "fst u = fst w0" "s_ticks (snd w0) \<le> s_ticks (snd u)" "Suc (s_ticks (snd u)) < s_ticks (snd w)"
  shows "permits R w0 w (rel \<noteq> None) call"
proof -
  have "executes (hk_decider (harness_hooks R rq hold_id rel) call facts)"
    using assms(2) by (auto simp: gated_hooked_def gate_def split: sum.splits if_splits)
  then have "kind (decide (sha256_hex (rt_hash R)) call facts) \<in> (if rel \<noteq> None then {k_allow, k_require_approval} else {k_allow})"
    using harness_decider_executes [of "sha256_hex (rt_hash R)" call facts] by (auto simp: harness_hooks_def split: if_splits)
  with timed_pip_reads [OF assms(1)] assms(3-5) show ?thesis
    unfolding permits_def by (intro exI [of _ "Suc (s_ticks (snd u))"]) auto
qed

lemma timed_pip_ticks: "timed_pip R call u = (Inr facts, v) \<Longrightarrow> s_ticks (snd v) = Suc (Suc (s_ticks (snd u)))"
  by (auto simp: timed_pip_def clock_w_def action_defs timed_def Let_def split: prod.splits sum.splits)

context broker_tape
begin

text \<open>Before the connector the enforcement store is as it was found; while the pipeline runs there is a turn.\<close>

abbreviation asking :: "('e, 'i, 'h, 'k) world \<Rightarrow> bool \<Rightarrow> ('e, 'i, 'h, 'k) world \<Rightarrow> bool" where
  "asking w0 same w \<equiv> asked R wf tape w0 same w \<and> fst w = fst w0"

abbreviation granting ::
  "('e, 'i, 'h, 'k) world \<Rightarrow> DecisionRequest \<Rightarrow> HarnessRelease option \<Rightarrow> ('e, 'i, 'h, 'k) world \<Rightarrow> bool" where
  "granting w0 rq rel w \<equiv> granted R wf tape w0 rq rel w"

lemma asking_unmoved:
  assumes "unmoved m"
  shows "keeps (\<lambda>w. asking w0 same w \<and> (b \<longrightarrow> s_turn (snd w) \<noteq> None)) m"
  unfolding keeps_iff
proof (intro allI impI)
  fix w :: "('e, 'i, 'h, 'k) world"
  assume a: "asking w0 same w \<and> (b \<longrightarrow> s_turn (snd w) \<noteq> None)"
  from assms have "fst (snd (m w)) = fst w" "core (snd (snd (m w))) = core (snd w)"
    "s_intents (snd (snd (m w))) = s_intents (snd w)" "s_ticks (snd w) \<le> s_ticks (snd (snd (m w)))"
    unfolding unmoved_def by blast+
  with a show "asking w0 same (snd (m w)) \<and> (b \<longrightarrow> s_turn (snd (snd (m w))) \<noteq> None)" by (auto simp: asked_def core_def)
qed

lemma asking_emit:
  assumes "valid_emission em"
  shows "keeps (\<lambda>w. asking w0 same w \<and> (b \<longrightarrow> s_turn (snd w) \<noteq> None)) (emit_w R em)"
  unfolding keeps_iff
proof (intro allI impI)
  fix w :: "('e, 'i, 'h, 'k) world"
  assume a: "asking w0 same w \<and> (b \<longrightarrow> s_turn (snd w) \<noteq> None)"
  then have "wf (s_tape (snd w))" by (simp add: asked_def)
  from emit_w_appends [OF this assms] obtain now k n where
    r: "emit_w R em w = (Inr (), fst w, (snd w)\<lparr>s_ticks := n, s_tape := k\<rparr>)" and k: "wf k"
    "tape k = tape (s_tape (snd w)) @ [build_record (rt_hash R) em now
         (int (length (tape (s_tape (snd w))))) (head_hash genesis (tape (s_tape (snd w))))]" "s_ticks (snd w) < n" by blast
  with a show "asking w0 same (snd (emit_w R em w)) \<and> (b \<longrightarrow> s_turn (snd (snd (emit_w R em w))) \<noteq> None)"
    by (auto simp: asked_def linked_append)
qed

lemma asking_record:
  "valid_emission em \<Longrightarrow> keeps (\<lambda>w. asking w0 same w \<and> (b \<longrightarrow> s_turn (snd w) \<noteq> None)) (record_w R em)"
  unfolding record_w_def by (intro keeps_bind asking_unmoved unmoved_rules asking_emit) simp

abbreviation serving :: "('e, 'i, 'h, 'k) world \<Rightarrow> bool \<Rightarrow> ('e, 'i, 'h, 'k) world \<Rightarrow> bool" where
  "serving w0 same w \<equiv> asking w0 same w \<and> (True \<longrightarrow> s_turn (snd w) \<noteq> None)"

text \<open>What the executor does once it may: the source is ingested, and the permit is the last record.\<close>

lemma permit_step:
  assumes "asks R rq call" and "asked R wf tape w0 False w" and "s_turn (snd w) \<noteq> None"
    and "\<And>h. rel = Some h \<Longrightarrow>
      transition_status (rt_intent_store R) (hr_intent_id h) ''approved'' ''permitted'' None None (s_intents (snd w0)) = (True, s_intents (snd w))"
  shows "\<exists>w'. bind_w (when_w (dq_taints rq \<and> dq_source_id rq \<notin> set (rt_trusted_read_sources R)) (ingest_w R [dq_source_id rq])) (\<lambda>_.
       record_w R (permit_record R rel call)) w = (Inr (), w') \<and> granting w0 rq rel w' \<and> s_ticks (snd w) \<le> s_ticks (snd w')"
proof -
  let ?b = "dq_taints rq \<and> dq_source_id rq \<notin> set (rt_trusted_read_sources R)"
  let ?turn = "if ?b then map_option (fold (\<lambda>source. ingest_source source (rt_trust_map R)) [dq_source_id rq]) (s_turn (snd w)) else s_turn (snd w)"
  let ?w = "(fst w, (snd w)\<lparr>s_turn := ?turn\<rparr>)"
  have i: "when_w ?b (ingest_w R [dq_source_id rq]) w = (Inr (), ?w)"
    by (simp add: when_w_def ingest_w_def put_w_def ret_w_def)
  have t: "untrusted_harness_read R rq \<Longrightarrow> tainted_turn ?turn"
    using assms(3) by (auto simp: untrusted_harness_read_def tainted_turn_def ingest_source_def mark_tainted_def)
  have v: "valid_emission (permit_record R rel call)"
    by (simp add: permit_record_def release_extra_def split: option.split)
  from assms(2) have "wf (s_tape (snd ?w))" by (simp add: asked_def)
  from record_w_appends [OF this v] obtain now di k n where
    r: "record_w R (permit_record R rel call) ?w = (Inr (), fst ?w, (snd ?w)\<lparr>s_ticks := n, s_tape := k\<rparr>)" and k: "wf k"
    "tape k = tape (s_tape (snd w)) @ [build_record (rt_hash R) (with_audit_fields di (permit_record R rel call)) now
         (int (length (tape (s_tape (snd w))))) (head_hash genesis (tape (s_tape (snd w))))]" "s_ticks (snd w) < n" by auto
  have "permit_entry R rq (map_option hr_intent_id rel) (build_record (rt_hash R) (with_audit_fields di (permit_record R rel call)) now
         (int (length (tape (s_tape (snd w))))) (head_hash genesis (tape (s_tape (snd w)))))"
    using assms(1) by (cases rel)
      (auto simp: permit_entry_def permit_record_def release_extra_def asks_def emission_of_def with_audit_fields_def build_record_def Let_def)
  with assms(2,4) t k have "granting w0 rq rel (fst ?w, (snd ?w)\<lparr>s_ticks := n, s_tape := k\<rparr>)"
    by (fastforce simp: granted_def asked_def linked_append)
  with i r k(3) show ?thesis by (simp add: bind_w_def)
qed

lemma executor_permits:
  assumes "asks R rq call"
  shows "ok (\<lambda>w. asked R wf tape w0 (rel \<noteq> None) w \<and> s_turn (snd w) \<noteq> None \<and> t \<le> s_ticks (snd w)) (harness_executor R rq rel call eff)
    (\<lambda>_ w. granting w0 rq rel w \<and> t \<le> s_ticks (snd w)) (\<lambda>_ _. True)"
proof (rule okI)
  fix w :: "('e, 'i, 'h, 'k) world"
  assume s: "asked R wf tape w0 (rel \<noteq> None) w \<and> s_turn (snd w) \<noteq> None \<and> t \<le> s_ticks (snd w)"
  let ?m = "bind_w (when_w (dq_taints rq \<and> dq_source_id rq \<notin> set (rt_trusted_read_sources R)) (ingest_w R [dq_source_id rq])) (\<lambda>_.
       record_w R (permit_record R rel call))"
  let ?C = "\<lambda>x. case x of (Inl e, w1) \<Rightarrow> True | (Inr x, w1) \<Rightarrow> granting w0 rq rel w1 \<and> t \<le> s_ticks (snd w1)"
  let ?h = "\<lambda>e. bind_w (case rel of None \<Rightarrow> ret_w True | Some r \<Rightarrow> transition_w R (hr_intent_id r) ''permitted'' ''refused'') (\<lambda>_. raise_w e)"
  have step: "?C (catch_w ?m ?h (\<lambda>_. ret_w (Some PERMIT_RECORDED)) w1)"
    if "asked R wf tape w0 False w1" "s_turn (snd w1) \<noteq> None" "t \<le> s_ticks (snd w1)"
      "\<And>h. rel = Some h \<Longrightarrow>
        transition_status (rt_intent_store R) (hr_intent_id h) ''approved'' ''permitted'' None None (s_intents (snd w0)) = (True, s_intents (snd w1))"
    for w1 :: "('e, 'i, 'h, 'k) world"
  proof -
    note at = that
    obtain w' where "?m w1 = (Inr (), w')" "granting w0 rq rel w'" "s_ticks (snd w1) \<le> s_ticks (snd w')"
      using permit_step [where rel = rel, OF assms at(1,2,4)] by blast
    with at(3) show ?thesis by (simp add: catch_w_def ret_w_def)
  qed
  have a: "asked R wf tape w0 False (fst w, (snd w)\<lparr>s_intents := st\<rparr>)" "asked R wf tape w0 False w" for st
    using s by (auto simp: asked_def)
  show "?C (harness_executor R rq rel call eff w)"
  proof (cases "kind eff = k_allow")
    case False
    then show ?thesis by (simp add: harness_executor_def raise_w_def)
  next
    case allow: True
    show ?thesis
    proof (cases rel)
      case None
      with allow step [OF a(2)] s show ?thesis by (simp add: harness_executor_def bind_w_def [of "ret_w True"] ret_w_def [of True])
    next
      case (Some h)
      with s have st0: "s_intents (snd w) = s_intents (snd w0)" by (simp add: asked_def)
      obtain won st where tr: "transition_status (rt_intent_store R) (hr_intent_id h) ''approved'' ''permitted'' None None (s_intents (snd w0)) = (won, st)"
        by fastforce
      let ?w1 = "(fst w, (snd w)\<lparr>s_intents := st\<rparr>)"
      have t: "transition_w R (hr_intent_id h) ''approved'' ''permitted'' w = (Inr won, ?w1)"
        by (simp add: transition_w_def intents_w_def st0 tr)
      show ?thesis
      proof (cases won)
        case True
        have "?C (catch_w ?m ?h (\<lambda>_. ret_w (Some PERMIT_RECORDED)) ?w1)"
          by (rule step [OF a(1)]) (use True s Some tr in auto)
        with allow Some t True show ?thesis by (simp add: harness_executor_def bind_w_def [of "transition_w _ _ _ _"])
      next
        case False
        with allow Some t show ?thesis by (simp add: harness_executor_def bind_w_def [of "transition_w _ _ _ _"] raise_w_def)
      qed
    qed
  qed
qed

subsection \<open>The pipeline\<close>

lemma enforce_permits:
  assumes "asks R rq call" and "serving w0 (rel \<noteq> None) w"
    and "enforce_w (lift_store (rt_store R)) env (hooked_actions R (harness_hooks R rq hold_id rel)) erq w = (Inr res, w')"
    and "rq_call erq = call" "idempotency_key erq = None" and "executes (er_decision res)" and "\<not> idempotent res"
  shows "granting w0 rq rel w' \<and> permits R w0 w' (rel \<noteq> None) call"
proof (rule enforce_w_executed [where P = "\<lambda>v. asked R wf tape w0 (rel \<noteq> None) v \<and> s_turn (snd v) \<noteq> None \<and> s_ticks (snd w) \<le> s_ticks (snd v)"
      and P' = "\<lambda>v. asked R wf tape w0 (rel \<noteq> None) v \<and> s_turn (snd v) \<noteq> None \<and> s_ticks (snd w) + 2 \<le> s_ticks (snd v)"
      and M = "\<lambda>d v. granting w0 rq rel v \<and> permits R w0 v (rel \<noteq> None) call", OF _ _ _ _ assms(3,6,7)], goal_cases)
  case 1
  show ?case unfolding asked_def by (rule kept_core)
next
  case 2
  show ?case unfolding asked_def by (rule kept_core)
next
  case (3 d)
  show ?case unfolding granted_def permits_def by (rule kept_core)
next
  case 4
  with assms(2) show ?case by simp
next
  case (5 u f v)
  then have pip: "timed_pip R (rq_call erq) u = (Inr f, v)" by (simp add: hooked_actions_def)
  with unmoved_pip [of R "rq_call erq", unfolded unmoved_def, rule_format, of u] have "core (snd v) = core (snd u)" "s_intents (snd v) = s_intents (snd u)"
    by simp_all
  with 5(1) timed_pip_ticks [OF pip] show ?case by (auto simp: asked_def core_def)
next
  case (6 f v)
  then show ?case by (auto simp: hooked_actions_def gated_hooked_def asked_def)
next
  case (7 f d u v y x y')
  have u: "u = w" using 7(2) assms(5) by blast
  have "harness_executor R rq rel call d y = (Inr x, y')"
    using 7(7) assms(4) by (simp add: hooked_actions_def harness_hooks_def)
  from okD(1) [OF executor_permits [OF assms(1), where t = "s_ticks (snd w) + 2"] 7(6) this]
  have g: "granting w0 rq rel y'" "s_ticks (snd w) + 2 \<le> s_ticks (snd y')" by blast+
  have "permits R w0 y' (rel \<noteq> None) call"
    using 7(1,3) assms(2,4) g(2) u by (intro gated_hooked_permits [where u = w and facts = f and v = v and hold_id = hold_id]) (simp_all add: hooked_actions_def asked_def)
  with g(1) show ?case by simp
qed

text \<open>The reply that is answered with a permit comes from the executor.\<close>

lemma respond_permits:
  "ok (\<lambda>w. executes (er_decision res) \<and> \<not> idempotent res \<longrightarrow> G w) (respond_hooked R hk call res)
     (\<lambda>resp w. permitting resp \<longrightarrow> G w) (\<lambda>_ _. True)"
proof -
  have never: "ok (\<lambda>_. True) m (\<lambda>resp _. \<not> permitting resp) (\<lambda>_ _. True) \<Longrightarrow>
      ok (\<lambda>w. executes (er_decision res) \<and> \<not> idempotent res \<longrightarrow> G w) m (\<lambda>resp w. permitting resp \<longrightarrow> G w) (\<lambda>_ _. True)" for m
    by (erule ok_conseq) simp_all
  have any: "ok (\<lambda>_. True) m (\<lambda>_ _. True) (\<lambda>_ _. True)" for m :: "(('e, 'i, 'h, 'k) world, 'b) act"
    by (auto simp: ok_def split: prod.split sum.split)
  have refuse: "k \<noteq> k_allow \<Longrightarrow> ok (\<lambda>_. True) (bind_w (record_w R em) (\<lambda>_. ret_w (response k reason)))
      (\<lambda>resp _. \<not> permitting resp) (\<lambda>_ _. True)" for em k reason
    by (rule ok_bind [OF any ok_ret]) (simp add: permitting_def)
  have hold: "ok (\<lambda>_. True) (hold_hooked R hk call rendered reason) (\<lambda>resp _. \<not> permitting resp) (\<lambda>_ _. True)" for rendered reason
    unfolding hold_hooked_def deny_intent_id_collision_def Let_def
    by (rule ok_catch [OF any]; (intro ok_bind [OF any])?; auto intro!: ok_bind [OF any] ok_ret ok_raise simp: permitting_def)
  show ?thesis
  proof (cases "idempotent res \<or> executes (er_decision res)")
    case True
    then show ?thesis by (auto simp: respond_hooked_def Let_def permitting_def intro!: ok_ret)
  next
    case False
    then show ?thesis
      by (intro never) (cases "er_decision res"; simp add: respond_hooked_def Let_def hold refuse)
  qed
qed

lemma decide_hooked_permits:
  assumes "asks R rq call"
  shows "ok (serving w0 (rel \<noteq> None)) (decide_hooked R (harness_hooks R rq hold_id rel) call)
    (\<lambda>resp w. permitting resp \<longrightarrow> granting w0 rq rel w \<and> permits R w0 w (rel \<noteq> None) call) (\<lambda>_ _. True)"
proof -
  let ?hk = "harness_hooks R rq hold_id rel"
  let ?S = "serving w0 (rel \<noteq> None)" and ?G = "\<lambda>w. granting w0 rq rel w \<and> permits R w0 w (rel \<noteq> None) call"
  have q: "ok ?S m (\<lambda>_. ?S) (\<lambda>_ _. True)" if "unmoved m" for m :: "(('e, 'i, 'h, 'k) world, 'b) act"
    by (rule ok_conseq [OF asking_unmoved [where b = True, OF that]]) blast+
  have surf: "ok ?S (when_w (quarantined facts) (record_w R (hk_extra ?hk (quarantined_grant_record R call facts)))) (\<lambda>_. ?S) (\<lambda>_ _. True)"
    for facts
  proof (cases "quarantined facts")
    case True
    have "valid_emission (hk_extra ?hk (quarantined_grant_record R call facts))"
      by (simp add: harness_hooks_def release_extra_def quarantined_grant_record_def split: option.split)
    from ok_conseq [OF asking_record [where b = True, OF this]] True show ?thesis by (simp add: when_w_def)
  qed (simp add: when_w_def ok_ret)
  have enf: "ok ?S (enforce_hooked R ?hk call initial) (\<lambda>res w. executes (er_decision res) \<and> \<not> idempotent res \<longrightarrow> ?G w) (\<lambda>_ _. True)"
    for initial
  proof -
    let ?erq = "\<lambda>ck draws. \<lparr>rq_call = call, initial_decision = initial, idempotency_key = None,
      counter_key = ck, counter_delta = 1, counter_cap = rt_counter_cap R, ancestor_draws = draws\<rparr>"
    have run: "ok ?S (enforce_w (lift_store (rt_store R)) (rt_env R n) (hooked_actions R ?hk) (?erq ck draws))
        (\<lambda>res w. executes (er_decision res) \<and> \<not> idempotent res \<longrightarrow> ?G w) (\<lambda>_ _. True)" for n ck draws
    proof (rule okI, goal_cases)
      case (1 w)
      obtain out w' where o: "enforce_w (lift_store (rt_store R)) (rt_env R n) (hooked_actions R ?hk) (?erq ck draws) w = (out, w')"
        using prod.exhaust by blast
      with enforce_permits [OF assms 1, of "rt_env R n" hold_id "?erq ck draws"] show ?case by (cases out) auto
    qed
    show ?thesis
      unfolding enforce_hooked_def
      by (rule ok_bind [OF q [OF unmoved_clock(1)] ok_bind [OF q [OF unmoved_basic(3)]
            ok_bind [OF q [OF unmoved_tree] ok_bind [OF q [OF unmoved_basic(5)] run]]]])
  qed
  have err: "ok (\<lambda>_. True) (if is_connector_error e
       then ret_w ((response k_deny (Some ''connector execution failed''))\<lparr>br_execution_outcome := Some (failure_outcome e)\<rparr>)
       else raise_w e) (\<lambda>resp w. permitting resp \<longrightarrow> ?G w) (\<lambda>_ _. True)" for e
    by (auto intro!: ok_ret ok_raise simp: permitting_def)
  show ?thesis
    unfolding decide_hooked_def
    by (rule ok_bind [OF q [OF unmoved_pip] ok_bind [OF surf ok_bind [OF q [OF unmoved_gated] ok_catch [OF enf respond_permits err]]]])
qed

lemma session_turn_serves:
  "ok (asking w0 same) (session_turn R) (\<lambda>_. serving w0 same) (\<lambda>_ _. True)"
  unfolding session_turn_def
proof (rule ok_bind [OF ok_get])
  fix current :: "TurnContext option"
  let ?mint = "\<lambda>n. let turn = turn_init (''turn:'' @ rt_uuid R n) in
      case rt_inheritance R of None \<Rightarrow> ret_w turn
      | Some I \<Rightarrow> bind_w (clock_w R) (\<lambda>now. bind_w (get_w s_inherit) (\<lambda>st.
          ret_w (ingest_inherited I st (rt_principal R) now (rt_clock_skew R) turn)))"
  have q: "ok (asking w0 same) m (\<lambda>_. asking w0 same) (\<lambda>_ _. True)" if "unmoved m" for m :: "(('e, 'i, 'h, 'k) world, 'b) act"
    by (rule ok_conseq [OF asking_unmoved [where b = False, OF that]]) blast+
  have mint: "unmoved (?mint n)" for n
    by (auto intro!: unmoved_rules simp: Let_def split: option.split)
  have put: "ok (asking w0 same) (bind_w (put_w (\<lambda>s. s\<lparr>s_turn := Some turn\<rparr>)) (\<lambda>_. ret_w turn))
      (\<lambda>_. serving w0 same) (\<lambda>_ _. True)" for turn
    by (auto simp: ok_def bind_w_def put_w_def ret_w_def asked_def core_def)
  have new: "ok (asking w0 same) (bind_w tick_w (\<lambda>n. bind_w (?mint n) (\<lambda>turn.
      bind_w (put_w (\<lambda>s. s\<lparr>s_turn := Some turn\<rparr>)) (\<lambda>_. ret_w turn)))) (\<lambda>_. serving w0 same) (\<lambda>_ _. True)"
    by (rule ok_bind [OF q [OF unmoved_basic(5)] ok_bind [OF q [OF mint] put]])
  show "ok (\<lambda>w. asking w0 same w \<and> current = s_turn (snd w))
     (case current of None \<Rightarrow> bind_w tick_w (\<lambda>n. bind_w (?mint n) (\<lambda>turn.
        bind_w (put_w (\<lambda>s. s\<lparr>s_turn := Some turn\<rparr>)) (\<lambda>_. ret_w turn))) | Some turn \<Rightarrow> ret_w turn)
     (\<lambda>_. serving w0 same) (\<lambda>_ _. True)"
  proof (cases current)
    case None
    show ?thesis unfolding None option.case by (rule ok_conseq [OF new]) blast+
  next
    case (Some turn)
    show ?thesis unfolding Some option.case by (rule ok_ret) (metis option.distinct(1))
  qed
qed

text \<open>The call the pipeline decides is the one the request asks about.\<close>

definition permit_of ::
  "('e, 'i, 'h, 'k) world \<Rightarrow> DecisionRequest \<Rightarrow> HarnessRelease option \<Rightarrow> ('e, 'i, 'h, 'k) world \<Rightarrow> bool" where
  "permit_of w0 rq rel w \<longleftrightarrow>
     granting w0 rq rel w \<and> (\<exists>call. asks R rq call \<and> permits R w0 w (rel \<noteq> None) call)"

lemma pipeline_permits:
  "ok (asking w0 (rel \<noteq> None)) (pipeline_hooked R (harness_hooks R rq hold_id rel) (harness_request rq))
    (\<lambda>resp w. permitting resp \<longrightarrow> permit_of w0 rq rel w) (\<lambda>_ _. True)"
proof (cases "table_entry (rt_optable R) HARNESS_TOOL (dq_op rq)")
  case None
  have any: "ok P m (\<lambda>_ _. True) (\<lambda>_ _. True)" for m :: "(('e, 'i, 'h, 'k) world, 'b) act" and P
    by (auto simp: ok_def split: prod.split sum.split)
  from None show ?thesis
    unfolding pipeline_hooked_def
    by (auto simp: harness_request_def Let_def permitting_def intro!: ok_bind [OF any] ok_ret)
next
  case (Some mop)
  have stamp: "ok (serving w0 (rel \<noteq> None)) (stamp_call_ts R) (\<lambda>_. serving w0 (rel \<noteq> None)) (\<lambda>_ _. True)"
    by (rule ok_conseq [OF asking_unmoved [where b = True, OF unmoved_stamp]]) blast+
  have asks: "asks R rq (materialized_call R (harness_request rq) turn mop ts None)" for turn ts
    using Some by (simp add: asks_def materialized_call_def harness_request_def)
  have dec: "ok (serving w0 (rel \<noteq> None)) (decide_hooked R (harness_hooks R rq hold_id rel) (materialized_call R (harness_request rq) turn mop ts None))
      (\<lambda>resp w. permitting resp \<longrightarrow> permit_of w0 rq rel w) (\<lambda>_ _. True)" for turn ts
    by (rule ok_conseq [OF decide_hooked_permits [OF asks]]) (use asks in \<open>auto simp: permit_of_def\<close>)
  from ok_bind [OF session_turn_serves ok_bind [OF stamp dec]] Some show ?thesis
    by (simp add: pipeline_hooked_def harness_request_def)
qed

subsection \<open>The answer\<close>

definition found_ok ::
  "('e, 'i, 'h, 'k) world \<Rightarrow> DecisionRequest \<Rightarrow> string \<Rightarrow> HarnessDecision + HarnessRelease option \<Rightarrow> ('e, 'i, 'h, 'k) world \<Rightarrow> bool" where
  "found_ok w0 rq hold_id found w \<longleftrightarrow>
     (case found of
        Inl d \<Rightarrow> hd_answer d \<noteq> PERMIT
      | Inr None \<Rightarrow> asking w0 False w
      | Inr (Some h) \<Rightarrow> asking w0 True w \<and> hr_intent_id h = hold_id \<and> (\<exists>i. usable R w0 rq hold_id i))"

lemma asking_forgets: "asked R wf tape w0 same w \<Longrightarrow> asked R wf tape w0 False w"
  by (auto simp: asked_def)

lemma refused_answer [simp]: "hd_answer (harness_refused reason dk outcome iid) \<noteq> PERMIT"
  by (simp add: harness_refused_def REFUSE_def PERMIT_def)

lemma any_end: "ok P m (\<lambda>_ _. True) (\<lambda>_ _. True)"
  by (auto simp: ok_def split: prod.split sum.split)

lemma refuse_after:
  "ok P (bind_w m (\<lambda>_. ret_w (Inl (harness_refused reason dk outcome iid)))) (found_ok w0 rq hold_id) (\<lambda>_ _. True)"
  by (rule ok_bind [OF any_end ok_ret]) (simp add: found_ok_def)

lemma asking_plain:
  "unmoved m \<Longrightarrow> ok (asking w0 same) m (\<lambda>_. asking w0 same) (\<lambda>_ _. True)"
  "valid_emission em \<Longrightarrow> ok (asking w0 same) (emit_w R em) (\<lambda>_. asking w0 same) (\<lambda>_ _. True)"
  by (rule ok_conseq [OF asking_unmoved [where b = False]] ok_conseq [OF asking_emit [where b = False]]; blast)+

lemma lapsed_found:
  "ok (asking w0 True) (bind_w (transition_w R hold_id ''approved'' ''expired'') (\<lambda>won.
     bind_w (when_w won (emit_w R (lapsed_record R i))) (\<lambda>_. ret_w (Inr None)))) (found_ok w0 rq hold_id) (\<lambda>_ _. True)"
proof -
  have tr: "ok (asking w0 True) (transition_w R hold_id ''approved'' ''expired'') (\<lambda>_. asking w0 False) (\<lambda>_ _. True)"
    by (auto simp: ok_def transition_w_def intents_w_def Let_def asked_def core_def split: prod.split sum.split)
  have em: "ok (asking w0 False) (when_w won (emit_w R (lapsed_record R i))) (\<lambda>_. asking w0 False) (\<lambda>_ _. True)" for won
    by (cases won) (auto simp: when_w_def lapsed_record_def stored_record_def intro!: asking_plain(2) ok_ret)
  show ?thesis
    by (rule ok_bind [OF tr ok_bind [OF em ok_ret]]) (simp add: found_ok_def)
qed

lemma approved_intent_found:
  "ok (\<lambda>w. asking w0 True w \<and> s_ticks (snd w) = Suc (s_ticks (snd w0))) (approved_harness_intent R rq hold_id) (found_ok w0 rq hold_id) (\<lambda>_ _. True)"
  unfolding approved_harness_intent_def
proof (rule ok_catch)
  show "ok (\<lambda>w. asking w0 True w \<and> s_ticks (snd w) = Suc (s_ticks (snd w0))) (get_intent_w R hold_id)
      (\<lambda>found w. (asking w0 True w \<and> s_ticks (snd w) = Suc (s_ticks (snd w0))) \<and> get_intent (rt_intent_store R) (s_intents (snd w0)) hold_id = Inr found) (\<lambda>_ _. True)"
    by (auto simp: ok_def get_intent_w_def asked_def split: sum.split)
next
  fix e
  show "ok (\<lambda>_. True) (if is_quarantine e
      then bind_w (surface_quarantined_intent R hold_id (exn_str e) ''decide'') (\<lambda>_.
        ret_w (Inl (harness_refused ''intent quarantined'' (Some ''deny'') (Some ''denied'') None)))
      else raise_w e) (found_ok w0 rq hold_id) (\<lambda>_ _. True)"
    by (simp add: refuse_after ok_raise)
next
  fix found :: "Intent option"
  let ?A = "\<lambda>w. (asking w0 True w \<and> s_ticks (snd w) = Suc (s_ticks (snd w0))) \<and> get_intent (rt_intent_store R) (s_intents (snd w0)) hold_id = Inr found"
  let ?F = "found_ok w0 rq hold_id"
  have fresh: "ok ?A (ret_w (Inr None)) ?F (\<lambda>_ _. True)"
    by (rule ok_ret) (auto simp: found_ok_def dest: asking_forgets)
  show "ok ?A (case found of
          None \<Rightarrow> ret_w (Inr None)
        | Some i \<Rightarrow>
            if in_status i \<noteq> ''approved'' then ret_w (Inr None)
            else if \<not> matches_request R rq i then
              bind_w (record_w R ((emission_of R HARNESS_TOOL (dq_op rq) (harness_args rq) ''deny'' ''denied''
                        (Some HARNESS_RELEASE_MISMATCH_REASON))\<lparr>em_intent_id := Some hold_id\<rparr>)) (\<lambda>_.
                ret_w (Inl (harness_refused HARNESS_RELEASE_MISMATCH_REASON (Some ''deny'') (Some ''denied'') None)))
            else
              bind_w (clock_w R) (\<lambda>now.
              bind_w (lift_w (past_expiry (in_expiry i) now (rt_clock_skew R))) (\<lambda>past.
                if past then
                  bind_w (transition_w R hold_id ''approved'' ''expired'') (\<lambda>won.
                  bind_w (when_w won (emit_w R (lapsed_record R i))) (\<lambda>_. ret_w (Inr None)))
                else
                  ret_w (Inr (Some \<lparr>hr_intent_id = hold_id, hr_approved_by = (case approvedBy i of None \<Rightarrow> [] | Some b \<Rightarrow> b),
                                    hr_stored_call_digest = hash_stored_call R (materializedRequest i)\<rparr>)))))
      ?F (\<lambda>_ _. True)"
  proof (cases found)
    case None
    with fresh show ?thesis by simp
  next
    case (Some i)
    show ?thesis
    proof (cases "in_status i = ''approved'' \<and> matches_request R rq i")
      case False
      with fresh Some show ?thesis by (auto intro: refuse_after)
    next
      case True
      have clock: "ok ?A (clock_w R) (\<lambda>now w. asking w0 True w \<and> get_intent (rt_intent_store R) (s_intents (snd w0)) hold_id = Inr found \<and> rt_clock R (Suc (s_ticks (snd w0))) = Inr now) (\<lambda>_ _. True)"
        by (auto simp: ok_def clock_w_def action_defs asked_def core_def split: sum.split)
      have lift: "ok P (lift_w r) (\<lambda>x w. P w \<and> r = Inr x) (\<lambda>_ _. True)" for P :: "('e, 'i, 'h, 'k) world \<Rightarrow> bool" and r :: "exn + bool"
        by (auto simp: ok_def lift_w_def split: sum.split)
      show ?thesis
        unfolding Some option.case
        by (simp only: True not_True_eq_False if_False simp_thms)
           (intro ok_bind [OF clock [unfolded Some]] ok_bind [OF lift],
            auto intro!: ok_ret ok_conseq [OF lapsed_found] exI [of _ i] simp: found_ok_def usable_def True)
    qed
  qed
qed

lemma answer_permits:
  "ok (\<lambda>w. permitting resp \<longrightarrow> G w) (answer_harness R rq rel resp)
     (\<lambda>d w. hd_answer d = PERMIT \<longrightarrow> hd_intent_id d = map_option hr_intent_id rel \<and> G w) (\<lambda>_ _. True)"
proof (cases "VERB_ANSWER (br_decision_kind resp) = PERMIT \<and> \<not> br_idempotent resp \<and> br_result resp = Some PERMIT_RECORDED")
  case True
  then have "permitting resp"
    by (auto simp: permitting_def VERB_ANSWER_def PERMIT_def REFUSE_def split: decision_kind.splits)
  with True show ?thesis unfolding answer_harness_def Let_def by (auto intro: ok_ret)
next
  case False
  show ?thesis
    unfolding answer_harness_def Let_def if_not_P [OF False]
    by (rule ok_bind [OF any_end ok_ret]) simp
qed

definition answered ::
  "('e, 'i, 'h, 'k) world \<Rightarrow> DecisionRequest \<Rightarrow> HarnessDecision \<Rightarrow> ('e, 'i, 'h, 'k) world \<Rightarrow> bool" where
  "answered w0 rq d w \<longleftrightarrow>
     (hd_answer d = PERMIT \<longrightarrow> (\<exists>rel. hd_intent_id d = map_option hr_intent_id rel \<and> permit_of w0 rq rel w
        \<and> (\<forall>h. rel = Some h \<longrightarrow> (\<exists>i. usable R w0 rq (hr_intent_id h) i))))"

lemma decide_harness_permits:
  "ok (\<lambda>w. asking w0 True w \<and> s_ticks (snd w) = s_ticks (snd w0)) (decide_harness R rq) (answered w0 rq) (\<lambda>_ _. True)"
proof -
  let ?hold = "harness_hold_intent_id (sha256_hex (rt_hash R)) (rt_principal R) (dq_op rq) (dq_input_digest rq)"
  have run: "ok (asking w0 (rel \<noteq> None)) (bind_w (pipeline_hooked R (harness_hooks R rq ?hold rel) (harness_request rq)) (answer_harness R rq rel))
      (\<lambda>d w. hd_answer d = PERMIT \<longrightarrow> hd_intent_id d = map_option hr_intent_id rel \<and> permit_of w0 rq rel w) (\<lambda>_ _. True)" for rel
    by (rule ok_bind [OF pipeline_permits answer_permits])
  have put: "ok (\<lambda>w. asking w0 True w \<and> s_ticks (snd w) = n) (put_w (\<lambda>s. s\<lparr>s_inputs := f s\<rparr>))
      (\<lambda>_ w. asking w0 True w \<and> s_ticks (snd w) = n) (\<lambda>_ _. True)" for f n
    by (simp add: ok_def put_w_def asked_def)
  have clock: "ok (\<lambda>w. asking w0 True w \<and> s_ticks (snd w) = s_ticks (snd w0)) (clock_w R)
      (\<lambda>_ w. asking w0 True w \<and> s_ticks (snd w) = Suc (s_ticks (snd w0))) (\<lambda>_ _. True)"
    by (auto simp: ok_def clock_w_def action_defs asked_def split: sum.split)
  have use: "ok (found_ok w0 rq ?hold found) (case found of Inl answer \<Rightarrow> ret_w answer
      | Inr rel \<Rightarrow> bind_w (pipeline_hooked R (harness_hooks R rq ?hold rel) (harness_request rq)) (answer_harness R rq rel))
      (answered w0 rq) (\<lambda>_ _. True)" for found
  proof (cases found)
    case (Inl d)
    then show ?thesis by (auto intro!: ok_ret simp: found_ok_def answered_def)
  next
    case (Inr rel)
    show ?thesis
    proof (cases rel)
      case None
      show ?thesis unfolding Inr None sum.case
        by (rule ok_conseq [OF run [of None]]) (auto simp: found_ok_def answered_def)
    next
      case (Some h)
      have "ok (\<lambda>w. found_ok w0 rq ?hold found w)
          (bind_w (pipeline_hooked R (harness_hooks R rq ?hold (Some h)) (harness_request rq)) (answer_harness R rq (Some h)))
          (answered w0 rq) (\<lambda>_ _. True)"
      proof (cases "hr_intent_id h = ?hold \<and> (\<exists>i. usable R w0 rq ?hold i)")
        case True
        show ?thesis by (rule ok_conseq [OF run [of "Some h"]]) (use True Inr Some in
            \<open>auto simp: found_ok_def answered_def intro!: exI [of _ "Some h"]\<close>)
      next
        case False
        then show ?thesis by (auto simp: ok_def found_ok_def Inr Some)
      qed
      then show ?thesis unfolding Inr Some sum.case by simp
    qed
  qed
  show ?thesis
    unfolding decide_harness_def Let_def
    by (rule ok_bind [OF put ok_bind [OF clock ok_bind [OF put ok_bind [OF approved_intent_found use]]]])
qed

lemma decide_call_permits:
  assumes "decide_harness_call R mouth harness tool_class loc sd ip cd w = (Inr d, w')" and "hd_answer d = PERMIT"
    and "wf (s_tape (snd w))" and "linked (rt_hash R) 0 genesis (tape (s_tape (snd w)))"
  shows "\<exists>rq. validate_decision_request mouth harness tool_class loc sd ip cd = Inr rq
    \<and> answered w rq d w'"
proof (cases "validate_decision_request mouth harness tool_class loc sd ip cd")
  case (Inl e)
  have "ok (\<lambda>_. True) (refuse_decision_request R mouth ''bad-field'') (\<lambda>d _. hd_answer d \<noteq> PERMIT) (\<lambda>_ _. True)"
    unfolding refuse_decision_request_def
    by (cases mouth) (auto intro!: ok_catch [OF any_end] ok_ret ok_raise)
  from okD(1) [OF this TrueI] assms(1,2) Inl show ?thesis by (simp add: decide_harness_call_def)
next
  case (Inr rq)
  let ?A = "answered w rq"
  have fault: "ok (\<lambda>_. True) (bind_w (record_harness_fault R rq e) (\<lambda>_. ret_w (harness_refused FAULT_REASON None None None))) ?A (\<lambda>_ _. True)" for e
    by (rule ok_bind [OF any_end ok_ret]) (simp add: answered_def)
  have "ok (\<lambda>v. asking w True v \<and> s_ticks (snd v) = s_ticks (snd w))
      (catch_w (decide_harness R rq) (\<lambda>e. bind_w (record_harness_fault R rq e) (\<lambda>_. ret_w (harness_refused FAULT_REASON None None None))) ret_w)
      ?A (\<lambda>_ _. True)"
    by (rule ok_catch [OF decide_harness_permits ok_ret fault])
  from okD(1) [OF this, of w d w'] assms(1,3,4) Inr show ?thesis
    by (simp add: decide_harness_call_def asked_def core_def)
qed

end

section \<open>A harness of the sample deployment\<close>

text \<open>A grant in the loop holds the harness's reads; one hold has been approved and not yet used.\<close>

definition sample_harness_op :: ToolOp where
  "sample_harness_op =
     \<lparr>op_tool = HARNESS_TOOL, op_op = ''file-read/outside'', effect = read_effect, external = True, reversible = None,
      egress_arg = None, destination_arg = None, causes_context = None\<rparr>"

definition sample_subject :: string where
  "sample_subject = ''sha256:'' @ replicate 64 (CHR ''0'')"

definition sample_ask :: DecisionRequest where
  "sample_ask =
     \<lparr>dq_mouth = ''hook'', dq_harness = ''cli'', dq_tool_class = file_read, dq_locality = outside,
      dq_subject_digest = sample_subject, dq_input_digest = sample_subject, dq_call_digest = sample_subject\<rparr>"

definition harness_runtime ::
  "(unit, intent_frozen InMemoryIntentStore, InMemoryInheritanceStore, InMemorySink, InMemorySubGrantStore) BrokerRuntime" where
  "harness_runtime = sample_runtime\<lparr>rt_optable := [sample_harness_op], rt_pip := (\<lambda>_ _ _. (Inr (sample_facts in_loop), []))\<rparr>"

definition harness_call :: "string \<Rightarrow> BrokeredCall" where
  "harness_call ts = materialized_call harness_runtime (harness_request sample_ask) (turn_init ''turn:u'') sample_harness_op ts None"

definition harness_hold :: string where
  "harness_hold = harness_hold_intent_id id sample_principal ''file-read/outside'' sample_subject"

definition harness_intent :: Intent where
  "harness_intent =
     \<lparr>in_id = harness_hold, materializedRequest = harness_call ''t'', in_rendered = ''read it'', in_status = ''approved'',
      in_expiry = 3600 * SECOND, approvedBy = Some ''alice'', in_ts = 0, executedAt = None\<rparr>"

definition harness_world :: sample_world where
  "harness_world = apsnd (\<lambda>s. s\<lparr>s_intents := [(harness_hold, intent_item_attrs plain_codec harness_intent)]\<rparr>) sample_world"

definition harness_asks :: "(sample_world, HarnessDecision) act" where
  "harness_asks =
     decide_harness_call harness_runtime (JStr ''hook'') (JStr ''cli'') (JStr ''file-read'') (JStr ''outside'')
       (JStr sample_subject) (JStr sample_subject) (JStr sample_subject)"

lemma sample_ask_op: "dq_op sample_ask = ''file-read/outside''"
  by code_simp

lemma sample_ask_validates:
  "validate_decision_request (JStr ''hook'') (JStr ''cli'') (JStr ''file-read'') (JStr ''outside'')
       (JStr sample_subject) (JStr sample_subject) (JStr sample_subject) = Inr sample_ask"
  by code_simp

lemma harness_sink: "audit_sink (rt_hash harness_runtime) (rt_sink harness_runtime) (\<lambda>_. True) id"
  using sample_sink by (simp add: harness_runtime_def)

lemma harness_entry: "table_entry (rt_optable harness_runtime) HARNESS_TOOL ''file-read/outside'' = Some sample_harness_op"
  by (simp add: harness_runtime_def table_entry_def sample_harness_op_def)

lemma harness_key: "\<exists>ck. scoped_counter_key 0 sample_principal HARNESS_TOOL ''file-read/outside'' ACTION_CAP_SUFFIX UTC_DAY None None = Inr ck"
proof -
  have "\<not> isl (scoped_counter_key 0 sample_principal HARNESS_TOOL ''file-read/outside'' ACTION_CAP_SUFFIX UTC_DAY None None)"
    by code_simp
  then show ?thesis
    by (cases "scoped_counter_key 0 sample_principal HARNESS_TOOL ''file-read/outside'' ACTION_CAP_SUFFIX UTC_DAY None None") simp_all
qed

lemma harness_decides: "harness_release_decider sha (harness_call ts) (sample_facts in_loop) = Allow"
  by code_simp

lemma harness_rt [simp]:
  "rt_wall harness_runtime n = 0" "rt_clock harness_runtime n = Inr 0" "rt_clock_skew harness_runtime = 0"
  "rt_counter_period harness_runtime = UTC_DAY" "rt_sub_grants harness_runtime = None" "rt_inheritance harness_runtime = None"
  "rt_uuid harness_runtime n = ''u''" "rt_trust_map harness_runtime = (\<lambda>_. False)" "rt_trusted_read_sources harness_runtime = []"
  "rt_store harness_runtime = open_store" "rt_principal harness_runtime = sample_principal"
  "rt_intent_store harness_runtime = intmem_ops plain_codec" "rt_hash harness_runtime = sample_hash_env"
  "rt_pip harness_runtime = (\<lambda>_ _ _. (Inr (sample_facts in_loop), []))"
  "rt_input_ages harness_runtime = \<lparr>startup = [], max_age = [], lowering = []\<rparr>"
  by (simp_all add: harness_runtime_def sample_runtime_def)

lemma harness_call_parts: "bc_tool (harness_call ts) = HARNESS_TOOL" "bc_op (harness_call ts) = ''file-read/outside''"
  "bc_args (harness_call ts) = harness_args sample_ask" "bc_principal (harness_call ts) = sample_principal"
  by (simp_all add: harness_call_def materialized_call_def harness_request_def sample_ask_op)

lemma harness_world_parts: "fst harness_world = ()" "s_tape (snd harness_world) = []" "s_ticks (snd harness_world) = 0"
  "s_intents (snd harness_world) = [(harness_hold, intent_item_attrs plain_codec harness_intent)]"
  by (simp_all add: harness_world_def sample_world_def)

lemma harness_wf: "intmem_wf plain_codec (s_intents (snd harness_world))"
proof -
  have "in_id harness_intent = harness_hold" "in_status harness_intent \<in> set INTENT_STATUSES"
    by (simp_all add: harness_intent_def INTENT_STATUSES_def)
  then show ?thesis unfolding intmem_wf_def harness_world_parts by (auto split: if_splits)
qed

lemma harness_get: "get_intent (intmem_ops plain_codec) (s_intents (snd harness_world)) harness_hold = Inr (Some harness_intent)"
  using plain.from_item_attrs [of harness_intent]
  by (simp add: harness_world_parts intmem_ops_def intmem_get_intent_def harness_intent_def INTENT_STATUSES_def)

lemma harness_matches: "matches_request harness_runtime sample_ask harness_intent"
  by (simp add: matches_request_def owns_intent_def harness_intent_def harness_call_parts sample_ask_op harness_args_def)

lemma harness_claim:
  "\<exists>st. transition_status (intmem_ops plain_codec) harness_hold ''approved'' ''permitted'' None None (s_intents (snd harness_world)) = (True, st)"
  by (simp add: intmem_ops_def intmem_transition_status_def harness_world_parts intent_item_attrs_def Let_def harness_intent_def)

text \<open>The pipeline runs through.\<close>

definition ready :: "sample_world \<Rightarrow> bool" where
  "ready w \<longleftrightarrow> s_intents (snd w) = s_intents (snd harness_world) \<and> s_tape (snd w) = [] \<and> di_max_age (s_inputs (snd w)) = []"

definition harness_release :: HarnessRelease where
  "harness_release =
     \<lparr>hr_intent_id = harness_hold, hr_approved_by = ''alice'', hr_stored_call_digest = hash_stored_call harness_runtime (harness_call ''t'')\<rparr>"

abbreviation harness_hk :: "sample_world PipelineHooks" where
  "harness_hk \<equiv> harness_hooks harness_runtime sample_ask harness_hold (Some harness_release)"

lemma harness_executes:
  "ok (\<lambda>w. ready w \<and> s_turn (snd w) \<noteq> None) (harness_executor harness_runtime sample_ask (Some harness_release) (harness_call ts) Allow)
     (\<lambda>x _. x = Some PERMIT_RECORDED) (\<lambda>_ _. False)"
proof (rule okI)
  fix w :: sample_world
  assume w: "ready w \<and> s_turn (snd w) \<noteq> None"
  let ?R = harness_runtime
  have b: "broker_tape ?R (\<lambda>_. True) id" by (rule broker_tape.intro [OF harness_sink])
  have asks: "asks ?R sample_ask (harness_call ts)"
    using harness_entry by (simp add: asks_def harness_call_parts sample_ask_op) (simp add: harness_call_def materialized_call_def)
  from harness_claim w obtain st where st:
    "transition_status (rt_intent_store ?R) harness_hold ''approved'' ''permitted'' None None (s_intents (snd w)) = (True, st)"
    by (auto simp: ready_def)
  let ?w = "(fst w, (snd w)\<lparr>s_intents := st\<rparr>)"
  have "asked ?R (\<lambda>_. True) id w False ?w" "s_turn (snd ?w) \<noteq> None" using w by (simp_all add: asked_def ready_def)
  from broker_tape.permit_step [OF b asks this, where rel = "Some harness_release"] st obtain w' where
    "bind_w (when_w (dq_taints sample_ask \<and> dq_source_id sample_ask \<notin> set (rt_trusted_read_sources ?R)) (ingest_w ?R [dq_source_id sample_ask])) (\<lambda>_.
       record_w ?R (permit_record ?R (Some harness_release) (harness_call ts))) ?w = (Inr (), w')"
    by (auto simp: harness_release_def)
  moreover have "transition_w ?R harness_hold ''approved'' ''permitted'' w = (Inr True, ?w)"
    using st by (simp add: transition_w_def intents_w_def)
  moreover have "hr_intent_id harness_release = harness_hold" by (simp add: harness_release_def)
  ultimately show "case harness_executor ?R sample_ask (Some harness_release) (harness_call ts) Allow w of
      (Inl e, w1) \<Rightarrow> False | (Inr x, w1) \<Rightarrow> x = Some PERMIT_RECORDED"
    by (simp add: harness_executor_def bind_w_def [of "transition_w _ _ _ _"] ret_w_def catch_w_def kind_def)
qed

lemma harness_facts:
  "ok (\<lambda>w. ready w \<and> s_turn (snd w) \<noteq> None) (timed_pip harness_runtime call)
     (\<lambda>f w. f = sample_facts in_loop \<and> ready w \<and> s_turn (snd w) \<noteq> None) (\<lambda>_ _. False)"
  by (auto simp: ok_def timed_pip_def clock_w_def action_defs timed_def Let_def ready_def)

lemma harness_gate:
  "ready w \<Longrightarrow> gated_hooked harness_runtime harness_hk (harness_call ts) (sample_facts in_loop) w = (Allow, fst w, (snd w)\<lparr>s_ticks := Suc (s_ticks (snd w))\<rparr>)"
  by (simp add: gated_hooked_def gate_def stale_inputs_def ready_def harness_hooks_def harness_decides)

lemma harness_enforces:
  "ok (\<lambda>w. ready w \<and> s_turn (snd w) \<noteq> None) (enforce_hooked harness_runtime harness_hk (harness_call ts) Allow)
     (\<lambda>res _. er_decision res = Allow \<and> \<not> idempotent res \<and> er_result res = Some PERMIT_RECORDED) (\<lambda>_ _. False)"
proof -
  let ?R = harness_runtime and ?P = "\<lambda>w :: sample_world. ready w \<and> s_turn (snd w) \<noteq> None"
  obtain ck where ck: "scoped_counter_key 0 sample_principal HARNESS_TOOL ''file-read/outside'' ACTION_CAP_SUFFIX UTC_DAY None None = Inr ck"
    using harness_key by blast
  have run: "ok ?P (enforce_w (lift_store (rt_store ?R)) env (hooked_actions ?R harness_hk)
         \<lparr>rq_call = harness_call ts, initial_decision = Allow, idempotency_key = None,
          counter_key = ck, counter_delta = 1, counter_cap = c, ancestor_draws = []\<rparr>)
      (\<lambda>res _. er_decision res = Allow \<and> \<not> idempotent res \<and> er_result res = Some PERMIT_RECORDED) (\<lambda>_ _. False)" for env c
  proof (rule okI)
    fix w :: sample_world
    assume w: "?P w"
    obtain r w1 where p: "timed_pip ?R (harness_call ts) w = (r, w1)" using prod.exhaust by blast
    with w harness_facts [of "harness_call ts", unfolded ok_def, rule_format, of w]
    have w1: "r = Inr (sample_facts in_loop)" "?P w1" by (auto split: sum.splits)
    let ?w2 = "(fst w1, (snd w1)\<lparr>s_ticks := Suc (s_ticks (snd w1))\<rparr>)"
    have "?P ?w2" using w1(2) by (simp add: ready_def)
    then obtain w3 where e: "harness_executor ?R sample_ask (Some harness_release) (harness_call ts) Allow ?w2 = (Inr (Some PERMIT_RECORDED), w3)"
      using harness_executes [of ts, unfolded ok_def, rule_format, of ?w2]
      by (cases "harness_executor ?R sample_ask (Some harness_release) (harness_call ts) Allow ?w2") (auto split: sum.splits)
    have u: "((), snd w3) = w3" "fst w1 = ()" by (cases w3) simp_all
    show "case enforce_w (lift_store (rt_store ?R)) env (hooked_actions ?R harness_hk)
         \<lparr>rq_call = harness_call ts, initial_decision = Allow, idempotency_key = None,
          counter_key = ck, counter_delta = 1, counter_cap = c, ancestor_draws = []\<rparr> w of
        (Inl e, w1) \<Rightarrow> False | (Inr res, w1) \<Rightarrow> er_decision res = Allow \<and> \<not> idempotent res \<and> er_result res = Some PERMIT_RECORDED"
      using p w1 e harness_gate [of w1 ts] u
      by (simp add: enforce_w_def claim_step_def revalidate_w_def hooked_actions_def lift_store_def open_store_def
        draw_step_def pick_stricter_def act_step_w_def execute_step_w_def commit_and_finish_def finish_def settle_step_def
        harness_hooks_def)
  qed
  show ?thesis
  proof (rule okI)
    fix w :: sample_world
    assume w: "?P w"
    let ?w = "(fst w, (snd w)\<lparr>s_ticks := Suc (Suc (Suc (s_ticks (snd w))))\<rparr>)"
    have "enforce_hooked ?R harness_hk (harness_call ts) Allow w
      = enforce_w (lift_store (rt_store ?R)) (rt_env ?R (Suc (Suc (s_ticks (snd w))))) (hooked_actions ?R harness_hk)
         \<lparr>rq_call = harness_call ts, initial_decision = Allow, idempotency_key = None,
          counter_key = ck, counter_delta = 1, counter_cap = rt_counter_cap ?R, ancestor_draws = []\<rparr> ?w"
      by (simp add: enforce_hooked_def wall_w_def tree_draws_def action_defs(1-6) ck harness_call_parts resolve_tree_pool_def)
    moreover have "?P ?w" using w by (simp add: ready_def)
    ultimately show "case enforce_hooked ?R harness_hk (harness_call ts) Allow w of (Inl e, w1) \<Rightarrow> False
        | (Inr res, w1) \<Rightarrow> er_decision res = Allow \<and> \<not> idempotent res \<and> er_result res = Some PERMIT_RECORDED"
      using run unfolding ok_def by simp
  qed
qed

lemma harness_pipeline:
  "ok (\<lambda>w. ready w \<and> s_turn (snd w) = None \<and> s_last_ts (snd w) = None) (pipeline_hooked harness_runtime harness_hk (harness_request sample_ask))
     (\<lambda>resp _. br_decision_kind resp = k_allow \<and> \<not> br_idempotent resp \<and> br_result resp = Some PERMIT_RECORDED) (\<lambda>_ _. False)"
proof -
  let ?R = harness_runtime and ?P = "\<lambda>w :: sample_world. ready w \<and> s_turn (snd w) \<noteq> None"
  let ?Q = "\<lambda>resp (_ :: sample_world). br_decision_kind resp = k_allow \<and> \<not> br_idempotent resp \<and> br_result resp = Some PERMIT_RECORDED"
  have dec: "ok ?P (decide_hooked ?R harness_hk (harness_call ts)) ?Q (\<lambda>_ _. False)" for ts
  proof -
    have q: "\<not> quarantined (sample_facts in_loop)" by (simp add: sample_facts_def)
    have gate: "ok (\<lambda>w. f = sample_facts in_loop \<and> ?P w) (\<lambda>w. apfst Inr (gated_hooked ?R harness_hk (harness_call ts) f w))
        (\<lambda>d w. d = Allow \<and> ?P w) (\<lambda>_ _. False)" for f
      by (auto simp: ok_def harness_gate) (auto simp: ready_def)
    have resp: "ok (\<lambda>w. er_decision res = Allow \<and> \<not> idempotent res \<and> er_result res = Some PERMIT_RECORDED)
        (respond_hooked ?R harness_hk (harness_call ts) res) ?Q (\<lambda>_ _. False)" for res
      by (auto simp: ok_def respond_hooked_def Let_def ret_w_def response_def executes_def kind_def)
    have enf: "ok (\<lambda>w. d = Allow \<and> ?P w) (enforce_hooked ?R harness_hk (harness_call ts) d)
        (\<lambda>res _. er_decision res = Allow \<and> \<not> idempotent res \<and> er_result res = Some PERMIT_RECORDED) (\<lambda>_ _. False)" for d
      using harness_enforces [of ts] by (cases "d = Allow") (auto simp: ok_def)
    have none: "ok (\<lambda>w. f = sample_facts in_loop \<and> ?P w) (when_w (quarantined f) m) (\<lambda>_ w. f = sample_facts in_loop \<and> ?P w) (\<lambda>_ _. False)" for f m
      using q by (auto simp: ok_def when_w_def ret_w_def)
    show ?thesis
      unfolding decide_hooked_def
      by (rule ok_bind [OF harness_facts ok_bind [OF none ok_bind [OF gate ok_catch [OF enf resp]]]]) (simp add: ok_def)
  qed
  show ?thesis
  proof (rule okI)
    fix w :: sample_world
    assume w: "ready w \<and> s_turn (snd w) = None \<and> s_last_ts (snd w) = None"
    let ?w = "(fst w, (snd w)\<lparr>s_turn := Some (turn_init ''turn:u''), s_ticks := Suc (Suc (s_ticks (snd w))), s_last_ts := Some 0\<rparr>)"
    have "pipeline_hooked ?R harness_hk (harness_request sample_ask) w = decide_hooked ?R harness_hk (harness_call (isoformat_utc 0)) ?w"
      using w harness_entry
      by (simp add: pipeline_hooked_def session_turn_def stamp_call_ts_def wall_w_def action_defs(1-6) Let_def harness_request_def sample_ask_op
          harness_call_def)
    moreover have "?P ?w" using w by (simp add: ready_def)
    ultimately show "case pipeline_hooked ?R harness_hk (harness_request sample_ask) w of (Inl e, w1) \<Rightarrow> False
        | (Inr resp, w1) \<Rightarrow> ?Q resp w1"
      using dec unfolding ok_def by simp
  qed
qed

lemma harness_not_past: "past_expiry (in_expiry harness_intent) 0 0 = Inr False"
  using end_judged_at_Inr_iff [of 0 0 0]
  by (simp add: past_expiry_def is_expired_def bind_r_def harness_intent_def SECOND_def DAY_def DATETIME_MIN_def DATETIME_MAX_def)

lemma harness_permitted:
  "\<exists>d w'. harness_asks harness_world = (Inr d, w') \<and> hd_answer d = PERMIT \<and> hd_intent_id d = Some harness_hold"
proof -
  let ?R = harness_runtime
  let ?w = "(fst harness_world, (snd harness_world)\<lparr>s_ticks := Suc 0,
    s_inputs := establish ''intent'' 0 None (decision_inputs \<lparr>startup = [], max_age = [], lowering = []\<rparr>)\<rparr>)"
  let ?w2 = "(fst ?w, (snd ?w)\<lparr>s_ticks := Suc (Suc 0)\<rparr>)"
  have h: "harness_hold_intent_id (sha256_hex (rt_hash ?R)) (rt_principal ?R) (dq_op sample_ask) (dq_input_digest sample_ask) = harness_hold"
    using sample_ask_op by (simp add: harness_hold_def sample_hash_env_def) (simp add: sample_ask_def)
  have st: "in_status harness_intent = ''approved''" "approvedBy harness_intent = Some ''alice''" "materializedRequest harness_intent = harness_call ''t''"
    by (simp_all add: harness_intent_def)
  have "get_intent_w ?R harness_hold ?w = (Inr (Some harness_intent), ?w)"
    using harness_get by (simp add: get_intent_w_def)
  then have found: "approved_harness_intent ?R sample_ask harness_hold ?w = (Inr (Inr (Some harness_release)), ?w2)"
    using harness_not_past harness_matches st
    by (simp add: approved_harness_intent_def catch_w_def [of "get_intent_w _ _"] clock_w_def action_defs(1-6) harness_release_def)
  have "ready ?w2 \<and> s_turn (snd ?w2) = None \<and> s_last_ts (snd ?w2) = None"
    by (simp add: ready_def harness_world_def sample_world_def decision_inputs_def establish_def)
  then obtain resp w' where p: "pipeline_hooked ?R harness_hk (harness_request sample_ask) ?w2 = (Inr resp, w')"
    "br_decision_kind resp = k_allow" "\<not> br_idempotent resp" "br_result resp = Some PERMIT_RECORDED"
    using harness_pipeline [unfolded ok_def, rule_format, of ?w2]
    by (cases "pipeline_hooked ?R harness_hk (harness_request sample_ask) ?w2") (auto split: sum.splits)
  have "decide_harness ?R sample_ask harness_world
      = bind_w (pipeline_hooked ?R harness_hk (harness_request sample_ask)) (answer_harness ?R sample_ask (Some harness_release)) ?w2"
    using found h by (simp add: decide_harness_def clock_w_def action_defs(1-6) harness_world_parts)
  also have "\<dots> = (Inr \<lparr>hd_answer = PERMIT, hd_reason = permitted_reason (dq_op sample_ask) (Some harness_hold),
               hd_intent_id = Some harness_hold, hd_decision_kind = Some ''allow'', hd_outcome = Some ''permitted''\<rparr>, w')"
    using p by (simp add: bind_w_def answer_harness_def Let_def VERB_ANSWER_def ret_w_def harness_release_def)
  finally show ?thesis
    by (cases w') (simp add: harness_asks_def decide_harness_call_def sample_ask_validates catch_w_def ret_w_def)
qed

section \<open>Results\<close>

lemma permit_uses_approval:
  assumes "audit_sink (rt_hash R) (rt_sink R) good tape" and "good (s_tape (snd w))"
    and "linked (rt_hash R) 0 (GENESIS_PREV_HASH (rt_hash R)) (tape (s_tape (snd w)))"
    and "intent_store (rt_intent_store R) iwf view" and "iwf (s_intents (snd w))"
    and "decide_harness_call R mouth harness tool_class loc sd ip cd w = (Inr d, w')" and "hd_answer d = PERMIT"
    and "hd_intent_id d = Some iid"
  shows "\<exists>rq i. validate_decision_request mouth harness tool_class loc sd ip cd = Inr rq \<and> usable R w rq iid i
    \<and> view (s_intents (snd w)) iid = Some i \<and> iwf (s_intents (snd w'))
    \<and> view (s_intents (snd w')) = (view (s_intents (snd w)))(iid \<mapsto> moved ''permitted'' None None i)"
proof -
  note b = broker_tape.intro [OF assms(1)]
  from broker_tape.decide_call_permits [OF b assms(6,7,2,3)] assms(7) obtain rq rel where
    v: "validate_decision_request mouth harness tool_class loc sd ip cd = Inr rq" "hd_intent_id d = map_option hr_intent_id rel"
    and g: "granted R good tape w rq rel w'"
    and c: "\<forall>h. rel = Some h \<longrightarrow> (\<exists>i. usable R w rq (hr_intent_id h) i)"
    unfolding broker_tape.answered_def [OF b] broker_tape.permit_of_def [OF b] by blast
  from v(2) assms(8) obtain h where h: "rel = Some h" "hr_intent_id h = iid" by (cases rel) auto
  with c obtain i where u: "usable R w rq iid i" by blast
  have t: "transition_status (rt_intent_store R) iid ''approved'' ''permitted'' None None (s_intents (snd w)) = (True, s_intents (snd w'))"
    using g h by (auto simp: granted_def split: prod.splits)
  from u intent_store.get_view [OF assms(4,5)] have i: "view (s_intents (snd w)) iid = Some i" by (simp add: usable_def)
  with intent_store.transition_cas [OF assms(4,5) _ _ t] v(1) u show ?thesis by (auto simp: INTENT_STATUSES_def PENDING_STATUS_def)
qed

text \<open>One approval permits one call: no later request that finds the intent store as a permit left it is permitted on
  the same intent.\<close>

lemma approval_permits_once:
  assumes "audit_sink (rt_hash R) (rt_sink R) good tape" and "good (s_tape (snd w))"
    and "linked (rt_hash R) 0 (GENESIS_PREV_HASH (rt_hash R)) (tape (s_tape (snd w)))"
    and "intent_store (rt_intent_store R) iwf view" and "iwf (s_intents (snd w))"
    and "decide_harness_call R mouth harness tool_class loc sd ip cd w = (Inr d, w')" and "hd_answer d = PERMIT"
    and "hd_intent_id d = Some iid"
  shows "\<exists>rq i. validate_decision_request mouth harness tool_class loc sd ip cd = Inr rq \<and> usable R w rq iid i
    \<and> view (s_intents (snd w')) = (view (s_intents (snd w)))(iid \<mapsto> moved ''permitted'' None None i)
    \<and> (\<forall>m h t l s p c v d' v'. s_intents (snd v) = s_intents (snd w') \<and> good (s_tape (snd v))
         \<and> linked (rt_hash R) 0 (GENESIS_PREV_HASH (rt_hash R)) (tape (s_tape (snd v)))
         \<and> decide_harness_call R m h t l s p c v = (Inr d', v') \<and> hd_answer d' = PERMIT \<longrightarrow> hd_intent_id d' \<noteq> Some iid)"
proof -
  obtain rq i where v: "validate_decision_request mouth harness tool_class loc sd ip cd = Inr rq"
    and u: "usable R w rq iid i" and iwf: "iwf (s_intents (snd w'))"
    and n: "view (s_intents (snd w')) = (view (s_intents (snd w)))(iid \<mapsto> moved ''permitted'' None None i)"
    using permit_uses_approval [OF assms] by blast
  have "hd_intent_id d' \<noteq> Some iid"
    if "s_intents (snd u) = s_intents (snd w')" "good (s_tape (snd u))"
      "linked (rt_hash R) 0 (GENESIS_PREV_HASH (rt_hash R)) (tape (s_tape (snd u)))"
      "decide_harness_call R m h t l s p c u = (Inr d', u')" "hd_answer d' = PERMIT" for m h t l s p c d' u u'
  proof
    assume "hd_intent_id d' = Some iid"
    from permit_uses_approval [OF assms(1) that(2,3) assms(4) _ that(4,5) this] iwf that(1) n obtain rq' j where
      "usable R u rq' iid j" "view (s_intents (snd w')) iid = Some j" by auto
    with n show False by (auto simp: usable_def moved_def)
  qed
  with v u n show ?thesis by blast
qed

text \<open>C36: a permit is recorded before it is answered, only on a call the rules let through, and spends the approval it
  rests on. If a harness is told to go on with a call, its request was well formed; the tape is still a chain and its last
  record says permitted at the coordinate of the call, with the digest of what the request named; no connector was reached;
  a class that reads from a source nobody trusts has tainted the turn; and on facts read during this request, from the
  enforcement store as the request found it, the rule table allows the declared operation or, with an approval, would only
  hold it. A permit that names an intent found it approved, the principal's own, frozen at the same coordinate with the same
  input digest and before its expiry on the clock it read, and leaves it permitted and every other intent as it was.\<close>

theorem permit_is_recorded:
  assumes "audit_sink (rt_hash R) (rt_sink R) good tape" and "good (s_tape (snd w))"
    and "linked (rt_hash R) 0 (GENESIS_PREV_HASH (rt_hash R)) (tape (s_tape (snd w)))"
    and "intent_store (rt_intent_store R) iwf view" and "iwf (s_intents (snd w))"
    and "decide_harness_call R mouth harness tool_class loc sd ip cd w = (Inr d, w')" and "hd_answer d = PERMIT"
  shows "\<exists>rq recs r call. validate_decision_request mouth harness tool_class loc sd ip cd = Inr rq
    \<and> tape (s_tape (snd w')) = tape (s_tape (snd w)) @ recs @ [r] \<and> permit_entry R rq (hd_intent_id d) r
    \<and> linked (rt_hash R) 0 (GENESIS_PREV_HASH (rt_hash R)) (tape (s_tape (snd w')))
    \<and> s_attempts (snd w') = s_attempts (snd w)
    \<and> (untrusted_harness_read R rq \<longrightarrow> tainted_turn (s_turn (snd w')))
    \<and> asks R rq call \<and> permits R w w' (hd_intent_id d \<noteq> None) call
    \<and> (\<forall>iid. hd_intent_id d = Some iid \<longrightarrow> (\<exists>i. usable R w rq iid i
         \<and> view (s_intents (snd w')) = (view (s_intents (snd w)))(iid \<mapsto> moved ''permitted'' None None i)))"
proof -
  note b = broker_tape.intro [OF assms(1)]
  from broker_tape.decide_call_permits [OF b assms(6,7,2,3)] assms(7) obtain rq rel call where rq:
    "validate_decision_request mouth harness tool_class loc sd ip cd = Inr rq" "hd_intent_id d = map_option hr_intent_id rel"
    "granted R good tape w rq rel w'" "asks R rq call" "permits R w w' (rel \<noteq> None) call"
    unfolding broker_tape.answered_def [OF b] broker_tape.permit_of_def [OF b] by blast
  moreover have "\<exists>i. usable R w rq iid i \<and> view (s_intents (snd w')) = (view (s_intents (snd w)))(iid \<mapsto> moved ''permitted'' None None i)"
    if "hd_intent_id d = Some iid" for iid
    using permit_uses_approval [OF assms that] rq(1) by auto
  ultimately show ?thesis by (auto simp: granted_def)
qed

theorem permit_is_recorded_witness:
  "\<exists>d w' r. harness_asks harness_world = (Inr d, w') \<and> hd_answer d = PERMIT
    \<and> last (s_tape (snd w')) = r \<and> permit_entry harness_runtime sample_ask (Some harness_hold) r
    \<and> tainted_turn (s_turn (snd w')) \<and> usable harness_runtime harness_world sample_ask harness_hold harness_intent
    \<and> intmem_view plain_codec (s_intents (snd w')) harness_hold = Some (moved ''permitted'' None None harness_intent)"
proof -
  obtain d w' where run: "harness_asks harness_world = (Inr d, w')" and d: "hd_answer d = PERMIT" "hd_intent_id d = Some harness_hold"
    using harness_permitted by blast
  have store: "intent_store (rt_intent_store harness_runtime) (intmem_wf plain_codec) (intmem_view plain_codec)"
    using intmem_keeps_contract [OF plain.intent_codec_axioms] by simp
  have "linked (rt_hash harness_runtime) 0 (GENESIS_PREV_HASH (rt_hash harness_runtime)) (id (s_tape (snd harness_world)))"
    by (simp add: harness_world_parts)
  from permit_is_recorded [OF harness_sink TrueI this store harness_wf run [unfolded harness_asks_def] d(1)] sample_ask_validates d(2)
  obtain recs r i where r: "s_tape (snd w') = recs @ [r]" "permit_entry harness_runtime sample_ask (Some harness_hold) r"
    "untrusted_harness_read harness_runtime sample_ask \<longrightarrow> tainted_turn (s_turn (snd w'))"
    and i: "usable harness_runtime harness_world sample_ask harness_hold i"
    "intmem_view plain_codec (s_intents (snd w')) harness_hold = Some (moved ''permitted'' None None i)"
    by (auto simp: harness_world_parts)
  have "i = harness_intent" using i(1) harness_get by (simp add: usable_def)
  moreover have "untrusted_harness_read harness_runtime sample_ask"
    by (simp add: untrusted_harness_read_def dq_taints_def TAINTING_CLASSES_def sample_ask_def)
  ultimately show ?thesis using run d r i by auto
qed

end
