(* ===== verification/Grant_Ceremony.thy ===== *)
theory Grant_Ceremony
  imports Grant_Lifecycle
begin

text \<open>
  The maker-checker promotion ceremony (class \<open>PromotionCeremony\<close> of \<open>grants/ceremony.py\<close>) and the promotion entry of
  the rung state machine (\<open>grants/rung.py\<close>). The judgement of a proposal is pure: structural re-validation, expiry,
  term, maker and checker, predicate and human ratification. What follows reads the ledger, consumes the stored
  proposal and writes the record and the raised grant in one unit. The optional reviewer is a function that may
  raise; its findings are recorded and never gate.
\<close>

section \<open>The ceremony\<close>

record CheckerVerdict =
  findings :: string
  suspicious :: bool

record CeremonyResult =
  cr_ratified :: bool
  cr_reason :: string
  cr_record :: "PromotionRecord option"
  cr_verdict :: "CheckerVerdict option"

text \<open>What a ceremony is constructed with, and the instants it reads.\<close>

record ('p, 's) Ceremony =
  cm_store :: "('p, 's) GrantStore"
  cm_checker :: "(string \<Rightarrow> json \<Rightarrow> exn + CheckerVerdict) option"
  cm_signer :: signer
  cm_clock_skew :: timedelta
  cm_standing_check :: standing_check
  cm_parse_iso :: delta_parser

definition rejected :: "string \<Rightarrow> CeremonyResult" where
  "rejected why = \<lparr>cr_ratified = False, cr_reason = why, cr_record = None, cr_verdict = None\<rparr>"

definition args_of :: "PromotionProposal \<Rightarrow> predicate_args" where
  "args_of p =
     \<lparr>pa_metrics = pp_metrics p, pa_window_n = pp_window_n p, pa_min_observations = pp_min_observations p,
      pa_threshold = pp_threshold p, pa_target_level = pp_target_level p, pa_artifact = pp_artifact p,
      pa_covered = pp_covered p, pa_provenance_maturity = pp_provenance_maturity p,
      pa_blast_class = pp_blast_class p, pa_error_budget = pp_error_budget p\<rparr>"

text \<open>Everything judged before the reviewer runs: \<open>Inr (Inl why)\<close> is a rejection with its (shortened) message, \<open>Inr (Inr reason)\<close> the predicate's
  reason.\<close>

definition judge_proposal ::
  "timedelta \<Rightarrow> PromotionProposal \<Rightarrow> string \<Rightarrow> instant \<Rightarrow> bool \<Rightarrow> exn + (string + string)" where
  "judge_proposal skew p ratifier_id now human_ratifier =
     (if pp_owner_id p = [] then Inr (Inl ''owner_id is required'')
      else (case one_rung_violation (pp_from_level p) (pp_target_level p) of
        Some v \<Rightarrow> Inr (Inl v)
      | None \<Rightarrow>
        bind_r (proposal_expired (pp_expires_at p) now skew) (\<lambda>expired.
          if expired then Inr (Inl ''proposal expired'')
          else
            bind_r (case pp_certified_until p of
                None \<Rightarrow> Inr None
              | Some u \<Rightarrow>
                  (case parse_certified_until u of
                     Inl e \<Rightarrow> Inr (Some (exn_str e))
                   | Inr term_end \<Rightarrow>
                       bind_r (end_judged_at now skew) (\<lambda>judged.
                         Inr (if term_end \<le> judged then Some ''certifiedUntil is not after the ratification instant''
                              else None)))) (\<lambda>bad_term.
              case bad_term of
                Some why \<Rightarrow> Inr (Inl why)
              | None \<Rightarrow>
                  if is_same_operator (pp_proposer_id p) ratifier_id
                  then Inr (Inl ''proposedBy and ratifiedBy must differ'')
                  else
                    bind_r (evaluate_promotion_predicate (args_of p)) (\<lambda>res.
                      if \<not> eligible res then Inr (Inl (''predicate gate failed: '' @ pred_reason res))
                      else if requires_human_ratification res \<and> \<not> human_ratifier
                      then Inr (Inl ''high-blast promotion requires per-instance human ratification'')
                      else Inr (Inr (pred_reason res)))))))"

definition checker_context :: "PromotionProposal \<Rightarrow> string \<Rightarrow> json" where
  "checker_context p reason =
     JObj [(''principal'', JObj [(''agentId'', JStr (agentId (pp_principal p))), (''skill'', JStr (skill (pp_principal p))),
              (''user'', JStr (user (pp_principal p))), (''tier'', JStr (tier_str (tier (pp_principal p))))]),
           (''action_class'', JStr (pp_action_class p)),
           (''from_level'', case pp_from_level p of None \<Rightarrow> JNull | Some l \<Rightarrow> JStr (level_str l)),
           (''target_level'', JStr (level_str (pp_target_level p))),
           (''predicate_reason'', JStr reason)]"

text \<open>A reviewer that raises is recorded as a suspicious finding naming the exception's type.\<close>

definition review :: "(string \<Rightarrow> json \<Rightarrow> exn + CheckerVerdict) option \<Rightarrow> PromotionProposal \<Rightarrow> string \<Rightarrow> CheckerVerdict option" where
  "review checker p reason =
     (case checker of None \<Rightarrow> None
      | Some check \<Rightarrow>
        (case check (pp_evidence_bundle p) (checker_context p reason) of
           Inr v \<Rightarrow> Some v
         | Inl e \<Rightarrow> Some \<lparr>findings = ''reviewer_error:'' @ exn_class e, suspicious = True\<rparr>))"

definition with_findings :: "string \<Rightarrow> CheckerVerdict option \<Rightarrow> string" where
  "with_findings reason verdict =
     (case verdict of None \<Rightarrow> reason
      | Some v \<Rightarrow>
          reason @ ''; reviewer findings'' @ (if suspicious v then '' [suspicion raised]'' else []) @ '': '' @ findings v)"

definition promotion_record :: "PromotionProposal \<Rightarrow> string \<Rightarrow> string \<Rightarrow> iso \<Rightarrow> PromotionRecord" where
  "promotion_record p ratifier_id predicate_text ts =
     \<lparr>pr_recordType = Promotion, pr_actionClass = pp_action_class p, pr_principal = pp_principal p,
      pr_fromLevel = pp_from_level p, pr_toLevel = pp_target_level p, pr_evidence = pp_evidence_bundle p,
      pr_predicate = Some predicate_text, pr_proposedBy = pp_proposer_id p, pr_ratifiedBy = ratifier_id,
      pr_attestation = attestation_for ratifier_id, pr_envelopeHash = pp_envelope_hash p,
      pr_triggeredBy = [], pr_demotionReason = None, pr_ts = ts, pr_certifiedUntil = pp_certified_until p\<rparr>"

definition raised_grant :: "PromotionProposal \<Rightarrow> string \<Rightarrow> iso \<Rightarrow> Grant" where
  "raised_grant p ratifier_id ts =
     \<lparr>gr_principal = pp_principal p, gr_actionClass = pp_action_class p, gr_level = pp_target_level p,
      gr_envelopeHash = pp_envelope_hash p, gr_promotedBy = ratifier_id, gr_evidence = pp_evidence_bundle p,
      gr_ts = ts, gr_lastSafeLevel = pp_last_safe_level p, gr_demotionTriggers = pp_demotion_triggers p,
      gr_demotionReason = None, gr_labelLatency = pp_label_latency p, gr_ownerId = pp_owner_id p,
      gr_certifiedUntil = pp_certified_until p\<rparr>"

text \<open>The guarded re-read of an existing grant: an exception, a rejection, or the read to condition the write on. A
  Recommend-origin proposal reads nothing and creates.\<close>

definition guarded_reread ::
  "('p, 's) Ceremony \<Rightarrow> PromotionProposal \<Rightarrow> instant \<Rightarrow> 's \<Rightarrow> exn + (string + 'p GrantReadResult option)" where
  "guarded_reread M p now s =
     (case pp_from_level p of
        None \<Rightarrow> Inr (Inr None)
      | Some from_level \<Rightarrow>
          bind_r (get_grant (cm_store M) s (pp_principal p) (pp_action_class p)) (\<lambda>current.
          bind_r (guard_r (\<not> rr_quarantined current) (QuarantinedGrantError (pp_action_class p))) (\<lambda>_.
            case rr_grant current of
              None \<Rightarrow> Inl (GrantUpdateConflictError ''not found'')
            | Some g \<Rightarrow>
                bind_r (lapse_pending g now (cm_clock_skew M)) (\<lambda>due.
                  if due then Inr (Inl ''premise changed: the lapse is not yet recorded'')
                  else (case ceremony_standing_refusal (cm_standing_check M) g now of
                    Some why \<Rightarrow> Inr (Inl (''premise changed: '' @ why))
                  | None \<Rightarrow>
                      if gr_level g \<noteq> from_level then Inr (Inl ''premise changed: the stored grant is at another level'')
                      else Inr (Inr (Some current)))))))"

definition consume_stored ::
  "PromotionProposal \<Rightarrow> 'd InMemoryProposalStore option \<Rightarrow> exn + 'd InMemoryProposalStore option" where
  "consume_stored p q =
     (case q of None \<Rightarrow> Inr None
      | Some items \<Rightarrow>
          bind_r (pmem_consume_proposal (pp_principal p) (pp_action_class p) (pp_proposal_id p) ''ratified'' items)
            (\<lambda>items'. Inr (Some items')))"

definition ceremony_execute ::
  "('p, 's) Ceremony \<Rightarrow> PromotionProposal \<Rightarrow> string \<Rightarrow> instant \<Rightarrow> instant \<Rightarrow> bool
     \<Rightarrow> 's \<times> 'd InMemoryProposalStore option \<Rightarrow> (exn + CeremonyResult) \<times> 's \<times> 'd InMemoryProposalStore option" where
  "ceremony_execute M p ratifier_id now system_now human_ratifier w =
     (let S = cm_store M; s = fst w in
      case judge_proposal (cm_clock_skew M) p ratifier_id now human_ratifier of
        Inl e \<Rightarrow> (Inl e, w)
      | Inr (Inl why) \<Rightarrow> (Inr (rejected why), w)
      | Inr (Inr reason) \<Rightarrow>
          let verdict = review (cm_checker M) p reason in
          (case bind_r (next_ledger_ts S s (pp_principal p) (pp_action_class p) system_now SystemNow) (\<lambda>ts.
                bind_r (mk_record (promotion_record p ratifier_id (with_findings reason verdict) ts)) (\<lambda>r.
                bind_r (mk_grant (cm_parse_iso M) (raised_grant p ratifier_id ts)) (\<lambda>g.
                bind_r (guarded_reread M p now s) (\<lambda>reread. Inr (r, g, reread))))) of
             Inl e \<Rightarrow> (Inl e, w)
           | Inr (r, g, Inl why) \<Rightarrow> (Inr (rejected why), w)
           | Inr (r, g, Inr expected) \<Rightarrow>
               (case consume_stored p (snd w) of
                  Inl e \<Rightarrow> (Inl e, w)
                | Inr q' \<Rightarrow>
                    (case write_record_and_grant S r g (sign_with (cm_signer M) r) expected s of
                       Inl e \<Rightarrow> (Inl e, (s, q'))
                     | Inr s' \<Rightarrow>
                         (Inr \<lparr>cr_ratified = True,
                               cr_reason = with_findings (''predicate passed; ratified by '' @ ratifier_id) verdict,
                               cr_record = Some r, cr_verdict = verdict\<rparr>, (s', q'))))))"

definition rung_promote ::
  "('p, 's) Ceremony \<Rightarrow> PromotionProposal \<Rightarrow> string \<Rightarrow> instant \<Rightarrow> instant \<Rightarrow> bool
     \<Rightarrow> 's \<times> 'd InMemoryProposalStore option \<Rightarrow> (exn + CeremonyResult) \<times> 's \<times> 'd InMemoryProposalStore option" where
  "rung_promote M p ratifier_id now system_now human_ratifier w =
     (case validate_promotion_transition (pp_from_level p) (pp_target_level p) of
        Inl e \<Rightarrow> (Inl e, w)
      | Inr _ \<Rightarrow> ceremony_execute M p ratifier_id now system_now human_ratifier w)"

section \<open>What a ratification is\<close>

lemma judge_proposal_accepts:
  assumes "judge_proposal skew p ratifier now human = Inr (Inr reason)"
  shows "one_rung_violation (pp_from_level p) (pp_target_level p) = None"
    "proposal_expired (pp_expires_at p) now skew = Inr False"
    "\<not> is_same_operator (pp_proposer_id p) ratifier"
    "\<exists>res. evaluate_promotion_predicate (args_of p) = Inr res \<and> eligible res \<and> reason = pred_reason res
       \<and> (requires_human_ratification res \<longrightarrow> human)"
  using assms
  by (auto simp: judge_proposal_def bind_r_Inr_iff split: if_splits option.splits sum.splits)

text \<open>A ratified result comes with its unit write.\<close>

lemma execute_ratified:
  assumes "ceremony_execute M p ratifier now sysnow human w = (Inr res, w')" and "cr_ratified res"
  obtains reason ts r g expected q' where
    "judge_proposal (cm_clock_skew M) p ratifier now human = Inr (Inr reason)"
    "next_ledger_ts (cm_store M) (fst w) (pp_principal p) (pp_action_class p) sysnow SystemNow = Inr ts"
    "r = promotion_record p ratifier (with_findings reason (review (cm_checker M) p reason)) ts" "mk_record r = Inr r"
    "g = raised_grant p ratifier ts" "mk_grant (cm_parse_iso M) g = Inr g"
    "guarded_reread M p now (fst w) = Inr (Inr expected)"
    "consume_stored p (snd w) = Inr q'" "snd w' = q'" "cr_record res = Some r"
    "write_record_and_grant (cm_store M) r g (sign_with (cm_signer M) r) expected (fst w) = Inr (fst w')"
proof -
  note thesis = that
  have ok: "mk_record r = Inr r" if "mk_record x = Inr r" for x r using that by (auto simp: mk_record_Inr)
  obtain reason where j: "judge_proposal (cm_clock_skew M) p ratifier now human = Inr (Inr reason)"
    using assms by (auto simp: ceremony_execute_def Let_def rejected_def split: sum.splits)
  let ?v = "review (cm_checker M) p reason"
  obtain ts r g expected q' where
    "next_ledger_ts (cm_store M) (fst w) (pp_principal p) (pp_action_class p) sysnow SystemNow = Inr ts"
    "mk_record (promotion_record p ratifier (with_findings reason ?v) ts) = Inr r"
    "mk_grant (cm_parse_iso M) (raised_grant p ratifier ts) = Inr g"
    "guarded_reread M p now (fst w) = Inr (Inr expected)"
    "consume_stored p (snd w) = Inr q'" "snd w' = q'" "cr_record res = Some r"
    "write_record_and_grant (cm_store M) r g (sign_with (cm_signer M) r) expected (fst w) = Inr (fst w')"
    using assms j
    by (auto simp: ceremony_execute_def Let_def rejected_def bind_r_Inr_iff split: sum.splits)
  with j thesis [of reason ts r g expected q'] ok show thesis
    by (metis mk_record_Inr mk_grant_Inr)
qed

text \<open>Anything but a ratification leaves the grants and the ledger as they were.\<close>

lemma execute_otherwise:
  assumes "ceremony_execute M p ratifier now sysnow human w = (out, w')" and "\<And>res. out = Inr res \<Longrightarrow> \<not> cr_ratified res"
  shows "fst w' = fst w"
  using assms by (auto simp: ceremony_execute_def Let_def split: sum.splits)

end
