(* ===== verification/Grant_Ratchet.thy ===== *)
theory Grant_Ratchet
  imports Grant_Ceremony
begin

text \<open>
  The ratchet: what any sequence of lifecycle writes does to the levels and to the ledger. Each writer is shown, once
  for every store that keeps the contract \<open>grant_ledger\<close>, to be a \<open>unit_step\<close>: it replaces one grant and appends the one
  record that accounts for the change, stamped after every earlier record of its coordinate. The step relation
  \<open>lifecycle_step\<close> over the in-memory stores adds whoever tampers with stored bytes without the HMAC key. The results:
  a grant is the balance of its ledger, a level rises only by a ratified promotion of one rung between two operators,
  and bytes that fail verification are never written over.
\<close>

section \<open>Accounted writes\<close>

text \<open>The grants a reader sees, the keys that are occupied, and the partitions of the ledger.\<close>

type_synonym ledger_view =
  "(grant_slot \<Rightarrow> Grant option) \<times> (grant_slot \<Rightarrow> bool) \<times> (string \<Rightarrow> PromotionRecord list)"

definition unit_step :: "ledger_view \<Rightarrow> ledger_view \<Rightarrow> Grant \<Rightarrow> PromotionRecord \<Rightarrow> bool" where
  "unit_step v v' g r \<longleftrightarrow> (case v of (h, occ, R) \<Rightarrow>
     v' = (h(key_of g \<mapsto> g), occ(key_of g := True), R(pk_of r := R (pk_of r) @ [r]))
     \<and> (h (key_of g) = None \<longrightarrow> \<not> occ (key_of g))
     \<and> pr_principal r = gr_principal g \<and> pr_actionClass r = gr_actionClass g
     \<and> pr_fromLevel r = map_option gr_level (h (key_of g)) \<and> pr_toLevel r = gr_level g
     \<and> pr_ts r = gr_ts g \<and> mk_record r = Inr r
     \<and> (\<exists>t. pr_ts r = iso_of t \<and> (\<forall>r' \<in> set (R (pk_of r)). \<exists>u. parse_ts (pr_ts r') = Inr u \<and> u < t)))"

text \<open>A promotion between two operators, one rung up from what is held, recorded with the reason the predicate passed
  the proposal for.\<close>

definition earned :: "ledger_view \<Rightarrow> Grant \<Rightarrow> PromotionRecord \<Rightarrow> bool" where
  "earned v g r \<longleftrightarrow>
     pr_recordType r = Promotion \<and> \<not> is_same_operator (pr_proposedBy r) (pr_ratifiedBy r)
     \<and> one_rung_violation (map_option gr_level (fst v (key_of g))) (gr_level g) = None
     \<and> (\<exists>p ratifier findings ts res. r = promotion_record p ratifier (with_findings (pred_reason res) findings) ts
          \<and> evaluate_promotion_predicate (args_of p) = Inr res \<and> eligible res)"

definition admissible :: "ledger_view \<Rightarrow> Grant \<Rightarrow> PromotionRecord \<Rightarrow> bool" where
  "admissible v g r \<longleftrightarrow>
     earned v g r
     \<or> pr_recordType r = Bootstrap \<and> fst v (key_of g) = None
     \<or> pr_recordType r \<notin> {Promotion, Bootstrap} \<and> (\<exists>g0. fst v (key_of g) = Some g0 \<and> gr_level g \<le> gr_level g0)"

lemma as_conflict_Inr [simp]: "as_conflict f r = Inr x \<longleftrightarrow> r = Inr x"
  by (auto simp: as_conflict_def split: sum.splits)

text \<open>A copy of a valid grant is valid when the fields its validators read are.\<close>

lemma grant_valid_copy:
  assumes "grant_valid parse_iso g" "gr_labelLatency g' = gr_labelLatency g"
    "gr_certifiedUntil g' = gr_certifiedUntil g" "gr_lastSafeLevel g' \<noteq> out_of_loop"
  shows "grant_valid parse_iso g'"
  using assms mk_grant_Inr [OF assms(1)] by (auto simp: mk_grant_def split: sum.splits if_splits)

lemma demoted_simps [simp]:
  "gr_principal (demoted g reason ts) = gr_principal g" "gr_actionClass (demoted g reason ts) = gr_actionClass g"
  "gr_ts (demoted g reason ts) = ts" "gr_labelLatency (demoted g reason ts) = gr_labelLatency g"
  "gr_certifiedUntil (demoted g reason ts) = gr_certifiedUntil g"
  "gr_level (demoted g reason ts) = min (gr_level g) (gr_lastSafeLevel g)"
  by (auto simp: demoted_def Let_def demotion_target_level_def min_def)

lemma demoted_last_safe:
  "gr_lastSafeLevel g \<noteq> out_of_loop \<Longrightarrow> gr_lastSafeLevel (demoted g reason ts) \<noteq> out_of_loop"
  by (auto simp: demoted_def Let_def)

context grant_ledger
begin

definition view :: "'s \<Rightarrow> ledger_view" where
  "view s = (held s, occupied s, rows s)"

lemma next_ts_later:
  assumes s: "sound s" and n: "next_ledger_ts S s p c sysnow now = Inr ts"
  shows "\<exists>t. ts = iso_of t \<and> (\<forall>r' \<in> set (rows s (promotion_record_pk p c)). \<exists>u. parse_ts (pr_ts r') = Inr u \<and> u < t)"
proof -
  obtain rs where rs: "list_records S s p c None = Inr rs" "set rs = set (rows s (promotion_record_pk p c))"
    using list_reads [OF s] by blast
  show ?thesis
  proof (cases "rs = []")
    case True
    with rs n show ?thesis by (auto simp: next_ledger_ts_def bind_r_Inr_iff)
  next
    case False
    then obtain wall stamps n' where c: "collect_r (map (\<lambda>r. parse_ts (pr_ts r)) rs) = Inr stamps"
      and add: "dt_add (Max (set stamps)) LEDGER_TS_TICK = Inr n'" and ts: "ts = iso_of (max wall n')"
      using n rs(1) by (auto simp: next_ledger_ts_def bind_r_Inr_iff)
    have "\<exists>u. parse_ts (pr_ts r') = Inr u \<and> u < max wall n'" if r': "r' \<in> set rs" for r'
    proof -
      have map: "map (\<lambda>r. parse_ts (pr_ts r)) rs = map Inr stamps" using c by (simp add: collect_r_Inr)
      then have "parse_ts (pr_ts r') \<in> Inr ` set stamps" using r' by (metis (no_types, lifting) image_eqI list.set_map)
      then obtain u where u: "parse_ts (pr_ts r') = Inr u" "u \<in> set stamps" by blast
      then have "u \<le> Max (set stamps)" by simp
      moreover have "n' = Max (set stamps) + 1"
        using add by (auto simp: dt_add_def LEDGER_TS_TICK_def split: if_splits)
      ultimately show ?thesis using u(1) by auto
    qed
    with ts rs(2) show ?thesis by auto
  qed
qed

lemma update_is_unit_step:
  assumes s: "sound s" and w: "write_record_and_grant S r g' sig (Some current) s = Inr s'"
    and cur: "get_grant S s p c = Inr current" "rr_grant current = Some g"
    and coord: "grant_key p c = key_of g'" "pr_principal r = gr_principal g'" "pr_actionClass r = gr_actionClass g'"
    and v: "grant_valid parse_iso g'" "mk_record r = Inr r"
    and ts: "next_ledger_ts S s p c sysnow now = Inr (pr_ts r)" "gr_ts g' = pr_ts r"
    and lv: "pr_fromLevel r = Some (gr_level g)" "pr_toLevel r = gr_level g'"
  shows "sound s' \<and> held s (key_of g') = Some g \<and> unit_step (view s) (view s') g' r"
proof -
  have "\<exists>s0 p c. sound s0 \<and> grant_key p c = key_of g' \<and> get_grant S s0 p c = Inr e" if "Some current = Some e" for e
    using that s cur(1) coord(1) by auto
  from write_unit [OF s w this v] cur(2) have
    "sound s'" "held s' = (held s)(key_of g' \<mapsto> g')" "occupied s' = (occupied s)(key_of g' := True)"
    and h: "held s (key_of g') = Some g"
    and "rows s' = (rows s)(pk_of r := rows s (pk_of r) @ [r])" by auto
  moreover have "\<exists>t. pr_ts r = iso_of t \<and> (\<forall>r' \<in> set (rows s (pk_of r)). \<exists>u. parse_ts (pr_ts r') = Inr u \<and> u < t)"
    using next_ts_later [OF s ts(1)] record_pk_of_key [OF coord(1)] coord(2,3) by simp
  moreover have "pr_fromLevel r = map_option gr_level (held s (key_of g'))" using h lv(1) by simp
  ultimately show ?thesis unfolding unit_step_def view_def prod.case using coord(2,3) v(2) ts(2) lv(2) h by simp
qed

lemma create_is_unit_step:
  assumes s: "sound s" and w: "write_record_and_grant S r g' sig None s = Inr s'"
    and coord: "pr_principal r = gr_principal g'" "pr_actionClass r = gr_actionClass g'"
    and v: "grant_valid parse_iso g'" "mk_record r = Inr r"
    and ts: "next_ledger_ts S s (gr_principal g') (gr_actionClass g') sysnow now = Inr (pr_ts r)" "gr_ts g' = pr_ts r"
    and lv: "pr_fromLevel r = None" "pr_toLevel r = gr_level g'"
  shows "sound s' \<and> held s (key_of g') = None \<and> unit_step (view s) (view s') g' r"
proof -
  from write_unit [OF s w _ v] have
    "sound s'" "held s' = (held s)(key_of g' \<mapsto> g')" "occupied s' = (occupied s)(key_of g' := True)"
    and free: "\<not> occupied s (key_of g')"
    and "rows s' = (rows s)(pk_of r := rows s (pk_of r) @ [r])" by auto
  moreover have h: "held s (key_of g') = None"
    using held_valid [OF s, of "key_of g'"] free by (cases "held s (key_of g')") auto
  moreover have "\<exists>t. pr_ts r = iso_of t \<and> (\<forall>r' \<in> set (rows s (pk_of r)). \<exists>u. parse_ts (pr_ts r') = Inr u \<and> u < t)"
    using next_ts_later [OF s ts(1)] coord by simp
  moreover have "pr_fromLevel r = map_option gr_level (held s (key_of g'))" using h lv(1) by simp
  ultimately show ?thesis unfolding unit_step_def view_def prod.case using coord v(2) ts(2) lv(2) free by simp
qed

text \<open>What the lowering writers have in common: an accounted write over the grant they evaluated, no higher than it.\<close>

definition lowers :: "Grant \<Rightarrow> 's \<Rightarrow> (Grant \<times> PromotionRecord) \<times> 's \<Rightarrow> bool" where
  "lowers g s out \<longleftrightarrow> (case out of ((g', r), s') \<Rightarrow>
     sound s' \<and> held s (key_of g') = Some g \<and> unit_step (view s) (view s') g' r
     \<and> key_of g' = key_of g \<and> gr_level g' \<le> gr_level g \<and> pr_recordType r \<noteq> Promotion \<and> pr_recordType r \<noteq> Bootstrap)"

lemma read_valid:
  assumes "sound s" "get_grant S s (gr_principal g) (gr_actionClass g) = Inr current" "rr_grant current = Some g"
  shows "grant_valid parse_iso g" "gr_lastSafeLevel g \<noteq> out_of_loop"
proof -
  have "held s (key_of g) = Some g" using get_reads [OF assms(1), of "gr_principal g" "gr_actionClass g"] assms(2,3) by auto
  with held_valid [OF assms(1)] show "grant_valid parse_iso g" by blast
  then show "gr_lastSafeLevel g \<noteq> out_of_loop" using mk_grant_Inr by blast
qed

lemma apply_demotion_lowers:
  assumes s: "sound s" and d: "apply_demotion S g res sysnow ts sgnr s = Inr out"
  shows "lowers g s out"
proof -
  obtain stamp current reason r s' where n: "next_ledger_ts S s (gr_principal g) (gr_actionClass g) sysnow ts = Inr stamp"
    and cur: "get_grant S s (gr_principal g) (gr_actionClass g) = Inr current" "rr_grant current = Some g"
    and rec: "r = demotion_record g res reason stamp" "mk_record r = Inr r"
    and w: "write_record_and_grant S r (demoted g reason stamp) (sign_with sgnr r) (Some current) s = Inr s'"
    and out: "out = ((demoted g reason stamp, r), s')"
    using d by (auto simp: apply_demotion_def bind_r_Inr_iff mk_record_Inr)
  have v: "grant_valid parse_iso (demoted g reason stamp)"
    by (rule grant_valid_copy [OF read_valid(1) [OF s cur]]) (simp_all add: demoted_last_safe read_valid(2) [OF s cur])
  from update_is_unit_step [OF s w cur _ _ _ v rec(2)] n show ?thesis
    by (simp add: out lowers_def rec(1) demotion_record_def)
qed

lemma apply_lapse_lowers:
  assumes s: "sound s" and d: "apply_lapse S g now sgnr skew s = Inr out"
  shows "lowers g s out"
proof -
  obtain stamp current updated r s' where n: "next_ledger_ts S s (gr_principal g) (gr_actionClass g) now (AtInstant now) = Inr stamp"
    and b: "build_lapse g now (Some stamp) skew = Inr (updated, r)"
    and cur: "get_grant S s (gr_principal g) (gr_actionClass g) = Inr current" "rr_grant current = Some g"
    and w: "write_record_and_grant S r updated (sign_with sgnr r) (Some current) s = Inr s'"
    and out: "out = ((updated, r), s')"
    using d by (auto simp: apply_lapse_def bind_r_Inr_iff)
  have u: "updated = g\<lparr>gr_level := gr_lastSafeLevel g, gr_demotionReason := Some pending_evidence, gr_ts := stamp\<rparr>"
    and less: "gr_lastSafeLevel g < gr_level g" and r: "mk_record r = Inr r" "pr_recordType r = Lapse"
      "pr_fromLevel r = Some (gr_level g)" "pr_toLevel r = gr_lastSafeLevel g" "pr_ts r = stamp"
      "pr_principal r = gr_principal g" "pr_actionClass r = gr_actionClass g"
    using b by (auto simp: build_lapse_def bind_r_Inr_iff lapse_pending_Inr Let_def mk_record_Inr)
  have v: "grant_valid parse_iso updated"
    by (rule grant_valid_copy [OF read_valid(1) [OF s cur]]) (simp_all add: u read_valid(2) [OF s cur])
  from update_is_unit_step [OF s w cur _ _ _ v r(1)] n less r show ?thesis
    by (simp add: out lowers_def u less_imp_le)
qed

lemma apply_withdrawal_lowers:
  assumes s: "sound s" and d: "apply_withdrawal S g why now sgnr s = Inr out"
  shows "lowers g s out"
proof -
  obtain stamp current updated r s' where n: "next_ledger_ts S s (gr_principal g) (gr_actionClass g) now (AtInstant now) = Inr stamp"
    and b: "build_withdrawal g why stamp = Inr (updated, r)"
    and cur: "get_grant S s (gr_principal g) (gr_actionClass g) = Inr current" "rr_grant current = Some g"
    and w: "write_record_and_grant S r updated (sign_with sgnr r) (Some current) s = Inr s'"
    and out: "out = ((updated, r), s')"
    using d by (auto simp: apply_withdrawal_def bind_r_Inr_iff)
  have u: "updated = g\<lparr>gr_level := gr_lastSafeLevel g, gr_demotionReason := Some pending_evidence, gr_ts := stamp\<rparr>"
    and less: "gr_lastSafeLevel g < gr_level g" and r: "mk_record r = Inr r" "pr_recordType r = Withdrawal"
      "pr_fromLevel r = Some (gr_level g)" "pr_toLevel r = gr_lastSafeLevel g" "pr_ts r = stamp"
      "pr_principal r = gr_principal g" "pr_actionClass r = gr_actionClass g"
    using b by (auto simp: build_withdrawal_def bind_r_Inr_iff mk_record_Inr)
  have v: "grant_valid parse_iso updated"
    by (rule grant_valid_copy [OF read_valid(1) [OF s cur]]) (simp_all add: u read_valid(2) [OF s cur])
  from update_is_unit_step [OF s w cur _ _ _ v r(1)] n less r show ?thesis
    by (simp add: out lowers_def u less_imp_le)
qed

lemma run_lapse_lapsed:
  assumes s: "sound s" and run: "run_lapse S p c now sgnr skew s = Inr (outcome, s')"
    and lapsed: "lo_status outcome = Lapse_lapsed"
  obtains g updated where "held s (grant_key p c) = Some g" "held s' (grant_key p c) = Some updated"
    "sound s'" "term_passed g now skew = Inr True" "gr_lastSafeLevel g < gr_level g"
    "gr_certifiedUntil g \<noteq> None" "gr_level updated = gr_lastSafeLevel g" "gr_lastSafeLevel updated = gr_lastSafeLevel g"
    "gr_certifiedUntil updated = gr_certifiedUntil g"
proof -
  note found = that
  obtain read where read1: "get_grant S s p c = Inr read" using get_reads [OF s] by blast
  have idle: "lo_status (lapse_says st) = Lapse_lapsed \<Longrightarrow> st = Lapse_lapsed" for st by (simp add: lapse_says_def)
  obtain g where g: "rr_grant read = Some g" "\<not> rr_quarantined read"
    using run lapsed read1 idle by (cases "rr_grant read") (auto simp: run_lapse_def split: if_splits)
  obtain passed pending where due: "gr_certifiedUntil g \<noteq> None" "term_passed g now skew = Inr passed" "passed"
    "lapse_pending g now skew = Inr pending" "pending"
    using run lapsed idle by (auto simp: run_lapse_def read1 g bind_r_Inr_iff split: if_splits)
  obtain updated r where a: "apply_lapse S g now sgnr skew s = Inr ((updated, r), s')"
    using run lapsed idle due by (auto simp: run_lapse_def read1 g split: if_splits sum.splits)
  note read = read1 g(1)
  have h: "held s (grant_key p c) = Some g" using get_reads [OF s, of p c] read by auto
  with held_valid [OF s] have k: "grant_key p c = key_of g" by auto
  have u: "\<exists>ts. updated = g\<lparr>gr_level := gr_lastSafeLevel g, gr_demotionReason := Some pending_evidence, gr_ts := ts\<rparr>"
    using a by (auto simp: apply_lapse_def build_lapse_def bind_r_Inr_iff Let_def)
  from apply_lapse_lowers [OF s a] have "sound s'" "held s' (grant_key p c) = Some updated"
    by (auto simp: lowers_def unit_step_def view_def k)
  with found [OF h] due u show thesis by (auto simp: lapse_pending_Inr)
qed

lemma second_lapse_pass:
  assumes s: "sound s" and h: "held s (grant_key p c) = Some g" and level: "gr_level g \<le> gr_lastSafeLevel g"
    and passed: "gr_certifiedUntil g \<noteq> None" "term_passed g now skew = Inr True"
    and run: "run_lapse S p c now sgnr skew s = Inr out"
  shows "out = (lapse_says Lapse_nothing, s)"
proof -
  obtain read where "get_grant S s p c = Inr read" "rr_grant read = Some g" "\<not> rr_quarantined read"
    using get_reads [OF s, of p c] h by auto
  with run passed leD [OF level] show ?thesis by (auto simp: run_lapse_def lapse_pending_def)
qed

lemma lapse_then_idle:
  assumes s: "sound s" and run: "run_lapse S p c now sgnr skew s = Inr (outcome, s')"
    and lapsed: "lo_status outcome = Lapse_lapsed"
  shows "\<exists>g g'. held s (grant_key p c) = Some g \<and> held s' (grant_key p c) = Some g'
    \<and> effective_level g now skew True = Inr (gr_level g') \<and> gr_level g' < gr_level g
    \<and> gr_certifiedUntil g' = gr_certifiedUntil g
    \<and> (\<forall>now' skew' out. now \<le> now' \<longrightarrow> skew \<le> skew' \<longrightarrow>
         run_lapse S p c now' sgnr skew' s' = Inr out \<longrightarrow> out = (lapse_says Lapse_nothing, s'))"
proof -
  from run_lapse_lapsed [OF assms] obtain g g' where g: "held s (grant_key p c) = Some g" "held s' (grant_key p c) = Some g'"
    "sound s'" "term_passed g now skew = Inr True" "gr_lastSafeLevel g < gr_level g" "gr_certifiedUntil g \<noteq> None"
    "gr_level g' = gr_lastSafeLevel g" "gr_lastSafeLevel g' = gr_lastSafeLevel g"
    "gr_certifiedUntil g' = gr_certifiedUntil g" by blast
  have "out = (lapse_says Lapse_nothing, s')"
    if "now \<le> now'" "skew \<le> skew'" and again: "run_lapse S p c now' sgnr skew' s' = Inr out" for now' skew' out
  proof -
    obtain read where "get_grant S s' p c = Inr read" "rr_grant read = Some g'" "\<not> rr_quarantined read"
      using get_reads [OF g(3), of p c] g(2) by auto
    with again g(6,9) obtain b where b: "term_passed g' now' skew' = Inr b"
      by (auto simp: run_lapse_def bind_r_Inr_iff)
    have "term_passed g' now skew = Inr True" using g(4,9) by (simp add: term_passed_def)
    from term_passed_mono [OF this that(1,2) b] b have "term_passed g' now' skew' = Inr True" by simp
    from second_lapse_pass [OF g(3,2) _ _ this again] g(6-9) show ?thesis by simp
  qed
  with g show ?thesis by (intro exI [of _ g] exI [of _ g']) (auto simp: effective_level_Inr min_def)
qed

lemma tighten_lowers:
  assumes s: "sound s" and d: "tighten_to_in_loop S g by_whom sysnow ts why sgnr s = Inr out"
  shows "lowers g s out"
proof -
  obtain stamp current r s' where n: "next_ledger_ts S s (gr_principal g) (gr_actionClass g) sysnow ts = Inr stamp"
    and cur: "get_grant S s (gr_principal g) (gr_actionClass g) = Inr current" "rr_grant current = Some g"
    and r: "mk_record r = Inr r" "r = tightening_record g by_whom why stamp"
    and w: "write_record_and_grant S r (g\<lparr>gr_level := in_loop, gr_lastSafeLevel := in_loop, gr_ts := stamp\<rparr>)
        (sign_with sgnr r) (Some current) s = Inr s'"
    and out: "out = ((g\<lparr>gr_level := in_loop, gr_lastSafeLevel := in_loop, gr_ts := stamp\<rparr>, r), s')"
    using d by (auto simp: tighten_to_in_loop_def bind_r_Inr_iff Let_def mk_record_Inr)
  have v: "grant_valid parse_iso (g\<lparr>gr_level := in_loop, gr_lastSafeLevel := in_loop, gr_ts := stamp\<rparr>)"
    by (rule grant_valid_copy [OF read_valid(1) [OF s cur]]) simp_all
  from update_is_unit_step [OF s w cur _ _ _ v r(1)] n show ?thesis
    by (simp add: out lowers_def level_top r(2) tightening_record_def)
qed

lemma reattest_lowers:
  assumes s: "sound s" and cur: "get_grant S s p c = Inr read" "rr_grant read = Some g"
    and d: "reattest_grant S read p c g caller h sign wall s = Inr out"
  shows "lowers g s out"
proof -
  have "held s (grant_key p c) = Some g" using get_reads [OF s, of p c] cur by auto
  with held_valid [OF s] have k: "grant_key p c = key_of g" and valid: "grant_valid parse_iso g" by auto
  obtain stamp updated r s' where n: "next_ledger_ts S s p c wall (AtInstant wall) = Inr stamp"
    and b: "build_reattestation g caller h stamp = Inr (updated, r)"
    and w: "write_record_and_grant S r updated (Some (sign r)) (Some read) s = Inr s'"
    and out: "out = ((updated, r), s')"
    using d by (auto simp: reattest_grant_def bind_r_Inr_iff)
  have u: "updated = g\<lparr>gr_envelopeHash := h, gr_promotedBy := caller, gr_ts := stamp\<rparr>"
    and r: "mk_record r = Inr r" "pr_recordType r = Reattestation"
      "pr_fromLevel r = Some (gr_level g)" "pr_toLevel r = gr_level g" "pr_ts r = stamp"
      "pr_principal r = gr_principal g" "pr_actionClass r = gr_actionClass g"
    using b by (auto simp: build_reattestation_def bind_r_Inr_iff mk_record_Inr)
  have v: "grant_valid parse_iso updated"
    using mk_grant_Inr [OF valid] by (intro grant_valid_copy [OF valid]) (simp_all add: u)
  have kk: "grant_key p c = key_of updated" and same: "key_of updated = key_of g" using k by (simp_all add: u)
  have "sound s' \<and> held s (key_of updated) = Some g \<and> unit_step (view s) (view s') updated r"
    by (rule update_is_unit_step [OF s w cur kk _ _ v r(1)]) (use n r in \<open>simp_all add: u\<close>)
  then show ?thesis unfolding out lowers_def prod.case using same r(2) by (simp add: u)
qed

lemma lowers_admissible:
  assumes "lowers g s ((g', r), s')"
  shows "sound s' \<and> unit_step (view s) (view s') g' r \<and> admissible (view s) g' r \<and> gr_actionClass g' = gr_actionClass g"
  using assms by (auto simp: lowers_def admissible_def view_def grant_key_def)

lemma seed_admissible:
  assumes s: "sound s" and t: "grant_valid parse_iso template"
    and d: "seed_grant S template caller sgnr wall s = Inr ((g, r), s')"
  shows "sound s' \<and> unit_step (view s) (view s') g r \<and> admissible (view s) g r \<and> gr_actionClass g = gr_actionClass template"
proof -
  obtain stamp where n: "next_ledger_ts S s (gr_principal template) (gr_actionClass template) wall (AtInstant wall) = Inr stamp"
    and g: "g = template\<lparr>gr_promotedBy := caller, gr_ts := stamp\<rparr>" and r: "r = bootstrap_record g caller stamp"
    and mk: "mk_record r = Inr r" and w: "write_record_and_grant S r g (sign_with sgnr r) None s = Inr s'"
    using d by (auto simp: seed_grant_def bind_r_Inr_iff Let_def mk_record_Inr)
  have v: "grant_valid parse_iso g"
    using mk_grant_Inr [OF t] by (intro grant_valid_copy [OF t]) (simp_all add: g)
  have "sound s' \<and> held s (key_of g) = None \<and> unit_step (view s) (view s') g r"
    by (rule create_is_unit_step [OF s w _ _ v mk]) (use n in \<open>simp_all add: r bootstrap_record_def g\<close>)
  then show ?thesis by (simp add: admissible_def view_def r bootstrap_record_def g)
qed

lemma promotion_admissible:
  assumes s: "sound (fst w)" and M: "cm_store M = S" "cm_parse_iso M = parse_iso"
    and x: "ceremony_execute M p ratifier now sysnow human w = (Inr res, w')" "cr_ratified res"
  shows "\<exists>g r. sound (fst w') \<and> unit_step (view (fst w)) (view (fst w')) g r \<and> admissible (view (fst w)) g r
    \<and> gr_actionClass g = pp_action_class p \<and> cr_record res = Some r \<and> earned (view (fst w)) g r
    \<and> (\<exists>ts. g = raised_grant p ratifier ts)"
proof -
  obtain reason ts r g expected q' where j: "judge_proposal (cm_clock_skew M) p ratifier now human = Inr (Inr reason)"
    and n: "next_ledger_ts S (fst w) (pp_principal p) (pp_action_class p) sysnow SystemNow = Inr ts"
    and r: "r = promotion_record p ratifier (with_findings reason (review (cm_checker M) p reason)) ts" "mk_record r = Inr r"
    and g: "g = raised_grant p ratifier ts" and v: "grant_valid parse_iso g"
    and re: "guarded_reread M p now (fst w) = Inr (Inr expected)" and cr: "cr_record res = Some r"
    and wr: "write_record_and_grant S r g (sign_with (cm_signer M) r) expected (fst w) = Inr (fst w')"
    using execute_ratified [OF x] M by metis
  have k: "key_of g = grant_key (pp_principal p) (pp_action_class p)" by (simp add: g raised_grant_def)
  have st: "sound (fst w') \<and> unit_step (view (fst w)) (view (fst w')) g r
      \<and> map_option gr_level (held (fst w) (key_of g)) = pp_from_level p"
  proof (cases "pp_from_level p")
    case None
    with re have e: "expected = None" by (simp add: guarded_reread_def)
    have "sound (fst w') \<and> held (fst w) (key_of g) = None \<and> unit_step (view (fst w)) (view (fst w')) g r"
      by (rule create_is_unit_step [OF s wr [unfolded e] _ _ v r(2)])
        (use n None in \<open>simp_all add: r(1) promotion_record_def g raised_grant_def\<close>)
    with None show ?thesis by simp
  next
    case (Some l)
    with re M obtain current g0 where e: "expected = Some current"
      and cur: "get_grant S (fst w) (pp_principal p) (pp_action_class p) = Inr current" "rr_grant current = Some g0"
      and l: "gr_level g0 = l"
      by (auto simp: guarded_reread_def bind_r_Inr_iff split: option.splits if_splits)
    have "sound (fst w') \<and> held (fst w) (key_of g) = Some g0 \<and> unit_step (view (fst w)) (view (fst w')) g r"
      by (rule update_is_unit_step [OF s wr [unfolded e] cur k [symmetric] _ _ v r(2)])
        (use n Some l in \<open>simp_all add: r(1) promotion_record_def g raised_grant_def\<close>)
    with Some l show ?thesis by simp
  qed
  note a = judge_proposal_accepts [OF j]
  have "earned (view (fst w)) g r"
    unfolding earned_def
  proof (intro conjI)
    show "\<exists>p ratifier findings ts res. r = promotion_record p ratifier (with_findings (pred_reason res) findings) ts
        \<and> evaluate_promotion_predicate (args_of p) = Inr res \<and> eligible res"
      using a(4) r(1) by blast
  qed (use a(1,3) st in \<open>simp_all add: r(1) promotion_record_def g raised_grant_def view_def\<close>)
  moreover have "gr_actionClass g = pp_action_class p" "\<exists>ts. g = raised_grant p ratifier ts"
    by (auto simp: g raised_grant_def)
  ultimately show ?thesis using st cr unfolding admissible_def by blast
qed

end

section \<open>Steps of the lifecycle\<close>

text \<open>The writers over the in-memory stores, for action classes without the key separator, and a change of a
  stored grant to bytes that fail verification, which is what somebody without the HMAC key can write of his own. Putting
  back an older row that still verifies is not a step.\<close>

inductive lifecycle_step :: "'p grant_codec \<Rightarrow> 'p InMemoryLedger \<Rightarrow> 'p InMemoryLedger \<Rightarrow> bool" for C where
  demote: "apply_demotion (gmem_ops C) g res sysnow ts sgnr s = Inr (out, s') \<Longrightarrow>
     CHR ''#'' \<notin> set (gr_actionClass g) \<Longrightarrow> lifecycle_step C s s'"
| lapse: "apply_lapse (gmem_ops C) g now sgnr skew s = Inr (out, s') \<Longrightarrow>
     CHR ''#'' \<notin> set (gr_actionClass g) \<Longrightarrow> lifecycle_step C s s'"
| withdraw: "apply_withdrawal (gmem_ops C) g why now sgnr s = Inr (out, s') \<Longrightarrow>
     CHR ''#'' \<notin> set (gr_actionClass g) \<Longrightarrow> lifecycle_step C s s'"
| tighten: "tighten_to_in_loop (gmem_ops C) g by_whom sysnow ts why sgnr s = Inr (out, s') \<Longrightarrow>
     CHR ''#'' \<notin> set (gr_actionClass g) \<Longrightarrow> lifecycle_step C s s'"
| reattest: "gmem_get_grant C s p c = Inr read \<Longrightarrow> rr_grant read = Some g \<Longrightarrow>
     reattest_grant (gmem_ops C) read p c g caller h sign wall s = Inr (out, s') \<Longrightarrow>
     CHR ''#'' \<notin> set (gr_actionClass g) \<Longrightarrow> lifecycle_step C s s'"
| seed: "grant_valid (parse_delta C) template \<Longrightarrow>
     seed_grant (gmem_ops C) template caller sgnr wall s = Inr (out, s') \<Longrightarrow>
     CHR ''#'' \<notin> set (gr_actionClass template) \<Longrightarrow> lifecycle_step C s s'"
| promote: "cm_store M = gmem_ops C \<Longrightarrow> cm_parse_iso M = parse_delta C \<Longrightarrow>
     ceremony_execute M p ratifier now sysnow human (s, q :: 'p InMemoryProposalStore option) = (out, (s', q')) \<Longrightarrow>
     CHR ''#'' \<notin> set (pp_action_class p) \<Longrightarrow> lifecycle_step C s s'"
| tamper: "\<not> authentic C it \<Longrightarrow> lifecycle_step C s (s\<lparr>lg_grants := AList.update k it (lg_grants s)\<rparr>)"

context ledger_codec
begin

lemma tamper_view:
  assumes "gmem_sound C s" "\<not> authentic C it"
  shows "gmem_sound C (s\<lparr>lg_grants := AList.update k it (lg_grants s)\<rparr>)
    \<and> gmem.view (s\<lparr>lg_grants := AList.update k it (lg_grants s)\<rparr>)
        = ((gmem_held C s)(k := None), (gmem_occupied s)(k := True), rmem_rows C s)"
proof -
  obtain r where r: "read_result_from_item C it = Inr r" using not_authentic_reads [OF assms(2)] by blast
  with quarantine_iff(2) [OF r] assms show ?thesis
    by (auto simp: gmem_sound_def gmem.view_def gmem_held_def gmem_occupied_def rmem_rows_def update_conv' fun_eq_iff
        split: if_splits)
qed

lemma step_cases:
  assumes "lifecycle_step C s s'" and s: "gmem_sound C s"
  shows "gmem_sound C s'
    \<and> (s' = s
       \<or> (\<exists>g r. unit_step (gmem.view s) (gmem.view s') g r \<and> admissible (gmem.view s) g r \<and> CHR ''#'' \<notin> set (gr_actionClass g))
       \<or> (\<exists>k. gmem.view s' = ((gmem_held C s)(k := None), (gmem_occupied s)(k := True), rmem_rows C s)))"
  using assms(1)
proof cases
  case (demote g res sysnow ts sgnr out)
  then show ?thesis using gmem.lowers_admissible [of g s] gmem.apply_demotion_lowers [OF s] by (cases out) metis
next
  case (lapse g now sgnr skew out)
  then show ?thesis using gmem.lowers_admissible [of g s] gmem.apply_lapse_lowers [OF s] by (cases out) metis
next
  case (withdraw g why now sgnr out)
  then show ?thesis using gmem.lowers_admissible [of g s] gmem.apply_withdrawal_lowers [OF s] by (cases out) metis
next
  case (tighten g by_whom sysnow ts why sgnr out)
  then show ?thesis using gmem.lowers_admissible [of g s] gmem.tighten_lowers [OF s] by (cases out) metis
next
  case (reattest p c read g caller h sign wall out)
  then have "get_grant (gmem_ops C) s p c = Inr read" by (simp add: gmem_ops_def)
  with reattest show ?thesis using gmem.lowers_admissible [of g s] gmem.reattest_lowers [OF s] by (cases out) metis
next
  case (seed template caller sgnr wall out)
  then show ?thesis using gmem.seed_admissible [OF s seed(1)] by (cases out) metis
next
  case (promote M p ratifier now sysnow human q out q')
  show ?thesis
  proof (cases "\<exists>res. out = Inr res \<and> cr_ratified res")
    case True
    then obtain res where x: "ceremony_execute M p ratifier now sysnow human (s, q) = (Inr res, (s', q'))" "cr_ratified res"
      using promote(3) by blast
    from gmem.promotion_admissible [OF _ promote(1,2) x] s promote(4) show ?thesis by (metis fst_conv)
  next
    case False
    with execute_otherwise [OF promote(3)] s show ?thesis by auto
  qed
next
  case (tamper it k)
  with tamper_view [OF s tamper(2), of k] show ?thesis by blast
qed

end

section \<open>The ledger explains the grant\<close>

text \<open>The balance of a ledger partition: each record continues from the level the last one left.\<close>

fun balance :: "AutonomyLevel option \<Rightarrow> PromotionRecord list \<Rightarrow> AutonomyLevel option option" where
  "balance l [] = Some l"
| "balance l (r # rs) = (if pr_fromLevel r = l then balance (Some (pr_toLevel r)) rs else None)"

definition stamped_before :: "PromotionRecord \<Rightarrow> PromotionRecord \<Rightarrow> bool" where
  "stamped_before r r' \<longleftrightarrow> (\<exists>u u'. parse_ts (pr_ts r) = Inr u \<and> parse_ts (pr_ts r') = Inr u' \<and> u < u')"

text \<open>A record that raises a level is a promotion of one rung, ratified by somebody other than its proposer; one that
  starts from no grant is a bootstrap or a promotion to in-loop.\<close>

definition rises_by_ceremony :: "PromotionRecord \<Rightarrow> bool" where
  "rises_by_ceremony r \<longleftrightarrow>
     (case pr_fromLevel r of
        None \<Rightarrow> pr_recordType r = Bootstrap \<or> pr_recordType r = Promotion \<and> pr_toLevel r = in_loop
      | Some l \<Rightarrow> l < pr_toLevel r \<longrightarrow>
          pr_recordType r = Promotion \<and> AUTONOMY_RANK (pr_toLevel r) = AUTONOMY_RANK l + 1)
     \<and> (pr_recordType r = Promotion \<longrightarrow> \<not> is_same_operator (pr_proposedBy r) (pr_ratifiedBy r))"

abbreviation partition_of :: "grant_slot \<Rightarrow> string" where
  "partition_of k \<equiv> fst k @ ''#'' @ snd k"

definition explained :: "ledger_view \<Rightarrow> grant_slot \<Rightarrow> bool" where
  "explained v k \<longleftrightarrow> (case v of (h, occ, R) \<Rightarrow> let rs = R (partition_of k) in
     (\<not> occ k \<longrightarrow> rs = [])
     \<and> (\<forall>g. h k = Some g \<longrightarrow> balance None rs = Some (Some (gr_level g)) \<and> rs \<noteq> [] \<and> gr_ts g = pr_ts (last rs))
     \<and> sorted_wrt stamped_before rs \<and> list_all rises_by_ceremony rs
     \<and> (\<forall>r \<in> set rs. \<exists>t. pr_ts r = iso_of t))"

lemma balance_append: "balance l (rs @ [r]) =
    (case balance l rs of None \<Rightarrow> None | Some l' \<Rightarrow> if pr_fromLevel r = l' then Some (Some (pr_toLevel r)) else None)"
  by (induction rs arbitrary: l) auto

lemma partition_inject:
  assumes "partition_of k = partition_of k'" "CHR ''#'' \<notin> set (snd k)" "CHR ''#'' \<notin> set (snd k')"
  shows "k = k'"
proof -
  have "rev (snd k) @ CHR ''#'' # rev (fst k) = rev (snd k') @ CHR ''#'' # rev (fst k')"
    using arg_cong [OF assms(1), of rev] by simp
  with assms(2,3) append_sep_inject [of "CHR ''#''" "rev (snd k)" "rev (snd k')" "rev (fst k)" "rev (fst k')"]
  show ?thesis by (simp add: prod_eq_iff)
qed

lemma admissible_rises:
  assumes "unit_step v v' g r" "admissible v g r"
  shows "rises_by_ceremony r"
proof -
  obtain h occ R where v: "v = (h, occ, R)" by (cases v)
  have lv: "pr_fromLevel r = map_option gr_level (h (key_of g))" "pr_toLevel r = gr_level g"
    using assms(1) by (simp_all add: unit_step_def v)
  show ?thesis
  proof (cases "h (key_of g)")
    case None
    with assms(2) lv show ?thesis
      by (auto simp: admissible_def earned_def rises_by_ceremony_def v one_rung_violation_created)
  next
    case (Some g0)
    with assms(2) lv show ?thesis
      using one_rung_violation_None(2) [of "gr_level g0" "gr_level g"]
      by (auto simp: admissible_def earned_def rises_by_ceremony_def v)
  qed
qed

lemma unit_step_explained:
  assumes u: "unit_step v v' g r" and a: "admissible v g r" and c: "CHR ''#'' \<notin> set (gr_actionClass g)"
    and k: "CHR ''#'' \<notin> set (snd k)" and e: "explained v k"
  shows "explained v' k"
proof -
  obtain h occ R where v: "v = (h, occ, R)" by (cases v)
  have pk: "pk_of r = partition_of (key_of g)"
    using u by (simp add: unit_step_def v promotion_record_pk_def grant_key_def)
  show ?thesis
  proof (cases "k = key_of g")
    case False
    then have "partition_of k \<noteq> partition_of (key_of g)"
      using partition_inject [of k "key_of g"] k c by (auto simp: grant_key_def)
    with False e u pk show ?thesis by (simp add: explained_def unit_step_def v Let_def)
  next
    case True
    let ?rs = "R (partition_of k)"
    have v': "v' = (h(k \<mapsto> g), occ(k := True), R(partition_of k := ?rs @ [r]))"
      and lv: "pr_fromLevel r = map_option gr_level (h k)" "pr_toLevel r = gr_level g" "pr_ts r = gr_ts g"
      and free: "h k = None \<longrightarrow> \<not> occ k"
      using u pk True by (auto simp: unit_step_def v)
    have "\<exists>t. pr_ts r = iso_of t \<and> (\<forall>r' \<in> set (R (pk_of r)). \<exists>u. parse_ts (pr_ts r') = Inr u \<and> u < t)"
      using u unfolding unit_step_def v prod.case by blast
    then have later: "\<forall>r' \<in> set ?rs. stamped_before r' r" and t: "\<exists>t. pr_ts r = iso_of t"
      unfolding pk True by (auto simp: stamped_before_def)
    have e': "\<not> occ k \<longrightarrow> ?rs = []" "\<And>g0. h k = Some g0 \<Longrightarrow> balance None ?rs = Some (Some (gr_level g0))"
      "sorted_wrt stamped_before ?rs" "list_all rises_by_ceremony ?rs" "\<forall>r \<in> set ?rs. \<exists>t. pr_ts r = iso_of t"
      using e by (simp_all add: explained_def v Let_def)
    have "balance None (?rs @ [r]) = Some (Some (gr_level g))"
      using lv free e'(1,2) by (cases "h k") (simp_all add: balance_append)
    with e'(3-5) later t lv(3) admissible_rises [OF u a] show ?thesis
      by (auto simp: explained_def v' Let_def sorted_wrt_append)
  qed
qed

lemma quarantine_explained: "explained (h, occ, R) k \<Longrightarrow> explained (h(k' := None), occ(k' := True), R) k"
  by (auto simp: explained_def Let_def)

text \<open>States reachable from empty stores.\<close>

inductive lifecycle :: "'p grant_codec \<Rightarrow> 'p InMemoryLedger \<Rightarrow> bool" for C where
  start: "lifecycle C \<lparr>lg_grants = [], lg_records = []\<rparr>"
| step: "lifecycle C s \<Longrightarrow> lifecycle_step C s s' \<Longrightarrow> lifecycle C s'"

context ledger_codec
begin

lemma lifecycle_explained:
  assumes "lifecycle C s"
  shows "gmem_sound C s \<and> (\<forall>k. CHR ''#'' \<notin> set (snd k) \<longrightarrow> explained (gmem.view s) k)"
  using assms
proof induction
  case start
  show ?case unfolding gmem.view_def explained_def prod.case by (simp add: gmem_sound_def rmem_rows_def gmem_held_def)
next
  case (step s s')
  from step_cases [OF step.hyps(2)] step.IH consider "gmem_sound C s'" "s' = s"
    | g r where "gmem_sound C s'" "unit_step (gmem.view s) (gmem.view s') g r" "admissible (gmem.view s) g r"
        "CHR ''#'' \<notin> set (gr_actionClass g)"
    | k where "gmem_sound C s'"
        "gmem.view s' = ((gmem_held C s)(k := None), (gmem_occupied s)(k := True), rmem_rows C s)" by blast
  then show ?case
  proof cases
    case 1
    with step.IH show ?thesis by simp
  next
    case 2
    with step.IH unit_step_explained [OF 2(2-4)] show ?thesis by blast
  next
    case 3
    with step.IH quarantine_explained show ?thesis by (simp add: gmem.view_def)
  qed
qed

lemmas mem_lapse_then_idle = gmem.lapse_then_idle

lemma lifecycle_balance:
  assumes "lifecycle C s" "gmem_held C s k = Some g" "CHR ''#'' \<notin> set (snd k)"
  shows "balance None (rmem_rows C s (partition_of k)) = Some (Some (gr_level g))
    \<and> gr_ts g = pr_ts (last (rmem_rows C s (partition_of k)))
    \<and> sorted_wrt stamped_before (rmem_rows C s (partition_of k))
    \<and> list_all rises_by_ceremony (rmem_rows C s (partition_of k))"
  using lifecycle_explained [OF assms(1)] assms(2,3) by (auto simp: explained_def gmem.view_def Let_def)

lemma step_raises:
  assumes st: "lifecycle_step C s s'" "gmem_sound C s"
    and up: "gmem_held C s k = Some g" "gmem_held C s' k = Some g'" "gr_level g < gr_level g'"
  shows "\<exists>r. rmem_rows C s' (partition_of k) = rmem_rows C s (partition_of k) @ [r]
    \<and> pr_recordType r = Promotion \<and> pr_fromLevel r = Some (gr_level g) \<and> pr_toLevel r = gr_level g'
    \<and> AUTONOMY_RANK (gr_level g') = AUTONOMY_RANK (gr_level g) + 1
    \<and> \<not> is_same_operator (pr_proposedBy r) (pr_ratifiedBy r)
    \<and> (\<exists>p ratifier findings ts res. r = promotion_record p ratifier (with_findings (pred_reason res) findings) ts
         \<and> evaluate_promotion_predicate (args_of p) = Inr res \<and> eligible res)"
proof -
  from step_cases [OF st] consider "s' = s"
    | x r where "unit_step (gmem.view s) (gmem.view s') x r" "admissible (gmem.view s) x r"
    | j where "gmem.view s' = ((gmem_held C s)(j := None), (gmem_occupied s)(j := True), rmem_rows C s)" by blast
  then show ?thesis
  proof cases
    case 1
    with up show ?thesis by auto
  next
    case 2
    have v': "gmem_held C s' = (gmem_held C s)(key_of x \<mapsto> x)" and lv: "pr_toLevel r = gr_level x"
      "pr_fromLevel r = map_option gr_level (gmem_held C s (key_of x))"
      and rows: "rmem_rows C s' = (rmem_rows C s)(pk_of r := rmem_rows C s (pk_of r) @ [r])"
      and pk: "pk_of r = partition_of (key_of x)"
      using 2(1) by (auto simp: unit_step_def gmem.view_def promotion_record_pk_def grant_key_def)
    from v' up have k: "key_of x = k" "x = g'" by (auto split: if_splits)
    with 2(2) up have e: "earned (gmem.view s) g' r" by (auto simp: admissible_def gmem.view_def)
    with one_rung_violation_None(2) [of "gr_level g" "gr_level g'"] up k lv rows pk show ?thesis
      by (intro exI [of _ r]) (auto simp: earned_def gmem.view_def)
  next
    case 3
    with up show ?thesis by (auto simp: gmem.view_def split: if_splits)
  qed
qed

lemma quarantine_stays:
  assumes "lifecycle_step C s s'" "gmem_sound C s" "gmem_occupied s k" "gmem_held C s k = None"
  shows "gmem_sound C s' \<and> gmem_occupied s' k \<and> gmem_held C s' k = None"
  using step_cases [OF assms(1,2)] assms(2-4)
  by (auto simp: unit_step_def gmem.view_def fun_upd_def split: if_splits)

lemma quarantine_run:
  assumes "(lifecycle_step C)\<^sup>*\<^sup>* s s'" "gmem_sound C s" "gmem_occupied s k" "gmem_held C s k = None"
  shows "gmem_sound C s' \<and> gmem_occupied s' k \<and> gmem_held C s' k = None"
  using assms by (induction rule: rtranclp_induct) (blast dest: quarantine_stays)+

end

lemma validate_iso_of [simp]: "validate_record_ts (iso_of t) = Inr ()"
  by (simp add: validate_record_ts_def iso_of_def endswith_def startswith_def isoformat_utc_def)

text \<open>A seeded grant, as the run of the sample deployment starts.\<close>

definition seeded_grant :: Grant where
  "seeded_grant = sample_grant\<lparr>gr_level := in_loop, gr_certifiedUntil := None\<rparr>"

definition empty_ledger :: "plain_bytes InMemoryLedger" where
  "empty_ledger = \<lparr>lg_grants = [], lg_records = []\<rparr>"

lemma seeded_valid: "grant_valid (parse_delta plain_ledger_codec) seeded_grant"
  by (simp add: seeded_grant_def sample_grant_def mk_grant_def plain_ledger_codec_def validate_label_latency_def
      certified_until_ok_def)

lemma seeding:
  assumes "lg_records s = []" "map_of (lg_grants s) (key_of seeded_grant) = None"
  shows "\<exists>s' r. seed_grant (gmem_ops plain_ledger_codec) seeded_grant ''op'' None 5 s
     = Inr ((seeded_grant\<lparr>gr_promotedBy := ''op'', gr_ts := iso_of 5\<rparr>, r), s')"
proof -
  let ?g = "seeded_grant\<lparr>gr_promotedBy := ''op'', gr_ts := iso_of 5\<rparr>"
  have n: "next_ledger_ts (gmem_ops plain_ledger_codec) s (gr_principal seeded_grant)
      (gr_actionClass seeded_grant) 5 (AtInstant 5) = Inr (iso_of 5)"
    using assms(1) by (simp add: next_ledger_ts_def wall_clock_def gmem_ops_def rmem_list_records_def rmem_matching_def)
  have r: "mk_record (bootstrap_record ?g ''op'' (iso_of 5)) = Inr (bootstrap_record ?g ''op'' (iso_of 5))"
    by (simp add: mk_record_Inr bootstrap_record_def certified_until_ok_def shape_rules_per_record_type_def
        forbid_predicate_def forbid_demotion_fields_def)
  show ?thesis unfolding seed_grant_def n bind_r_simps Let_def r using assms
    by (simp add: gmem_ops_def gmem_write_record_and_grant_def refuse_reattestation_drift_def refuse_lapse_drift_def
        rmem_put_record_def bootstrap_record_def Let_def)
qed

section \<open>Results\<close>

text \<open>C25: a grant is the balance of its ledger. After any sequence of seedings, promotions, demotions, lapses,
  withdrawals, tightenings and re-attestations (and of tampering by somebody without the HMAC key), the records of a
  stored grant's coordinate, replayed in the order of their appends from no grant, each continue from the level the
  one before left and end at the grant's level; the grant's ts is the last record's, the stamps strictly increase, and
  every record that raises a level is a promotion of exactly one rung whose ratifier is another operator than its
  proposer.\<close>

theorem grant_is_balance_of_ledger:
  assumes "ledger_codec C" and "lifecycle C s" and "gmem_held C s k = Some g" and "CHR ''#'' \<notin> set (snd k)"
  shows "balance None (rmem_rows C s (partition_of k)) = Some (Some (gr_level g))
    \<and> gr_ts g = pr_ts (last (rmem_rows C s (partition_of k)))
    \<and> sorted_wrt stamped_before (rmem_rows C s (partition_of k))
    \<and> list_all rises_by_ceremony (rmem_rows C s (partition_of k))"
  by (rule ledger_codec.lifecycle_balance [OF assms])

theorem grant_is_balance_of_ledger_witness:
  "\<exists>s r. lifecycle plain_ledger_codec s
    \<and> gmem_held plain_ledger_codec s (key_of seeded_grant) = Some (seeded_grant\<lparr>gr_promotedBy := ''op'', gr_ts := iso_of 5\<rparr>)
    \<and> balance None (rmem_rows plain_ledger_codec s (partition_of (key_of seeded_grant))) = Some (Some in_loop)"
proof -
  let ?C = plain_ledger_codec and ?g = "seeded_grant\<lparr>gr_promotedBy := ''op'', gr_ts := iso_of 5\<rparr>"
  obtain s r where d: "seed_grant (gmem_ops ?C) seeded_grant ''op'' None 5 empty_ledger = Inr ((?g, r), s)"
    using seeding [of empty_ledger] by (auto simp: empty_ledger_def)
  have l: "lifecycle ?C s"
  proof (rule lifecycle.step [OF lifecycle.start], rule lifecycle_step.seed [OF seeded_valid])
    show "seed_grant (gmem_ops ?C) seeded_grant ''op'' None 5 \<lparr>lg_grants = [], lg_records = []\<rparr> = Inr ((?g, r), s)"
      using d by (simp add: empty_ledger_def)
  qed (simp add: seeded_grant_def sample_grant_def)
  have "gmem_sound ?C empty_ledger" by (simp add: gmem_sound_def empty_ledger_def)
  from plain.gmem.seed_admissible [OF this seeded_valid d] have h: "gmem_held ?C s (key_of seeded_grant) = Some ?g"
    by (auto simp: unit_step_def plain.gmem.view_def)
  have "CHR ''#'' \<notin> set (snd (key_of seeded_grant))" by (simp add: grant_key_def seeded_grant_def sample_grant_def)
  from grant_is_balance_of_ledger [OF plain.ledger_codec_axioms l h this] l h show ?thesis
    by (auto simp: seeded_grant_def)
qed

text \<open>C24: no write but a ratified promotion raises a level. Wherever one step of the lifecycle leaves a coordinate at a
  higher level than it found, that step appended a promotion record from the old level to the new one, one rung up,
  between two distinct operators, built from a proposal the predicate found eligible and carrying the reason.\<close>

theorem authority_rises_only_by_ceremony:
  assumes "ledger_codec C" and "lifecycle_step C s s'" and "gmem_sound C s"
    and "gmem_held C s k = Some g" and "gmem_held C s' k = Some g'" and "gr_level g < gr_level g'"
  shows "\<exists>r. rmem_rows C s' (partition_of k) = rmem_rows C s (partition_of k) @ [r]
    \<and> pr_recordType r = Promotion \<and> pr_fromLevel r = Some (gr_level g) \<and> pr_toLevel r = gr_level g'
    \<and> AUTONOMY_RANK (gr_level g') = AUTONOMY_RANK (gr_level g) + 1
    \<and> \<not> is_same_operator (pr_proposedBy r) (pr_ratifiedBy r)
    \<and> (\<exists>p ratifier findings ts res. r = promotion_record p ratifier (with_findings (pred_reason res) findings) ts
         \<and> evaluate_promotion_predicate (args_of p) = Inr res \<and> eligible res)"
  by (rule ledger_codec.step_raises [OF assms])

definition sample_proposal :: PromotionProposal where
  "sample_proposal =
     \<lparr>pp_proposal_id = ''p1'', pp_expires_at = iso_of DAY, pp_principal = sample_principal, pp_action_class = ''mail.send'',
      pp_from_level = Some in_loop, pp_target_level = on_loop, pp_evidence_bundle = ''ev'', pp_proposer_id = ''maker'',
      pp_owner_id = ''owner'', pp_envelope_hash = ''e1'', pp_label_latency = ''P7D'',
      pp_demotion_triggers = [budget_breach], pp_last_safe_level = in_loop, pp_metrics = pa_metrics sample_args,
      pp_window_n = 50, pp_min_observations = 30, pp_threshold = 1 / 20, pp_artifact = pa_artifact sample_args,
      pp_covered = True, pp_provenance_maturity = ''signed-lineage'', pp_blast_class = ''high'',
      pp_error_budget = None, pp_window_periods = 1, pp_period = ''utc-day'', pp_certified_until = None\<rparr>"

definition sample_ceremony :: "(plain_bytes, plain_bytes InMemoryLedger) Ceremony" where
  "sample_ceremony =
     \<lparr>cm_store = gmem_ops plain_ledger_codec, cm_checker = None, cm_signer = None, cm_clock_skew = 0,
      cm_standing_check = None, cm_parse_iso = parse_delta plain_ledger_codec\<rparr>"

definition seeded_ledger :: "plain_bytes InMemoryLedger" where
  "seeded_ledger = gmem_put_grant plain_ledger_codec seeded_grant empty_ledger"

lemma seeded_sound: "gmem_sound plain_ledger_codec seeded_ledger"
  unfolding seeded_ledger_def
  by (rule plain.sound_put [OF _ seeded_valid]) (simp add: gmem_sound_def empty_ledger_def)

lemma sample_judged:
  "judge_proposal 0 sample_proposal ''checker'' 7 True
     = Inr (Inr (passed_reason (args_of sample_proposal) (1 / 40) @ human_needed))"
  by (simp add: judge_proposal_def sample_proposal_def one_rung_violation_def one_rung_up_def proposal_expired_def
      end_judged_at_def require_bound_def dt_add_def ZERO_SKEW_def MAX_SKEW_def MAX_CLOCK_SKEW_SECONDS_def SECOND_def
      DAY_def DATETIME_MIN_def DATETIME_MAX_def is_same_operator_def local_role_of_def is_local_identity_def
      LOCAL_IDENTITY_PREFIX_def startswith_def evaluate_promotion_predicate_def predicate_args_ok_def args_of_def
      sample_args_def MATURITY_RANK_def below_maturity_def REQUIRED_PROVENANCE_MATURITY_def)

lemma sample_ratified:
  assumes "consume_stored sample_proposal q = Inr q'"
  shows "\<exists>res s'. ceremony_execute sample_ceremony sample_proposal ''checker'' 7 7 True (seeded_ledger, q) = (Inr res, (s', q'))
     \<and> cr_ratified res"
proof -
  let ?C = plain_ledger_codec and ?why = "passed_reason (args_of sample_proposal) (1 / 40) @ human_needed"
  have n: "next_ledger_ts (gmem_ops ?C) seeded_ledger (pp_principal sample_proposal) (pp_action_class sample_proposal)
      7 SystemNow = Inr (iso_of 7)"
    by (simp add: next_ledger_ts_def wall_clock_def gmem_ops_def rmem_list_records_def rmem_matching_def
        seeded_ledger_def gmem_put_grant_def empty_ledger_def)
  let ?r = "promotion_record sample_proposal ''checker'' ?why (iso_of 7)"
  have r: "mk_record ?r = Inr ?r"
    by (simp add: mk_record_Inr promotion_record_def sample_proposal_def certified_until_ok_def
        shape_rules_per_record_type_def forbid_demotion_fields_def human_needed_def)
  let ?g = "raised_grant sample_proposal ''checker'' (iso_of 7)"
  have g: "mk_grant (parse_delta ?C) ?g = Inr ?g"
    by (simp add: raised_grant_def sample_proposal_def mk_grant_def plain_ledger_codec_def
        validate_label_latency_def certified_until_ok_def)
  obtain e where e: "gmem_get_grant ?C seeded_ledger (pp_principal sample_proposal) (pp_action_class sample_proposal) = Inr e"
    "rr_grant e = Some seeded_grant" "\<not> rr_quarantined e" "rr_raw_data e = Some (dump_grant ?C seeded_grant)"
    "rr_stored_hash e = Some (hmac_of ?C (dump_grant ?C seeded_grant))"
    using plain.read_built [OF seeded_valid]
    by (simp add: gmem_get_grant_def seeded_ledger_def gmem_put_grant_def empty_ledger_def sample_proposal_def
        seeded_grant_def sample_grant_def)
  have re: "guarded_reread sample_ceremony sample_proposal 7 seeded_ledger = Inr (Inr (Some e))"
    using e
    by (simp add: guarded_reread_def sample_proposal_def sample_ceremony_def gmem_ops_def lapse_pending_def
        term_passed_def seeded_grant_def sample_grant_def ceremony_standing_refusal_def)
  have "\<exists>s'. gmem_write_record_and_grant ?C ?r ?g None (Some e) seeded_ledger = Inr s'"
    using e
    by (simp add: gmem_write_record_and_grant_def refuse_reattestation_drift_def refuse_lapse_drift_def
        refuse_term_extension_def check_update_conditions_def rmem_put_record_def seeded_ledger_def gmem_put_grant_def
        empty_ledger_def promotion_record_def build_item_def Let_def raised_grant_def sample_proposal_def
        seeded_grant_def sample_grant_def)
  then obtain s' where w: "gmem_write_record_and_grant ?C ?r ?g None (Some e) seeded_ledger = Inr s'" by blast
  show ?thesis
    using sample_judged n r g re w assms
    by (simp add: ceremony_execute_def Let_def sample_ceremony_def review_def with_findings_def
        gmem_ops_def sign_with_def)
qed

theorem authority_rises_only_by_ceremony_witness:
  "\<exists>s' r. lifecycle_step plain_ledger_codec seeded_ledger s'
    \<and> rmem_rows plain_ledger_codec s' (partition_of (key_of seeded_grant))
        = rmem_rows plain_ledger_codec seeded_ledger (partition_of (key_of seeded_grant)) @ [r]
    \<and> pr_recordType r = Promotion \<and> pr_fromLevel r = Some in_loop \<and> pr_toLevel r = on_loop"
proof -
  let ?C = plain_ledger_codec
  obtain res s' and q' :: "plain_bytes InMemoryProposalStore option"
    where x: "ceremony_execute sample_ceremony sample_proposal ''checker'' 7 7 True (seeded_ledger, None) = (Inr res, (s', q'))"
      "cr_ratified res"
    using sample_ratified [of None None] by (auto simp: consume_stored_def)
  have M: "cm_store sample_ceremony = gmem_ops ?C" "cm_parse_iso sample_ceremony = parse_delta ?C"
    by (simp_all add: sample_ceremony_def)
  have st: "lifecycle_step ?C seeded_ledger s'"
    by (rule lifecycle_step.promote [OF M x(1)]) (simp add: sample_proposal_def)
  obtain ts where h': "gmem_held ?C s' (key_of seeded_grant) = Some (raised_grant sample_proposal ''checker'' ts)"
    using plain.gmem.promotion_admissible [OF _ M x] seeded_sound
    by (auto simp: unit_step_def plain.gmem.view_def raised_grant_def sample_proposal_def seeded_grant_def sample_grant_def)
  have h: "gmem_held ?C seeded_ledger (key_of seeded_grant) = Some seeded_grant"
    using plain.put_held [OF seeded_valid, of empty_ledger] by (simp add: seeded_ledger_def)
  have "gr_level seeded_grant < gr_level (raised_grant sample_proposal ''checker'' ts)"
    by (simp add: seeded_grant_def raised_grant_def sample_proposal_def less_AutonomyLevel_def AUTONOMY_RANK_def)
  from authority_rises_only_by_ceremony [OF plain.ledger_codec_axioms st seeded_sound h h' this] st show ?thesis
    by (auto simp: seeded_grant_def raised_grant_def sample_proposal_def)
qed

text \<open>C26: a quarantine is never laundered. Once the stored bytes under a key fail verification, no later step of the
  lifecycle makes that key readable again: whatever writes run, the key stays occupied by bytes that do not verify.\<close>

theorem quarantine_is_never_laundered:
  assumes "ledger_codec C" and "(lifecycle_step C)\<^sup>*\<^sup>* s s'" and "gmem_sound C s"
    and "gmem_occupied s k" and "gmem_held C s k = None"
  shows "gmem_occupied s' k \<and> gmem_held C s' k = None"
  using ledger_codec.quarantine_run [OF assms] by blast

theorem quarantine_is_never_laundered_witness:
  "\<exists>s' r. seed_grant (gmem_ops plain_ledger_codec) seeded_grant ''op'' None 5
        \<lparr>lg_grants = [((''x'', ''y''), \<lparr>gi_data = None, gi_hash = None\<rparr>)], lg_records = []\<rparr>
      = Inr ((seeded_grant\<lparr>gr_promotedBy := ''op'', gr_ts := iso_of 5\<rparr>, r), s')
    \<and> gmem_occupied s' (''x'', ''y'') \<and> gmem_held plain_ledger_codec s' (''x'', ''y'') = None"
proof -
  let ?C = plain_ledger_codec
  let ?s = "\<lparr>lg_grants = [((''x'', ''y''), \<lparr>gi_data = None, gi_hash = None\<rparr>)], lg_records = []\<rparr> :: plain_bytes InMemoryLedger"
  have "map_of (lg_grants ?s) (key_of seeded_grant) = None"
    by (simp add: grant_key_def seeded_grant_def sample_grant_def)
  then obtain s' r where d: "seed_grant (gmem_ops ?C) seeded_grant ''op'' None 5 ?s
      = Inr ((seeded_grant\<lparr>gr_promotedBy := ''op'', gr_ts := iso_of 5\<rparr>, r), s')"
    using seeding [of ?s] by auto
  have "lifecycle_step ?C ?s s'"
    by (rule lifecycle_step.seed [OF seeded_valid d]) (simp add: seeded_grant_def sample_grant_def)
  moreover have "gmem_sound ?C ?s" by (simp add: gmem_sound_def authentic_def)
  ultimately have "gmem_occupied s' (''x'', ''y'') \<and> gmem_held ?C s' (''x'', ''y'') = None"
    by (intro quarantine_is_never_laundered [OF plain.ledger_codec_axioms])
      (auto simp: gmem_occupied_def gmem_held_def read_result_from_item_def)
  with d show ?thesis by blast
qed

text \<open>The lapse writer records what enforcement already does. When a pass lapses a grant, the level it stores is the
  level enforcement was acting on at that instant, the term is carried forward, and a second pass at any later instant
  under any wider bound changes nothing: it answers that there is nothing to lapse.\<close>

lemma lapse_records_what_enforcement_does:
  assumes C: "ledger_codec C" and s: "gmem_sound C s"
    and run: "run_lapse (gmem_ops C) p c now sgnr skew s = Inr (outcome, s')" and lapsed: "lo_status outcome = Lapse_lapsed"
  shows "\<exists>g g'. gmem_held C s (grant_key p c) = Some g \<and> gmem_held C s' (grant_key p c) = Some g'
    \<and> effective_level g now skew True = Inr (gr_level g') \<and> gr_level g' < gr_level g
    \<and> gr_certifiedUntil g' = gr_certifiedUntil g
    \<and> (\<forall>now' skew' out. now \<le> now' \<longrightarrow> skew \<le> skew' \<longrightarrow>
         run_lapse (gmem_ops C) p c now' sgnr skew' s' = Inr out \<longrightarrow> out = (lapse_says Lapse_nothing, s'))"
  by (rule ledger_codec.mem_lapse_then_idle [OF C s run lapsed])

definition term_ledger :: "plain_bytes InMemoryLedger" where
  "term_ledger = gmem_put_grant plain_ledger_codec sample_grant empty_ledger"

lemma sample_valid: "grant_valid (parse_delta plain_ledger_codec) sample_grant"
  by (simp add: sample_grant_def mk_grant_def plain_ledger_codec_def validate_label_latency_def
      certified_until_ok_def parse_certified_until_def)

lemma sample_term: "term_passed sample_grant (2 * DAY) 0 = Inr True" "lapse_pending sample_grant (2 * DAY) 0 = Inr True"
  by (simp_all add: lapse_pending_def term_passed_def sample_grant_def parse_certified_until_def end_judged_at_def
      require_bound_def dt_add_def ZERO_SKEW_def MAX_SKEW_def MAX_CLOCK_SKEW_SECONDS_def SECOND_def DAY_def
      DATETIME_MIN_def DATETIME_MAX_def AUTONOMY_RANK_def less_AutonomyLevel_def)

lemma sample_lapsed:
  "\<exists>outcome s'. run_lapse (gmem_ops plain_ledger_codec) sample_principal ''mail.send'' (2 * DAY) None 0 term_ledger
     = Inr (outcome, s') \<and> lo_status outcome = Lapse_lapsed"
proof -
  let ?C = plain_ledger_codec
  have n: "next_ledger_ts (gmem_ops ?C) term_ledger sample_principal ''mail.send'' (2 * DAY) (AtInstant (2 * DAY))
      = Inr (iso_of (2 * DAY))"
    by (simp add: next_ledger_ts_def wall_clock_def gmem_ops_def rmem_list_records_def rmem_matching_def
        term_ledger_def gmem_put_grant_def empty_ledger_def)
  obtain e where e: "gmem_get_grant ?C term_ledger sample_principal ''mail.send'' = Inr e"
    "rr_grant e = Some sample_grant" "\<not> rr_quarantined e" "rr_raw_data e = Some (dump_grant ?C sample_grant)"
    "rr_stored_hash e = Some (hmac_of ?C (dump_grant ?C sample_grant))"
    using plain.read_built [OF sample_valid]
    by (simp add: gmem_get_grant_def term_ledger_def gmem_put_grant_def empty_ledger_def sample_grant_def)
  obtain g' r where b: "build_lapse sample_grant (2 * DAY) (Some (iso_of (2 * DAY))) 0 = Inr (g', r)"
    and g': "g' = sample_grant\<lparr>gr_level := in_loop, gr_demotionReason := Some pending_evidence, gr_ts := iso_of (2 * DAY)\<rparr>"
    and r: "pr_recordType r = Lapse" "pr_ts r = iso_of (2 * DAY)" "pr_certifiedUntil r = gr_certifiedUntil sample_grant"
    unfolding build_lapse_def sample_term
    by (simp add: mk_record_def certified_until_ok_def parse_certified_until_def shape_rules_per_record_type_def
        TERM_BEARING_RECORD_TYPES_def require_no_raise_def forbid_predicate_def sample_grant_def not_less level_top
        Let_def)
  have "\<exists>s'. gmem_write_record_and_grant ?C r g' None (Some e) term_ledger = Inr s'"
    using e r plain.load_dump_grant [OF sample_valid] unfolding g'
    by (simp add: gmem_write_record_and_grant_def refuse_reattestation_drift_def refuse_lapse_drift_def
        refuse_term_extension_def check_update_conditions_def rmem_put_record_def term_ledger_def gmem_put_grant_def
        empty_ledger_def build_item_def Let_def extends_term_def parse_certified_until_def sample_grant_def)
  then obtain s' where w: "gmem_write_record_and_grant ?C r g' None (Some e) term_ledger = Inr s'" by blast
  have a: "apply_lapse (gmem_ops ?C) sample_grant (2 * DAY) None 0 term_ledger = Inr ((g', r), s')"
    using n e b w by (simp add: apply_lapse_def gmem_ops_def sign_with_def sample_grant_def as_conflict_def)
  have "gr_certifiedUntil sample_grant \<noteq> None" by (simp add: sample_grant_def)
  with a e sample_term show ?thesis by (auto simp: run_lapse_def gmem_ops_def)
qed

lemma lapse_records_what_enforcement_does_witness:
  "\<exists>s' g g'. gmem_held plain_ledger_codec term_ledger (grant_key sample_principal ''mail.send'') = Some g
    \<and> gmem_held plain_ledger_codec s' (grant_key sample_principal ''mail.send'') = Some g'
    \<and> effective_level g (2 * DAY) 0 True = Inr (gr_level g') \<and> gr_level g' < gr_level g"
proof -
  have "gmem_sound plain_ledger_codec term_ledger"
    unfolding term_ledger_def by (rule plain.sound_put [OF _ sample_valid]) (simp add: gmem_sound_def empty_ledger_def)
  with sample_lapsed lapse_records_what_enforcement_does [OF plain.ledger_codec_axioms] show ?thesis by blast
qed

text \<open>C28: a stored proposal is spent by the first attempt that reaches the write. Once a ceremony has ratified it, or has
  changed the proposal store at all (the flip comes before a write that may still lose its race), no later ceremony over
  that store ratifies a proposal with the same coordinate and identifier, whatever its contents, its ratifier and the
  ledger it runs against, and such an attempt writes nothing.\<close>

theorem proposal_is_single_shot:
  assumes first: "ceremony_execute M p ratifier now sysnow human (s, Some q) = (out, w)"
    and spent: "(\<exists>res. out = Inr res \<and> cr_ratified res) \<or> snd w \<noteq> Some q"
    and same: "pp_principal p' = pp_principal p" "pp_action_class p' = pp_action_class p"
      "pp_proposal_id p' = pp_proposal_id p"
    and second: "ceremony_execute M' p' ratifier' now' sysnow' human' (s2, snd w) = (out2, w2)"
  shows "w2 = (s2, snd w) \<and> (\<forall>res. out2 = Inr res \<longrightarrow> \<not> cr_ratified res)"
proof -
  let ?k = "(proposal_pk (pp_principal p) (pp_action_class p), pp_proposal_id p)"
  obtain q' where q': "consume_stored p (Some q) = Inr (Some q')" and w: "snd w = Some q'"
    using first spent
    by (auto simp: ceremony_execute_def Let_def rejected_def consume_stored_def bind_r_Inr_iff split: sum.splits)
  then obtain it where "map_of q' ?k = Some it" "pi_status it = ''ratified''"
    by (auto simp: consume_stored_def pmem_consume_proposal_def check_new_status_def bind_r_Inr_iff update_conv'
        split: option.splits if_splits)
  then have "\<exists>e. consume_stored p' (snd w) = Inl e"
    using same by (auto simp: consume_stored_def w pmem_consume_proposal_def check_new_status_def)
  then obtain e where "consume_stored p' (snd w) = Inl e" by blast
  with second show ?thesis by (auto simp: ceremony_execute_def Let_def rejected_def split: sum.splits)
qed

theorem proposal_is_single_shot_witness:
  "\<exists>(q :: unit InMemoryProposalStore) res s' q'.
     ceremony_execute sample_ceremony sample_proposal ''checker'' 7 7 True (seeded_ledger, Some q) = (Inr res, (s', Some q'))
     \<and> cr_ratified res
     \<and> snd (ceremony_execute sample_ceremony sample_proposal ''other'' 8 8 True (seeded_ledger, Some q'))
         = (seeded_ledger, Some q')"
proof -
  let ?it = "\<lparr>pi_data = (), pi_hash = None, pi_status = ''pending'', pi_expires_at = []\<rparr>"
  let ?q = "[((proposal_pk sample_principal ''mail.send'', ''p1''), ?it)]"
  obtain q' where c: "consume_stored sample_proposal (Some ?q) = Inr (Some q')"
    by (simp add: consume_stored_def pmem_consume_proposal_def check_new_status_def sample_proposal_def)
  obtain res s' where x: "ceremony_execute sample_ceremony sample_proposal ''checker'' 7 7 True (seeded_ledger, Some ?q)
      = (Inr res, (s', Some q'))" "cr_ratified res"
    using sample_ratified [OF c] by blast
  obtain out2 w2
    where y: "ceremony_execute sample_ceremony sample_proposal ''other'' 8 8 True (seeded_ledger, Some q') = (out2, w2)"
    by (cases "ceremony_execute sample_ceremony sample_proposal ''other'' 8 8 True (seeded_ledger, Some q')") blast
  have "w2 = (seeded_ledger, Some q')"
    using proposal_is_single_shot [OF x(1), of sample_proposal sample_ceremony "''other''" 8 8 True seeded_ledger out2 w2]
      x(2) y by simp
  with x y show ?thesis by (intro exI [of _ ?q] exI [of _ res] exI [of _ s'] exI [of _ q']) simp
qed

end
