(* ===== verification/Ledger_Reads.thy ===== *)
theory Ledger_Reads
  imports Grant_Ratchet
begin

text \<open>
  Reading the ledger back: the order of its sort keys, and the paginated reads of the DynamoDB stores
  (\<open>DynamoDBPromotionRecordStore.list_records\<close> and \<open>list_stored_records\<close> of \<open>grants/store.py\<close>,
  \<open>DynamoDBProposalStore.list_pending\<close> of \<open>grants/proposals.py\<close>). Sort keys are strings that begin with a time stamp, and a
  record is found by comparing them as strings; the results show that this is the order the records were written in,
  and that the page loop ends with every item, in order.

  The table's \<open>query\<close> call is an argument. What the loop relies on is \<open>query_pages\<close>: a page holds the items that follow
  the start key, at least one of them is examined while any is left, and a key to continue from is returned unless the
  partition is exhausted.
\<close>

section \<open>Stamps compare as strings the way their instants compare\<close>

lemma lex_prefix:
  "length a = length b \<Longrightarrow> a @ x < b @ (y :: 'a :: linorder list) \<Longrightarrow> a < b \<or> a = b \<and> x < y"
  by (induction a b rule: list_induct2) auto

lemma hms_less:
  assumes "t mod DAY < u mod DAY"
  shows "hms_str t < hms_str u \<or> hms_str t = hms_str u \<and> t mod SECOND < u mod SECOND"
proof -
  have len: "length (hms_str t) = length (hms_str u)" by (simp add: hms_str_def)
  from lex_prefix [OF len time_less [OF assms]] have
    "hms_str t < hms_str u \<or> hms_str t = hms_str u \<and> pad_digits 6 (t mod SECOND) @ ''Z'' < pad_digits 6 (u mod SECOND) @ ''Z''"
    by auto
  moreover have "t mod SECOND < u mod SECOND"
    if less: "pad_digits 6 (t mod SECOND) @ ''Z'' < pad_digits 6 (u mod SECOND) @ ''Z''"
  proof (rule ccontr)
    assume "\<not> t mod SECOND < u mod SECOND"
    then consider "u mod SECOND < t mod SECOND" | "u mod SECOND = t mod SECOND" by linarith
    then show False
    proof cases
      case 1
      then have "pad_digits 6 (u mod SECOND) < pad_digits 6 (t mod SECOND)"
        by (intro pad_digits_less time_field_bounds)
      then have "pad_digits 6 (u mod SECOND) @ ''Z'' < pad_digits 6 (t mod SECOND) @ ''Z''"
        by (intro append_less_right) simp_all
      with less show False by simp
    qed (use less in simp)
  qed
  ultimately show ?thesis by blast
qed

lemma isoformat_less:
  assumes "representable t" "representable u" and "t < u"
  shows "isoformat_utc t @ x < isoformat_utc u @ y"
proof -
  consider "t div DAY < u div DAY" | "t div DAY = u div DAY" "t mod DAY < u mod DAY"
    using split_less [OF assms(3) DAY_pos] by blast
  then show ?thesis
  proof cases
    case 1
    then show ?thesis unfolding isoformat_utc_def append_assoc by (rule ymd_str_less [OF assms(1,2)])
  next
    case 2
    then have day: "ymd_str t = ymd_str u" by (simp add: ymd_str_def date_of_def)
    from hms_less [OF 2(2)] show ?thesis
    proof
      assume "hms_str t < hms_str u"
      moreover have "length (hms_str t) = length (hms_str u)" by (simp add: hms_str_def)
      ultimately show ?thesis
        unfolding isoformat_utc_def append_assoc day append_less_left by (intro append_less_right)
    next
      assume h: "hms_str t = hms_str u \<and> t mod SECOND < u mod SECOND"
      then have u: "u mod SECOND \<noteq> 0" using time_field_bounds(7) [of t] by linarith
      show ?thesis
      proof (cases "t mod SECOND = 0")
        case True
        with h u day show ?thesis by (simp add: isoformat_utc_def append_less_left)
      next
        case False
        have "pad_digits 6 (t mod SECOND) < pad_digits 6 (u mod SECOND)"
          using h by (intro pad_digits_less time_field_bounds) blast
        with False u h day show ?thesis
          by (simp add: isoformat_utc_def append_less_left append_less_right)
      qed
    qed
  qed
qed

definition representable_stamp :: "PromotionRecord \<Rightarrow> bool" where
  "representable_stamp r \<longleftrightarrow> (\<exists>t. pr_ts r = iso_of t \<and> representable t)"

lemma stamped_before_sk:
  assumes "stamped_before r r'" "representable_stamp r" "representable_stamp r'"
  shows "promotion_record_sk r < promotion_record_sk r'"
  using assms isoformat_less by (auto simp: stamped_before_def representable_stamp_def promotion_record_sk_def)

context ledger_codec
begin

lemma rows_by_key:
  assumes s: "gmem_sound C s"
  shows "map (\<lambda>((_, sk), v). (sk, v)) (filter (\<lambda>((p, _), _). p = pk) (lg_records s))
       = map (\<lambda>((_, sk), v). (promotion_record_sk (projr (load_record C (fst v))), v)) (filter (\<lambda>((p, _), _). p = pk) (lg_records s))"
  using record_reads [OF s] by (auto simp: split_beta) (metis prod.collapse snd_conv sum.sel(2))

lemma list_in_append_order:
  assumes l: "lifecycle C s" and c: "CHR ''#'' \<notin> set c"
    and rep: "\<forall>r \<in> set (rmem_rows C s (promotion_record_pk p c)). representable_stamp r"
  shows "rmem_list_records C s p c None = Inr (rmem_rows C s (promotion_record_pk p c))"
proof -
  let ?pk = "promotion_record_pk p c"
  let ?xs = "filter (\<lambda>((q, _), _). q = ?pk) (lg_records s)"
  let ?ys = "map (\<lambda>((_, sk), v). (sk, v)) ?xs"
  have s: "gmem_sound C s" and e: "explained (gmem.view s) (grant_key p c)"
    using lifecycle_explained [OF l] c by (auto simp: grant_key_def)
  have pk: "partition_of (grant_key p c) = ?pk" by (simp add: grant_key_def promotion_record_pk_def)
  have "sorted_wrt stamped_before (rmem_rows C s ?pk)" using e pk by (simp add: explained_def gmem.view_def Let_def)
  then have "sorted_wrt (\<lambda>r r'. promotion_record_sk r < promotion_record_sk r') (rmem_rows C s ?pk)"
    by (rule sorted_wrt_mono_rel [rotated]) (use rep stamped_before_sk in blast)
  then have "sorted (map promotion_record_sk (rmem_rows C s ?pk))"
    by (simp add: sorted_map) (erule sorted_wrt_mono_rel [rotated], simp)
  moreover have "map fst ?ys = map promotion_record_sk (rmem_rows C s ?pk)"
    using arg_cong [OF rows_by_key [OF s, of ?pk], of "map fst"] by (simp add: rmem_rows_def split_beta comp_def)
  ultimately have sorted: "rmem_matching s ?pk None = ?ys"
    by (simp add: rmem_matching_def sorted_sort_id sort_key_id_if_sorted split_beta)
  have "collect_r (map (\<lambda>(_, dat, _). load_record C dat) ?ys) = Inr (map (\<lambda>(_, dat, _). projr (load_record C dat)) ?ys)"
  proof (rule collect_r_map_Inr)
    fix x assume "x \<in> set ?ys"
    then obtain k where "(k, snd x) \<in> set (lg_records s)" by auto
    with record_reads [OF s, of k "fst (snd x)" "snd (snd x)"]
    show "(\<lambda>(_, dat, _). load_record C dat) x = Inr ((\<lambda>(_, dat, _). projr (load_record C dat)) x)"
      by (auto simp: split_beta)
  qed
  then show ?thesis by (simp add: rmem_list_records_def sorted rmem_rows_def split_beta comp_def)
qed

end

section \<open>Reading in the order of writing\<close>

text \<open>The ledger reads back in the order it was written. For every reachable state whose stamps are representable
  instants, listing a coordinate's records by their sort keys, which are compared as strings, returns exactly its
  records in the order of their appends: whole-second stamps (written without a fraction) and stamps with a fraction
  included.\<close>

lemma ledger_reads_in_write_order:
  assumes "ledger_codec C" and "lifecycle C s" and "CHR ''#'' \<notin> set c"
    and "\<forall>r \<in> set (rmem_rows C s (promotion_record_pk p c)). representable_stamp r"
  shows "rmem_list_records C s p c None = Inr (rmem_rows C s (promotion_record_pk p c))"
  by (rule ledger_codec.list_in_append_order [OF assms])

lemma ledger_reads_in_write_order_witness:
  "\<exists>s r. lifecycle plain_ledger_codec s
    \<and> rmem_list_records plain_ledger_codec s sample_principal ''mail.send'' None = Inr [r] \<and> pr_ts r = iso_of 5"
proof -
  let ?C = plain_ledger_codec and ?g = "seeded_grant\<lparr>gr_promotedBy := ''op'', gr_ts := iso_of 5\<rparr>"
  obtain s r where d: "seed_grant (gmem_ops ?C) seeded_grant ''op'' None 5 empty_ledger = Inr ((?g, r), s)"
    using seeding [of empty_ledger] by (auto simp: empty_ledger_def)
  have l: "lifecycle ?C s"
  proof (rule lifecycle.step [OF lifecycle.start], rule lifecycle_step.seed [OF seeded_valid])
    show "seed_grant (gmem_ops ?C) seeded_grant ''op'' None 5 \<lparr>lg_grants = [], lg_records = []\<rparr> = Inr ((?g, r), s)"
      using d by (simp add: empty_ledger_def)
  qed (simp add: seeded_grant_def sample_grant_def)
  have "gmem_sound ?C empty_ledger" by (simp add: gmem_sound_def empty_ledger_def)
  from plain.gmem.seed_admissible [OF this seeded_valid d]
  have rows: "rmem_rows ?C s (promotion_record_pk sample_principal ''mail.send'') = [r]" and ts: "pr_ts r = iso_of 5"
    by (auto simp: unit_step_def plain.gmem.view_def seeded_grant_def sample_grant_def rmem_rows_def empty_ledger_def)
  have "rmem_list_records ?C s sample_principal ''mail.send'' None = Inr (rmem_rows ?C s (promotion_record_pk sample_principal ''mail.send''))"
    by (rule ledger_reads_in_write_order [OF plain.ledger_codec_axioms l])
      (simp_all add: rows representable_stamp_def ts DATETIME_MIN_def DATETIME_MAX_def exI [of _ 5])
  with l rows ts show ?thesis by auto
qed

section \<open>Paginated reads\<close>

text \<open>The page loop of the DynamoDB stores: items are parsed as they come, and the loop runs until a response carries no
  key to continue from.\<close>

partial_function (option) page_loop ::
  "('k option \<Rightarrow> 'i list \<times> 'k option) \<Rightarrow> ('i \<Rightarrow> exn + 'a) \<Rightarrow> 'k option \<Rightarrow> 'a list \<Rightarrow> (exn + 'a list) option" where
  "page_loop query parse start acc =
     (case query start of (items, last_key) \<Rightarrow>
        case collect_r (map parse items) of
          Inl e \<Rightarrow> Some (Inl e)
        | Inr xs \<Rightarrow>
            (case last_key of None \<Rightarrow> Some (Inr (acc @ xs))
             | Some k \<Rightarrow> page_loop query parse (Some k) (acc @ xs)))"

definition dynamo_list_records ::
  "'p grant_codec \<Rightarrow> (string option \<Rightarrow> 'p list \<times> string option) \<Rightarrow> (exn + PromotionRecord list) option" where
  "dynamo_list_records C query = page_loop query (load_record C) None []"

text \<open>A stored signature decodes to a JSON value where it parses.\<close>

definition dynamo_list_stored_records ::
  "'p grant_codec \<Rightarrow> (string option \<Rightarrow> ('p \<times> json option) list \<times> string option) \<Rightarrow> (exn + 'p StoredRecord list) option" where
  "dynamo_list_stored_records C query =
     page_loop query (\<lambda>(dat, sig).
       bind_r (load_record C dat) (\<lambda>r. Inr \<lparr>sr_record = r, sr_data = dat, sr_signature = sig\<rparr>)) None []"

definition dynamo_list_pending ::
  "'d proposal_codec \<Rightarrow> (string option \<Rightarrow> 'd proposal_item list \<times> string option) \<Rightarrow> (exn + PromotionProposal list) option" where
  "dynamo_list_pending D query =
     page_loop query (\<lambda>it. bind_r (verify_proposal_item D it) (\<lambda>_. proposal_from_json D (pi_data it))) None []"

text \<open>What the service documents of a query over a partition \<open>xs\<close> in sort-key order under a filter: a response covers
  the next \<open>n\<close> items, at least one while any is left, returns those that pass the filter, and names the last item it
  covered unless it says the partition is exhausted.\<close>

definition after_key :: "'k :: linorder option \<Rightarrow> ('k \<times> 'i) list \<Rightarrow> ('k \<times> 'i) list" where
  "after_key start xs = (case start of None \<Rightarrow> xs | Some k \<Rightarrow> dropWhile (\<lambda>x. fst x \<le> k) xs)"

definition query_pages :: "('i \<Rightarrow> bool) \<Rightarrow> ('k :: linorder option \<Rightarrow> 'i list \<times> 'k option) \<Rightarrow> ('k \<times> 'i) list \<Rightarrow> bool" where
  "query_pages keep query xs \<longleftrightarrow>
     (\<forall>start. let rest = after_key start xs in
        if rest = [] then query start = ([], None)
        else \<exists>n. 0 < n \<and> n \<le> length rest \<and> fst (query start) = filter keep (map snd (take n rest))
          \<and> (snd (query start) = Some (fst (rest ! (n - 1))) \<or> n = length rest \<and> snd (query start) = None))"

lemma collect_r_append:
  "collect_r (xs @ ys) = bind_r (collect_r xs) (\<lambda>as. bind_r (collect_r ys) (\<lambda>bs. Inr (as @ bs)))"
  by (induction xs) (simp_all add: bind_r_assoc bind_r_def split: sum.splits)

lemma after_key_nth:
  assumes "sorted_wrt (\<lambda>x y. fst x < fst y) xs" "rest = after_key start xs" "0 < n" "n \<le> length rest"
  shows "after_key (Some (fst (rest ! (n - 1)))) xs = drop n rest"
proof -
  obtain m where m: "rest = drop m xs" using assms(2) by (cases start) (auto simp: after_key_def dropWhile_eq_drop intro: that [of 0])
  let ?j = "m + (n - 1)"
  have j: "?j < length xs" using assms(3,4) m by auto
  have key: "rest ! (n - 1) = xs ! ?j" using m assms(3,4) by simp
  have split: "xs = take (Suc ?j) xs @ drop (Suc ?j) xs" by simp
  have le: "fst x \<le> fst (xs ! ?j)" if "x \<in> set (take (Suc ?j) xs)" for x
  proof -
    from that obtain i where i: "i \<le> ?j" "x = xs ! i" using j by (auto simp: in_set_conv_nth less_Suc_eq_le)
    with assms(1) j show ?thesis by (cases "i = ?j") (auto simp: sorted_wrt_iff_nth_less intro: less_imp_le)
  qed
  have gt: "fst (xs ! ?j) < fst x" if "x \<in> set (drop (Suc ?j) xs)" for x
  proof -
    from that obtain i where i: "i < length (drop (Suc ?j) xs)" "x = drop (Suc ?j) xs ! i" by (auto simp: in_set_conv_nth)
    then have "?j < Suc ?j + i" "Suc ?j + i < length xs" "x = xs ! (Suc ?j + i)" using j by auto
    with assms(1) show ?thesis by (auto simp: sorted_wrt_iff_nth_less)
  qed
  have "dropWhile (\<lambda>x. fst x \<le> fst (xs ! ?j)) (drop (Suc ?j) xs) = drop (Suc ?j) xs"
    unfolding dropWhile_eq_self_iff using gt hd_in_set [of "drop (Suc ?j) xs"] by fastforce
  then have "dropWhile (\<lambda>x. fst x \<le> fst (xs ! ?j)) xs = drop (Suc ?j) xs"
    using le by (subst split, subst dropWhile_append2) auto
  moreover have "drop n rest = drop (Suc ?j) xs" using m assms(3) by (simp add: add.commute)
  ultimately show ?thesis unfolding after_key_def key option.case by simp
qed

lemma page_loop_from:
  assumes q: "query_pages keep query xs" and sorted: "sorted_wrt (\<lambda>x y. fst x < fst y) xs"
  shows "page_loop query parse start acc =
    Some (bind_r (collect_r (map parse (filter keep (map snd (after_key start xs))))) (\<lambda>ys. Inr (acc @ ys)))"
proof (induction "length (after_key start xs)" arbitrary: start acc rule: less_induct)
  case less
  let ?rest = "after_key start xs"
  show ?case
  proof (cases "?rest = []")
    case True
    with q have "query start = ([], None)" by (auto simp: query_pages_def Let_def)
    with True show ?thesis by (subst page_loop.simps) simp
  next
    case False
    with q obtain n where n: "0 < n" "n \<le> length ?rest" "fst (query start) = filter keep (map snd (take n ?rest))"
      and k: "snd (query start) = Some (fst (?rest ! (n - 1))) \<or> n = length ?rest \<and> snd (query start) = None"
      unfolding query_pages_def Let_def by metis
    let ?page = "collect_r (map parse (filter keep (map snd (take n ?rest))))"
    have all: "map parse (filter keep (map snd ?rest))
        = map parse (filter keep (map snd (take n ?rest))) @ map parse (filter keep (map snd (drop n ?rest)))"
      by (metis append_take_drop_id filter_append map_append)
    from k show ?thesis
    proof
      assume "snd (query start) = Some (fst (?rest ! (n - 1)))"
      then obtain key where key: "key = fst (?rest ! (n - 1))" and last: "snd (query start) = Some key" by blast
      let ?k = "Some key"
      have rest': "after_key ?k xs = drop n ?rest" unfolding key by (rule after_key_nth [OF sorted refl n(1,2)])
      have IH: "page_loop query parse ?k acc' =
          Some (bind_r (collect_r (map parse (filter keep (map snd (drop n ?rest))))) (\<lambda>ys. Inr (acc' @ ys)))" for acc'
        using less [of ?k acc'] n(1,2) unfolding rest' by simp
      show ?thesis
        by (subst page_loop.simps)
          (simp add: split_beta n(3) last IH all collect_r_append bind_r_assoc split: sum.splits)
    next
      assume last: "n = length ?rest \<and> snd (query start) = None"
      then show ?thesis
        by (subst page_loop.simps) (simp add: split_beta n(3) split: sum.splits)
    qed
  qed
qed

text \<open>C29: the paginated read ends, and with everything. Over any partition in sort-key order that is served in pages of
  any sizes, an empty last page and a spurious continuation key included, the loop of the DynamoDB ledger returns
  after finitely many queries, with the records of every item in order, or with the error of the first item that does
  not parse.\<close>

theorem paginated_read_ends_complete:
  assumes "query_pages (\<lambda>_. True) query xs" and "sorted_wrt (\<lambda>x y. fst x < fst y) xs"
  shows "dynamo_list_records C query = Some (collect_r (map (load_record C) (map snd xs)))"
proof -
  have "bind_r m Inr = m" for m :: "exn + PromotionRecord list" by (cases m) simp_all
  with page_loop_from [OF assms, of "load_record C" None "[]"] show ?thesis
    by (simp add: dynamo_list_records_def after_key_def comp_def)
qed

definition sample_row :: PromotionRecord where
  "sample_row = bootstrap_record seeded_grant ''op'' (iso_of 5)"

text \<open>One record, then a continuation key that leads to an empty page.\<close>

definition sample_query :: "string option \<Rightarrow> plain_bytes list \<times> string option" where
  "sample_query start = (if after_key start [(''a'', sample_row)] = [] then ([], None) else ([RecordBytes sample_row], Some ''a''))"

theorem paginated_read_ends_complete_witness:
  "dynamo_list_records plain_ledger_codec sample_query = Some (Inr [sample_row])"
proof -
  have "query_pages (\<lambda>_. True) sample_query [(''a'', RecordBytes sample_row)]"
    by (auto simp: query_pages_def sample_query_def after_key_def Let_def split: option.splits)
  from paginated_read_ends_complete [OF this, of plain_ledger_codec] show ?thesis
    by (simp add: plain_ledger_codec_def mk_record_def sample_row_def bootstrap_record_def certified_until_ok_def
        shape_rules_per_record_type_def forbid_predicate_def forbid_demotion_fields_def)
qed

end
