(* ===== verification/Admission_Signing.thy ===== *)
theory Admission_Signing
  imports Record_Signing
begin

text \<open>
  The signature of an admission record (\<open>broker/mcp/signing.py\<close>). The issuer's key signs two ledgers: the promotion
  records of theory \<open>Record_Signing\<close>, and the admissions of tools, through the seam \<open>sign_pae\<close> with the same payload
  type. The two are kept apart by the predicate type of the statement, and the signer a statement names. The results
  say that what verifies in either ledger was signed for that ledger, as stored, under the key id it names.
\<close>

section \<open>Admission records\<close>

definition ADMISSION_PREDICATE_TYPE :: string where
  "ADMISSION_PREDICATE_TYPE = ''https://safe-agents.dev/mcp-admission/v1''"

definition ADMISSION_VERIFY_REASONS :: DsseVerifyReasons where
  "ADMISSION_VERIFY_REASONS =
     \<lparr>dv_missing = ''admission_signature_missing'', dv_malformed = ''admission_signature_malformed'',
      dv_invalid = ''admission_signature_invalid'', dv_signer_unknown = ''admission_signer_unknown''\<rparr>"

record McpAdmissionRecord =
  ma_recordType :: string
  ma_serverId :: string
  ma_toolName :: string
  ma_defHash :: string
  ma_proposedBy :: string
  ma_ratifiedBy :: string
  ma_ts :: string
  ma_attestation :: "string option"

record AdmissionVerifyResult =
  av_ok :: bool
  av_reason :: "string option"

definition admission_json :: "McpAdmissionRecord \<Rightarrow> json" where
  "admission_json a =
     JObj [(''recordType'', JStr (ma_recordType a)), (''serverId'', JStr (ma_serverId a)), (''toolName'', JStr (ma_toolName a)),
           (''defHash'', JStr (ma_defHash a)), (''proposedBy'', JStr (ma_proposedBy a)), (''ratifiedBy'', JStr (ma_ratifiedBy a)),
           (''ts'', JStr (ma_ts a)), (''attestation'', opt_str (ma_attestation a))]"

definition canonical_admission_payload :: "McpAdmissionRecord \<Rightarrow> string" where
  "canonical_admission_payload a = json_text (admission_json a)"

definition admission_statement :: "crypto \<Rightarrow> McpAdmissionRecord \<Rightarrow> string \<Rightarrow> string \<Rightarrow> json" where
  "admission_statement K a key_id zone =
     JObj [(''_type'', JStr STATEMENT_TYPE),
           (''predicateType'', JStr ADMISSION_PREDICATE_TYPE),
           (''subject'', JList [JObj [(''name'', JStr ''mcp-admission-record''),
              (''digest'', JObj [(''sha256'', JStr (cx_sha256 K (canonical_admission_payload a)))])]]),
           (''predicate'', JObj [
              (''signer'', JObj [(''key_id'', JStr key_id), (''zone'', JStr zone)]),
              (''record'', JObj [
                 (''recordType'', JStr (ma_recordType a)),
                 (''serverId'', JStr (ma_serverId a)),
                 (''toolName'', JStr (ma_toolName a)),
                 (''defHash'', JStr (ma_defHash a)),
                 (''proposedBy'', JStr (ma_proposedBy a)),
                 (''ratifiedBy'', JStr (ma_ratifiedBy a)),
                 (''ts'', JStr (ma_ts a))])])]"

definition build_admission_statement :: "crypto \<Rightarrow> McpAdmissionRecord \<Rightarrow> string \<Rightarrow> string \<Rightarrow> string" where
  "build_admission_statement K a key_id zone = json_text (admission_statement K a key_id zone)"

definition sign_admission_record :: "crypto \<Rightarrow> McpAdmissionRecord \<Rightarrow> RecordSigner \<Rightarrow> json" where
  "sign_admission_record K a sgnr =
     (let statement = build_admission_statement K a (rs_key_id sgnr) (rs_zone sgnr);
          sig = rs_sign sgnr (pae DSSE_PAYLOAD_TYPE statement) in
      JObj [(''payloadType'', JStr DSSE_PAYLOAD_TYPE),
            (''payload'', JStr (b64encode statement)),
            (''signatures'', JList [JObj [(''keyid'', JStr (rs_key_id sgnr)), (''sig'', JStr (b64encode sig))]])])"

definition verify_admission_record :: "crypto \<Rightarrow> string \<Rightarrow> json \<Rightarrow> key_resolver \<Rightarrow> exn + AdmissionVerifyResult" where
  "verify_admission_record K stored envelope resolver =
     bind_r (verify_dsse_record K envelope ADMISSION_PREDICATE_TYPE (cx_sha256 K stored) resolver ADMISSION_VERIFY_REASONS)
       (\<lambda>reason. Inr \<lparr>av_ok = (reason = None), av_reason = reason\<rparr>)"

section \<open>What a key signs\<close>

text \<open>The messages the holder of a public key signs: the statements of promotion records and of admissions, each naming a
  key id and a zone, and documents of another payload type. \<open>S\<close> and \<open>A\<close> are what was signed with the key.\<close>

definition signs ::
  "crypto \<Rightarrow> (PromotionRecord \<times> string \<times> string) set \<Rightarrow> (McpAdmissionRecord \<times> string \<times> string) set \<Rightarrow> string \<Rightarrow> bool" where
  "signs K S A m \<longleftrightarrow>
     (\<exists>r k z. (r, k, z) \<in> S \<and> m = pae DSSE_PAYLOAD_TYPE (build_record_statement K r k z))
     \<or> (\<exists>a k z. (a, k, z) \<in> A \<and> m = pae DSSE_PAYLOAD_TYPE (build_admission_statement K a k z))
     \<or> (\<exists>t p. t \<noteq> DSSE_PAYLOAD_TYPE \<and> m = pae t p)"

lemma admission_reads:
  fixes K :: crypto and a :: McpAdmissionRecord and k zone :: string
  defines "st \<equiv> sorted_json (admission_statement K a k zone)"
  shows "is_obj st" "member st ''predicateType'' = Some (JStr ADMISSION_PREDICATE_TYPE)"
    "statement_subject st = Some (JStr (cx_sha256 K (canonical_admission_payload a)))"
    "statement_signer st = Some (JStr k)"
  unfolding st_def admission_statement_def statement_subject_def statement_signer_def
  by (simp_all add: member_sorted sorted_leaves head_of_def is_obj_def del: sorted_json.simps)
    (simp_all add: is_obj_def member_def)

lemma admission_wf: "wf_json (admission_statement K a k zone)"
  by (simp add: admission_statement_def)

lemma predicate_types_apart: "RECORD_PREDICATE_TYPE \<noteq> ADMISSION_PREDICATE_TYPE"
  by (simp add: RECORD_PREDICATE_TYPE_def ADMISSION_PREDICATE_TYPE_def)

text \<open>A signed statement with a given predicate type, subject and signer is one of that ledger.\<close>

lemma signed_statement:
  assumes reader: "json_reader (cx_loads K)" and signed: "signs K S A (pae DSSE_PAYLOAD_TYPE bytes)"
    and st: "cx_loads K bytes = Some st" "statement_subject st = Some (JStr d)" "statement_signer st = Some (JStr k)"
  shows "member st ''predicateType'' = Some (JStr RECORD_PREDICATE_TYPE) \<Longrightarrow>
      \<exists>r z. (r, k, z) \<in> S \<and> d = cx_sha256 K (canonical_record_payload r)"
    and "member st ''predicateType'' = Some (JStr ADMISSION_PREDICATE_TYPE) \<Longrightarrow>
      \<exists>a z. (a, k, z) \<in> A \<and> d = cx_sha256 K (canonical_admission_payload a)"
proof -
  note loads = json_reader.loads_text [OF reader]
  consider (promotion) r k' z where "(r, k', z) \<in> S" "st = sorted_json (record_statement K r k' z)"
    | (admission) a k' z where "(a, k', z) \<in> A" "st = sorted_json (admission_statement K a k' z)"
    using signed st(1) loads [OF statement_wf] loads [OF admission_wf]
    by (auto simp: signs_def pae_inject build_record_statement_def build_admission_statement_def)
  note which = this
  show "\<exists>r z. (r, k, z) \<in> S \<and> d = cx_sha256 K (canonical_record_payload r)"
    if "member st ''predicateType'' = Some (JStr RECORD_PREDICATE_TYPE)"
    using which that st(2,3) predicate_types_apart by cases (auto simp: statement_reads admission_reads)
  show "\<exists>a z. (a, k, z) \<in> A \<and> d = cx_sha256 K (canonical_admission_payload a)"
    if "member st ''predicateType'' = Some (JStr ADMISSION_PREDICATE_TYPE)"
    using which that st(2,3) predicate_types_apart by cases (auto simp: statement_reads admission_reads)
qed


text \<open>The same of the other ledger: no promotion record passes for an admission.\<close>

lemma verified_admission_was_signed:
  assumes reader: "json_reader (cx_loads K)"
    and unforgeable: "\<And>k pub b m. f k = Some pub \<Longrightarrow> cx_verify K pub b m \<Longrightarrow> signs K (S pub) (A pub) m"
    and ok: "verify_admission_record K stored envelope f = Inr res" "av_ok res"
  shows "\<exists>k pub a z. envelope_signer_key_id envelope = Some k \<and> f k = Some pub \<and> (a, k, z) \<in> A pub
    \<and> cx_sha256 K stored = cx_sha256 K (canonical_admission_payload a)"
proof -
  have "verify_dsse_record K envelope ADMISSION_PREDICATE_TYPE (cx_sha256 K stored) f ADMISSION_VERIFY_REASONS = Inr None"
    using ok by (auto simp: verify_admission_record_def bind_r_Inr_iff)
  from verify_dsse_ok [OF this] obtain k pub b bytes st where *: "envelope_signer_key_id envelope = Some k" "f k = Some pub"
    "cx_verify K pub b (pae DSSE_PAYLOAD_TYPE bytes)" "cx_loads K bytes = Some st"
    "member st ''predicateType'' = Some (JStr ADMISSION_PREDICATE_TYPE)"
    "statement_subject st = Some (JStr (cx_sha256 K stored))" "statement_signer st = Some (JStr k)" by blast
  from signed_statement(2) [OF reader unforgeable [OF *(2,3)] *(4,6,7,5)] * show ?thesis by blast
qed

text \<open>What the issuer signs for the admission ledger verifies there.\<close>

lemma signed_admission_verifies:
  assumes reader: "json_reader (cx_loads K)" and key: "f (rs_key_id sgnr) = Some pub"
    and keys: "cx_verify K pub (rs_sign sgnr (pae DSSE_PAYLOAD_TYPE (build_admission_statement K a (rs_key_id sgnr) (rs_zone sgnr))))
      (pae DSSE_PAYLOAD_TYPE (build_admission_statement K a (rs_key_id sgnr) (rs_zone sgnr)))"
  shows "verify_admission_record K (canonical_admission_payload a) (sign_admission_record K a sgnr) f = Inr \<lparr>av_ok = True, av_reason = None\<rparr>"
proof -
  let ?st = "admission_statement K a (rs_key_id sgnr) (rs_zone sgnr)"
  have type: "member (sorted_json ?st) ''_type'' = Some (JStr STATEMENT_TYPE)"
    unfolding admission_statement_def by (simp add: member_sorted del: sorted_json.simps) simp
  have dec: "decode_statement K (sign_admission_record K a sgnr) = Some (json_text ?st, sorted_json ?st)"
    using json_reader.loads_text [OF reader admission_wf] admission_reads(1)
    by (simp add: decode_statement_def sign_admission_record_def Let_def member_def build_admission_statement_def)
  let ?sig = "JObj [(''keyid'', JStr (rs_key_id sgnr)),
    (''sig'', JStr (b64encode (rs_sign sgnr (pae DSSE_PAYLOAD_TYPE (json_text ?st)))))]"
  have env: "is_obj (sign_admission_record K a sgnr)" "member (sign_admission_record K a sgnr) ''signatures'' = Some (JList [?sig])"
    "member (sign_admission_record K a sgnr) ''payloadType'' = Some (JStr DSSE_PAYLOAD_TYPE)"
    by (simp_all add: sign_admission_record_def Let_def is_obj_def member_def build_admission_statement_def)
  have "check_signatures K reasons f (JStr (rs_key_id sgnr)) (pae DSSE_PAYLOAD_TYPE (json_text ?st)) [?sig] = Inr None"
    for reasons using key keys by (simp add: member_def signature_bytes_def build_admission_statement_def)
  with dec env type show ?thesis
    by (simp add: verify_admission_record_def verify_dsse_record_def admission_reads falsy_def del: check_signatures.simps)
qed

section \<open>Witness\<close>





end
