(* ===== verification/Spec2Isabelle.thy ===== *)
theory Spec2Isabelle
  imports Enforcement_Concurrency Delegation_Pool Approval_Concurrency Audit_File Pep_Harness Ledger_Reads Broker_Pip
    Admission_Signing
begin

text \<open>
  A verification development of the deterministic tool broker under \<open>src/safe_agents/broker\<close>.

  The program. An agent asks the broker to run an operation of a tool. The enforcement point
  (\<open>runtime/pep.py\<close>) stamps a call, the information point (\<open>prototype/broker_server.py\<close>, \<open>_make_pip\<close>) reads the grant,
  the issuer standing behind it, the counters and the delegation tree, the decision point (\<open>pdp/engine.py\<close>) evaluates
  sixteen rules, and \<open>enforce\<close> (\<open>enforcement/engine.py\<close>) claims an idempotency key, revalidates, draws budgets, journals
  and runs the connector at most once. A held call waits in the approval engine (\<open>approval\<close>); every outcome is a record
  of a hash-chained tape (\<open>audit\<close>); what an external read returned taints the session and what it causes (\<open>taint\<close>).
  Authority is a grant, and a grant changes only with a record of an append-only ledger (\<open>grants\<close>): a maker-checker
  ceremony raises it, demotion, lapse, withdrawal and tightening lower it. Records are signed, and a signed standing
  document says which signing keys still count.

  Theories and sources. Each theory models the file named with it; a definition has the name of the source's function or
  class where Isabelle allows it, with a prefix for the backend (\<open>mem_\<close>, \<open>intmem_\<close>, \<open>gmem_\<close>, \<open>rmem_\<close>, \<open>pmem_\<close>, \<open>sinkmem_\<close>,
  \<open>submem_\<close>, \<open>inhmem_\<close> for the in-memory stores).
  \<^item> \<open>Prelude\<close>, \<open>Calendar\<close>, \<open>Json_Text\<close>: exceptions as values, dictionaries, datetimes as microseconds with the range of
    \<open>datetime\<close>, and canonical JSON text with its reader, proved inverse to each other.
  \<^item> \<open>Schemas\<close> (\<open>schemas\<close>), \<open>Tool_Table\<close> (\<open>manifest\<close>), \<open>Pdp\<close> (\<open>pdp\<close>): the rule table equals two decision trees, and the
    taint cut.
  \<^item> \<open>Clock_Skew\<close>, \<open>Counter_Keys\<close>, \<open>Input_Age\<close>: judged instants, counter coordinates and windows, the age gate.
  \<^item> \<open>Enforcement_Store\<close>, \<open>Enforcement\<close>, \<open>Enforcement_Run\<close>, \<open>Enforcement_Concurrency\<close> (\<open>enforcement\<close>): \<open>enforce\<close> over
    any store of locale \<open>enforcement_store\<close>; a machine of atomic steps that refines it, and at most one execution per key
    under every interleaving.
  \<^item> \<open>Delegation\<close>, \<open>Delegation_Pool\<close> (\<open>delegation\<close>): attenuation along a tree, and the bound on the shared pool.
  \<^item> \<open>Taint_Context\<close>, \<open>Inheritance\<close> (\<open>taint\<close>, \<open>runtime/inheritance.py\<close>): a caused context is no cleaner than its cause.
  \<^item> \<open>Approval_Store\<close>, \<open>Approval\<close>, \<open>Approval_Alarm\<close>, \<open>Approval_Concurrency\<close> (\<open>approval\<close>): authenticity of a release, one
    decision per hold, the queue alarm.
  \<^item> \<open>Audit_Chain\<close>, \<open>Audit_File\<close> (\<open>audit\<close>, \<open>auditor/_chain_verifier.py\<close>): the chain over any sink of locale \<open>audit_sink\<close>, and
    several processes on one file.
  \<^item> \<open>Doer\<close>, \<open>Pep_State\<close>, \<open>Pep\<close>, \<open>Pep_Safety\<close> (\<open>runtime\<close>): \<open>handle_request\<close> as a state-passing program over all of the
    above; taint of a session and the account of the tape over any sequence of requests.
  \<^item> \<open>Pep_Release\<close> (\<open>runtime/pep.py\<close>): the owner's verbs (\<open>describe_intent\<close>, \<open>approve_intent\<close>, \<open>reject_intent\<close>,
    \<open>flag_intent\<close>) and \<open>sweep_expired_intents\<close> on the same state; only an approval reaches a connector and only as far
    as the rules still allow, its records are receipts, and the sweep expires exactly what is due.
  \<^item> \<open>Pep_Harness\<close> (\<open>runtime/pep.py\<close>, \<open>harness_decision.py\<close>, \<open>observed.py\<close>): a harness's own calls, reported after they ran or
    decided before (\<open>decide_harness_call\<close>, with its hooks in the pipeline of every call); a permit is recorded, rests on facts
    read for it and spends its approval.
  \<^item> \<open>Grant_Schemas\<close>, \<open>Grant_Store\<close>, \<open>Grant_Lifecycle\<close>, \<open>Grant_Ceremony\<close>, \<open>Grant_Ratchet\<close>, \<open>Ledger_Reads\<close> (\<open>grants\<close>): records
    and validators, the atomic unit write over any store of locale \<open>grant_ledger\<close>, every writer, and the ratchet: levels
    rise only by ceremony and a readable grant is the balance of its ledger.
  \<^item> \<open>Record_Signing\<close>, \<open>Key_Standing\<close>, \<open>Grant_Standing\<close> (\<open>grants/record_signing.py\<close>, \<open>key_standing.py\<close>,
    \<open>standing_source.py\<close>, \<open>grant_standing.py\<close>, \<open>withdrawal.py\<close>): what a signer makes verifies; withdrawal of a key is
    terminal; which record a level rests on and what planted or copied records can do.
  \<^item> \<open>Admission_Signing\<close> (\<open>mcp/signing.py\<close>): the second ledger the issuer's key signs, with the same payload type, and that
    what verifies in either ledger was signed for that ledger, under a key of its role and the key id it names.
  \<^item> \<open>Broker_Pip\<close> (\<open>_make_pip\<close>, \<open>schemas/harness_tool.py\<close>): the facts of a decision, and that a write runs without a human
    only inside the authority in force. This theory closes with the property that joins the last five.

  Contracts. Where a component relies on another the contract is a locale, proved once and interpreted on the model:
  \<open>enforcement_store\<close> (\<open>mem\<close>), \<open>kept_by_store\<close> (\<open>lifted\<close>), \<open>sub_grant_store\<close> (\<open>submem\<close>), \<open>inheritance_store\<close> (\<open>inhmem\<close>),
  \<open>intent_codec\<close> and \<open>intent_store\<close> (\<open>plain\<close>, \<open>intmem\<close>), \<open>audit_sink\<close> (\<open>sinkmem\<close>, \<open>disk\<close>), \<open>json_lines\<close> (\<open>jl\<close>),
  \<open>broker_tape\<close> (\<open>memory_tape\<close>), \<open>verb_invariant\<close> (\<open>tried\<close>, \<open>telling\<close>), \<open>ledger_codec\<close> and
  \<open>grant_ledger\<close> (\<open>plain\<close>, \<open>gmem\<close>), \<open>json_reader\<close> (\<open>canonical_reader\<close>).

  Conventions and bounds. A raise is a value of the error side of a sum; messages are shortened where no branch reads
  them. A clock reading, a uuid, a digest, the HMAC, Ed25519, PEM loading and \<open>json.loads\<close> are arguments, and a property
  names what it needs of them. Floats are rationals. The reader of JSON takes the length of its text as fuel, which
  bounds its recursion; the paginated read needs no fuel, because each page consumes items; every other recursion is
  structural or has a measure.

  Runs of the ledger (\<open>lifecycle_step\<close>, \<open>lifecycle\<close>). A tampering step replaces a stored grant by bytes that
  fail verification; putting an older authentic grant back is not a step. Action classes are without \<open>#\<close>, the separator of the keys of a table.

  Not modelled. Turn contexts a caller passes to \<open>_handle_request\<close> explicitly; log lines; the DynamoDB, SQLite and S3
  backends, except the paginated reads of the ledger, because their atomicity is that of a service outside the
  repository; naive datetimes beyond the branches that refuse or read them as UTC; the boot of the prototype server,
  command lines, transports, connectors, credential strategies, the MCP host (but the signing of its records), the ledger
  audit (a report over exported tables), the channels, the arms and the deployment pipeline, which are glue over services
  or outside the decision path.
\<close>

section \<open>From an accepted withdrawal to the decision\<close>

lemma effective_level_cases:
  assumes "effective_level g now skew held = Inr l"
  shows "l = gr_level g \<or> l = gr_lastSafeLevel g"
  using assms by (auto simp: effective_level_def bind_r_Inr_iff split: if_splits)

text \<open>C9: accepting the withdrawal of a key stops the writes that rest on it. A process starts its standing check on an
  empty source and asks it any number of times while fetched texts, clocks and failures of reads are arbitrary; at some
  point its source reports key \<open>k\<close> withdrawn. From then on, whatever was cached and whatever is fetched later, the facts
  the pip composes for a write under a grant whose licensing record carries a signature of \<open>k\<close>, and whose last safe level
  is in-loop, never let the rule table execute the call: it is held for a human or denied.\<close>

theorem withdrawn_key_stops_writes:
  assumes start: "standing_source cfg = Inr src0" "grant_standing_check cfg src0 epoch skew every = Inr (c, st0)"
    and run: "check_run K c p action_class stored st0 st" "source_key_state (gs_source st) k = Some ''withdrawn''"
      "check_run K c p action_class stored st st'"
    and call: "bc_principal call = p" "bc_tool call @ ''.'' @ bc_op call = action_class" "\<not> is_read call"
    and store: "get_grant S s p action_class = Inr res" "rr_grant res = Some g" "coordinate g = (p, action_class)"
      "list_stored_records S s p action_class = Inr stored \<or> (\<exists>x. list_stored_records S s p action_class = Inl x)"
    and licensed: "recorded_instant (gr_ts g) = Some T" "licensing_record stored T = Some i"
      "sr_signature (stored ! i) = Some sig" "envelope_signer_key_id sig = Some k"
    and safe: "gr_lastSafeLevel g = in_loop"
    and pip: "make_pip S E sub_grants pcfg (Some (K, c, w)) t s e call st' = (Inr f, inner, st'')"
  shows "\<not> executes (decide sha call f)"
proof
  assume runs: "executes (decide sha call f)"
  obtain standing_held level where l: "effective_level g (pk_now t) (pc_clock_skew pcfg) standing_held = Inr level" "level \<noteq> in_loop"
    "AUTONOMY_RANK (gr_lastSafeLevel g) < AUTONOMY_RANK (gr_level g)
      \<longrightarrow> standing_held = sa_held (fst (assess K c (list_stored_records S s) w g (pk_now t) st'))"
    using write_authority [OF pip runs call(3)] store(1,2) unfolding call by auto
  obtain a st2 where a: "assess K c (list_stored_records S s) w g (pk_now t) st' = (a, st2)" by fastforce
  have "gr_level g \<noteq> in_loop" using effective_level_cases [OF l(1)] l(2) safe by auto
  then have "AUTONOMY_RANK (gr_lastSafeLevel g) < AUTONOMY_RANK (gr_level g)"
    using safe by (cases "gr_level g") (simp_all add: AUTONOMY_RANK_def)
  then have "standing_held = sa_held a" using l(3) a by simp
  then have "AUTONOMY_RANK level \<le> AUTONOMY_RANK in_loop"
    using withdrawn_key_licenses_nothing [OF start run store(4,3) licensed a] l(1) safe by auto
  then show False using l(2) by (cases level) (simp_all add: AUTONOMY_RANK_def)
qed

theorem withdrawn_key_stops_writes_witness:
  "\<exists>st f inner st'. source_key_state (gs_source st) ''k1'' = Some ''withdrawn''
    \<and> make_pip (gmem_ops (pip_codec licensed_grant)) mem_ops no_delegation pip_config
        (Some (standing_crypto, sample_check, \<lparr>fw_clock = 0, fw_fetched = Inr [], fw_busy = True\<rparr>)) pip_now pip_ledger mem_init
        (sample_call mail_op False) st = (Inr f, inner, st')
    \<and> \<not> executes (decide id (sample_call mail_op False) f)"
proof -
  let ?S = "gmem_ops (pip_codec licensed_grant)" and ?call = "sample_call mail_op False"
  let ?w = "\<lparr>fw_clock = 0, fw_fetched = Inr [], fw_busy = True\<rparr>"
  have co: "coordinate licensed_grant = (sample_principal, ''mail.send'')" by (simp add: coordinate_def licensed_grant_def)
  have g: "gr_principal licensed_grant = sample_principal" "gr_actionClass licensed_grant = ''mail.send''"
    "gr_lastSafeLevel licensed_grant = in_loop" by (simp_all add: licensed_grant_def)
  obtain st where st: "check_run standing_crypto sample_check sample_principal ''mail.send'' [signed_entry ''k1'' ''P'' sample_signed]
      \<lparr>gs_source = empty_source, gs_next_refresh = None, gs_cache = []\<rparr> st" "source_key_state (gs_source st) ''k1'' = Some ''withdrawn''"
    using withdrawing_check [of licensed_grant "list_stored_records ?S pip_ledger", unfolded co g] mail_records by auto
  have "\<exists>lf inner st'. pip_level pip_config (Some (standing_crypto, sample_check, ?w)) (list_stored_records ?S pip_ledger) 0
      (Some licensed_grant) st = (Inr lf, inner, st')"
    using mail_level by (simp add: pip_level_def pip_config_def Let_def case_prod_unfold)
  then obtain l fall inner st' where level: "pip_level pip_config (Some (standing_crypto, sample_check, ?w)) (list_stored_records ?S pip_ledger) 0
      (Some licensed_grant) st = (Inr (l, fall), inner, st')" by auto
  note pip = mail_facts [OF level]
  have call: "bc_principal ?call = sample_principal" "bc_tool ?call @ ''.'' @ bc_op ?call = ''mail.send''" "\<not> is_read ?call"
    by (simp_all add: sample_call_def mail_op_def sample_note_def)
  have "\<not> executes (decide id ?call ((sample_facts l)\<lparr>standing_fall_reason := fall\<rparr>))"
    by (rule withdrawn_key_stops_writes [OF empty_started sample_check_begun st check_run.begun call mail_read _ co disjI1 [OF mail_records]
          licensed_sample(1,2) _ signed_entry_simps(4) g(3) pip]) (simp_all add: signed_entry_simps)
  with st(2) pip show ?thesis by blast
qed

end
